(* ===== verification/Prelude.thy ===== *)
theory Prelude
  imports Main "HOL-Library.Word" "HOL-Library.Signed_Division"
begin

section \<open>Shared vocabulary of the development\<close>

text \<open>
  Types, the result monad, byte/word conversions, slices, and the two searching routines of
  Rust's \<open>core::slice\<close> that the sources call.  Everything below is used by at least two of the
  component theories.

  Conventions.  The firmware crate is built with the release profile
  (\<^verbatim>\<open>core/SConscript.firmware\<close>, \<^verbatim>\<open>RUST_PROFILE = 'release'\<close>): integer arithmetic wraps,
  a shift uses the low bits of the shift amount, and an index out of range, an \<open>unwrap!\<close> of an
  absent value or a \<open>fatal_error!\<close> stops the program.  That last outcome is the value
  \<open>Panic\<close> of type \<open>'e fault\<close>; an \<open>Err(e)\<close> of the source is \<open>Err e\<close>.  The target is a
  32-bit machine, so \<open>usize\<close> is 32 bits wide.
\<close>

unbundle bit_operations_syntax

named_theorems result_simps \<open>rewrite rules of the result monad\<close>
named_theorems i16_simps \<open>rewrite rules that remove a wrap-around that does not happen\<close>

subsection \<open>Machine types\<close>

type_synonym u8 = "8 word"
type_synonym u16 = "16 word"
type_synonym u32 = "32 word"
type_synonym u64 = "64 word"
type_synonym i64 = "64 word" \<comment> \<open>two's complement, read with \<^const>\<open>sint\<close>\<close>
type_synonym bytes = "8 word list"

text \<open>\<open>usize\<close> values are naturals below \<open>2 ^ 32\<close>; additions of the source wrap.\<close>

definition usize_add :: "nat \<Rightarrow> nat \<Rightarrow> nat" where
  "usize_add a b = (a + b) mod 2 ^ 32"

definition usize_sub :: "nat \<Rightarrow> nat \<Rightarrow> nat" where
  "usize_sub a b = (a + 2 ^ 32 - b) mod 2 ^ 32"

text \<open>Code equations that compute with binary integers.\<close>

lemma usize_add_code [code]: "usize_add a b = nat ((int a + int b) mod 4294967296)"
  by (simp add: usize_add_def nat_mod_distrib nat_add_distrib)

lemma usize_sub_code [code]:
  "usize_sub a b = nat (max 0 (int a + 4294967296 - int b) mod 4294967296)"
  unfolding usize_sub_def by (simp add: nat_mod_distrib max_def nat_diff_distrib' nat_add_distrib)

lemma unat_u8: "unat (v :: u8) < 256"
  using unsigned_less [of v] by simp

lemma unat_u16: "unat (v :: u16) < 65536"
  using unsigned_less [of v] by simp

lemma usize_sub_le: "b \<le> a \<Longrightarrow> a < 2 ^ 32 \<Longrightarrow> usize_sub a b = a - b"
  unfolding usize_sub_def
  by (metis Nat.add_diff_assoc2 add.commute less_imp_diff_less mod_add_self2 mod_less)

subsection \<open>Results: \<open>Result<T, E>\<close> with panics\<close>

datatype 'e fault = Err 'e | Panic

type_synonym ('a, 'e) result = "'e fault + 'a"

definition rbind :: "('a, 'e) result \<Rightarrow> ('a \<Rightarrow> ('b, 'e) result) \<Rightarrow> ('b, 'e) result" where
  "rbind r f = (case r of Inl e \<Rightarrow> Inl e | Inr x \<Rightarrow> f x)"

definition ok_or :: "'a option \<Rightarrow> 'e \<Rightarrow> ('a, 'e) result" where
  "ok_or x e = (case x of None \<Rightarrow> Inl (Err e) | Some y \<Rightarrow> Inr y)"

definition unwrap :: "'a option \<Rightarrow> ('a, 'e) result" where
  "unwrap x = (case x of None \<Rightarrow> Inl Panic | Some y \<Rightarrow> Inr y)"

definition is_ok :: "('a, 'e) result \<Rightarrow> bool" where
  "is_ok r = (case r of Inl _ \<Rightarrow> False | Inr _ \<Rightarrow> True)"

lemma rbind_Inl [simp]: "rbind (Inl e) f = Inl e"
  by (simp add: rbind_def)

lemma rbind_Inr [simp]: "rbind (Inr x) f = f x"
  by (simp add: rbind_def)

lemma ok_or_simps [simp]: "ok_or None e = Inl (Err e)" "ok_or (Some y) e = Inr y"
  by (simp_all add: ok_or_def)

lemma unwrap_simps [simp]: "unwrap None = Inl Panic" "unwrap (Some y) = Inr y"
  by (simp_all add: unwrap_def)

lemma is_ok_simps [simp]: "is_ok (Inr x)" "\<not> is_ok (Inl e)"
  by (simp_all add: is_ok_def)

lemma is_ok_iff: "is_ok r \<longleftrightarrow> (\<exists>x. r = Inr x)"
  by (cases r) auto

lemma rbind_eq_Inr [result_simps]: "rbind r f = Inr y \<longleftrightarrow> (\<exists>x. r = Inr x \<and> f x = Inr y)"
  by (cases r) auto

lemma rbind_eq_Inl [result_simps]:
  "rbind r f = Inl e \<longleftrightarrow> r = Inl e \<or> (\<exists>x. r = Inr x \<and> f x = Inl e)"
  by (cases r) auto

lemma ok_or_eq_Inr [result_simps]: "ok_or x e = Inr y \<longleftrightarrow> x = Some y"
  by (cases x) auto

lemma ok_or_eq_Inl [result_simps]: "ok_or x e = Inl f \<longleftrightarrow> x = None \<and> f = Err e"
  by (cases x) auto

lemma unwrap_eq_Inr [result_simps]: "unwrap x = Inr y \<longleftrightarrow> x = Some y"
  by (cases x) auto

lemma unwrap_eq_Inl [result_simps]: "unwrap x = Inl f \<longleftrightarrow> x = None \<and> f = Panic"
  by (cases x) auto

lemma rbind_cong [fundef_cong]:
  "r = r' \<Longrightarrow> (\<And>x. r' = Inr x \<Longrightarrow> f x = f' x) \<Longrightarrow> rbind r f = rbind r' f'"
  by (cases r') auto

lemma rbind_assoc: "rbind (rbind r f) g = rbind r (\<lambda>x. rbind (f x) g)"
  by (cases r) auto

text \<open>
  \<open>safe r Q\<close>: the computation does not panic, and if it returns a value the value satisfies \<open>Q\<close>.
  The rules of \<open>safe_intros\<close> cut a proof about a chain of fallible steps at every step.
\<close>

definition safe :: "('a, 'e) result \<Rightarrow> ('a \<Rightarrow> bool) \<Rightarrow> bool" where
  "safe r Q \<longleftrightarrow> (case r of Inl (Err _) \<Rightarrow> True | Inl Panic \<Rightarrow> False | Inr x \<Rightarrow> Q x)"

named_theorems safe_intros

lemma safe_Inr [safe_intros]: "Q x \<Longrightarrow> safe (Inr x) Q"
  by (simp add: safe_def)

lemma safe_Err [safe_intros]: "safe (Inl (Err e)) Q"
  by (simp add: safe_def)

lemma safe_rbind: "safe r R \<Longrightarrow> (\<And>x. R x \<Longrightarrow> safe (f x) Q) \<Longrightarrow> safe (rbind r f) Q"
proof (cases r)
  case (Inl e)
  assume "safe r R"
  with Inl show ?thesis by (cases e) (simp_all add: safe_def)
next
  case (Inr x)
  assume "safe r R" "\<And>x. R x \<Longrightarrow> safe (f x) Q"
  with Inr show ?thesis by (simp add: safe_def)
qed

lemma safe_if [safe_intros]: "(b \<Longrightarrow> safe r Q) \<Longrightarrow> (\<not> b \<Longrightarrow> safe s Q) \<Longrightarrow> safe (if b then r else s) Q"
  by simp

lemma safe_ok_or [safe_intros]: "(\<And>x. v = Some x \<Longrightarrow> Q x) \<Longrightarrow> safe (ok_or v e) Q"
  by (cases v) (simp_all add: safe_def ok_or_def)

lemma safe_unwrap [safe_intros]: "v = Some x \<Longrightarrow> Q x \<Longrightarrow> safe (unwrap v) Q"
  by (simp add: safe_def unwrap_def)

lemma safe_mono: "safe r R \<Longrightarrow> (\<And>x. R x \<Longrightarrow> Q x) \<Longrightarrow> safe r Q"
  by (auto simp: safe_def split: sum.splits fault.splits)

lemma safeD: "safe r Q \<Longrightarrow> r = Inr x \<Longrightarrow> Q x" and safe_no_panic: "safe r Q \<Longrightarrow> r \<noteq> Inl Panic"
  by (auto simp: safe_def)

text \<open>\<open>returns r Q\<close>: the computation returns a value, and the value satisfies \<open>Q\<close>.\<close>

definition returns :: "('a, 'e) result \<Rightarrow> ('a \<Rightarrow> bool) \<Rightarrow> bool" where
  "returns r Q \<longleftrightarrow> (case r of Inl _ \<Rightarrow> False | Inr x \<Rightarrow> Q x)"

lemma returns_Inr [simp]: "returns (Inr x) Q \<longleftrightarrow> Q x"
  by (simp add: returns_def)

lemma returns_iff: "returns r Q \<longleftrightarrow> (\<exists>x. r = Inr x \<and> Q x)"
  by (auto simp: returns_def split: sum.splits)

lemma returns_rbind: "returns r R \<Longrightarrow> (\<And>x. R x \<Longrightarrow> returns (f x) Q) \<Longrightarrow> returns (rbind r f) Q"
  by (auto simp: returns_iff)

lemma returns_mono: "returns r R \<Longrightarrow> (\<And>x. R x \<Longrightarrow> Q x) \<Longrightarrow> returns r Q"
  by (auto simp: returns_iff)

lemma safe_iff: "safe r Q \<longleftrightarrow> r \<noteq> Inl Panic \<and> (\<forall>x. r = Inr x \<longrightarrow> Q x)"
  by (auto simp: safe_def split: sum.splits fault.splits)

subsection \<open>Slices\<close>

text \<open>\<open>slice.get(a..b)\<close> and the panicking \<open>&slice[a..b]\<close>.\<close>

definition slice_get :: "'a list \<Rightarrow> nat \<Rightarrow> nat \<Rightarrow> 'a list option" where
  "slice_get xs a b = (if a \<le> b \<and> b \<le> length xs then Some (take (b - a) (drop a xs)) else None)"

definition nth_get :: "'a list \<Rightarrow> nat \<Rightarrow> 'a option" where
  "nth_get xs i = (if i < length xs then Some (xs ! i) else None)"

lemma slice_get_append:
  "slice_get (xs @ ys @ zs) (length xs) (length xs + length ys) = Some ys"
  by (simp add: slice_get_def)

lemma slice_get_length: "slice_get xs a b = Some ys \<Longrightarrow> length ys = b - a"
  by (auto simp: slice_get_def split: if_splits)

lemma nth_get_append_self [simp]: "nth_get (xs @ y # ys) (length xs) = Some y"
  by (simp add: nth_get_def)

lemma append_take_drop_tail [simp]: "take n xs @ drop n xs @ ys = xs @ ys"
  by (metis append.assoc append_take_drop_id)

lemma take_drop_split: "a \<le> b \<Longrightarrow> take a xs @ take (b - a) (drop a xs) @ drop b xs = xs"
  by (metis append.assoc append_take_drop_id le_add_diff_inverse take_add)

text \<open>A list cut into groups of \<open>n\<close> elements, the last one possibly shorter.\<close>

function groups :: "nat \<Rightarrow> 'a list \<Rightarrow> 'a list list" where
  "groups n xs = (if xs = [] \<or> n = 0 then [] else take n xs # groups n (drop n xs))"
  by pat_completeness auto
termination
  by (relation "measure (\<lambda>(n, xs). length xs)") (auto simp: neq_Nil_conv)

declare groups.simps [simp del]

lemma groups_Nil [simp]: "groups n [] = []"
  by (simp add: groups.simps)

lemma groups_Cons: "xs \<noteq> [] \<Longrightarrow> 0 < n \<Longrightarrow> groups n xs = take n xs # groups n (drop n xs)"
  by (simp add: groups.simps [of n xs])

lemma length_groups: "0 < n \<Longrightarrow> length (groups n xs) * n \<le> length xs + (n - 1)"
proof (induction n xs rule: groups.induct)
  case (1 n xs)
  show ?case
  proof (cases "xs = []")
    case False
    show ?thesis
    proof (cases "length xs \<le> n")
      case True
      with False "1.prems" show ?thesis
        by (cases xs) (auto simp: groups_Cons)
    next
      case long: False
      with "1.IH" False "1.prems" have "length (groups n (drop n xs)) * n \<le> length xs - n + (n - 1)"
        by simp
      with long False "1.prems" show ?thesis by (simp add: groups_Cons)
    qed
  qed simp
qed

lemma length_groups_mult: "0 < n \<Longrightarrow> length xs = k * n \<Longrightarrow> length (groups n xs) = k"
proof (induction k arbitrary: xs)
  case (Suc k)
  then have "xs \<noteq> []" by auto
  with Suc show ?case by (simp add: groups_Cons)
qed simp

subsection \<open>Byte order\<close>

text \<open>
  \<open>from_be_bytes\<close>, \<open>from_le_bytes\<close> and their inverses.  \<^const>\<open>word_rcat\<close> concatenates a list
  of words, most significant first.
\<close>

definition from_be_bytes :: "bytes \<Rightarrow> 'a::len word" where
  "from_be_bytes bs = word_rcat bs"

definition from_le_bytes :: "bytes \<Rightarrow> 'a::len word" where
  "from_le_bytes bs = word_rcat (rev bs)"

definition u16_be_bytes :: "u16 \<Rightarrow> bytes" where
  "u16_be_bytes w = [ucast (drop_bit 8 w), ucast w]"

definition u32_be_bytes :: "u32 \<Rightarrow> bytes" where
  "u32_be_bytes w =
     [ucast (drop_bit 24 w), ucast (drop_bit 16 w), ucast (drop_bit 8 w), ucast w]"

definition u16_le_bytes :: "u16 \<Rightarrow> bytes" where
  "u16_le_bytes w = rev (u16_be_bytes w)"

lemma length_be_bytes [simp]:
  "length (u16_be_bytes w) = 2" "length (u32_be_bytes v) = 4" "length (u16_le_bytes w) = 2"
  by (simp_all add: u16_be_bytes_def u32_be_bytes_def u16_le_bytes_def)

lemma bit_word_rcat_byte:
  "bit (word_rcat (bs :: bytes) :: 'a::len word) n
     \<longleftrightarrow> n < LENGTH('a) \<and> n < length bs * 8 \<and> bit (rev bs ! (n div 8)) (n mod 8)"
  using bit_horner_sum_uint_exp_iff [of "rev bs" n]
  by (auto simp: word_rcat_def bit_word_of_int_iff)

lemma from_be_u16 [simp]: "from_be_bytes (u16_be_bytes w) = w"
proof (rule bit_word_eqI)
  fix n assume "n < LENGTH(16)"
  then have n: "n < 16" by simp
  consider "n < 8" | "8 \<le> n" by linarith
  then show "bit (from_be_bytes (u16_be_bytes w) :: u16) n = bit w n"
  proof cases
    case 1
    then have "n div 8 = 0" "n mod 8 = n" by simp_all
    with 1 show ?thesis
      by (simp add: from_be_bytes_def u16_be_bytes_def bit_word_rcat_byte bit_simps)
  next
    case 2
    with n have "n div 8 = 1" "n mod 8 = n - 8" by (simp_all add: div_if mod_if)
    moreover have "n - 8 < 8" using 2 n by simp
    ultimately show ?thesis using 2 n
      by (simp add: from_be_bytes_def u16_be_bytes_def bit_word_rcat_byte bit_simps)
  qed
qed

lemma from_be_u32 [simp]: "from_be_bytes (u32_be_bytes w) = w"
proof (rule bit_word_eqI)
  fix n assume "n < LENGTH(32)"
  then have n: "n < 32" by simp
  consider "n < 8" | "8 \<le> n" "n < 16" | "16 \<le> n" "n < 24" | "24 \<le> n" by linarith
  then show "bit (from_be_bytes (u32_be_bytes w) :: u32) n = bit w n"
  proof cases
    case 1
    then have "n div 8 = 0" "n mod 8 = n" by simp_all
    with 1 show ?thesis
      by (simp add: from_be_bytes_def u32_be_bytes_def bit_word_rcat_byte bit_simps)
  next
    case 2
    then have "n div 8 = 1" "n mod 8 = n - 8" by (simp_all add: div_if mod_if)
    moreover have "n - 8 < 8" using 2 by simp
    ultimately show ?thesis using 2
      by (simp add: from_be_bytes_def u32_be_bytes_def bit_word_rcat_byte bit_simps)
  next
    case 3
    then have "n div 8 = 2" by (intro div_nat_eqI) simp_all
    then have "n mod 8 = n - 16" by (simp add: minus_div_mult_eq_mod [symmetric])
    note \<open>n div 8 = 2\<close> this
    moreover have "n - 16 < 8" using 3 by simp
    ultimately show ?thesis using 3
      by (simp add: from_be_bytes_def u32_be_bytes_def bit_word_rcat_byte bit_simps)
  next
    case 4
    with n have "n div 8 = 3" by (intro div_nat_eqI) simp_all
    then have "n mod 8 = n - 24" by (simp add: minus_div_mult_eq_mod [symmetric])
    note \<open>n div 8 = 3\<close> this
    moreover have "n - 24 < 8" using 4 n by simp
    ultimately show ?thesis using 4 n
      by (simp add: from_be_bytes_def u32_be_bytes_def bit_word_rcat_byte bit_simps)
  qed
qed

lemma from_le_u16 [simp]: "from_le_bytes (u16_le_bytes w) = w"
  using from_be_u16 [of w] by (simp add: from_le_bytes_def from_be_bytes_def u16_le_bytes_def)

subsection \<open>Ordering and the searches of \<open>core::slice\<close>\<close>

datatype ordering = Less | Equal | Greater

definition cmp :: "'a::linorder \<Rightarrow> 'a \<Rightarrow> ordering" where
  "cmp a b = (if a < b then Less else if a = b then Equal else Greater)"

primrec reverse :: "ordering \<Rightarrow> ordering" where
  "reverse Less = Greater"
| "reverse Equal = Equal"
| "reverse Greater = Less"

lemma cmp_simps [simp]:
  "cmp a b = Less \<longleftrightarrow> a < b" "cmp a b = Equal \<longleftrightarrow> a = b" "cmp a b = Greater \<longleftrightarrow> b < a"
  by (auto simp: cmp_def)

text \<open>
  The loop of \<open>[T]::binary_search_by\<close>: \<open>Inr i\<close> is \<open>Ok(i)\<close>, \<open>Inl i\<close> is \<open>Err(i)\<close>, the place
  where the element would be inserted.
\<close>

function bsearch_loop :: "('a \<Rightarrow> ordering) \<Rightarrow> 'a list \<Rightarrow> nat \<Rightarrow> nat \<Rightarrow> nat + nat" where
  "bsearch_loop f xs left right =
     (if left < right then
        let mid = left + (right - left) div 2 in
        case f (xs ! mid) of
          Less \<Rightarrow> bsearch_loop f xs (mid + 1) right
        | Greater \<Rightarrow> bsearch_loop f xs left mid
        | Equal \<Rightarrow> Inr mid
      else Inl left)"
  by pat_completeness auto
termination
  by (relation "measure (\<lambda>(f, xs, left, right). right - left)") auto

declare bsearch_loop.simps [simp del]

definition binary_search_by :: "('a \<Rightarrow> ordering) \<Rightarrow> 'a list \<Rightarrow> nat + nat" where
  "binary_search_by f xs = bsearch_loop f xs 0 (length xs)"

definition binary_search_by_key :: "('a \<Rightarrow> 'k::linorder) \<Rightarrow> 'k \<Rightarrow> 'a list \<Rightarrow> nat + nat" where
  "binary_search_by_key key k xs = binary_search_by (\<lambda>x. cmp (key x) k) xs"

definition partition_point :: "('a \<Rightarrow> bool) \<Rightarrow> 'a list \<Rightarrow> nat" where
  "partition_point p xs =
     (case binary_search_by (\<lambda>x. if p x then Less else Greater) xs of Inl i \<Rightarrow> i | Inr i \<Rightarrow> i)"

lemma bsearch_loop_found:
  "bsearch_loop f xs l r = Inr i \<Longrightarrow> l \<le> i \<and> i < r \<and> f (xs ! i) = Equal"
proof (induction f xs l r rule: bsearch_loop.induct)
  case (1 f xs l r)
  define mid where "mid = l + (r - l) div 2"
  from "1.prems" have lr: "l < r" by (auto simp: bsearch_loop.simps [of f xs l r] split: if_splits)
  then have mid: "l \<le> mid" "mid < r" by (auto simp: mid_def)
  show ?case
  proof (cases "f (xs ! mid)")
    case Less
    with "1.prems" lr have "bsearch_loop f xs (mid + 1) r = Inr i"
      by (simp add: bsearch_loop.simps [of f xs l r] mid_def Let_def)
    with "1.IH"(1) lr Less mid show ?thesis by (fastforce simp: mid_def)
  next
    case Equal
    with "1.prems" lr mid show ?thesis
      by (simp add: bsearch_loop.simps [of f xs l r] mid_def Let_def)
  next
    case Greater
    with "1.prems" lr have "bsearch_loop f xs l mid = Inr i"
      by (simp add: bsearch_loop.simps [of f xs l r] mid_def Let_def)
    with "1.IH"(2) lr Greater mid show ?thesis by (fastforce simp: mid_def)
  qed
qed

text \<open>A comparison is monotone along a list when it reads \<open>Less \<dots> Equal \<dots> Greater \<dots>\<close>.\<close>

definition ordered_by :: "('a \<Rightarrow> ordering) \<Rightarrow> 'a list \<Rightarrow> bool" where
  "ordered_by f xs \<longleftrightarrow> (\<forall>i j. i < j \<longrightarrow> j < length xs \<longrightarrow>
     (f (xs ! j) = Less \<longrightarrow> f (xs ! i) = Less) \<and> (f (xs ! i) = Greater \<longrightarrow> f (xs ! j) = Greater))"

lemma ordered_by_Less:
  "ordered_by f xs \<Longrightarrow> f (xs ! j) = Less \<Longrightarrow> i \<le> j \<Longrightarrow> j < length xs \<Longrightarrow> f (xs ! i) = Less"
  unfolding ordered_by_def by (metis le_neq_implies_less)

lemma ordered_by_Greater:
  "ordered_by f xs \<Longrightarrow> f (xs ! i) = Greater \<Longrightarrow> i \<le> j \<Longrightarrow> j < length xs \<Longrightarrow> f (xs ! j) = Greater"
  unfolding ordered_by_def by (metis le_neq_implies_less)

lemma bsearch_loop_absent:
  assumes "bsearch_loop f xs l r = Inl i" "ordered_by f xs" "l \<le> r" "r \<le> length xs"
    and "\<And>j. j < l \<Longrightarrow> f (xs ! j) = Less" "\<And>j. r \<le> j \<Longrightarrow> j < length xs \<Longrightarrow> f (xs ! j) = Greater"
  shows "i \<le> length xs \<and> (\<forall>j<i. f (xs ! j) = Less) \<and> (\<forall>j. i \<le> j \<longrightarrow> j < length xs \<longrightarrow> f (xs ! j) = Greater)"
  using assms
proof (induction f xs l r rule: bsearch_loop.induct)
  case (1 f xs l r)
  define mid where "mid = l + (r - l) div 2"
  show ?case
  proof (cases "l < r")
    case False
    with "1.prems" show ?thesis by (auto simp: bsearch_loop.simps [of f xs l r])
  next
    case lr: True
    then have mid: "l \<le> mid" "mid < r" by (auto simp: mid_def)
    note unfold = bsearch_loop.simps [of f xs l r] mid_def Let_def
    show ?thesis
    proof (cases "f (xs ! mid)")
      case Less
      have below: "f (xs ! j) = Less" if "j < mid + 1" for j
        using ordered_by_Less [OF "1.prems"(2) Less, of j] that "1.prems"(4) mid by simp
      from "1.prems"(1) lr Less have "bsearch_loop f xs (mid + 1) r = Inl i" by (simp add: unfold)
      with "1.IH"(1) lr Less mid below "1.prems"(2,4,6) show ?thesis by (simp add: mid_def)
    next
      case Equal
      with "1.prems"(1) lr show ?thesis by (simp add: unfold)
    next
      case Greater
      have above: "f (xs ! j) = Greater" if "mid \<le> j" "j < length xs" for j
        using ordered_by_Greater [OF "1.prems"(2) Greater that] .
      from "1.prems"(1) lr Greater have "bsearch_loop f xs l mid = Inl i" by (simp add: unfold)
      with "1.IH"(2) lr Greater mid above "1.prems"(2,4,5) show ?thesis by (simp add: mid_def)
    qed
  qed
qed

lemma binary_search_by_key_correct:
  assumes "sorted_wrt (<) (map key xs)"
  shows "binary_search_by_key key k xs = Inr i \<longleftrightarrow> i < length xs \<and> key (xs ! i) = k"
proof -
  let ?f = "\<lambda>x. cmp (key x) k"
  have mono: "key (xs ! a) < key (xs ! b)" if "a < b" "b < length xs" for a b
    using assms that by (auto simp: sorted_wrt_iff_nth_less)
  have ord: "ordered_by ?f xs"
    using mono by (auto simp: ordered_by_def) (meson less_trans)+
  have inj: "a = b" if "key (xs ! a) = key (xs ! b)" "a < length xs" "b < length xs" for a b
    using mono [of a b] mono [of b a] that by (cases a b rule: linorder_cases) auto
  show ?thesis
  proof (cases "bsearch_loop ?f xs 0 (length xs)")
    case (Inr j)
    from bsearch_loop_found [OF Inr] have "j < length xs" "key (xs ! j) = k" by auto
    with Inr inj show ?thesis
      by (auto simp: binary_search_by_key_def binary_search_by_def)
  next
    case (Inl j)
    from bsearch_loop_absent [OF Inl ord] have
      "\<forall>m<j. key (xs ! m) < k" "\<forall>m. j \<le> m \<longrightarrow> m < length xs \<longrightarrow> k < key (xs ! m)" by auto
    then have "\<not> (i < length xs \<and> key (xs ! i) = k)"
      by (metis less_irrefl not_le_imp_less)
    with Inl show ?thesis by (auto simp: binary_search_by_key_def binary_search_by_def)
  qed
qed

lemma partition_point_correct:
  assumes "\<And>i j. i < j \<Longrightarrow> j < length xs \<Longrightarrow> p (xs ! j) \<Longrightarrow> p (xs ! i)"
  shows "partition_point p xs \<le> length xs \<and> (\<forall>i < partition_point p xs. p (xs ! i))
    \<and> (\<forall>i. partition_point p xs \<le> i \<longrightarrow> i < length xs \<longrightarrow> \<not> p (xs ! i))"
proof -
  let ?f = "\<lambda>x. if p x then Less else Greater"
  have ord: "ordered_by ?f xs"
    using assms by (auto simp: ordered_by_def)
  show ?thesis
  proof (cases "bsearch_loop ?f xs 0 (length xs)")
    case (Inl i)
    from bsearch_loop_absent [OF Inl ord] have
      "i \<le> length xs" "\<forall>j<i. ?f (xs ! j) = Less"
      "\<forall>j. i \<le> j \<longrightarrow> j < length xs \<longrightarrow> ?f (xs ! j) = Greater" by auto
    with Inl show ?thesis
      by (auto simp: partition_point_def binary_search_by_def split: if_splits)
  next
    case (Inr i)
    from bsearch_loop_found [OF Inr] show ?thesis by (auto split: if_splits)
  qed
qed

end
