(* ===== verification/Time.thy ===== *)
theory Time
  imports Prelude
begin

section \<open>Durations, instants, stopwatches and animations\<close>

text \<open>
  \<^verbatim>\<open>core/embed/rust/src/time.rs\<close> and the timing part of \<^verbatim>\<open>ui/animation.rs\<close>.  Milliseconds are
  32-bit words; an instant is a reading of a wrapping counter.  \<open>Instant::now()\<close> reads the hardware
  clock, so the operations that call it take the current instant as an argument \<open>now\<close>.  The
  floating-point operators (\<open>Mul<f32>\<close>, \<open>Div<Duration>\<close>, \<open>Animation::value\<close>,
  \<open>seek_to_value\<close>) are not modelled.
\<close>

subsection \<open>Durations\<close>

datatype duration = Duration (to_millis: u32)

instantiation duration :: linorder
begin

definition less_eq_duration :: "duration \<Rightarrow> duration \<Rightarrow> bool" where
  "a \<le> b \<longleftrightarrow> to_millis a \<le> to_millis b"

definition less_duration :: "duration \<Rightarrow> duration \<Rightarrow> bool" where
  "a < b \<longleftrightarrow> to_millis a < to_millis b"

instance
  by standard (auto simp: less_eq_duration_def less_duration_def intro: duration.expand)

end

definition from_millis :: "u32 \<Rightarrow> duration" where
  "from_millis m = Duration m"

definition from_secs :: "u32 \<Rightarrow> duration" where
  "from_secs s = Duration (s * 1000)"

definition duration_ZERO :: duration where
  "duration_ZERO = from_millis 0"

definition u32_checked_add :: "u32 \<Rightarrow> u32 \<Rightarrow> u32 option" where
  "u32_checked_add a b = (if unat a + unat b < 2 ^ 32 then Some (a + b) else None)"

definition u32_checked_sub :: "u32 \<Rightarrow> u32 \<Rightarrow> u32 option" where
  "u32_checked_sub a b = (if b \<le> a then Some (a - b) else None)"

definition duration_checked_add :: "duration \<Rightarrow> duration \<Rightarrow> duration option" where
  "duration_checked_add a b = map_option from_millis (u32_checked_add (to_millis a) (to_millis b))"

definition duration_checked_sub :: "duration \<Rightarrow> duration \<Rightarrow> duration option" where
  "duration_checked_sub a b = map_option from_millis (u32_checked_sub (to_millis a) (to_millis b))"

text \<open>Integer division panics on zero.\<close>

definition duration_div :: "duration \<Rightarrow> u32 \<Rightarrow> (duration, 'e) result" where
  "duration_div d n = (if n = 0 then Inl Panic else Inr (from_millis (to_millis d div n)))"

subsection \<open>Instants\<close>

datatype instant = Instant (instant_millis: u32)

definition MAX_DIFFERENCE_IN_MILLIS :: u32 where
  "MAX_DIFFERENCE_IN_MILLIS = 0x7FFFFFFF"

definition instant_cmp :: "instant \<Rightarrow> instant \<Rightarrow> ordering" where
  "instant_cmp a b =
     (if instant_millis a = instant_millis b then Equal
      else reverse (cmp (instant_millis a - instant_millis b) MAX_DIFFERENCE_IN_MILLIS))"

definition instant_ge :: "instant \<Rightarrow> instant \<Rightarrow> bool" where
  "instant_ge a b \<longleftrightarrow> instant_cmp a b \<noteq> Less"

definition checked_duration_since :: "instant \<Rightarrow> instant \<Rightarrow> duration option" where
  "checked_duration_since a earlier =
     (if instant_ge a earlier then Some (from_millis (instant_millis a - instant_millis earlier)) else None)"

definition saturating_duration_since :: "instant \<Rightarrow> instant \<Rightarrow> duration" where
  "saturating_duration_since a earlier =
     (case checked_duration_since a earlier of Some d \<Rightarrow> d | None \<Rightarrow> duration_ZERO)"

definition instant_checked_add :: "instant \<Rightarrow> duration \<Rightarrow> instant option" where
  "instant_checked_add t d =
     (if to_millis d \<le> MAX_DIFFERENCE_IN_MILLIS then Some (Instant (instant_millis t + to_millis d)) else None)"

definition instant_checked_sub :: "instant \<Rightarrow> duration \<Rightarrow> instant option" where
  "instant_checked_sub t d =
     (if to_millis d \<le> MAX_DIFFERENCE_IN_MILLIS then Some (Instant (instant_millis t - to_millis d)) else None)"

subsection \<open>Stopwatch\<close>

datatype stopwatch = Stopped duration | Running instant

definition new_stopped :: stopwatch where
  "new_stopped = Stopped duration_ZERO"

definition new_started :: "instant \<Rightarrow> stopwatch" where
  "new_started now = Running now"

definition stopwatch_start :: "stopwatch \<Rightarrow> instant \<Rightarrow> stopwatch" where
  "stopwatch_start sw now = Running now"

definition stopwatch_elapsed :: "stopwatch \<Rightarrow> instant \<Rightarrow> (duration, 'e) result" where
  "stopwatch_elapsed sw now = (case sw of
       Stopped d \<Rightarrow> Inr d
     | Running t \<Rightarrow> unwrap (checked_duration_since now t))"

definition stopwatch_stop :: "stopwatch \<Rightarrow> instant \<Rightarrow> (stopwatch, 'e) result" where
  "stopwatch_stop sw now = rbind (stopwatch_elapsed sw now) (\<lambda>d. Inr (Stopped d))"

definition is_running :: "stopwatch \<Rightarrow> bool" where
  "is_running sw = (case sw of Running _ \<Rightarrow> True | Stopped _ \<Rightarrow> False)"

definition is_running_within :: "stopwatch \<Rightarrow> instant \<Rightarrow> duration \<Rightarrow> (bool, 'e) result" where
  "is_running_within sw now limit = (case sw of
       Stopped _ \<Rightarrow> Inr False
     | Running _ \<Rightarrow> rbind (stopwatch_elapsed sw now) (\<lambda>d. Inr (d \<le> limit)))"

subsection \<open>Animations\<close>

record 'a animation =
  anim_from :: 'a
  anim_to :: 'a
  anim_duration :: duration
  anim_started :: instant

definition animation_new :: "'a \<Rightarrow> 'a \<Rightarrow> duration \<Rightarrow> instant \<Rightarrow> 'a animation" where
  "animation_new f t d s = \<lparr>anim_from = f, anim_to = t, anim_duration = d, anim_started = s\<rparr>"

definition anim_elapsed :: "'a animation \<Rightarrow> instant \<Rightarrow> duration" where
  "anim_elapsed a now = saturating_duration_since now (anim_started a)"

text \<open>An offset too large to be subtracted from an instant leaves the animation unchanged.\<close>

definition seek_forward :: "'a animation \<Rightarrow> duration \<Rightarrow> 'a animation" where
  "seek_forward a offset =
     (case instant_checked_sub (anim_started a) offset of
        Some t \<Rightarrow> a\<lparr>anim_started := t\<rparr>
      | None \<Rightarrow> a)"

definition anim_finished :: "'a animation \<Rightarrow> instant \<Rightarrow> bool" where
  "anim_finished a now \<longleftrightarrow> anim_duration a \<le> anim_elapsed a now"

subsection \<open>Comparing instants\<close>

lemma instant_cmp_word:
  "instant_cmp (Instant a) (Instant b) =
     (if a = b \<or> a - b = 0x7FFFFFFF then Equal else if a - b < 0x7FFFFFFF then Greater else Less)"
  by (auto simp: instant_cmp_def cmp_def MAX_DIFFERENCE_IN_MILLIS_def)

lemma instant_ge_iff: "instant_ge (Instant a) (Instant b) \<longleftrightarrow> a - b \<le> 0x7FFFFFFF"
  by (auto simp: instant_ge_def instant_cmp_word)

lemma neg_small_word: "(d :: u32) \<noteq> 0 \<Longrightarrow> d \<le> 0x7FFFFFFF \<Longrightarrow> 0x7FFFFFFF < - d"
proof -
  assume "d \<noteq> 0" "d \<le> 0x7FFFFFFF"
  then have "uint d \<noteq> 0" "uint d \<le> 0x7FFFFFFF"
    by (simp_all add: word_le_def uint_0_iff)
  then have "uint (- d) = 2 ^ 32 - uint d"
    by (simp add: uint_word_ariths zmod_zminus1_eq_if)
  with \<open>uint d \<le> 0x7FFFFFFF\<close> show ?thesis by (simp add: word_less_def)
qed

subsection \<open>Properties\<close>

text \<open>
  Stepping an instant forward by any admissible non-zero duration, also across the wrap-around of
  the counter, gives an instant from which the step is measured back exactly, and which the start
  compares less than.  At the largest admissible step the reverse comparison answers \<open>Equal\<close>.
\<close>

theorem instant_step_forward:
  assumes "instant_checked_add t d = Some t'" and "d \<noteq> duration_ZERO"
  shows "checked_duration_since t' t = Some d \<and> instant_checked_sub t' d = Some t
    \<and> instant_cmp t t' = Less
    \<and> instant_cmp t' t = (if to_millis d = MAX_DIFFERENCE_IN_MILLIS then Equal else Greater)"
proof -
  obtain a m where [simp]: "t = Instant a" "d = Duration m" by (cases t, cases d)
  from assms have m: "m \<noteq> 0" "m \<le> 0x7FFFFFFF" and t': "t' = Instant (a + m)"
    by (auto simp: instant_checked_add_def duration_ZERO_def from_millis_def MAX_DIFFERENCE_IN_MILLIS_def
        split: if_splits)
  have "instant_cmp t t' = Less"
    using neg_small_word [OF m] m by (auto simp: t' instant_cmp_word)
  moreover have "instant_cmp t' t = (if m = 0x7FFFFFFF then Equal else Greater)"
    using m by (auto simp: t' instant_cmp_word)
  moreover have "checked_duration_since t' t = Some d" "instant_checked_sub t' d = Some t"
    using m by (simp_all add: t' checked_duration_since_def instant_checked_sub_def instant_ge_iff
        from_millis_def MAX_DIFFERENCE_IN_MILLIS_def)
  ultimately show ?thesis by (simp add: MAX_DIFFERENCE_IN_MILLIS_def)
qed

theorem instant_step_forward_witness:
  "instant_checked_add (Instant 0xFFFFFFFF) (Duration 1) = Some (Instant 0)
   \<and> checked_duration_since (Instant 0) (Instant 0xFFFFFFFF) = Some (Duration 1)
   \<and> instant_cmp (Instant 0xFFFFFFFF) (Instant 0) = Less"
proof -
  have a: "instant_checked_add (Instant 0xFFFFFFFF) (Duration 1) = Some (Instant 0)"
    by (simp add: instant_checked_add_def MAX_DIFFERENCE_IN_MILLIS_def)
  have "Duration 1 \<noteq> duration_ZERO" by (simp add: duration_ZERO_def from_millis_def)
  from instant_step_forward [OF a this] a show ?thesis by simp
qed

text \<open>
  A running stopwatch reports the time since its start, and stopping it freezes that value; once
  more than \<open>MAX_DIFFERENCE_IN_MILLIS\<close> (about 24.8 days) have passed, reading or stopping it panics.
\<close>

theorem stopwatch_elapsed_running:
  "stopwatch_elapsed (stopwatch_start sw (Instant t)) (Instant now) =
     (if now - t \<le> MAX_DIFFERENCE_IN_MILLIS then Inr (Duration (now - t)) else Inl Panic)
   \<and> stopwatch_stop (stopwatch_start sw (Instant t)) (Instant now) =
     (if now - t \<le> MAX_DIFFERENCE_IN_MILLIS then Inr (Stopped (Duration (now - t))) else Inl Panic)"
  by (simp add: stopwatch_elapsed_def stopwatch_start_def stopwatch_stop_def checked_duration_since_def
      instant_ge_iff from_millis_def MAX_DIFFERENCE_IN_MILLIS_def)

text \<open>
  Seeking an animation forward moves its elapsed time by the offset, as long as the sum stays within
  the range in which instants are comparable.
\<close>

lemma anim_elapsed_seek:
  assumes "anim_started a = Instant s" "unat (now - s) + unat off \<le> 0x7FFFFFFF"
  shows "anim_elapsed (seek_forward a (Duration off)) (Instant now) = Duration (now - s + off)"
proof -
  have off: "off \<le> 0x7FFFFFFF" using assms(2) by (simp add: word_le_nat_alt)
  have "unat (now - s + off) = unat (now - s) + unat off"
    using assms(2) by (intro unat_plus_simple [THEN iffD1]) (simp add: no_olen_add_nat)
  then have "now - s + off \<le> 0x7FFFFFFF" using assms(2) by (simp add: word_le_nat_alt)
  then have "now - (s - off) \<le> 0x7FFFFFFF" by (simp add: algebra_simps)
  then show ?thesis
    using assms(1) off
    by (simp add: anim_elapsed_def seek_forward_def instant_checked_sub_def saturating_duration_since_def
        checked_duration_since_def instant_ge_iff MAX_DIFFERENCE_IN_MILLIS_def from_millis_def)
qed

end
