(* ===== verification/Micropython.thy ===== *)
theory Micropython
  imports Prelude
begin

section \<open>Errors and MicroPython values\<close>

text \<open>
  The error type of the firmware crate (\<^verbatim>\<open>error.rs\<close>) and the Rust view of MicroPython objects
  (\<^verbatim>\<open>micropython/obj.rs\<close>, \<^verbatim>\<open>map.rs\<close>, \<^verbatim>\<open>list.rs\<close>, \<^verbatim>\<open>iter.rs\<close>, \<^verbatim>\<open>buffer.rs\<close>).
  A MicroPython object is the Python value it stands for: the datatype \<open>obj\<close> has one constructor
  for each kind of value the Rust code distinguishes.  The interpreter itself is not part of the
  repository; where the Rust code asks it for a new object the model takes the allocator as a
  parameter \<open>alloc\<close>, which returns the object or raises.
\<close>

subsection \<open>Values and errors\<close>

type_synonym qstr = u16

datatype obj =
    ONull                       \<comment> \<open>\<open>Obj::const_null()\<close>, the C null pointer\<close>
  | ONone
  | OBool bool
  | OInt int
  | OBytes bytes                \<comment> \<open>\<open>bytes\<close>, \<open>bytearray\<close>, \<open>memoryview\<close>\<close>
  | OStr bytes                  \<comment> \<open>\<open>str\<close>, as its UTF-8 bytes\<close>
  | OQstr qstr                  \<comment> \<open>an interned string\<close>
  | OList "obj list"
  | ODict "(qstr \<times> obj) list"
  | OMsg "(qstr \<times> obj) list" "u16 option" u16
                                \<comment> \<open>\<open>MsgObj\<close>: field map, wire id, offset of the definition\<close>
  | OMsgDef u16                 \<comment> \<open>\<open>MsgDefObj\<close>, by the offset of its definition\<close>
  | OIsTypeOf obj               \<comment> \<open>the bound method \<open>is_type_of\<close> of a \<open>MsgDefObj\<close>\<close>

datatype error =
    TypeError | OutOfRange | MissingKwargs | AllocationFailed | EOFError | IndexError
  | CaughtException obj | KeyError obj | AttributeError qstr
  | ValueError string | ValueErrorParam string obj

type_synonym 'a res = "('a, error) result"

type_synonym allocator = "obj \<Rightarrow> obj res"

text \<open>
  What the code relies on from the allocator: it yields the requested object, or raises.  The
  second predicate is the case in which memory suffices.
\<close>

definition alloc_sound :: "allocator \<Rightarrow> bool" where
  "alloc_sound alloc \<longleftrightarrow> (\<forall>x y. alloc x = Inr y \<longrightarrow> y = x) \<and> (\<forall>x. alloc x \<noteq> Inl Panic)"

definition alloc_ok :: "allocator \<Rightarrow> bool" where
  "alloc_ok alloc \<longleftrightarrow> (\<forall>x. alloc x = Inr x)"

lemma alloc_ok_simp: "alloc_ok alloc \<Longrightarrow> alloc x = Inr x"
  by (simp add: alloc_ok_def)

lemma alloc_soundD: "alloc_sound alloc \<Longrightarrow> alloc x = Inr y \<Longrightarrow> y = x"
  by (simp add: alloc_sound_def)

subsection \<open>Tagged small integers\<close>

text \<open>
  An object is a tagged machine word (representation A of \<^verbatim>\<open>py/obj.h\<close>); bit 0 marks a small
  integer, whose value is the word shifted right by one.
\<close>

definition is_small_int :: "u32 \<Rightarrow> bool" where
  "is_small_int bits \<longleftrightarrow> bits AND 1 \<noteq> 0"

definition is_qstr :: "u32 \<Rightarrow> bool" where
  "is_qstr bits \<longleftrightarrow> bits AND 7 = 2"

definition is_immediate :: "u32 \<Rightarrow> bool" where
  "is_immediate bits \<longleftrightarrow> bits AND 7 = 6"

definition is_ptr :: "u32 \<Rightarrow> bool" where
  "is_ptr bits \<longleftrightarrow> bits AND 3 = 0"

definition immediate :: "u32 \<Rightarrow> u32" where
  "immediate val = push_bit 3 val OR 6"

text \<open>The shift is carried out at the width of the argument, sixteen bits.\<close>

definition small_int :: "u16 \<Rightarrow> u32" where
  "small_int val = ucast (push_bit 1 val OR 1)"

definition small_int_value :: "u32 \<Rightarrow> int" where
  "small_int_value bits = sint (signed_drop_bit 1 bits)"

definition qstr_to_obj_bits :: "qstr \<Rightarrow> u32" where
  "qstr_to_obj_bits q = push_bit 3 (ucast q) OR 2"

definition qstr_from_obj_bits :: "u32 \<Rightarrow> qstr" where
  "qstr_from_obj_bits bits = ucast (drop_bit 3 bits)"

definition obj_of_u16 :: "u16 \<Rightarrow> obj" where
  "obj_of_u16 val = OInt (small_int_value (small_int val))"

definition obj_of_u8 :: "u8 \<Rightarrow> obj" where
  "obj_of_u8 val = obj_of_u16 (ucast val)"

subsection \<open>Conversions between objects and plain data\<close>

definition obj_of_bool :: "bool \<Rightarrow> obj" where
  "obj_of_bool b = OBool b"

definition obj_of_i64 :: "allocator \<Rightarrow> i64 \<Rightarrow> obj res" where
  "obj_of_i64 alloc v = alloc (OInt (sint v))"

definition obj_of_u64 :: "allocator \<Rightarrow> u64 \<Rightarrow> obj res" where
  "obj_of_u64 alloc v = alloc (OInt (uint v))"

text \<open>
  \<open>i64::try_from\<close> accepts an integer that fits 64 signed bits
  (\<^verbatim>\<open>trezor_obj_get_ll_checked\<close>, \<^verbatim>\<open>extmod/trezorobj.c\<close>); \<open>u64::try_from\<close> goes through it.
\<close>

definition i64_of_obj :: "obj \<Rightarrow> i64 res" where
  "i64_of_obj x = (case x of
       OInt i \<Rightarrow> if - (2 ^ 63) \<le> i \<and> i < 2 ^ 63 then Inr (word_of_int i) else Inl (Err TypeError)
     | _ \<Rightarrow> Inl (Err TypeError))"

definition u64_of_obj :: "obj \<Rightarrow> u64 res" where
  "u64_of_obj x = rbind (i64_of_obj x) (\<lambda>v. if sint v < 0 then Inl (Err OutOfRange) else Inr v)"

text \<open>Truth of an object, Python's rule for the built-in types.\<close>

definition bool_of_obj :: "obj \<Rightarrow> bool res" where
  "bool_of_obj x = (case x of
       ONone \<Rightarrow> Inr False
     | OBool b \<Rightarrow> Inr b
     | OInt i \<Rightarrow> Inr (i \<noteq> 0)
     | OBytes bs \<Rightarrow> Inr (bs \<noteq> [])
     | OStr bs \<Rightarrow> Inr (bs \<noteq> [])
     | OList xs \<Rightarrow> Inr (xs \<noteq> [])
     | ODict m \<Rightarrow> Inr (m \<noteq> [])
     | _ \<Rightarrow> Inr True)"

text \<open>
  The contents behind the buffer protocol (\<open>get_buffer\<close>); an interned string is read through its
  bytes, which the caller supplies as \<open>qstr_data\<close>.
\<close>

definition get_buffer :: "(qstr \<Rightarrow> bytes) \<Rightarrow> obj \<Rightarrow> bytes res" where
  "get_buffer qstr_data x = (case x of
       OBytes bs \<Rightarrow> Inr bs
     | OStr bs \<Rightarrow> Inr bs
     | OQstr q \<Rightarrow> Inr (qstr_data q)
     | _ \<Rightarrow> Inl (Err TypeError))"

definition list_of_obj :: "obj \<Rightarrow> obj list res" where
  "list_of_obj x = (case x of OList xs \<Rightarrow> Inr xs | _ \<Rightarrow> Inl (Err TypeError))"

subsection \<open>Maps\<close>

text \<open>
  \<open>Map::get\<close>, \<open>contains_key\<close> and \<open>set\<close>: Python dictionaries with interned-string keys, kept in
  insertion order.
\<close>

type_synonym obj_map = "(qstr \<times> obj) list"

definition map_get :: "obj_map \<Rightarrow> qstr \<Rightarrow> obj res" where
  "map_get m k = ok_or (map_of m k) (KeyError (OQstr k))"

definition contains_key :: "obj_map \<Rightarrow> qstr \<Rightarrow> bool" where
  "contains_key m k = is_ok (map_get m k)"

fun map_set :: "obj_map \<Rightarrow> qstr \<Rightarrow> obj \<Rightarrow> obj_map" where
  "map_set [] k v = [(k, v)]"
| "map_set ((k', v') # m) k v = (if k' = k then (k, v) # m else (k', v') # map_set m k v)"

lemma map_of_map_set [simp]: "map_of (map_set m k v) = (map_of m)(k \<mapsto> v)"
  by (induction m k v rule: map_set.induct) auto

lemma keys_map_set: "fst ` set (map_set m k v) = insert k (fst ` set m)"
  by (induction m k v rule: map_set.induct) auto

lemma distinct_map_set: "distinct (map fst m) \<Longrightarrow> distinct (map fst (map_set m k v))"
proof (induction m k v rule: map_set.induct)
  case (2 k' v' m k v)
  then show ?case using keys_map_set [of m k v] by (auto simp: image_iff)
qed simp

lemma contains_key_iff: "contains_key m k \<longleftrightarrow> k \<in> dom (map_of m)"
  by (auto simp: contains_key_def map_get_def ok_or_def is_ok_def split: option.splits)

lemma map_get_Inr [simp]: "map_get m k = Inr v \<longleftrightarrow> map_of m k = Some v"
  by (auto simp: map_get_def result_simps)

lemma map_get_Inl: "map_get m k = Inl f \<longleftrightarrow> map_of m k = None \<and> f = Err (KeyError (OQstr k))"
  by (auto simp: map_get_def result_simps)

subsection \<open>Facts about the conversions\<close>

lemma u64_of_obj_OInt:
  "u64_of_obj (OInt i) =
     (if 0 \<le> i \<and> i < 2 ^ 63 then Inr (word_of_int i)
      else if - (2 ^ 63) \<le> i \<and> i < 0 then Inl (Err OutOfRange) else Inl (Err TypeError))"
proof -
  have "sint (word_of_int i :: 64 word) = i" if "- (2 ^ 63) \<le> i" "i < 2 ^ 63"
    using that by (simp add: int_word_sint signed_take_bit_int_eq_self_iff)
  then show ?thesis
    by (auto simp: u64_of_obj_def i64_of_obj_def)
qed

lemma i64_of_obj_sint [simp]: "i64_of_obj (OInt (sint (v :: 64 word))) = Inr v"
  using sint_greater_eq [of v] sint_less [of v] by (simp add: i64_of_obj_def)

end
