(* ===== verification/Geometry.thy ===== *)
theory Geometry
  imports Prelude
begin

section \<open>Screen geometry\<close>

text \<open>
  \<^verbatim>\<open>core/embed/rust/src/ui/geometry.rs\<close> and \<^verbatim>\<open>ui/shape/canvas/viewport.rs\<close>: offsets, points,
  half-open rectangles, grids, linear placement and viewports.  A coordinate is an \<open>i16\<close>: an integer
  on which every arithmetic result is wrapped by \<open>i16\<close>.  The operators that multiply by or
  interpolate with an \<open>f32\<close> are left out.
\<close>

subsection \<open>Sixteen-bit signed arithmetic\<close>

definition i16 :: "int \<Rightarrow> int" where
  "i16 x = signed_take_bit 15 x"

definition i16_range :: "int \<Rightarrow> bool" where
  "i16_range x \<longleftrightarrow> - 32768 \<le> x \<and> x \<le> 32767"

lemma i16_id [i16_simps]: "- 32768 \<le> x \<Longrightarrow> x \<le> 32767 \<Longrightarrow> i16 x = x"
  by (simp add: i16_def signed_take_bit_int_eq_self_iff)

lemma i16_bounds: "- 32768 \<le> i16 x" "i16 x \<le> 32767"
  using signed_take_bit_int_greater_eq_minus_exp [of 15 x] signed_take_bit_int_less_exp [of 15 x]
  by (simp_all add: i16_def)

lemma i16_range_i16 [simp]: "i16_range (i16 x)"
  using i16_bounds [of x] by (simp add: i16_range_def)

lemma i16_i16 [simp]: "i16 (i16 x) = i16 x"
  by (simp add: i16_def)

lemma i16_add_left: "i16 (i16 x + y) = i16 (x + y)"
  and i16_add_right: "i16 (x + i16 y) = i16 (x + y)"
  and i16_diff_left: "i16 (i16 x - y) = i16 (x - y)"
  and i16_diff_right: "i16 (x - i16 y) = i16 (x - y)"
  unfolding i16_def
  by (metis signed_take_bit_add signed_take_bit_signed_take_bit min.idem,
      metis signed_take_bit_add signed_take_bit_signed_take_bit min.idem,
      metis signed_take_bit_diff signed_take_bit_signed_take_bit min.idem,
      metis signed_take_bit_diff signed_take_bit_signed_take_bit min.idem)

lemma i16_range_id: "i16_range x \<Longrightarrow> i16 x = x"
  by (simp add: i16_range_def i16_id)

definition i16_neg :: "int \<Rightarrow> int" where
  "i16_neg x = i16 (- x)"

definition i16_abs :: "int \<Rightarrow> int" where
  "i16_abs x = i16 \<bar>x\<bar>"

text \<open>Division by a variable panics on a zero divisor and on \<open>i16::MIN / -1\<close>.\<close>

definition i16_div :: "int \<Rightarrow> int \<Rightarrow> (int, 'e) result" where
  "i16_div a b = (if b = 0 \<or> a = - 32768 \<and> b = - 1 then Inl Panic else Inr (a sdiv b))"

definition i16_rem :: "int \<Rightarrow> int \<Rightarrow> (int, 'e) result" where
  "i16_rem a b = (if b = 0 \<or> a = - 32768 \<and> b = - 1 then Inl Panic else Inr (a smod b))"

definition min16 :: "int \<Rightarrow> int \<Rightarrow> int" where
  "min16 a b = (if a < b then a else b)"

definition max16 :: "int \<Rightarrow> int \<Rightarrow> int" where
  "max16 a b = (if a > b then a else b)"

definition clamp16 :: "int \<Rightarrow> int \<Rightarrow> int \<Rightarrow> int" where
  "clamp16 x lo hi = (if x < lo then lo else if x > hi then hi else x)"

subsection \<open>Offsets, points, alignment\<close>

datatype axis = Horizontal | Vertical

datatype alignment = AlStart | AlCenter | AlEnd

type_synonym alignment2d = "alignment \<times> alignment"

record offset =
  off_x :: int
  off_y :: int

record point =
  pt_x :: int
  pt_y :: int

definition axis_main :: "axis \<Rightarrow> 'a \<Rightarrow> 'a \<Rightarrow> 'a" where
  "axis_main a x y = (case a of Horizontal \<Rightarrow> x | Vertical \<Rightarrow> y)"

definition axis_cross :: "axis \<Rightarrow> axis" where
  "axis_cross a = (case a of Horizontal \<Rightarrow> Vertical | Vertical \<Rightarrow> Horizontal)"

definition offset_new :: "int \<Rightarrow> int \<Rightarrow> offset" where
  "offset_new x y = \<lparr>off_x = x, off_y = y\<rparr>"

definition offset_uniform :: "int \<Rightarrow> offset" where
  "offset_uniform a = offset_new a a"

definition offset_zero :: offset where
  "offset_zero = offset_new 0 0"

definition offset_on_x :: "int \<Rightarrow> offset" where
  "offset_on_x x = offset_new x 0"

definition offset_on_y :: "int \<Rightarrow> offset" where
  "offset_on_y y = offset_new 0 y"

definition offset_on_axis :: "axis \<Rightarrow> int \<Rightarrow> offset" where
  "offset_on_axis ax a = (case ax of Horizontal \<Rightarrow> offset_new a 0 | Vertical \<Rightarrow> offset_new 0 a)"

definition offset_axis :: "offset \<Rightarrow> axis \<Rightarrow> int" where
  "offset_axis o1 ax = (case ax of Horizontal \<Rightarrow> off_x o1 | Vertical \<Rightarrow> off_y o1)"

definition offset_abs :: "offset \<Rightarrow> offset" where
  "offset_abs o1 = offset_new (i16_abs (off_x o1)) (i16_abs (off_y o1))"

definition offset_neg :: "offset \<Rightarrow> offset" where
  "offset_neg o1 = offset_new (i16_neg (off_x o1)) (i16_neg (off_y o1))"

definition offset_add :: "offset \<Rightarrow> offset \<Rightarrow> offset" where
  "offset_add o1 o2 = offset_new (i16 (off_x o1 + off_x o2)) (i16 (off_y o1 + off_y o2))"

definition offset_sub :: "offset \<Rightarrow> offset \<Rightarrow> offset" where
  "offset_sub o1 o2 = offset_add o1 (offset_neg o2)"

definition point_new :: "int \<Rightarrow> int \<Rightarrow> point" where
  "point_new x y = \<lparr>pt_x = x, pt_y = y\<rparr>"

definition point_zero :: point where
  "point_zero = point_new 0 0"

definition point_center :: "point \<Rightarrow> point \<Rightarrow> point" where
  "point_center p q = point_new (i16 (pt_x p + pt_x q) sdiv 2) (i16 (pt_y p + pt_y q) sdiv 2)"

definition point_ofs :: "point \<Rightarrow> offset \<Rightarrow> point" where
  "point_ofs p o1 = point_new (i16 (pt_x p + off_x o1)) (i16 (pt_y p + off_y o1))"

definition point_sub_offset :: "point \<Rightarrow> offset \<Rightarrow> point" where
  "point_sub_offset p o1 = point_ofs p (offset_neg o1)"

definition point_sub :: "point \<Rightarrow> point \<Rightarrow> offset" where
  "point_sub p q = offset_new (i16 (pt_x p - pt_x q)) (i16 (pt_y p - pt_y q))"

definition point_neg :: "point \<Rightarrow> point" where
  "point_neg p = \<lparr>pt_x = i16_neg (pt_x p), pt_y = i16_neg (pt_y p)\<rparr>"

definition offset_of_point :: "point \<Rightarrow> offset" where
  "offset_of_point p = offset_new (pt_x p) (pt_y p)"

definition point_of_offset :: "offset \<Rightarrow> point" where
  "point_of_offset o1 = point_new (off_x o1) (off_y o1)"

definition align_off :: "alignment \<Rightarrow> int \<Rightarrow> int" where
  "align_off al a = (case al of AlStart \<Rightarrow> 0 | AlCenter \<Rightarrow> a sdiv 2 | AlEnd \<Rightarrow> a)"

definition offset_snap :: "offset \<Rightarrow> point \<Rightarrow> alignment2d \<Rightarrow> point" where
  "offset_snap o1 p al =
     (let x_off = align_off (fst al) (off_x o1); y_off = align_off (snd al) (off_y o1) in
      point_ofs p (offset_new (i16_neg x_off) (i16_neg y_off)))"

subsection \<open>Rectangles\<close>

record rect =
  x0 :: int
  y0 :: int
  x1 :: int
  y1 :: int

record insets =
  in_top :: int
  in_right :: int
  in_bottom :: int
  in_left :: int

definition insets_new :: "int \<Rightarrow> int \<Rightarrow> int \<Rightarrow> int \<Rightarrow> insets" where
  "insets_new t r b l = \<lparr>in_top = t, in_right = r, in_bottom = b, in_left = l\<rparr>"

definition insets_uniform :: "int \<Rightarrow> insets" where
  "insets_uniform d = insets_new d d d d"

definition insets_top :: "int \<Rightarrow> insets" where
  "insets_top d = insets_new d 0 0 0"

definition insets_right :: "int \<Rightarrow> insets" where
  "insets_right d = insets_new 0 d 0 0"

definition insets_bottom :: "int \<Rightarrow> insets" where
  "insets_bottom d = insets_new 0 0 d 0"

definition insets_left :: "int \<Rightarrow> insets" where
  "insets_left d = insets_new 0 0 0 d"

definition insets_sides :: "int \<Rightarrow> insets" where
  "insets_sides d = insets_new 0 d 0 d"

definition rect_new :: "point \<Rightarrow> point \<Rightarrow> rect" where
  "rect_new p q = \<lparr>x0 = pt_x p, y0 = pt_y p, x1 = pt_x q, y1 = pt_y q\<rparr>"

definition rect_zero :: rect where
  "rect_zero = rect_new point_zero point_zero"

definition from_top_left_and_size :: "point \<Rightarrow> offset \<Rightarrow> rect" where
  "from_top_left_and_size p s =
     \<lparr>x0 = pt_x p, y0 = pt_y p, x1 = i16 (pt_x p + off_x s), y1 = i16 (pt_y p + off_y s)\<rparr>"

definition rect_snap :: "point \<Rightarrow> offset \<Rightarrow> alignment2d \<Rightarrow> rect" where
  "rect_snap p s al = from_top_left_and_size (offset_snap s p al) s"

definition from_size :: "offset \<Rightarrow> rect" where
  "from_size s = from_top_left_and_size point_zero s"

definition from_top_right_and_size :: "point \<Rightarrow> offset \<Rightarrow> rect" where
  "from_top_right_and_size p s =
     from_top_left_and_size (point_new (i16 (pt_x p - off_x s)) (pt_y p)) s"

definition from_bottom_left_and_size :: "point \<Rightarrow> offset \<Rightarrow> rect" where
  "from_bottom_left_and_size p s =
     from_top_left_and_size (point_new (pt_x p) (i16 (pt_y p - off_y s))) s"

definition from_bottom_right_and_size :: "point \<Rightarrow> offset \<Rightarrow> rect" where
  "from_bottom_right_and_size p s =
     from_top_left_and_size (point_new (i16 (pt_x p - off_x s)) (i16 (pt_y p - off_y s))) s"

definition from_center_and_size :: "point \<Rightarrow> offset \<Rightarrow> rect" where
  "from_center_and_size p s =
     (let a = i16 (pt_x p - off_x s sdiv 2); b = i16 (pt_y p - off_y s sdiv 2) in
      \<lparr>x0 = a, y0 = b, x1 = i16 (a + off_x s), y1 = i16 (b + off_y s)\<rparr>)"

definition width :: "rect \<Rightarrow> int" where
  "width r = i16 (x1 r - x0 r)"

definition height :: "rect \<Rightarrow> int" where
  "height r = i16 (y1 r - y0 r)"

definition rect_size :: "rect \<Rightarrow> offset" where
  "rect_size r = offset_new (width r) (height r)"

definition top_left :: "rect \<Rightarrow> point" where
  "top_left r = point_new (x0 r) (y0 r)"

definition top_right :: "rect \<Rightarrow> point" where
  "top_right r = point_new (x1 r) (y0 r)"

definition bottom_left :: "rect \<Rightarrow> point" where
  "bottom_left r = point_new (x0 r) (y1 r)"

definition bottom_right :: "rect \<Rightarrow> point" where
  "bottom_right r = point_new (x1 r) (y1 r)"

definition with_top_left :: "rect \<Rightarrow> point \<Rightarrow> rect" where
  "with_top_left r p = from_top_left_and_size p (rect_size r)"

definition with_size :: "rect \<Rightarrow> offset \<Rightarrow> rect" where
  "with_size r s = from_top_left_and_size (top_left r) s"

definition with_width :: "rect \<Rightarrow> int \<Rightarrow> rect" where
  "with_width r w = with_size r (offset_new w (height r))"

definition with_height :: "rect \<Rightarrow> int \<Rightarrow> rect" where
  "with_height r h = with_size r (offset_new (width r) h)"

definition rect_center :: "rect \<Rightarrow> point" where
  "rect_center r = point_center (top_left r) (bottom_right r)"

definition top_center :: "rect \<Rightarrow> point" where
  "top_center r = point_center (top_left r) (top_right r)"

definition bottom_center :: "rect \<Rightarrow> point" where
  "bottom_center r = point_center (bottom_left r) (bottom_right r)"

definition left_center :: "rect \<Rightarrow> point" where
  "left_center r = point_center (bottom_left r) (top_left r)"

definition right_center :: "rect \<Rightarrow> point" where
  "right_center r = point_center (bottom_right r) (top_right r)"

definition is_empty :: "rect \<Rightarrow> bool" where
  "is_empty r \<longleftrightarrow> x0 r \<ge> x1 r \<or> y0 r \<ge> y1 r"

definition contains :: "rect \<Rightarrow> point \<Rightarrow> bool" where
  "contains r p \<longleftrightarrow> pt_x p \<ge> x0 r \<and> pt_x p < x1 r \<and> pt_y p \<ge> y0 r \<and> pt_y p < y1 r"

definition rect_union :: "rect \<Rightarrow> rect \<Rightarrow> rect" where
  "rect_union a b =
     \<lparr>x0 = min16 (x0 a) (x0 b), y0 = min16 (y0 a) (y0 b),
      x1 = max16 (x1 a) (x1 b), y1 = max16 (y1 a) (y1 b)\<rparr>"

definition inset :: "rect \<Rightarrow> insets \<Rightarrow> rect" where
  "inset r i =
     \<lparr>x0 = i16 (x0 r + in_left i), y0 = i16 (y0 r + in_top i),
      x1 = i16 (x1 r - in_right i), y1 = i16 (y1 r - in_bottom i)\<rparr>"

definition outset :: "rect \<Rightarrow> insets \<Rightarrow> rect" where
  "outset r i =
     \<lparr>x0 = i16 (x0 r - in_left i), y0 = i16 (y0 r - in_top i),
      x1 = i16 (x1 r + in_right i), y1 = i16 (y1 r + in_bottom i)\<rparr>"

definition expand :: "rect \<Rightarrow> int \<Rightarrow> rect" where
  "expand r n = outset r (insets_uniform n)"

definition shrink :: "rect \<Rightarrow> int \<Rightarrow> rect" where
  "shrink r n = inset r (insets_uniform n)"

definition split_top :: "rect \<Rightarrow> int \<Rightarrow> rect \<times> rect" where
  "split_top r h =
     (let h' = clamp16 h 0 (height r) in (r\<lparr>y1 := i16 (y0 r + h')\<rparr>, r\<lparr>y0 := i16 (y0 r + h')\<rparr>))"

definition split_bottom :: "rect \<Rightarrow> int \<Rightarrow> rect \<times> rect" where
  "split_bottom r h = split_top r (i16 (height r - h))"

definition split_left :: "rect \<Rightarrow> int \<Rightarrow> rect \<times> rect" where
  "split_left r w =
     (let w' = clamp16 w 0 (width r) in (r\<lparr>x1 := i16 (x0 r + w')\<rparr>, r\<lparr>x0 := i16 (x0 r + w')\<rparr>))"

definition split_right :: "rect \<Rightarrow> int \<Rightarrow> rect \<times> rect" where
  "split_right r w = split_left r (i16 (width r - w))"

definition split_center :: "rect \<Rightarrow> int \<Rightarrow> rect \<times> rect \<times> rect" where
  "split_center r w =
     (let left_right_width = i16 (width r - w) sdiv 2;
          (left, center_right) = split_left r left_right_width;
          (center, right) = split_left center_right w in
      (left, center, right))"

definition rect_clamp :: "rect \<Rightarrow> rect \<Rightarrow> rect" where
  "rect_clamp r limit =
     \<lparr>x0 = max16 (x0 r) (x0 limit), y0 = max16 (y0 r) (y0 limit),
      x1 = min16 (x1 r) (x1 limit), y1 = min16 (y1 r) (y1 limit)\<rparr>"

definition ensure_even_width :: "rect \<Rightarrow> rect" where
  "ensure_even_width r =
     (if width r smod 2 = 0 then r
      else with_size r (offset_new (i16 (off_x (rect_size r) - 1)) (off_y (rect_size r))))"

definition rect_translate :: "rect \<Rightarrow> offset \<Rightarrow> rect" where
  "rect_translate r d =
     \<lparr>x0 = i16 (x0 r + off_x d), y0 = i16 (y0 r + off_y d),
      x1 = i16 (x1 r + off_x d), y1 = i16 (y1 r + off_y d)\<rparr>"

definition corner_points :: "rect \<Rightarrow> point list" where
  "corner_points r =
     [top_left r,
      point_sub_offset (top_right r) (offset_on_x 1),
      point_sub_offset (bottom_right r) (offset_uniform 1),
      point_sub_offset (bottom_left r) (offset_on_y 1)]"

subsection \<open>Grids\<close>

record grid =
  rows :: nat
  cols :: nat
  g_spacing :: int
  g_area :: rect

definition grid_new :: "rect \<Rightarrow> nat \<Rightarrow> nat \<Rightarrow> grid" where
  "grid_new area r c = \<lparr>rows = r, cols = c, g_spacing = 0, g_area = area\<rparr>"

definition grid_with_spacing :: "grid \<Rightarrow> int \<Rightarrow> grid" where
  "grid_with_spacing g s = g\<lparr>g_spacing := s\<rparr>"

text \<open>
  One axis of \<open>row_col\<close>: from the number of cells, the index, the spacing, the start and the extent of
  the area, the start and the size of the cell.  The source writes it out once for columns and once
  for rows.
\<close>

definition grid_axis :: "int \<Rightarrow> int \<Rightarrow> int \<Rightarrow> int \<Rightarrow> int \<Rightarrow> (int \<times> int, 'e) result" where
  "grid_axis n idx spacing start extent =
     (let i = min16 idx (i16 (n - 1));
          spacing_sum = i16 (spacing * i16 (n - 1)) in
      rbind (i16_div (i16 (extent - spacing_sum)) n) (\<lambda>cell.
      rbind (i16_rem (i16 (extent - spacing_sum)) n) (\<lambda>leftover.
        let origin = i16 (start + i16 (i * i16 (cell + spacing)));
            origin' = i16 (origin + min16 leftover i);
            sz = (if i < leftover then i16 (cell + 1) else cell) in
        Inr (origin', sz))))"

definition row_col :: "grid \<Rightarrow> nat \<Rightarrow> nat \<Rightarrow> (rect, 'e) result" where
  "row_col g row col =
     rbind (grid_axis (i16 (int (cols g))) (i16 (int col)) (g_spacing g) (x0 (g_area g)) (width (g_area g)))
       (\<lambda>(x, w).
     rbind (grid_axis (i16 (int (rows g))) (i16 (int row)) (g_spacing g) (y0 (g_area g)) (height (g_area g)))
       (\<lambda>(y, h). Inr (from_top_left_and_size (point_new x y) (offset_new w h))))"

definition cell :: "grid \<Rightarrow> nat \<Rightarrow> (rect, 'e) result" where
  "cell g i =
     (if cols g = 0 then Inl Panic else row_col g (i div cols g) (i mod cols g))"

definition cells :: "grid \<Rightarrow> nat \<times> nat \<Rightarrow> nat \<times> nat \<Rightarrow> (rect, 'e) result" where
  "cells g from to =
     rbind (row_col g (fst from) (snd from)) (\<lambda>a.
     rbind (row_col g (fst to) (snd to)) (\<lambda>b. Inr (rect_union a b)))"

subsection \<open>Linear placement\<close>

record linear_placement =
  lp_axis :: axis
  lp_align :: alignment
  lp_spacing :: int

definition linear_new :: "axis \<Rightarrow> linear_placement" where
  "linear_new a = \<lparr>lp_axis = a, lp_align = AlStart, lp_spacing = 0\<rparr>"

definition linear_horizontal :: linear_placement where
  "linear_horizontal = linear_new Horizontal"

definition linear_vertical :: linear_placement where
  "linear_vertical = linear_new Vertical"

definition align_at_start :: "linear_placement \<Rightarrow> linear_placement" where
  "align_at_start lp = lp\<lparr>lp_align := AlStart\<rparr>"

definition align_at_center :: "linear_placement \<Rightarrow> linear_placement" where
  "align_at_center lp = lp\<lparr>lp_align := AlCenter\<rparr>"

definition align_at_end :: "linear_placement \<Rightarrow> linear_placement" where
  "align_at_end lp = lp\<lparr>lp_align := AlEnd\<rparr>"

definition linear_with_spacing :: "linear_placement \<Rightarrow> int \<Rightarrow> linear_placement" where
  "linear_with_spacing lp s = lp\<lparr>lp_spacing := s\<rparr>"

definition compute_spacing :: "linear_placement \<Rightarrow> rect \<Rightarrow> nat \<Rightarrow> int \<Rightarrow> int \<times> int" where
  "compute_spacing lp area n sum_sizes =
     (let spacing_count = n - 1;
          spacing_sum = i16 (i16 (int spacing_count) * lp_spacing lp);
          naive_size = i16 (sum_sizes + spacing_sum);
          available_space = offset_axis (rect_size area) (lp_axis lp);
          (total_size, spacing) =
            (if naive_size > available_space then
               (available_space,
                max16 (i16 (available_space - sum_sizes) sdiv max16 (i16 (int spacing_count)) 1) 0)
             else (naive_size, lp_spacing lp));
          initial_cursor = (case lp_align lp of
              AlStart \<Rightarrow> 0
            | AlCenter \<Rightarrow> i16 (available_space sdiv 2 - total_size sdiv 2)
            | AlEnd \<Rightarrow> i16 (available_space - total_size)) in
      (initial_cursor, spacing))"

text \<open>\<open>arrange\<close> on the list of item areas: each item keeps its size and is moved to the cursor.\<close>

fun arrange_loop :: "axis \<Rightarrow> point \<Rightarrow> int \<Rightarrow> int \<Rightarrow> rect list \<Rightarrow> rect list" where
  "arrange_loop ax origin cursor spacing [] = []"
| "arrange_loop ax origin cursor spacing (item # items) =
     (let item_origin = point_ofs origin (offset_on_axis ax cursor);
          item_area = with_top_left item item_origin;
          cursor' = i16 (i16 (cursor + offset_axis (rect_size item_area) ax) + spacing) in
      item_area # arrange_loop ax origin cursor' spacing items)"

definition sum16 :: "int list \<Rightarrow> int" where
  "sum16 xs = fold (\<lambda>x acc. i16 (acc + x)) xs 0"

definition arrange :: "linear_placement \<Rightarrow> rect \<Rightarrow> rect list \<Rightarrow> rect list" where
  "arrange lp area items =
     (let sum_sizes = sum16 (map (\<lambda>r. offset_axis (rect_size r) (lp_axis lp)) items);
          (cursor, spacing) = compute_spacing lp area (length items) sum_sizes in
      arrange_loop (lp_axis lp) (top_left area) cursor spacing items)"

fun uniform_loop :: "axis \<Rightarrow> point \<Rightarrow> int \<Rightarrow> int \<Rightarrow> int \<Rightarrow> int \<Rightarrow> nat \<Rightarrow> point list" where
  "uniform_loop ax origin cursor item_size spacing cross 0 = []"
| "uniform_loop ax origin cursor item_size spacing cross (Suc n) =
     point_ofs (point_ofs origin (offset_on_axis ax cursor)) (offset_on_axis (axis_cross ax) cross)
       # uniform_loop ax origin (i16 (i16 (cursor + item_size) + spacing)) item_size spacing cross n"

definition arrange_uniform :: "linear_placement \<Rightarrow> rect \<Rightarrow> nat \<Rightarrow> offset \<Rightarrow> point list" where
  "arrange_uniform lp area n sz =
     (let item_size = offset_axis sz (lp_axis lp);
          (cursor, spacing) = compute_spacing lp area n (i16 (i16 (int n) * item_size));
          cross = axis_cross (lp_axis lp);
          cross_coord = i16 (offset_axis (rect_size area) cross sdiv 2 - offset_axis sz cross sdiv 2) in
      uniform_loop (lp_axis lp) (top_left area) cursor item_size spacing cross_coord n)"

subsection \<open>Viewports\<close>

record viewport =
  vp_clip :: rect
  vp_origin :: offset

definition viewport_new :: "rect \<Rightarrow> viewport" where
  "viewport_new c = \<lparr>vp_clip = c, vp_origin = offset_zero\<rparr>"

definition viewport_from_size :: "offset \<Rightarrow> viewport" where
  "viewport_from_size s = \<lparr>vp_clip = from_size s, vp_origin = offset_zero\<rparr>"

definition viewport_contains :: "viewport \<Rightarrow> rect \<Rightarrow> bool" where
  "viewport_contains v r \<longleftrightarrow> \<not> is_empty (rect_clamp (rect_translate r (vp_origin v)) (vp_clip v))"

definition viewport_translate :: "viewport \<Rightarrow> offset \<Rightarrow> viewport" where
  "viewport_translate v d =
     \<lparr>vp_clip = rect_translate (vp_clip v) d, vp_origin = offset_add (vp_origin v) d\<rparr>"

definition with_origin :: "viewport \<Rightarrow> offset \<Rightarrow> viewport" where
  "with_origin v d = v\<lparr>vp_origin := d\<rparr>"

definition absolute_clip :: "viewport \<Rightarrow> rect \<Rightarrow> viewport" where
  "absolute_clip v r = v\<lparr>vp_clip := rect_clamp r (vp_clip v)\<rparr>"

definition relative_clip :: "viewport \<Rightarrow> rect \<Rightarrow> viewport" where
  "relative_clip v r = v\<lparr>vp_clip := rect_clamp (rect_translate r (vp_origin v)) (vp_clip v)\<rparr>"

definition relative_window :: "viewport \<Rightarrow> rect \<Rightarrow> viewport" where
  "relative_window v r =
     (let clip = rect_clamp (rect_translate r (vp_origin v)) (vp_clip v);
          origin = offset_add (vp_origin v) (point_sub (top_left clip) (top_left (vp_clip v))) in
      \<lparr>vp_clip = clip, vp_origin = origin\<rparr>)"

subsection \<open>Rectangles as sets of pixels\<close>

text \<open>
  A rectangle of the screen: coordinates in the \<open>i16\<close> range, in order, with an extent that fits.
\<close>

definition wf_rect :: "rect \<Rightarrow> bool" where
  "wf_rect r \<longleftrightarrow> - 32768 \<le> x0 r \<and> x0 r \<le> x1 r \<and> x1 r \<le> 32767 \<and> x1 r - x0 r \<le> 32767 \<and>
     - 32768 \<le> y0 r \<and> y0 r \<le> y1 r \<and> y1 r \<le> 32767 \<and> y1 r - y0 r \<le> 32767"

lemma width_wf: "wf_rect r \<Longrightarrow> width r = x1 r - x0 r"
  and height_wf: "wf_rect r \<Longrightarrow> height r = y1 r - y0 r"
  by (simp_all add: wf_rect_def width_def height_def i16_id)

lemma contains_clamp: "contains (rect_clamp r l) p \<longleftrightarrow> contains r p \<and> contains l p"
  by (auto simp: contains_def rect_clamp_def min16_def max16_def)

lemma is_empty_iff: "is_empty r \<longleftrightarrow> (\<forall>p. \<not> contains r p)"
proof
  assume "is_empty r"
  then show "\<forall>p. \<not> contains r p"
    by (auto simp: is_empty_def contains_def)
next
  assume "\<forall>p. \<not> contains r p"
  then have "\<not> contains r (top_left r)"
    by blast
  then show "is_empty r"
    by (auto simp: is_empty_def contains_def top_left_def point_new_def)
qed

lemma contains_union: "contains r p \<or> contains s p \<Longrightarrow> contains (rect_union r s) p"
  by (auto simp: contains_def rect_union_def min16_def max16_def)

lemma split_left_wf:
  assumes "wf_rect r" "0 \<le> w" "w \<le> x1 r - x0 r"
  shows "split_left r w = (r\<lparr>x1 := x0 r + w\<rparr>, r\<lparr>x0 := x0 r + w\<rparr>)"
  using assms
  by (simp add: split_left_def width_wf clamp16_def Let_def) (simp add: wf_rect_def i16_id)

lemma split_top_wf:
  assumes "wf_rect r" "0 \<le> h" "h \<le> y1 r - y0 r"
  shows "split_top r h = (r\<lparr>y1 := y0 r + h\<rparr>, r\<lparr>y0 := y0 r + h\<rparr>)"
  using assms
  by (simp add: split_top_def height_wf clamp16_def Let_def) (simp add: wf_rect_def i16_id)

lemma sdiv_2_nonneg: "(0::int) \<le> a \<Longrightarrow> a sdiv 2 = a div 2"
  by (cases "a = 0") (auto simp: signed_divide_int_def sgn_if)

lemma split_center_wf:
  assumes r: "wf_rect r" and w: "0 \<le> w" "w \<le> x1 r - x0 r"
  defines "a \<equiv> x0 r + (x1 r - x0 r - w) div 2"
  shows "split_center r w = (r\<lparr>x1 := a\<rparr>, r\<lparr>x0 := a, x1 := a + w\<rparr>, r\<lparr>x0 := a + w\<rparr>)"
proof -
  have i: "i16 (width r - w) sdiv 2 = (x1 r - x0 r - w) div 2"
    using r w by (simp add: width_wf i16_id wf_rect_def sdiv_2_nonneg)
  have d: "0 \<le> (x1 r - x0 r - w) div 2" "(x1 r - x0 r - w) div 2 \<le> x1 r - x0 r - w"
    using w by auto
  have l: "split_left r ((x1 r - x0 r - w) div 2) = (r\<lparr>x1 := a\<rparr>, r\<lparr>x0 := a\<rparr>)"
    using r w d by (subst split_left_wf) (auto simp: a_def)
  have wf: "wf_rect (r\<lparr>x0 := a\<rparr>)"
    using r w d by (auto simp: wf_rect_def a_def)
  have c: "split_left (r\<lparr>x0 := a\<rparr>) w = (r\<lparr>x0 := a, x1 := a + w\<rparr>, r\<lparr>x0 := a + w\<rparr>)"
    using wf w d by (subst split_left_wf) (auto simp: a_def)
  show ?thesis
    by (simp add: split_center_def Let_def i l c)
qed

text \<open>
  The clipping of a viewport is exactly the intersection of pixel sets: a viewport reports that
  it meets a rectangle given in relative coordinates if and only if some pixel of the translated
  rectangle is inside its clip, and the clip it makes for the rectangle holds exactly the pixels that
  are in both.  So nothing is ever drawn outside the parent clip and nothing visible is dropped.
\<close>

theorem viewport_clip_pixels:
  "(viewport_contains v r \<longleftrightarrow>
      (\<exists>p. contains (rect_translate r (vp_origin v)) p \<and> contains (vp_clip v) p)) \<and>
   (contains (vp_clip (relative_clip v r)) q \<longleftrightarrow>
      contains (rect_translate r (vp_origin v)) q \<and> contains (vp_clip v) q) \<and>
   vp_clip (relative_window v r) = vp_clip (relative_clip v r) \<and>
   (contains (vp_clip (absolute_clip v r)) q \<longleftrightarrow> contains r q \<and> contains (vp_clip v) q)"
  by (auto simp: viewport_contains_def relative_clip_def relative_window_def absolute_clip_def
      is_empty_iff contains_clamp Let_def)

text \<open>
  The documentation of \<open>relative_window\<close> says that the new origin is the top-left corner of the
  rectangle.  It is so only if the old origin is the corner of the old clip: here the window for the
  rectangle at \<open>(12, 12)\<close> gets the origin \<open>(2, 2)\<close>.
\<close>

lemma relative_window_origin_differs:
  "relative_window \<lparr>vp_clip = \<lparr>x0 = 10, y0 = 10, x1 = 20, y1 = 20\<rparr>, vp_origin = offset_zero\<rparr>
     \<lparr>x0 = 12, y0 = 12, x1 = 15, y1 = 15\<rparr> =
   \<lparr>vp_clip = \<lparr>x0 = 12, y0 = 12, x1 = 15, y1 = 15\<rparr>, vp_origin = offset_new 2 2\<rparr>"
  by code_simp

text \<open>
  \<open>split_center\<close> cuts a rectangle into three disjoint parts that cover it: every pixel lies in
  exactly one of them, the center has the width asked for, and the right part is as wide as the left
  one or one pixel wider.
\<close>

theorem split_center_partition:
  assumes "wf_rect r" "0 \<le> w" "w \<le> width r"
  shows "case split_center r w of (l, c, rt) \<Rightarrow>
    width c = w \<and> (width rt = width l \<or> width rt = width l + 1) \<and>
    (\<forall>p. contains r p \<longleftrightarrow> contains l p \<or> contains c p \<or> contains rt p) \<and>
    (\<forall>p. \<not> (contains l p \<and> contains c p) \<and> \<not> (contains c p \<and> contains rt p) \<and>
         \<not> (contains l p \<and> contains rt p))"
proof -
  have w: "w \<le> x1 r - x0 r"
    using assms by (simp add: width_wf)
  define d where "d = (x1 r - x0 r - w) div 2"
  have d: "0 \<le> d" "2 * d \<le> x1 r - x0 r - w" "x1 r - x0 r - w \<le> 2 * d + 1"
    using w by (auto simp: d_def)
  show ?thesis
    unfolding split_center_wf [OF assms(1,2) w] d_def [symmetric]
    using assms(1,2) w d by (auto simp: width_def contains_def wf_rect_def i16_id)
qed

theorem split_center_partition_witness:
  "case split_center (from_size (offset_new 128 64)) 41 of (l, c, rt) \<Rightarrow>
    width c = 41 \<and> (width rt = width l \<or> width rt = width l + 1) \<and>
    (\<forall>p. contains (from_size (offset_new 128 64)) p \<longleftrightarrow>
       contains l p \<or> contains c p \<or> contains rt p) \<and>
    (\<forall>p. \<not> (contains l p \<and> contains c p) \<and> \<not> (contains c p \<and> contains rt p) \<and>
         \<not> (contains l p \<and> contains rt p))"
  by (rule split_center_partition) code_simp+

subsection \<open>Grid cells tile the area\<close>

lemma sdiv_pos: "(0::int) \<le> a \<Longrightarrow> 0 < b \<Longrightarrow> a sdiv b = a div b"
  by (cases "a = 0") (auto simp: signed_divide_int_def sgn_if)

lemma smod_pos: "(0::int) \<le> a \<Longrightarrow> 0 < b \<Longrightarrow> a smod b = a mod b"
  by (cases "a = 0") (auto simp: signed_modulo_int_def sgn_if)

lemma mult_le_of_le:
  assumes "(0::int) \<le> i" "i \<le> n - 1" "0 \<le> s" "0 \<le> q"
  shows "i * (q + s) \<le> (n - 1) * q + s * (n - 1)" "0 \<le> i * (q + s)"
  using mult_right_mono [of i "n - 1" "q + s"] assms by (auto simp: algebra_simps)

text \<open>The closed form of one axis, with no wrap-around when the spacings fit the extent.\<close>

lemma grid_axis_eq:
  assumes n: "0 < n" "n \<le> 32767" and i: "0 \<le> i" "i < n"
    and s: "0 \<le> s" "s * (n - 1) \<le> ext"
    and b: "- 32768 \<le> st" "st + ext \<le> 32767" "ext \<le> 32767" "s \<le> 32767"
  defines "q \<equiv> (ext - s * (n - 1)) div n" and "m \<equiv> (ext - s * (n - 1)) mod n"
  shows "grid_axis n i s st ext =
    Inr (st + i * (q + s) + min m i, if i < m then q + 1 else q)"
proof -
  define e where "e = ext - s * (n - 1)"
  have e: "0 \<le> e" "e \<le> ext"
    using n s by (auto simp: e_def)
  have qm0: "n * q + m = e" "0 \<le> m" "m < n" "0 \<le> q"
    using n e by (auto simp: q_def m_def e_def pos_imp_zdiv_nonneg_iff)
  have "q \<le> n * q"
    using mult_right_mono [of 1 n q] n qm0 by simp
  with qm0 have qm: "n * q + m = e" "0 \<le> m" "m < n" "0 \<le> q" "q \<le> e" "q + m \<le> e"
    by auto
  have sn: "0 \<le> s * (n - 1)" "s * (n - 1) \<le> 32767"
    using n s b by auto
  have iq: "0 \<le> i * (q + s)" "i * (q + s) \<le> (n - 1) * q + s * (n - 1)"
    using mult_le_of_le [of i n s q] i s qm by auto
  have ext: "(n - 1) * q + s * (n - 1) + m + q = ext"
    using qm(1) by (simp add: e_def algebra_simps)
  have qs: "q + s \<le> 32767 \<or> i = 0"
  proof (cases "i = 0")
    case False
    then have "1 \<le> n - 1" using i by simp
    then have "s \<le> s * (n - 1)" using s by (simp add: mult_le_cancel_left1)
    then show ?thesis using qm b e by (simp add: e_def)
  qed simp
  have mi: "min16 i (i16 (n - 1)) = i" "min16 m i = min m i"
    using n i by (auto simp: min16_def i16_id)
  have prod: "i16 (i * i16 (q + s)) = i * (q + s)"
    using qs iq ext qm b e s by (auto simp: i16_id)
  have div: "i16_div (i16 (ext - i16 (s * i16 (n - 1)))) n = Inr q"
    and rem: "i16_rem (i16 (ext - i16 (s * i16 (n - 1)))) n = Inr m"
    using n e sn b by (auto simp: i16_id e_def i16_div_def i16_rem_def sdiv_pos smod_pos q_def m_def)
  have o1: "i16 (st + i * (q + s)) = st + i * (q + s)"
    and o2: "i16 (st + i * (q + s) + min m i) = st + i * (q + s) + min m i"
    using iq ext qm b i by (auto simp: i16_id)
  show ?thesis
    unfolding grid_axis_def Let_def div rem mi rbind_Inr prod o1 o2
    using qm e b i by (auto simp: i16_id)
qed

text \<open>The reference layout of one axis: where cell \<open>i\<close> of \<open>n\<close> starts and where it ends.\<close>

definition axis_start :: "int \<Rightarrow> int \<Rightarrow> int \<Rightarrow> int \<Rightarrow> int \<Rightarrow> int" where
  "axis_start n s st ext i =
     (let e = ext - s * (n - 1) in st + i * (e div n + s) + min (e mod n) i)"

definition axis_end :: "int \<Rightarrow> int \<Rightarrow> int \<Rightarrow> int \<Rightarrow> int \<Rightarrow> int" where
  "axis_end n s st ext i =
     (let e = ext - s * (n - 1) in
      axis_start n s st ext i + (if i < e mod n then e div n + 1 else e div n))"

lemma axis_start_0: "0 < n \<Longrightarrow> axis_start n s st ext 0 = st"
  by (simp add: axis_start_def Let_def)

lemma axis_start_Suc: "axis_start n s st ext (i + 1) = axis_end n s st ext i + s"
  by (auto simp: axis_start_def axis_end_def Let_def algebra_simps min_def)

lemma axis_end_last:
  assumes "0 < n"
  shows "axis_end n s st ext (n - 1) = st + ext"
proof -
  define e where "e = ext - s * (n - 1)"
  have "e mod n < n" and e: "e div n * n + e mod n = e"
    using assms by auto
  then have "axis_end n s st ext (n - 1) = st + (n - 1) * (e div n + s) + e mod n + e div n"
    by (simp add: axis_start_def axis_end_def e_def [symmetric] Let_def)
  also have "\<dots> = st + e + s * (n - 1)"
    using e by (simp add: algebra_simps)
  finally show ?thesis
    by (simp add: e_def)
qed

lemma axis_size:
  assumes "0 < n" "s * (n - 1) \<le> ext"
  shows "axis_end n s st ext i - axis_start n s st ext i = (ext - s * (n - 1)) div n \<or>
    axis_end n s st ext i - axis_start n s st ext i = (ext - s * (n - 1)) div n + 1"
    "axis_start n s st ext i \<le> axis_end n s st ext i"
  using assms by (auto simp: axis_end_def Let_def pos_imp_zdiv_nonneg_iff)

lemma axis_start_mono:
  assumes "0 < n" "0 \<le> s" "s * (n - 1) \<le> ext"
  shows "axis_start n s st ext i \<le> axis_start n s st ext (i + int k)"
proof (induction k)
  case (Suc k)
  have "axis_start n s st ext (i + int k) \<le> axis_start n s st ext (i + int k + 1)"
    using axis_size(2) [OF assms(1,3), of st "i + int k"] assms(2) by (simp add: axis_start_Suc)
  with Suc show ?case
    by (simp add: algebra_simps)
qed simp

lemma axis_inside:
  assumes "0 < n" "0 \<le> s" "s * (n - 1) \<le> ext" "0 \<le> i" "i < n"
  shows "st \<le> axis_start n s st ext i" "axis_end n s st ext i \<le> st + ext"
proof -
  show "st \<le> axis_start n s st ext i"
    using axis_start_mono [OF assms(1-3), of st 0 "nat i"] assms by (simp add: axis_start_0)
  have "axis_start n s st ext (i + 1) \<le> axis_start n s st ext n"
    using axis_start_mono [OF assms(1-3), of st "i + 1" "nat (n - 1 - i)"] assms by simp
  then show "axis_end n s st ext i \<le> st + ext"
    using axis_start_Suc [of n s st ext i] axis_start_Suc [of n s st ext "n - 1"]
      axis_end_last [OF assms(1), of s st ext] by simp
qed

lemma grid_axis_layout:
  assumes "0 < n" "n \<le> 32767" "0 \<le> i" "i < n" "0 \<le> s" "s * (n - 1) \<le> ext"
    "- 32768 \<le> st" "st + ext \<le> 32767" "ext \<le> 32767" "s \<le> 32767"
  shows "grid_axis n i s st ext =
    Inr (axis_start n s st ext i, axis_end n s st ext i - axis_start n s st ext i)"
  by (subst grid_axis_eq [OF assms]) (simp add: axis_start_def axis_end_def Let_def)

text \<open>A grid that fits its area: at least one cell each way and room for the spacings.\<close>

definition wf_grid :: "grid \<Rightarrow> bool" where
  "wf_grid g \<longleftrightarrow> wf_rect (g_area g) \<and> 0 < cols g \<and> cols g \<le> 32767 \<and> 0 < rows g \<and> rows g \<le> 32767 \<and>
     0 \<le> g_spacing g \<and> g_spacing g \<le> 32767 \<and>
     g_spacing g * (int (cols g) - 1) \<le> width (g_area g) \<and>
     g_spacing g * (int (rows g) - 1) \<le> height (g_area g)"

definition cell_spec :: "grid \<Rightarrow> nat \<Rightarrow> nat \<Rightarrow> rect" where
  "cell_spec g row col =
     (let a = g_area g; s = g_spacing g;
          xs = axis_start (int (cols g)) s (x0 a) (width a) (int col);
          xe = axis_end (int (cols g)) s (x0 a) (width a) (int col);
          ys = axis_start (int (rows g)) s (y0 a) (height a) (int row);
          ye = axis_end (int (rows g)) s (y0 a) (height a) (int row) in
      \<lparr>x0 = xs, y0 = ys, x1 = xe, y1 = ye\<rparr>)"

lemma row_col_eq:
  assumes g: "wf_grid g" and rc: "row < rows g" "col < cols g"
  shows "row_col g row col = Inr (cell_spec g row col)"
proof -
  have a: "wf_rect (g_area g)"
    using g by (simp add: wf_grid_def)
  have lx: "grid_axis (int (cols g)) (int col) (g_spacing g) (x0 (g_area g)) (width (g_area g)) =
      Inr (x0 (cell_spec g row col), x1 (cell_spec g row col) - x0 (cell_spec g row col))"
    and ly: "grid_axis (int (rows g)) (int row) (g_spacing g) (y0 (g_area g)) (height (g_area g)) =
      Inr (y0 (cell_spec g row col), y1 (cell_spec g row col) - y0 (cell_spec g row col))"
    using g rc width_wf [OF a] height_wf [OF a]
    by (auto simp: wf_grid_def wf_rect_def cell_spec_def Let_def intro!: grid_axis_layout)
  have i: "i16 (int (cols g)) = int (cols g)" "i16 (int (rows g)) = int (rows g)"
    "i16 (int col) = int col" "i16 (int row) = int row"
    using g rc by (auto simp: wf_grid_def i16_id)
  have s: "axis_start n s st ext i \<le> axis_end n s st ext i \<and> st \<le> axis_start n s st ext i \<and>
      axis_end n s st ext i \<le> st + ext"
    if "0 < n" "0 \<le> s" "s * (n - 1) \<le> ext" "0 \<le> i" "i < n" for n s st ext i
    using axis_inside [OF that] axis_size(2) [OF that(1,3)] by blast
  have "- 32768 \<le> x1 (cell_spec g row col)" "x1 (cell_spec g row col) \<le> 32767"
    "- 32768 \<le> y1 (cell_spec g row col)" "y1 (cell_spec g row col) \<le> 32767"
    using g rc width_wf [OF a] height_wf [OF a]
      s [of "int (cols g)" "g_spacing g" "width (g_area g)" "int col" "x0 (g_area g)"]
      s [of "int (rows g)" "g_spacing g" "height (g_area g)" "int row" "y0 (g_area g)"]
    by (auto simp: wf_grid_def wf_rect_def cell_spec_def Let_def)
  then show ?thesis
    by (simp add: row_col_def i lx ly from_top_left_and_size_def point_new_def offset_new_def i16_id)
qed



subsection \<open>Linear placement stays inside the area\<close>

definition lo :: "axis \<Rightarrow> rect \<Rightarrow> int" where
  "lo ax r = (case ax of Horizontal \<Rightarrow> x0 r | Vertical \<Rightarrow> y0 r)"

definition hi :: "axis \<Rightarrow> rect \<Rightarrow> int" where
  "hi ax r = (case ax of Horizontal \<Rightarrow> x1 r | Vertical \<Rightarrow> y1 r)"

definition extent :: "axis \<Rightarrow> rect \<Rightarrow> int" where
  "extent ax r = hi ax r - lo ax r"

lemmas axis_defs = lo_def hi_def extent_def

lemma offset_axis_wf: "wf_rect r \<Longrightarrow> offset_axis (rect_size r) ax = extent ax r"
  by (cases ax) (simp_all add: offset_axis_def rect_size_def offset_new_def axis_defs width_wf height_wf)

lemma extent_wf: "wf_rect r \<Longrightarrow> 0 \<le> extent ax r \<and> extent ax r \<le> 32767"
  by (cases ax) (simp_all add: axis_defs wf_rect_def)

lemma axis_range_wf: "wf_rect r \<Longrightarrow> - 32768 \<le> lo ax r \<and> hi ax r \<le> 32767 \<and> hi ax r = lo ax r + extent ax r"
  by (cases ax) (simp_all add: axis_defs wf_rect_def)

text \<open>Moving one item to a cursor inside the area: it keeps its extent.\<close>

lemma place_item:
  assumes i: "wf_rect item" and a: "wf_rect area"
    and c: "0 \<le> c" "c + extent ax item \<le> extent ax area"
  defines "r \<equiv> with_top_left item (point_ofs (top_left area) (offset_on_axis ax c))"
  shows "lo ax r = lo ax area + c" "hi ax r = lo ax area + c + extent ax item"
    "offset_axis (rect_size r) ax = extent ax item"
proof -
  have e: "0 \<le> extent ax item" "extent ax item \<le> 32767" "lo ax area + extent ax area \<le> 32767"
    "- 32768 \<le> lo ax area"
    using extent_wf [OF i, of ax] axis_range_wf [OF a, of ax] by auto
  have s: "off_x (rect_size item) = x1 item - x0 item" "off_y (rect_size item) = y1 item - y0 item"
    using i by (simp_all add: rect_size_def offset_new_def width_wf height_wf)
  show "lo ax r = lo ax area + c"
    using c e by (cases ax) (simp_all add: r_def with_top_left_def from_top_left_and_size_def
        top_left_def point_ofs_def point_new_def offset_on_axis_def offset_new_def axis_defs i16_id)
  then show "hi ax r = lo ax area + c + extent ax item"
    using c e by (cases ax) (simp_all add: r_def with_top_left_def from_top_left_and_size_def s
        top_left_def point_ofs_def point_new_def offset_on_axis_def offset_new_def axis_defs i16_id)
  with \<open>lo ax r = _\<close> show "offset_axis (rect_size r) ax = extent ax item"
    using e by (cases ax) (simp_all add: offset_axis_def rect_size_def offset_new_def width_def
        height_def axis_defs i16_id)
qed

lemma arrange_loop_spec:
  assumes "wf_rect area" "\<forall>i\<in>set items. wf_rect i" "0 \<le> c" "0 \<le> g"
    "items \<noteq> [] \<longrightarrow>
       c + sum_list (map (extent ax) items) + (int (length items) - 1) * g \<le> extent ax area"
  defines "rs \<equiv> arrange_loop ax (top_left area) c g items"
  shows "list_all2 (\<lambda>i r. extent ax r = extent ax i) items rs \<and>
    (\<forall>r\<in>set rs. lo ax area + c \<le> lo ax r \<and> hi ax r \<le> hi ax area) \<and>
    (items \<noteq> [] \<longrightarrow> rs \<noteq> [] \<and> lo ax (hd rs) = lo ax area + c) \<and>
    successively (\<lambda>a b. lo ax b = hi ax a + g) rs"
  using assms(1-5) unfolding rs_def
proof (induction items arbitrary: c)
  case (Cons i items)
  let ?e = "extent ax i" and ?S = "sum_list (map (extent ax) items)" and ?n = "int (length items)"
  let ?r = "with_top_left i (point_ofs (top_left area) (offset_on_axis ax c))"
  have wf: "wf_rect i" "\<forall>j\<in>set items. wf_rect j"
    using Cons.prems by auto
  have S: "0 \<le> ?S" "0 \<le> ?e"
    using wf extent_wf by (auto intro!: sum_list_nonneg)
  have ng: "0 \<le> ?n * g"
    using Cons.prems(4) by simp
  have tot: "c + ?e + ?S + ?n * g \<le> extent ax area"
    using Cons.prems(5) by (simp add: algebra_simps)
  then have fit: "c + ?e \<le> extent ax area"
    using S ng by linarith
  note p = place_item [OF wf(1) Cons.prems(1,3) fit]
  define c' where "c' = i16 (i16 (c + offset_axis (rect_size ?r) ax) + g)"
  have hi: "hi ax area = lo ax area + extent ax area" "extent ax area \<le> 32767"
    using axis_range_wf [OF Cons.prems(1), of ax] extent_wf [OF Cons.prems(1), of ax] by auto
  have "extent ax ?r = hi ax ?r - lo ax ?r"
    by (rule extent_def)
  then have r: "extent ax ?r = ?e" "lo ax area + c \<le> lo ax ?r" "hi ax ?r \<le> hi ax area"
    using p(1,2) fit hi by linarith+
  show ?case
  proof (cases "items = []")
    case True
    then show ?thesis
      using r p(1) by (simp add: Let_def)
  next
    case False
    then have "1 * g \<le> ?n * g"
      using Cons.prems(4) by (intro mult_right_mono) (auto simp: Suc_le_eq)
    then have c': "c' = c + ?e + g"
      using tot S hi Cons.prems(3,4) by (simp add: c'_def p(3) i16_id)
    have c0: "0 \<le> c'" and pre: "items \<noteq> [] \<longrightarrow> c' + ?S + (?n - 1) * g \<le> extent ax area"
      using tot S Cons.prems(3,4) unfolding c' by (simp_all add: algebra_simps)
    note IH = Cons.IH [OF Cons.prems(1) wf(2) c0 Cons.prems(4) pre]
    have n: "lo ax area + c' = hi ax ?r + g" "lo ax area + c \<le> lo ax area + c'"
      using p(2) c' S Cons.prems(4) by auto
    have "arrange_loop ax (top_left area) c g (i # items) =
        ?r # arrange_loop ax (top_left area) c' g items"
      by (simp add: Let_def c'_def)
    then show ?thesis
      using IH False r n p(1) by (force simp: successively_Cons)
  qed
qed simp

lemma compute_spacing_spec:
  assumes a: "wf_rect area" and s: "0 \<le> S" "S \<le> extent (lp_axis lp) area"
    and sp: "0 \<le> lp_spacing lp" "S + int (n - 1) * lp_spacing lp \<le> 32767" and n: "n \<le> 32767"
  shows "case compute_spacing lp area n S of (c, g) \<Rightarrow> 0 \<le> c \<and> 0 \<le> g \<and> g \<le> lp_spacing lp \<and>
    c + S + int (n - 1) * g \<le> extent (lp_axis lp) area"
proof -
  let ?A = "extent (lp_axis lp) area" and ?k = "int (n - 1)" and ?s = "lp_spacing lp"
  have A: "0 \<le> ?A" "?A \<le> 32767" "offset_axis (rect_size area) (lp_axis lp) = ?A"
    using extent_wf [OF a] offset_axis_wf [OF a] by auto
  have ks: "0 \<le> ?k * ?s" "0 \<le> ?k"
    using sp by auto
  have i: "i16 ?k = ?k" "i16 (?k * ?s) = ?k * ?s" "i16 (S + ?k * ?s) = S + ?k * ?s" "i16 (?A - S) = ?A - S"
    using n ks sp s A by - (rule i16_id; linarith)+
  define c where "c t = (case lp_align lp of AlStart \<Rightarrow> 0 | AlCenter \<Rightarrow> i16 (?A sdiv 2 - t sdiv 2)
    | AlEnd \<Rightarrow> i16 (?A - t))" for t
  have c: "0 \<le> c t \<and> c t \<le> ?A - t" if "0 \<le> t" "t \<le> ?A" for t
    using that A by (auto simp: c_def sdiv_2_nonneg i16_id split: alignment.splits)
  show ?thesis
  proof (cases "S + ?k * ?s > ?A")
    case True
    then have k: "0 < ?k"
      using s by (cases "?k = 0") auto
    define g where "g = (?A - S) div ?k"
    have "?k * g + (?A - S) mod ?k = ?A - S" "0 \<le> (?A - S) mod ?k"
      using k by (simp_all add: g_def)
    then have g: "?k * g \<le> ?A - S" "0 \<le> g"
      using k s pos_imp_zdiv_nonneg_iff [OF k, of "?A - S"] unfolding g_def by linarith+
    have "?k * g \<le> ?k * ?s"
      using g True by linarith
    then have "g \<le> ?s"
      using k mult_le_cancel_left_pos [of ?k g ?s] by blast
    moreover have "max16 ?k 1 = ?k"
      using k by (auto simp: max16_def)
    then have "max16 ((?A - S) sdiv max16 ?k 1) 0 = g"
      using k g(2) s sdiv_pos [of "?A - S" ?k] by (simp add: max16_def g_def del: of_nat_diff)
    then have "compute_spacing lp area n S = (c ?A, g)"
      using True by (simp only: compute_spacing_def Let_def i A(3) if_True case_prod_conv c_def)
    ultimately show ?thesis
      using g c [of ?A] A(1) by simp
  next
    case False
    then have "compute_spacing lp area n S = (c (S + ?k * ?s), ?s)"
      by (simp only: compute_spacing_def Let_def i A(3) if_False case_prod_conv c_def)
    moreover have "0 \<le> S + ?k * ?s" "S + ?k * ?s \<le> ?A"
      using False s ks(1) by linarith+
    note c [OF this]
    ultimately show ?thesis
      using sp(1) by simp
  qed
qed

lemma sum16_eq:
  assumes "\<forall>x\<in>set xs. 0 \<le> x" "sum_list xs \<le> 32767"
  shows "sum16 xs = sum_list xs"
proof -
  have "fold (\<lambda>x acc. i16 (acc + x)) xs a = a + sum_list xs"
    if "0 \<le> a" "\<forall>x\<in>set xs. 0 \<le> x" "a + sum_list xs \<le> 32767" for a
    using that
  proof (induction xs arbitrary: a)
    case (Cons x xs)
    have "0 \<le> sum_list xs"
      using Cons.prems(2) by (auto intro: sum_list_nonneg)
    then have "i16 (a + x) = a + x"
      using Cons.prems by (auto simp: i16_id)
    then show ?case
      using Cons.IH [of "a + x"] Cons.prems by (simp add: add.assoc)
  qed simp
  from this [of 0] show ?thesis
    using assms by (simp add: sum16_def)
qed

text \<open>
  Arranging items whose extents fit into the area keeps every one of them inside the area: in
  order, with their extents unchanged, and with one common gap between neighbours, which is the
  spacing asked for or a smaller one when the spacing does not fit, and is never negative.
\<close>

theorem arrange_inside_area:
  assumes "wf_rect area" "\<forall>i\<in>set items. wf_rect i" "length items \<le> 32767" "0 \<le> lp_spacing lp"
    "sum_list (map (extent (lp_axis lp)) items) \<le> extent (lp_axis lp) area"
    "sum_list (map (extent (lp_axis lp)) items) + int (length items - 1) * lp_spacing lp \<le> 32767"
  shows "\<exists>g. 0 \<le> g \<and> g \<le> lp_spacing lp \<and>
    list_all2 (\<lambda>i r. extent (lp_axis lp) r = extent (lp_axis lp) i) items (arrange lp area items) \<and>
    (\<forall>r\<in>set (arrange lp area items).
       lo (lp_axis lp) area \<le> lo (lp_axis lp) r \<and> hi (lp_axis lp) r \<le> hi (lp_axis lp) area) \<and>
    successively (\<lambda>a b. lo (lp_axis lp) b = hi (lp_axis lp) a + g) (arrange lp area items)"
proof -
  let ?S = "sum_list (map (extent (lp_axis lp)) items)"
  have S: "0 \<le> ?S"
    using assms(2) extent_wf by (auto intro!: sum_list_nonneg)
  have m: "map (\<lambda>r. offset_axis (rect_size r) (lp_axis lp)) items = map (extent (lp_axis lp)) items"
    using assms(2) by (simp add: offset_axis_wf)
  have "sum16 (map (extent (lp_axis lp)) items) = ?S"
    using assms(2,5) extent_wf [OF assms(1), of "lp_axis lp"] extent_wf by (intro sum16_eq) auto
  moreover obtain c g where cg: "compute_spacing lp area (length items) ?S = (c, g)"
    by fastforce
  ultimately have a: "arrange lp area items = arrange_loop (lp_axis lp) (top_left area) c g items"
    by (simp add: arrange_def m)
  have b: "0 \<le> c" "0 \<le> g" "g \<le> lp_spacing lp"
    "c + ?S + int (length items - 1) * g \<le> extent (lp_axis lp) area"
    using compute_spacing_spec [OF assms(1) S assms(5,4,6,3)] by (simp_all add: cg)
  then have "items \<noteq> [] \<longrightarrow>
      c + ?S + (int (length items) - 1) * g \<le> extent (lp_axis lp) area"
    by (auto simp: of_nat_diff Suc_le_eq)
  from arrange_loop_spec [OF assms(1,2) b(1,2) this] show ?thesis
    using b by (intro exI [of _ g]) (force simp: a)
qed

theorem arrange_inside_area_witness:
  "\<exists>g. 0 \<le> g \<and> g \<le> 9 \<and>
    successively (\<lambda>a b. lo Horizontal b = hi Horizontal a + g)
      (arrange \<lparr>lp_axis = Horizontal, lp_align = AlCenter, lp_spacing = 9\<rparr>
         (from_size (offset_new 128 64)) [from_size (offset_new 60 10), from_size (offset_new 65 10)])"
proof -
  have "wf_rect (from_size (offset_new 60 10)) \<and> wf_rect (from_size (offset_new 65 10)) \<and>
      wf_rect (from_size (offset_new 128 64)) \<and> extent Horizontal (from_size (offset_new 60 10)) = 60 \<and>
      extent Horizontal (from_size (offset_new 65 10)) = 65 \<and>
      extent Horizontal (from_size (offset_new 128 64)) = 128"
    by code_simp
  then show ?thesis
    using arrange_inside_area [of "from_size (offset_new 128 64)"
        "[from_size (offset_new 60 10), from_size (offset_new 65 10)]"
        "\<lparr>lp_axis = Horizontal, lp_align = AlCenter, lp_spacing = 9\<rparr>"] by auto
qed

end
