(* ===== verification/Component.thy ===== *)
theory Component
  imports Time Micropython Geometry
begin

section \<open>Components and the event context\<close>

text \<open>
  \<^verbatim>\<open>core/embed/rust/src/ui/component/base.rs\<close> and \<^verbatim>\<open>ui/event.rs\<close>: events, the context that handlers use
  to ask for timers and for painting, the \<open>Child\<close> wrapper with its dirty flag, the \<open>Root\<close> of a layout
  and the pairing of components.  The two features \<open>button\<close> and \<open>touch\<close> are both on, so that the type of
  events covers every device model.  A handler takes
  the context, an event and its component and returns a message, the context and the component.
  Drawing itself is not modelled: the painting of a component is an argument of \<open>child_paint\<close>.
\<close>

subsection \<open>Events\<close>

datatype physical_button = PLeft | PRight

datatype button_event =
    ButtonPressed physical_button | ButtonReleased physical_button | HoldStarted | HoldEnded

definition button_event_new :: "u32 \<Rightarrow> u32 \<Rightarrow> button_event res" where
  "button_event_new event button =
     rbind (if button = 0 then Inr PLeft else if button = 1 then Inr PRight else Inl (Err OutOfRange)) (\<lambda>b.
       if event = 1 then Inr (ButtonPressed b)
       else if event = 2 then Inr (ButtonReleased b)
       else Inl (Err OutOfRange))"

datatype touch_event = TouchStart point | TouchMove point | TouchEnd point | TouchAbort

text \<open>A coordinate that does not fit an \<open>i16\<close> is out of range.\<close>

definition i16_of_u32 :: "u32 \<Rightarrow> int res" where
  "i16_of_u32 x = (if uint x \<le> 32767 then Inr (uint x) else Inl (Err OutOfRange))"

definition touch_event_new :: "u32 \<Rightarrow> u32 \<Rightarrow> u32 \<Rightarrow> touch_event res" where
  "touch_event_new event x y =
     rbind (i16_of_u32 x) (\<lambda>x. rbind (i16_of_u32 y) (\<lambda>y.
       let p = point_new x y in
       if event = 1 then Inr (TouchStart p)
       else if event = 2 then Inr (TouchMove p)
       else if event = 4 then Inr (TouchEnd p)
       else Inl (Err OutOfRange)))"

datatype swipe_direction = SwipeUp | SwipeDown | SwipeLeft | SwipeRight

datatype swipe_event = SwipeMove swipe_direction int | SwipeEnd swipe_direction

datatype usb_event = Connected bool

datatype attach_type = AttachInitial | AttachSwipe swipe_direction

datatype timer_token = TimerToken (into_raw: u32)

datatype event =
    Button button_event
  | Touch touch_event
  | USB usb_event
  | Timer timer_token
  | Progress u16 bytes
  | Attach attach_type
  | RequestPaint
  | SwipeEv swipe_event

definition INVALID_TOKEN :: timer_token where
  "INVALID_TOKEN = TimerToken 0"

subsection \<open>The event context\<close>

record event_ctx =
  timers :: "(timer_token \<times> duration) list"
  next_token :: u32
  place_requested :: bool
  paint_requested :: bool
  anim_frame_scheduled :: bool
  page_count :: "nat option"
  button_request :: "(u32 \<times> bytes) option"
  root_repaint_requested :: bool
  swipe_disable_req :: bool
  swipe_enable_req :: bool
  transition_out :: "attach_type option"

definition ANIM_FRAME_TIMER :: timer_token where
  "ANIM_FRAME_TIMER = TimerToken 1"

definition ANIM_FRAME_DEADLINE :: duration where
  "ANIM_FRAME_DEADLINE = from_millis 1"

definition STARTING_TIMER_TOKEN :: u32 where
  "STARTING_TIMER_TOKEN = 2"

definition MAX_TIMERS :: nat where
  "MAX_TIMERS = 4"

definition ctx_new :: event_ctx where
  "ctx_new =
     \<lparr>timers = [], next_token = STARTING_TIMER_TOKEN, place_requested = True, paint_requested = False,
      anim_frame_scheduled = False, page_count = None, button_request = None,
      root_repaint_requested = False, swipe_disable_req = False, swipe_enable_req = False,
      transition_out = None\<rparr>"

definition request_place :: "event_ctx \<Rightarrow> event_ctx" where
  "request_place ctx = ctx\<lparr>place_requested := True\<rparr>"

definition request_paint :: "event_ctx \<Rightarrow> event_ctx" where
  "request_paint ctx = ctx\<lparr>paint_requested := True\<rparr>"

text \<open>The bounded queue drops a timer that does not fit.\<close>

definition register_timer :: "timer_token \<Rightarrow> duration \<Rightarrow> event_ctx \<Rightarrow> event_ctx" where
  "register_timer token deadline ctx =
     (if length (timers ctx) < MAX_TIMERS then ctx\<lparr>timers := timers ctx @ [(token, deadline)]\<rparr> else ctx)"

definition next_timer_token :: "event_ctx \<Rightarrow> timer_token \<times> event_ctx" where
  "next_timer_token ctx =
     (TimerToken (next_token ctx),
      ctx\<lparr>next_token := (case u32_checked_add (next_token ctx) 1 of
        Some n \<Rightarrow> n | None \<Rightarrow> STARTING_TIMER_TOKEN)\<rparr>)"

definition request_timer :: "duration \<Rightarrow> event_ctx \<Rightarrow> timer_token \<times> event_ctx" where
  "request_timer deadline ctx =
     (let (token, ctx) = next_timer_token ctx in (token, register_timer token deadline ctx))"

definition request_anim_frame :: "event_ctx \<Rightarrow> event_ctx" where
  "request_anim_frame ctx =
     (if \<not> anim_frame_scheduled ctx
      then register_timer ANIM_FRAME_TIMER ANIM_FRAME_DEADLINE (ctx\<lparr>anim_frame_scheduled := True\<rparr>)
      else ctx)"

definition request_repaint_root :: "event_ctx \<Rightarrow> event_ctx" where
  "request_repaint_root ctx = ctx\<lparr>root_repaint_requested := True\<rparr>"

definition set_page_count :: "nat \<Rightarrow> event_ctx \<Rightarrow> event_ctx" where
  "set_page_count n ctx = ctx\<lparr>page_count := Some n\<rparr>"

definition map_page_count :: "(nat \<Rightarrow> nat) \<Rightarrow> event_ctx \<Rightarrow> event_ctx" where
  "map_page_count f ctx =
     ctx\<lparr>page_count := Some (f (case page_count ctx of None \<Rightarrow> 1 | Some n \<Rightarrow> n))\<rparr>"

definition send_button_request :: "u32 \<Rightarrow> bytes \<Rightarrow> event_ctx \<Rightarrow> event_ctx" where
  "send_button_request code br_type ctx = ctx\<lparr>button_request := Some (code, br_type)\<rparr>"

definition take_button_request :: "event_ctx \<Rightarrow> (u32 \<times> bytes) option \<times> event_ctx" where
  "take_button_request ctx = (button_request ctx, ctx\<lparr>button_request := None\<rparr>)"

definition pop_timer :: "event_ctx \<Rightarrow> (timer_token \<times> duration) option \<times> event_ctx" where
  "pop_timer ctx =
     (if timers ctx = [] then (None, ctx)
      else (Some (last (timers ctx)), ctx\<lparr>timers := butlast (timers ctx)\<rparr>))"

definition disable_swipe :: "event_ctx \<Rightarrow> event_ctx" where
  "disable_swipe ctx = ctx\<lparr>swipe_disable_req := True\<rparr>"

definition enable_swipe :: "event_ctx \<Rightarrow> event_ctx" where
  "enable_swipe ctx = ctx\<lparr>swipe_enable_req := True\<rparr>"

definition set_transition_out :: "attach_type \<Rightarrow> event_ctx \<Rightarrow> event_ctx" where
  "set_transition_out t ctx = ctx\<lparr>transition_out := Some t\<rparr>"

definition ctx_clear :: "event_ctx \<Rightarrow> event_ctx" where
  "ctx_clear ctx =
     ctx\<lparr>place_requested := False, paint_requested := False, anim_frame_scheduled := False,
         page_count := None, button_request := None, root_repaint_requested := False,
         swipe_disable_req := False, swipe_enable_req := False, transition_out := None\<rparr>"

lemmas ctx_defs = request_place_def request_paint_def register_timer_def next_timer_token_def
  request_timer_def request_anim_frame_def request_repaint_root_def

subsection \<open>Child, Root and pairs\<close>

type_synonym ('c, 'm) handler = "event_ctx \<Rightarrow> event \<Rightarrow> 'c \<Rightarrow> 'm option \<times> event_ctx \<times> 'c"

record 'c child =
  wrapped :: 'c
  marked_for_paint :: bool

definition child_new :: "'c \<Rightarrow> 'c child" where
  "child_new c = \<lparr>wrapped = c, marked_for_paint = True\<rparr>"

definition child_mutate ::
  "(event_ctx \<Rightarrow> 'c \<Rightarrow> 'u \<times> event_ctx \<times> 'c) \<Rightarrow> event_ctx \<Rightarrow> 'c child \<Rightarrow> 'u \<times> event_ctx \<times> 'c child" where
  "child_mutate component_func ctx ch =
     (let prev_requested = paint_requested ctx;
          (result, ctx, c) = component_func (ctx\<lparr>paint_requested := False\<rparr>) (wrapped ch) in
      if paint_requested ctx then (result, ctx, ch\<lparr>wrapped := c, marked_for_paint := True\<rparr>)
      else (result, ctx\<lparr>paint_requested := prev_requested\<rparr>, ch\<lparr>wrapped := c\<rparr>))"

definition child_event :: "('c, 'm) handler \<Rightarrow> ('c child, 'm) handler" where
  "child_event ev ctx e ch =
     child_mutate (\<lambda>ctx c. ev (if e = RequestPaint then request_paint ctx else ctx) e c) ctx ch"

definition child_skip_paint :: "'c child \<Rightarrow> 'c child" where
  "child_skip_paint ch = ch\<lparr>marked_for_paint := False\<rparr>"

text \<open>Painting returns whether the inner component was painted.\<close>

definition child_paint :: "('c \<Rightarrow> 'c) \<Rightarrow> 'c child \<Rightarrow> bool \<times> 'c child" where
  "child_paint paint ch =
     (if marked_for_paint ch then (True, ch\<lparr>marked_for_paint := False, wrapped := paint (wrapped ch)\<rparr>)
      else (False, ch))"

record 'c root =
  inner :: "'c child option"
  marked_for_clear :: bool
  root_transition_out :: "attach_type option"

definition root_new :: "'c \<Rightarrow> 'c root" where
  "root_new c = \<lparr>inner = Some (child_new c), marked_for_clear = True, root_transition_out = None\<rparr>"

definition root_delete :: "'c root \<Rightarrow> 'c root" where
  "root_delete r = r\<lparr>inner := None\<rparr>"

definition root_event ::
  "('c, 'm) handler \<Rightarrow> event_ctx \<Rightarrow> event \<Rightarrow> 'c root \<Rightarrow> ('m option \<times> event_ctx \<times> 'c root, 'e) result" where
  "root_event ev ctx e r =
     rbind (unwrap (inner r)) (\<lambda>ch.
     let (msg, ctx, ch) = child_event ev ctx e ch in
     rbind
       (if root_repaint_requested ctx then
          let (paint_msg, dummy_ctx, ch) = child_event ev ctx_new RequestPaint ch in
          if paint_msg \<noteq> None \<or> timers dummy_ctx \<noteq> [] then Inl Panic
          else Inr (r\<lparr>inner := Some ch, marked_for_clear := True\<rparr>)
        else Inr (r\<lparr>inner := Some ch\<rparr>)) (\<lambda>r.
     let r = (case transition_out ctx of Some t \<Rightarrow> r\<lparr>root_transition_out := Some t\<rparr> | None \<Rightarrow> r) in
     Inr (msg, ctx, r)))"

text \<open>\<open>Root::paint\<close>: whether the screen is cleared, whether the content is painted.\<close>

definition root_paint :: "('c \<Rightarrow> 'c) \<Rightarrow> 'c root \<Rightarrow> (bool \<times> bool \<times> 'c root, 'e) result" where
  "root_paint paint r =
     rbind (unwrap (inner r)) (\<lambda>ch.
     let clear = marked_for_clear r \<and> marked_for_paint ch;
         (painted, ch) = child_paint paint ch in
     Inr (clear, painted,
       r\<lparr>marked_for_clear := (if clear then False else marked_for_clear r), inner := Some ch\<rparr>))"

definition pair_event :: "('a, 'm) handler \<Rightarrow> ('b, 'm) handler \<Rightarrow> ('a \<times> 'b, 'm) handler" where
  "pair_event ev1 ev2 ctx e c =
     (let (msg, ctx, a) = ev1 ctx e (fst c) in
      case msg of
        Some x \<Rightarrow> (Some x, ctx, (a, snd c))
      | None \<Rightarrow> (let (msg, ctx, b) = ev2 ctx e (snd c) in (msg, ctx, (a, b))))"

definition option_event :: "('c, 'm) handler \<Rightarrow> ('c option, 'm) handler" where
  "option_event ev ctx e c = (case c of
      Some x \<Rightarrow> (let (msg, ctx, x) = ev ctx e x in (msg, ctx, Some x))
    | None \<Rightarrow> (None, ctx, None))"

subsection \<open>The contract of a component\<close>

text \<open>
  What the trait \<open>Component\<close> and the assertions of \<open>Root\<close> expect of a handler: a request for painting
  is never withdrawn, the timer queue stays within its capacity, and the internal event
  \<open>RequestPaint\<close> raises no message and asks for no timer.
\<close>

locale ui_component =
  fixes ev :: "('c, 'm) handler"
  assumes paint_kept: "ev ctx e c = (m, ctx', c') \<Longrightarrow> paint_requested ctx \<Longrightarrow> paint_requested ctx'"
    and timers_bounded: "ev ctx e c = (m, ctx', c') \<Longrightarrow> length (timers ctx) \<le> MAX_TIMERS \<Longrightarrow>
      length (timers ctx') \<le> MAX_TIMERS"
    and request_paint_silent: "ev ctx RequestPaint c = (m, ctx', c') \<Longrightarrow> m = None \<and> timers ctx' = timers ctx"
begin

text \<open>A \<open>Child\<close> honours the contract again, so that components nest.\<close>

lemma child_is_component: "ui_component (child_event ev)"
proof
  fix ctx e and ch :: "'c child" and m ctx' ch'
  assume h: "child_event ev ctx e ch = (m, ctx', ch')"
  obtain m1 ctx1 c1 where e1: "ev (if e = RequestPaint then request_paint (ctx\<lparr>paint_requested := False\<rparr>)
      else ctx\<lparr>paint_requested := False\<rparr>) e (wrapped ch) = (m1, ctx1, c1)"
    by (metis prod_cases3)
  show "paint_requested ctx'" if "paint_requested ctx"
    using h that e1 by (auto simp: child_event_def child_mutate_def split: if_splits prod.splits)
  show "length (timers ctx') \<le> MAX_TIMERS" if "length (timers ctx) \<le> MAX_TIMERS"
    using h that e1 timers_bounded [OF e1]
    by (auto simp: child_event_def child_mutate_def request_paint_def split: if_splits prod.splits)
next
  fix ctx and ch :: "'c child" and m ctx' ch'
  assume h: "child_event ev ctx RequestPaint ch = (m, ctx', ch')"
  obtain m1 ctx1 c1 where e1: "ev (request_paint (ctx\<lparr>paint_requested := False\<rparr>)) RequestPaint (wrapped ch) =
      (m1, ctx1, c1)"
    by (metis prod_cases3)
  show "m = None \<and> timers ctx' = timers ctx"
    using h e1 request_paint_silent [OF e1]
    by (auto simp: child_event_def child_mutate_def request_paint_def split: if_splits prod.splits)
qed

text \<open>
  The dirty flag: after an event the child is marked exactly if it was marked or its inner component
  asked for painting in this event, and the flag of the context is set exactly if it was set or this
  child asked.
\<close>

lemma child_dirty_flag:
  assumes "child_event ev ctx e ch = (m, ctx', ch')"
    and "ev (if e = RequestPaint then request_paint (ctx\<lparr>paint_requested := False\<rparr>)
      else ctx\<lparr>paint_requested := False\<rparr>) e (wrapped ch) = (m1, ctx1, c1)"
  shows "m = m1 \<and> wrapped ch' = c1 \<and>
    (marked_for_paint ch' \<longleftrightarrow> marked_for_paint ch \<or> paint_requested ctx1) \<and>
    (paint_requested ctx' \<longleftrightarrow> paint_requested ctx \<or> paint_requested ctx1) \<and>
    (e = RequestPaint \<longrightarrow> marked_for_paint ch')"
  using assms paint_kept [OF assms(2)]
  by (auto simp: child_event_def child_mutate_def request_paint_def split: if_splits)

text \<open>The assertions of \<open>Root\<close> hold: its handler never panics while it has its inner component.\<close>

lemma root_event_total:
  assumes "inner r = Some ch"
  shows "\<exists>m ctx' r'. root_event ev ctx e r = Inr (m, ctx', r') \<and> inner r' \<noteq> None \<and>
    (root_repaint_requested ctx' \<longrightarrow> marked_for_clear r' \<and> (\<exists>ch'. inner r' = Some ch' \<and> marked_for_paint ch')) \<and>
    (\<forall>t. transition_out ctx' = Some t \<longrightarrow> root_transition_out r' = Some t)"
proof -
  obtain m ctx1 ch1 where e1: "child_event ev ctx e ch = (m, ctx1, ch1)"
    by (metis prod_cases3)
  obtain m2 ctx2 ch2 where e2: "child_event ev ctx_new RequestPaint ch1 = (m2, ctx2, ch2)"
    by (metis prod_cases3)
  obtain m3 ctx3 c3 where e3: "ev (if RequestPaint = RequestPaint then request_paint (ctx_new\<lparr>paint_requested := False\<rparr>)
      else ctx_new\<lparr>paint_requested := False\<rparr>) RequestPaint (wrapped ch1) = (m3, ctx3, c3)"
    by (metis prod_cases3)
  have s: "m2 = None" "timers ctx2 = []" "marked_for_paint ch2"
    using ui_component.request_paint_silent [OF child_is_component e2] child_dirty_flag [OF e2 e3] by (auto simp: ctx_new_def)
  show ?thesis
    using assms s by (simp add: root_event_def e1 e2 unwrap_def split: option.splits)
qed

end

text \<open>
  Two components side by side, the second asked only if the first has no message, and a component
  that may be missing.
\<close>

lemma pair_is_component:
  assumes "ui_component ev1" "ui_component ev2"
  shows "ui_component (pair_event ev1 ev2)"
proof
  fix ctx e c m ctx' c'
  assume h: "pair_event ev1 ev2 ctx e c = (m, ctx', c')"
  obtain m1 ctx1 a where e1: "ev1 ctx e (fst c) = (m1, ctx1, a)" by (metis prod_cases3)
  obtain m2 ctx2 b where e2: "ev2 ctx1 e (snd c) = (m2, ctx2, b)" by (metis prod_cases3)
  show "paint_requested ctx'" if "paint_requested ctx"
    using h that ui_component.paint_kept [OF assms(1) e1] ui_component.paint_kept [OF assms(2) e2]
    by (auto simp: pair_event_def e1 e2 split: option.splits)
  show "length (timers ctx') \<le> MAX_TIMERS" if "length (timers ctx) \<le> MAX_TIMERS"
    using h that ui_component.timers_bounded [OF assms(1) e1] ui_component.timers_bounded [OF assms(2) e2]
    by (auto simp: pair_event_def e1 e2 split: option.splits)
next
  fix ctx c m ctx' c'
  assume h: "pair_event ev1 ev2 ctx RequestPaint c = (m, ctx', c')"
  obtain m1 ctx1 a where e1: "ev1 ctx RequestPaint (fst c) = (m1, ctx1, a)" by (metis prod_cases3)
  obtain m2 ctx2 b where e2: "ev2 ctx1 RequestPaint (snd c) = (m2, ctx2, b)" by (metis prod_cases3)
  show "m = None \<and> timers ctx' = timers ctx"
    using h ui_component.request_paint_silent [OF assms(1) e1] ui_component.request_paint_silent [OF assms(2) e2]
    by (auto simp: pair_event_def e1 e2)
qed

lemma option_is_component:
  assumes "ui_component ev"
  shows "ui_component (option_event ev)"
proof
  fix ctx e c m ctx' c'
  assume h: "option_event ev ctx e c = (m, ctx', c')"
  show "paint_requested ctx'" if "paint_requested ctx"
    using h that ui_component.paint_kept [OF assms] by (auto simp: option_event_def split: option.splits prod.splits)
  show "length (timers ctx') \<le> MAX_TIMERS" if "length (timers ctx) \<le> MAX_TIMERS"
    using h that ui_component.timers_bounded [OF assms] by (auto simp: option_event_def split: option.splits prod.splits)
next
  fix ctx c m ctx' c'
  assume "option_event ev ctx RequestPaint c = (m, ctx', c')"
  then show "m = None \<and> timers ctx' = timers ctx"
    using ui_component.request_paint_silent [OF assms] by (fastforce simp: option_event_def split: option.splits prod.splits)
qed

text \<open>Timer tokens of one context are never the reserved ones, and they differ until the counter wraps.\<close>

lemma next_token_valid:
  assumes "2 \<le> unat (next_token ctx)"
  shows "case next_timer_token ctx of (t, ctx') \<Rightarrow>
    t \<noteq> INVALID_TOKEN \<and> t \<noteq> ANIM_FRAME_TIMER \<and> 2 \<le> unat (next_token ctx')"
proof -
  have n: "next_token ctx \<noteq> 0" "next_token ctx \<noteq> 1"
    using assms by auto
  have "2 \<le> unat (next_token ctx + 1)" if "unat (next_token ctx) + 1 < 2 ^ 32"
    using that assms by (simp add: unat_word_ariths)
  with n show ?thesis
    by (auto simp: next_timer_token_def INVALID_TOKEN_def ANIM_FRAME_TIMER_def u32_checked_add_def
        STARTING_TIMER_TOKEN_def)
qed

end
