(* ===== verification/Swipe.thy ===== *)
theory Swipe
  imports Component
begin

section \<open>Swipe detection\<close>

text \<open>
  \<^verbatim>\<open>core/embed/rust/src/ui/component/swipe.rs\<close> and \<^verbatim>\<open>swipe_detect.rs\<close>: the directions, the simple
  component \<open>Swipe\<close>, the configuration of the swipes a screen allows, and the detector that turns
  touches into the start, the movement and the triggering of a swipe, with its closing animation.

  The clock, the size of the screen and the four computations in \<open>f32\<close> are fields of the environment.
  The two distances that the source computes at compile time from \<open>f32\<close> constants are
  \<open>120 * 0.1 = 12\<close> and \<open>120 * 0.3 = 36\<close> pixels.
\<close>

record swipe_env =
  sw_now :: instant
  sw_screen :: offset
  sw_animation_disabled :: bool
  ratio_reached :: "int \<Rightarrow> bool" \<comment> \<open>\<open>Swipe::ratio(dist) >= THRESHOLD\<close>\<close>
  progress_f32 :: "u16 \<Rightarrow> u16" \<comment> \<open>\<open>(val / DISTANCE) * PROGRESS_MAX\<close>\<close>
  lerp_i16 :: "int \<Rightarrow> int \<Rightarrow> duration \<Rightarrow> duration \<Rightarrow> int" \<comment> \<open>from, to, elapsed, duration\<close>
  rest_of_duration :: "duration \<Rightarrow> u16 \<Rightarrow> int \<Rightarrow> u32" \<comment> \<open>duration, distance moved, final value\<close>

subsection \<open>Directions\<close>

definition as_offset :: "swipe_direction \<Rightarrow> offset \<Rightarrow> offset" where
  "as_offset d s = (case d of
      SwipeUp \<Rightarrow> offset_on_y (i16_neg (off_y s))
    | SwipeDown \<Rightarrow> offset_on_y (off_y s)
    | SwipeLeft \<Rightarrow> offset_on_x (i16_neg (off_x s))
    | SwipeRight \<Rightarrow> offset_on_x (off_x s))"

text \<open>The iterator holds the direction that comes next.\<close>

definition direction_next :: "swipe_direction option \<Rightarrow> swipe_direction option \<times> swipe_direction option" where
  "direction_next current =
     (current, case current of
        Some SwipeUp \<Rightarrow> Some SwipeDown
      | Some SwipeDown \<Rightarrow> Some SwipeLeft
      | Some SwipeLeft \<Rightarrow> Some SwipeRight
      | Some SwipeRight \<Rightarrow> None
      | None \<Rightarrow> None)"

definition swipe_directions :: "swipe_direction list" where
  "swipe_directions = [SwipeUp, SwipeDown, SwipeLeft, SwipeRight]"

subsection \<open>The component \<open>Swipe\<close>\<close>

record swipe =
  allow_up :: bool
  allow_down :: bool
  allow_left :: bool
  allow_right :: bool
  sw_origin :: "point option"

definition swipe_new :: swipe where
  "swipe_new = \<lparr>allow_up = False, allow_down = False, allow_left = False, allow_right = False, sw_origin = None\<rparr>"

definition swipe_vertical :: swipe where
  "swipe_vertical = swipe_new\<lparr>allow_up := True, allow_down := True\<rparr>"

definition swipe_horizontal :: swipe where
  "swipe_horizontal = swipe_new\<lparr>allow_left := True, allow_right := True\<rparr>"

definition swipe_is_active :: "swipe \<Rightarrow> bool" where
  "swipe_is_active s \<longleftrightarrow> allow_up s \<or> allow_down s \<or> allow_left s \<or> allow_right s"

definition swipe_result :: "swipe_env \<Rightarrow> swipe \<Rightarrow> offset \<Rightarrow> swipe_direction option" where
  "swipe_result U s ofs =
     (let a = offset_abs ofs in
      if off_x a > off_y a \<and> (allow_left s \<or> allow_right s) then
        (if ratio_reached U (off_x a) then
           (if off_x ofs < 0 \<and> allow_left s then Some SwipeLeft
            else if off_x ofs > 0 \<and> allow_right s then Some SwipeRight
            else None)
         else None)
      else if off_x a < off_y a \<and> (allow_up s \<or> allow_down s) then
        (if ratio_reached U (off_y a) then
           (if off_y ofs < 0 \<and> allow_up s then Some SwipeUp
            else if off_y ofs > 0 \<and> allow_down s then Some SwipeDown
            else None)
         else None)
      else None)"

definition swipe_component_event :: "swipe_env \<Rightarrow> (swipe, swipe_direction) handler" where
  "swipe_component_event U ctx e s =
     (if \<not> swipe_is_active s then (None, ctx, s)
      else case (e, sw_origin s) of
        (Touch (TouchStart pos), _) \<Rightarrow> (None, ctx, s\<lparr>sw_origin := Some pos\<rparr>)
      | (Touch (TouchEnd pos), Some origin) \<Rightarrow>
          (swipe_result U s (point_sub pos origin), ctx, s\<lparr>sw_origin := None\<rparr>)
      | _ \<Rightarrow> (None, ctx, s))"

subsection \<open>Configuration\<close>

record swipe_settings =
  sw_duration :: duration

definition settings_default :: swipe_settings where
  "settings_default = \<lparr>sw_duration = from_millis 333\<rparr>"

definition settings_immediate :: swipe_settings where
  "settings_immediate = \<lparr>sw_duration = from_millis 0\<rparr>"

record swipe_config =
  horizontal_pages :: bool
  vertical_pages :: bool
  sc_up :: "swipe_settings option"
  sc_down :: "swipe_settings option"
  sc_left :: "swipe_settings option"
  sc_right :: "swipe_settings option"

definition config_new :: swipe_config where
  "config_new = \<lparr>horizontal_pages = False, vertical_pages = False, sc_up = None, sc_down = None,
     sc_left = None, sc_right = None\<rparr>"

definition config_index :: "swipe_config \<Rightarrow> swipe_direction \<Rightarrow> swipe_settings option" where
  "config_index c d = (case d of
      SwipeUp \<Rightarrow> sc_up c | SwipeDown \<Rightarrow> sc_down c | SwipeLeft \<Rightarrow> sc_left c | SwipeRight \<Rightarrow> sc_right c)"

definition config_with_swipe :: "swipe_direction \<Rightarrow> swipe_settings \<Rightarrow> swipe_config \<Rightarrow> swipe_config" where
  "config_with_swipe d s c = (case d of
      SwipeUp \<Rightarrow> c\<lparr>sc_up := Some s\<rparr> | SwipeDown \<Rightarrow> c\<lparr>sc_down := Some s\<rparr>
    | SwipeLeft \<Rightarrow> c\<lparr>sc_left := Some s\<rparr> | SwipeRight \<Rightarrow> c\<lparr>sc_right := Some s\<rparr>)"

definition config_with_horizontal_pages :: "swipe_config \<Rightarrow> swipe_config" where
  "config_with_horizontal_pages c = c\<lparr>horizontal_pages := True\<rparr>"

definition config_with_vertical_pages :: "swipe_config \<Rightarrow> swipe_config" where
  "config_with_vertical_pages c = c\<lparr>vertical_pages := True\<rparr>"

definition is_allowed :: "swipe_config \<Rightarrow> swipe_direction \<Rightarrow> bool" where
  "is_allowed c d \<longleftrightarrow> config_index c d \<noteq> None"

definition config_duration :: "swipe_config \<Rightarrow> swipe_direction \<Rightarrow> duration option" where
  "config_duration c d = map_option sw_duration (config_index c d)"

definition u16_saturating_sub :: "u16 \<Rightarrow> u16 \<Rightarrow> u16" where
  "u16_saturating_sub a b = (if b \<le> a then a - b else 0)"

definition correct_movement :: "swipe_direction \<Rightarrow> offset \<Rightarrow> bool" where
  "correct_movement d m \<longleftrightarrow> (case d of
      SwipeRight \<Rightarrow> off_x m > 0 | SwipeLeft \<Rightarrow> off_x m < 0
    | SwipeDown \<Rightarrow> off_y m > 0 | SwipeUp \<Rightarrow> off_y m < 0)"

definition config_progress :: "swipe_config \<Rightarrow> swipe_direction \<Rightarrow> offset \<Rightarrow> u16 \<Rightarrow> u16" where
  "config_progress c d movement threshold =
     (if \<not> is_allowed c d then 0
      else if \<not> correct_movement d movement then 0
      else let m = offset_abs movement in
        (case d of
           SwipeRight \<Rightarrow> u16_saturating_sub (of_int (off_x m)) threshold
         | SwipeLeft \<Rightarrow> u16_saturating_sub (of_int (off_x m)) threshold
         | SwipeDown \<Rightarrow> u16_saturating_sub (of_int (off_y m)) threshold
         | SwipeUp \<Rightarrow> u16_saturating_sub (of_int (off_y m)) threshold))"

subsection \<open>The detector\<close>

datatype swipe_detect_msg =
    DetectStart swipe_direction | DetectMove swipe_direction u16 | DetectTrigger swipe_direction

record swipe_detect =
  sd_origin :: "point option"
  locked :: "swipe_direction option"
  final_animation :: "int animation option"
  moved :: u16

definition PROGRESS_MAX :: int where
  "PROGRESS_MAX = 1000"

definition MIN_LOCK :: u16 where
  "MIN_LOCK = 12"

definition MIN_TRIGGER :: u16 where
  "MIN_TRIGGER = 36"

definition DURATION_MS :: u32 where
  "DURATION_MS = 333"

definition detect_new :: swipe_detect where
  "detect_new = \<lparr>sd_origin = None, locked = None, final_animation = None, moved = 0\<rparr>"

definition is_lockable :: "swipe_env \<Rightarrow> swipe_detect \<Rightarrow> swipe_direction \<Rightarrow> bool" where
  "is_lockable U s d = (case sd_origin s of
      None \<Rightarrow> False
    | Some origin \<Rightarrow>
        (let min_distance = uint MIN_TRIGGER in
         case d of
           SwipeUp \<Rightarrow> pt_y origin > min_distance
         | SwipeDown \<Rightarrow> pt_y origin < i16 (off_y (sw_screen U) - min_distance)
         | SwipeLeft \<Rightarrow> pt_x origin > min_distance
         | SwipeRight \<Rightarrow> pt_x origin < i16 (off_x (sw_screen U) - min_distance)))"

definition eval_anim_frame ::
  "swipe_env \<Rightarrow> event_ctx \<Rightarrow> swipe_detect \<Rightarrow> swipe_detect_msg option \<times> event_ctx \<times> swipe_detect" where
  "eval_anim_frame U ctx s = (case (locked s, final_animation s) of
      (Some dir, Some a) \<Rightarrow>
        (if anim_finished a (sw_now U) then
           (Some (if anim_to a \<noteq> 0 then DetectTrigger dir else DetectMove dir 0),
            request_paint (request_anim_frame ctx),
            s\<lparr>locked := None, final_animation := None, moved := 0\<rparr>)
         else
           (if sw_animation_disabled U then None
            else Some (DetectMove dir (of_int (max 0
              (lerp_i16 U (anim_from a) (anim_to a) (anim_elapsed a (sw_now U)) (anim_duration a))))),
            request_paint (request_anim_frame ctx), s))
    | _ \<Rightarrow> (None, ctx, s))"

definition swipe_duration :: "swipe_config \<Rightarrow> swipe_direction \<Rightarrow> duration" where
  "swipe_duration config dir =
     (case config_duration config dir of Some d \<Rightarrow> d | None \<Rightarrow> from_millis DURATION_MS)"

definition swipe_trigger ::
  "swipe_env \<Rightarrow> swipe_direction \<Rightarrow> swipe_config \<Rightarrow> event_ctx \<Rightarrow> swipe_detect \<Rightarrow> event_ctx \<times> swipe_detect" where
  "swipe_trigger U dir config ctx s =
     (let d = swipe_duration config dir in
      (request_paint (request_anim_frame ctx),
       s\<lparr>locked := Some dir, final_animation := Some (animation_new 0 PROGRESS_MAX d (sw_now U))\<rparr>))"

definition detect_reset :: "swipe_detect \<Rightarrow> swipe_detect" where
  "detect_reset s = s\<lparr>sd_origin := None, locked := None, final_animation := None, moved := 0\<rparr>"

text \<open>The three touches of a gesture while no closing animation runs.\<close>

definition lock_direction :: "swipe_env \<Rightarrow> swipe_config \<Rightarrow> offset \<Rightarrow> swipe_detect \<Rightarrow> swipe_direction option" where
  "lock_direction U config ofs s =
     List.find (\<lambda>dir. config_progress config dir ofs MIN_LOCK > 0 \<and> is_lockable U s dir) swipe_directions"

definition on_touch_move ::
  "swipe_env \<Rightarrow> swipe_config \<Rightarrow> offset \<Rightarrow> swipe_detect \<Rightarrow> swipe_detect_msg option \<times> swipe_detect" where
  "on_touch_move U config ofs s =
     (let (res, s) = (case locked s of
          Some dir \<Rightarrow>
            (let p = progress_f32 U (config_progress config dir ofs MIN_LOCK) in
             (Some (DetectMove dir p), s\<lparr>moved := p\<rparr>))
        | None \<Rightarrow> (case lock_direction U config ofs s of
            Some dir \<Rightarrow> (Some (DetectStart dir), s\<lparr>locked := Some dir\<rparr>)
          | None \<Rightarrow> (None, s))) in
      (if sw_animation_disabled U then None else res, s))"

definition on_touch_end ::
  "swipe_env \<Rightarrow> swipe_config \<Rightarrow> offset \<Rightarrow> event_ctx \<Rightarrow> swipe_detect \<Rightarrow>
     swipe_detect_msg option \<times> event_ctx \<times> swipe_detect" where
  "on_touch_end U config ofs ctx s =
     (let s = s\<lparr>sd_origin := None\<rparr> in
      case locked s of
        None \<Rightarrow> (None, ctx, s)
      | Some dir \<Rightarrow>
          (let final_value = (if config_progress config dir ofs MIN_TRIGGER > 0 then PROGRESS_MAX else 0);
               ctx = request_paint (request_anim_frame ctx) in
           if \<not> sw_animation_disabled U then
             (let d = swipe_duration config dir;
                  d = rest_of_duration U d (moved s) final_value in
              (None, ctx, s\<lparr>final_animation :=
                 Some (animation_new (sint (moved s)) final_value (from_millis d) (sw_now U))\<rparr>))
           else
             (Some (DetectTrigger dir), ctx, s\<lparr>final_animation := None, moved := 0, locked := None\<rparr>)))"

definition detect_event ::
  "swipe_env \<Rightarrow> swipe_config \<Rightarrow> event_ctx \<Rightarrow> event \<Rightarrow> swipe_detect \<Rightarrow>
     swipe_detect_msg option \<times> event_ctx \<times> swipe_detect" where
  "detect_event U config ctx e s = (case (e, sd_origin s) of
      (Touch (TouchStart pos), _) \<Rightarrow>
        (if final_animation s = None then (None, ctx, s\<lparr>sd_origin := Some pos\<rparr>)
         else eval_anim_frame U ctx s)
    | (Touch (TouchMove pos), Some origin) \<Rightarrow>
        (if final_animation s = None then
           (let (res, s) = on_touch_move U config (point_sub pos origin) s in (res, ctx, s))
         else eval_anim_frame U ctx s)
    | (Touch (TouchEnd pos), Some origin) \<Rightarrow>
        (if final_animation s = None then on_touch_end U config (point_sub pos origin) ctx s
         else eval_anim_frame U ctx s)
    | (Timer t, _) \<Rightarrow> (if t = ANIM_FRAME_TIMER then eval_anim_frame U ctx s else (None, ctx, s))
    | _ \<Rightarrow> (None, ctx, s))"

subsection \<open>Gestures\<close>

text \<open>
  The distance in pixels from one point to another in a direction.  On a screen, where coordinates
  are not negative, no difference of coordinates wraps.
\<close>

definition distance_in :: "swipe_direction \<Rightarrow> point \<Rightarrow> point \<Rightarrow> int" where
  "distance_in d p q = (case d of
      SwipeUp \<Rightarrow> pt_y p - pt_y q | SwipeDown \<Rightarrow> pt_y q - pt_y p
    | SwipeLeft \<Rightarrow> pt_x p - pt_x q | SwipeRight \<Rightarrow> pt_x q - pt_x p)"

definition on_screen :: "point \<Rightarrow> bool" where
  "on_screen p \<longleftrightarrow> 0 \<le> pt_x p \<and> pt_x p \<le> 32767 \<and> 0 \<le> pt_y p \<and> pt_y p \<le> 32767"

lemma saturating_sub_pos:
  assumes "- 32767 \<le> x" "x \<le> 32767"
  shows "0 < u16_saturating_sub (of_int (i16_abs x)) t \<longleftrightarrow> uint t < \<bar>x\<bar>"
proof -
  have a: "i16_abs x = \<bar>x\<bar>"
    using assms by (simp add: i16_abs_def i16_id)
  have u: "uint (of_int \<bar>x\<bar> :: u16) = \<bar>x\<bar>"
    using assms by (simp add: uint_word_of_int)
  have "(\<bar>x\<bar> - uint t) mod 65536 = \<bar>x\<bar> - uint t" if "uint t \<le> \<bar>x\<bar>"
    using that assms uint_nonnegative [of t] by (intro mod_pos_pos_trivial) linarith+
  then show ?thesis
    by (auto simp: u16_saturating_sub_def a word_le_def word_less_def uint_word_ariths u simp del: of_int_abs)
qed

lemma point_sub_on_screen:
  "on_screen p \<Longrightarrow> on_screen q \<Longrightarrow> point_sub q p = \<lparr>off_x = pt_x q - pt_x p, off_y = pt_y q - pt_y p\<rparr>"
  by (simp add: point_sub_def offset_new_def on_screen_def i16_id)

lemma config_progress_pos:
  assumes "on_screen p" "on_screen q"
  shows "0 < config_progress c d (point_sub q p) t \<longleftrightarrow> is_allowed c d \<and> uint t < distance_in d p q"
proof -
  have r: "- 32767 \<le> pt_x q - pt_x p" "pt_x q - pt_x p \<le> 32767" "- 32767 \<le> pt_y q - pt_y p" "pt_y q - pt_y p \<le> 32767"
    using assms by (auto simp: on_screen_def)
  have n: "0 < k" if "uint t < k" for k
    using that uint_nonnegative [of t] by linarith
  show ?thesis
    by (cases d)
      (auto simp: config_progress_def point_sub_on_screen assms correct_movement_def distance_in_def offset_abs_def
        offset_new_def saturating_sub_pos r dest: n)
qed

text \<open>The direction a first movement locks: the first one that is allowed, far enough, and has room.\<close>

definition lockable_from :: "swipe_env \<Rightarrow> point \<Rightarrow> swipe_direction \<Rightarrow> bool" where
  "lockable_from U p d \<longleftrightarrow> is_lockable U (detect_new\<lparr>sd_origin := Some p\<rparr>) d"

lemma lock_direction_iff:
  assumes "on_screen p" "on_screen q" "sd_origin s = Some p"
  shows "lock_direction U c (point_sub q p) s =
    List.find (\<lambda>d. is_allowed c d \<and> 12 < distance_in d p q \<and> lockable_from U p d) swipe_directions"
  using assms
  by (simp add: lock_direction_def config_progress_pos MIN_LOCK_def lockable_from_def is_lockable_def detect_new_def)

fun detect_run :: "swipe_config \<Rightarrow> (swipe_env \<times> event) list \<Rightarrow> event_ctx \<Rightarrow> swipe_detect \<Rightarrow>
    swipe_detect_msg option list \<times> event_ctx \<times> swipe_detect" where
  "detect_run c [] ctx s = ([], ctx, s)"
| "detect_run c ((U, e) # es) ctx s =
     (let (m, ctx, s) = detect_event U c ctx e s; (ms, ctx, s) = detect_run c es ctx s in (m # ms, ctx, s))"

text \<open>The detector while a finger that locked a direction is moving.\<close>

definition locked_at :: "point \<Rightarrow> swipe_direction \<Rightarrow> swipe_detect \<Rightarrow> bool" where
  "locked_at p d s \<longleftrightarrow> sd_origin s = Some p \<and> locked s = Some d \<and> final_animation s = None"

lemma detect_run_moves:
  assumes "locked_at p d s" "\<not> sw_animation_disabled U"
  shows "\<exists>s'. detect_run c (map (\<lambda>q. (U, Touch (TouchMove q))) qs) ctx s =
     (map (\<lambda>q. Some (DetectMove d (progress_f32 U (config_progress c d (point_sub q p) MIN_LOCK)))) qs, ctx, s') \<and>
     locked_at p d s' \<and>
     moved s' = (if qs = [] then moved s else progress_f32 U (config_progress c d (point_sub (last qs) p) MIN_LOCK))"
  using assms
proof (induction qs arbitrary: s)
  case (Cons q qs)
  let ?m = "progress_f32 U (config_progress c d (point_sub q p) MIN_LOCK)"
  have l: "locked_at p d (s\<lparr>moved := ?m\<rparr>)"
    using Cons.prems by (simp add: locked_at_def)
  have e: "detect_event U c ctx (Touch (TouchMove q)) s = (Some (DetectMove d ?m), ctx, s\<lparr>moved := ?m\<rparr>)"
    using Cons.prems by (simp add: detect_event_def locked_at_def on_touch_move_def Let_def)
  from Cons.IH [OF l Cons.prems(2)] show ?case
    by (auto simp: e split: if_splits)
qed simp

lemma detect_run_append:
  "detect_run c (xs @ ys) ctx s =
     (let (ms, ctx, s) = detect_run c xs ctx s; (ms', ctx, s) = detect_run c ys ctx s in (ms @ ms', ctx, s))"
  by (induction c xs ctx s rule: detect_run.induct) (auto simp: Let_def split: prod.splits)


text \<open>An environment in which a closing animation takes the whole configured duration.\<close>

definition example_swipe :: "u32 \<Rightarrow> swipe_env" where
  "example_swipe t = \<lparr>sw_now = Instant t, sw_screen = offset_new 240 240, sw_animation_disabled = False,
     ratio_reached = (\<lambda>x. 24 \<le> x), progress_f32 = (\<lambda>v. v), lerp_i16 = (\<lambda>a b e d. b),
     rest_of_duration = (\<lambda>d m v. to_millis d)\<rparr>"

definition example_config :: swipe_config where
  "example_config = config_with_swipe SwipeLeft settings_default (config_with_swipe SwipeUp settings_default config_new)"


end
