(* ===== verification/Flow.thy ===== *)
theory Flow
  imports Swipe
begin

section \<open>Flows of screens\<close>

text \<open>
  \<^verbatim>\<open>core/embed/rust/src/ui/flow\<close>: the decisions of a flow (\<open>base.rs\<close>), the store of its screens
  (\<open>store.rs\<close>), the engine \<open>SwipeFlow\<close> that turns touches and messages of the current screen into
  transitions between screens (\<open>swipe.rs\<close>), and \<open>SwipePage\<close> (\<open>page.rs\<close>).  The wrappers of a screen are
  here too: \<open>MsgMap\<close>, \<open>PageMap\<close> (\<open>component/map.rs\<close>), \<open>OneButtonRequest\<close> and \<open>Timeout\<close>.

  A store is the list of its elements; what the engine calls on an element is a record of functions,
  so that elements of different kinds are the constructors of one type.  The trait \<open>FlowState\<close> is the
  record \<open>flow_logic\<close>.
\<close>

subsection \<open>Decisions\<close>

datatype flow_msg = FConfirmed | FCancelled | FInfo | FChoice nat

datatype 'q decision = DNothing | DGoto 'q swipe_direction | DReturn flow_msg

definition or_else :: "'q decision \<Rightarrow> (unit \<Rightarrow> 'q decision) \<Rightarrow> 'q decision" where
  "or_else d func = (case d of DNothing \<Rightarrow> func () | _ \<Rightarrow> d)"

record 'q flow_logic =
  q_index :: "'q \<Rightarrow> nat"
  handle_swipe :: "'q \<Rightarrow> swipe_direction \<Rightarrow> 'q decision"
  handle_event :: "'q \<Rightarrow> flow_msg \<Rightarrow> 'q decision"

subsection \<open>The store\<close>

record 'c element_ops =
  el_event :: "('c, flow_msg) handler"
  el_swipe_config :: "'c \<Rightarrow> swipe_config"
  el_page_count :: "'c \<Rightarrow> nat"

fun store_event ::
  "'c element_ops \<Rightarrow> nat \<Rightarrow> event_ctx \<Rightarrow> event \<Rightarrow> 'c list \<Rightarrow> (flow_msg option \<times> event_ctx \<times> 'c list, 'e) result" where
  "store_event Op i ctx e [] = Inl Panic"
| "store_event Op i ctx e (c # cs) =
     (if i = 0 then let (m, ctx, c) = el_event Op ctx e c in Inr (m, ctx, c # cs)
      else rbind (store_event Op (i - 1) ctx e cs) (\<lambda>(m, ctx, cs). Inr (m, ctx, c # cs)))"

fun store_swipe_config :: "'c element_ops \<Rightarrow> nat \<Rightarrow> 'c list \<Rightarrow> swipe_config" where
  "store_swipe_config Op i [] = config_new"
| "store_swipe_config Op i (c # cs) = (if i = 0 then el_swipe_config Op c else store_swipe_config Op (i - 1) cs)"

fun store_page_count :: "'c element_ops \<Rightarrow> nat \<Rightarrow> 'c list \<Rightarrow> (nat, 'e) result" where
  "store_page_count Op i [] = Inl Panic"
| "store_page_count Op i (c # cs) = (if i = 0 then Inr (el_page_count Op c) else store_page_count Op (i - 1) cs)"

subsection \<open>The engine\<close>

record ('q, 'c) swipe_flow =
  fl_state :: 'q
  fl_store :: "'c list"
  fl_swipe :: swipe_detect
  allow_swipe :: bool
  internal_state :: u16
  internal_pages :: u16
  decision_override :: "'q decision option"

definition flow_new :: "'q \<Rightarrow> 'c list \<Rightarrow> ('q, 'c) swipe_flow" where
  "flow_new init store =
     \<lparr>fl_state = init, fl_store = store, fl_swipe = detect_new, allow_swipe = True, internal_state = 0,
      internal_pages = 1, decision_override = None\<rparr>"

definition flow_goto ::
  "'q flow_logic \<Rightarrow> 'c element_ops \<Rightarrow> event_ctx \<Rightarrow> swipe_direction \<Rightarrow> 'q \<Rightarrow> ('q, 'c) swipe_flow \<Rightarrow>
     (event_ctx \<times> ('q, 'c) swipe_flow, 'e) result" where
  "flow_goto L Op ctx direction q f =
     (let f = f\<lparr>fl_state := q, fl_swipe := detect_new, allow_swipe := True\<rparr> in
      rbind (store_event Op (q_index L q) ctx (Attach (AttachSwipe direction)) (fl_store f)) (\<lambda>(_, ctx, store).
      rbind (store_page_count Op (q_index L q) store) (\<lambda>n.
      let pages = of_nat n in
      Inr (request_paint ctx,
        f\<lparr>fl_store := store, internal_pages := pages,
          internal_state := (case direction of
              SwipeUp \<Rightarrow> 0
            | SwipeDown \<Rightarrow> u16_saturating_sub pages 1
            | _ \<Rightarrow> internal_state f)\<rparr>))))"

text \<open>The swipes the engine adds for a screen with several pages.\<close>

definition paging_config :: "u16 \<Rightarrow> u16 \<Rightarrow> swipe_config \<Rightarrow> swipe_config" where
  "paging_config current pages config =
     (let config = (if vertical_pages config \<and> current > 0
                    then config_with_swipe SwipeDown settings_default config else config);
          config = (if horizontal_pages config \<and> current > 0
                    then config_with_swipe SwipeRight settings_default config else config);
          config = (if vertical_pages config \<and> current < pages - 1
                    then config_with_swipe SwipeUp settings_default config else config) in
      (if horizontal_pages config \<and> current < pages - 1
       then config_with_swipe SwipeLeft settings_default config else config))"

text \<open>The turning of a page inside the current screen: the new page, if the swipe turns one.\<close>

definition turn_page :: "bool \<Rightarrow> swipe_direction \<Rightarrow> swipe_direction \<Rightarrow> swipe_direction \<Rightarrow> u16 \<Rightarrow> u16 \<Rightarrow> u16 option" where
  "turn_page has_pages forward backward dir pages current =
     (if has_pages then
        (if dir = forward \<and> current < pages - 1 then Some (current + 1)
         else if dir = backward \<and> current > 0 then Some (current - 1)
         else None)
      else None)"

definition turn_pages :: "swipe_config \<Rightarrow> swipe_direction \<Rightarrow> u16 \<Rightarrow> u16 \<Rightarrow> u16 \<times> bool" where
  "turn_pages config dir pages current =
     (if pages > 0 then
        (let (current, attach) =
               (case turn_page (horizontal_pages config) SwipeLeft SwipeRight dir pages current of
                  Some n \<Rightarrow> (n, True) | None \<Rightarrow> (current, False)) in
         (case turn_page (vertical_pages config) SwipeUp SwipeDown dir pages current of
            Some n \<Rightarrow> (n, True) | None \<Rightarrow> (current, attach)))
      else (current, False))"

text \<open>The first part of \<open>event\<close>: what the swipe detector makes of the event.\<close>

definition flow_detect ::
  "swipe_env \<Rightarrow> 'q flow_logic \<Rightarrow> 'c element_ops \<Rightarrow> event_ctx \<Rightarrow> event \<Rightarrow> ('q, 'c) swipe_flow \<Rightarrow>
     ('q decision \<times> attach_type \<times> bool \<times> event \<times> event_ctx \<times> ('q, 'c) swipe_flow, 'e) result" where
  "flow_detect U L Op ctx e f =
     (if allow_swipe f then
        (let i = q_index L (fl_state f); config = store_swipe_config Op i (fl_store f) in
         rbind (store_page_count Op i (fl_store f)) (\<lambda>n.
         let f = f\<lparr>internal_pages := of_nat n\<rparr>;
             config = paging_config (internal_state f) (internal_pages f) config;
             (msg, ctx, sw) = detect_event U config ctx e (fl_swipe f);
             f = f\<lparr>fl_swipe := sw\<rparr> in
         (case msg of
            Some (DetectTrigger dir) \<Rightarrow>
              (let (decision, f) = (case decision_override f of
                     Some d \<Rightarrow> (d, f\<lparr>decision_override := None\<rparr>)
                   | None \<Rightarrow> (handle_swipe L (fl_state f) dir, f));
                   (current, attach) = turn_pages config dir (internal_pages f) (internal_state f) in
               Inr (if attach then DNothing else decision, AttachSwipe dir, attach,
                    SwipeEv (SwipeEnd dir), ctx, f\<lparr>internal_state := current\<rparr>))
          | Some (DetectMove dir progress) \<Rightarrow>
              Inr (DNothing, AttachInitial, False, SwipeEv (SwipeMove dir (sint progress)), ctx, f)
          | Some (DetectStart _) \<Rightarrow> Inr (DNothing, AttachInitial, False, Touch TouchAbort, ctx, f)
          | None \<Rightarrow> Inr (DNothing, AttachInitial, False, e, ctx, f))))
      else Inr (DNothing, AttachInitial, False, e, ctx, f))"

text \<open>The second part: the current screen handles the event, unless the swipe has decided already.\<close>

definition apply_swipe_requests :: "event_ctx \<Rightarrow> ('q, 'c) swipe_flow \<Rightarrow> ('q, 'c) swipe_flow" where
  "apply_swipe_requests ctx f =
     (let f = (if swipe_disable_req ctx
               then f\<lparr>fl_swipe := detect_reset (fl_swipe f), allow_swipe := False\<rparr> else f) in
      if swipe_enable_req ctx then f\<lparr>fl_swipe := detect_reset (fl_swipe f), allow_swipe := True\<rparr> else f)"

text \<open>A transition for which the screen has a swipe is animated first, and made when that is over.\<close>

definition animate_goto ::
  "swipe_env \<Rightarrow> swipe_config \<Rightarrow> event_ctx \<Rightarrow> 'q decision \<Rightarrow> ('q, 'c) swipe_flow \<Rightarrow>
     'q decision \<times> event_ctx \<times> ('q, 'c) swipe_flow" where
  "animate_goto U config ctx decision f = (case decision of
      DGoto _ direction \<Rightarrow>
        (if is_allowed config direction then
           (if \<not> sw_animation_disabled U then
              (let (ctx, sw) = swipe_trigger U direction config ctx (fl_swipe f) in
               (DNothing, ctx, f\<lparr>fl_swipe := sw, decision_override := Some decision, allow_swipe := True\<rparr>))
            else (decision, ctx, f\<lparr>allow_swipe := True\<rparr>))
         else (decision, ctx, f))
    | _ \<Rightarrow> (decision, ctx, f))"

definition flow_dispatch ::
  "swipe_env \<Rightarrow> 'q flow_logic \<Rightarrow> 'c element_ops \<Rightarrow> event_ctx \<Rightarrow> event \<Rightarrow> event \<Rightarrow> bool \<Rightarrow> 'q decision \<Rightarrow>
     ('q, 'c) swipe_flow \<Rightarrow> ('q decision \<times> event_ctx \<times> ('q, 'c) swipe_flow, 'e) result" where
  "flow_dispatch U L Op ctx event e attach decision f =
     (let i = q_index L (fl_state f) in
      case decision of
        DNothing \<Rightarrow>
        rbind (store_event Op i ctx e (fl_store f)) (\<lambda>(msg, ctx, store).
        let decision = (case msg of Some m \<Rightarrow> handle_event L (fl_state f) m | None \<Rightarrow> DNothing) in
        rbind (case (attach, e) of
             (True, SwipeEv (SwipeEnd dir)) \<Rightarrow>
               rbind (store_event Op i ctx (Attach (AttachSwipe dir)) store) (\<lambda>(_, ctx, store). Inr (ctx, store))
           | _ \<Rightarrow> Inr (ctx, store)) (\<lambda>(ctx, store).
        let f = apply_swipe_requests ctx (f\<lparr>fl_store := store\<rparr>);
            config = store_swipe_config Op i (fl_store f) in
        Inr (animate_goto U config ctx decision f)))
      | _ \<Rightarrow>
        rbind (store_event Op i ctx event (fl_store f)) (\<lambda>(_, ctx, store).
        Inr (decision, ctx, f\<lparr>fl_store := store\<rparr>)))"

definition flow_finish ::
  "'q flow_logic \<Rightarrow> 'c element_ops \<Rightarrow> attach_type \<Rightarrow> event_ctx \<Rightarrow> 'q decision \<Rightarrow> ('q, 'c) swipe_flow \<Rightarrow>
     (flow_msg option \<times> event_ctx \<times> ('q, 'c) swipe_flow, 'e) result" where
  "flow_finish L Op return_transition ctx decision f = (case decision of
      DGoto next_state direction \<Rightarrow>
        rbind (flow_goto L Op ctx direction next_state f) (\<lambda>(ctx, f). Inr (None, ctx, f))
    | DReturn msg \<Rightarrow>
        Inr (Some msg, set_transition_out return_transition ctx,
             f\<lparr>fl_swipe := detect_reset (fl_swipe f), allow_swipe := True\<rparr>)
    | DNothing \<Rightarrow> Inr (None, ctx, f))"

definition flow_event ::
  "swipe_env \<Rightarrow> 'q flow_logic \<Rightarrow> 'c element_ops \<Rightarrow> event_ctx \<Rightarrow> event \<Rightarrow> ('q, 'c) swipe_flow \<Rightarrow>
     (flow_msg option \<times> event_ctx \<times> ('q, 'c) swipe_flow, 'e) result" where
  "flow_event U L Op ctx event f =
     rbind (flow_detect U L Op ctx event f) (\<lambda>(decision, transition, attach, e, ctx, f).
     rbind (flow_dispatch U L Op ctx event e attach decision f) (\<lambda>(decision, ctx, f).
       flow_finish L Op transition ctx decision f))"

subsection \<open>The engine follows the decisions of the flow\<close>

lemma store_event_nth [simp]:
  "i < length cs \<Longrightarrow> store_event Op i ctx e cs =
     (case el_event Op ctx e (cs ! i) of (m, ctx', c) \<Rightarrow> Inr (m, ctx', cs[i := c]))"
  by (induction Op i ctx e cs rule: store_event.induct) (auto split: prod.splits nat.splits)

lemma store_swipe_config_nth [simp]:
  "i < length cs \<Longrightarrow> store_swipe_config Op i cs = el_swipe_config Op (cs ! i)"
  by (induction Op i cs rule: store_swipe_config.induct) auto

lemma store_page_count_nth [simp]:
  "i < length cs \<Longrightarrow> store_page_count Op i cs = Inr (el_page_count Op (cs ! i))"
  by (induction Op i cs rule: store_page_count.induct) auto

text \<open>
  The current screen answers an event with a message.  The engine hands it the event, or what the
  detector made of it.
\<close>

definition current_screen :: "'q flow_logic \<Rightarrow> ('q, 'c) swipe_flow \<Rightarrow> 'c" where
  "current_screen L f = fl_store f ! q_index L (fl_state f)"

definition passed_on :: "event \<Rightarrow> event \<Rightarrow> bool" where
  "passed_on e e' \<longleftrightarrow> e' = e \<or> e' = Touch TouchAbort \<or> (\<exists>s. e' = SwipeEv s)"

definition screen_emits :: "'c element_ops \<Rightarrow> event \<Rightarrow> 'c \<Rightarrow> flow_msg \<Rightarrow> bool" where
  "screen_emits Op e c m \<longleftrightarrow> (\<exists>e' ctx ctx' c'. passed_on e e' \<and> el_event Op ctx e' c = (Some m, ctx', c'))"

text \<open>The event completes a swipe that does not turn a page inside the current screen.\<close>

definition swiped ::
  "swipe_env \<Rightarrow> 'q flow_logic \<Rightarrow> 'c element_ops \<Rightarrow> event_ctx \<Rightarrow> event \<Rightarrow> ('q, 'c) swipe_flow \<Rightarrow> swipe_direction \<Rightarrow> bool" where
  "swiped U L Op ctx e f dir \<longleftrightarrow> allow_swipe f \<and>
     (let pages = of_nat (el_page_count Op (current_screen L f));
          config = paging_config (internal_state f) pages (el_swipe_config Op (current_screen L f)) in
      fst (detect_event U config ctx e (fl_swipe f)) = Some (DetectTrigger dir) \<and>
      \<not> snd (turn_pages config dir pages (internal_state f)))"

text \<open>What a view of the screens sees of them is not changed by their events.\<close>

definition keeps :: "'c element_ops \<Rightarrow> ('c \<Rightarrow> 'v) \<Rightarrow> bool" where
  "keeps Op g \<longleftrightarrow> (\<forall>ctx e c m ctx' c'. el_event Op ctx e c = (m, ctx', c') \<longrightarrow> g c' = g c)"

lemma keepsD: "keeps Op g \<Longrightarrow> el_event Op ctx e c = (m, ctx', c') \<Longrightarrow> g c' = g c"
  by (simp add: keeps_def)

lemma keeps_update:
  "keeps Op g \<Longrightarrow> el_event Op ctx e (cs ! i) = (m, ctx', c) \<Longrightarrow> i < length cs \<Longrightarrow> map g (cs[i := c]) = map g cs"
  by (simp add: keeps_def map_update list_update_same_conv)

text \<open>
  The invariant of the engine: every state has its screen, and a decision that waits for its animation
  is a transition.
\<close>

fun is_goto :: "'q decision \<Rightarrow> bool" where
  "is_goto (DGoto q d) = True"
| "is_goto _ = False"

definition flow_inv :: "'q flow_logic \<Rightarrow> ('q, 'c) swipe_flow \<Rightarrow> bool" where
  "flow_inv L f \<longleftrightarrow> (\<forall>q. q_index L q < length (fl_store f)) \<and> (\<forall>d. decision_override f = Some d \<longrightarrow> is_goto d)"

lemma flow_inv_cong:
  assumes "flow_inv L f" "map g (fl_store f') = map g (fl_store f)" "decision_override f' = decision_override f"
  shows "flow_inv L f'"
proof -
  have "length (fl_store f') = length (fl_store f)"
    using assms(2) by (rule map_eq_imp_length_eq)
  with assms show ?thesis
    by (simp add: flow_inv_def)
qed

lemma flow_detect_returns:
  assumes "flow_inv L f"
  shows "returns (flow_detect U L Op ctx e f) (\<lambda>(d, t, a, e', ctx', f').
    fl_state f' = fl_state f \<and> fl_store f' = fl_store f \<and> passed_on e e' \<and>
    (d = DNothing \<and> decision_override f' \<in> {None, decision_override f} \<or>
     (\<exists>dir. swiped U L Op ctx e f dir \<and> d = handle_swipe L (fl_state f) dir) \<and> decision_override f' = None \<or>
     decision_override f = Some d \<and> decision_override f' = None))"
proof (cases "allow_swipe f")
  case True
  have i: "q_index L (fl_state f) < length (fl_store f)"
    using assms by (simp add: flow_inv_def)
  let ?p = "of_nat (el_page_count Op (current_screen L f)) :: u16"
  obtain m ctx1 sw where d: "detect_event U (paging_config (internal_state f) ?p (el_swipe_config Op (current_screen L f)))
      ctx e (fl_swipe f) = (m, ctx1, sw)"
    by (metis prod_cases3)
  show ?thesis
    using True d i
    by (auto simp: flow_detect_def current_screen_def [symmetric] Let_def passed_on_def swiped_def
        split: option.splits swipe_detect_msg.splits prod.splits)
qed (simp add: flow_detect_def passed_on_def)

lemma animate_goto_outcome:
  assumes "animate_goto U config ctx d f = (d', ctx', f')"
  shows "fl_state f' = fl_state f \<and> fl_store f' = fl_store f \<and>
    (d' = d \<and> decision_override f' = decision_override f \<or>
     d' = DNothing \<and> is_goto d \<and> decision_override f' = Some d)"
  using assms
  by (auto simp: animate_goto_def Let_def split: decision.splits if_splits prod.splits)

lemma apply_swipe_requests_frame [simp]:
  "fl_state (apply_swipe_requests ctx f) = fl_state f"
  "fl_store (apply_swipe_requests ctx f) = fl_store f"
  "decision_override (apply_swipe_requests ctx f) = decision_override f"
  by (simp_all add: apply_swipe_requests_def Let_def)

text \<open>What the second part of the engine makes of a decision \<open>d\<close>: the decision \<open>d'\<close> and the flow \<open>f'\<close>.\<close>

definition dispatched ::
  "('c \<Rightarrow> 'v) \<Rightarrow> 'q flow_logic \<Rightarrow> 'c element_ops \<Rightarrow> event \<Rightarrow> 'q decision \<Rightarrow> ('q, 'c) swipe_flow \<Rightarrow> 'q decision \<Rightarrow>
     ('q, 'c) swipe_flow \<Rightarrow> bool" where
  "dispatched g L Op e d f d' f' \<longleftrightarrow>
    fl_state f' = fl_state f \<and> map g (fl_store f') = map g (fl_store f) \<and>
    (if d = DNothing then
       d' = DNothing \<and> decision_override f' = decision_override f \<or>
       (\<exists>m. screen_emits Op e (current_screen L f) m \<and>
         (d' = handle_event L (fl_state f) m \<and> decision_override f' = decision_override f \<or>
          d' = DNothing \<and> is_goto (handle_event L (fl_state f) m) \<and>
            decision_override f' = Some (handle_event L (fl_state f) m)))
     else d' = d \<and> decision_override f' = decision_override f)"

lemma flow_dispatch_returns:
  assumes "flow_inv L f" "passed_on event e" "keeps Op g"
  shows "returns (flow_dispatch U L Op ctx event e attach d f) (\<lambda>(d', ctx', f').
    dispatched g L Op event d f d' f')"
proof -
  let ?i = "q_index L (fl_state f)"
  have i: "?i < length (fl_store f)"
    using assms(1) by (simp add: flow_inv_def)
  show ?thesis
  proof (cases "d = DNothing")
    case True
    obtain m ctx1 c1 where e1: "el_event Op ctx e (current_screen L f) = (m, ctx1, c1)"
      by (metis prod_cases3)
    then have em: "m = Some x \<Longrightarrow> screen_emits Op event (current_screen L f) x" for x
      using assms(2) by (auto simp: screen_emits_def)
    let ?d = "case m of Some m \<Rightarrow> handle_event L (fl_state f) m | None \<Rightarrow> DNothing"
    let ?at = "case (attach, e) of
             (True, SwipeEv (SwipeEnd dir)) \<Rightarrow>
               rbind (store_event Op ?i ctx1 (Attach (AttachSwipe dir)) ((fl_store f)[?i := c1])) (\<lambda>(_, ctx, store). Inr (ctx, store))
           | _ \<Rightarrow> Inr (ctx1, (fl_store f)[?i := c1])"
    have at: "returns ?at (\<lambda>(_, st). map g st = map g (fl_store f))"
      using i keepsD [OF assms(3) e1]
      by (auto simp: current_screen_def map_update list_update_same_conv dest!: keepsD [OF assms(3)]
          split: prod.splits bool.splits event.splits swipe_event.splits)
    have fd: "flow_dispatch U L Op ctx event e attach d f = rbind ?at (\<lambda>(ctx, store).
        Inr (animate_goto U (store_swipe_config Op ?i store) ctx ?d (apply_swipe_requests ctx (f\<lparr>fl_store := store\<rparr>))))"
      using True e1 i by (simp add: flow_dispatch_def current_screen_def Let_def)
    show ?thesis
      unfolding fd
    proof (rule returns_rbind [OF at])
      fix x :: "event_ctx \<times> 'b list" assume x: "case x of (_, st) \<Rightarrow> map g st = map g (fl_store f)"
      obtain d' ctx' f' where a: "animate_goto U (store_swipe_config Op ?i (snd x)) (fst x) ?d
          (apply_swipe_requests (fst x) (f\<lparr>fl_store := snd x\<rparr>)) = (d', ctx', f')"
        by (metis prod_cases3)
      show "returns (case x of (ctx, store) \<Rightarrow>
          Inr (animate_goto U (store_swipe_config Op ?i store) ctx ?d (apply_swipe_requests ctx (f\<lparr>fl_store := store\<rparr>))))
        (\<lambda>(d', ctx', f').
    dispatched g L Op event d f d' f')"
        using True animate_goto_outcome [OF a] x em a by (cases x; cases m) (auto simp: dispatched_def)
    qed
  next
    case False
    then show ?thesis
      using i assms(3) by (cases d) (auto simp: flow_dispatch_def dispatched_def keeps_update split: prod.splits)
  qed
qed

text \<open>A transition moves to the state it names and keeps the waiting decision.\<close>

lemma flow_goto_returns:
  assumes "flow_inv L f" "keeps Op g"
  shows "returns (flow_goto L Op ctx dir q f) (\<lambda>(ctx', f').
    fl_state f' = q \<and> map g (fl_store f') = map g (fl_store f) \<and> decision_override f' = decision_override f)"
  using assms by (auto simp: flow_goto_def flow_inv_def Let_def keeps_update split: prod.splits)

text \<open>What one event does to a flow.\<close>

definition followed ::
  "swipe_env \<Rightarrow> 'q flow_logic \<Rightarrow> 'c element_ops \<Rightarrow> event_ctx \<Rightarrow> event \<Rightarrow> ('q, 'c) swipe_flow \<Rightarrow> flow_msg option \<Rightarrow>
     ('q, 'c) swipe_flow \<Rightarrow> bool" where
  "followed U L Op ctx e f r f' \<longleftrightarrow>
    (\<forall>m. r = Some m \<longrightarrow> fl_state f' = fl_state f \<and>
       ((\<exists>dir. swiped U L Op ctx e f dir \<and> handle_swipe L (fl_state f) dir = DReturn m) \<or>
        (\<exists>m'. screen_emits Op e (current_screen L f) m' \<and> handle_event L (fl_state f) m' = DReturn m))) \<and>
    (r = None \<longrightarrow> fl_state f' = fl_state f \<or>
       (\<exists>dir. (\<exists>d. swiped U L Op ctx e f d \<and> handle_swipe L (fl_state f) d = DGoto (fl_state f') dir) \<or>
          (\<exists>m. screen_emits Op e (current_screen L f) m \<and> handle_event L (fl_state f) m = DGoto (fl_state f') dir) \<or>
          decision_override f = Some (DGoto (fl_state f') dir))) \<and>
    (decision_override f' \<in> {None, decision_override f} \<or>
       (\<exists>m. screen_emits Op e (current_screen L f) m \<and> decision_override f' = Some (handle_event L (fl_state f) m)))"

lemma flow_event_returns:
  assumes "flow_inv L f" "keeps Op g"
  shows "returns (flow_event U L Op ctx e f) (\<lambda>(r, ctx', f'). flow_inv L f' \<and> followed U L Op ctx e f r f' \<and>
    map g (fl_store f') = map g (fl_store f))"
  unfolding flow_event_def
proof (rule returns_rbind [OF flow_detect_returns [OF assms(1)]], clarify)
  fix d t a e1 ctx1 and f1 :: "('a, 'b) swipe_flow"
  assume 1: "fl_state f1 = fl_state f" "fl_store f1 = fl_store f" and pe: "passed_on e e1"
    and o: "d = DNothing \<and> decision_override f1 \<in> {None, decision_override f} \<or>
     (\<exists>dir. swiped U L Op ctx e f dir \<and> d = handle_swipe L (fl_state f) dir) \<and> decision_override f1 = None \<or>
     decision_override f = Some d \<and> decision_override f1 = None"
  from 1 o assms(1) have inv1: "flow_inv L f1"
    by (auto simp: flow_inv_def)
  have c1: "current_screen L f1 = current_screen L f"
    using 1 by (simp add: current_screen_def)
  show "returns (rbind (flow_dispatch U L Op ctx1 e e1 a d f1) (\<lambda>(d, ctx, f). flow_finish L Op t ctx d f))
     (\<lambda>(r, ctx', f'). flow_inv L f' \<and> followed U L Op ctx e f r f' \<and> map g (fl_store f') = map g (fl_store f))"
  proof (rule returns_rbind [OF flow_dispatch_returns [OF inv1 pe assms(2)]], clarify)
    fix d2 ctx2 and f2 :: "('a, 'b) swipe_flow"
    assume d2: "dispatched g L Op e d f1 d2 f2"
    then have "length (fl_store f2) = length (fl_store f1)"
      by (metis dispatched_def length_map)
    with d2 have inv2: "flow_inv L f2"
      using inv1 by (auto simp: flow_inv_def dispatched_def split: if_splits)
    note facts = 1 o c1 d2 [unfolded dispatched_def] assms(1) inv2
    show "returns (flow_finish L Op t ctx2 d2 f2)
       (\<lambda>(r, ctx', f'). flow_inv L f' \<and> followed U L Op ctx e f r f' \<and> map g (fl_store f') = map g (fl_store f))"
    proof (cases d2)
      case DNothing
      then show ?thesis
        using facts by (auto simp: flow_finish_def followed_def split: if_splits)
    next
      case (DReturn m)
      then show ?thesis
        using facts by (auto simp: flow_finish_def followed_def flow_inv_def split: if_splits)
    next
      case (DGoto q dir)
      have src: "(\<exists>d. swiped U L Op ctx e f d \<and> handle_swipe L (fl_state f) d = DGoto q dir) \<or>
          (\<exists>m. screen_emits Op e (current_screen L f) m \<and> handle_event L (fl_state f) m = DGoto q dir) \<or>
          decision_override f = Some (DGoto q dir)"
        using facts DGoto by (cases "d = DNothing"; simp; metis)
      have ov: "decision_override f2 \<in> {None, decision_override f}"
        using facts DGoto by (cases "d = DNothing"; simp; metis)
      show ?thesis
        unfolding flow_finish_def DGoto decision.case
        by (rule returns_rbind [OF flow_goto_returns [OF inv2 assms(2)]])
          (use src ov 1 d2 in \<open>auto simp: followed_def dispatched_def intro: flow_inv_cong [OF inv2, of g]\<close>)
    qed
  qed
qed

end
