(* ===== verification/Screens.thy ===== *)
theory Screens
  imports Flow
begin

section \<open>Screens and their wrappers\<close>

text \<open>
  What the screens of a flow are made of: \<open>MsgMap\<close> and \<open>PageMap\<close> (\<^verbatim>\<open>ui/component/map.rs\<close>),
  \<open>OneButtonRequest\<close> (\<^verbatim>\<open>ui/component/button_request.rs\<close>), \<open>Timeout\<close> (\<^verbatim>\<open>ui/component/timeout.rs\<close>),
  \<open>SwipePage\<close> (\<^verbatim>\<open>ui/flow/page.rs\<close>), and of model mercury \<open>Frame\<close>, \<open>SwipeContent\<close> and \<open>ShareWords\<close>.

  The title, the subtitle and the footer of a frame neither send messages nor use the event context, so
  they are left out, as is everything that is only drawn.  The content of a frame, its button and the
  animation of \<open>SwipeContent\<close> are arguments.
\<close>

subsection \<open>Wrappers\<close>

definition msg_map_event :: "('m \<Rightarrow> 'u option) \<Rightarrow> ('c, 'm) handler \<Rightarrow> ('c, 'u) handler" where
  "msg_map_event func ev ctx e c =
     (let (m, ctx, c) = ev ctx e c in (Option.bind m func, ctx, c))"

definition page_map_event :: "(nat \<Rightarrow> nat) \<Rightarrow> ('c, 'm) handler \<Rightarrow> ('c, 'm) handler" where
  "page_map_event func ev ctx e c =
     (let (res, ctx, c) = ev ctx e c in (res, map_page_count func ctx, c))"

definition one_button_request_event ::
  "('c, 'm) handler \<Rightarrow> ((u32 \<times> bytes) option \<times> 'c, 'm) handler" where
  "one_button_request_event ev ctx e rc =
     (let (request, c) = rc;
          (request, ctx) = (case (e, request) of
              (Attach _, Some (code, br_type)) \<Rightarrow> (None, send_button_request code br_type ctx)
            | _ \<Rightarrow> (request, ctx));
          (m, ctx, c) = ev ctx e c in
      (m, ctx, (request, c)))"

record timeout =
  time_ms :: u32
  to_timer :: "timer_token option"

definition timeout_new :: "u32 \<Rightarrow> timeout" where
  "timeout_new ms = \<lparr>time_ms = ms, to_timer = None\<rparr>"

definition timeout_event :: "(timeout, unit) handler" where
  "timeout_event ctx e t = (case e of
      Attach _ \<Rightarrow> (let (token, ctx) = request_timer (from_millis (time_ms t)) ctx in (None, ctx, t\<lparr>to_timer := Some token\<rparr>))
    | Timer token \<Rightarrow> (if Some token = to_timer t then (Some (), ctx, t\<lparr>to_timer := None\<rparr>) else (None, ctx, t))
    | _ \<Rightarrow> (None, ctx, t))"

text \<open>\<open>SwipePage\<close> over a component with pages; \<open>change_page\<close> is the operation of that component.\<close>

record 'c swipe_page =
  sp_inner :: 'c
  sp_axis :: axis
  sp_pages :: nat
  sp_current :: nat

definition swipe_page_new :: "axis \<Rightarrow> 'c \<Rightarrow> 'c swipe_page" where
  "swipe_page_new a c = \<lparr>sp_inner = c, sp_axis = a, sp_pages = 1, sp_current = 0\<rparr>"

definition swipe_page_place :: "('c \<Rightarrow> 'c) \<Rightarrow> ('c \<Rightarrow> nat) \<Rightarrow> 'c swipe_page \<Rightarrow> 'c swipe_page" where
  "swipe_page_place place count p =
     (let c = place (sp_inner p) in p\<lparr>sp_inner := c, sp_pages := count c\<rparr>)"

definition page_step :: "axis \<Rightarrow> swipe_direction \<Rightarrow> nat \<Rightarrow> nat \<Rightarrow> nat option" where
  "page_step a d pages current = (case (a, d) of
      (Vertical, SwipeUp) \<Rightarrow> Some (min (usize_add current 1) (usize_sub pages 1))
    | (Vertical, SwipeDown) \<Rightarrow> Some (current - 1)
    | (Horizontal, SwipeLeft) \<Rightarrow> Some (min (usize_add current 1) (usize_sub pages 1))
    | (Horizontal, SwipeRight) \<Rightarrow> Some (current - 1)
    | _ \<Rightarrow> None)"

definition swipe_page_event ::
  "(nat \<Rightarrow> 'c \<Rightarrow> 'c) \<Rightarrow> ('c, 'm) handler \<Rightarrow> ('c swipe_page, 'm) handler" where
  "swipe_page_event change_page ev ctx e p =
     (let ctx = set_page_count (sp_pages p) ctx;
          (ctx, p) = (case e of
              SwipeEv (SwipeEnd d) \<Rightarrow>
                (case page_step (sp_axis p) d (sp_pages p) (sp_current p) of
                   Some n \<Rightarrow> (request_paint ctx, p\<lparr>sp_current := n, sp_inner := change_page n (sp_inner p)\<rparr>)
                 | None \<Rightarrow> (ctx, p))
            | _ \<Rightarrow> (ctx, p));
          (m, ctx, c) = ev ctx e (sp_inner p) in
      (m, ctx, p\<lparr>sp_inner := c\<rparr>))"

subsection \<open>Frames\<close>

datatype cancel_info_confirm_msg = CICancelled | CIInfo | CIConfirmed

datatype 'm frame_msg = FrameContent 'm | FrameButton cancel_info_confirm_msg

record ('c, 'b) frame =
  fr_button :: "'b option"
  button_msg :: cancel_info_confirm_msg
  fr_content :: 'c
  fr_swipe :: swipe_config
  internal_page_cnt :: nat
  fr_progress :: int
  fr_dir :: swipe_direction

definition frame_new :: "'c \<Rightarrow> ('c, 'b) frame" where
  "frame_new c = \<lparr>fr_button = None, button_msg = CICancelled, fr_content = c, fr_swipe = config_new,
     internal_page_cnt = 1, fr_progress = 0, fr_dir = SwipeUp\<rparr>"

definition with_cancel_button :: "'b \<Rightarrow> ('c, 'b) frame \<Rightarrow> ('c, 'b) frame" where
  "with_cancel_button b f = f\<lparr>fr_button := Some b, button_msg := CICancelled\<rparr>"

definition with_menu_button :: "'b \<Rightarrow> ('c, 'b) frame \<Rightarrow> ('c, 'b) frame" where
  "with_menu_button b f = f\<lparr>fr_button := Some b, button_msg := CIInfo\<rparr>"

definition with_swipe :: "swipe_direction \<Rightarrow> swipe_settings \<Rightarrow> ('c, 'b) frame \<Rightarrow> ('c, 'b) frame" where
  "with_swipe d s f = f\<lparr>fr_swipe := config_with_swipe d s (fr_swipe f)\<rparr>"

definition with_horizontal_pages :: "('c, 'b) frame \<Rightarrow> ('c, 'b) frame" where
  "with_horizontal_pages f = f\<lparr>fr_swipe := config_with_horizontal_pages (fr_swipe f)\<rparr>"

definition with_vertical_pages :: "('c, 'b) frame \<Rightarrow> ('c, 'b) frame" where
  "with_vertical_pages f = f\<lparr>fr_swipe := config_with_vertical_pages (fr_swipe f)\<rparr>"

definition frame_progress :: "event \<Rightarrow> ('c, 'b) frame \<Rightarrow> ('c, 'b) frame" where
  "frame_progress e f = (case e of
      Attach _ \<Rightarrow> f\<lparr>fr_progress := 0\<rparr>
    | SwipeEv (SwipeMove d p) \<Rightarrow>
        (if is_allowed (fr_swipe f) d \<and> (d = SwipeLeft \<or> d = SwipeRight)
         then f\<lparr>fr_progress := p, fr_dir := d\<rparr> else f)
    | _ \<Rightarrow> f)"

definition frame_event :: "('c, 'm) handler \<Rightarrow> ('b, unit) handler \<Rightarrow> (('c, 'b) frame, 'm frame_msg) handler" where
  "frame_event cev bev ctx e f =
     (let f = frame_progress e f;
          (m, ctx, c) = cev ctx e (fr_content f);
          f = f\<lparr>fr_content := c\<rparr>;
          f = (case page_count ctx of Some n \<Rightarrow> f\<lparr>internal_page_cnt := n\<rparr> | None \<Rightarrow> f) in
      case m of
        Some x \<Rightarrow> (Some (FrameContent x), ctx, f)
      | None \<Rightarrow>
          (let (clicked, ctx, b) = option_event bev ctx e (fr_button f) in
           (case clicked of Some _ \<Rightarrow> Some (FrameButton (button_msg f)) | None \<Rightarrow> None, ctx, f\<lparr>fr_button := b\<rparr>)))"

text \<open>
  \<open>SwipeContent::process_event\<close>: its animation asks for frames and painting (\<open>wrap_ctx\<close>), and while the
  animation runs, touches do not reach the content (\<open>touch_blocked\<close>).
\<close>

record content_env =
  wrap_ctx :: "event \<Rightarrow> event_ctx \<Rightarrow> event_ctx"
  touch_blocked :: bool

definition swipe_content_event :: "content_env \<Rightarrow> ('c, 'm) handler \<Rightarrow> ('c, 'm) handler" where
  "swipe_content_event V ev ctx e c =
     (let ctx = wrap_ctx V e ctx in
      case e of
        Touch _ \<Rightarrow> (if touch_blocked V then (None, ctx, c) else ev ctx e c)
      | _ \<Rightarrow> ev ctx e c)"

subsection \<open>The words of a backup\<close>

record words_inner =
  share_words :: "bytes list"
  page_index :: int
  next_index :: int
  wi_progress :: int

definition words_inner_new :: "bytes list \<Rightarrow> words_inner" where
  "words_inner_new ws = \<lparr>share_words = ws, page_index = 0, next_index = 0, wi_progress = 0\<rparr>"

definition is_first_page :: "words_inner \<Rightarrow> bool" where
  "is_first_page w \<longleftrightarrow> page_index w = 0"

definition last_page :: "words_inner \<Rightarrow> int" where
  "last_page w = i16 (i16 (int (length (share_words w))) - 1)"

definition is_final_page :: "words_inner \<Rightarrow> bool" where
  "is_final_page w \<longleftrightarrow> page_index w = last_page w"

definition i16_saturating_sub :: "int \<Rightarrow> int \<Rightarrow> int" where
  "i16_saturating_sub a b = max (- 32768) (min 32767 (a - b))"

definition words_inner_event :: "(words_inner, 'm) handler" where
  "words_inner_event ctx e w =
     (let ctx = set_page_count (length (share_words w)) ctx in
      case e of
        Attach _ \<Rightarrow> (None, ctx, w\<lparr>wi_progress := 0\<rparr>)
      | SwipeEv (SwipeEnd d) \<Rightarrow>
          (if d = SwipeUp \<and> \<not> is_final_page w then
             (None, request_paint ctx,
              w\<lparr>wi_progress := 0, page_index := min (i16 (page_index w + 1)) (last_page w)\<rparr>)
           else if d = SwipeDown \<and> \<not> is_first_page w then
             (None, request_paint ctx,
              w\<lparr>wi_progress := 0, page_index := i16_saturating_sub (page_index w) 1\<rparr>)
           else (None, ctx, w))
      | SwipeEv (SwipeMove d p) \<Rightarrow>
          (None, request_paint ctx,
           case d of
             SwipeUp \<Rightarrow> w\<lparr>next_index := i16 (page_index w + 1), wi_progress := p\<rparr>
           | SwipeDown \<Rightarrow> w\<lparr>next_index := i16 (page_index w - 1), wi_progress := p\<rparr>
           | _ \<Rightarrow> w)
      | _ \<Rightarrow> (None, ctx, w))"

text \<open>The indices of the words that occurred before, in ascending order.\<close>

definition find_repeated :: "bytes list \<Rightarrow> u8 list" where
  "find_repeated ws =
     rev (map of_nat (filter (\<lambda>i. ws ! i \<in> set (take i ws)) (rev [0..<length ws])))"

record 'b words_screen =
  ws_frame :: "(words_inner, 'b) frame"
  repeated_indices :: "u8 list option"

definition words_screen_new :: "bytes list \<Rightarrow> bool \<Rightarrow> 'b words_screen" where
  "words_screen_new ws highlight =
     \<lparr>ws_frame = with_vertical_pages (with_swipe SwipeDown settings_default
        (with_swipe SwipeUp settings_default (frame_new (words_inner_new ws)))),
      repeated_indices = (if highlight then Some (find_repeated ws) else None)\<rparr>"

text \<open>Updating the subtitle and the counter in the footer asks for painting.\<close>

definition words_screen_event ::
  "content_env \<Rightarrow> ('b, unit) handler \<Rightarrow> ('b words_screen, unit frame_msg) handler" where
  "words_screen_event V bev ctx e w =
     (let (m, ctx, f) = frame_event (swipe_content_event V words_inner_event) bev (request_paint ctx) e (ws_frame w) in
      (m, ctx, w\<lparr>ws_frame := f\<rparr>))"

end
