(* ===== verification/Mercury_Flows.thy ===== *)
theory Mercury_Flows
  imports Screens
begin

section \<open>The flows of model mercury\<close>

text \<open>
  \<^verbatim>\<open>core/embed/rust/src/ui/model_mercury/flow\<close>: the states of every flow with its decisions
  (\<open>handle_swipe\<close>, \<open>handle_event\<close>), and the screens of its store: which swipes they allow, which button
  they have, and how their messages are mapped to messages of the flow.  Texts, styles and the reading
  of the arguments of the constructors are left out.
\<close>

subsection \<open>Screens of a flow\<close>

datatype content_msg = CDone | CSelected nat | CNumber u32

record ('c, 'b) screen =
  scr_frame :: "('c, 'b) frame"
  scr_map :: "content_msg frame_msg \<Rightarrow> flow_msg option"
  scr_request :: "(u32 \<times> bytes) option"
  scr_pages :: "(nat \<Rightarrow> nat) option"

definition screen :: "(content_msg frame_msg \<Rightarrow> flow_msg option) \<Rightarrow> ('c, 'b) frame \<Rightarrow> ('c, 'b) screen" where
  "screen g f = \<lparr>scr_frame = f, scr_map = g, scr_request = None, scr_pages = None\<rparr>"

definition one_button_request :: "u32 \<times> bytes \<Rightarrow> ('c, 'b) screen \<Rightarrow> ('c, 'b) screen" where
  "one_button_request r s = s\<lparr>scr_request := Some r\<rparr>"

definition with_pages :: "(nat \<Rightarrow> nat) \<Rightarrow> ('c, 'b) screen \<Rightarrow> ('c, 'b) screen" where
  "with_pages g s = s\<lparr>scr_pages := Some g\<rparr>"

text \<open>
  The elements of a store: framed screens, the words of a backup, and the screen \<open>AddressDetails\<close>, which
  is an argument.
\<close>

datatype ('c, 'b, 'o) flow_element = EScreen "('c, 'b) screen" | EWords "'b words_screen" | EDetails 'o

record ('c, 'b, 'o) mercury_env =
  me_anim :: content_env
  me_content :: "('c, content_msg) handler"
  me_button :: "('b, unit) handler"
  me_details :: "('o, unit) handler"
  me_details_config :: "'o \<Rightarrow> swipe_config"
  me_details_pages :: "'o \<Rightarrow> nat"

definition screen_event ::
  "('c, content_msg) handler \<Rightarrow> ('b, unit) handler \<Rightarrow> (('c, 'b) screen, flow_msg) handler" where
  "screen_event cev bev ctx e s =
     (let (m, ctx, (r, f)) = one_button_request_event (msg_map_event (scr_map s) (frame_event cev bev)) ctx e
            (scr_request s, scr_frame s);
          ctx = (case scr_pages s of Some g \<Rightarrow> map_page_count g ctx | None \<Rightarrow> ctx) in
      (m, ctx, s\<lparr>scr_frame := f, scr_request := r\<rparr>))"

definition mercury_ops :: "('c, 'b, 'o) mercury_env \<Rightarrow> ('c, 'b, 'o) flow_element element_ops" where
  "mercury_ops M =
     \<lparr>el_event = (\<lambda>ctx e x. case x of
          EScreen s \<Rightarrow> (let (m, ctx, s) = screen_event (me_content M) (me_button M) ctx e s in (m, ctx, EScreen s))
        | EWords w \<Rightarrow> (let (m, ctx, w) = msg_map_event (\<lambda>_. None)
              (words_screen_event (me_anim M) (me_button M)) ctx e w in (m, ctx, EWords w))
        | EDetails d \<Rightarrow> (let (m, ctx, d) = msg_map_event (\<lambda>_. Some FCancelled) (me_details M) ctx e d in (m, ctx, EDetails d))),
      el_swipe_config = (\<lambda>x. case x of
          EScreen s \<Rightarrow> fr_swipe (scr_frame s) | EWords w \<Rightarrow> fr_swipe (ws_frame w) | EDetails d \<Rightarrow> me_details_config M d),
      el_page_count = (\<lambda>x. case x of
          EScreen s \<Rightarrow> internal_page_cnt (scr_frame s) | EWords w \<Rightarrow> internal_page_cnt (ws_frame w)
        | EDetails d \<Rightarrow> me_details_pages M d)\<rparr>"

text \<open>The maps from messages of a frame to messages of a flow that the constructors share.\<close>

fun map_menu :: "content_msg frame_msg \<Rightarrow> flow_msg option" where
  "map_menu (FrameContent (CSelected i)) = Some (FChoice i)"
| "map_menu (FrameContent _) = None"
| "map_menu (FrameButton _) = Some FCancelled"

fun map_button_info :: "content_msg frame_msg \<Rightarrow> flow_msg option" where
  "map_button_info (FrameButton _) = Some FInfo"
| "map_button_info _ = None"

fun map_button_cancelled :: "content_msg frame_msg \<Rightarrow> flow_msg option" where
  "map_button_cancelled (FrameButton _) = Some FCancelled"
| "map_button_cancelled _ = None"

fun map_prompt_info :: "content_msg frame_msg \<Rightarrow> flow_msg option" where
  "map_prompt_info (FrameContent _) = Some FConfirmed"
| "map_prompt_info (FrameButton _) = Some FInfo"

fun map_prompt_cancel :: "content_msg frame_msg \<Rightarrow> flow_msg option" where
  "map_prompt_cancel (FrameContent _) = Some FConfirmed"
| "map_prompt_cancel (FrameButton _) = Some FCancelled"

fun map_prompt_cancelled_only :: "content_msg frame_msg \<Rightarrow> flow_msg option" where
  "map_prompt_cancelled_only (FrameContent _) = Some FConfirmed"
| "map_prompt_cancelled_only (FrameButton CICancelled) = Some FCancelled"
| "map_prompt_cancelled_only (FrameButton _) = None"

fun map_content_confirmed :: "content_msg frame_msg \<Rightarrow> flow_msg option" where
  "map_content_confirmed (FrameContent _) = Some FConfirmed"
| "map_content_confirmed _ = None"

fun map_only_cancelled :: "content_msg frame_msg \<Rightarrow> flow_msg option" where
  "map_only_cancelled (FrameButton CICancelled) = Some FCancelled"
| "map_only_cancelled _ = None"

fun map_only_info :: "content_msg frame_msg \<Rightarrow> flow_msg option" where
  "map_only_info (FrameButton CIInfo) = Some FInfo"
| "map_only_info _ = None"

fun map_menu_cancelled_only :: "content_msg frame_msg \<Rightarrow> flow_msg option" where
  "map_menu_cancelled_only (FrameContent (CSelected i)) = Some (FChoice i)"
| "map_menu_cancelled_only (FrameButton CICancelled) = Some FCancelled"
| "map_menu_cancelled_only _ = None"

fun map_number :: "content_msg frame_msg \<Rightarrow> flow_msg option" where
  "map_number (FrameButton _) = Some FInfo"
| "map_number (FrameContent (CNumber n)) = Some (FChoice (unat n))"
| "map_number (FrameContent _) = None"

text \<open>The frames of a menu, of a tap or hold prompt, and of two sorts of information.\<close>

definition menu_frame :: "'c \<Rightarrow> 'b \<Rightarrow> ('c, 'b) frame" where
  "menu_frame c b = with_swipe SwipeRight settings_immediate (with_cancel_button b (frame_new c))"

definition blob_frame :: "bool \<Rightarrow> bool \<Rightarrow> bool \<Rightarrow> 'c \<Rightarrow> 'b \<Rightarrow> ('c, 'b) frame" where
  "blob_frame menu_button footer swipe_down c b =
     (let f = frame_new c;
          f = (if menu_button then with_menu_button b f else f);
          f = (if footer then with_swipe SwipeLeft settings_default f else f);
          f = (if swipe_down then with_swipe SwipeDown settings_default f else f) in
      with_vertical_pages (with_swipe SwipeUp settings_default f))"

definition blob_screen :: "bool \<Rightarrow> bool \<Rightarrow> bool \<Rightarrow> 'c \<Rightarrow> 'b \<Rightarrow> ('c, 'b) screen" where
  "blob_screen menu_button footer swipe_down c b =
     screen map_button_info (blob_frame menu_button footer swipe_down c b)"

definition info_frame :: "bool \<Rightarrow> bool \<Rightarrow> bool \<Rightarrow> 'c \<Rightarrow> 'b \<Rightarrow> ('c, 'b) frame" where
  "info_frame cancel_button menu_button swipe_up c b =
     (let f = frame_new c;
          f = (if cancel_button then with_swipe SwipeRight settings_immediate (with_cancel_button b f)
               else if menu_button then with_swipe SwipeLeft settings_default (with_menu_button b f)
               else f);
          f = (if swipe_up then with_swipe SwipeUp settings_default f else f) in
      with_vertical_pages f)"

definition info_screen :: "bool \<Rightarrow> bool \<Rightarrow> bool \<Rightarrow> 'c \<Rightarrow> 'b \<Rightarrow> ('c, 'b) screen" where
  "info_screen cancel_button menu_button swipe_up c b =
     screen (if cancel_button then map_button_cancelled else map_button_info)
       (info_frame cancel_button menu_button swipe_up c b)"

subsection \<open>Confirming an action\<close>

datatype confirm_action = CA_Intro | CA_Menu | CA_Confirm

definition confirm_action_logic :: "confirm_action flow_logic" where
  "confirm_action_logic =
     \<lparr>q_index = (\<lambda>s. case s of CA_Intro \<Rightarrow> 0 | CA_Menu \<Rightarrow> 1 | CA_Confirm \<Rightarrow> 2),
      handle_swipe = (\<lambda>s d. case (s, d) of
          (CA_Intro, SwipeLeft) \<Rightarrow> DGoto CA_Menu d
        | (CA_Menu, SwipeRight) \<Rightarrow> DGoto CA_Intro d
        | (CA_Intro, SwipeUp) \<Rightarrow> DGoto CA_Confirm d
        | (CA_Confirm, SwipeDown) \<Rightarrow> DGoto CA_Intro d
        | (CA_Confirm, SwipeLeft) \<Rightarrow> DGoto CA_Menu d
        | _ \<Rightarrow> DNothing),
      handle_event = (\<lambda>s m. case (s, m) of
          (CA_Intro, FInfo) \<Rightarrow> DGoto CA_Menu SwipeLeft
        | (CA_Menu, FCancelled) \<Rightarrow> DGoto CA_Intro SwipeRight
        | (CA_Menu, FChoice i) \<Rightarrow>
            (if i = 0 then DReturn FCancelled else if i = 1 then DReturn FInfo else DNothing)
        | (CA_Confirm, FConfirmed) \<Rightarrow> DReturn FConfirmed
        | (CA_Confirm, FInfo) \<Rightarrow> DGoto CA_Menu SwipeLeft
        | _ \<Rightarrow> DNothing)\<rparr>"

datatype confirm_action_simple = CAS_Intro | CAS_Menu

definition confirm_action_simple_logic :: "confirm_action_simple flow_logic" where
  "confirm_action_simple_logic =
     \<lparr>q_index = (\<lambda>s. case s of CAS_Intro \<Rightarrow> 0 | CAS_Menu \<Rightarrow> 1),
      handle_swipe = (\<lambda>s d. case (s, d) of
          (CAS_Intro, SwipeLeft) \<Rightarrow> DGoto CAS_Menu d
        | (CAS_Menu, SwipeRight) \<Rightarrow> DGoto CAS_Intro d
        | (CAS_Intro, SwipeUp) \<Rightarrow> DReturn FConfirmed
        | _ \<Rightarrow> DNothing),
      handle_event = (\<lambda>s m. case (s, m) of
          (CAS_Intro, FInfo) \<Rightarrow> DGoto CAS_Menu SwipeLeft
        | (CAS_Menu, FCancelled) \<Rightarrow> DGoto CAS_Intro SwipeRight
        | (CAS_Menu, FChoice i) \<Rightarrow>
            (if i = 0 then DReturn FCancelled else if i = 1 then DReturn FInfo else DNothing)
        | _ \<Rightarrow> DNothing)\<rparr>"

text \<open>
  \<open>new_confirm_action_uni\<close>: the introduction and the menu, which both flows have, and the prompt.  The
  page count of the introduction includes the prompt.
\<close>

definition action_intro :: "nat \<Rightarrow> 'c \<Rightarrow> 'b \<Rightarrow> ('c, 'b) screen" where
  "action_intro prompt_pages c b =
     with_pages (\<lambda>intro_pages. usize_add intro_pages prompt_pages) (screen map_button_info
       (with_vertical_pages (with_swipe SwipeLeft settings_default (with_swipe SwipeUp settings_default
         (with_menu_button b (frame_new c))))))"

definition prompt_frame :: "'c \<Rightarrow> 'b \<Rightarrow> ('c, 'b) frame" where
  "prompt_frame c b =
     with_swipe SwipeLeft settings_default (with_swipe SwipeDown settings_default (with_menu_button b (frame_new c)))"

definition confirm_action_store :: "(nat \<Rightarrow> 'c) \<Rightarrow> 'b \<Rightarrow> ('c, 'b, 'o) flow_element list" where
  "confirm_action_store c b =
     [EScreen (action_intro 1 (c 0) b), EScreen (screen map_menu (menu_frame (c 1) b)),
      EScreen (screen map_prompt_info (prompt_frame (c 2) b))]"

definition confirm_action_simple_store :: "(nat \<Rightarrow> 'c) \<Rightarrow> 'b \<Rightarrow> ('c, 'b, 'o) flow_element list" where
  "confirm_action_simple_store c b =
     [EScreen (action_intro 0 (c 0) b), EScreen (screen map_menu (menu_frame (c 1) b))]"

subsection \<open>Signing a transaction: its outputs and its summary\<close>

datatype confirm_output = CO_Address | CO_Amount | CO_Menu | CO_AccountInfo | CO_CancelTap

definition confirm_output_logic :: "confirm_output flow_logic" where
  "confirm_output_logic =
     \<lparr>q_index = (\<lambda>s. case s of CO_Address \<Rightarrow> 0 | CO_Amount \<Rightarrow> 1 | CO_Menu \<Rightarrow> 2 | CO_AccountInfo \<Rightarrow> 3 | CO_CancelTap \<Rightarrow> 4),
      handle_swipe = (\<lambda>s d. case (s, d) of
          (CO_Address, SwipeLeft) \<Rightarrow> DGoto CO_Menu d
        | (CO_Amount, SwipeLeft) \<Rightarrow> DGoto CO_Menu d
        | (CO_Address, SwipeUp) \<Rightarrow> DGoto CO_Amount d
        | (CO_Amount, SwipeUp) \<Rightarrow> DReturn FConfirmed
        | (CO_Amount, SwipeDown) \<Rightarrow> DGoto CO_Address d
        | (CO_Menu, SwipeRight) \<Rightarrow> DGoto CO_Address d
        | (CO_Menu, SwipeLeft) \<Rightarrow> DGoto CO_AccountInfo d
        | (CO_AccountInfo, SwipeRight) \<Rightarrow> DGoto CO_Menu d
        | (CO_CancelTap, SwipeRight) \<Rightarrow> DGoto CO_Menu d
        | _ \<Rightarrow> DNothing),
      handle_event = (\<lambda>s m. case (s, m) of
          (_, FInfo) \<Rightarrow> DGoto CO_Menu SwipeLeft
        | (CO_Menu, FChoice i) \<Rightarrow>
            (if i = 0 then DGoto CO_AccountInfo SwipeLeft
             else if i = 1 then DGoto CO_CancelTap SwipeLeft else DNothing)
        | (CO_Menu, FCancelled) \<Rightarrow> DGoto CO_Address SwipeRight
        | (CO_CancelTap, FConfirmed) \<Rightarrow> DReturn FCancelled
        | (_, FCancelled) \<Rightarrow> DGoto CO_Menu SwipeRight
        | _ \<Rightarrow> DNothing)\<rparr>"

definition confirm_output_store :: "u32 \<times> bytes \<Rightarrow> (nat \<Rightarrow> 'c) \<Rightarrow> 'b \<Rightarrow> 'o \<Rightarrow> ('c, 'b, 'o) flow_element list" where
  "confirm_output_store r c b account =
     [EScreen (one_button_request r (blob_screen True True False (c 0) b)),
      EScreen (one_button_request r (blob_screen True True True (c 1) b)),
      EScreen (screen map_menu (menu_frame (c 2) b)),
      EDetails account,
      EScreen (screen map_prompt_cancel (with_swipe SwipeLeft settings_default
        (with_swipe SwipeDown settings_default (with_cancel_button b (frame_new (c 4))))))]"

datatype confirm_summary = CS_Summary | CS_Hold | CS_Menu | CS_FeeInfo | CS_AccountInfo | CS_CancelTap

definition confirm_summary_logic :: "confirm_summary flow_logic" where
  "confirm_summary_logic =
     \<lparr>q_index = (\<lambda>s. case s of CS_Summary \<Rightarrow> 0 | CS_Hold \<Rightarrow> 1 | CS_Menu \<Rightarrow> 2 | CS_FeeInfo \<Rightarrow> 3
        | CS_AccountInfo \<Rightarrow> 4 | CS_CancelTap \<Rightarrow> 5),
      handle_swipe = (\<lambda>s d. case (s, d) of
          (CS_Summary, SwipeLeft) \<Rightarrow> DGoto CS_Menu d
        | (CS_Hold, SwipeLeft) \<Rightarrow> DGoto CS_Menu d
        | (CS_Summary, SwipeUp) \<Rightarrow> DGoto CS_Hold d
        | (CS_Hold, SwipeDown) \<Rightarrow> DGoto CS_Summary d
        | (CS_Menu, SwipeRight) \<Rightarrow> DGoto CS_Summary d
        | (CS_Menu, SwipeLeft) \<Rightarrow> DGoto CS_FeeInfo d
        | (CS_AccountInfo, SwipeRight) \<Rightarrow> DGoto CS_Menu d
        | (CS_FeeInfo, SwipeRight) \<Rightarrow> DGoto CS_Menu d
        | (CS_CancelTap, SwipeRight) \<Rightarrow> DGoto CS_Menu d
        | _ \<Rightarrow> DNothing),
      handle_event = (\<lambda>s m. case (s, m) of
          (_, FInfo) \<Rightarrow> DGoto CS_Menu SwipeLeft
        | (CS_Hold, FConfirmed) \<Rightarrow> DReturn FConfirmed
        | (CS_Menu, FChoice i) \<Rightarrow>
            (if i = 0 then DGoto CS_FeeInfo SwipeLeft
             else if i = 1 then DGoto CS_AccountInfo SwipeLeft
             else if i = 2 then DGoto CS_CancelTap SwipeLeft else DNothing)
        | (CS_Menu, FCancelled) \<Rightarrow> DGoto CS_Summary SwipeRight
        | (CS_CancelTap, FConfirmed) \<Rightarrow> DReturn FCancelled
        | (_, FCancelled) \<Rightarrow> DGoto CS_Menu SwipeRight
        | _ \<Rightarrow> DNothing)\<rparr>"

definition confirm_summary_store :: "u32 \<times> bytes \<Rightarrow> (nat \<Rightarrow> 'c) \<Rightarrow> 'b \<Rightarrow> ('c, 'b, 'o) flow_element list" where
  "confirm_summary_store r c b =
     [EScreen (with_pages (\<lambda>n. usize_add n 1) (one_button_request r (info_screen False True True (c 0) b))),
      EScreen (screen map_prompt_info (prompt_frame (c 1) b)),
      EScreen (screen map_menu (menu_frame (c 2) b)),
      EScreen (info_screen True False False (c 3) b),
      EScreen (info_screen True False False (c 4) b),
      EScreen (screen map_prompt_cancel (with_swipe SwipeRight settings_immediate
        (with_cancel_button b (frame_new (c 5)))))]"

subsection \<open>Setting up the device\<close>

datatype confirm_reset_create = RC_Intro | RC_Menu | RC_Confirm

definition confirm_reset_create_logic :: "confirm_reset_create flow_logic" where
  "confirm_reset_create_logic =
     \<lparr>q_index = (\<lambda>s. case s of RC_Intro \<Rightarrow> 0 | RC_Menu \<Rightarrow> 1 | RC_Confirm \<Rightarrow> 2),
      handle_swipe = (\<lambda>s d. case (s, d) of
          (RC_Intro, SwipeLeft) \<Rightarrow> DGoto RC_Menu d
        | (RC_Intro, SwipeUp) \<Rightarrow> DGoto RC_Confirm d
        | (RC_Menu, SwipeRight) \<Rightarrow> DGoto RC_Intro d
        | (RC_Confirm, SwipeDown) \<Rightarrow> DGoto RC_Intro d
        | (RC_Confirm, SwipeLeft) \<Rightarrow> DGoto RC_Menu d
        | _ \<Rightarrow> DNothing),
      handle_event = (\<lambda>s m. case (s, m) of
          (RC_Intro, FInfo) \<Rightarrow> DGoto RC_Menu SwipeLeft
        | (RC_Menu, FCancelled) \<Rightarrow> DGoto RC_Intro SwipeRight
        | (RC_Menu, FChoice i) \<Rightarrow> (if i = 0 then DReturn FCancelled else DNothing)
        | (RC_Confirm, FConfirmed) \<Rightarrow> DReturn FConfirmed
        | (RC_Confirm, FInfo) \<Rightarrow> DGoto RC_Menu SwipeLeft
        | _ \<Rightarrow> DNothing)\<rparr>"

definition intro_frame :: "'c \<Rightarrow> 'b \<Rightarrow> ('c, 'b) frame" where
  "intro_frame c b =
     with_swipe SwipeLeft settings_default (with_swipe SwipeUp settings_default (with_menu_button b (frame_new c)))"

definition confirm_reset_create_store ::
  "u32 \<times> bytes \<Rightarrow> u32 \<times> bytes \<Rightarrow> (nat \<Rightarrow> 'c) \<Rightarrow> 'b \<Rightarrow> ('c, 'b, 'o) flow_element list" where
  "confirm_reset_create_store r r' c b =
     [EScreen (one_button_request r (screen map_button_info (intro_frame (c 0) b))),
      EScreen (screen map_menu (menu_frame (c 1) b)),
      EScreen (one_button_request r' (screen map_prompt_info (prompt_frame (c 2) b)))]"

datatype confirm_reset_recover = RR_Intro | RR_Menu

definition confirm_reset_recover_logic :: "confirm_reset_recover flow_logic" where
  "confirm_reset_recover_logic =
     \<lparr>q_index = (\<lambda>s. case s of RR_Intro \<Rightarrow> 0 | RR_Menu \<Rightarrow> 1),
      handle_swipe = (\<lambda>s d. case (s, d) of
          (RR_Intro, SwipeLeft) \<Rightarrow> DGoto RR_Menu d
        | (RR_Menu, SwipeRight) \<Rightarrow> DGoto RR_Intro d
        | (RR_Intro, SwipeUp) \<Rightarrow> DReturn FConfirmed
        | _ \<Rightarrow> DNothing),
      handle_event = (\<lambda>s m. case (s, m) of
          (RR_Intro, FInfo) \<Rightarrow> DGoto RR_Menu SwipeLeft
        | (RR_Menu, FCancelled) \<Rightarrow> DGoto RR_Intro SwipeRight
        | (RR_Menu, FChoice i) \<Rightarrow> (if i = 0 then DReturn FCancelled else DNothing)
        | _ \<Rightarrow> DNothing)\<rparr>"

text \<open>The store has a third screen that no state of the flow shows.\<close>

definition confirm_reset_recover_store :: "u32 \<times> bytes \<Rightarrow> (nat \<Rightarrow> 'c) \<Rightarrow> 'b \<Rightarrow> ('c, 'b, 'o) flow_element list" where
  "confirm_reset_recover_store r c b =
     [EScreen (one_button_request r (screen map_button_info (intro_frame (c 0) b))),
      EScreen (screen map_menu (menu_frame (c 1) b)),
      EScreen (screen map_prompt_cancel (with_swipe SwipeDown settings_default (frame_new (c 2))))]"

datatype set_new_pin = NP_Intro | NP_Menu | NP_CancelPinIntro | NP_CancelPinConfirm

definition set_new_pin_logic :: "set_new_pin flow_logic" where
  "set_new_pin_logic =
     \<lparr>q_index = (\<lambda>s. case s of NP_Intro \<Rightarrow> 0 | NP_Menu \<Rightarrow> 1 | NP_CancelPinIntro \<Rightarrow> 2 | NP_CancelPinConfirm \<Rightarrow> 3),
      handle_swipe = (\<lambda>s d. case (s, d) of
          (NP_Intro, SwipeLeft) \<Rightarrow> DGoto NP_Menu d
        | (NP_Intro, SwipeUp) \<Rightarrow> DReturn FConfirmed
        | (NP_Menu, SwipeRight) \<Rightarrow> DGoto NP_Intro d
        | (NP_CancelPinIntro, SwipeUp) \<Rightarrow> DGoto NP_CancelPinConfirm d
        | (NP_CancelPinIntro, SwipeRight) \<Rightarrow> DGoto NP_Intro d
        | (NP_CancelPinConfirm, SwipeDown) \<Rightarrow> DGoto NP_CancelPinIntro d
        | (NP_CancelPinConfirm, SwipeRight) \<Rightarrow> DGoto NP_Intro d
        | _ \<Rightarrow> DNothing),
      handle_event = (\<lambda>s m. case (s, m) of
          (NP_Intro, FInfo) \<Rightarrow> DGoto NP_Menu SwipeLeft
        | (NP_Menu, FChoice i) \<Rightarrow> (if i = 0 then DGoto NP_CancelPinIntro SwipeLeft else DNothing)
        | (NP_Menu, FCancelled) \<Rightarrow> DGoto NP_Intro SwipeRight
        | (NP_CancelPinIntro, FCancelled) \<Rightarrow> DGoto NP_Intro SwipeRight
        | (NP_CancelPinConfirm, FCancelled) \<Rightarrow> DGoto NP_CancelPinIntro SwipeRight
        | (NP_CancelPinConfirm, FConfirmed) \<Rightarrow> DReturn FCancelled
        | _ \<Rightarrow> DNothing)\<rparr>"

definition skip_intro_frame :: "'c \<Rightarrow> 'b \<Rightarrow> ('c, 'b) frame" where
  "skip_intro_frame c b =
     with_swipe SwipeRight settings_immediate (with_swipe SwipeUp settings_default (with_cancel_button b (frame_new c)))"

definition skip_confirm_frame :: "'c \<Rightarrow> 'b \<Rightarrow> ('c, 'b) frame" where
  "skip_confirm_frame c b =
     with_swipe SwipeRight settings_immediate (with_swipe SwipeDown settings_default (with_cancel_button b (frame_new c)))"

definition set_new_pin_store :: "(nat \<Rightarrow> 'c) \<Rightarrow> 'b \<Rightarrow> ('c, 'b, 'o) flow_element list" where
  "set_new_pin_store c b =
     [EScreen (screen map_only_info (intro_frame (c 0) b)),
      EScreen (screen map_menu_cancelled_only (menu_frame (c 1) b)),
      EScreen (screen map_only_cancelled (skip_intro_frame (c 2) b)),
      EScreen (screen map_prompt_cancelled_only (skip_confirm_frame (c 3) b))]"

datatype prompt_backup = PB_Intro | PB_Menu | PB_SkipBackupIntro | PB_SkipBackupConfirm

definition prompt_backup_logic :: "prompt_backup flow_logic" where
  "prompt_backup_logic =
     \<lparr>q_index = (\<lambda>s. case s of PB_Intro \<Rightarrow> 0 | PB_Menu \<Rightarrow> 1 | PB_SkipBackupIntro \<Rightarrow> 2 | PB_SkipBackupConfirm \<Rightarrow> 3),
      handle_swipe = (\<lambda>s d. case (s, d) of
          (PB_Intro, SwipeLeft) \<Rightarrow> DGoto PB_Menu d
        | (PB_Intro, SwipeUp) \<Rightarrow> DReturn FConfirmed
        | (PB_Menu, SwipeRight) \<Rightarrow> DGoto PB_Intro d
        | (PB_SkipBackupIntro, SwipeUp) \<Rightarrow> DGoto PB_SkipBackupConfirm d
        | (PB_SkipBackupIntro, SwipeRight) \<Rightarrow> DGoto PB_Intro d
        | (PB_SkipBackupConfirm, SwipeDown) \<Rightarrow> DGoto PB_SkipBackupIntro d
        | (PB_SkipBackupConfirm, SwipeRight) \<Rightarrow> DGoto PB_Intro d
        | _ \<Rightarrow> DNothing),
      handle_event = (\<lambda>s m. case (s, m) of
          (PB_Intro, FInfo) \<Rightarrow> DGoto PB_Menu SwipeLeft
        | (PB_Menu, FChoice i) \<Rightarrow> (if i = 0 then DGoto PB_SkipBackupIntro SwipeLeft else DNothing)
        | (PB_Menu, FCancelled) \<Rightarrow> DGoto PB_Intro SwipeRight
        | (PB_SkipBackupIntro, FCancelled) \<Rightarrow> DGoto PB_Menu SwipeRight
        | (PB_SkipBackupConfirm, FCancelled) \<Rightarrow> DGoto PB_SkipBackupIntro SwipeRight
        | (PB_SkipBackupConfirm, FConfirmed) \<Rightarrow> DReturn FCancelled
        | _ \<Rightarrow> DNothing)\<rparr>"

definition prompt_backup_store :: "(nat \<Rightarrow> 'c) \<Rightarrow> 'b \<Rightarrow> ('c, 'b, 'o) flow_element list" where
  "prompt_backup_store c b =
     [EScreen (screen map_only_info (intro_frame (c 0) b)),
      EScreen (screen map_menu_cancelled_only (menu_frame (c 1) b)),
      EScreen (screen map_only_cancelled (skip_intro_frame (c 2) b)),
      EScreen (screen map_prompt_cancelled_only (skip_confirm_frame (c 3) b))]"

datatype show_share_words = SW_Instruction | SW_Words | SW_Confirm | SW_CheckBackupIntro

definition show_share_words_logic :: "show_share_words flow_logic" where
  "show_share_words_logic =
     \<lparr>q_index = (\<lambda>s. case s of SW_Instruction \<Rightarrow> 0 | SW_Words \<Rightarrow> 1 | SW_Confirm \<Rightarrow> 2 | SW_CheckBackupIntro \<Rightarrow> 3),
      handle_swipe = (\<lambda>s d. case (s, d) of
          (SW_Instruction, SwipeUp) \<Rightarrow> DGoto SW_Words d
        | (SW_Confirm, SwipeDown) \<Rightarrow> DGoto SW_Words d
        | (SW_Words, SwipeUp) \<Rightarrow> DGoto SW_Confirm d
        | (SW_Words, SwipeDown) \<Rightarrow> DGoto SW_Instruction d
        | (SW_CheckBackupIntro, SwipeUp) \<Rightarrow> DReturn FConfirmed
        | _ \<Rightarrow> DNothing),
      handle_event = (\<lambda>s m. case (s, m) of
          (SW_Words, FCancelled) \<Rightarrow> DGoto SW_Instruction SwipeDown
        | (SW_Words, FConfirmed) \<Rightarrow> DGoto SW_Confirm SwipeUp
        | (SW_Confirm, FConfirmed) \<Rightarrow> DGoto SW_CheckBackupIntro SwipeUp
        | _ \<Rightarrow> DNothing)\<rparr>"

definition show_share_words_store ::
  "u32 \<times> bytes \<Rightarrow> bytes list \<Rightarrow> bool \<Rightarrow> (nat \<Rightarrow> 'c) \<Rightarrow> ('c, 'b, 'o) flow_element list" where
  "show_share_words_store r ws highlight c =
     [EScreen (with_pages (\<lambda>_. usize_add (length ws) 2) (one_button_request r (screen map_content_confirmed
        (with_swipe SwipeUp settings_default (frame_new (c 0)))))),
      EWords (words_screen_new ws highlight),
      EScreen (screen (\<lambda>_. Some FConfirmed) (with_swipe SwipeDown settings_default (frame_new (c 2)))),
      EScreen (screen (\<lambda>_. Some FConfirmed) (with_swipe SwipeUp settings_default (frame_new (c 3))))]"

subsection \<open>Addresses, numbers, warnings and the tutorial\<close>

datatype get_address = GA_Address | GA_Tap | GA_Confirmed | GA_Menu | GA_QrCode | GA_AccountInfo | GA_Cancel | GA_CancelTap

definition get_address_logic :: "get_address flow_logic" where
  "get_address_logic =
     \<lparr>q_index = (\<lambda>s. case s of GA_Address \<Rightarrow> 0 | GA_Tap \<Rightarrow> 1 | GA_Confirmed \<Rightarrow> 2 | GA_Menu \<Rightarrow> 3 | GA_QrCode \<Rightarrow> 4
        | GA_AccountInfo \<Rightarrow> 5 | GA_Cancel \<Rightarrow> 6 | GA_CancelTap \<Rightarrow> 7),
      handle_swipe = (\<lambda>s d. case (s, d) of
          (GA_Address, SwipeLeft) \<Rightarrow> DGoto GA_Menu d
        | (GA_Address, SwipeUp) \<Rightarrow> DGoto GA_Tap d
        | (GA_Tap, SwipeDown) \<Rightarrow> DGoto GA_Address d
        | (GA_Tap, SwipeLeft) \<Rightarrow> DGoto GA_Menu d
        | (GA_Menu, SwipeRight) \<Rightarrow> DGoto GA_Address d
        | (GA_QrCode, SwipeRight) \<Rightarrow> DGoto GA_Menu d
        | (GA_AccountInfo, SwipeRight) \<Rightarrow> DGoto GA_Menu SwipeRight
        | (GA_Cancel, SwipeUp) \<Rightarrow> DGoto GA_CancelTap d
        | (GA_Cancel, SwipeRight) \<Rightarrow> DGoto GA_Menu d
        | (GA_CancelTap, SwipeDown) \<Rightarrow> DGoto GA_Cancel d
        | (GA_CancelTap, SwipeRight) \<Rightarrow> DGoto GA_Menu d
        | _ \<Rightarrow> DNothing),
      handle_event = (\<lambda>s m. case (s, m) of
          (GA_Address, FInfo) \<Rightarrow> DGoto GA_Menu SwipeLeft
        | (GA_Tap, FConfirmed) \<Rightarrow> DGoto GA_Confirmed SwipeUp
        | (GA_Tap, FInfo) \<Rightarrow> DGoto GA_Menu SwipeLeft
        | (GA_Confirmed, _) \<Rightarrow> DReturn FConfirmed
        | (GA_Menu, FChoice i) \<Rightarrow>
            (if i = 0 then DGoto GA_QrCode SwipeLeft
             else if i = 1 then DGoto GA_AccountInfo SwipeLeft
             else if i = 2 then DGoto GA_Cancel SwipeLeft else DNothing)
        | (GA_Menu, FCancelled) \<Rightarrow> DGoto GA_Address SwipeRight
        | (GA_QrCode, FCancelled) \<Rightarrow> DGoto GA_Menu SwipeRight
        | (GA_AccountInfo, FCancelled) \<Rightarrow> DGoto GA_Menu SwipeRight
        | (GA_Cancel, FCancelled) \<Rightarrow> DGoto GA_Menu SwipeRight
        | (GA_CancelTap, FConfirmed) \<Rightarrow> DReturn FCancelled
        | (GA_CancelTap, FCancelled) \<Rightarrow> DGoto GA_Menu SwipeRight
        | _ \<Rightarrow> DNothing)\<rparr>"

definition get_address_store :: "u32 \<times> bytes \<Rightarrow> (nat \<Rightarrow> 'c) \<Rightarrow> 'b \<Rightarrow> 'o \<Rightarrow> ('c, 'b, 'o) flow_element list" where
  "get_address_store r c b account =
     [EScreen (with_pages (\<lambda>n. usize_add n 1) (one_button_request r (screen map_button_info
        (with_vertical_pages (intro_frame (c 0) b))))),
      EScreen (screen map_prompt_info (with_swipe SwipeLeft settings_default
        (with_swipe SwipeDown settings_default (frame_new (c 1))))),
      EScreen (screen (\<lambda>_. Some FConfirmed) (frame_new (c 2))),
      EScreen (screen map_menu (menu_frame (c 3) b)),
      EScreen (screen map_button_cancelled (menu_frame (c 4) b)),
      EDetails account,
      EScreen (screen map_button_cancelled (skip_intro_frame (c 6) b)),
      EScreen (screen map_prompt_cancelled_only (skip_confirm_frame (c 7) b))]"

datatype request_number = RN_Number | RN_Menu | RN_Info

definition request_number_logic :: "request_number flow_logic" where
  "request_number_logic =
     \<lparr>q_index = (\<lambda>s. case s of RN_Number \<Rightarrow> 0 | RN_Menu \<Rightarrow> 1 | RN_Info \<Rightarrow> 2),
      handle_swipe = (\<lambda>s d. case (s, d) of
          (RN_Number, SwipeLeft) \<Rightarrow> DGoto RN_Menu d
        | (RN_Menu, SwipeRight) \<Rightarrow> DGoto RN_Number d
        | (RN_Info, SwipeRight) \<Rightarrow> DGoto RN_Menu d
        | _ \<Rightarrow> DNothing),
      handle_event = (\<lambda>s m. case (s, m) of
          (RN_Number, FInfo) \<Rightarrow> DGoto RN_Menu SwipeLeft
        | (RN_Menu, FChoice i) \<Rightarrow> (if i = 0 then DGoto RN_Info SwipeLeft else DNothing)
        | (RN_Menu, FCancelled) \<Rightarrow> DGoto RN_Number SwipeRight
        | (RN_Info, FCancelled) \<Rightarrow> DGoto RN_Menu SwipeRight
        | (RN_Number, FChoice n) \<Rightarrow> DReturn (FChoice n)
        | _ \<Rightarrow> DNothing)\<rparr>"

definition request_number_store :: "u32 \<times> bytes \<Rightarrow> (nat \<Rightarrow> 'c) \<Rightarrow> 'b \<Rightarrow> ('c, 'b, 'o) flow_element list" where
  "request_number_store r c b =
     [EScreen (one_button_request r (screen map_number (intro_frame (c 0) b))),
      EScreen (screen map_menu_cancelled_only (menu_frame (c 1) b)),
      EScreen (screen map_only_cancelled (menu_frame (c 2) b))]"

datatype warning_hi_prio = WP_Message | WP_Menu | WP_Cancelled

definition warning_hi_prio_logic :: "warning_hi_prio flow_logic" where
  "warning_hi_prio_logic =
     \<lparr>q_index = (\<lambda>s. case s of WP_Message \<Rightarrow> 0 | WP_Menu \<Rightarrow> 1 | WP_Cancelled \<Rightarrow> 2),
      handle_swipe = (\<lambda>s d. case (s, d) of
          (WP_Message, SwipeLeft) \<Rightarrow> DGoto WP_Menu d
        | (WP_Message, SwipeUp) \<Rightarrow> DGoto WP_Cancelled d
        | (WP_Menu, SwipeRight) \<Rightarrow> DGoto WP_Message d
        | _ \<Rightarrow> DNothing),
      handle_event = (\<lambda>s m. case (s, m) of
          (WP_Message, FInfo) \<Rightarrow> DGoto WP_Menu SwipeLeft
        | (WP_Menu, FChoice i) \<Rightarrow> (if i = 1 then DReturn FConfirmed else DGoto WP_Cancelled SwipeUp)
        | (WP_Menu, FCancelled) \<Rightarrow> DGoto WP_Message SwipeRight
        | (WP_Cancelled, _) \<Rightarrow> DReturn FCancelled
        | _ \<Rightarrow> DNothing)\<rparr>"

definition warning_hi_prio_store :: "(nat \<Rightarrow> 'c) \<Rightarrow> 'b \<Rightarrow> ('c, 'b, 'o) flow_element list" where
  "warning_hi_prio_store c b =
     [EScreen (screen map_button_info (intro_frame (c 0) b)),
      EScreen (screen map_menu (menu_frame (c 1) b)),
      EScreen (screen (\<lambda>_. Some FCancelled) (frame_new (c 2)))]"

datatype show_tutorial = ST_StepWelcome | ST_StepBegin | ST_StepNavigation | ST_StepMenu | ST_StepHold
  | ST_StepDone | ST_Menu | ST_DidYouKnow | ST_HoldToExit

definition show_tutorial_logic :: "show_tutorial flow_logic" where
  "show_tutorial_logic =
     \<lparr>q_index = (\<lambda>s. case s of ST_StepWelcome \<Rightarrow> 0 | ST_StepBegin \<Rightarrow> 1 | ST_StepNavigation \<Rightarrow> 2 | ST_StepMenu \<Rightarrow> 3
        | ST_StepHold \<Rightarrow> 4 | ST_StepDone \<Rightarrow> 5 | ST_Menu \<Rightarrow> 6 | ST_DidYouKnow \<Rightarrow> 7 | ST_HoldToExit \<Rightarrow> 8),
      handle_swipe = (\<lambda>s d. case (s, d) of
          (ST_StepBegin, SwipeUp) \<Rightarrow> DGoto ST_StepNavigation d
        | (ST_StepNavigation, SwipeUp) \<Rightarrow> DGoto ST_StepMenu d
        | (ST_StepNavigation, SwipeDown) \<Rightarrow> DGoto ST_StepBegin d
        | (ST_StepMenu, SwipeUp) \<Rightarrow> DGoto ST_StepHold d
        | (ST_StepMenu, SwipeDown) \<Rightarrow> DGoto ST_StepNavigation d
        | (ST_StepMenu, SwipeLeft) \<Rightarrow> DGoto ST_Menu d
        | (ST_Menu, SwipeLeft) \<Rightarrow> DGoto ST_DidYouKnow d
        | (ST_Menu, SwipeRight) \<Rightarrow> DGoto ST_StepBegin d
        | (ST_DidYouKnow, SwipeRight) \<Rightarrow> DGoto ST_Menu d
        | (ST_StepDone, SwipeUp) \<Rightarrow> DReturn FConfirmed
        | _ \<Rightarrow> DNothing),
      handle_event = (\<lambda>s m. case (s, m) of
          (ST_StepWelcome, FConfirmed) \<Rightarrow> DGoto ST_StepBegin SwipeUp
        | (ST_StepMenu, FInfo) \<Rightarrow> DGoto ST_Menu SwipeLeft
        | (ST_Menu, FChoice i) \<Rightarrow>
            (if i = 0 then DGoto ST_DidYouKnow SwipeLeft
             else if i = 1 then DGoto ST_StepBegin SwipeRight
             else if i = 2 then DGoto ST_HoldToExit SwipeUp else DNothing)
        | (ST_Menu, FCancelled) \<Rightarrow> DGoto ST_StepMenu SwipeRight
        | (ST_DidYouKnow, FCancelled) \<Rightarrow> DGoto ST_Menu SwipeRight
        | (ST_StepHold, FConfirmed) \<Rightarrow> DGoto ST_StepDone SwipeUp
        | (ST_HoldToExit, FConfirmed) \<Rightarrow> DGoto ST_StepDone SwipeUp
        | _ \<Rightarrow> DNothing)\<rparr>"

definition show_tutorial_store :: "(nat \<Rightarrow> 'c) \<Rightarrow> 'b \<Rightarrow> ('c, 'b, 'o) flow_element list" where
  "show_tutorial_store c b =
     [EScreen (screen map_content_confirmed (frame_new (c 0))),
      EScreen (screen (\<lambda>_. None) (with_swipe SwipeUp settings_default (frame_new (c 1)))),
      EScreen (screen (\<lambda>_. None) (with_swipe SwipeDown settings_default (with_swipe SwipeUp settings_default (frame_new (c 2))))),
      EScreen (screen map_button_info (with_swipe SwipeDown settings_default (with_swipe SwipeUp settings_default
        (with_menu_button b (frame_new (c 3)))))),
      EScreen (screen map_content_confirmed (frame_new (c 4))),
      EScreen (screen (\<lambda>_. None) (with_swipe SwipeUp settings_default (frame_new (c 5)))),
      EScreen (screen map_menu (with_swipe SwipeLeft settings_immediate (menu_frame (c 6) b))),
      EScreen (screen map_button_cancelled (menu_frame (c 7) b)),
      EScreen (screen map_content_confirmed (frame_new (c 8)))]"

end
