(* ===== verification/Flow_Safety.thy ===== *)
theory Flow_Safety
  imports Mercury_Flows
begin

section \<open>What a flow of model mercury returns\<close>

text \<open>
  The engine of \<open>Flow\<close> run on the flows of \<open>Mercury_Flows\<close>: the states it can reach, that it never stops,
  and which actions of the user a confirmation needs.
\<close>

subsection \<open>What events leave unchanged in a store\<close>

text \<open>The view of a screen that its events keep: how its messages are mapped and which swipes it allows.\<close>

type_synonym screen_view = "(content_msg frame_msg \<Rightarrow> flow_msg option) \<times> swipe_config"

fun view :: "('c, 'b, 'o) flow_element \<Rightarrow> screen_view option" where
  "view (EScreen s) = Some (scr_map s, fr_swipe (scr_frame s))"
| "view _ = None"

lemma frame_event_swipe:
  "frame_event cev bev ctx e f = (m, ctx', f') \<Longrightarrow> fr_swipe f' = fr_swipe f"
  by (auto simp: frame_event_def frame_progress_def Let_def
      split: prod.splits option.splits event.splits swipe_event.splits if_splits)

lemma screen_event_view:
  assumes "screen_event cev bev ctx e s = (m, ctx', s')"
  shows "scr_map s' = scr_map s \<and> fr_swipe (scr_frame s') = fr_swipe (scr_frame s)"
  using assms
  by (auto simp: screen_event_def one_button_request_event_def msg_map_event_def Let_def
      split: prod.splits event.splits option.splits dest: frame_event_swipe)

lemma keeps_view: "keeps (mercury_ops M) view"
  by (auto simp: keeps_def mercury_ops_def split: flow_element.splits prod.splits dest: screen_event_view)

text \<open>
  The content of a frame says something when it is handed the event.  Every message of a framed screen
  is the image of a message of its frame, which comes from its content or from its button.
\<close>

definition content_says :: "('c, 'b, 'o) mercury_env \<Rightarrow> event \<Rightarrow> content_msg \<Rightarrow> 'c \<Rightarrow> bool" where
  "content_says M e x c \<longleftrightarrow> (\<exists>e' ctx ctx' c'. passed_on e e' \<and> me_content M ctx e' c = (Some x, ctx', c'))"

fun frame_says :: "('c, 'b, 'o) mercury_env \<Rightarrow> event \<Rightarrow> content_msg frame_msg \<Rightarrow> ('c, 'b) frame \<Rightarrow> bool" where
  "frame_says M e (FrameContent x) f = content_says M e x (fr_content f)"
| "frame_says M e (FrameButton b) f = (b = button_msg f \<and> fr_button f \<noteq> None)"

lemma frame_progress_frame [simp]:
  "fr_content (frame_progress e f) = fr_content f" "fr_button (frame_progress e f) = fr_button f"
  "button_msg (frame_progress e f) = button_msg f"
  by (simp_all add: frame_progress_def split: event.splits swipe_event.splits)

lemma frame_event_says:
  assumes "frame_event (me_content M) (me_button M) ctx e' f = (Some fm, ctx', f')" "passed_on e e'"
  shows "frame_says M e fm f"
  using assms
  by (auto simp: frame_event_def option_event_def content_says_def Let_def
      split: prod.splits option.splits) blast+

lemma screen_emits_screen:
  assumes "screen_emits (mercury_ops M) e (EScreen s) m"
  shows "\<exists>fm. scr_map s fm = Some m \<and> frame_says M e fm (scr_frame s)"
proof -
  from assms obtain e' ctx ctx' s' where p: "passed_on e e'"
    and s: "screen_event (me_content M) (me_button M) ctx e' s = (Some m, ctx', s')"
    by (auto simp: screen_emits_def mercury_ops_def split: prod.splits) (metis prod_cases3)
  from s obtain ctx1 fm ctx2 f' where
    "frame_event (me_content M) (me_button M) ctx1 e' (scr_frame s) = (Some fm, ctx2, f')" "scr_map s fm = Some m"
    by (auto simp: screen_event_def one_button_request_event_def msg_map_event_def Let_def bind_eq_Some_conv
        split: prod.splits event.splits option.splits)
  then show ?thesis
    using frame_event_says [OF _ p] by blast
qed

lemma screen_emits_other:
  "\<not> screen_emits (mercury_ops M) e (EWords w) m"
  "screen_emits (mercury_ops M) e (EDetails d) m \<Longrightarrow> m = FCancelled"
  by (auto simp: screen_emits_def mercury_ops_def msg_map_event_def Let_def bind_eq_Some_conv
      split: prod.splits)

subsection \<open>Reachable states\<close>

text \<open>
  A flow runs until it returns a message.  The environment, that is the clock and what the contents and
  buttons of the screens do, may be another one at every event.
\<close>

inductive mercury_reachable ::
  "'q flow_logic \<Rightarrow> ('q, ('c, 'b, 'o) flow_element) swipe_flow \<Rightarrow> ('q, ('c, 'b, 'o) flow_element) swipe_flow \<Rightarrow> bool"
  for L f0 where
  start: "mercury_reachable L f0 f0"
| step: "mercury_reachable L f0 f \<Longrightarrow>
    flow_event U L (mercury_ops M) ctx e f = (Inr (None, ctx', f') :: (_, unit) result) \<Longrightarrow>
    mercury_reachable L f0 f'"

definition fits :: "'q flow_logic \<Rightarrow> 'c list \<Rightarrow> bool" where
  "fits L store \<longleftrightarrow> (\<forall>q. q_index L q < length store)"

lemma flow_new_inv: "fits L store \<Longrightarrow> flow_inv L (flow_new q store)"
  by (simp add: flow_inv_def flow_new_def fits_def)

lemma mercury_step:
  assumes "flow_inv L f" "flow_event U L (mercury_ops M) ctx e f = (Inr (r, ctx', f') :: (_, 'e) result)"
  shows "flow_inv L f' \<and> followed U L (mercury_ops M) ctx e f r f' \<and> map view (fl_store f') = map view (fl_store f)"
proof -
  have "returns (flow_event U L (mercury_ops M) ctx e f :: (_, 'e) result) (\<lambda>(r, ctx', f').
      flow_inv L f' \<and> followed U L (mercury_ops M) ctx e f r f' \<and> map view (fl_store f') = map view (fl_store f))"
    by (rule flow_event_returns [OF assms(1) keeps_view])
  then show ?thesis
    by (simp add: assms(2))
qed

lemma mercury_reachable_inv:
  assumes "mercury_reachable L f0 f" "flow_inv L f0"
  shows "flow_inv L f \<and> map view (fl_store f) = map view (fl_store f0)"
  using assms
proof (induction rule: mercury_reachable.induct)
  case (step f U M ctx e ctx' f')
  then show ?case
    using mercury_step [of L f U M ctx e None ctx' f'] by metis
qed simp

subsection \<open>Confirmation by a prompt\<close>

text \<open>
  The contract of a flow that is confirmed on one screen: no swipe confirms, only the message
  \<open>Confirmed\<close> in one state does, and the screen of that state sends this message only when its content,
  the prompt, is done.
\<close>

locale prompt_flow =
  fixes L :: "'q flow_logic" and store :: "('c, 'b, 'o) flow_element list" and prompt :: 'q
  assumes store_fits: "fits L store"
    and swipe_never: "handle_swipe L q d \<noteq> DReturn FConfirmed"
    and event_prompt: "handle_event L q m = DReturn FConfirmed \<Longrightarrow> q = prompt \<and> m = FConfirmed"
    and prompt_screen: "\<exists>g c. view (store ! q_index L prompt) = Some (g, c) \<and>
      (\<forall>fm. g fm = Some FConfirmed \<longrightarrow> (\<exists>x. fm = FrameContent x))"
begin

lemma confirmed_by_prompt:
  assumes "mercury_reachable L (flow_new q store) f"
    and "flow_event U L (mercury_ops M) ctx e f = (Inr (Some FConfirmed, ctx', f') :: (_, unit) result)"
  shows "fl_state f = prompt \<and>
    (\<exists>s x. current_screen L f = EScreen s \<and> content_says M e x (fr_content (scr_frame s)))"
proof -
  have inv: "flow_inv L f" and v: "map view (fl_store f) = map view store"
    using mercury_reachable_inv [OF assms(1) flow_new_inv [OF store_fits]] by (simp_all add: flow_new_def)
  have "followed U L (mercury_ops M) ctx e f (Some FConfirmed) f'"
    using mercury_step [OF inv assms(2)] by simp
  then obtain m where m: "screen_emits (mercury_ops M) e (current_screen L f) m"
    "handle_event L (fl_state f) m = DReturn FConfirmed"
    using swipe_never by (auto simp: followed_def)
  then have p: "fl_state f = prompt" "m = FConfirmed"
    using event_prompt by blast+
  have i: "q_index L prompt < length store" "length (fl_store f) = length store"
    using store_fits v by (auto simp: fits_def dest: map_eq_imp_length_eq)
  then have "view (current_screen L f) = view (store ! q_index L prompt)"
    using v p(1) by (metis current_screen_def nth_map)
  then obtain s where s: "current_screen L f = EScreen s"
    "\<forall>fm. scr_map s fm = Some FConfirmed \<longrightarrow> (\<exists>x. fm = FrameContent x)"
    using prompt_screen by (cases "current_screen L f") auto
  then obtain fm where fm: "scr_map s fm = Some FConfirmed" "frame_says M e fm (scr_frame s)"
    using screen_emits_screen m(1) p(2) by metis
  then obtain x where "fm = FrameContent x"
    using s(2) by blast
  then show ?thesis
    using fm(2) p(1) s(1) by auto
qed

end

lemmas flow_logic_simps = confirm_action_logic_def confirm_action_simple_logic_def confirm_output_logic_def
  confirm_summary_logic_def confirm_reset_create_logic_def confirm_reset_recover_logic_def set_new_pin_logic_def
  prompt_backup_logic_def show_share_words_logic_def get_address_logic_def request_number_logic_def
  warning_hi_prio_logic_def show_tutorial_logic_def

lemmas flow_store_simps = confirm_action_store_def confirm_action_simple_store_def confirm_output_store_def
  confirm_summary_store_def confirm_reset_create_store_def confirm_reset_recover_store_def set_new_pin_store_def
  prompt_backup_store_def show_share_words_store_def get_address_store_def request_number_store_def
  warning_hi_prio_store_def show_tutorial_store_def

lemmas screen_simps = screen_def one_button_request_def with_pages_def action_intro_def blob_screen_def info_screen_def

lemma map_prompt_info_confirmed: "map_prompt_info fm = Some FConfirmed \<Longrightarrow> \<exists>x. fm = FrameContent x"
  by (cases fm) auto

interpretation action: prompt_flow confirm_action_logic "confirm_action_store c b" CA_Confirm for c b
  by unfold_locales
    (auto simp: fits_def flow_logic_simps flow_store_simps screen_simps map_prompt_info_confirmed
      split: confirm_action.splits swipe_direction.splits flow_msg.splits if_splits)

interpretation signing: prompt_flow confirm_summary_logic "confirm_summary_store r c b" CS_Hold for r c b
  by unfold_locales
    (auto simp: fits_def flow_logic_simps flow_store_simps screen_simps map_prompt_info_confirmed
      split: confirm_summary.splits swipe_direction.splits flow_msg.splits if_splits)

interpretation create: prompt_flow confirm_reset_create_logic "confirm_reset_create_store r r' c b" RC_Confirm for r r' c b
  by unfold_locales
    (auto simp: fits_def flow_logic_simps flow_store_simps screen_simps map_prompt_info_confirmed
      split: confirm_reset_create.splits swipe_direction.splits flow_msg.splits if_splits)

definition confirms ::
  "swipe_env \<Rightarrow> 'q flow_logic \<Rightarrow> ('c, 'b, 'o) mercury_env \<Rightarrow> event_ctx \<Rightarrow> event \<Rightarrow>
     ('q, ('c, 'b, 'o) flow_element) swipe_flow \<Rightarrow> bool" where
  "confirms U L M ctx e f \<longleftrightarrow>
     (\<exists>ctx' f'. flow_event U L (mercury_ops M) ctx e f = (Inr (Some FConfirmed, ctx', f') :: (_, unit) result))"

definition prompt_done ::
  "'q flow_logic \<Rightarrow> ('c, 'b, 'o) mercury_env \<Rightarrow> event \<Rightarrow> 'q \<Rightarrow> ('q, ('c, 'b, 'o) flow_element) swipe_flow \<Rightarrow> bool" where
  "prompt_done L M e q f \<longleftrightarrow> fl_state f = q \<and>
     (\<exists>s x. current_screen L f = EScreen s \<and> content_says M e x (fr_content (scr_frame s)))"

text \<open>
  C4.  The user has to confirm.  The flow that signs a transaction returns \<open>Confirmed\<close> only in the state
  \<open>Hold\<close>, and only when at that very event the content of its screen, the hold-to-confirm prompt, reports
  that it is done; so do the flow that creates a wallet in its state \<open>Confirm\<close> and the flow that confirms
  an action with a prompt.  No swipe, no button and no earlier screen confirms.
\<close>

theorem confirmation_needs_prompt:
  "(mercury_reachable confirm_summary_logic (flow_new CS_Summary (confirm_summary_store r c b)) f1 \<and>
      confirms U confirm_summary_logic M ctx e f1 \<longrightarrow> prompt_done confirm_summary_logic M e CS_Hold f1) \<and>
   (mercury_reachable confirm_reset_create_logic (flow_new RC_Intro (confirm_reset_create_store r r' c b)) f2 \<and>
      confirms U confirm_reset_create_logic M ctx e f2 \<longrightarrow> prompt_done confirm_reset_create_logic M e RC_Confirm f2) \<and>
   (mercury_reachable confirm_action_logic (flow_new CA_Intro (confirm_action_store c b)) f3 \<and>
      confirms U confirm_action_logic M ctx e f3 \<longrightarrow> prompt_done confirm_action_logic M e CA_Confirm f3)"
  unfolding confirms_def prompt_done_def
  by (intro conjI [of "_ \<longrightarrow> _"] impI; elim conjE exE;
      rule signing.confirmed_by_prompt create.confirmed_by_prompt action.confirmed_by_prompt; assumption)

text \<open>An environment whose contents are done when a touch ends, and a user who swipes up and then taps.\<close>

definition example_mercury :: "(unit, unit, unit) mercury_env" where
  "example_mercury =
     \<lparr>me_anim = \<lparr>wrap_ctx = (\<lambda>e ctx. ctx), touch_blocked = False\<rparr>,
      me_content = (\<lambda>ctx e c. (case e of Touch (TouchEnd p) \<Rightarrow> Some CDone | _ \<Rightarrow> None, ctx, c)),
      me_button = (\<lambda>ctx e b. (None, ctx, b)), me_details = (\<lambda>ctx e d. (None, ctx, d)),
      me_details_config = (\<lambda>d. config_new), me_details_pages = (\<lambda>d. 1)\<rparr>"

definition example_next ::
  "'q flow_logic \<Rightarrow> u32 \<Rightarrow> event \<Rightarrow> ('q, (unit, unit, unit) flow_element) swipe_flow \<Rightarrow>
     ('q, (unit, unit, unit) flow_element) swipe_flow" where
  "example_next L t e f =
     (case (flow_event (example_swipe t) L (mercury_ops example_mercury) ctx_new e f :: (_, unit) result) of
        Inr (None, _, f') \<Rightarrow> f' | _ \<Rightarrow> f)"

definition example_swipe_up ::
  "'q flow_logic \<Rightarrow> ('q, (unit, unit, unit) flow_element) swipe_flow \<Rightarrow> ('q, (unit, unit, unit) flow_element) swipe_flow" where
  "example_swipe_up L f =
     (let f = example_next L 5 (Touch (TouchStart (point_new 60 200))) f;
          f = example_next L 5 (Touch (TouchMove (point_new 60 150))) f;
          f = example_next L 5 (Touch (TouchEnd (point_new 60 100))) f in
      example_next L 500 (Timer ANIM_FRAME_TIMER) f)"

lemma example_next_reachable: "mercury_reachable L f0 f \<Longrightarrow> mercury_reachable L f0 (example_next L t e f)"
  by (auto simp: example_next_def split: sum.split option.split intro: mercury_reachable.step)

lemma example_swipe_up_reachable: "mercury_reachable L f0 f \<Longrightarrow> mercury_reachable L f0 (example_swipe_up L f)"
  by (simp add: example_swipe_up_def Let_def example_next_reachable)

definition example_signing :: "(confirm_summary, (unit, unit, unit) flow_element) swipe_flow" where
  "example_signing = flow_new CS_Summary (confirm_summary_store (8, []) (\<lambda>_. ()) ())"

definition example_hold :: "(confirm_summary, (unit, unit, unit) flow_element) swipe_flow" where
  "example_hold = example_swipe_up confirm_summary_logic example_signing"

lemma example_hold_confirms:
  "confirms (example_swipe 900) confirm_summary_logic example_mercury ctx_new (Touch (TouchEnd (point_new 60 100))) example_hold"
proof -
  let ?r = "flow_event (example_swipe 900) confirm_summary_logic (mercury_ops example_mercury) ctx_new
     (Touch (TouchEnd (point_new 60 100))) example_hold :: (_, unit) result"
  have "case ?r of Inr (m, _, _) \<Rightarrow> m = Some FConfirmed | _ \<Rightarrow> False"
    by code_simp
  then show ?thesis
    by (auto simp: confirms_def split: sum.splits)
qed

theorem confirmation_needs_prompt_witness:
  "mercury_reachable confirm_summary_logic example_signing example_hold \<and>
   confirms (example_swipe 900) confirm_summary_logic example_mercury ctx_new (Touch (TouchEnd (point_new 60 100))) example_hold \<and>
   prompt_done confirm_summary_logic example_mercury (Touch (TouchEnd (point_new 60 100))) CS_Hold example_hold"
proof -
  have r: "mercury_reachable confirm_summary_logic example_signing example_hold"
    unfolding example_hold_def by (rule example_swipe_up_reachable) (rule mercury_reachable.start)
  then show ?thesis
    using confirmation_needs_prompt example_hold_confirms unfolding example_signing_def by metis
qed

subsection \<open>Flows never stop and can always be left\<close>

text \<open>
  C26.  Every flow is put together right: each of its states has its screen in the store, and whatever
  the event, the clock and the contents of the screens do, the engine handles it without a panic, keeps
  the screens with their swipes and messages, and the pending decision is always a transition.
\<close>

theorem flows_fit_their_stores:
  "(fits L store \<and> mercury_reachable L (flow_new q store) f \<longrightarrow>
     (\<exists>r ctx' f'. flow_event U L (mercury_ops M) ctx e f = (Inr (r, ctx', f') :: (_, unit) result) \<and>
        flow_inv L f' \<and> map view (fl_store f') = map view store)) \<and>
   fits confirm_action_logic (confirm_action_store c b) \<and>
   fits confirm_action_simple_logic (confirm_action_simple_store c b) \<and>
   fits confirm_output_logic (confirm_output_store rq c b d) \<and>
   fits confirm_summary_logic (confirm_summary_store rq c b) \<and>
   fits confirm_reset_create_logic (confirm_reset_create_store rq rq' c b) \<and>
   fits confirm_reset_recover_logic (confirm_reset_recover_store rq c b) \<and>
   fits set_new_pin_logic (set_new_pin_store c b) \<and>
   fits prompt_backup_logic (prompt_backup_store c b) \<and>
   fits show_share_words_logic (show_share_words_store rq ws h c) \<and>
   fits get_address_logic (get_address_store rq c b d) \<and>
   fits request_number_logic (request_number_store rq c b) \<and>
   fits warning_hi_prio_logic (warning_hi_prio_store c b) \<and>
   fits show_tutorial_logic (show_tutorial_store c b)"
proof (intro conjI)
  show "fits L store \<and> mercury_reachable L (flow_new q store) f \<longrightarrow>
     (\<exists>r ctx' f'. flow_event U L (mercury_ops M) ctx e f = (Inr (r, ctx', f') :: (_, unit) result) \<and>
        flow_inv L f' \<and> map view (fl_store f') = map view store)"
  proof
    assume "fits L store \<and> mercury_reachable L (flow_new q store) f"
    then have "flow_inv L f" "map view (fl_store f) = map view store"
      using mercury_reachable_inv [of L "flow_new q store" f] flow_new_inv [of L store q] by (simp_all add: flow_new_def)
    then show "\<exists>r ctx' f'. flow_event U L (mercury_ops M) ctx e f = (Inr (r, ctx', f') :: (_, unit) result) \<and>
        flow_inv L f' \<and> map view (fl_store f') = map view store"
      using flow_event_returns [of L f "mercury_ops M" view U ctx e, where 'd = unit]
      by (auto simp: returns_iff keeps_view)
  qed
qed (simp_all add: fits_def flow_logic_simps flow_store_simps split: confirm_action.split confirm_action_simple.split
    confirm_output.split confirm_summary.split confirm_reset_create.split confirm_reset_recover.split set_new_pin.split
    prompt_backup.split show_share_words.split get_address.split request_number.split warning_hi_prio.split
    show_tutorial.split)

theorem flows_fit_their_stores_witness:
  "mercury_reachable confirm_summary_logic example_signing example_hold \<and>
   (\<exists>r ctx' f'. flow_event (example_swipe 900) confirm_summary_logic (mercury_ops example_mercury) ctx_new
      (Touch TouchAbort) example_hold = (Inr (r, ctx', f') :: (_, unit) result) \<and> flow_inv confirm_summary_logic f')"
proof -
  have r: "mercury_reachable confirm_summary_logic example_signing example_hold"
    unfolding example_hold_def by (rule example_swipe_up_reachable) (rule mercury_reachable.start)
  have "fits confirm_summary_logic (confirm_summary_store (8, []) (\<lambda>_. ()) () :: (unit, unit, unit) flow_element list)"
    by (rule signing.store_fits)
  with r show ?thesis
    using flows_fit_their_stores [where L = confirm_summary_logic and f = example_hold and q = CS_Summary
        and store = "confirm_summary_store (8, []) (\<lambda>_. ()) ()" and U = "example_swipe 900" and M = example_mercury
        and ctx = ctx_new and e = "Touch TouchAbort", THEN conjunct1]
    unfolding example_signing_def by blast
qed

text \<open>
  What a user can make a screen do: swipe in a direction it allows, tap its button, or let its content
  send a message.
\<close>

fun can_swipe :: "('c, 'b, 'o) flow_element \<Rightarrow> swipe_direction \<Rightarrow> bool" where
  "can_swipe (EScreen s) d = is_allowed (fr_swipe (scr_frame s)) d"
| "can_swipe (EWords w) d = is_allowed (fr_swipe (ws_frame w)) d"
| "can_swipe (EDetails _) d = False"

fun can_say :: "('c, 'b, 'o) flow_element \<Rightarrow> flow_msg \<Rightarrow> bool" where
  "can_say (EScreen s) m \<longleftrightarrow> (\<exists>fm. scr_map s fm = Some m \<and>
     (\<forall>b. fm = FrameButton b \<longrightarrow> fr_button (scr_frame s) \<noteq> None \<and> b = button_msg (scr_frame s)))"
| "can_say (EWords w) m \<longleftrightarrow> False"
| "can_say (EDetails _) m \<longleftrightarrow> m = FCancelled"

inductive can_leave :: "'q flow_logic \<Rightarrow> ('c, 'b, 'o) flow_element list \<Rightarrow> 'q \<Rightarrow> bool" for L store where
  swipe_out: "can_swipe (store ! q_index L q) d \<Longrightarrow> handle_swipe L q d = DReturn m \<Longrightarrow> can_leave L store q"
| say_out: "can_say (store ! q_index L q) m' \<Longrightarrow> handle_event L q m' = DReturn m \<Longrightarrow> can_leave L store q"
| swipe_on: "can_swipe (store ! q_index L q) d \<Longrightarrow> handle_swipe L q d = DGoto q' d' \<Longrightarrow> can_leave L store q' \<Longrightarrow> can_leave L store q"
| say_on: "can_say (store ! q_index L q) m' \<Longrightarrow> handle_event L q m' = DGoto q' d' \<Longrightarrow> can_leave L store q' \<Longrightarrow> can_leave L store q"

lemmas frame_simps = frame_new_def with_cancel_button_def with_menu_button_def with_swipe_def with_vertical_pages_def
  config_with_vertical_pages_def config_with_swipe_def config_new_def is_allowed_def config_index_def
  menu_frame_def prompt_frame_def intro_frame_def skip_intro_frame_def skip_confirm_frame_def blob_frame_def
  info_frame_def words_screen_new_def

lemmas leave_simps = flow_logic_simps flow_store_simps screen_simps frame_simps

fun returns_msg :: "'q decision \<Rightarrow> bool" where
  "returns_msg (DReturn m) = True"
| "returns_msg _ = False"

fun goes_to :: "'q decision \<Rightarrow> 'q \<Rightarrow> bool" where
  "goes_to (DGoto q d) q' = (q = q')"
| "goes_to _ q' = False"

definition content_decision ::
  "'q flow_logic \<Rightarrow> ('c, 'b, 'o) flow_element list \<Rightarrow> 'q \<Rightarrow> content_msg \<Rightarrow> 'q decision" where
  "content_decision L store q x = (case store ! q_index L q of
      EScreen s \<Rightarrow> (case scr_map s (FrameContent x) of Some m \<Rightarrow> handle_event L q m | None \<Rightarrow> DNothing)
    | _ \<Rightarrow> DNothing)"

lemma content_decision_said:
  assumes "content_decision L store q x = d" "d \<noteq> DNothing"
  shows "\<exists>m. can_say (store ! q_index L q) m \<and> handle_event L q m = d"
proof -
  obtain s m where "store ! q_index L q = EScreen s" "scr_map s (FrameContent x) = Some m" "handle_event L q m = d"
    using assms by (auto simp: content_decision_def split: flow_element.splits option.splits)
  then show ?thesis
    by (intro exI [of _ m]) auto
qed

lemma leave_by_content: "returns_msg (content_decision L store q x) \<Longrightarrow> can_leave L store q"
  using content_decision_said [OF refl, of L store q x]
  by (cases "content_decision L store q x") (auto intro: say_out)

lemma go_by_content: "can_leave L store q' \<Longrightarrow> goes_to (content_decision L store q x) q' \<Longrightarrow> can_leave L store q"
  using content_decision_said [OF refl, of L store q x]
  by (cases "content_decision L store q x") (auto intro: say_on)

lemma leave_by_swipe: "can_swipe (store ! q_index L q) d \<and> returns_msg (handle_swipe L q d) \<Longrightarrow> can_leave L store q"
  by (cases "handle_swipe L q d") (auto intro: swipe_out)

lemma go_by_swipe:
  "can_leave L store q' \<Longrightarrow> can_swipe (store ! q_index L q) d \<and> goes_to (handle_swipe L q d) q' \<Longrightarrow> can_leave L store q"
  by (cases "handle_swipe L q d") (auto intro: swipe_on)

lemma go_from_details:
  "can_leave L store q' \<Longrightarrow> can_say (store ! q_index L q) FCancelled \<and> goes_to (handle_event L q FCancelled) q' \<Longrightarrow>
    can_leave L store q"
  by (cases "handle_event L q FCancelled") (auto intro: say_on)

lemma leave_confirm_action: "can_leave confirm_action_logic (confirm_action_store c b :: ('c, 'b, 'o) flow_element list) q"
proof -
  let ?ok = "can_leave confirm_action_logic (confirm_action_store c b :: ('c, 'b, 'o) flow_element list)"
  have ca_menu: "?ok CA_Menu" by (rule leave_by_content [where x = "CSelected 0"]) (simp add: leave_simps content_decision_def)
  have ca_intro: "?ok CA_Intro" by (rule go_by_swipe [where d = SwipeLeft, OF ca_menu]) (simp add: leave_simps content_decision_def)
  have ca_confirm: "?ok CA_Confirm" by (rule go_by_swipe [where d = SwipeLeft, OF ca_menu]) (simp add: leave_simps content_decision_def)
  show ?thesis by (cases q) (simp_all add: ca_menu ca_intro ca_confirm)
qed

lemma leave_confirm_action_simple: "can_leave confirm_action_simple_logic (confirm_action_simple_store c b :: ('c, 'b, 'o) flow_element list) q"
proof -
  let ?ok = "can_leave confirm_action_simple_logic (confirm_action_simple_store c b :: ('c, 'b, 'o) flow_element list)"
  have cas_menu: "?ok CAS_Menu" by (rule leave_by_content [where x = "CSelected 0"]) (simp add: leave_simps content_decision_def)
  have cas_intro: "?ok CAS_Intro" by (rule leave_by_swipe [where d = SwipeUp]) (simp add: leave_simps content_decision_def)
  show ?thesis by (cases q) (simp_all add: cas_menu cas_intro)
qed

lemma leave_confirm_output: "can_leave confirm_output_logic (confirm_output_store rq c b d :: ('c, 'b, 'o) flow_element list) q"
proof -
  let ?ok = "can_leave confirm_output_logic (confirm_output_store rq c b d :: ('c, 'b, 'o) flow_element list)"
  have co_amount: "?ok CO_Amount" by (rule leave_by_swipe [where d = SwipeUp]) (simp add: leave_simps content_decision_def)
  have co_address: "?ok CO_Address" by (rule go_by_swipe [where d = SwipeUp, OF co_amount]) (simp add: leave_simps content_decision_def)
  have co_menu: "?ok CO_Menu" by (rule go_by_swipe [where d = SwipeRight, OF co_address]) (simp add: leave_simps content_decision_def)
  have co_accountinfo: "?ok CO_AccountInfo" by (rule go_from_details [OF co_menu]) (simp add: leave_simps content_decision_def)
  have co_canceltap: "?ok CO_CancelTap" by (rule leave_by_content [where x = CDone]) (simp add: leave_simps content_decision_def)
  show ?thesis by (cases q) (simp_all add: co_amount co_address co_menu co_accountinfo co_canceltap)
qed

lemma leave_confirm_summary: "can_leave confirm_summary_logic (confirm_summary_store rq c b :: ('c, 'b, 'o) flow_element list) q"
proof -
  let ?ok = "can_leave confirm_summary_logic (confirm_summary_store rq c b :: ('c, 'b, 'o) flow_element list)"
  have cs_hold: "?ok CS_Hold" by (rule leave_by_content [where x = CDone]) (simp add: leave_simps content_decision_def)
  have cs_summary: "?ok CS_Summary" by (rule go_by_swipe [where d = SwipeUp, OF cs_hold]) (simp add: leave_simps content_decision_def)
  have cs_menu: "?ok CS_Menu" by (rule go_by_swipe [where d = SwipeRight, OF cs_summary]) (simp add: leave_simps content_decision_def)
  have cs_feeinfo: "?ok CS_FeeInfo" by (rule go_by_swipe [where d = SwipeRight, OF cs_menu]) (simp add: leave_simps content_decision_def)
  have cs_accountinfo: "?ok CS_AccountInfo" by (rule go_by_swipe [where d = SwipeRight, OF cs_menu]) (simp add: leave_simps content_decision_def)
  have cs_canceltap: "?ok CS_CancelTap" by (rule leave_by_content [where x = CDone]) (simp add: leave_simps content_decision_def)
  show ?thesis by (cases q) (simp_all add: cs_hold cs_summary cs_menu cs_feeinfo cs_accountinfo cs_canceltap)
qed

lemma leave_confirm_reset_create: "can_leave confirm_reset_create_logic (confirm_reset_create_store rq rq' c b :: ('c, 'b, 'o) flow_element list) q"
proof -
  let ?ok = "can_leave confirm_reset_create_logic (confirm_reset_create_store rq rq' c b :: ('c, 'b, 'o) flow_element list)"
  have rc_menu: "?ok RC_Menu" by (rule leave_by_content [where x = "CSelected 0"]) (simp add: leave_simps content_decision_def)
  have rc_intro: "?ok RC_Intro" by (rule go_by_swipe [where d = SwipeLeft, OF rc_menu]) (simp add: leave_simps content_decision_def)
  have rc_confirm: "?ok RC_Confirm" by (rule go_by_swipe [where d = SwipeLeft, OF rc_menu]) (simp add: leave_simps content_decision_def)
  show ?thesis by (cases q) (simp_all add: rc_menu rc_intro rc_confirm)
qed

lemma leave_confirm_reset_recover: "can_leave confirm_reset_recover_logic (confirm_reset_recover_store rq c b :: ('c, 'b, 'o) flow_element list) q"
proof -
  let ?ok = "can_leave confirm_reset_recover_logic (confirm_reset_recover_store rq c b :: ('c, 'b, 'o) flow_element list)"
  have rr_menu: "?ok RR_Menu" by (rule leave_by_content [where x = "CSelected 0"]) (simp add: leave_simps content_decision_def)
  have rr_intro: "?ok RR_Intro" by (rule leave_by_swipe [where d = SwipeUp]) (simp add: leave_simps content_decision_def)
  show ?thesis by (cases q) (simp_all add: rr_menu rr_intro)
qed

lemma leave_set_new_pin: "can_leave set_new_pin_logic (set_new_pin_store c b :: ('c, 'b, 'o) flow_element list) q"
proof -
  let ?ok = "can_leave set_new_pin_logic (set_new_pin_store c b :: ('c, 'b, 'o) flow_element list)"
  have np_intro: "?ok NP_Intro" by (rule leave_by_swipe [where d = SwipeUp]) (simp add: leave_simps content_decision_def)
  have np_menu: "?ok NP_Menu" by (rule go_by_swipe [where d = SwipeRight, OF np_intro]) (simp add: leave_simps content_decision_def)
  have np_cancelpinintro: "?ok NP_CancelPinIntro" by (rule go_by_swipe [where d = SwipeRight, OF np_intro]) (simp add: leave_simps content_decision_def)
  have np_cancelpinconfirm: "?ok NP_CancelPinConfirm" by (rule go_by_swipe [where d = SwipeRight, OF np_intro]) (simp add: leave_simps content_decision_def)
  show ?thesis by (cases q) (simp_all add: np_intro np_menu np_cancelpinintro np_cancelpinconfirm)
qed

lemma leave_prompt_backup: "can_leave prompt_backup_logic (prompt_backup_store c b :: ('c, 'b, 'o) flow_element list) q"
proof -
  let ?ok = "can_leave prompt_backup_logic (prompt_backup_store c b :: ('c, 'b, 'o) flow_element list)"
  have pb_intro: "?ok PB_Intro" by (rule leave_by_swipe [where d = SwipeUp]) (simp add: leave_simps content_decision_def)
  have pb_menu: "?ok PB_Menu" by (rule go_by_swipe [where d = SwipeRight, OF pb_intro]) (simp add: leave_simps content_decision_def)
  have pb_skipbackupintro: "?ok PB_SkipBackupIntro" by (rule go_by_swipe [where d = SwipeRight, OF pb_intro]) (simp add: leave_simps content_decision_def)
  have pb_skipbackupconfirm: "?ok PB_SkipBackupConfirm" by (rule go_by_swipe [where d = SwipeRight, OF pb_intro]) (simp add: leave_simps content_decision_def)
  show ?thesis by (cases q) (simp_all add: pb_intro pb_menu pb_skipbackupintro pb_skipbackupconfirm)
qed

lemma leave_show_share_words: "can_leave show_share_words_logic (show_share_words_store rq ws h c :: ('c, 'b, 'o) flow_element list) q"
proof -
  let ?ok = "can_leave show_share_words_logic (show_share_words_store rq ws h c :: ('c, 'b, 'o) flow_element list)"
  have sw_checkbackupintro: "?ok SW_CheckBackupIntro" by (rule leave_by_swipe [where d = SwipeUp]) (simp add: leave_simps content_decision_def)
  have sw_confirm: "?ok SW_Confirm" by (rule go_by_content [where x = CDone, OF sw_checkbackupintro]) (simp add: leave_simps content_decision_def)
  have sw_words: "?ok SW_Words" by (rule go_by_swipe [where d = SwipeUp, OF sw_confirm]) (simp add: leave_simps content_decision_def)
  have sw_instruction: "?ok SW_Instruction" by (rule go_by_swipe [where d = SwipeUp, OF sw_words]) (simp add: leave_simps content_decision_def)
  show ?thesis by (cases q) (simp_all add: sw_checkbackupintro sw_confirm sw_words sw_instruction)
qed

lemma leave_get_address: "can_leave get_address_logic (get_address_store rq c b d :: ('c, 'b, 'o) flow_element list) q"
proof -
  let ?ok = "can_leave get_address_logic (get_address_store rq c b d :: ('c, 'b, 'o) flow_element list)"
  have ga_confirmed: "?ok GA_Confirmed" by (rule leave_by_content [where x = CDone]) (simp add: leave_simps content_decision_def)
  have ga_tap: "?ok GA_Tap" by (rule go_by_content [where x = CDone, OF ga_confirmed]) (simp add: leave_simps content_decision_def)
  have ga_address: "?ok GA_Address" by (rule go_by_swipe [where d = SwipeUp, OF ga_tap]) (simp add: leave_simps content_decision_def)
  have ga_menu: "?ok GA_Menu" by (rule go_by_swipe [where d = SwipeRight, OF ga_address]) (simp add: leave_simps content_decision_def)
  have ga_qrcode: "?ok GA_QrCode" by (rule go_by_swipe [where d = SwipeRight, OF ga_menu]) (simp add: leave_simps content_decision_def)
  have ga_accountinfo: "?ok GA_AccountInfo" by (rule go_from_details [OF ga_menu]) (simp add: leave_simps content_decision_def)
  have ga_cancel: "?ok GA_Cancel" by (rule go_by_swipe [where d = SwipeRight, OF ga_menu]) (simp add: leave_simps content_decision_def)
  have ga_canceltap: "?ok GA_CancelTap" by (rule go_by_swipe [where d = SwipeRight, OF ga_menu]) (simp add: leave_simps content_decision_def)
  show ?thesis by (cases q) (simp_all add: ga_confirmed ga_tap ga_address ga_menu ga_qrcode ga_accountinfo ga_cancel ga_canceltap)
qed

lemma leave_request_number: "can_leave request_number_logic (request_number_store rq c b :: ('c, 'b, 'o) flow_element list) q"
proof -
  let ?ok = "can_leave request_number_logic (request_number_store rq c b :: ('c, 'b, 'o) flow_element list)"
  have rn_number: "?ok RN_Number" by (rule leave_by_content [where x = "CNumber 0"]) (simp add: leave_simps content_decision_def)
  have rn_menu: "?ok RN_Menu" by (rule go_by_swipe [where d = SwipeRight, OF rn_number]) (simp add: leave_simps content_decision_def)
  have rn_info: "?ok RN_Info" by (rule go_by_swipe [where d = SwipeRight, OF rn_menu]) (simp add: leave_simps content_decision_def)
  show ?thesis by (cases q) (simp_all add: rn_number rn_menu rn_info)
qed

lemma leave_warning_hi_prio: "can_leave warning_hi_prio_logic (warning_hi_prio_store c b :: ('c, 'b, 'o) flow_element list) q"
proof -
  let ?ok = "can_leave warning_hi_prio_logic (warning_hi_prio_store c b :: ('c, 'b, 'o) flow_element list)"
  have wp_cancelled: "?ok WP_Cancelled" by (rule leave_by_content [where x = CDone]) (simp add: leave_simps content_decision_def)
  have wp_message: "?ok WP_Message" by (rule go_by_swipe [where d = SwipeUp, OF wp_cancelled]) (simp add: leave_simps content_decision_def)
  have wp_menu: "?ok WP_Menu" by (rule go_by_swipe [where d = SwipeRight, OF wp_message]) (simp add: leave_simps content_decision_def)
  show ?thesis by (cases q) (simp_all add: wp_cancelled wp_message wp_menu)
qed

lemma leave_show_tutorial: "can_leave show_tutorial_logic (show_tutorial_store c b :: ('c, 'b, 'o) flow_element list) q"
proof -
  let ?ok = "can_leave show_tutorial_logic (show_tutorial_store c b :: ('c, 'b, 'o) flow_element list)"
  have st_stepdone: "?ok ST_StepDone" by (rule leave_by_swipe [where d = SwipeUp]) (simp add: leave_simps content_decision_def)
  have st_stephold: "?ok ST_StepHold" by (rule go_by_content [where x = CDone, OF st_stepdone]) (simp add: leave_simps content_decision_def)
  have st_holdtoexit: "?ok ST_HoldToExit" by (rule go_by_content [where x = CDone, OF st_stepdone]) (simp add: leave_simps content_decision_def)
  have st_stepmenu: "?ok ST_StepMenu" by (rule go_by_swipe [where d = SwipeUp, OF st_stephold]) (simp add: leave_simps content_decision_def)
  have st_stepnavigation: "?ok ST_StepNavigation" by (rule go_by_swipe [where d = SwipeUp, OF st_stepmenu]) (simp add: leave_simps content_decision_def)
  have st_stepbegin: "?ok ST_StepBegin" by (rule go_by_swipe [where d = SwipeUp, OF st_stepnavigation]) (simp add: leave_simps content_decision_def)
  have st_stepwelcome: "?ok ST_StepWelcome" by (rule go_by_content [where x = CDone, OF st_stepbegin]) (simp add: leave_simps content_decision_def)
  have st_menu: "?ok ST_Menu" by (rule go_by_swipe [where d = SwipeRight, OF st_stepbegin]) (simp add: leave_simps content_decision_def)
  have st_didyouknow: "?ok ST_DidYouKnow" by (rule go_by_swipe [where d = SwipeRight, OF st_menu]) (simp add: leave_simps content_decision_def)
  show ?thesis by (cases q) (simp_all add: st_stepdone st_stephold st_holdtoexit st_stepmenu st_stepnavigation st_stepbegin st_stepwelcome st_menu st_didyouknow)
qed

text \<open>
  C28.  No flow is a dead end: from every state of each of the thirteen flows there is a sequence of
  actions that its screens allow, swipes, taps on a button and messages of a content, that makes the
  flow return.
\<close>

theorem flows_can_be_left:
  "can_leave confirm_action_logic (confirm_action_store c b) q1 \<and>
   can_leave confirm_action_simple_logic (confirm_action_simple_store c b) q2 \<and>
   can_leave confirm_output_logic (confirm_output_store rq c b d) q3 \<and>
   can_leave confirm_summary_logic (confirm_summary_store rq c b) q4 \<and>
   can_leave confirm_reset_create_logic (confirm_reset_create_store rq rq' c b) q5 \<and>
   can_leave confirm_reset_recover_logic (confirm_reset_recover_store rq c b) q6 \<and>
   can_leave set_new_pin_logic (set_new_pin_store c b) q7 \<and>
   can_leave prompt_backup_logic (prompt_backup_store c b) q8 \<and>
   can_leave show_share_words_logic (show_share_words_store rq ws h c) q9 \<and>
   can_leave get_address_logic (get_address_store rq c b d) q10 \<and>
   can_leave request_number_logic (request_number_store rq c b) q11 \<and>
   can_leave warning_hi_prio_logic (warning_hi_prio_store c b) q12 \<and>
   can_leave show_tutorial_logic (show_tutorial_store c b) q13"
  by (intro conjI leave_confirm_action leave_confirm_action_simple leave_confirm_output leave_confirm_summary
      leave_confirm_reset_create leave_confirm_reset_recover leave_set_new_pin leave_prompt_backup
      leave_show_share_words leave_get_address leave_request_number leave_warning_hi_prio leave_show_tutorial)

end
