(* ===== verification/Share_Words.thy ===== *)
theory Share_Words
  imports Flow_Safety
begin

section \<open>Showing the words of a backup\<close>

text \<open>
  The flow \<open>ShowShareWords\<close> shows the words of a backup one by one.  The engine counts the pages of the
  current screen in \<open>internal_state\<close>, the screen with the words counts its own \<open>page_index\<close>; the theorem
  at the end shows that the two agree and that the flow cannot be finished before every word has been
  on the screen.
\<close>

subsection \<open>The steps of the engine without a waiting decision\<close>

lemma detect_event_page_count:
  "detect_event U c ctx e s = (m, ctx', s') \<Longrightarrow> page_count ctx' = page_count ctx"
  by (auto simp: detect_event_def eval_anim_frame_def on_touch_move_def on_touch_end_def ctx_defs Let_def
      split: event.splits touch_event.splits option.splits if_splits prod.splits)

text \<open>An event for the screen that is not the end of a swipe.\<close>

definition not_end :: "event \<Rightarrow> bool" where
  "not_end e \<longleftrightarrow> (\<forall>d. e \<noteq> SwipeEv (SwipeEnd d))"

definition screen_config :: "'q flow_logic \<Rightarrow> 'c element_ops \<Rightarrow> ('q, 'c) swipe_flow \<Rightarrow> swipe_config" where
  "screen_config L Op f = paging_config (internal_state f) (of_nat (el_page_count Op (current_screen L f)))
     (el_swipe_config Op (current_screen L f))"

lemma flow_detect_exact:
  assumes "flow_inv L f" "decision_override f = None" "not_end e"
  shows "returns (flow_detect U L Op ctx e f) (\<lambda>(d, t, a, e1, ctx1, f1).
    fl_state f1 = fl_state f \<and> fl_store f1 = fl_store f \<and> decision_override f1 = None \<and> page_count ctx1 = page_count ctx \<and>
    (d = DNothing \<and> \<not> a \<and> not_end e1 \<and> internal_state f1 = internal_state f \<or>
     (\<exists>dir. e1 = SwipeEv (SwipeEnd dir) \<and> d = (if a then DNothing else handle_swipe L (fl_state f) dir) \<and>
        (internal_state f1, a) = turn_pages (screen_config L Op f) dir
          (of_nat (el_page_count Op (current_screen L f))) (internal_state f))))"
proof (cases "allow_swipe f")
  case True
  have i: "q_index L (fl_state f) < length (fl_store f)"
    using assms by (simp add: flow_inv_def)
  obtain m ctx1 sw where d: "detect_event U (screen_config L Op f) ctx e (fl_swipe f) = (m, ctx1, sw)"
    by (metis prod_cases3)
  note p = detect_event_page_count [OF d]
  show ?thesis
    using True d i assms(2,3) p
    by (auto simp: flow_detect_def current_screen_def [symmetric] screen_config_def [symmetric] not_end_def Let_def
        split: option.splits swipe_detect_msg.splits prod.splits)
qed (use assms in \<open>simp add: flow_detect_def\<close>)

text \<open>
  What the current screen \<open>c\<close> becomes when it handles \<open>e1\<close> and, after a turned page, is attached again.
\<close>

definition handled ::
  "'c element_ops \<Rightarrow> event_ctx \<Rightarrow> event \<Rightarrow> bool \<Rightarrow> 'c \<Rightarrow> flow_msg option \<Rightarrow> event_ctx \<Rightarrow> 'c \<Rightarrow> bool" where
  "handled Op ctx e1 a c m ctx' c' \<longleftrightarrow> (\<exists>ctx1 c1. el_event Op ctx e1 c = (m, ctx1, c1) \<and>
     (if a then \<exists>dir m2. el_event Op ctx1 (Attach (AttachSwipe dir)) c1 = (m2, ctx', c') else ctx' = ctx1 \<and> c' = c1))"

lemma animate_goto_exact:
  assumes "animate_goto U config ctx d f = (d', ctx', f')"
    and "\<forall>q dir. d = DGoto q dir \<longrightarrow> \<not> is_allowed config dir"
  shows "d' = d \<and> ctx' = ctx \<and> f' = f"
  using assms by (auto simp: animate_goto_def split: decision.splits)

lemma apply_swipe_requests_internal [simp]:
  "internal_state (apply_swipe_requests ctx f) = internal_state f"
  by (simp add: apply_swipe_requests_def Let_def)

text \<open>The messages of the screen do not ask for a transition the screen has a swipe for.\<close>

definition immediate_goto :: "'q flow_logic \<Rightarrow> 'c element_ops \<Rightarrow> 'q \<Rightarrow> 'c \<Rightarrow> bool" where
  "immediate_goto L Op q c \<longleftrightarrow> (\<forall>ctx e m ctx' c' q' dir. el_event Op ctx e c = (Some m, ctx', c') \<longrightarrow>
     handle_event L q m = DGoto q' dir \<longrightarrow> \<not> is_allowed (el_swipe_config Op c) dir)"

lemma flow_dispatch_exact:
  assumes "flow_inv L f" "a \<longrightarrow> (\<exists>dir. e1 = SwipeEv (SwipeEnd dir))"
    and kept: "\<And>m ctx' c'. handled Op ctx e1 a (current_screen L f) m ctx' c' \<Longrightarrow>
      el_swipe_config Op c' = el_swipe_config Op (current_screen L f)"
    and im: "immediate_goto L Op (fl_state f) (current_screen L f)"
  shows "returns (flow_dispatch U L Op ctx e e1 a DNothing f) (\<lambda>(d', ctx', f').
    fl_state f' = fl_state f \<and> decision_override f' = decision_override f \<and> internal_state f' = internal_state f \<and>
    (\<exists>m c'. handled Op ctx e1 a (current_screen L f) m ctx' c' \<and>
       fl_store f' = (fl_store f)[q_index L (fl_state f) := c'] \<and>
       d' = (case m of Some m \<Rightarrow> handle_event L (fl_state f) m | None \<Rightarrow> DNothing)))"
proof -
  let ?i = "q_index L (fl_state f)"
  have i: "?i < length (fl_store f)"
    using assms(1) by (simp add: flow_inv_def)
  obtain m ctx1 c1 where e1: "el_event Op ctx e1 (current_screen L f) = (m, ctx1, c1)"
    by (metis prod_cases3)
  let ?d = "case m of Some m \<Rightarrow> handle_event L (fl_state f) m | None \<Rightarrow> DNothing"
  let ?at = "case (a, e1) of
             (True, SwipeEv (SwipeEnd dir)) \<Rightarrow>
               rbind (store_event Op ?i ctx1 (Attach (AttachSwipe dir)) ((fl_store f)[?i := c1])) (\<lambda>(_, ctx, store). Inr (ctx, store))
           | _ \<Rightarrow> Inr (ctx1, (fl_store f)[?i := c1])"
  have at: "returns ?at (\<lambda>(ctx', st). \<exists>c'. handled Op ctx e1 a (current_screen L f) m ctx' c' \<and> st = (fl_store f)[?i := c'])"
    using i assms(2) e1 by (auto simp: handled_def split: prod.splits bool.splits) blast+
  have fd: "flow_dispatch U L Op ctx e e1 a DNothing f = rbind ?at (\<lambda>(ctx, store).
      Inr (animate_goto U (store_swipe_config Op ?i store) ctx ?d (apply_swipe_requests ctx (f\<lparr>fl_store := store\<rparr>))))"
    using e1 i by (simp add: flow_dispatch_def current_screen_def Let_def)
  show ?thesis
    unfolding fd
  proof (rule returns_rbind [OF at], clarsimp simp: i, goal_cases)
    case (1 ctx2 c' d' ctx' f')
    then have "\<forall>q dir. ?d = DGoto q dir \<longrightarrow> \<not> is_allowed (el_swipe_config Op c') dir"
      using im e1 kept [OF 1(1)] by (fastforce simp: immediate_goto_def split: option.splits)
    then show ?case
      using animate_goto_exact [OF 1(2)] 1(1) by auto
  qed
qed

lemma flow_dispatch_decided:
  assumes "flow_inv L f" "d \<noteq> DNothing"
  shows "returns (flow_dispatch U L Op ctx e e1 a d f) (\<lambda>(d', ctx', f'). d' = d \<and>
    (\<exists>m c'. el_event Op ctx e (current_screen L f) = (m, ctx', c') \<and>
       f' = f\<lparr>fl_store := (fl_store f)[q_index L (fl_state f) := c']\<rparr>))"
  using assms by (cases d) (auto simp: flow_dispatch_def flow_inv_def current_screen_def split: prod.splits)

lemma flow_goto_exact:
  assumes "flow_inv L f"
  shows "returns (flow_goto L Op ctx dir q f) (\<lambda>(ctx', f'). fl_state f' = q \<and> decision_override f' = decision_override f \<and>
    (\<exists>m c' ctx1. el_event Op ctx (Attach (AttachSwipe dir)) (fl_store f ! q_index L q) = (m, ctx1, c') \<and>
       fl_store f' = (fl_store f)[q_index L q := c'] \<and>
       internal_state f' = (case dir of SwipeUp \<Rightarrow> 0 | SwipeDown \<Rightarrow> u16_saturating_sub (of_nat (el_page_count Op c')) 1
         | _ \<Rightarrow> internal_state f)))"
  using assms by (auto simp: flow_goto_def flow_inv_def Let_def split: prod.splits swipe_direction.splits)

subsection \<open>The screen with the words\<close>

text \<open>The page after an event, when there are \<open>n\<close> words.\<close>

fun next_word :: "int \<Rightarrow> event \<Rightarrow> int \<Rightarrow> int" where
  "next_word n (SwipeEv (SwipeEnd SwipeUp)) p = (if p = n - 1 then p else p + 1)"
| "next_word n (SwipeEv (SwipeEnd SwipeDown)) p = (if p = 0 then p else p - 1)"
| "next_word n e p = p"

lemma next_word_not_end [simp]: "not_end e \<Longrightarrow> next_word n e p = p"
  by (cases "(n, e, p)" rule: next_word.cases) (auto simp: not_end_def)

definition page_of :: "'b words_screen \<Rightarrow> int" where
  "page_of w = page_index (fr_content (ws_frame w))"

definition words_config :: swipe_config where
  "words_config = config_with_vertical_pages (config_with_swipe SwipeDown settings_default
     (config_with_swipe SwipeUp settings_default config_new))"

definition words_ok :: "bytes list \<Rightarrow> 'b words_screen \<Rightarrow> bool" where
  "words_ok ws w \<longleftrightarrow> share_words (fr_content (ws_frame w)) = ws \<and> fr_swipe (ws_frame w) = words_config \<and>
     fr_button (ws_frame w) = None \<and> 0 \<le> page_of w \<and> page_of w < int (length ws)"

lemma words_inner_event_page:
  assumes "words_inner_event ctx e w = (m, ctx', w')" "0 \<le> page_index w" "page_index w < int (length (share_words w))"
    and "length (share_words w) \<le> 33"
  shows "m = None \<and> share_words w' = share_words w \<and>
    page_index w' = next_word (int (length (share_words w))) e (page_index w) \<and>
    page_count ctx' = Some (length (share_words w))"
  using assms
  by (cases "(int (length (share_words w)), e, page_index w)" rule: next_word.cases)
    (auto simp: words_inner_event_def set_page_count_def request_paint_def is_final_page_def is_first_page_def
      last_page_def i16_saturating_sub_def i16_id Let_def split: if_splits swipe_direction.splits)

text \<open>What the animations of the screens may do to the context, and what a context is at an event.\<close>

definition calm :: "('c, 'b, 'o) mercury_env \<Rightarrow> event_ctx \<Rightarrow> event \<Rightarrow> bool" where
  "calm M ctx e \<longleftrightarrow> page_count ctx = None \<and> (\<forall>s. e \<noteq> SwipeEv s) \<and>
     (\<forall>e ctx. page_count (wrap_ctx (me_anim M) e ctx) = page_count ctx)"

lemma next_word_range: "0 \<le> p \<Longrightarrow> p < n \<Longrightarrow> 0 \<le> next_word n e p \<and> next_word n e p < n"
  by (cases "(n, e, p)" rule: next_word.cases) auto

lemma frame_progress_swipe [simp]: "fr_swipe (frame_progress e f) = fr_swipe f"
  "internal_page_cnt (frame_progress e f) = internal_page_cnt f"
  by (simp_all add: frame_progress_def split: event.splits swipe_event.splits)

lemma words_frame_event:
  assumes "frame_event (swipe_content_event V words_inner_event) bev ctx e f = (m :: 'm frame_msg option, ctx', f')"
    and "fr_button f = None" "0 \<le> page_index (fr_content f)"
    and "page_index (fr_content f) < int (length (share_words (fr_content f)))" "length (share_words (fr_content f)) \<le> 33"
    and "\<forall>e ctx. page_count (wrap_ctx V e ctx) = page_count ctx"
  shows "share_words (fr_content f') = share_words (fr_content f) \<and> fr_swipe f' = fr_swipe f \<and> fr_button f' = None \<and>
    page_index (fr_content f') = next_word (int (length (share_words (fr_content f)))) e (page_index (fr_content f)) \<and>
    (if (\<exists>t. e = Touch t) \<and> touch_blocked V
     then page_count ctx' = page_count ctx \<and>
       internal_page_cnt f' = (case page_count ctx of Some n \<Rightarrow> n | None \<Rightarrow> internal_page_cnt f)
     else page_count ctx' = Some (length (share_words (fr_content f))) \<and>
       internal_page_cnt f' = length (share_words (fr_content f)))"
proof -
  let ?ctx = "wrap_ctx V e ctx"
  obtain m1 ctx1 w1 where w: "words_inner_event ?ctx e (fr_content f) = (m1 :: 'm option, ctx1, w1)"
    by (metis prod_cases3)
  note wp = words_inner_event_page [OF w assms(3-5)]
  show ?thesis
  proof (cases "(\<exists>t. e = Touch t) \<and> touch_blocked V")
    case True
    then have "swipe_content_event V words_inner_event ctx e (fr_content f) = (None :: 'm option, ?ctx, fr_content f)"
      and "not_end e"
      by (auto simp: swipe_content_event_def not_end_def)
    with assms(1,2,6) True show ?thesis
      by (auto simp: frame_event_def option_event_def Let_def split: option.splits)
  next
    case False
    then have "swipe_content_event V words_inner_event ctx e (fr_content f) = (m1, ctx1, w1)"
      using w by (auto simp: swipe_content_event_def Let_def split: event.splits)
    with assms(1,2) False wp show ?thesis
      by (auto simp: frame_event_def option_event_def Let_def)
  qed
qed

lemma words_el_event:
  assumes "el_event (mercury_ops M) ctx e (EWords w) = (m, ctx', x)" "words_ok ws w" "length ws \<le> 33"
    and "\<forall>e ctx. page_count (wrap_ctx (me_anim M) e ctx) = page_count ctx"
  shows "m = None \<and> (\<exists>w'. x = EWords w' \<and> words_ok ws w' \<and> page_of w' = next_word (int (length ws)) e (page_of w) \<and>
    (page_count ctx \<in> {None, Some (length ws)} \<and> internal_page_cnt (ws_frame w) = length ws \<longrightarrow>
       internal_page_cnt (ws_frame w') = length ws \<and> page_count ctx' \<in> {None, Some (length ws)}) \<and>
    ((\<exists>t. e = Attach t) \<longrightarrow> internal_page_cnt (ws_frame w') = length ws))"
proof -
  obtain m1 ctx1 f1 where f1: "frame_event (swipe_content_event (me_anim M) words_inner_event) (me_button M)
      (request_paint ctx) e (ws_frame w) = (m1 :: unit frame_msg option, ctx1, f1)"
    by (metis prod_cases3)
  have x: "m = None" "ctx' = ctx1" "x = EWords (w\<lparr>ws_frame := f1\<rparr>)"
    using assms(1) f1 by (auto simp: mercury_ops_def msg_map_event_def words_screen_event_def Let_def)
  have "0 \<le> page_index (fr_content (ws_frame w))" "fr_button (ws_frame w) = None"
    "page_index (fr_content (ws_frame w)) < int (length (share_words (fr_content (ws_frame w))))"
    "length (share_words (fr_content (ws_frame w))) \<le> 33"
    using assms(2,3) by (auto simp: words_ok_def page_of_def)
  note fe = words_frame_event [OF f1 this(2,1,3,4) assms(4)]
  have "words_ok ws (w\<lparr>ws_frame := f1\<rparr>)"
    using fe assms(2) next_word_range [of "page_of w" "int (length ws)" e] by (auto simp: words_ok_def page_of_def)
  with fe assms(2) x show ?thesis
    by (auto simp: words_ok_def page_of_def request_paint_def split: if_splits)
qed

lemma words_handled:
  assumes "handled (mercury_ops M) ctx e a (EWords w) m ctx' x" "words_ok ws w" "length ws \<le> 33"
    and "\<forall>e ctx. page_count (wrap_ctx (me_anim M) e ctx) = page_count ctx"
    and "page_count ctx = None" "internal_page_cnt (ws_frame w) = length ws"
  shows "m = None \<and> (\<exists>w'. x = EWords w' \<and> words_ok ws w' \<and> page_of w' = next_word (int (length ws)) e (page_of w) \<and>
    internal_page_cnt (ws_frame w') = length ws)"
proof -
  from assms(1) obtain ctx1 c1 where 1: "el_event (mercury_ops M) ctx e (EWords w) = (m, ctx1, c1)"
    and 2: "if a then \<exists>dir m2. el_event (mercury_ops M) ctx1 (Attach (AttachSwipe dir)) c1 = (m2, ctx', x) else ctx' = ctx1 \<and> x = c1"
    by (auto simp: handled_def)
  from words_el_event [OF 1 assms(2-4)] assms(5,6) obtain w1 where w1: "m = None" "c1 = EWords w1" "words_ok ws w1"
    "page_of w1 = next_word (int (length ws)) e (page_of w)" "internal_page_cnt (ws_frame w1) = length ws"
    by auto
  show ?thesis
  proof (cases a)
    case True
    with 2 obtain dir m2 where "el_event (mercury_ops M) ctx1 (Attach (AttachSwipe dir)) (EWords w1) = (m2, ctx', x)"
      using w1(2) by auto
    from words_el_event [OF this w1(3) assms(3,4)] w1 show ?thesis
      by auto
  qed (use 2 w1 in auto)
qed

subsection \<open>The flow\<close>

definition sw_views :: "screen_view option list" where
  "sw_views = [Some (map_content_confirmed, config_with_swipe SwipeUp settings_default config_new), None,
     Some (\<lambda>_. Some FConfirmed, config_with_swipe SwipeDown settings_default config_new),
     Some (\<lambda>_. Some FConfirmed, config_with_swipe SwipeUp settings_default config_new)]"

lemma sw_views_store: "map view (show_share_words_store r ws h c) = sw_views"
  by (simp add: show_share_words_store_def sw_views_def screen_simps with_swipe_def frame_new_def)

text \<open>
  The invariant: the page of the screen with the words is the one the engine counts, and the set \<open>S\<close> of
  the pages that were shown holds every page up to the current one, and all of them behind the words.
\<close>

definition words_part :: "bytes list \<Rightarrow> (show_share_words, ('c, 'b, 'o) flow_element) swipe_flow \<Rightarrow> int set \<Rightarrow> 'b words_screen \<Rightarrow> bool" where
  "words_part ws f S w \<longleftrightarrow> fl_store f ! 1 = EWords w \<and> words_ok ws w \<and>
     (case fl_state f of
        SW_Instruction \<Rightarrow> page_of w = 0
      | SW_Words \<Rightarrow> uint (internal_state f) = page_of w \<and> internal_page_cnt (ws_frame w) = length ws \<and> {0..page_of w} \<subseteq> S
      | _ \<Rightarrow> page_of w = int (length ws) - 1 \<and> {0..page_of w} \<subseteq> S)"

definition sw_inv :: "bytes list \<Rightarrow> (show_share_words, ('c, 'b, 'o) flow_element) swipe_flow \<Rightarrow> int set \<Rightarrow> bool" where
  "sw_inv ws f S \<longleftrightarrow> flow_inv show_share_words_logic f \<and> decision_override f = None \<and> map view (fl_store f) = sw_views \<and>
     (\<exists>w. words_part ws f S w)"

definition shown :: "(show_share_words, ('c, 'b, 'o) flow_element) swipe_flow \<Rightarrow> int set" where
  "shown f = (if fl_state f = SW_Words then (case fl_store f ! 1 of EWords w \<Rightarrow> {page_of w} | _ \<Rightarrow> {}) else {})"

lemma sw_store_length: "map view (fl_store f) = sw_views \<Longrightarrow> length (fl_store f) = 4"
proof -
  assume "map view (fl_store f) = sw_views"
  then have "length (map view (fl_store f)) = length sw_views"
    by (simp only:)
  then show ?thesis
    by (simp add: sw_views_def)
qed

lemma sw_index [simp]:
  "q_index show_share_words_logic SW_Instruction = 0" "q_index show_share_words_logic SW_Words = 1"
  "q_index show_share_words_logic SW_Confirm = 2" "q_index show_share_words_logic SW_CheckBackupIntro = 3"
  by (simp_all add: show_share_words_logic_def)

lemma sw_screens:
  assumes "map view (fl_store f) = sw_views"
  shows "\<exists>s. fl_store f ! 0 = EScreen s \<and> scr_map s = map_content_confirmed \<and>
      fr_swipe (scr_frame s) = config_with_swipe SwipeUp settings_default config_new"
    and "\<exists>s. fl_store f ! 2 = EScreen s \<and> fr_swipe (scr_frame s) = config_with_swipe SwipeDown settings_default config_new"
    and "\<exists>s. fl_store f ! 3 = EScreen s \<and> fr_swipe (scr_frame s) = config_with_swipe SwipeUp settings_default config_new"
proof -
  have v: "view (fl_store f ! i) = sw_views ! i" if "i < 4" for i
    using assms sw_store_length [OF assms] that by (metis nth_map)
  show "\<exists>s. fl_store f ! 0 = EScreen s \<and> scr_map s = map_content_confirmed \<and>
      fr_swipe (scr_frame s) = config_with_swipe SwipeUp settings_default config_new"
    using v [of 0] by (cases "fl_store f ! 0") (auto simp: sw_views_def)
  show "\<exists>s. fl_store f ! 2 = EScreen s \<and> fr_swipe (scr_frame s) = config_with_swipe SwipeDown settings_default config_new"
    using v [of 2] by (cases "fl_store f ! 2") (auto simp: sw_views_def)
  show "\<exists>s. fl_store f ! 3 = EScreen s \<and> fr_swipe (scr_frame s) = config_with_swipe SwipeUp settings_default config_new"
    using v [of 3] by (cases "fl_store f ! 3") (auto simp: sw_views_def)
qed

lemma mercury_config [simp]:
  "el_swipe_config (mercury_ops M) (EScreen s) = fr_swipe (scr_frame s)"
  "el_swipe_config (mercury_ops M) (EWords w) = fr_swipe (ws_frame w)"
  "el_page_count (mercury_ops M) (EWords w) = internal_page_cnt (ws_frame w)"
  by (simp_all add: mercury_ops_def)

lemma screen_el_event:
  assumes "el_event (mercury_ops M) ctx e (EScreen s) = (m, ctx', x)"
  shows "\<exists>s'. x = EScreen s' \<and> fr_swipe (scr_frame s') = fr_swipe (scr_frame s)"
  using assms by (auto simp: mercury_ops_def split: prod.splits dest: screen_event_view)

lemma screen_handled:
  assumes "handled (mercury_ops M) ctx e a (EScreen s) m ctx' x"
  shows "\<exists>s'. x = EScreen s' \<and> fr_swipe (scr_frame s') = fr_swipe (scr_frame s)"
  using assms by (fastforce simp: handled_def split: if_splits dest: screen_el_event)

text \<open>Without pages no swipe turns a page.\<close>

lemma turn_pages_none:
  "\<not> horizontal_pages c \<Longrightarrow> \<not> vertical_pages c \<Longrightarrow> turn_pages c dir n p = (p, False)"
  by (simp add: turn_pages_def turn_page_def)

lemma paging_config_pages [simp]:
  "horizontal_pages (paging_config p n c) = horizontal_pages c" "vertical_pages (paging_config p n c) = vertical_pages c"
  by (simp_all add: paging_config_def config_with_swipe_def Let_def)

text \<open>The end of an event: the flow stays, or it enters the state of the decision.\<close>

definition entered ::
  "'q flow_logic \<Rightarrow> 'c element_ops \<Rightarrow> ('q, 'c) swipe_flow \<Rightarrow> 'q \<Rightarrow> swipe_direction \<Rightarrow> ('q, 'c) swipe_flow \<Rightarrow> bool" where
  "entered L Op f q dir f' \<longleftrightarrow> fl_state f' = q \<and>
     (\<exists>ctx1 ctx2 m c'. el_event Op ctx1 (Attach (AttachSwipe dir)) (fl_store f ! q_index L q) = (m, ctx2, c') \<and>
        fl_store f' = (fl_store f)[q_index L q := c'] \<and>
        internal_state f' = (case dir of SwipeUp \<Rightarrow> 0 | SwipeDown \<Rightarrow> u16_saturating_sub (of_nat (el_page_count Op c')) 1
          | _ \<Rightarrow> internal_state f))"

lemma flow_finish_exact:
  assumes "flow_inv L f" "decision_override f = None"
  shows "returns (flow_finish L Op t ctx d f) (\<lambda>(r, ctx', f'). r = None \<longrightarrow> decision_override f' = None \<and>
    (d = DNothing \<and> f' = f \<or> (\<exists>q dir. d = DGoto q dir \<and> entered L Op f q dir f')))"
proof (cases d)
  case (DGoto q dir)
  show ?thesis
    unfolding flow_finish_def DGoto decision.case
    by (rule returns_rbind [OF flow_goto_exact [OF assms(1)]]) (use assms in \<open>auto simp: entered_def\<close>)
qed (simp_all add: flow_finish_def assms)

text \<open>
  A state whose screen has no pages: the engine either stays there with the words untouched, or makes
  one of the transitions of the state.
\<close>

definition plain_outcome ::
  "'q flow_logic \<Rightarrow> ('c, 'b, 'o) flow_element element_ops \<Rightarrow> ('q, ('c, 'b, 'o) flow_element) swipe_flow \<Rightarrow>
     ('q, ('c, 'b, 'o) flow_element) swipe_flow \<Rightarrow> bool" where
  "plain_outcome L Op f f' \<longleftrightarrow> decision_override f' = None \<and>
     (\<exists>f2 s'. fl_state f2 = fl_state f \<and> fl_store f2 = (fl_store f)[q_index L (fl_state f) := EScreen s'] \<and>
       (f' = f2 \<or> (\<exists>q dir. ((\<exists>d. handle_swipe L (fl_state f) d = DGoto q dir) \<or>
          (\<exists>m. handle_event L (fl_state f) m = DGoto q dir)) \<and> entered L Op f2 q dir f')))"

lemma plain_state_step:
  assumes inv: "flow_inv L f" "decision_override f = None" and calm: "calm M ctx e"
    and cs: "current_screen L f = EScreen s" "\<not> horizontal_pages (fr_swipe (scr_frame s))" "\<not> vertical_pages (fr_swipe (scr_frame s))"
    and im: "immediate_goto L (mercury_ops M) (fl_state f) (current_screen L f)"
  shows "returns (flow_event U L (mercury_ops M) ctx e f) (\<lambda>(r, ctx', f'). r = None \<longrightarrow> plain_outcome L (mercury_ops M) f f')"
proof -
  have ne: "not_end e"
    using calm by (auto simp: calm_def not_end_def)
  show ?thesis
    unfolding flow_event_def
  proof (rule returns_rbind [OF flow_detect_exact [OF inv ne]], clarify)
    fix d t a e1 ctx1 and f1 :: "('a, ('b, 'c, 'd) flow_element) swipe_flow"
    assume 1: "fl_state f1 = fl_state f" "fl_store f1 = fl_store f" "decision_override f1 = None"
      and o: "d = DNothing \<and> \<not> a \<and> not_end e1 \<and> internal_state f1 = internal_state f \<or>
       (\<exists>dir. e1 = SwipeEv (SwipeEnd dir) \<and> d = (if a then DNothing else handle_swipe L (fl_state f) dir) \<and>
        (internal_state f1, a) = turn_pages (screen_config L (mercury_ops M) f) dir
          (of_nat (el_page_count (mercury_ops M) (current_screen L f))) (internal_state f))"
    have c1: "current_screen L f1 = EScreen s"
      using 1 cs(1) by (simp add: current_screen_def)
    have na: "\<not> a"
      using o cs by (auto simp: screen_config_def turn_pages_none)
    have d: "d = DNothing \<or> (\<exists>dir. d = handle_swipe L (fl_state f) dir)"
      using o na by auto
    have inv1: "flow_inv L f1"
      using inv 1 by (auto simp: flow_inv_def)
    have i: "q_index L (fl_state f) < length (fl_store f)"
      using inv by (auto simp: flow_inv_def)
    have fin: "returns (flow_finish L (mercury_ops M) t ctx2 d2 f2) (\<lambda>(r, ctx', f'). r = None \<longrightarrow> plain_outcome L (mercury_ops M) f f')"
      if f2: "fl_state f2 = fl_state f" "decision_override f2 = None" "fl_store f2 = (fl_store f)[q_index L (fl_state f) := EScreen s']"
        and d2: "d2 = DNothing \<or> (\<exists>d. d2 = handle_swipe L (fl_state f) d) \<or> (\<exists>m. d2 = handle_event L (fl_state f) m)"
      for d2 f2 ctx2 s'
    proof -
      have inv2: "flow_inv L f2"
        using inv f2 by (auto simp: flow_inv_def)
      show ?thesis
        by (rule returns_mono [OF flow_finish_exact [OF inv2 f2(2)]])
          (use f2 d2 in \<open>auto simp: plain_outcome_def; metis\<close>)
    qed
    show "returns (rbind (flow_dispatch U L (mercury_ops M) ctx1 e e1 a d f1) (\<lambda>(d, ctx, f). flow_finish L (mercury_ops M) t ctx d f))
        (\<lambda>(r, ctx', f'). r = None \<longrightarrow> plain_outcome L (mercury_ops M) f f')"
    proof (cases "d = DNothing")
      case True
      have kept: "el_swipe_config (mercury_ops M) c' = el_swipe_config (mercury_ops M) (current_screen L f1)"
        if "handled (mercury_ops M) ctx1 e1 a (current_screen L f1) m ctx' c'" for m ctx' c'
        using screen_handled [OF that [unfolded c1]] c1 by auto
      have im1: "immediate_goto L (mercury_ops M) (fl_state f1) (current_screen L f1)"
        using im c1 cs(1) 1(1) by simp
      have a: "a \<longrightarrow> (\<exists>dir. e1 = SwipeEv (SwipeEnd dir))"
        using na by simp
      have "returns (flow_dispatch U L (mercury_ops M) ctx1 e e1 a DNothing f1) (\<lambda>(d', ctx', f').
          fl_state f' = fl_state f \<and> decision_override f' = None \<and>
          (\<exists>s'. fl_store f' = (fl_store f)[q_index L (fl_state f) := EScreen s']) \<and>
          (d' = DNothing \<or> (\<exists>m. d' = handle_event L (fl_state f) m)))"
      proof (rule returns_mono [OF flow_dispatch_exact [OF inv1 a]], goal_cases)
        case (3 x)
        then obtain d' ctx' f' m c' where x: "x = (d', ctx', f')" "fl_state f' = fl_state f1"
            "decision_override f' = decision_override f1"
          and h: "handled (mercury_ops M) ctx1 e1 a (EScreen s) m ctx' c'"
          and st: "fl_store f' = (fl_store f1)[q_index L (fl_state f1) := c']"
            "d' = (case m of Some m \<Rightarrow> handle_event L (fl_state f1) m | None \<Rightarrow> DNothing)"
          using c1 by auto
        obtain s' where "c' = EScreen s'"
          using screen_handled [OF h] by blast
        then show ?case
          using x st 1 by (cases m) auto
      qed (use kept im1 in blast)+
      then show ?thesis
        unfolding True by (rule returns_rbind) (auto intro!: fin)
    next
      case False
      with d obtain dir where dir: "d = handle_swipe L (fl_state f) dir" by blast
      have "returns (flow_dispatch U L (mercury_ops M) ctx1 e e1 a d f1) (\<lambda>(d', ctx', f').
          fl_state f' = fl_state f \<and> decision_override f' = None \<and>
          (\<exists>s'. fl_store f' = (fl_store f)[q_index L (fl_state f) := EScreen s']) \<and>
          d' = handle_swipe L (fl_state f) dir)"
        by (rule returns_mono [OF flow_dispatch_decided [OF inv1 False]])
          (use 1 c1 dir in \<open>auto dest!: screen_el_event\<close>)
      then show ?thesis
        by (rule returns_rbind) (auto intro!: fin)
    qed
  qed
qed

text \<open>Turning the page of the words: the engine and the screen count alike.\<close>

lemma words_turn:
  fixes p :: u16
  assumes "0 \<le> uint p" "uint p < int n" "n \<le> 33" "(p', a) = turn_pages (paging_config p (of_nat n) words_config) dir (of_nat n) p"
  shows "uint p' = next_word (int n) (SwipeEv (SwipeEnd dir)) (uint p) \<and>
    (\<not> a \<longrightarrow> p' = p \<and> (dir = SwipeUp \<longrightarrow> uint p = int n - 1) \<and> (dir = SwipeDown \<longrightarrow> uint p = 0))"
proof -
  have "n < 2 ^ 16"
    using assms(3) by simp
  then have "uint (of_nat n :: u16) = int n"
    by (simp add: unsigned_of_nat take_bit_nat_eq_self)
  moreover have "0 < n"
    using le_less_trans [OF assms(1,2)] by simp
  ultimately have n: "uint (of_nat n :: u16) = int n" "0 < n"
    by simp_all
  have n1: "uint (of_nat n - 1 :: u16) = int n - 1"
    using n assms(3) by (subst uint_sub_lem [THEN iffD1]) auto
  have up: "uint (p + 1) = uint p + 1" if "uint p < int n - 1"
    using that assms(3) by (subst uint_add_lem [THEN iffD1]) auto
  have dn: "uint (p - 1) = uint p - 1" if "0 < uint p"
    using that by (subst uint_sub_lem [THEN iffD1]) auto
  have z: "uint p = 0" if "\<not> 0 < uint p"
    using that assms(1) by linarith
  have pos: "(0 :: u16) < of_nat n"
    using n by (simp add: word_less_def)
  show ?thesis
    using assms(2,4) up dn pos z
    by (cases dir)
      (auto simp: turn_pages_def turn_page_def words_config_def config_with_vertical_pages_def config_with_swipe_def
        config_new_def word_less_def n n1 split: if_splits)
qed

text \<open>
  In the state of the words, after an event: the screen shows the page the engine counts, one page away
  at most, or the flow has left it from its last page to the confirmation or from its first page back.
\<close>

definition words_outcome ::
  "('c, 'b, 'o) mercury_env \<Rightarrow> bytes list \<Rightarrow> (show_share_words, ('c, 'b, 'o) flow_element) swipe_flow \<Rightarrow> 'b words_screen \<Rightarrow>
     (show_share_words, ('c, 'b, 'o) flow_element) swipe_flow \<Rightarrow> bool" where
  "words_outcome M ws f w f' \<longleftrightarrow> decision_override f' = None \<and>
     (\<exists>f2 w'. fl_state f2 = SW_Words \<and> fl_store f2 = (fl_store f)[1 := EWords w'] \<and>
      words_ok ws w' \<and> internal_page_cnt (ws_frame w') = length ws \<and> uint (internal_state f2) = page_of w' \<and>
      (f' = f2 \<and> \<bar>page_of w' - page_of w\<bar> \<le> 1 \<or>
       page_of w' = page_of w \<and> page_of w = int (length ws) - 1 \<and>
         entered show_share_words_logic (mercury_ops M) f2 SW_Confirm SwipeUp f' \<or>
       page_of w' = page_of w \<and> page_of w = 0 \<and>
         entered show_share_words_logic (mercury_ops M) f2 SW_Instruction SwipeDown f'))"

text \<open>What the engine decides in that state, and that the page it counts is the one the screen will show.\<close>

definition words_decision ::
  "bytes list \<Rightarrow> 'b words_screen \<Rightarrow> u16 \<Rightarrow> show_share_words decision \<Rightarrow> bool \<Rightarrow> event \<Rightarrow> u16 \<Rightarrow> bool" where
  "words_decision ws w p d a e1 p1 \<longleftrightarrow>
     d = DNothing \<and> uint p1 = next_word (int (length ws)) e1 (page_of w) \<and> (a \<longrightarrow> (\<exists>dir. e1 = SwipeEv (SwipeEnd dir))) \<or>
     d = DGoto SW_Confirm SwipeUp \<and> p1 = p \<and> page_of w = int (length ws) - 1 \<or>
     d = DGoto SW_Instruction SwipeDown \<and> p1 = p \<and> page_of w = 0"

definition in_words ::
  "bytes list \<Rightarrow> (show_share_words, ('c, 'b, 'o) flow_element) swipe_flow \<Rightarrow> 'b words_screen \<Rightarrow> bool" where
  "in_words ws f w \<longleftrightarrow> flow_inv show_share_words_logic f \<and> decision_override f = None \<and> fl_state f = SW_Words \<and>
     fl_store f ! 1 = EWords w \<and> words_ok ws w \<and> internal_page_cnt (ws_frame w) = length ws \<and> length ws \<le> 33"

lemma words_detect:
  assumes "in_words ws f w" "uint (internal_state f) = page_of w" "not_end e"
  shows "returns (flow_detect U show_share_words_logic (mercury_ops M) ctx e f) (\<lambda>(d, t, a, e1, ctx1, f1).
    fl_store f1 = fl_store f \<and> in_words ws f1 w \<and> page_count ctx1 = page_count ctx \<and>
    words_decision ws w (internal_state f) d a e1 (internal_state f1))"
proof -
  let ?L = show_share_words_logic and ?n = "int (length ws)"
  have f: "flow_inv ?L f" "decision_override f = None" "fl_state f = SW_Words"
    using assms(1) by (simp_all add: in_words_def)
  have c: "current_screen ?L f = EWords w" and pg: "0 \<le> uint (internal_state f)" "uint (internal_state f) < ?n"
    and cfg: "fr_swipe (ws_frame w) = words_config" and n: "internal_page_cnt (ws_frame w) = length ws" "length ws \<le> 33"
    using assms by (simp_all add: current_screen_def words_ok_def in_words_def)
  show ?thesis
  proof (rule returns_mono [OF flow_detect_exact [OF f(1,2) assms(3)]], goal_cases)
    case (1 x)
    obtain d t a e1 ctx1 f1 where x: "x = (d, t, a, e1, ctx1, f1)"
      by (metis prod_cases6)
    have "words_decision ws w (internal_state f) d a e1 (internal_state f1)"
      using 1 unfolding x prod.case
    proof (elim conjE disjE)
      assume "\<exists>dir. e1 = SwipeEv (SwipeEnd dir) \<and> d = (if a then DNothing else handle_swipe ?L (fl_state f) dir) \<and>
        (internal_state f1, a) = turn_pages (screen_config ?L (mercury_ops M) f) dir
          (of_nat (el_page_count (mercury_ops M) (current_screen ?L f))) (internal_state f)"
      then obtain dir where dir: "e1 = SwipeEv (SwipeEnd dir)" "d = (if a then DNothing else handle_swipe ?L (fl_state f) dir)"
        and t: "(internal_state f1, a) = turn_pages (paging_config (internal_state f) (of_nat (length ws)) words_config) dir
          (of_nat (length ws)) (internal_state f)"
        using c cfg n by (auto simp: screen_config_def)
      from words_turn [OF pg n(2) t] dir f(3) assms(2) show ?thesis
        by (cases dir) (auto simp: show_share_words_logic_def words_decision_def)
    qed (use assms(2) in \<open>simp add: words_decision_def\<close>)
    then show ?case
      using 1 assms(1) by (auto simp: x in_words_def flow_inv_def)
  qed
qed

lemma words_finish:
  assumes "in_words ws f1 w" "calm M ctx e" "page_count ctx1 = None" "uint p = page_of w"
    and "words_decision ws w p d a e1 (internal_state f1)"
  shows "returns (rbind (flow_dispatch U show_share_words_logic (mercury_ops M) ctx1 e e1 a d f1)
      (\<lambda>(d, ctx, f). flow_finish show_share_words_logic (mercury_ops M) t ctx d f))
    (\<lambda>(r, ctx', f'). r = None \<longrightarrow> words_outcome M ws f1 w f')"
proof -
  let ?L = show_share_words_logic and ?Op = "mercury_ops M" and ?n = "int (length ws)"
  have f: "flow_inv ?L f1" "decision_override f1 = None" "fl_state f1 = SW_Words" "words_ok ws w"
    "internal_page_cnt (ws_frame w) = length ws" "length ws \<le> 33" and c: "current_screen ?L f1 = EWords w"
    using assms(1) by (simp_all add: current_screen_def in_words_def)
  have wr: "\<forall>e ctx. page_count (wrap_ctx (me_anim M) e ctx) = page_count ctx" and ne: "not_end e"
    using assms(2) by (auto simp: calm_def not_end_def)
  have step: "\<bar>next_word ?n e' q - q\<bar> \<le> 1" for e' q
    by (cases "(?n, e', q)" rule: next_word.cases) auto
  show ?thesis
  proof (cases "d = DNothing")
    case True
    then have cnt: "uint (internal_state f1) = next_word ?n e1 (page_of w)" and a: "a \<longrightarrow> (\<exists>dir. e1 = SwipeEv (SwipeEnd dir))"
      using assms(5) by (auto simp: words_decision_def)
    have im: "immediate_goto ?L ?Op (fl_state f1) (current_screen ?L f1)"
      using words_el_event [OF _ f(4,6) wr] unfolding c immediate_goto_def by blast
    have kept: "el_swipe_config ?Op c' = el_swipe_config ?Op (current_screen ?L f1)"
      if "handled ?Op ctx1 e1 a (current_screen ?L f1) m ctx' c'" for m ctx' c'
      using words_handled [OF that [unfolded c] f(4,6) wr assms(3) f(5)] f(4) c by (auto simp: words_ok_def)
    have "returns (flow_dispatch U ?L ?Op ctx1 e e1 a DNothing f1) (\<lambda>(d', ctx', f'). d' = DNothing \<and> words_outcome M ws f1 w f')"
    proof (rule returns_mono [OF flow_dispatch_exact [OF f(1) a]], goal_cases)
      case (3 x)
      then obtain d' ctx' f' m c' where x: "x = (d', ctx', f')" "fl_state f' = SW_Words" "decision_override f' = None"
          "internal_state f' = internal_state f1" "fl_store f' = (fl_store f1)[1 := c']"
          "d' = (case m of Some m \<Rightarrow> handle_event ?L (fl_state f1) m | None \<Rightarrow> DNothing)"
        and h: "handled ?Op ctx1 e1 a (EWords w) m ctx' c'"
        using c f by auto
      from words_handled [OF h f(4,6) wr assms(3) f(5)] obtain w' where "m = None" "c' = EWords w'" "words_ok ws w'"
        "page_of w' = next_word ?n e1 (page_of w)" "internal_page_cnt (ws_frame w') = length ws"
        by blast
      moreover have "\<bar>next_word ?n e1 (page_of w) - page_of w\<bar> \<le> 1"
        by (rule step)
      ultimately have "words_outcome M ws f1 w f'"
        unfolding words_outcome_def using x cnt by (intro conjI exI [of _ f'] exI [of _ w']) auto
      then show ?case
        using x \<open>m = None\<close> by simp
    qed (use kept im in blast)+
    then show ?thesis
      unfolding True by (rule returns_rbind) (auto simp: flow_finish_def)
  next
    case False
    then have d: "internal_state f1 = p" "d = DGoto SW_Confirm SwipeUp \<and> page_of w = ?n - 1 \<or>
        d = DGoto SW_Instruction SwipeDown \<and> page_of w = 0"
      using assms(5) by (auto simp: words_decision_def)
    have "returns (flow_dispatch U ?L ?Op ctx1 e e1 a d f1) (\<lambda>(d', ctx', f'). d' = d \<and> flow_inv ?L f' \<and>
        decision_override f' = None \<and> fl_state f' = SW_Words \<and> internal_state f' = p \<and>
        (\<exists>w'. fl_store f' = (fl_store f1)[1 := EWords w'] \<and> words_ok ws w' \<and> internal_page_cnt (ws_frame w') = length ws \<and>
           page_of w' = page_of w))"
    proof (rule returns_mono [OF flow_dispatch_decided [OF f(1) False]], clarify, goal_cases)
      case (1 d' ctx' f' m c')
      from words_el_event [OF 1 [unfolded c] f(4,6) wr] assms(3) f ne d(1) show ?case
        by (auto simp: flow_inv_def)
    qed
    then show ?thesis
    proof (rule returns_rbind, clarify)
      fix ctx2 and f2 :: "(show_share_words, ('a, 'b, 'c) flow_element) swipe_flow" and w'
      assume f2: "flow_inv ?L f2" "decision_override f2 = None" "fl_state f2 = SW_Words" "p = internal_state f2"
        "fl_store f2 = (fl_store f1)[1 := EWords w']" "words_ok ws w'" "internal_page_cnt (ws_frame w') = length ws"
        "page_of w' = page_of w"
      show "returns (flow_finish ?L ?Op t ctx2 d f2) (\<lambda>(r, ctx', f'). r = None \<longrightarrow> words_outcome M ws f1 w f')"
      proof (rule returns_mono [OF flow_finish_exact [OF f2(1,2)]], goal_cases)
        case (1 x)
        with d f2 assms(4) show ?case
          unfolding words_outcome_def by (cases x) (auto intro!: exI [of _ f2] exI [of _ w'])
      qed
    qed
  qed
qed

lemma words_state_step:
  assumes "in_words ws f w" "uint (internal_state f) = page_of w" "calm M ctx e"
  shows "returns (flow_event U show_share_words_logic (mercury_ops M) ctx e f) (\<lambda>(r, ctx', f'). r = None \<longrightarrow>
    words_outcome M ws f w f')"
  unfolding flow_event_def
proof (rule returns_rbind [OF words_detect [OF assms(1,2)]], goal_cases)
  case (2 x)
  then obtain d t a e1 ctx1 f1 where x: "x = (d, t, a, e1, ctx1, f1)" "fl_store f1 = fl_store f" "in_words ws f1 w"
    "page_count ctx1 = page_count ctx" "words_decision ws w (internal_state f) d a e1 (internal_state f1)"
    by auto
  then have "words_outcome M ws f1 w f' = words_outcome M ws f w f'" for f'
    by (simp add: words_outcome_def)
  then show ?case
    using words_finish [OF x(3) assms(3) _ assms(2) x(5)] assms(3) x(1,4) by (simp add: calm_def)
qed (use assms(3) in \<open>auto simp: calm_def not_end_def\<close>)

subsection \<open>Every word is shown\<close>

lemma shown_words: "fl_store f ! 1 = EWords w \<Longrightarrow> shown f = (if fl_state f = SW_Words then {page_of w} else {})"
  by (simp add: shown_def)

lemma last_page_count:
  assumes "0 < n" "n \<le> 33"
  shows "uint (u16_saturating_sub (of_nat n) 1) = int n - 1"
proof -
  have "n < 2 ^ 16"
    using assms(2) by simp
  then have n: "uint (of_nat n :: u16) = int n"
    by (simp add: unsigned_of_nat take_bit_nat_eq_self)
  then have "uint (of_nat n - 1 :: u16) = int n - 1"
    using assms(1) by (subst uint_sub_lem [THEN iffD1]) auto
  then show ?thesis
    using assms(1) n by (simp add: u16_saturating_sub_def word_le_def)
qed

text \<open>Entering the words from either side.\<close>

lemma enter_words:
  fixes f2 :: "(show_share_words, ('c, 'b, 'o) flow_element) swipe_flow"
  assumes "entered show_share_words_logic (mercury_ops M) f2 SW_Words dir f'" "fl_store f2 ! 1 = EWords w" "words_ok ws w"
    and "length (fl_store f2) = 4" "length ws \<le> 33"
    and wr: "\<forall>e ctx. page_count (wrap_ctx (me_anim M) e ctx) = page_count ctx"
    and "dir = SwipeUp \<and> page_of w = 0 \<or> dir = SwipeDown \<and> page_of w = int (length ws) - 1 \<and> {0..page_of w} \<subseteq> S"
  shows "\<exists>w'. words_part ws f' (S \<union> shown f') w'"
proof -
  obtain ctx1 ctx2 m c' where e: "el_event (mercury_ops M) ctx1 (Attach (AttachSwipe dir)) (EWords w) = (m, ctx2, c')"
    and f': "fl_state f' = SW_Words" "fl_store f' = (fl_store f2)[1 := c']"
      "internal_state f' = (case dir of SwipeUp \<Rightarrow> 0 | SwipeDown \<Rightarrow> u16_saturating_sub (of_nat (el_page_count (mercury_ops M) c')) 1
        | _ \<Rightarrow> internal_state f2)"
    using assms(1,2) by (auto simp: entered_def)
  obtain w' where w': "c' = EWords w'" "words_ok ws w'" "page_of w' = page_of w" "internal_page_cnt (ws_frame w') = length ws"
    using words_el_event [OF e assms(3,5) wr] by auto
  have "0 < length ws"
    using assms(3) by (auto simp: words_ok_def)
  then show ?thesis
    using assms(4,5,7) f' w' last_page_count [of "length ws"] by (auto simp: words_part_def shown_words)
qed

lemma sw_inv_words:
  assumes "sw_inv ws f S" "fl_state f = SW_Words" "words_outcome M ws f w f'" "fl_store f ! 1 = EWords w"
  shows "\<exists>w'. words_part ws f' (S \<union> shown f') w'"
proof -
  have l: "length (fl_store f) = 4" and S: "{0..page_of w} \<subseteq> S"
    using assms by (auto simp: sw_inv_def words_part_def dest: sw_store_length)
  from assms(3) obtain f2 w' where f2: "fl_state f2 = SW_Words" "fl_store f2 = (fl_store f)[1 := EWords w']"
      "words_ok ws w'" "internal_page_cnt (ws_frame w') = length ws" "uint (internal_state f2) = page_of w'"
    and cs: "f' = f2 \<and> \<bar>page_of w' - page_of w\<bar> \<le> 1 \<or>
       page_of w' = page_of w \<and> page_of w = int (length ws) - 1 \<and>
         entered show_share_words_logic (mercury_ops M) f2 SW_Confirm SwipeUp f' \<or>
       page_of w' = page_of w \<and> page_of w = 0 \<and>
         entered show_share_words_logic (mercury_ops M) f2 SW_Instruction SwipeDown f'"
    by (auto simp: words_outcome_def)
  have n: "fl_store f2 ! 1 = EWords w'"
    using f2(2) l by simp
  from cs show ?thesis
  proof (elim disjE conjE)
    assume f': "f' = f2" and p: "\<bar>page_of w' - page_of w\<bar> \<le> 1"
    have "x \<in> {0..page_of w} \<or> x = page_of w'" if "x \<in> {0..page_of w'}" for x
      using that p by (simp add: abs_le_iff) linarith
    then have "{0..page_of w'} \<subseteq> S \<union> {page_of w'}"
      using S by blast
    then show ?thesis
      using f' f2 n by (auto simp: words_part_def shown_words)
  next
    assume "page_of w' = page_of w" "page_of w = int (length ws) - 1"
      "entered show_share_words_logic (mercury_ops M) f2 SW_Confirm SwipeUp f'"
    then show ?thesis
      using S f2 n l by (auto simp: words_part_def entered_def)
  next
    assume "page_of w' = page_of w" "page_of w = 0"
      "entered show_share_words_logic (mercury_ops M) f2 SW_Instruction SwipeDown f'"
    then show ?thesis
      using f2 n l by (auto simp: words_part_def entered_def)
  qed
qed

lemma sw_inv_plain:
  fixes f :: "(show_share_words, ('c, 'b, 'o) flow_element) swipe_flow"
  assumes "sw_inv ws f S" "fl_state f \<noteq> SW_Words" "plain_outcome show_share_words_logic (mercury_ops M) f f'" "length ws \<le> 33"
    and wr: "\<forall>e ctx. page_count (wrap_ctx (me_anim M) e ctx) = page_count ctx"
  shows "\<exists>w'. words_part ws f' (S \<union> shown f') w'"
proof -
  let ?L = show_share_words_logic
  obtain w where w: "fl_store f ! 1 = EWords w" "words_ok ws w"
    and pt: "case fl_state f of SW_Instruction \<Rightarrow> page_of w = 0 | SW_Words \<Rightarrow> True
      | _ \<Rightarrow> page_of w = int (length ws) - 1 \<and> {0..page_of w} \<subseteq> S"
    using assms(1) by (cases "fl_state f") (auto simp: sw_inv_def words_part_def)
  have l: "length (fl_store f) = 4"
    using assms(1) by (auto simp: sw_inv_def dest: sw_store_length)
  from assms(3) obtain f2 s' where f2: "fl_state f2 = fl_state f" "fl_store f2 = (fl_store f)[q_index ?L (fl_state f) := EScreen s']"
    and cs: "f' = f2 \<or> (\<exists>q dir. ((\<exists>d. handle_swipe ?L (fl_state f) d = DGoto q dir) \<or>
          (\<exists>m. handle_event ?L (fl_state f) m = DGoto q dir)) \<and> entered ?L (mercury_ops M) f2 q dir f')"
    unfolding plain_outcome_def by blast
  have n: "fl_store f2 ! 1 = EWords w" "length (fl_store f2) = 4"
    using f2 w l assms(2) by (cases "fl_state f"; simp)+
  have go: "q = SW_Words \<and> (dir = SwipeUp \<and> fl_state f = SW_Instruction \<or> dir = SwipeDown \<and> fl_state f = SW_Confirm) \<or>
      q = SW_CheckBackupIntro \<and> fl_state f = SW_Confirm"
    if "(\<exists>d. handle_swipe ?L (fl_state f) d = DGoto q dir) \<or> (\<exists>m. handle_event ?L (fl_state f) m = DGoto q dir)" for q dir
    using that
  proof (elim disjE exE)
    show ?thesis if "handle_swipe ?L (fl_state f) d = DGoto q dir" for d
      using that assms(2) by (cases "fl_state f"; cases d) (simp_all add: show_share_words_logic_def)
    show ?thesis if "handle_event ?L (fl_state f) m = DGoto q dir" for m
      using that assms(2) by (cases "fl_state f"; cases m) (simp_all add: show_share_words_logic_def)
  qed
  from cs show ?thesis
  proof
    assume "f' = f2"
    then show ?thesis
      using f2(1) n w(2) pt assms(2) by (cases "fl_state f") (auto simp: words_part_def)
  next
    assume "\<exists>q dir. ((\<exists>d. handle_swipe ?L (fl_state f) d = DGoto q dir) \<or>
          (\<exists>m. handle_event ?L (fl_state f) m = DGoto q dir)) \<and> entered ?L (mercury_ops M) f2 q dir f'"
    then obtain q dir where q: "q = SW_Words \<and> (dir = SwipeUp \<and> fl_state f = SW_Instruction \<or> dir = SwipeDown \<and> fl_state f = SW_Confirm) \<or>
      q = SW_CheckBackupIntro \<and> fl_state f = SW_Confirm" and en: "entered ?L (mercury_ops M) f2 q dir f'"
      using go by blast
    show ?thesis
    proof (cases "q = SW_Words")
      case True
      show ?thesis
        by (rule enter_words [OF en [unfolded True] n(1) w(2) n(2) assms(4) wr]) (use q True pt in \<open>elim disjE conjE; simp\<close>)
    next
      case False
      then show ?thesis
        using q en n w(2) pt by (auto simp: words_part_def entered_def)
    qed
  qed
qed

lemmas at_screen = current_screen_def immediate_goto_def show_share_words_logic_def config_with_swipe_def config_new_def

lemma sw_state_step:
  assumes "sw_inv ws f S" "calm M ctx e" "length ws \<le> 33"
    and "flow_event U show_share_words_logic (mercury_ops M) ctx e f = (Inr (None, ctx', f') :: (_, unit) result)"
  shows "sw_inv ws f' (S \<union> shown f')"
proof -
  let ?L = show_share_words_logic and ?Op = "mercury_ops M"
  have inv: "flow_inv ?L f" "decision_override f = None" and v: "map view (fl_store f) = sw_views"
    using assms(1) by (simp_all add: sw_inv_def)
  obtain w where w: "words_part ws f S w"
    using assms(1) by (auto simp: sw_inv_def)
  have wr: "\<forall>e ctx. page_count (wrap_ctx (me_anim M) e ctx) = page_count ctx"
    using assms(2) by (simp add: calm_def)
  have keep: "flow_inv ?L f'" "map view (fl_store f') = sw_views"
    using mercury_step [OF inv(1) assms(4)] v by simp_all
  have plain: "\<exists>w'. words_part ws f' (S \<union> shown f') w' \<and> decision_override f' = None"
    if "current_screen ?L f = EScreen s" "\<not> horizontal_pages (fr_swipe (scr_frame s))" "\<not> vertical_pages (fr_swipe (scr_frame s))"
      "immediate_goto ?L ?Op (fl_state f) (current_screen ?L f)" "fl_state f \<noteq> SW_Words" for s
  proof -
    have "returns (flow_event U ?L ?Op ctx e f :: (_, unit) result) (\<lambda>(r, ctx', f'). r = None \<longrightarrow> plain_outcome ?L ?Op f f')"
      by (rule plain_state_step [OF inv assms(2) that(1-4)])
    then have "plain_outcome ?L ?Op f f'"
      by (simp add: assms(4))
    then show ?thesis
      using sw_inv_plain [OF assms(1) that(5) _ assms(3) wr] by (auto simp: plain_outcome_def)
  qed
  have "\<exists>w'. words_part ws f' (S \<union> shown f') w' \<and> decision_override f' = None"
  proof (cases "fl_state f")
    case SW_Words
    then have "in_words ws f w" "uint (internal_state f) = page_of w"
      using w inv assms(3) by (simp_all add: words_part_def in_words_def)
    from words_state_step [OF this assms(2), where 'd = unit and U = U] have o: "words_outcome M ws f w f'"
      by (simp add: assms(4))
    then show ?thesis
      using sw_inv_words [OF assms(1) SW_Words o] w by (auto simp: words_part_def words_outcome_def)
  next
    case SW_Instruction
    obtain s where s: "fl_store f ! 0 = EScreen s" "fr_swipe (scr_frame s) = config_with_swipe SwipeUp settings_default config_new"
      using sw_screens(1) [OF v] by blast
    show ?thesis
      by (rule plain [of s]) (use s SW_Instruction in \<open>simp_all add: at_screen\<close>)
  next
    case SW_Confirm
    obtain s where s: "fl_store f ! 2 = EScreen s" "fr_swipe (scr_frame s) = config_with_swipe SwipeDown settings_default config_new"
      using sw_screens(2) [OF v] by blast
    show ?thesis
      by (rule plain [of s]) (use s SW_Confirm in
        \<open>simp_all add: at_screen is_allowed_def config_index_def split: flow_msg.splits\<close>)
  next
    case SW_CheckBackupIntro
    obtain s where s: "fl_store f ! 3 = EScreen s" "fr_swipe (scr_frame s) = config_with_swipe SwipeUp settings_default config_new"
      using sw_screens(3) [OF v] by blast
    show ?thesis
      by (rule plain [of s]) (use s SW_CheckBackupIntro in \<open>simp_all add: at_screen\<close>)
  qed
  then show ?thesis
    using keep by (auto simp: sw_inv_def)
qed

text \<open>A run of the flow, with the set of the pages of words that were on the screen.\<close>

inductive words_run ::
  "(show_share_words, ('c, 'b, 'o) flow_element) swipe_flow \<Rightarrow> (show_share_words, ('c, 'b, 'o) flow_element) swipe_flow \<Rightarrow>
     int set \<Rightarrow> bool" for f0 where
  start: "words_run f0 f0 {}"
| step: "words_run f0 f S \<Longrightarrow> calm M ctx e \<Longrightarrow>
    flow_event U show_share_words_logic (mercury_ops M) ctx e f = (Inr (None, ctx', f') :: (_, unit) result) \<Longrightarrow>
    words_run f0 f' (S \<union> shown f')"

lemma words_run_inv:
  assumes "words_run (flow_new SW_Instruction (show_share_words_store r ws h c)) f S" "0 < length ws" "length ws \<le> 33"
  shows "sw_inv ws f S"
  using assms
proof (induction rule: words_run.induct)
  case start
  have "fits show_share_words_logic (show_share_words_store r ws h c :: ('a, 'b, 'c) flow_element list)"
    by (simp add: fits_def show_share_words_logic_def show_share_words_store_def split: show_share_words.split)
  moreover have "words_part ws (flow_new SW_Instruction (show_share_words_store r ws h c :: ('a, 'b, 'c) flow_element list))
      {} (words_screen_new ws h)"
    using start
    by (simp add: words_part_def flow_new_def show_share_words_store_def words_ok_def page_of_def words_screen_new_def
        words_inner_new_def with_vertical_pages_def with_swipe_def frame_new_def words_config_def)
  ultimately show ?case
    unfolding sw_inv_def by (simp add: flow_new_inv) (auto simp: sw_views_store flow_new_def)
next
  case (step f S M ctx e U ctx' f')
  then show ?case
    using sw_state_step by blast
qed

lemma sw_returns:
  "handle_swipe show_share_words_logic q d = DReturn m \<Longrightarrow> m = FConfirmed \<and> q = SW_CheckBackupIntro"
  "handle_event show_share_words_logic q m' = DReturn m \<Longrightarrow> m = FConfirmed \<and> q = SW_CheckBackupIntro"
  by (cases q; cases d; simp add: show_share_words_logic_def) (cases q; cases m'; simp add: show_share_words_logic_def)

text \<open>
  C6.  No word of a backup is skipped.  Whatever the user does, the page of words on the screen is the
  one the engine counts, and when the flow returns, it returns \<open>Confirmed\<close> and every one of the words has
  been on the screen.
\<close>

theorem every_word_shown:
  assumes "words_run (flow_new SW_Instruction (show_share_words_store r ws h c)) f S" "0 < length ws" "length ws \<le> 33"
  shows "(fl_state f = SW_Words \<longrightarrow> (\<exists>w. current_screen show_share_words_logic f = EWords w \<and>
        share_words (fr_content (ws_frame w)) = ws \<and> page_index (fr_content (ws_frame w)) = uint (internal_state f))) \<and>
    (flow_event U show_share_words_logic (mercury_ops M) ctx e f = (Inr (Some m, ctx', f') :: (_, unit) result) \<longrightarrow>
      m = FConfirmed \<and> fl_state f = SW_CheckBackupIntro \<and> {0..<int (length ws)} \<subseteq> S)"
proof (intro conjI impI)
  have inv: "sw_inv ws f S"
    by (rule words_run_inv [OF assms])
  then obtain w where w: "words_part ws f S w" and f: "flow_inv show_share_words_logic f"
    by (auto simp: sw_inv_def)
  show "\<exists>w. current_screen show_share_words_logic f = EWords w \<and> share_words (fr_content (ws_frame w)) = ws \<and>
      page_index (fr_content (ws_frame w)) = uint (internal_state f)" if "fl_state f = SW_Words"
    using w that by (auto simp: words_part_def current_screen_def words_ok_def page_of_def)
  assume r: "flow_event U show_share_words_logic (mercury_ops M) ctx e f = (Inr (Some m, ctx', f') :: (_, unit) result)"
  have "followed U show_share_words_logic (mercury_ops M) ctx e f (Some m) f'"
    using mercury_step [OF f r] by simp
  then have "(\<exists>dir. handle_swipe show_share_words_logic (fl_state f) dir = DReturn m) \<or>
      (\<exists>m'. handle_event show_share_words_logic (fl_state f) m' = DReturn m)"
    by (auto simp: followed_def)
  then have s: "m = FConfirmed" "fl_state f = SW_CheckBackupIntro"
    using sw_returns by blast+
  then show "m = FConfirmed" "fl_state f = SW_CheckBackupIntro"
    by simp_all
  show "{0..<int (length ws)} \<subseteq> S"
    using w s(2) by (auto simp: words_part_def)
qed

text \<open>A backup of two words: three swipes lead to the confirmation, a touch from there to the last screen.\<close>

definition example_backup :: "(show_share_words, (unit, unit, unit) flow_element) swipe_flow" where
  "example_backup = flow_new SW_Instruction (show_share_words_store (8, []) [[97], [98]] True (\<lambda>_. ()))"

definition example_backed_up :: "(show_share_words, (unit, unit, unit) flow_element) swipe_flow" where
  "example_backed_up =
     (let L = show_share_words_logic;
          f = example_swipe_up L (example_swipe_up L (example_swipe_up L example_backup));
          f = example_next L 600 (Touch (TouchEnd (point_new 60 100))) f;
          f = example_next L 700 (Touch (TouchStart (point_new 60 200))) f;
          f = example_next L 700 (Touch (TouchMove (point_new 60 150))) f in
      example_next L 700 (Touch (TouchEnd (point_new 60 100))) f)"

lemma example_next_words:
  assumes "\<exists>S. words_run f0 f S" "\<forall>s. e \<noteq> SwipeEv s"
  shows "\<exists>S. words_run f0 (example_next show_share_words_logic t e f) S"
proof -
  have "calm example_mercury ctx_new e"
    using assms(2) by (simp add: calm_def ctx_new_def example_mercury_def)
  then show ?thesis
    using assms(1) by (auto simp: example_next_def split: sum.split option.split) (blast intro: words_run.step)
qed

lemma example_swipe_up_words:
  "\<exists>S. words_run f0 f S \<Longrightarrow> \<exists>S. words_run f0 (example_swipe_up show_share_words_logic f) S"
  unfolding example_swipe_up_def Let_def by (intro example_next_words) simp_all

lemma example_backed_up_run: "\<exists>S. words_run example_backup example_backed_up S"
  unfolding example_backed_up_def Let_def
  by (intro example_next_words example_swipe_up_words) (auto intro: words_run.start)

theorem every_word_shown_witness:
  "\<exists>S. words_run example_backup example_backed_up S \<and> {0..<2} \<subseteq> S"
proof -
  let ?r = "flow_event (example_swipe 1300) show_share_words_logic (mercury_ops example_mercury) ctx_new
     (Timer ANIM_FRAME_TIMER) example_backed_up :: (_, unit) result"
  have "case ?r of Inr (m, _, _) \<Rightarrow> m = Some FConfirmed | _ \<Rightarrow> False"
    by code_simp
  then obtain ctx' f' where r: "?r = Inr (Some FConfirmed, ctx', f')"
    by (auto split: sum.splits)
  obtain S where S: "words_run example_backup example_backed_up S"
    using example_backed_up_run by blast
  have "{0..<int (length [[97], [98 :: 8 word]])} \<subseteq> S"
    using every_word_shown [OF S [unfolded example_backup_def], THEN conjunct2] r by force
  then show ?thesis
    using S by auto
qed

end
