(* ===== verification/Text_Layout.thy ===== *)
theory Text_Layout
  imports Geometry
begin

section \<open>Layout of text\<close>

text \<open>
  \<^verbatim>\<open>core/embed/rust/src/ui/component/text/layout.rs\<close>: breaking a text into lines and pages.  A \<open>&str\<close> is the list
  of its characters, by code point; indices into it are byte offsets of its UTF-8 encoding, as in the code.
  Font metrics come from C and are a parameter (record \<open>glyph_metrics\<close>); of an icon only the width matters here, and
  colours only to the renderers.  What the code reports to its sink is the list of events it returns.  The loop
  over lines can run for ever for some styles, so it returns an option.
\<close>

subsection \<open>Strings\<close>

type_synonym uchar = nat

definition len_utf8 :: "uchar \<Rightarrow> nat" where
  "len_utf8 c = (if c < 0x80 then 1 else if c < 0x800 then 2 else if c < 0x10000 then 3 else 4)"

definition str_len :: "uchar list \<Rightarrow> nat" where
  "str_len s = sum_list (map len_utf8 s)"

text \<open>Splitting at a byte offset, which panics inside a character or behind the end.\<close>

fun str_split :: "nat \<Rightarrow> uchar list \<Rightarrow> (uchar list \<times> uchar list) option" where
  "str_split n [] = (if n = 0 then Some ([], []) else None)"
| "str_split n (c # cs) =
     (if n = 0 then Some ([], c # cs)
      else if n < len_utf8 c then None
      else map_option (\<lambda>(a, b). (c # a, b)) (str_split (n - len_utf8 c) cs))"

text \<open>\<open>char::is_whitespace\<close>: the property White\_Space of Unicode.\<close>

definition unicode_whitespace :: "uchar \<Rightarrow> bool" where
  "unicode_whitespace c \<longleftrightarrow> 9 \<le> c \<and> c \<le> 13 \<or> 0x2000 \<le> c \<and> c \<le> 0x200A \<or>
     c \<in> {0x20, 0x85, 0xA0, 0x1680, 0x2028, 0x2029, 0x202F, 0x205F, 0x3000}"

definition trim_end :: "uchar list \<Rightarrow> uchar list" where
  "trim_end s = rev (dropWhile unicode_whitespace (rev s))"

subsection \<open>Styles and layouts\<close>

datatype line_breaking = BreakAtWhitespace | BreakWordsAndInsertHyphen | BreakWordsNoHyphen

datatype page_breaking = Cut | CutAndInsertEllipsis | CutAndInsertEllipsisBoth

record chunks =
  chunk_size :: nat
  x_offset :: int
  max_rows :: "nat option"

record glyph_metrics =
  char_width :: "uchar \<Rightarrow> int"
  text_width :: "uchar list \<Rightarrow> int"
  line_height :: int
  text_height :: int
  text_max_height :: int
  text_baseline :: int

record text_style =
  text_font :: glyph_metrics
  ellipsis_icon :: "(int \<times> int) option"
  prev_page_ellipsis_icon :: "(int \<times> int) option"
  line_breaking :: line_breaking
  page_breaking :: page_breaking
  style_chunks :: "chunks option"
  line_spacing :: int

record text_layout =
  tl_bounds :: rect
  padding_top :: int
  padding_bottom :: int
  style :: text_style
  tl_align :: alignment
  continues_from_prev_page :: bool

definition ELLIPSIS :: "uchar list" where
  "ELLIPSIS = [46, 46, 46]"

definition chunks_new :: "nat \<Rightarrow> int \<Rightarrow> chunks" where
  "chunks_new n x = \<lparr>chunk_size = n, x_offset = x, max_rows = None\<rparr>"

definition with_max_rows :: "chunks \<Rightarrow> nat \<Rightarrow> chunks" where
  "with_max_rows c n = c\<lparr>max_rows := Some n\<rparr>"

definition text_style_new :: "glyph_metrics \<Rightarrow> text_style" where
  "text_style_new f = \<lparr>text_font = f, ellipsis_icon = None, prev_page_ellipsis_icon = None,
     line_breaking = BreakAtWhitespace, page_breaking = CutAndInsertEllipsis, style_chunks = None,
     line_spacing = 0\<rparr>"

definition ellipsis_width :: "text_style \<Rightarrow> int" where
  "ellipsis_width s =
     (case ellipsis_icon s of Some (w, margin) \<Rightarrow> i16 (w + margin) | None \<Rightarrow> text_width (text_font s) ELLIPSIS)"

definition prev_page_ellipsis_width :: "text_style \<Rightarrow> int" where
  "prev_page_ellipsis_width s =
     (case prev_page_ellipsis_icon s of
        Some (w, margin) \<Rightarrow> i16 (w + margin) | None \<Rightarrow> text_width (text_font s) ELLIPSIS)"

definition prev_page_ellipsis_icon_width :: "text_style \<Rightarrow> int" where
  "prev_page_ellipsis_icon_width s = (case prev_page_ellipsis_icon s of Some (w, _) \<Rightarrow> w | None \<Rightarrow> 0)"

definition text_layout_new :: "text_style \<Rightarrow> text_layout" where
  "text_layout_new s = \<lparr>tl_bounds = rect_zero, padding_top = 0, padding_bottom = 0, style = s,
     tl_align = AlStart, continues_from_prev_page = False\<rparr>"

definition initial_cursor :: "text_layout \<Rightarrow> point" where
  "initial_cursor L =
     (let f = text_font (style L) in
      point_ofs (top_left (tl_bounds L))
        (offset_new 0 (i16 (i16 (text_max_height f - text_baseline f) + padding_top L))))"

definition bottom_y :: "text_layout \<Rightarrow> int" where
  "bottom_y L = max16 (i16 (y1 (tl_bounds L) - padding_bottom L)) (y0 (tl_bounds L))"

definition layout_height :: "text_layout \<Rightarrow> point \<Rightarrow> point \<Rightarrow> int" where
  "layout_height L init_cursor end_cursor =
     i16 (i16 (i16 (padding_top L + text_height (text_font (style L))) + i16 (pt_y end_cursor - pt_y init_cursor))
       + padding_bottom L)"

subsection \<open>One line\<close>

record span =
  sp_length :: nat
  skip_next_chars :: nat
  advance_x :: int
  advance_y :: int
  insert_hyphen :: bool

definition is_whitespace :: "uchar \<Rightarrow> bool" where
  "is_whitespace c \<longleftrightarrow> c = 32 \<or> c = 10 \<or> c = 13"

text \<open>The values that the loop of \<open>fit_horizontally\<close> reads and does not change.\<close>

record fit_env =
  fe_font :: glyph_metrics
  fe_max_width :: int
  fe_breaking :: line_breaking
  fe_chunks :: "chunks option"
  fe_incomplete :: int
  fe_complete :: int
  fe_use_hyphens :: bool

fun fit_loop :: "fit_env \<Rightarrow> nat \<Rightarrow> uchar list \<Rightarrow> int \<Rightarrow> bool \<Rightarrow> span \<Rightarrow> span" where
  "fit_loop E i [] span_width found_any_whitespace line =
     \<lparr>sp_length = i, skip_next_chars = 0, advance_x = span_width, advance_y = 0, insert_hyphen = False\<rparr>"
| "fit_loop E i (ch # rest) span_width found_any_whitespace line =
     (let w = char_width (fe_font E) ch in
      if (case fe_chunks E of None \<Rightarrow> False | Some c \<Rightarrow> i = chunk_size c) then
        (case fe_chunks E of
           None \<Rightarrow> line
         | Some c \<Rightarrow> line\<lparr>advance_y := 0, advance_x := i16 (advance_x line + x_offset c)\<rparr>)
      else if is_whitespace ch \<and> i16 (span_width + fe_complete E) \<le> fe_max_width E then
        let line' = line\<lparr>sp_length := i, advance_x := span_width, insert_hyphen := False, skip_next_chars := 1,
              advance_y := (if ch = 13 then line_height (fe_font E) sdiv 2 else advance_y line)\<rparr> in
        if ch = 10 \<or> ch = 13 then line'
        else fit_loop E (i + len_utf8 ch) rest (i16 (span_width + w)) True line'
      else if i16 (span_width + w) > fe_max_width E then line
      else
        let have_space_for_break = (i16 (i16 (span_width + w) + fe_incomplete E) \<le> fe_max_width E);
            can_break_word = (fe_breaking E \<noteq> BreakAtWhitespace \<or> \<not> found_any_whitespace);
            line' = (if have_space_for_break \<and> can_break_word
              then line\<lparr>sp_length := i + len_utf8 ch, advance_x := i16 (span_width + w),
                     insert_hyphen := fe_use_hyphens E, skip_next_chars := 0\<rparr>
              else line) in
        fit_loop E (i + len_utf8 ch) rest (i16 (span_width + w)) found_any_whitespace line')"

definition fit_horizontally ::
  "uchar list \<Rightarrow> int \<Rightarrow> glyph_metrics \<Rightarrow> line_breaking \<Rightarrow> int \<Rightarrow> chunks option \<Rightarrow> span" where
  "fit_horizontally s max_width f breaking line_ending_space chunks =
     (let fits_completely = (text_width f (trim_end s) \<le> max_width);
          use_hyphens = (breaking \<noteq> BreakWordsNoHyphen);
          incomplete = (if fits_completely then 0
            else if line_ending_space > 0 then line_ending_space
            else if use_hyphens then char_width f 45
            else 0);
          hyphens = (use_hyphens \<and> \<not> fits_completely \<and> \<not> line_ending_space > 0);
          complete = (if fits_completely then 0 else line_ending_space);
          line = \<lparr>sp_length = 0, skip_next_chars = 0, advance_x = 0, advance_y = line_height f,
            insert_hyphen = False\<rparr> in
      fit_loop \<lparr>fe_font = f, fe_max_width = max_width, fe_breaking = breaking, fe_chunks = chunks,
        fe_incomplete = incomplete, fe_complete = complete, fe_use_hyphens = hyphens\<rparr> 0 s 0 False line)"

subsection \<open>Lines of a page\<close>

datatype sink_event =
    SinkText point "uchar list" | SinkHyphen point | SinkEllipsis point | SinkPrevEllipsis point
  | SinkLineBreak point | SinkOutOfBounds

datatype layout_fit = Fitting nat int | OutOfBounds nat int

fun fit_height :: "layout_fit \<Rightarrow> int" where
  "fit_height (Fitting _ h) = h"
| "fit_height (OutOfBounds _ h) = h"

type_synonym 'a lres = "('a, unit) result"

text \<open>The mark that the text continues from the previous page.\<close>

definition layout_start :: "text_layout \<Rightarrow> point \<Rightarrow> point \<times> sink_event list" where
  "layout_start L cursor =
     (if page_breaking (style L) = CutAndInsertEllipsisBoth \<and> continues_from_prev_page L then
        case style_chunks (style L) of
          Some c \<Rightarrow>
            let letter_size = text_width (text_font (style L)) [97];
                icon_offset = i16 (prev_page_ellipsis_icon_width (style L) + 2);
                x' = i16 (pt_x cursor + i16 (i16 (i16 (int (chunk_size c)) * letter_size) - icon_offset)) in
            (cursor\<lparr>pt_x := i16 (x' + i16 (icon_offset + x_offset c))\<rparr>, [SinkPrevEllipsis (cursor\<lparr>pt_x := x'\<rparr>)])
        | None \<Rightarrow>
            (cursor\<lparr>pt_x := i16 (pt_x cursor + prev_page_ellipsis_width (style L))\<rparr>, [SinkPrevEllipsis cursor])
      else (cursor, []))"

text \<open>The span of the next line; with chunks the last one on a page gives way to the ellipsis.\<close>

definition next_span :: "text_layout \<Rightarrow> point \<Rightarrow> uchar list \<Rightarrow> span" where
  "next_span L cursor remaining =
     (let is_last_line = (i16 (pt_y cursor + line_height (text_font (style L))) > bottom_y L);
          line_ending_space = (if is_last_line then ellipsis_width (style L) else 0);
          remaining_width = i16 (x1 (tl_bounds L) - pt_x cursor);
          sp = fit_horizontally remaining remaining_width (text_font (style L)) (line_breaking (style L))
            line_ending_space (style_chunks (style L)) in
      case style_chunks (style L) of
        None \<Rightarrow> sp
      | Some c \<Rightarrow>
          if is_last_line \<and> i16 (i16 (2 * advance_x sp) - x_offset c) > remaining_width
             \<and> str_len remaining > chunk_size c
          then \<lparr>sp_length = 0, skip_next_chars = 0, advance_x = 2, advance_y = y1 (tl_bounds L),
                 insert_hyphen = False\<rparr>
          else sp)"

text \<open>
  The loop: the result says whether the bounds were left, and holds the cursor, the text that remains, and the
  events reported.
\<close>

partial_function (option) layout_loop ::
  "text_layout \<Rightarrow> nat \<Rightarrow> uchar list \<Rightarrow> point \<Rightarrow> sink_event list \<Rightarrow>
     (bool \<times> point \<times> uchar list \<times> sink_event list) lres option" where
  "layout_loop L num_lines remaining cursor evs =
     (if remaining = [] then Some (Inr (False, cursor, remaining, evs))
      else
        let force_next_page = (case style_chunks (style L) of None \<Rightarrow> False
              | Some c \<Rightarrow> (case max_rows c of None \<Rightarrow> False | Some n \<Rightarrow> num_lines \<ge> n));
            remaining_width = i16 (x1 (tl_bounds L) - pt_x cursor);
            sp = next_span L cursor remaining;
            cursor1 = cursor\<lparr>pt_x := i16 (pt_x cursor + (case tl_align L of
                AlStart \<Rightarrow> 0
              | AlCenter \<Rightarrow> i16 (remaining_width - advance_x sp) sdiv 2
              | AlEnd \<Rightarrow> i16 (remaining_width - advance_x sp)))\<rparr> in
        (case str_split (sp_length sp) remaining of
           None \<Rightarrow> Some (Inl Panic)
         | Some (shown, _) \<Rightarrow>
             (case str_split (sp_length sp + skip_next_chars sp) remaining of
                None \<Rightarrow> Some (Inl Panic)
              | Some (_, remaining') \<Rightarrow>
                  let evs1 = (if sp_length sp > 0 then evs @ [SinkText cursor1 shown] else evs);
                      cursor2 = cursor1\<lparr>pt_x := i16 (pt_x cursor1 + advance_x sp)\<rparr> in
                  if advance_y sp > 0 then
                    let adv = i16 (advance_y sp + line_spacing (style L));
                        evs2 = (if insert_hyphen sp then evs1 @ [SinkHyphen cursor2] else evs1) in
                    if force_next_page \<or> i16 (pt_y cursor2 + adv) > bottom_y L then
                      let evs3 = (if remaining' \<noteq> [] \<and> page_breaking (style L) \<noteq> Cut \<and> \<not> insert_hyphen sp
                            then evs2 @ [SinkEllipsis cursor2] else evs2) in
                      Some (Inr (True, cursor2, remaining', evs3 @ [SinkOutOfBounds]))
                    else
                      let cursor3 = \<lparr>pt_x = x0 (tl_bounds L), pt_y = i16 (pt_y cursor2 + adv)\<rparr> in
                      layout_loop L (num_lines + 1) remaining' cursor3 (evs2 @ [SinkLineBreak cursor3])
                  else layout_loop L num_lines remaining' cursor2 evs1)))"

definition layout_text ::
  "text_layout \<Rightarrow> uchar list \<Rightarrow> point \<Rightarrow> (layout_fit \<times> point \<times> sink_event list) lres option" where
  "layout_text L s cursor =
     (if pt_y cursor > bottom_y L then Some (Inr (OutOfBounds 0 0, cursor, [SinkOutOfBounds]))
      else
        let (cursor1, evs) = layout_start L cursor in
        map_option (\<lambda>r. rbind r (\<lambda>(out, cursor', remaining, evs').
          let height = layout_height L cursor cursor' in
          Inr (if out then OutOfBounds (str_len s - str_len remaining) height else Fitting (str_len s) height,
            cursor', evs')))
          (layout_loop L 1 s cursor1 evs))"

definition fit_text :: "text_layout \<Rightarrow> uchar list \<Rightarrow> layout_fit lres option" where
  "fit_text L s = map_option (\<lambda>r. rbind r (\<lambda>(fit, _). Inr fit)) (layout_text L s (initial_cursor L))"

subsection \<open>Facts about strings and spans\<close>

lemma len_utf8_pos [simp]: "0 < len_utf8 c"
  by (simp add: len_utf8_def)

lemma str_len_simps [simp]:
  "str_len [] = 0" "str_len (c # s) = len_utf8 c + str_len s" "str_len (s @ t) = str_len s + str_len t"
  by (simp_all add: str_len_def)

lemma str_len_0 [simp]: "str_len s = 0 \<longleftrightarrow> s = []"
  by (cases s) auto

lemma str_split_append [simp]: "str_split (str_len a) (a @ b) = Some (a, b)"
  by (induction a) (auto simp: neq_Nil_conv, cases b, auto)

lemma is_whitespace_len: "is_whitespace c \<Longrightarrow> len_utf8 c = 1"
  by (auto simp: is_whitespace_def len_utf8_def)

text \<open>
  \<open>span_ok t n k\<close>: a span of \<open>n\<close> bytes ends at a character boundary of the text \<open>t\<close>, and the \<open>k \<le> 1\<close> characters
  skipped behind it are whitespace.
\<close>

definition span_ok :: "uchar list \<Rightarrow> nat \<Rightarrow> nat \<Rightarrow> bool" where
  "span_ok t n k \<longleftrightarrow> (\<exists>a b c. t = a @ b @ c \<and> n = str_len a \<and> k = length b \<and> k \<le> 1 \<and> (\<forall>w \<in> set b. is_whitespace w))"

lemma span_okI: "\<forall>w \<in> set b. is_whitespace w \<Longrightarrow> length b \<le> 1 \<Longrightarrow> span_ok (a @ b @ c) (str_len a) (length b)"
  by (auto simp: span_ok_def)

lemma fit_loop_span:
  "span_ok (pre @ cs) (sp_length line) (skip_next_chars line) \<Longrightarrow>
     span_ok (pre @ cs) (sp_length (fit_loop E (str_len pre) cs w ws line))
       (skip_next_chars (fit_loop E (str_len pre) cs w ws line))"
proof (induction cs arbitrary: pre w ws line)
  case Nil
  show ?case using span_okI [of "[]" pre "[]"] by simp
next
  case (Cons ch rest)
  have one: "is_whitespace ch \<Longrightarrow> span_ok (pre @ ch # rest) (str_len pre) (Suc 0)"
    using span_okI [of "[ch]" pre rest] by simp
  have two: "span_ok (pre @ ch # rest) (str_len pre + len_utf8 ch) 0"
    using span_okI [of "[]" "pre @ [ch]" rest] by simp
  have step: "span_ok (pre @ ch # rest) (sp_length l) (skip_next_chars l) \<Longrightarrow>
      span_ok (pre @ ch # rest) (sp_length (fit_loop E (str_len pre + len_utf8 ch) rest w' ws' l))
        (skip_next_chars (fit_loop E (str_len pre + len_utf8 ch) rest w' ws' l))" for l w' ws'
    using Cons.IH [of "pre @ [ch]" l w' ws'] by simp
  show ?case
    unfolding fit_loop.simps Let_def
    using Cons.prems by (auto simp: one two step split: option.split)
qed

lemma fit_horizontally_span:
  "span_ok t (sp_length (fit_horizontally t w f br le ch)) (skip_next_chars (fit_horizontally t w f br le ch))"
  unfolding fit_horizontally_def Let_def
  using fit_loop_span [of "[]" t] span_okI [of "[]" "[]" t] by simp

lemma next_span_span: "span_ok t (sp_length (next_span L cur t)) (skip_next_chars (next_span L cur t))"
  using fit_horizontally_span span_okI [of "[]" "[]" t]
  by (simp add: next_span_def Let_def split: option.split)

lemma span_ok_split:
  assumes "span_ok t n k"
  obtains a b c where "t = a @ b @ c" "n = str_len a" "k = length b" "\<forall>w \<in> set b. is_whitespace w"
    "str_split n t = Some (a, b @ c)" "str_split (n + k) t = Some (a @ b, c)"
proof -
  obtain a b c where s: "t = a @ b @ c" "n = str_len a" "k = length b" "k \<le> 1" "\<forall>w \<in> set b. is_whitespace w"
    using assms by (auto simp: span_ok_def)
  then have "str_len b = length b" by (cases b) (auto simp: is_whitespace_len)
  with s that show thesis
    using str_split_append [of a "b @ c"] str_split_append [of "a @ b" c] by simp
qed

subsection \<open>What a page shows\<close>

definition visible :: "uchar list \<Rightarrow> uchar list" where
  "visible s = filter (\<lambda>c. \<not> is_whitespace c) s"

fun shown_text :: "sink_event list \<Rightarrow> uchar list" where
  "shown_text [] = []"
| "shown_text (SinkText _ s # evs) = s @ shown_text evs"
| "shown_text (_ # evs) = shown_text evs"

lemma shown_text_append [simp]: "shown_text (xs @ ys) = shown_text xs @ shown_text ys"
  by (induction xs rule: shown_text.induct) auto

lemma visible_append [simp]: "visible (s @ t) = visible s @ visible t"
  by (simp add: visible_def)

lemma visible_whitespace [simp]: "\<forall>w \<in> set s. is_whitespace w \<Longrightarrow> visible s = []"
  by (simp add: visible_def)

lemma layout_loop_shows:
  assumes "layout_loop L n rem cur evs = Some r"
  shows "\<exists>out cur' read rem' new. r = Inr (out, cur', rem', evs @ new) \<and> rem = read @ rem' \<and>
    visible (shown_text new) = visible read \<and> (\<not> out \<longrightarrow> rem' = [])"
proof (rule layout_loop.raw_induct [OF _ assms, where P = "\<lambda>L n rem cur evs r.
    \<exists>out cur' read rem' new. r = Inr (out, cur', rem', evs @ new) \<and> rem = read @ rem' \<and>
      visible (shown_text new) = visible read \<and> (\<not> out \<longrightarrow> rem' = [])"], goal_cases)
  case (1 loop L n rem cur evs r)
  show ?case
  proof (cases "rem = []")
    case True
    with "1"(2) show ?thesis by (auto simp: visible_def)
  next
    case False
    obtain a b c where s: "rem = a @ b @ c" "sp_length (next_span L cur rem) = str_len a"
      "\<forall>w \<in> set b. is_whitespace w"
      "str_split (sp_length (next_span L cur rem)) rem = Some (a, b @ c)"
      "str_split (sp_length (next_span L cur rem) + skip_next_chars (next_span L cur rem)) rem = Some (a @ b, c)"
      by (rule span_ok_split [OF next_span_span [of rem L cur]])
    have step: "\<exists>out cur' read rem' new. r = Inr (out, cur', rem', evs @ new) \<and> rem = read @ rem' \<and>
        visible (shown_text new) = visible read \<and> (\<not> out \<longrightarrow> rem' = [])"
      if "loop L n' c cur' (evs @ new) = Some r" "shown_text new = a" for n' cur' new
    proof -
      note ih = "1"(1) [OF that(1)]
      obtain out cur'' read rem' new' where "r = Inr (out, cur'', rem', (evs @ new) @ new')" "c = read @ rem'"
        "visible (shown_text new') = visible read" "\<not> out \<longrightarrow> rem' = []"
        using ih by blast
      then show ?thesis using s(1,3) that(2)
        by (intro exI [of _ out] exI [of _ cur''] exI [of _ "a @ b @ read"] exI [of _ rem'] exI [of _ "new @ new'"]) simp
    qed
    let ?sp = "next_span L cur rem"
    show ?thesis
    proof (cases "0 < sp_length ?sp")
      case True
      then show ?thesis
        using "1"(2) False s step
        by (auto simp: Let_def split: if_splits)
    next
      case no: False
      note none = step [where new = "[]", simplified]
      from no show ?thesis
        using "1"(2) False s step none
        by (auto simp: Let_def split: if_splits)
    qed
  qed
qed

subsection \<open>The loop ends\<close>

text \<open>Without chunks, a line that consumes nothing moves down by a full line.\<close>

definition moves_on :: "int \<Rightarrow> nat \<Rightarrow> span \<Rightarrow> bool" where
  "moves_on h n s \<longleftrightarrow> advance_y s = 0 \<and> skip_next_chars s = 0 \<and> sp_length s = n \<or>
     advance_y s = h \<or> skip_next_chars s = 1"

lemma fit_loop_advance:
  "fe_chunks E = None \<Longrightarrow> advance_y line = line_height (fe_font E) \<Longrightarrow>
     moves_on (line_height (fe_font E)) (i + str_len cs) (fit_loop E i cs w ws line)"
proof (induction cs arbitrary: i w ws line)
  case Nil
  then show ?case by (simp add: moves_on_def)
next
  case (Cons ch rest)
  have step: "advance_y l = line_height (fe_font E) \<Longrightarrow>
      moves_on (line_height (fe_font E)) (i + (len_utf8 ch + str_len rest)) (fit_loop E (i + len_utf8 ch) rest w' ws' l)"
    for w' ws' l
    using Cons.IH [of l "i + len_utf8 ch" w' ws'] Cons.prems(1) by (simp add: add.assoc)
  have stop: "moves_on (line_height (fe_font E)) m line"
    "skip_next_chars l = 1 \<Longrightarrow> moves_on (line_height (fe_font E)) m l" for m l
    using Cons.prems(2) by (simp_all add: moves_on_def)
  show ?case
    unfolding fit_loop.simps Let_def str_len_simps Cons.prems(1) option.case
    by (simp add: step stop Cons.prems(2))
qed

lemma fit_loop_advance_0:
  "fe_font E = f \<Longrightarrow> fe_chunks E = None \<Longrightarrow> advance_y line = line_height f \<Longrightarrow>
     moves_on (line_height f) (str_len cs) (fit_loop E 0 cs w ws line)"
  using fit_loop_advance [of E line 0 cs w ws] by simp

lemma next_span_advance:
  assumes "style_chunks (style L) = None"
  shows "moves_on (line_height (text_font (style L))) (str_len t) (next_span L cur t)"
  unfolding next_span_def fit_horizontally_def Let_def assms option.case
  by (rule fit_loop_advance_0) simp_all

lemma layout_loop_Nil [simp]: "layout_loop L n [] cur evs = Some (Inr (False, cur, [], evs))"
  by (simp add: layout_loop.simps)

text \<open>One turn of the loop: it ends, or it goes on with less text, or with the same text one line below.\<close>

lemma layout_loop_step:
  assumes "style_chunks (style L) = None" "0 < line_height (text_font (style L))" "rem \<noteq> []"
  obtains (ends) r where "layout_loop L n rem cur evs = Some r"
  | (less) n' rem' cur' evs' where "layout_loop L n rem cur evs = layout_loop L n' rem' cur' evs'"
      "length rem' < length rem" "pt_y cur' = pt_y cur \<or> - 32768 \<le> pt_y cur' \<and> pt_y cur' \<le> bottom_y L"
  | (down) n' cur' evs' where "layout_loop L n rem cur evs = layout_loop L n' rem cur' evs'"
      "pt_y cur' = i16 (pt_y cur + i16 (line_height (text_font (style L)) + line_spacing (style L)))"
      "pt_y cur' \<le> bottom_y L"
proof -
  let ?sp = "next_span L cur rem"
  obtain a b c where s: "rem = a @ b @ c" "sp_length ?sp = str_len a" "skip_next_chars ?sp = length b"
    "str_split (sp_length ?sp) rem = Some (a, b @ c)"
    "str_split (sp_length ?sp + skip_next_chars ?sp) rem = Some (a @ b, c)"
    by (rule span_ok_split [OF next_span_span [of rem L cur]])
  note unfold = layout_loop.simps [of L n rem cur evs] assms(1,3) s(4,5)
  let ?y = "i16 (pt_y cur + i16 (advance_y ?sp + line_spacing (style L)))"
  have stay: "\<exists>cur' evs'. layout_loop L n rem cur evs = layout_loop L n c cur' evs' \<and> pt_y cur' = pt_y cur"
    if "\<not> 0 < advance_y ?sp"
    by (rule exI, rule exI, rule conjI) (simp add: unfold that Let_def, simp)
  have stop: "\<exists>r. layout_loop L n rem cur evs = Some r" if "0 < advance_y ?sp" "?y > bottom_y L"
    by (simp add: unfold that Let_def)
  have go: "\<exists>cur' evs'. layout_loop L n rem cur evs = layout_loop L (n + 1) c cur' evs' \<and> pt_y cur' = ?y"
    if "0 < advance_y ?sp" "\<not> ?y > bottom_y L"
    by (rule exI, rule exI, rule conjI) (use that in \<open>simp add: unfold Let_def\<close>, simp)
  have "(\<exists>r. layout_loop L n rem cur evs = Some r) \<or>
    (\<exists>n' cur' evs'. layout_loop L n rem cur evs = layout_loop L n' c cur' evs' \<and>
       (advance_y ?sp \<le> 0 \<and> pt_y cur' = pt_y cur \<or> pt_y cur' = ?y \<and> pt_y cur' \<le> bottom_y L))"
    (is "?ends \<or> (\<exists>n' cur' evs'. ?goes n' cur' evs')")
  proof (cases "0 < advance_y ?sp")
    case True
    then show ?thesis using stop go by (cases "?y > bottom_y L") (blast, metis linorder_not_less)
  next
    case False
    then show ?thesis using stay by (metis linorder_not_less)
  qed
  then consider (e) ?ends | (g) n' cur' evs' where "?goes n' cur' evs'" by blast
  then show thesis
  proof cases
    case e
    then show thesis using ends by blast
  next
    case g
    show thesis
    proof (cases "a @ b = []")
      case True
      then have "advance_y ?sp = line_height (text_font (style L))"
        using next_span_advance [OF assms(1), of rem cur] s assms(3) by (auto simp: moves_on_def)
      with g True s(1) assms(2) show thesis using down [of n' cur' evs'] by auto
    next
      case False
      then have "length c < length rem" using s(1) by auto
      moreover have "- 32768 \<le> i16 x" for x using i16_bounds [of x] by simp
      ultimately show thesis using g less [of n' c cur' evs'] by metis
    qed
  qed
qed

lemma layout_loop_ends:
  assumes "style_chunks (style L) = None"
    and "0 < line_height (text_font (style L))"
    and "0 < line_height (text_font (style L)) + line_spacing (style L)"
    and "bottom_y L + (line_height (text_font (style L)) + line_spacing (style L)) \<le> 32767"
    and "line_height (text_font (style L)) + line_spacing (style L) \<le> 32767"
    and "- 32768 \<le> pt_y cur" "pt_y cur \<le> bottom_y L"
  shows "\<exists>r. layout_loop L n rem cur evs = Some r"
  using assms(6,7)
proof (induction "length rem * 65537 + nat (bottom_y L - pt_y cur)" arbitrary: rem cur n evs rule: less_induct)
  case less
  let ?adv = "line_height (text_font (style L)) + line_spacing (style L)"
  have bound: "nat (bottom_y L - y) < 65537" if "- 32768 \<le> y" for y
    using that assms(3,4) by linarith
  show ?case
  proof (cases "rem = []")
    case False
    show ?thesis
    proof (rule layout_loop_step [OF assms(1,2) False, of n cur evs])
      fix n' rem' cur' evs'
      assume h: "layout_loop L n rem cur evs = layout_loop L n' rem' cur' evs'" "length rem' < length rem"
        "pt_y cur' = pt_y cur \<or> - 32768 \<le> pt_y cur' \<and> pt_y cur' \<le> bottom_y L"
      then have y: "- 32768 \<le> pt_y cur'" "pt_y cur' \<le> bottom_y L" using less.prems by auto
      have "Suc (length rem') * 65537 \<le> length rem * 65537" using h(2) by (intro mult_le_mono) auto
      then have "length rem' * 65537 + nat (bottom_y L - pt_y cur') < length rem * 65537 + nat (bottom_y L - pt_y cur)"
        using bound [OF y(1)] by simp
      from less.hyps [OF this y] h(1) show ?thesis by metis
    next
      fix n' cur' evs'
      assume h: "layout_loop L n rem cur evs = layout_loop L n' rem cur' evs'"
        "pt_y cur' = i16 (pt_y cur + i16 ?adv)" "pt_y cur' \<le> bottom_y L"
      have "i16 ?adv = ?adv" using assms(3,5) by (intro i16_id) auto
      moreover have "i16 (pt_y cur + ?adv) = pt_y cur + ?adv" using assms(3,4) less.prems by (intro i16_id) auto
      ultimately have y: "pt_y cur' = pt_y cur + ?adv" using h(2) by simp
      then have "nat (bottom_y L - pt_y cur') < nat (bottom_y L - pt_y cur)" using h(3) assms(3) by linarith
      then have "length rem * 65537 + nat (bottom_y L - pt_y cur') < length rem * 65537 + nat (bottom_y L - pt_y cur)"
        by simp
      moreover have "- 32768 \<le> pt_y cur'" using y less.prems(1) assms(3) by linarith
      ultimately have "\<exists>r. layout_loop L n' rem cur' evs' = Some r" using less.hyps h(3) by blast
      with h(1) show ?thesis by metis
    qed blast
  qed simp
qed

subsection \<open>Properties\<close>

lemma layout_start_events: "layout_start L cur = (cur', evs) \<Longrightarrow> shown_text evs = [] \<and> pt_y cur' = pt_y cur"
  by (auto simp: layout_start_def Let_def split: if_splits option.splits)

text \<open>What a layout that returns has shown.\<close>

lemma layout_text_shows:
  assumes "layout_text L s cur = Some r"
  shows "\<exists>fit cur' evs read rest. r = Inr (fit, cur', evs) \<and> s = read @ rest \<and>
    visible (shown_text evs) = visible read \<and>
    (case fit of Fitting n _ \<Rightarrow> rest = [] \<and> n = str_len s | OutOfBounds n _ \<Rightarrow> n = str_len read)"
proof (cases "pt_y cur > bottom_y L")
  case True
  with assms show ?thesis by (auto simp: layout_text_def visible_def)
next
  case False
  obtain cur1 evs where start: "layout_start L cur = (cur1, evs)" by fastforce
  with assms False obtain q where q: "layout_loop L 1 s cur1 evs = Some q"
    "r = rbind q (\<lambda>(out, cursor', remaining, evs').
       Inr (if out then OutOfBounds (str_len s - str_len remaining) (layout_height L cur cursor')
         else Fitting (str_len s) (layout_height L cur cursor'), cursor', evs'))"
    by (auto simp: layout_text_def Let_def)
  from layout_loop_shows [OF q(1)] obtain out cur' read rem' new where
    h: "q = Inr (out, cur', rem', evs @ new)" "s = read @ rem'" "visible (shown_text new) = visible read"
      "\<not> out \<longrightarrow> rem' = []" by blast
  let ?fit = "if out then OutOfBounds (str_len s - str_len rem') (layout_height L cur cur')
      else Fitting (str_len s) (layout_height L cur cur')"
  show ?thesis
    using h q(2) layout_start_events [OF start]
    by (intro exI [of _ ?fit] exI [of _ cur'] exI [of _ "evs @ new"] exI [of _ read] exI [of _ rem'])
      (simp add: visible_def)
qed

text \<open>Laying out returns when every line moves the cursor down.\<close>

lemma layout_text_ends:
  assumes "style_chunks (style L) = None"
    and "0 < line_height (text_font (style L))"
    and "0 < line_height (text_font (style L)) + line_spacing (style L)"
    and "bottom_y L + (line_height (text_font (style L)) + line_spacing (style L)) \<le> 32767"
    and "line_height (text_font (style L)) + line_spacing (style L) \<le> 32767"
    and "- 32768 \<le> pt_y cur"
  shows "\<exists>r. layout_text L s cur = Some r"
proof (cases "pt_y cur > bottom_y L")
  case True
  then show ?thesis by (simp add: layout_text_def)
next
  case False
  obtain cur1 evs where start: "layout_start L cur = (cur1, evs)" by fastforce
  then have "pt_y cur1 = pt_y cur" using layout_start_events by blast
  then obtain r where "layout_loop L 1 s cur1 evs = Some r"
    using layout_loop_ends [OF assms(1-5), of cur1 1 s evs] assms(6) False by auto
  with False start show ?thesis by (simp add: layout_text_def)
qed

text \<open>
  The text of a page.  For a style without chunks, with a line height and a spacing that move the cursor down,
  and bounds whose lower edge is a line away from the largest coordinate, laying out a text ends and never panics (all
  offsets are at character boundaries).  What is reported to the sink is the beginning of the text, in order and
  without repetition, with every character that is not whitespace; the layout reports that the text fits
  exactly if this is the whole text, and otherwise the number of bytes of the part that was laid out.
\<close>

theorem layout_text_complete:
  assumes "style_chunks (style L) = None"
    and "0 < line_height (text_font (style L))"
    and "0 < line_height (text_font (style L)) + line_spacing (style L)"
    and "bottom_y L + (line_height (text_font (style L)) + line_spacing (style L)) \<le> 32767"
    and "line_height (text_font (style L)) + line_spacing (style L) \<le> 32767"
    and "- 32768 \<le> pt_y cur"
  shows "\<exists>fit cur' evs read rest. layout_text L s cur = Some (Inr (fit, cur', evs)) \<and> s = read @ rest \<and>
    visible (shown_text evs) = visible read \<and>
    (case fit of Fitting n _ \<Rightarrow> rest = [] \<and> n = str_len s | OutOfBounds n _ \<Rightarrow> n = str_len read)"
  using layout_text_ends [OF assms] layout_text_shows by blast

definition fixed_font :: glyph_metrics where
  "fixed_font = \<lparr>char_width = (\<lambda>_. 1), text_width = (\<lambda>s. int (length s)), line_height = 1, text_height = 1,
     text_max_height = 1, text_baseline = 0\<rparr>"

theorem layout_text_complete_witness:
  "\<exists>fit cur' evs read rest.
     layout_text ((text_layout_new (text_style_new fixed_font))\<lparr>tl_bounds := \<lparr>x0 = 0, y0 = 0, x1 = 5, y1 = 2\<rparr>\<rparr>)
       [104, 101, 108, 108, 111, 32, 119] \<lparr>pt_x = 0, pt_y = 1\<rparr> = Some (Inr (fit, cur', evs)) \<and>
     [104, 101, 108, 108, 111, 32, 119] = read @ rest \<and> visible (shown_text evs) = visible read \<and>
     (case fit of Fitting n _ \<Rightarrow> rest = [] \<and> n = str_len [104, 101, 108, 108, 111, 32, 119] | OutOfBounds n _ \<Rightarrow> n = str_len read)"
  using layout_text_complete [of "(text_layout_new (text_style_new fixed_font))\<lparr>tl_bounds := \<lparr>x0 = 0, y0 = 0, x1 = 5, y1 = 2\<rparr>\<rparr>"
      "\<lparr>pt_x = 0, pt_y = 1\<rparr>" "[104, 101, 108, 108, 111, 32, 119]"]
  by (simp add: text_layout_new_def text_style_new_def fixed_font_def bottom_y_def max16_def i16_id)

end
