(* ===== verification/Paragraphs.thy ===== *)
theory Paragraphs
  imports Text_Layout
begin

section \<open>Paragraphs and pages\<close>

text \<open>
  \<^verbatim>\<open>core/embed/rust/src/ui/component/text/paragraphs.rs\<close>: a list of paragraphs, where its pages begin, and what is
  visible on a page.  The source of paragraphs is the vector or array of them; a \<open>TString\<close> is its text.  The
  offset of a page is a paragraph and a byte offset in it.
\<close>

subsection \<open>Paragraphs\<close>

record para =
  content :: "uchar list"
  par_style :: text_style
  par_align :: alignment
  break_after :: bool
  no_break :: bool
  par_padding_top :: int
  par_padding_bottom :: int

record page_offset =
  par :: nat
  chr :: nat

record text_layout_proxy =
  proxy_offset :: page_offset
  proxy_bounds :: rect

record paragraphs =
  ps_area :: rect
  ps_placement :: linear_placement
  ps_offset :: page_offset
  ps_visible :: "text_layout_proxy list"
  source :: "para list"

definition MAX_LINES :: nat where "MAX_LINES = 10"

definition PARAGRAPH_TOP_SPACE :: int where "PARAGRAPH_TOP_SPACE = - 1"

definition PARAGRAPH_BOTTOM_SPACE :: int where "PARAGRAPH_BOTTOM_SPACE = 5"

definition paragraph_new :: "text_style \<Rightarrow> uchar list \<Rightarrow> para" where
  "paragraph_new st s = \<lparr>content = s, par_style = st, par_align = AlStart, break_after = False, no_break = False,
     par_padding_top = PARAGRAPH_TOP_SPACE, par_padding_bottom = PARAGRAPH_BOTTOM_SPACE\<rparr>"

definition paragraph_skip_prefix :: "para \<Rightarrow> nat \<Rightarrow> para lres" where
  "paragraph_skip_prefix p offset =
     (case str_split offset (content p) of None \<Rightarrow> Inl Panic | Some (_, rest) \<Rightarrow> Inr (p\<lparr>content := rest\<rparr>))"

definition centered :: "para \<Rightarrow> para" where "centered p = p\<lparr>par_align := AlCenter\<rparr>"

definition with_break_after :: "para \<Rightarrow> para" where "with_break_after p = p\<lparr>break_after := True\<rparr>"

definition with_no_break :: "para \<Rightarrow> para" where "with_no_break p = p\<lparr>no_break := True\<rparr>"

definition with_top_padding :: "para \<Rightarrow> int \<Rightarrow> para" where "with_top_padding p n = p\<lparr>par_padding_top := n\<rparr>"

definition with_bottom_padding :: "para \<Rightarrow> int \<Rightarrow> para" where
  "with_bottom_padding p n = p\<lparr>par_padding_bottom := n\<rparr>"

definition paragraph_update :: "para \<Rightarrow> uchar list \<Rightarrow> para" where "paragraph_update p s = p\<lparr>content := s\<rparr>"

text \<open>Appending to a vector of capacity \<open>n\<close>: empty paragraphs are left out, and so is one that has no room.\<close>

definition paragraph_add :: "nat \<Rightarrow> para list \<Rightarrow> para \<Rightarrow> para list" where
  "paragraph_add n ps p = (if content p = [] then ps else if length ps < n then ps @ [p] else ps)"

definition paragraph_at :: "para list \<Rightarrow> nat \<Rightarrow> nat \<Rightarrow> para lres" where
  "paragraph_at ps index offset = rbind (unwrap (nth_get ps index)) (\<lambda>p. paragraph_skip_prefix p offset)"

definition paragraph_layout :: "para \<Rightarrow> rect \<Rightarrow> text_layout" where
  "paragraph_layout p area = (text_layout_new (par_style p))\<lparr>tl_align := par_align p, tl_bounds := area,
     padding_top := par_padding_top p, padding_bottom := par_padding_bottom p\<rparr>"

definition DEFAULT_SPACING :: int where "DEFAULT_SPACING = 0"

definition paragraphs_new :: "para list \<Rightarrow> paragraphs" where
  "paragraphs_new ps = \<lparr>ps_area = rect_zero,
     ps_placement = linear_with_spacing (align_at_center linear_vertical) DEFAULT_SPACING,
     ps_offset = \<lparr>par = 0, chr = 0\<rparr>, ps_visible = [], source = ps\<rparr>"

definition par_with_placement :: "paragraphs \<Rightarrow> linear_placement \<Rightarrow> paragraphs" where
  "par_with_placement t lp = t\<lparr>ps_placement := lp\<rparr>"

definition par_with_spacing :: "paragraphs \<Rightarrow> int \<Rightarrow> paragraphs" where
  "par_with_spacing t n = t\<lparr>ps_placement := linear_with_spacing (ps_placement t) n\<rparr>"

definition proxy_layout :: "para list \<Rightarrow> text_layout_proxy \<Rightarrow> text_layout lres" where
  "proxy_layout ps x =
     rbind (paragraph_at ps (par (proxy_offset x)) (chr (proxy_offset x))) (\<lambda>p.
       Inr ((paragraph_layout p (proxy_bounds x))\<lparr>continues_from_prev_page := chr (proxy_offset x) > 0\<rparr>))"

subsection \<open>Where pages begin\<close>

definition pbind :: "'a lres option \<Rightarrow> ('a \<Rightarrow> 'b lres option) \<Rightarrow> 'b lres option" where
  "pbind r f = (case r of None \<Rightarrow> None | Some (Inl e) \<Rightarrow> Some (Inl e) | Some (Inr x) \<Rightarrow> f x)"

definition should_place_pair_on_next_page ::
  "para \<Rightarrow> para \<Rightarrow> rect \<Rightarrow> int \<Rightarrow> bool lres option" where
  "should_place_pair_on_next_page this_par next_par area full_height =
     (let remaining_height = height area in
      if remaining_height \<ge> full_height then Some (Inr False)
      else
        let full_area = with_height area full_height in
        pbind (fit_text (paragraph_layout this_par full_area) (content this_par)) (\<lambda>key_fit.
        pbind (fit_text (paragraph_layout next_par full_area) (content next_par)) (\<lambda>val_fit.
          let key_height = fit_height key_fit; val_height = fit_height val_fit;
              screen_full_threshold =
                i16 (line_height (text_font (par_style this_par)) + line_height (text_font (par_style next_par))) in
          Some (Inr (i16 (key_height + val_height) > remaining_height \<and>
            (remaining_height \<le> screen_full_threshold
             \<or> val_height > 0 \<and> key_height > remaining_height
             \<or> i16 (key_height + val_height) \<le> full_height))))))"

definition page_advance ::
  "para list \<Rightarrow> page_offset \<Rightarrow> rect \<Rightarrow> int \<Rightarrow> (page_offset \<times> rect option \<times> text_layout_proxy option) lres option" where
  "page_advance ps off area full_height =
     pbind (Some (paragraph_at ps (par off) (chr off))) (\<lambda>p.
       if content p = [] then Some (Inr (\<lparr>par = par off + 1, chr = 0\<rparr>, Some area, None))
       else
         pbind (if no_break p \<and> chr off = 0 \<and> par off + 1 < length ps then
                  pbind (Some (paragraph_at ps (par off + 1) 0)) (\<lambda>next_par.
                    should_place_pair_on_next_page p next_par area full_height)
                else Some (Inr False)) (\<lambda>next_page.
           if next_page then Some (Inr (off, None, None))
           else
             pbind (fit_text ((paragraph_layout p area)\<lparr>continues_from_prev_page := chr off > 0\<rparr>) (content p)) (\<lambda>fit.
               let (used, remaining_area) = split_top area (fit_height fit);
                   (off', page_full) = (case fit of
                       Fitting _ _ \<Rightarrow> (\<lparr>par = par off + 1, chr = 0\<rparr>, break_after p)
                     | OutOfBounds n _ \<Rightarrow> (off\<lparr>chr := chr off + n\<rparr>, True)) in
               Some (Inr (off', if page_full then None else Some remaining_area,
                 if fit_height fit > 0 then Some \<lparr>proxy_offset = off, proxy_bounds = used\<rparr> else None)))))"

partial_function (option) dyn_next ::
  "para list \<Rightarrow> rect \<Rightarrow> int \<Rightarrow> page_offset \<Rightarrow> page_offset option lres option" where
  "dyn_next ps area full_height off =
     (if par off < length ps then
        (case page_advance ps off area full_height of
           None \<Rightarrow> None
         | Some (Inl e) \<Rightarrow> Some (Inl e)
         | Some (Inr (off', remaining_area, _)) \<Rightarrow>
             if par off' \<ge> length ps then Some (Inr None)
             else (case remaining_area of
                 Some area' \<Rightarrow> dyn_next ps area' full_height off'
               | None \<Rightarrow> Some (Inr (Some off'))))
      else Some (Inr None))"

definition page_break_next :: "paragraphs \<Rightarrow> page_offset option \<Rightarrow> page_offset option lres option" where
  "page_break_next t current =
     (case current of
        None \<Rightarrow> Some (Inr (Some \<lparr>par = 0, chr = 0\<rparr>))
      | Some off \<Rightarrow>
          pbind (dyn_next (source t) (ps_area t) (height (ps_area t)) off) (\<lambda>n.
            if n = Some off then Some (Inl Panic) else Some (Inr n)))"

text \<open>The offsets that the iterator yields, from the given one on.\<close>

partial_function (option) break_pages_from ::
  "paragraphs \<Rightarrow> page_offset option \<Rightarrow> page_offset list \<Rightarrow> page_offset list lres option" where
  "break_pages_from t current offs =
     (case page_break_next t current of
        None \<Rightarrow> None
      | Some (Inl e) \<Rightarrow> Some (Inl e)
      | Some (Inr n) \<Rightarrow>
          (case n of
             None \<Rightarrow> Some (Inr offs)
           | Some off \<Rightarrow> break_pages_from t (Some off) (offs @ [off])))"

definition break_pages :: "paragraphs \<Rightarrow> page_offset list lres option" where
  "break_pages t = break_pages_from t None []"

definition par_page_count :: "paragraphs \<Rightarrow> nat lres option" where
  "par_page_count t = pbind (break_pages t) (\<lambda>offs. Some (Inr (max (length offs) 1)))"

subsection \<open>What is visible on a page\<close>

partial_function (option) visible_loop ::
  "para list \<Rightarrow> rect \<Rightarrow> int \<Rightarrow> page_offset \<Rightarrow> text_layout_proxy list \<Rightarrow> text_layout_proxy list lres option" where
  "visible_loop ps area full_height off vis =
     (if par off < length ps then
        (case page_advance ps off area full_height of
           None \<Rightarrow> None
         | Some (Inl e) \<Rightarrow> Some (Inl e)
         | Some (Inr (off', remaining_area, layout)) \<Rightarrow>
             if layout \<noteq> None \<and> length vis \<ge> MAX_LINES then Some (Inl Panic)
             else
               let vis' = (case layout of None \<Rightarrow> vis | Some l \<Rightarrow> vis @ [l]) in
               (case remaining_area of
                  Some area' \<Rightarrow> visible_loop ps area' full_height off' vis'
                | None \<Rightarrow> Some (Inr vis')))
      else Some (Inr vis))"

definition arrange_proxies :: "linear_placement \<Rightarrow> rect \<Rightarrow> text_layout_proxy list \<Rightarrow> text_layout_proxy list" where
  "arrange_proxies lp area vis =
     map (\<lambda>(x, r). x\<lparr>proxy_bounds := r\<rparr>) (zip vis (arrange lp area (map proxy_bounds vis)))"

definition change_offset :: "paragraphs \<Rightarrow> page_offset \<Rightarrow> paragraphs lres option" where
  "change_offset t off =
     pbind (visible_loop (source t) (ps_area t) (height (ps_area t)) off []) (\<lambda>vis.
       Some (Inr (t\<lparr>ps_offset := off, ps_visible := arrange_proxies (ps_placement t) (ps_area t) vis\<rparr>)))"

definition par_place :: "paragraphs \<Rightarrow> rect \<Rightarrow> paragraphs lres option" where
  "par_place t bounds = change_offset (t\<lparr>ps_area := bounds\<rparr>) (ps_offset t)"

text \<open>The item at an index of the iterator, which does not go beyond it.\<close>

primrec page_nth :: "nat \<Rightarrow> paragraphs \<Rightarrow> page_offset option \<Rightarrow> page_offset option lres option" where
  "page_nth 0 t current = page_break_next t current"
| "page_nth (Suc n) t current =
     pbind (page_break_next t current) (\<lambda>nxt.
       case nxt of None \<Rightarrow> Some (Inr None) | Some off \<Rightarrow> page_nth n t (Some off))"

definition par_change_page :: "paragraphs \<Rightarrow> nat \<Rightarrow> paragraphs lres option" where
  "par_change_page t to_page =
     pbind (page_nth to_page t None) (\<lambda>nxt.
       case nxt of
         Some off \<Rightarrow> change_offset t off
       | None \<Rightarrow> Some (Inr (t\<lparr>ps_offset := \<lparr>par = 0, chr = 0\<rparr>, ps_visible := []\<rparr>)))"

fun foreach_visible ::
  "para list \<Rightarrow> text_layout_proxy list \<Rightarrow> nat \<Rightarrow> nat \<Rightarrow> nat \<Rightarrow> (text_layout \<times> uchar list) list lres" where
  "foreach_visible ps vis 0 i k = Inr []"
| "foreach_visible ps vis (Suc n) i k =
     rbind (paragraph_at ps i k) (\<lambda>p.
       if content p = [] then foreach_visible ps vis n (i + 1) 0
       else (case vis of
           [] \<Rightarrow> Inr []
         | x # vis' \<Rightarrow>
             rbind (proxy_layout ps x) (\<lambda>l.
             rbind (foreach_visible ps vis' n (i + 1) 0) (\<lambda>ls. Inr ((l, content p) # ls)))))"

fun render_layouts :: "(text_layout \<times> uchar list) list \<Rightarrow> sink_event list lres option" where
  "render_layouts [] = Some (Inr [])"
| "render_layouts ((l, s) # ls) =
     pbind (layout_text l s (initial_cursor l)) (\<lambda>(_, _, evs).
     pbind (render_layouts ls) (\<lambda>evs'. Some (Inr (evs @ evs'))))"

definition par_render :: "paragraphs \<Rightarrow> sink_event list lres option" where
  "par_render t =
     pbind (Some (foreach_visible (source t) (ps_visible t) (length (source t) - par (ps_offset t))
       (par (ps_offset t)) (chr (ps_offset t)))) render_layouts"

subsection \<open>Page breaks\<close>

lemma pbind_simps [simp]:
  "pbind None f = None" "pbind (Some (Inl e)) f = Some (Inl e)" "pbind (Some (Inr x)) f = f x"
  by (simp_all add: pbind_def)

text \<open>
  Paragraphs without chunks and with moderate sizes, and areas on a screen.  The bounds keep all coordinates far
  from the limits of \<open>i16\<close>.
\<close>

definition layoutable :: "para \<Rightarrow> bool" where
  "layoutable p \<longleftrightarrow> style_chunks (par_style p) = None \<and> 0 < line_height (text_font (par_style p)) \<and>
     0 < line_height (text_font (par_style p)) + line_spacing (par_style p) \<and>
     line_height (text_font (par_style p)) + line_spacing (par_style p) \<le> 1000 \<and>
     - 1000 \<le> par_padding_bottom p \<and> par_padding_bottom p \<le> 1000"

definition area_ok :: "rect \<Rightarrow> bool" where
  "area_ok r \<longleftrightarrow> 0 \<le> y0 r \<and> y0 r \<le> y1 r \<and> y1 r \<le> 10000"

lemma area_ok_height: "area_ok r \<Longrightarrow> height r = y1 r - y0 r"
  by (simp add: area_ok_def height_def i16_id)

lemma area_ok_split: "area_ok r \<Longrightarrow> area_ok (snd (split_top r h))"
  by (auto simp: split_top_def area_ok_height clamp16_def Let_def) (auto simp: area_ok_def i16_id)

lemma paragraph_layout_sel [simp]:
  "style (paragraph_layout p a) = par_style p" "tl_bounds (paragraph_layout p a) = a"
  "padding_bottom (paragraph_layout p a) = par_padding_bottom p"
  "padding_top (paragraph_layout p a) = par_padding_top p"
  by (simp_all add: paragraph_layout_def text_layout_new_def)

lemma bottom_y_le:
  assumes "layoutable p" "- 20000 \<le> y0 (tl_bounds L)" "y0 (tl_bounds L) \<le> 20000" "- 20000 \<le> y1 (tl_bounds L)" "y1 (tl_bounds L) \<le> 20000"
    and "padding_bottom L = par_padding_bottom p"
  shows "bottom_y L \<le> 21000"
  using assms by (auto simp: bottom_y_def max16_def layoutable_def i16_id)

definition fit_ok :: "uchar list \<Rightarrow> layout_fit \<Rightarrow> bool" where
  "fit_ok s fit \<longleftrightarrow> (\<forall>n h. fit = OutOfBounds n h \<longrightarrow> (\<exists>read rest. s = read @ rest \<and> n = str_len read))"

lemma fit_text_ends:
  assumes "layoutable p" "style L = par_style p" "padding_bottom L = par_padding_bottom p"
    "- 20000 \<le> y0 (tl_bounds L)" "y0 (tl_bounds L) \<le> 20000" "- 20000 \<le> y1 (tl_bounds L)" "y1 (tl_bounds L) \<le> 20000"
  shows "\<exists>fit. fit_text L s = Some (Inr fit) \<and> fit_ok s fit"
proof -
  have "bottom_y L \<le> 21000" using bottom_y_le assms by blast
  moreover have "- 32768 \<le> pt_y (initial_cursor L)"
    by (simp add: initial_cursor_def point_ofs_def point_new_def Let_def i16_bounds)
  ultimately obtain r where r: "layout_text L s (initial_cursor L) = Some r"
    using assms(1,2) layout_text_ends [of L "initial_cursor L" s] by (auto simp: layoutable_def)
  from layout_text_shows [OF r] obtain fit cur' evs read rest where
    h: "r = Inr (fit, cur', evs)" "s = read @ rest"
      "case fit of Fitting n _ \<Rightarrow> rest = [] \<and> n = str_len s | OutOfBounds n _ \<Rightarrow> n = str_len read" by blast
  then have "fit_ok s fit" by (auto simp: fit_ok_def)
  with r h(1) show ?thesis by (simp add: fit_text_def)
qed

text \<open>Offsets: at a character boundary of a paragraph, and in the order of reading.\<close>

definition off_ok :: "para list \<Rightarrow> page_offset \<Rightarrow> bool" where
  "off_ok ps off \<longleftrightarrow> (par off < length ps \<longrightarrow> (\<exists>a b. content (ps ! par off) = a @ b \<and> chr off = str_len a))"

definition offset_less :: "page_offset \<Rightarrow> page_offset \<Rightarrow> bool" where
  "offset_less a b \<longleftrightarrow> par a < par b \<or> par a = par b \<and> chr a < chr b"

lemma off_ok_0 [simp]: "chr off = 0 \<Longrightarrow> off_ok ps off"
  unfolding off_ok_def by (metis append_Nil str_len_simps(1))

lemma offset_less_trans: "offset_less a b \<Longrightarrow> offset_less b c \<Longrightarrow> offset_less a c"
  by (auto simp: offset_less_def)

lemma layoutable_content [simp]: "layoutable (p\<lparr>content := s\<rparr>) \<longleftrightarrow> layoutable p"
  by (simp add: layoutable_def)

lemma paragraph_at_ok:
  assumes "off_ok ps off" "par off < length ps"
  obtains a b where "content (ps ! par off) = a @ b" "chr off = str_len a"
    "paragraph_at ps (par off) (chr off) = Inr ((ps ! par off)\<lparr>content := b\<rparr>)"
  using assms that
  by (auto simp: off_ok_def paragraph_at_def paragraph_skip_prefix_def nth_get_def unwrap_def)

lemma next_paragraph_at: "i < length ps \<Longrightarrow> paragraph_at ps i 0 = Inr (ps ! i)"
  by (cases "content (ps ! i)") (simp_all add: paragraph_at_def paragraph_skip_prefix_def nth_get_def unwrap_def)

lemma paragraph_fit_ends:
  "layoutable p \<Longrightarrow> area_ok area \<Longrightarrow>
     \<exists>fit. fit_text ((paragraph_layout p area)\<lparr>continues_from_prev_page := c\<rparr>) s = Some (Inr fit) \<and> fit_ok s fit"
  by (rule fit_text_ends) (auto simp: area_ok_def)

lemma should_place_pair_ends:
  assumes "layoutable p" "layoutable q" "area_ok area" "0 \<le> fh" "fh \<le> 10000"
  shows "\<exists>b. should_place_pair_on_next_page p q area fh = Some (Inr b)"
proof -
  have a: "- 20000 \<le> y0 (with_height area fh)" "y0 (with_height area fh) \<le> 20000"
    "- 20000 \<le> y1 (with_height area fh)" "y1 (with_height area fh) \<le> 20000"
    using assms(3-5) by (auto simp: with_height_def with_size_def from_top_left_and_size_def top_left_def
      offset_new_def point_ofs_def point_new_def area_ok_def i16_id Let_def)
  have ends: "\<exists>fit. fit_text (paragraph_layout p (with_height area fh)) s = Some (Inr fit)" if "layoutable p" for p s
    using fit_text_ends [OF that, of "paragraph_layout p (with_height area fh)" s] a by auto
  obtain f g where "fit_text (paragraph_layout p (with_height area fh)) (content p) = Some (Inr f)"
    "fit_text (paragraph_layout q (with_height area fh)) (content q) = Some (Inr g)"
    using ends assms(1,2) by blast
  then show ?thesis by (cases "height area \<ge> fh") (simp_all add: should_place_pair_on_next_page_def Let_def, blast)
qed

lemma advance_ends:
  assumes "\<forall>p \<in> set ps. layoutable p" "area_ok area" "0 \<le> fh" "fh \<le> 10000" "off_ok ps off" "par off < length ps"
  obtains off' rem px where "page_advance ps off area fh = Some (Inr (off', rem, px))" "off_ok ps off'"
    "case rem of None \<Rightarrow> off' = off \<or> offset_less off off'
       | Some area' \<Rightarrow> area_ok area' \<and> off' = \<lparr>par = par off + 1, chr = 0\<rparr>"
proof -
  obtain a b where p: "content (ps ! par off) = a @ b" "chr off = str_len a"
    "paragraph_at ps (par off) (chr off) = Inr ((ps ! par off)\<lparr>content := b\<rparr>)"
    using assms(5,6) by (rule paragraph_at_ok)
  let ?p = "(ps ! par off)\<lparr>content := b\<rparr>"
  have lp: "layoutable ?p" using assms(1,6) by simp
  show thesis
  proof (cases "b = []")
    case True
    then have "page_advance ps off area fh = Some (Inr (\<lparr>par = par off + 1, chr = 0\<rparr>, Some area, None))"
      by (simp add: page_advance_def p(3))
    then show thesis by (rule that) (simp_all add: assms(2))
  next
    case False
    obtain pair where pair: "(if no_break ?p \<and> chr off = 0 \<and> par off + 1 < length ps then
        pbind (Some (paragraph_at ps (par off + 1) 0)) (\<lambda>next_par. should_place_pair_on_next_page ?p next_par area fh)
      else Some (Inr False)) = Some (Inr pair)"
    proof (cases "no_break ?p \<and> chr off = 0 \<and> par off + 1 < length ps")
      case True
      then obtain q where "paragraph_at ps (par off + 1) 0 = Inr q" "layoutable q"
        using assms(1) next_paragraph_at [of "par off + 1" ps] by auto
      then show thesis using that True should_place_pair_ends [OF lp _ assms(2-4)] by auto
    qed (use that [of False] in auto)
    obtain fit where fit: "fit_text ((paragraph_layout ?p area)\<lparr>continues_from_prev_page := chr off > 0\<rparr>) b = Some (Inr fit)"
      "fit_ok b fit"
      using paragraph_fit_ends [OF lp assms(2)] by blast
    let ?px = "if fit_height fit > 0 then Some \<lparr>proxy_offset = off, proxy_bounds = fst (split_top area (fit_height fit))\<rparr> else None"
    show thesis
    proof (cases pair)
      case True
      then have "page_advance ps off area fh = Some (Inr (off, None, None))" using False pair by (simp add: page_advance_def p(3))
      then show thesis by (rule that) (simp_all add: assms(5))
    next
      case np: False
      show thesis
      proof (cases fit)
        case (Fitting n h)
        then have "page_advance ps off area fh = Some (Inr (\<lparr>par = par off + 1, chr = 0\<rparr>,
          if break_after ?p then None else Some (snd (split_top area h)), ?px))"
          using False pair np fit(1) by (simp add: page_advance_def p(3) Let_def split: prod.split)
        then show thesis by (rule that) (simp_all add: area_ok_split [OF assms(2)] offset_less_def)
      next
        case (OutOfBounds n h)
        then obtain read rest where r: "b = read @ rest" "n = str_len read" using fit(2) by (auto simp: fit_ok_def)
        have "page_advance ps off area fh = Some (Inr (off\<lparr>chr := chr off + n\<rparr>, None, ?px))"
          using OutOfBounds False pair np fit(1) by (simp add: page_advance_def p(3) Let_def split: prod.split)
        moreover have "off_ok ps (off\<lparr>chr := chr off + n\<rparr>)"
          using p(1,2) r unfolding off_ok_def by (intro impI exI [of _ "a @ read"] exI [of _ rest]) simp
        ultimately show thesis by (rule that) (cases "n = 0", simp_all add: offset_less_def)
      qed
    qed
  qed
qed


lemma dyn_next_ends:
  assumes "\<forall>p \<in> set ps. layoutable p" "0 \<le> fh" "fh \<le> 10000"
  shows "area_ok area \<Longrightarrow> off_ok ps off \<Longrightarrow>
    \<exists>nxt. dyn_next ps area fh off = Some (Inr nxt) \<and>
      (\<forall>off'. nxt = Some off' \<longrightarrow> par off' < length ps \<and> off_ok ps off' \<and> (off' = off \<or> offset_less off off'))"
proof (induction "length ps - par off" arbitrary: off area rule: less_induct)
  case less
  show ?case
  proof (cases "par off < length ps")
    case True
    obtain off' rem px where adv: "page_advance ps off area fh = Some (Inr (off', rem, px))" "off_ok ps off'"
      "case rem of None \<Rightarrow> off' = off \<or> offset_less off off'
         | Some area' \<Rightarrow> area_ok area' \<and> off' = \<lparr>par = par off + 1, chr = 0\<rparr>"
      using assms(1) less.prems(1) assms(2,3) less.prems(2) True by (rule advance_ends)
    show ?thesis
    proof (cases "par off' \<ge> length ps \<or> rem = None")
      case True
      with adv show ?thesis using \<open>par off < length ps\<close>
        by (subst dyn_next.simps) (auto split: option.splits)
    next
      case False
      then obtain area' where rem: "rem = Some area'" "area_ok area'" "par off' = par off + 1" "offset_less off off'"
        using adv(3) by (auto simp: offset_less_def)
      have "length ps - par off' < length ps - par off" using rem(3) True by simp
      from less.hyps [OF this rem(2) adv(2)] obtain nxt where n: "dyn_next ps area' fh off' = Some (Inr nxt)"
        "\<forall>off''. nxt = Some off'' \<longrightarrow> par off'' < length ps \<and> off_ok ps off'' \<and> (off'' = off' \<or> offset_less off' off'')"
        by blast
      have "dyn_next ps area fh off = Some (Inr nxt)"
        using True False adv(1) rem(1) n(1) by (subst dyn_next.simps) simp
      with n(2) rem(4) show ?thesis using offset_less_trans by blast
    qed
  qed (simp add: dyn_next.simps)
qed

text \<open>The position of an offset in the text as a whole, counting one for each paragraph that ends.\<close>

definition position :: "para list \<Rightarrow> page_offset \<Rightarrow> nat" where
  "position ps off = sum_list (map (\<lambda>p. Suc (str_len (content p))) (take (par off) ps)) + chr off"

lemma chr_le: "off_ok ps off \<Longrightarrow> par off < length ps \<Longrightarrow> chr off \<le> str_len (content (ps ! par off))"
  by (auto simp: off_ok_def)

lemma position_less:
  assumes "offset_less a b" "off_ok ps a" "par b < length ps"
  shows "position ps a < position ps b"
proof (cases "par a = par b")
  case False
  then have l: "Suc (par a) \<le> par b" using assms(1) by (auto simp: offset_less_def)
  let ?f = "\<lambda>p. Suc (str_len (content p))"
  have "position ps a < sum_list (map ?f (take (Suc (par a)) ps))"
    using chr_le [OF assms(2)] l assms(3) by (simp add: position_def take_Suc_conv_app_nth)
  also obtain k where "par b = Suc (par a) + k" using le_Suc_ex [OF l] by blast
  then have "sum_list (map ?f (take (Suc (par a)) ps)) \<le> sum_list (map ?f (take (par b) ps))"
    by (simp only: take_add map_append sum_list_append le_add1)
  finally show ?thesis by (simp add: position_def)
qed (use assms(1) in \<open>auto simp: offset_less_def position_def\<close>)

lemma position_le:
  assumes "off_ok ps off" "par off < length ps"
  shows "position ps off \<le> sum_list (map (\<lambda>p. Suc (str_len (content p))) ps)"
proof -
  let ?f = "\<lambda>p. Suc (str_len (content p))"
  have "sum_list (map ?f ps) = sum_list (map ?f (take (par off) ps)) + sum_list (map ?f (drop (par off) ps))"
    by (metis append_take_drop_id map_append sum_list_append)
  then show ?thesis
    using chr_le [OF assms] assms(2) by (simp add: position_def Cons_nth_drop_Suc [symmetric])
qed


lemma page_break_next_ends:
  assumes "\<forall>p \<in> set (source t). layoutable p" "area_ok (ps_area t)" "off_ok (source t) off"
  obtains (last) "page_break_next t (Some off) = Some (Inr None)"
  | (stuck) "page_break_next t (Some off) = Some (Inl Panic)"
      "dyn_next (source t) (ps_area t) (height (ps_area t)) off = Some (Inr (Some off))"
  | (page) off' where "page_break_next t (Some off) = Some (Inr (Some off'))" "offset_less off off'"
      "par off' < length (source t)" "off_ok (source t) off'"
proof -
  have h: "0 \<le> height (ps_area t)" "height (ps_area t) \<le> 10000"
    using area_ok_height [OF assms(2)] assms(2) by (auto simp: area_ok_def)
  from dyn_next_ends [OF assms(1) h assms(2,3)] obtain nxt where
    n: "dyn_next (source t) (ps_area t) (height (ps_area t)) off = Some (Inr nxt)"
      "\<forall>off'. nxt = Some off' \<longrightarrow> par off' < length (source t) \<and> off_ok (source t) off' \<and> (off' = off \<or> offset_less off off')"
    by blast
  show thesis
  proof (cases nxt)
    case None
    with n(1) show thesis by (intro last) (simp add: page_break_next_def)
  next
    case (Some off')
    show thesis
    proof (cases "off' = off")
      case True
      with n(1) Some show thesis by (intro stuck) (simp_all add: page_break_next_def)
    next
      case False
      with n Some show thesis by (intro page [of off']) (auto simp: page_break_next_def)
    qed
  qed
qed

text \<open>The iterator from an offset on: it ends with the offsets in order, or panics because a page does not advance.\<close>

lemma break_pages_from_ends:
  assumes "\<forall>p \<in> set (source t). layoutable p" "area_ok (ps_area t)"
  shows "off_ok (source t) off \<Longrightarrow> par off < length (source t) \<or> source t = [] \<Longrightarrow>
    (\<exists>new. break_pages_from t (Some off) offs = Some (Inr (offs @ new)) \<and> sorted_wrt offset_less (off # new) \<and>
       (\<forall>o' \<in> set new. par o' < length (source t) \<and> off_ok (source t) o')) \<or>
    break_pages_from t (Some off) offs = Some (Inl Panic) \<and>
      (\<exists>o'. off_ok (source t) o' \<and> dyn_next (source t) (ps_area t) (height (ps_area t)) o' = Some (Inr (Some o')))"
proof (induction "sum_list (map (\<lambda>p. Suc (str_len (content p))) (source t)) - position (source t) off"
    arbitrary: off offs rule: less_induct)
  case less
  show ?case
  proof (rule page_break_next_ends [OF assms less.prems(1)])
    assume "page_break_next t (Some off) = Some (Inr None)"
    then show ?thesis by (subst (1 2) break_pages_from.simps) simp
  next
    assume "page_break_next t (Some off) = Some (Inl Panic)"
      "dyn_next (source t) (ps_area t) (height (ps_area t)) off = Some (Inr (Some off))"
    then show ?thesis using less.prems(1) by (subst (1 2) break_pages_from.simps) auto
  next
    fix off'
    assume n: "page_break_next t (Some off) = Some (Inr (Some off'))" "offset_less off off'"
      "par off' < length (source t)" "off_ok (source t) off'"
    have eq: "break_pages_from t (Some off) offs = break_pages_from t (Some off') (offs @ [off'])"
      using n(1) by (subst break_pages_from.simps) simp
    have "sum_list (map (\<lambda>p. Suc (str_len (content p))) (source t)) - position (source t) off'
        < sum_list (map (\<lambda>p. Suc (str_len (content p))) (source t)) - position (source t) off"
      using position_less [OF n(2) less.prems(1) n(3)] position_le [OF n(4,3)] by linarith
    from less.hyps [OF this n(4), of "offs @ [off']"] n(3)
    consider (ends) new where "break_pages_from t (Some off') (offs @ [off']) = Some (Inr (offs @ [off'] @ new))"
        "sorted_wrt offset_less (off' # new)" "\<forall>o' \<in> set new. par o' < length (source t) \<and> off_ok (source t) o'"
      | (panic) "break_pages_from t (Some off') (offs @ [off']) = Some (Inl Panic)"
        "\<exists>o'. off_ok (source t) o' \<and> dyn_next (source t) (ps_area t) (height (ps_area t)) o' = Some (Inr (Some o'))"
      by auto
    then show ?thesis
    proof cases
      case ends
      have "sorted_wrt offset_less (off # off' # new)"
        using ends(2) n(2) offset_less_trans by auto
      with ends n(3,4) eq show ?thesis by (intro disjI1 exI [of _ "off' # new"]) simp
    qed (use eq in simp)
  qed
qed


subsection \<open>What a page draws\<close>

lemma fit_loop_advance_y:
  "fe_chunks E = None \<Longrightarrow> advance_y line = line_height (fe_font E) \<Longrightarrow>
     advance_y (fit_loop E i cs w ws line) \<in> {0, line_height (fe_font E), line_height (fe_font E) sdiv 2}"
proof (induction cs arbitrary: i w ws line)
  case (Cons ch rest)
  have step: "advance_y l = line_height (fe_font E) \<Longrightarrow>
      advance_y (fit_loop E (i + len_utf8 ch) rest w' ws' l) \<in> {0, line_height (fe_font E), line_height (fe_font E) sdiv 2}"
    for w' ws' l
    using Cons.IH Cons.prems(1) by blast
  show ?case
    unfolding fit_loop.simps Let_def Cons.prems(1) option.case
    using Cons.prems(2) by (simp add: step [simplified])
qed simp

lemma next_span_advance_y:
  assumes "style_chunks (style L) = None"
  shows "advance_y (next_span L cur t) \<in> {0, line_height (text_font (style L)), line_height (text_font (style L)) sdiv 2}"
proof -
  have "fe_font E = f \<Longrightarrow> fe_chunks E = None \<Longrightarrow> advance_y line = line_height f \<Longrightarrow>
     advance_y (fit_loop E 0 t w ws line) \<in> {0, line_height f, line_height f sdiv 2}" for E f w ws line
    using fit_loop_advance_y by blast
  then show ?thesis
    unfolding next_span_def fit_horizontally_def Let_def assms option.case by simp
qed

text \<open>The cursor only moves down, and not below the bounds.\<close>

lemma layout_loop_moves_down:
  assumes "layout_loop L n rem cur evs = Some r" "style_chunks (style L) = None"
    and "0 < line_height (text_font (style L))" "0 \<le> line_spacing (style L)"
    and "line_height (text_font (style L)) + line_spacing (style L) \<le> 1000"
    and "bottom_y L \<le> 21000" "- 2000 \<le> pt_y cur" "pt_y cur \<le> bottom_y L"
    and "r = Inr (out, cur', rest)"
  shows "pt_y cur \<le> pt_y cur' \<and> pt_y cur' \<le> bottom_y L"
proof -
  have "style_chunks (style L) = None \<longrightarrow> 0 < line_height (text_font (style L)) \<longrightarrow> 0 \<le> line_spacing (style L) \<longrightarrow>
    line_height (text_font (style L)) + line_spacing (style L) \<le> 1000 \<longrightarrow> bottom_y L \<le> 21000 \<longrightarrow>
    - 2000 \<le> pt_y cur \<longrightarrow> pt_y cur \<le> bottom_y L \<longrightarrow>
    (\<forall>out cur' rest. r = Inr (out, cur', rest) \<longrightarrow> pt_y cur \<le> pt_y cur' \<and> pt_y cur' \<le> bottom_y L)"
  proof (rule layout_loop.raw_induct [OF _ assms(1), where P = "\<lambda>L n rem cur evs r.
     style_chunks (style L) = None \<longrightarrow> 0 < line_height (text_font (style L)) \<longrightarrow> 0 \<le> line_spacing (style L) \<longrightarrow>
     line_height (text_font (style L)) + line_spacing (style L) \<le> 1000 \<longrightarrow> bottom_y L \<le> 21000 \<longrightarrow>
     - 2000 \<le> pt_y cur \<longrightarrow> pt_y cur \<le> bottom_y L \<longrightarrow>
     (\<forall>out cur' rest. r = Inr (out, cur', rest) \<longrightarrow> pt_y cur \<le> pt_y cur' \<and> pt_y cur' \<le> bottom_y L)"], goal_cases)
    case (1 loop L n rem cur evs r)
    show ?case
    proof (intro impI allI)
      fix out cur' rest
      assume h: "style_chunks (style L) = None" "0 < line_height (text_font (style L))" "0 \<le> line_spacing (style L)"
        "line_height (text_font (style L)) + line_spacing (style L) \<le> 1000" "bottom_y L \<le> 21000"
        "- 2000 \<le> pt_y cur" "pt_y cur \<le> bottom_y L" "r = Inr (out, cur', rest)"
      let ?sp = "next_span L cur rem"
      have half: "line_height (text_font (style L)) sdiv 2 \<le> line_height (text_font (style L))" "0 \<le> line_height (text_font (style L)) sdiv 2"
        using h(2) by (simp_all add: sdiv_pos)
      have adv: "0 \<le> advance_y ?sp" "advance_y ?sp \<le> line_height (text_font (style L))"
        using next_span_advance_y [OF h(1), of cur rem] h(2) half by auto
      have y: "i16 (pt_y cur + i16 (advance_y ?sp + line_spacing (style L))) = pt_y cur + (advance_y ?sp + line_spacing (style L))"
        using adv h(3-7) by (simp add: i16_id)
      have ih: "pt_y c \<le> pt_y cur' \<and> pt_y cur' \<le> bottom_y L"
        if "loop L n' rem' c evs' = Some r" "pt_y cur \<le> pt_y c" "pt_y c \<le> bottom_y L" for n' rem' c evs'
        using "1"(1) [OF that(1)] h that(2,3) by auto
      show "pt_y cur \<le> pt_y cur' \<and> pt_y cur' \<le> bottom_y L"
        using "1"(2) h(1,3,7,8) adv(1) y ih
        by (auto simp: Let_def split: if_splits option.splits) fastforce+
    qed
  qed
  then show ?thesis using assms(2-) by blast
qed

text \<open>Metrics of a paragraph that make its box higher than nothing.\<close>

definition tall :: "para \<Rightarrow> bool" where
  "tall p \<longleftrightarrow> (let f = text_font (par_style p) in
     0 \<le> line_spacing (par_style p) \<and>
     - 1000 \<le> text_max_height f - text_baseline f + par_padding_top p \<and> text_max_height f - text_baseline f + par_padding_top p \<le> 1000 \<and>
     - 1000 \<le> par_padding_top p \<and> par_padding_top p \<le> 1000 \<and> 0 \<le> text_height f \<and> text_height f \<le> 1000 \<and>
     0 < par_padding_top p + text_height f + par_padding_bottom p)"

lemma initial_cursor_y:
  assumes "tall p" "area_ok (tl_bounds L)" "style L = par_style p" "padding_top L = par_padding_top p"
  shows "pt_y (initial_cursor L) = y0 (tl_bounds L) + (text_max_height (text_font (par_style p)) - text_baseline (text_font (par_style p))
    + par_padding_top p)"
  using assms by (simp add: initial_cursor_def tall_def Let_def area_ok_def point_ofs_def point_new_def top_left_def offset_new_def i16_id)

lemma fitting_height_pos:
  assumes "layoutable p" "tall p" "area_ok (tl_bounds L)" "style L = par_style p" "padding_top L = par_padding_top p"
    "padding_bottom L = par_padding_bottom p" "fit_text L s = Some (Inr (Fitting n h))"
  shows "0 < h"
proof -
  let ?c = "initial_cursor L"
  have c: "- 1000 \<le> pt_y ?c" using initial_cursor_y [OF assms(2-5)] assms(2,3) by (simp add: tall_def Let_def area_ok_def)
  have b: "bottom_y L \<le> 21000"
    using assms(1,3,6) by (intro bottom_y_le) (auto simp: area_ok_def)
  obtain cur1 evs where start: "layout_start L ?c = (cur1, evs)" by fastforce
  then have y: "pt_y cur1 = pt_y ?c" using layout_start_events by blast
  have in_bounds: "pt_y ?c \<le> bottom_y L"
    using assms(7) by (auto simp: fit_text_def layout_text_def split: if_splits)
  with assms(7) start obtain q where q: "layout_loop L 1 s cur1 evs = Some q"
    by (auto simp: fit_text_def layout_text_def)
  with assms(7) start in_bounds obtain cur' rest where
    loop: "layout_loop L 1 s cur1 evs = Some (Inr (False, cur', rest))" "h = layout_height L ?c cur'"
    by (cases q) (auto simp: fit_text_def layout_text_def Let_def split: if_splits)
  have "pt_y ?c \<le> pt_y cur' \<and> pt_y cur' \<le> bottom_y L"
    using layout_loop_moves_down [OF loop(1), of False cur' rest] assms(1,2,4) b c y in_bounds
    by (auto simp: layoutable_def tall_def Let_def)
  then show ?thesis
    using assms(1,2,4-6) b c by (simp add: loop(2) layout_height_def tall_def layoutable_def Let_def i16_id)
qed

text \<open>What \<open>page_advance\<close> says of the paragraph at an offset.\<close>

lemma advance_proxy:
  assumes "\<forall>p \<in> set ps. layoutable p \<and> tall p" "area_ok area" "off_ok ps off" "par off < length ps"
    and "paragraph_at ps (par off) (chr off) = Inr p" "page_advance ps off area fh = Some (Inr (off', rem, px))"
  shows "if content p = [] then rem \<noteq> None \<and> px = None
    else (rem \<noteq> None \<longrightarrow> px \<noteq> None) \<and> (\<forall>x. px = Some x \<longrightarrow> proxy_offset x = off)"
proof -
  obtain b where p: "p = (ps ! par off)\<lparr>content := b\<rparr>"
    by (rule paragraph_at_ok [OF assms(3,4)]) (use assms(5) that in force)
  have t: "layoutable p" "tall p" using assms(1,4) p by (simp_all add: tall_def)
  have pos: "0 < h" if "fit_text ((paragraph_layout p area)\<lparr>continues_from_prev_page := c\<rparr>) s = Some (Inr (Fitting n h))" for c s n h
    using fitting_height_pos [OF t _ _ _ _ that] assms(2) by simp
  show ?thesis
    using assms(6) pos unfolding page_advance_def assms(5) pbind_simps
    by (auto simp: pbind_def Let_def split: if_splits option.splits sum.splits layout_fit.splits prod.splits)
qed


text \<open>\<open>draws ps x (l, s)\<close>: the layout and text drawn for a visible paragraph are its own.\<close>

definition draws :: "para list \<Rightarrow> text_layout_proxy \<Rightarrow> text_layout \<times> uchar list \<Rightarrow> bool" where
  "draws ps x d \<longleftrightarrow> proxy_layout ps x = Inr (fst d) \<and>
     (\<exists>p. paragraph_at ps (par (proxy_offset x)) (chr (proxy_offset x)) = Inr p \<and> content p = snd d \<and> content p \<noteq> [])"

lemma foreach_visible_Nil: "i + n \<le> length ps \<Longrightarrow> off_ok ps \<lparr>par = i, chr = k\<rparr> \<Longrightarrow> foreach_visible ps [] n i k = Inr []"
proof (induction n arbitrary: i k)
  case (Suc n)
  obtain p where "paragraph_at ps i k = Inr p"
    by (rule paragraph_at_ok [OF Suc.prems(2)]) (use Suc.prems(1) that in auto)
  then show ?case using Suc.IH [of "i + 1" 0] Suc.prems(1) by simp
qed simp

text \<open>
  \<open>paired ps off new\<close>: drawing from the offset \<open>off\<close> on gives every proxy of \<open>new\<close> its own text, wherever
  the boxes are moved to.
\<close>

definition paired :: "para list \<Rightarrow> page_offset \<Rightarrow> text_layout_proxy list \<Rightarrow> bool" where
  "paired ps off new \<longleftrightarrow> (\<forall>xs. map proxy_offset xs = map proxy_offset new \<longrightarrow>
     (\<exists>ds. foreach_visible ps xs (length ps - par off) (par off) (chr off) = Inr ds \<and> list_all2 (draws ps) xs ds))"

lemma paired_Nil: "off_ok ps off \<Longrightarrow> paired ps off []"
  by (cases off, cases "par off < length ps") (simp_all add: paired_def foreach_visible_Nil)

lemma paired_skip:
  assumes "par off < length ps" "paragraph_at ps (par off) (chr off) = Inr p" "content p = []"
    and "paired ps \<lparr>par = par off + 1, chr = 0\<rparr> new"
  shows "paired ps off new"
proof -
  have "length ps - par off = Suc (length ps - (par off + 1))" using assms(1) by simp
  then show ?thesis using assms(2-4) by (simp add: paired_def)
qed

lemma paired_Cons:
  assumes "par off < length ps" "paragraph_at ps (par off) (chr off) = Inr p" "content p \<noteq> []" "proxy_offset x = off"
    and "paired ps \<lparr>par = par off + 1, chr = 0\<rparr> new"
  shows "paired ps off (x # new)"
  unfolding paired_def
proof (intro allI impI)
  fix xs :: "text_layout_proxy list"
  assume "map proxy_offset xs = map proxy_offset (x # new)"
  then obtain y ys where xs: "xs = y # ys" "proxy_offset y = off" "map proxy_offset ys = map proxy_offset new"
    using assms(4) by (auto simp: map_eq_Cons_conv)
  have n: "length ps - par off = Suc (length ps - (par off + 1))" using assms(1) by simp
  obtain ds where "foreach_visible ps ys (length ps - (par off + 1)) (par off + 1) 0 = Inr ds" "list_all2 (draws ps) ys ds"
    using assms(5) xs(3) by (auto simp: paired_def)
  then show "\<exists>ds. foreach_visible ps xs (length ps - par off) (par off) (chr off) = Inr ds \<and> list_all2 (draws ps) xs ds"
    using assms(2,3) xs(2) unfolding n xs(1) by (auto simp: draws_def proxy_layout_def)
qed

lemma visible_loop_draws:
  assumes "\<forall>p \<in> set ps. layoutable p \<and> tall p" "0 \<le> fh" "fh \<le> 10000"
  shows "area_ok area \<Longrightarrow> off_ok ps off \<Longrightarrow>
    visible_loop ps area fh off vis = Some (Inl Panic) \<or>
    (\<exists>new. visible_loop ps area fh off vis = Some (Inr (vis @ new)) \<and> paired ps off new)"
proof (induction "length ps - par off" arbitrary: off area vis rule: less_induct)
  case less
  show ?case
  proof (cases "par off < length ps")
    case True
    obtain p where p: "paragraph_at ps (par off) (chr off) = Inr p"
      by (rule paragraph_at_ok [OF less.prems(2) True]) (use that in auto)
    have lay: "\<forall>p \<in> set ps. layoutable p" using assms(1) by blast
    let ?next = "\<lparr>par = par off + 1, chr = 0\<rparr>"
    obtain off' rem px where adv: "page_advance ps off area fh = Some (Inr (off', rem, px))"
      "case rem of None \<Rightarrow> off' = off \<or> offset_less off off' | Some area' \<Rightarrow> area_ok area' \<and> off' = ?next"
      using lay less.prems(1) assms(2,3) less.prems(2) True by (rule advance_ends) blast
    note px = advance_proxy [OF assms(1) less.prems True p adv(1)]
    note unfold = visible_loop.simps [of ps area fh off vis]
    have go: "visible_loop ps area' fh ?next vis' = Some (Inl Panic) \<or>
        (\<exists>new. visible_loop ps area' fh ?next vis' = Some (Inr (vis' @ new)) \<and> paired ps ?next new)"
      if "rem = Some area'" for area' vis'
      using less.hyps [of ?next area' vis'] True adv(2) that by simp
    show ?thesis
    proof (cases px)
      case None
      show ?thesis
      proof (cases "content p = []")
        case empty: True
        then obtain area' where "rem = Some area'" using px by auto
        then show ?thesis using go [of area' vis] None adv True paired_skip [OF True p empty] unfold by auto
      next
        case False
        then have "rem = None" using px None by auto
        then show ?thesis using None adv(1) True paired_Nil [OF less.prems(2)] unfold by simp
      qed
    next
      case (Some x)
      then have x: "content p \<noteq> []" "proxy_offset x = off" using px by (auto split: if_splits)
      note more = paired_Cons [OF True p x]
      show ?thesis
      proof (cases rem)
        case None
        then show ?thesis using Some adv(1) True more [OF paired_Nil] unfold by auto
      next
        case r: (Some area')
        then show ?thesis using go [of area' "vis @ [x]"] Some adv True more unfold by auto
      qed
    qed
  next
    case False
    then show ?thesis using paired_Nil [OF less.prems(2)] by (simp add: visible_loop.simps)
  qed
qed

lemma arrange_proxies_offset: "map proxy_offset (arrange_proxies lp area vis) = map proxy_offset vis"
proof -
  have "length (arrange_loop ax o' c sp rs) = length rs" for ax o' c sp rs
    by (induction ax o' c sp rs rule: arrange_loop.induct) (auto simp: Let_def)
  then have "length (arrange lp area (map proxy_bounds vis)) = length vis"
    by (simp add: arrange_def Let_def split: prod.split)
  moreover have "map proxy_offset (map (\<lambda>(x, r). x\<lparr>proxy_bounds := r\<rparr>) zs) = map proxy_offset (map fst zs)"
    for zs :: "(text_layout_proxy \<times> rect) list"
    by (simp add: comp_def split_def)
  ultimately show ?thesis unfolding arrange_proxies_def by (simp only: map_fst_zip length_map)
qed



definition two_paragraphs :: paragraphs where
  "two_paragraphs = (paragraphs_new [paragraph_new (text_style_new fixed_font) [104, 101, 108, 108, 111],
     with_no_break (paragraph_new (text_style_new fixed_font) [119])])\<lparr>ps_area := \<lparr>x0 = 0, y0 = 0, x1 = 4, y1 = 7\<rparr>\<rparr>"

lemma two_paragraphs_ok:
  "\<forall>p \<in> set (source two_paragraphs). layoutable p \<and> tall p" "area_ok (ps_area two_paragraphs)"
  by (simp_all add: two_paragraphs_def paragraphs_new_def paragraph_new_def with_no_break_def text_style_new_def fixed_font_def
      layoutable_def tall_def area_ok_def PARAGRAPH_TOP_SPACE_def PARAGRAPH_BOTTOM_SPACE_def)



subsection \<open>A chunk that no page shows\<close>

text \<open>
  A page is laid out twice: to find the next page in the space that is left, and to be drawn in the space that was used.
  In the second the last row is the last line, and with chunks an ellipsis takes the place of its last chunk.
  If the page was ended by \<open>max_rows\<close> then the first layout did count that chunk: it is on no page.
  The example has six characters in chunks of two, with one row of two chunks to a page.
\<close>

definition chunk_style :: text_style where
  "chunk_style = (text_style_new fixed_font)\<lparr>line_breaking := BreakWordsNoHyphen,
     page_breaking := CutAndInsertEllipsisBoth, ellipsis_icon := Some (1, 0), prev_page_ellipsis_icon := Some (1, 0),
     style_chunks := Some (with_max_rows (chunks_new 2 1) 1)\<rparr>"

definition chunk_layout :: "int \<Rightarrow> text_layout" where
  "chunk_layout h = paragraph_layout (paragraph_new chunk_style [97, 98, 99, 100, 101, 102]) \<lparr>x0 = 0, y0 = 0, x1 = 5, y1 = h\<rparr>"

lemma chunk_layout_sel [simp]:
  "style (chunk_layout h) = chunk_style" "tl_bounds (chunk_layout h) = \<lparr>x0 = 0, y0 = 0, x1 = 5, y1 = h\<rparr>"
  "padding_top (chunk_layout h) = - 1" "padding_bottom (chunk_layout h) = 5" "tl_align (chunk_layout h) = AlStart"
  "continues_from_prev_page (chunk_layout h) = False"
  by (simp_all add: chunk_layout_def paragraph_layout_def paragraph_new_def text_layout_new_def
      PARAGRAPH_TOP_SPACE_def PARAGRAPH_BOTTOM_SPACE_def)

lemma chunk_style_sel [simp]:
  "text_font chunk_style = fixed_font" "line_breaking chunk_style = BreakWordsNoHyphen" "ellipsis_width chunk_style = 1"
  "page_breaking chunk_style = CutAndInsertEllipsisBoth" "line_spacing chunk_style = 0"
  "style_chunks chunk_style = Some \<lparr>chunk_size = 2, x_offset = 1, max_rows = Some 1\<rparr>"
  by (simp_all add: chunk_style_def text_style_new_def ellipsis_width_def with_max_rows_def chunks_new_def i16_id)

lemmas chunk_eval = next_span_def fit_horizontally_def fixed_font_def trim_end_def unicode_whitespace_def is_whitespace_def
  len_utf8_def bottom_y_def max16_def Let_def i16_id

lemma chunk_spans:
  "next_span (chunk_layout 30) \<lparr>pt_x = 0, pt_y = 0\<rparr> [97, 98, 99, 100, 101, 102] =
     \<lparr>sp_length = 2, skip_next_chars = 0, advance_x = 3, advance_y = 0, insert_hyphen = False\<rparr>"
  "next_span (chunk_layout 30) \<lparr>pt_x = 3, pt_y = 0\<rparr> [99, 100, 101, 102] =
     \<lparr>sp_length = 2, skip_next_chars = 0, advance_x = 3, advance_y = 0, insert_hyphen = False\<rparr>"
  "next_span (chunk_layout 30) \<lparr>pt_x = 6, pt_y = 0\<rparr> [101, 102] =
     \<lparr>sp_length = 0, skip_next_chars = 0, advance_x = 0, advance_y = 1, insert_hyphen = False\<rparr>"
  "next_span (chunk_layout 5) \<lparr>pt_x = 0, pt_y = 0\<rparr> [97, 98, 99, 100, 101, 102] =
     \<lparr>sp_length = 2, skip_next_chars = 0, advance_x = 3, advance_y = 0, insert_hyphen = False\<rparr>"
  "next_span (chunk_layout 5) \<lparr>pt_x = 3, pt_y = 0\<rparr> [99, 100, 101, 102] =
     \<lparr>sp_length = 0, skip_next_chars = 0, advance_x = 2, advance_y = 5, insert_hyphen = False\<rparr>"
  by (simp_all add: chunk_eval)

lemma chunk_cursor: "initial_cursor (chunk_layout h) = \<lparr>pt_x = 0, pt_y = 0\<rparr>"
  by (simp add: initial_cursor_def fixed_font_def point_ofs_def point_new_def top_left_def offset_new_def i16_id)

lemma chunk_layout_start: "layout_start (chunk_layout h) cur = (cur, [])"
  by (simp add: layout_start_def)

text \<open>In the space that is left on the page, four characters are counted, and five pixels are used.\<close>

lemma chunk_page_counts:
  "fit_text (chunk_layout 30) [97, 98, 99, 100, 101, 102] = Some (Inr (OutOfBounds 4 5))"
proof -
  have "layout_loop (chunk_layout 30) 1 [97, 98, 99, 100, 101, 102] \<lparr>pt_x = 0, pt_y = 0\<rparr> [] =
    Some (Inr (True, \<lparr>pt_x = 6, pt_y = 0\<rparr>, [101, 102], [SinkText \<lparr>pt_x = 0, pt_y = 0\<rparr> [97, 98],
      SinkText \<lparr>pt_x = 3, pt_y = 0\<rparr> [99, 100], SinkEllipsis \<lparr>pt_x = 6, pt_y = 0\<rparr>, SinkOutOfBounds]))"
    by (simp add: layout_loop.simps [of _ _ "_ # _"] chunk_spans Let_def len_utf8_def i16_id)
  then show ?thesis
    by (simp add: fit_text_def layout_text_def chunk_cursor chunk_layout_start layout_height_def bottom_y_def max16_def
        fixed_font_def len_utf8_def i16_id)
qed

text \<open>Drawn in those five pixels, the page shows two characters and the ellipsis; the next page begins behind the fourth.\<close>

lemma chunk_page_shows:
  "layout_loop (chunk_layout 5) 1 [97, 98, 99, 100, 101, 102] \<lparr>pt_x = 0, pt_y = 0\<rparr> [] =
     Some (Inr (True, \<lparr>pt_x = 5, pt_y = 0\<rparr>, [99, 100, 101, 102], [SinkText \<lparr>pt_x = 0, pt_y = 0\<rparr> [97, 98],
       SinkEllipsis \<lparr>pt_x = 5, pt_y = 0\<rparr>, SinkOutOfBounds]))"
  by (simp add: layout_loop.simps [of _ _ "_ # _"] chunk_spans Let_def len_utf8_def i16_id)

definition chunk_page :: paragraphs where
  "chunk_page = (par_with_placement (paragraphs_new [paragraph_new chunk_style [97, 98, 99, 100, 101, 102]]) linear_vertical)
     \<lparr>ps_area := \<lparr>x0 = 0, y0 = 0, x1 = 5, y1 = 30\<rparr>\<rparr>"

lemma chunk_page_sel [simp]:
  "source chunk_page = [paragraph_new chunk_style [97, 98, 99, 100, 101, 102]]"
  "ps_area chunk_page = \<lparr>x0 = 0, y0 = 0, x1 = 5, y1 = 30\<rparr>" "ps_placement chunk_page = linear_vertical"
  by (simp_all add: chunk_page_def par_with_placement_def paragraphs_new_def)

lemma paragraph_new_sel [simp]:
  "content (paragraph_new st s) = s" "no_break (paragraph_new st s) = False" "break_after (paragraph_new st s) = False"
  by (simp_all add: paragraph_new_def)

text \<open>The box of the paragraph, which the placement leaves where it is.\<close>

definition chunk_box :: text_layout_proxy where
  "chunk_box = \<lparr>proxy_offset = \<lparr>par = 0, chr = 0\<rparr>, proxy_bounds = \<lparr>x0 = 0, y0 = 0, x1 = 5, y1 = 5\<rparr>\<rparr>"

lemma chunk_page_advance:
  "page_advance (source chunk_page) \<lparr>par = 0, chr = 0\<rparr> (ps_area chunk_page) (height (ps_area chunk_page)) =
     Some (Inr (\<lparr>par = 0, chr = 4\<rparr>, None, Some chunk_box))"
proof -
  have "(paragraph_layout (paragraph_new chunk_style [97, 98, 99, 100, 101, 102]) (ps_area chunk_page))
      \<lparr>continues_from_prev_page := False\<rparr> = chunk_layout 30"
    by (simp add: chunk_layout_def paragraph_layout_def text_layout_new_def)
  then show ?thesis
    by (simp add: page_advance_def next_paragraph_at chunk_page_counts split_top_def clamp16_def height_def i16_id chunk_box_def Let_def)
qed

lemma chunk_box_arranged: "arrange_proxies linear_vertical (ps_area chunk_page) [chunk_box] = [chunk_box]"
  by (simp add: arrange_proxies_def chunk_box_def arrange_def linear_vertical_def linear_new_def compute_spacing_def Let_def
      rect_size_def width_def height_def offset_new_def top_left_def i16_id with_top_left_def from_top_left_and_size_def point_ofs_def point_new_def
      offset_on_axis_def)


text \<open>
  The search for page breaks puts the second page behind the fourth character, and the first page shows two:
  the third and the fourth are on no page.
\<close>

theorem chunk_on_no_page:
  "page_break_next chunk_page (Some \<lparr>par = 0, chr = 0\<rparr>) = Some (Inr (Some \<lparr>par = 0, chr = 4\<rparr>)) \<and>
   (\<exists>t' evs. par_change_page chunk_page 0 = Some (Inr t') \<and> par_render t' = Some (Inr evs) \<and> shown_text evs = [97, 98])"
proof
  show "page_break_next chunk_page (Some \<lparr>par = 0, chr = 0\<rparr>) = Some (Inr (Some \<lparr>par = 0, chr = 4\<rparr>))"
    using chunk_page_advance by (simp add: page_break_next_def dyn_next.simps)
  let ?t = "chunk_page\<lparr>ps_offset := \<lparr>par = 0, chr = 0\<rparr>, ps_visible := [chunk_box]\<rparr>"
  have "visible_loop (source chunk_page) (ps_area chunk_page) (height (ps_area chunk_page)) \<lparr>par = 0, chr = 0\<rparr> [] =
      Some (Inr [chunk_box])"
    using chunk_page_advance by (simp add: visible_loop.simps MAX_LINES_def)
  then have "par_change_page chunk_page 0 = Some (Inr ?t)"
    using chunk_box_arranged by (simp add: par_change_page_def page_break_next_def change_offset_def)
  moreover have "proxy_layout (source chunk_page) chunk_box = Inr (chunk_layout 5)"
    by (simp add: proxy_layout_def chunk_box_def next_paragraph_at chunk_layout_def paragraph_layout_def text_layout_new_def)
  then have "par_render ?t = Some (Inr [SinkText \<lparr>pt_x = 0, pt_y = 0\<rparr> [97, 98], SinkEllipsis \<lparr>pt_x = 5, pt_y = 0\<rparr>, SinkOutOfBounds])"
    using chunk_page_shows
    by (simp add: par_render_def next_paragraph_at layout_text_def chunk_cursor chunk_layout_start bottom_y_def max16_def i16_id)
  ultimately show "\<exists>t' evs. par_change_page chunk_page 0 = Some (Inr t') \<and> par_render t' = Some (Inr evs) \<and> shown_text evs = [97, 98]"
    by simp
qed

end
