(* ===== verification/Formatted_Text.thy ===== *)
theory Formatted_Text
  imports Paragraphs
begin

section \<open>Formatted text\<close>

text \<open>
  \<^verbatim>\<open>core/embed/rust/src/ui/component/text/op.rs\<close>, \<^verbatim>\<open>formatted.rs\<close> and \<^verbatim>\<open>util.rs\<close>: a text with operations that change
  its style, and its pages.  A page is identified by the number of bytes before it, where a forced page break
  counts as one.  The loop that counts pages may run for ever and returns an option.
\<close>

subsection \<open>Operations\<close>

datatype op =
    OpText "uchar list" bool
  | OpColor nat
  | OpFont glyph_metrics
  | OpAlignment alignment
  | OpLineBreaking line_breaking
  | OpCursorOffset offset
  | OpNextPage
  | OpChunkify "chunks option"
  | OpLineSpacing int

record op_text_layout =
  op_layout :: text_layout
  ops :: "op list"

definition MAX_OPS :: nat where "MAX_OPS = 20"

definition PROCESSED_CHARS_ONE :: nat where "PROCESSED_CHARS_ONE = 1"

definition op_text_layout_new :: "text_style \<Rightarrow> op_text_layout" where
  "op_text_layout_new st = \<lparr>op_layout = text_layout_new st, ops = []\<rparr>"

definition ops_is_empty :: "op_text_layout \<Rightarrow> bool" where
  "ops_is_empty F \<longleftrightarrow> length (ops F) = 0"

definition ops_place :: "op_text_layout \<Rightarrow> rect \<Rightarrow> op_text_layout" where
  "ops_place F bounds = F\<lparr>op_layout := (op_layout F)\<lparr>tl_bounds := bounds\<rparr>\<rparr>"

text \<open>An operation for which there is no room is dropped, outside of debug builds.\<close>

definition with_new_item :: "op_text_layout \<Rightarrow> op \<Rightarrow> op_text_layout" where
  "with_new_item F item = (if length (ops F) < MAX_OPS then F\<lparr>ops := ops F @ [item]\<rparr> else F)"

definition op_text :: "op_text_layout \<Rightarrow> uchar list \<Rightarrow> op_text_layout" where
  "op_text F s = with_new_item F (OpText s False)"

definition op_newline :: "op_text_layout \<Rightarrow> op_text_layout" where
  "op_newline F = op_text F [10]"

definition op_newline_half :: "op_text_layout \<Rightarrow> op_text_layout" where
  "op_newline_half F = op_text F [13]"

definition op_next_page :: "op_text_layout \<Rightarrow> op_text_layout" where
  "op_next_page F = with_new_item F OpNextPage"

definition op_font :: "op_text_layout \<Rightarrow> glyph_metrics \<Rightarrow> op_text_layout" where
  "op_font F f = with_new_item F (OpFont f)"

definition op_offset :: "op_text_layout \<Rightarrow> offset \<Rightarrow> op_text_layout" where
  "op_offset F d = with_new_item F (OpCursorOffset d)"

definition op_alignment :: "op_text_layout \<Rightarrow> alignment \<Rightarrow> op_text_layout" where
  "op_alignment F a = with_new_item F (OpAlignment a)"

definition op_line_breaking :: "op_text_layout \<Rightarrow> line_breaking \<Rightarrow> op_text_layout" where
  "op_line_breaking F b = with_new_item F (OpLineBreaking b)"

definition op_chunks :: "op_text_layout \<Rightarrow> chunks option \<Rightarrow> op_text_layout" where
  "op_chunks F c = with_new_item F (OpChunkify c)"

definition op_line_spacing :: "op_text_layout \<Rightarrow> int \<Rightarrow> op_text_layout" where
  "op_line_spacing F n = with_new_item F (OpLineSpacing n)"

definition chunkify_text :: "op_text_layout \<Rightarrow> (chunks \<times> int) option \<Rightarrow> op_text_layout" where
  "chunkify_text F c =
     (case c of
        Some (ch, n) \<Rightarrow> op_line_spacing (op_chunks F (Some ch)) n
      | None \<Rightarrow> op_line_spacing (op_chunks F None) 0)"

fun filter_skipped_ops :: "nat \<Rightarrow> nat \<Rightarrow> op list \<Rightarrow> op list lres" where
  "filter_skipped_ops skip_bytes skipped [] = Inr []"
| "filter_skipped_ops skip_bytes skipped (oper # rest) =
     (case oper of
        OpText s c \<Rightarrow>
          if skipped < skip_bytes then
            let skipped' = skipped + str_len s in
            if skipped' > skip_bytes then
              rbind (case str_split (skip_bytes - skipped) s of None \<Rightarrow> Inl Panic | Some (_, t) \<Rightarrow> Inr t) (\<lambda>t.
              rbind (filter_skipped_ops skip_bytes skipped' rest) (\<lambda>os. Inr (OpText t True # os)))
            else filter_skipped_ops skip_bytes skipped' rest
          else rbind (filter_skipped_ops skip_bytes skipped rest) (\<lambda>os. Inr (oper # os))
      | OpNextPage \<Rightarrow>
          if skipped < skip_bytes then filter_skipped_ops skip_bytes (skipped + PROCESSED_CHARS_ONE) rest
          else rbind (filter_skipped_ops skip_bytes skipped rest) (\<lambda>os. Inr (oper # os))
      | OpCursorOffset d \<Rightarrow>
          if skipped < skip_bytes then filter_skipped_ops skip_bytes skipped rest
          else rbind (filter_skipped_ops skip_bytes skipped rest) (\<lambda>os. Inr (oper # os))
      | _ \<Rightarrow> rbind (filter_skipped_ops skip_bytes skipped rest) (\<lambda>os. Inr (oper # os)))"

fun ops_loop ::
  "op list \<Rightarrow> point \<Rightarrow> text_layout \<Rightarrow> point \<Rightarrow> nat \<Rightarrow> sink_event list \<Rightarrow> (layout_fit \<times> sink_event list) lres option" where
  "ops_loop [] init_cursor L cursor processed evs = Some (Inr (Fitting processed (layout_height L init_cursor cursor), evs))"
| "ops_loop (oper # rest) init_cursor L cursor processed evs =
     (case oper of
        OpColor _ \<Rightarrow> ops_loop rest init_cursor L cursor processed evs
      | OpFont f \<Rightarrow> ops_loop rest init_cursor (L\<lparr>style := (style L)\<lparr>text_font := f\<rparr>\<rparr>) cursor processed evs
      | OpAlignment a \<Rightarrow> ops_loop rest init_cursor (L\<lparr>tl_align := a\<rparr>) cursor processed evs
      | OpLineBreaking b \<Rightarrow> ops_loop rest init_cursor (L\<lparr>style := (style L)\<lparr>line_breaking := b\<rparr>\<rparr>) cursor processed evs
      | OpCursorOffset d \<Rightarrow>
          ops_loop rest init_cursor L \<lparr>pt_x = i16 (pt_x cursor + off_x d), pt_y = i16 (pt_y cursor + off_y d)\<rparr> processed evs
      | OpChunkify c \<Rightarrow> ops_loop rest init_cursor (L\<lparr>style := (style L)\<lparr>style_chunks := c\<rparr>\<rparr>) cursor processed evs
      | OpLineSpacing n \<Rightarrow> ops_loop rest init_cursor (L\<lparr>style := (style L)\<lparr>line_spacing := n\<rparr>\<rparr>) cursor processed evs
      | OpNextPage \<Rightarrow>
          Some (Inr (OutOfBounds (processed + PROCESSED_CHARS_ONE) (layout_height L init_cursor cursor), evs))
      | OpText s continued \<Rightarrow>
          let L' = L\<lparr>continues_from_prev_page := continued\<rparr> in
          pbind (layout_text L' s cursor) (\<lambda>(fit, cursor', evs').
            case fit of
              Fitting n _ \<Rightarrow> ops_loop rest init_cursor L' cursor' (processed + n) (evs @ evs')
            | OutOfBounds n _ \<Rightarrow>
                Some (Inr (OutOfBounds (processed + n) (layout_height L' init_cursor cursor'), evs @ evs'))))"

definition layout_ops :: "op_text_layout \<Rightarrow> nat \<Rightarrow> offset \<Rightarrow> (layout_fit \<times> sink_event list) lres option" where
  "layout_ops F skip_bytes d =
     (let cursor = point_ofs (initial_cursor (op_layout F)) d in
      pbind (Some (filter_skipped_ops skip_bytes 0 (ops F))) (\<lambda>os.
        ops_loop os cursor (op_layout F) cursor 0 []))"

definition ops_layout_content :: "op_text_layout \<Rightarrow> nat \<Rightarrow> (layout_fit \<times> sink_event list) lres option" where
  "ops_layout_content F skip_bytes = layout_ops F skip_bytes (offset_new 0 0)"

subsection \<open>Pages\<close>

record formatted_text =
  ft_ops :: op_text_layout
  ft_vertical :: alignment
  char_offset :: nat
  y_offset :: int

definition formatted_text_new :: "op_text_layout \<Rightarrow> formatted_text" where
  "formatted_text_new F = \<lparr>ft_ops = F, ft_vertical = AlStart, char_offset = 0, y_offset = 0\<rparr>"

definition vertically_centered :: "formatted_text \<Rightarrow> formatted_text" where
  "vertically_centered t = t\<lparr>ft_vertical := AlCenter\<rparr>"

definition ft_layout_content :: "formatted_text \<Rightarrow> (layout_fit \<times> sink_event list) lres option" where
  "ft_layout_content t = layout_ops (ft_ops t) (char_offset t) (offset_new 0 (y_offset t))"

definition align_vertically :: "formatted_text \<Rightarrow> int \<Rightarrow> formatted_text" where
  "align_vertically t content_height =
     (let bounds_height = height (tl_bounds (op_layout (ft_ops t))) in
      if content_height \<ge> bounds_height then t\<lparr>y_offset := 0\<rparr>
      else t\<lparr>y_offset := (case ft_vertical t of
          AlStart \<Rightarrow> 0
        | AlCenter \<Rightarrow> i16 (bounds_height - content_height) sdiv 2
        | AlEnd \<Rightarrow> i16 (bounds_height - content_height))\<rparr>)"

partial_function (option) ft_count_loop :: "formatted_text \<Rightarrow> nat \<Rightarrow> nat lres option" where
  "ft_count_loop t page_count =
     (case ft_layout_content t of
        None \<Rightarrow> None
      | Some (Inl e) \<Rightarrow> Some (Inl e)
      | Some (Inr (fit, _)) \<Rightarrow>
          (case fit of
             Fitting _ _ \<Rightarrow> Some (Inr page_count)
           | OutOfBounds n _ \<Rightarrow> ft_count_loop (t\<lparr>char_offset := char_offset t + n\<rparr>) (page_count + 1)))"

text \<open>The offsets are set back at the end, so the object does not change.\<close>

definition ft_page_count :: "formatted_text \<Rightarrow> nat lres option" where
  "ft_page_count t = ft_count_loop (t\<lparr>char_offset := 0, y_offset := 0\<rparr>) 1"

fun ft_change_loop :: "nat \<Rightarrow> formatted_text \<Rightarrow> layout_fit \<Rightarrow> (formatted_text \<times> layout_fit) lres option" where
  "ft_change_loop 0 t fit = Some (Inr (t, fit))"
| "ft_change_loop (Suc k) t fit =
     (case fit of
        Fitting _ _ \<Rightarrow> Some (Inr (t, fit))
      | OutOfBounds n _ \<Rightarrow>
          let t' = t\<lparr>char_offset := char_offset t + n\<rparr> in
          pbind (ft_layout_content t') (\<lambda>(fit', _). ft_change_loop k t' fit'))"

definition ft_change_page :: "formatted_text \<Rightarrow> nat \<Rightarrow> formatted_text lres option" where
  "ft_change_page t to_page =
     (let t0 = t\<lparr>char_offset := 0, y_offset := 0\<rparr> in
      pbind (ft_layout_content t0) (\<lambda>(fit, _).
      pbind (ft_change_loop to_page t0 fit) (\<lambda>(t', fit'). Some (Inr (align_vertically t' (fit_height fit'))))))"

definition ft_place :: "formatted_text \<Rightarrow> rect \<Rightarrow> formatted_text lres option" where
  "ft_place t bounds =
     (let t' = t\<lparr>ft_ops := ops_place (ft_ops t) bounds\<rparr> in
      pbind (ft_layout_content t') (\<lambda>(fit, _). Some (Inr (align_vertically t' (fit_height fit)))))"

definition ft_render :: "formatted_text \<Rightarrow> sink_event list lres option" where
  "ft_render t = pbind (ft_layout_content t) (\<lambda>(_, evs). Some (Inr evs))"

subsection \<open>Texts of several lines\<close>

definition multiline_layout :: "rect \<Rightarrow> glyph_metrics \<Rightarrow> alignment \<Rightarrow> text_layout" where
  "multiline_layout area f al = (text_layout_new (text_style_new f))\<lparr>tl_bounds := area, tl_align := al\<rparr>"

text \<open>The result is what is drawn and the part of the area that is left, if the text fits.\<close>

definition text_multiline ::
  "rect \<Rightarrow> uchar list \<Rightarrow> glyph_metrics \<Rightarrow> alignment \<Rightarrow> (sink_event list \<times> rect option) lres option" where
  "text_multiline area s f al =
     (let L = multiline_layout area f al in
      pbind (layout_text L s (initial_cursor L)) (\<lambda>(fit, _, evs).
        Some (Inr (evs, case fit of Fitting _ h \<Rightarrow> Some (snd (split_top area h)) | OutOfBounds _ _ \<Rightarrow> None))))"

definition text_multiline_bottom ::
  "rect \<Rightarrow> uchar list \<Rightarrow> glyph_metrics \<Rightarrow> alignment \<Rightarrow> (sink_event list \<times> rect option) lres option" where
  "text_multiline_bottom area s f al =
     (let L = multiline_layout area f al in
      pbind (fit_text L s) (\<lambda>fit.
        case fit of
          Fitting _ h \<Rightarrow>
            let (top, bottom) = split_bottom area h; L' = L\<lparr>tl_bounds := bottom\<rparr> in
            pbind (layout_text L' s (initial_cursor L')) (\<lambda>(_, _, evs). Some (Inr (evs, Some top)))
        | OutOfBounds _ _ \<Rightarrow>
            pbind (layout_text L s (initial_cursor L)) (\<lambda>(_, _, evs). Some (Inr (evs, None)))))"

subsection \<open>What a page shows\<close>

text \<open>
  The content of the operations: characters, and forced page breaks (\<open>None\<close>), which count one byte.
\<close>

fun op_stream :: "op \<Rightarrow> uchar option list" where
  "op_stream (OpText s _) = map Some s"
| "op_stream OpNextPage = [None]"
| "op_stream _ = []"

definition stream :: "op list \<Rightarrow> uchar option list" where
  "stream os = concat (map op_stream os)"

definition stream_len :: "uchar option list \<Rightarrow> nat" where
  "stream_len xs = sum_list (map (\<lambda>x. case x of None \<Rightarrow> 1 | Some c \<Rightarrow> len_utf8 c) xs)"

definition chars :: "uchar option list \<Rightarrow> uchar list" where
  "chars xs = List.map_filter id xs"

lemma stream_simps [simp]: "stream [] = []" "stream (oper # os) = op_stream oper @ stream os"
  by (simp_all add: stream_def)

lemma stream_len_simps [simp]:
  "stream_len [] = 0" "stream_len (None # xs) = Suc (stream_len xs)" "stream_len (Some c # xs) = len_utf8 c + stream_len xs"
  "stream_len (xs @ ys) = stream_len xs + stream_len ys" "stream_len (map Some s) = str_len s"
  by (simp_all add: stream_len_def str_len_def comp_def)

lemma stream_len_0 [simp]: "stream_len xs = 0 \<longleftrightarrow> xs = []"
  by (cases xs, simp, cases "hd xs") auto

lemma stream_len_pos [simp]: "0 < stream_len xs \<longleftrightarrow> xs \<noteq> []"
  by (metis neq0_conv stream_len_0)

lemma chars_simps [simp]:
  "chars [] = []" "chars (None # xs) = chars xs" "chars (Some c # xs) = c # chars xs"
  "chars (xs @ ys) = chars xs @ chars ys" "chars (map Some s) = s"
  by (simp_all add: chars_def List.map_filter_def comp_def)

text \<open>Operations and styles that move the cursor down, as for paragraphs.\<close>

fun op_ok :: "op \<Rightarrow> bool" where
  "op_ok (OpFont f) \<longleftrightarrow> 0 < line_height f \<and> line_height f \<le> 500"
| "op_ok (OpLineSpacing n) \<longleftrightarrow> 0 \<le> n \<and> n \<le> 500"
| "op_ok (OpChunkify c) \<longleftrightarrow> c = None"
| "op_ok _ \<longleftrightarrow> True"

definition style_ok :: "text_style \<Rightarrow> bool" where
  "style_ok st \<longleftrightarrow> style_chunks st = None \<and> 0 < line_height (text_font st) \<and> line_height (text_font st) \<le> 500 \<and>
     0 \<le> line_spacing st \<and> line_spacing st \<le> 500"

text \<open>Skipping a number of bytes leaves the rest of the content.\<close>

lemma filter_skipped_done: "skip \<le> skipped \<Longrightarrow> filter_skipped_ops skip skipped os = Inr os"
  by (induction os) (auto split: op.split)

lemma map_Some_split:
  assumes "map Some s @ X = A @ B"
  obtains (inside) a b where "s = a @ b" "A = map Some a" "B = map Some b @ X" "b \<noteq> []"
  | (past) A' where "A = map Some s @ A'" "X = A' @ B"
proof -
  consider us where "map Some s = A @ us" "us @ X = B" "us \<noteq> []" | us where "map Some s @ us = A" "X = us @ B"
    using assms by (cases "\<exists>us. us \<noteq> [] \<and> map Some s = A @ us") (auto simp: append_eq_append_conv2, blast)
  then show thesis
  proof cases
    case 1
    then obtain a b where "s = a @ b" "A = map Some a" "us = map Some b" by (auto simp: map_eq_append_conv)
    with 1 show thesis using inside by auto
  next
    case 2
    then show thesis using past by auto
  qed
qed

lemma filter_skipped_stream:
  "\<forall>oper \<in> set os. op_ok oper \<Longrightarrow> stream os = A @ B \<Longrightarrow> skip = skipped + stream_len A \<Longrightarrow>
     \<exists>os'. filter_skipped_ops skip skipped os = Inr os' \<and> stream os' = B \<and> (\<forall>oper \<in> set os'. op_ok oper)"
proof (induction os arbitrary: A skipped)
  case (Cons oper os)
  show ?case
  proof (cases "A = []")
    case True
    then have "filter_skipped_ops skip skipped (oper # os) = Inr (oper # os)"
      using Cons.prems(3) by (intro filter_skipped_done) simp
    with Cons.prems(1,2) True show ?thesis by auto
  next
    case A: False
    then have lt: "skipped < skip" using Cons.prems(3) by (metis add_gr_0 less_add_same_cancel1 neq0_conv stream_len_0)
    have pass: "\<exists>os'. filter_skipped_ops skip skipped os = Inr os' \<and> stream os' = B \<and> (\<forall>oper \<in> set os'. op_ok oper)"
      if "op_stream oper = []"
      using Cons.IH [of A skipped] Cons.prems that by simp
    show ?thesis
    proof (cases oper)
      case (OpText s c)
      have "map Some s @ stream os = A @ B" using Cons.prems(2) OpText by simp
      then show ?thesis
      proof (cases rule: map_Some_split)
        case (inside a b)
        moreover have "filter_skipped_ops skip (skipped + (str_len a + str_len b)) os = Inr os"
          using Cons.prems(3) inside by (intro filter_skipped_done) simp
        moreover have "0 < str_len b" using inside(4) by (metis neq0_conv str_len_0)
        ultimately show ?thesis using OpText lt Cons.prems(1,3) by (simp add: Let_def)
      next
        case (past A')
        then show ?thesis using Cons.IH [of A' "skipped + str_len s"] Cons.prems(1,3) OpText lt by simp
      qed
    next
      case OpNextPage
      then obtain A' where "A = None # A'" "stream os = A' @ B" using A Cons.prems(2) by (cases A) auto
      then show ?thesis using Cons.IH [of A' "Suc skipped"] Cons.prems(1,3) OpNextPage lt
        by (simp add: PROCESSED_CHARS_ONE_def)
    qed (use pass lt Cons.prems(1) in auto)
  qed
qed simp


lemma layout_loop_y:
  assumes "layout_loop L n rem cur evs = Some r" "- 32768 \<le> pt_y cur" "r = Inr (out, cur', rest)"
  shows "- 32768 \<le> pt_y cur'"
proof -
  have "- 32768 \<le> pt_y cur \<longrightarrow> (\<forall>out cur' rest. r = Inr (out, cur', rest) \<longrightarrow> - 32768 \<le> pt_y cur')"
  proof (rule layout_loop.raw_induct [OF _ assms(1), where P = "\<lambda>L n rem cur evs r.
      - 32768 \<le> pt_y cur \<longrightarrow> (\<forall>out cur' rest. r = Inr (out, cur', rest) \<longrightarrow> - 32768 \<le> pt_y cur')"], goal_cases)
    case (1 loop L n rem cur evs r)
    show ?case
    proof (intro impI allI)
      fix out cur' rest
      assume h: "- 32768 \<le> pt_y cur" "r = Inr (out, cur', rest)"
      have ih: "- 32768 \<le> pt_y cur'" if "loop L n' rem' c evs' = Some r" "- 32768 \<le> pt_y c" for n' rem' c evs'
        using "1"(1) [OF that(1)] h that(2) by auto
      show "- 32768 \<le> pt_y cur'"
        using "1"(2) h ih i16_bounds(1)
        by (auto simp: Let_def split: if_splits option.splits)
    qed
  qed
  then show ?thesis using assms(2,3) by blast
qed

text \<open>One text on a page, in a style that moves the cursor down.\<close>

lemma layout_text_ok:
  assumes "style_ok (style L)" "bottom_y L \<le> 21000" "- 32768 \<le> pt_y cur"
  obtains fit cur' evs read rest where "layout_text L s cur = Some (Inr (fit, cur', evs))" "s = read @ rest"
    "visible (shown_text evs) = visible read" "- 32768 \<le> pt_y cur'"
    "case fit of Fitting n _ \<Rightarrow> rest = [] \<and> n = str_len s | OutOfBounds n _ \<Rightarrow> n = str_len read"
proof -
  obtain r where r: "layout_text L s cur = Some r"
    using layout_text_ends [of L cur s] assms by (auto simp: style_ok_def)
  from layout_text_shows [OF r] obtain fit cur' evs read rest where h: "r = Inr (fit, cur', evs)" "s = read @ rest"
    "visible (shown_text evs) = visible read"
    "case fit of Fitting n _ \<Rightarrow> rest = [] \<and> n = str_len s | OutOfBounds n _ \<Rightarrow> n = str_len read" by blast
  have "- 32768 \<le> pt_y cur'"
  proof (cases "pt_y cur > bottom_y L")
    case True
    with r h(1) assms(3) show ?thesis by (auto simp: layout_text_def)
  next
    case False
    obtain cur1 evs1 where start: "layout_start L cur = (cur1, evs1)" by fastforce
    obtain q where q: "layout_loop L 1 s cur1 evs1 = Some q" using r False start by (auto simp: layout_text_def)
    with r h(1) False start obtain out rest' where "q = Inr (out, cur', rest')"
      by (cases q) (auto simp: layout_text_def Let_def)
    then show ?thesis using layout_loop_y [OF q] layout_start_events [OF start] assms(3) by auto
  qed
  with r h that show thesis by blast
qed

lemma ops_loop_shows:
  "\<forall>oper \<in> set os. op_ok oper \<Longrightarrow> style_ok (style L) \<Longrightarrow> bottom_y L \<le> 21000 \<Longrightarrow> - 32768 \<le> pt_y cur \<Longrightarrow>
     \<exists>fit new read rest. ops_loop os init L cur n evs = Some (Inr (fit, evs @ new)) \<and> stream os = read @ rest \<and>
       visible (shown_text new) = visible (chars read) \<and>
       (case fit of Fitting m _ \<Rightarrow> rest = [] \<and> m = n + stream_len read | OutOfBounds m _ \<Rightarrow> m = n + stream_len read)"
proof (induction os arbitrary: L cur n evs)
  case (Cons oper os)
  have same: "bottom_y (L\<lparr>style := st\<rparr>) = bottom_y L" "bottom_y (L\<lparr>tl_align := al\<rparr>) = bottom_y L"
    "bottom_y (L\<lparr>continues_from_prev_page := c\<rparr>) = bottom_y L" for st al c
    by (simp_all add: bottom_y_def)
  show ?case
  proof (cases oper)
    case (OpText s c)
    let ?L = "L\<lparr>continues_from_prev_page := c\<rparr>"
    have p: "style_ok (style ?L)" "bottom_y ?L \<le> 21000" "- 32768 \<le> pt_y cur" using Cons.prems by (simp_all add: same)
    obtain fit cur' evs' read rest where t: "layout_text ?L s cur = Some (Inr (fit, cur', evs'))" "s = read @ rest"
      "visible (shown_text evs') = visible read" "- 32768 \<le> pt_y cur'"
      "case fit of Fitting n _ \<Rightarrow> rest = [] \<and> n = str_len s | OutOfBounds n _ \<Rightarrow> n = str_len read"
      using p by (rule layout_text_ok)
    show ?thesis
    proof (cases fit)
      case (Fitting m h)
      then have "m = str_len s" "rest = []" using t(5) by auto
      obtain fit' new read' rest' where r: "ops_loop os init ?L cur' (n + m) (evs @ evs') = Some (Inr (fit', (evs @ evs') @ new))"
        "stream os = read' @ rest'" "visible (shown_text new) = visible (chars read')"
        "case fit' of Fitting k _ \<Rightarrow> rest' = [] \<and> k = n + m + stream_len read' | OutOfBounds k _ \<Rightarrow> k = n + m + stream_len read'"
        using Cons.IH [of ?L cur' "n + m" "evs @ evs'"] Cons.prems t(4) same by auto
      show ?thesis
        using OpText Fitting t(1-3) r \<open>m = str_len s\<close> \<open>rest = []\<close>
        by (intro exI [of _ fit'] exI [of _ "evs' @ new"] exI [of _ "map Some s @ read'"] exI [of _ rest'])
          (auto simp: Let_def split: layout_fit.splits)
    next
      case (OutOfBounds m h)
      then show ?thesis
        using OpText t
        by (intro exI [of _ "OutOfBounds (n + m) (layout_height ?L init cur')"] exI [of _ evs'] exI [of _ "map Some read"]
            exI [of _ "map Some rest @ stream os"]) (simp add: Let_def)
    qed
  next
    case OpNextPage
    then show ?thesis
      by (intro exI [of _ "OutOfBounds (n + 1) (layout_height L init cur)"] exI [of _ "[]"] exI [of _ "[None]"]
          exI [of _ "stream os"]) (simp add: PROCESSED_CHARS_ONE_def visible_def)
  next
    case (OpCursorOffset d)
    then show ?thesis
      using Cons.IH [of L "\<lparr>pt_x = i16 (pt_x cur + off_x d), pt_y = i16 (pt_y cur + off_y d)\<rparr>" n evs] Cons.prems i16_bounds(1)
      by simp
  next
    case (OpFont f)
    then show ?thesis
      using Cons.IH [of "L\<lparr>style := (style L)\<lparr>text_font := f\<rparr>\<rparr>" cur n evs] Cons.prems by (simp add: same style_ok_def)
  next
    case (OpAlignment a)
    then show ?thesis using Cons.IH [of "L\<lparr>tl_align := a\<rparr>" cur n evs] Cons.prems by (simp add: same)
  next
    case (OpLineBreaking b)
    then show ?thesis
      using Cons.IH [of "L\<lparr>style := (style L)\<lparr>line_breaking := b\<rparr>\<rparr>" cur n evs] Cons.prems by (simp add: same style_ok_def)
  next
    case (OpChunkify c)
    then show ?thesis
      using Cons.IH [of "L\<lparr>style := (style L)\<lparr>style_chunks := c\<rparr>\<rparr>" cur n evs] Cons.prems by (simp add: same style_ok_def)
  next
    case (OpLineSpacing k)
    then show ?thesis
      using Cons.IH [of "L\<lparr>style := (style L)\<lparr>line_spacing := k\<rparr>\<rparr>" cur n evs] Cons.prems by (simp add: same style_ok_def)
  qed (use Cons.IH [of L cur n evs] Cons.prems in simp)
qed (simp add: visible_def)


definition ops_ok :: "op_text_layout \<Rightarrow> bool" where
  "ops_ok F \<longleftrightarrow> (\<forall>oper \<in> set (ops F). op_ok oper) \<and> style_ok (style (op_layout F)) \<and> area_ok (tl_bounds (op_layout F)) \<and>
     - 1000 \<le> padding_bottom (op_layout F) \<and> padding_bottom (op_layout F) \<le> 1000"

text \<open>
  What the layout from an offset on shows: the content behind the offset, up to the end or to the reported number of bytes.
\<close>

lemma layout_ops_shows:
  assumes "ops_ok F" "stream (ops F) = A @ B"
  obtains fit evs read rest where "layout_ops F (stream_len A) d = Some (Inr (fit, evs))" "B = read @ rest"
    "visible (shown_text evs) = visible (chars read)"
    "case fit of Fitting m _ \<Rightarrow> rest = [] | OutOfBounds m _ \<Rightarrow> m = stream_len read"
proof -
  have b: "bottom_y (op_layout F) \<le> 21000"
    using assms(1) by (auto simp: ops_ok_def area_ok_def bottom_y_def max16_def i16_id)
  have y: "- 32768 \<le> pt_y (point_ofs (initial_cursor (op_layout F)) d)"
    by (simp add: point_ofs_def point_new_def i16_bounds)
  obtain os where os: "filter_skipped_ops (stream_len A) 0 (ops F) = Inr os" "stream os = B" "\<forall>oper \<in> set os. op_ok oper"
    using filter_skipped_stream [of "ops F" A B "stream_len A" 0] assms by (auto simp: ops_ok_def)
  have st: "style_ok (style (op_layout F))" using assms(1) by (simp add: ops_ok_def)
  from ops_loop_shows [OF os(3) st b y, of "point_ofs (initial_cursor (op_layout F)) d" 0 "[]"] os(1,2) that
  show thesis by (fastforce simp: layout_ops_def Let_def split: layout_fit.splits)
qed

text \<open>\<open>page_at t A\<close>: the text turned to the page behind the content \<open>A\<close>; \<open>stuck t\<close>: a page that takes nothing.\<close>

definition page_at :: "formatted_text \<Rightarrow> uchar option list \<Rightarrow> formatted_text" where
  "page_at t A = t\<lparr>char_offset := stream_len A, y_offset := 0\<rparr>"

definition stuck :: "formatted_text \<Rightarrow> bool" where
  "stuck t \<longleftrightarrow> (\<exists>A B h evs. stream (ops (ft_ops t)) = A @ B \<and> ft_layout_content (page_at t A) = Some (Inr (OutOfBounds 0 h, evs)))"

text \<open>Pages from a given content on: each shows its part, and only the last one fits completely.\<close>

fun pages_from :: "formatted_text \<Rightarrow> uchar option list \<Rightarrow> uchar option list list \<Rightarrow> bool" where
  "pages_from t A [] \<longleftrightarrow> False"
| "pages_from t A (p # ps) \<longleftrightarrow>
     (\<exists>fit evs. ft_layout_content (page_at t A) = Some (Inr (fit, evs)) \<and> visible (shown_text evs) = visible (chars p) \<and>
       (case fit of Fitting _ _ \<Rightarrow> ps = [] | OutOfBounds m _ \<Rightarrow> m = stream_len p \<and> pages_from t (A @ p) ps))"

lemma page_at_step: "(page_at t A)\<lparr>char_offset := char_offset (page_at t A) + stream_len p\<rparr> = page_at t (A @ p)"
  by (simp add: page_at_def)

lemma count_loop_pages:
  assumes "ops_ok (ft_ops t)" "\<not> stuck t"
  shows "stream (ops (ft_ops t)) = A @ B \<Longrightarrow>
    \<exists>ps. concat ps = B \<and> pages_from t A ps \<and> ft_count_loop (page_at t A) n = Some (Inr (n + (length ps - 1)))"
proof (induction "stream_len B" arbitrary: A B n rule: less_induct)
  case less
  have content: "ft_layout_content (page_at t A) = layout_ops (ft_ops t) (stream_len A) (offset_new 0 0)"
    by (simp add: ft_layout_content_def page_at_def)
  obtain fit evs read rest where l: "ft_layout_content (page_at t A) = Some (Inr (fit, evs))" "B = read @ rest"
    "visible (shown_text evs) = visible (chars read)"
    "case fit of Fitting m _ \<Rightarrow> rest = [] | OutOfBounds m _ \<Rightarrow> m = stream_len read"
    unfolding content using assms(1) less.prems by (rule layout_ops_shows)
  show ?case
  proof (cases fit)
    case (Fitting m h)
    then have "ft_count_loop (page_at t A) n = Some (Inr n)" using l(1) by (subst ft_count_loop.simps) simp
    with l Fitting show ?thesis by (intro exI [of _ "[read]"]) simp
  next
    case (OutOfBounds m h)
    then have m: "m = stream_len read" using l(4) by simp
    have "m \<noteq> 0"
    proof
      assume "m = 0"
      with l(1) OutOfBounds have "ft_layout_content (page_at t A) = Some (Inr (OutOfBounds 0 h, evs))" by simp
      with less.prems have "stuck t" unfolding stuck_def by (intro exI [of _ A] exI [of _ B] exI [of _ h] exI [of _ evs]) simp
      with assms(2) show False ..
    qed
    then have "stream_len rest < stream_len B" using l(2) m by simp
    moreover have "stream (ops (ft_ops t)) = (A @ read) @ rest" using less.prems l(2) by simp
    ultimately obtain ps where ps: "concat ps = rest" "pages_from t (A @ read) ps"
      "ft_count_loop (page_at t (A @ read)) (n + 1) = Some (Inr (n + 1 + (length ps - 1)))"
      using less.hyps by blast
    then have "ps \<noteq> []" by auto
    moreover have "ft_count_loop (page_at t A) n = ft_count_loop (page_at t (A @ read)) (n + 1)"
      using l(1) OutOfBounds m by (subst ft_count_loop.simps) (simp add: page_at_step)
    ultimately show ?thesis
      using ps l OutOfBounds m by (intro exI [of _ "read # ps"]) (cases ps, auto)
  qed
qed

lemma change_loop_pages:
  "pages_from t A ps \<Longrightarrow> k < length ps \<Longrightarrow> ft_layout_content (page_at t A) = Some (Inr (fit, evs)) \<Longrightarrow>
     \<exists>fit' evs'. ft_change_loop k (page_at t A) fit = Some (Inr (page_at t (A @ concat (take k ps)), fit')) \<and>
       ft_layout_content (page_at t (A @ concat (take k ps))) = Some (Inr (fit', evs')) \<and>
       visible (shown_text evs') = visible (chars (ps ! k))"
proof (induction k arbitrary: A ps fit evs)
  case 0
  then show ?case by (cases ps) auto
next
  case (Suc k)
  from Suc.prems(1,2) obtain p qs where ps: "ps = p # qs" "k < length qs" by (cases ps) simp_all
  then obtain m h where fit: "fit = OutOfBounds m h" "m = stream_len p" "pages_from t (A @ p) qs"
    using Suc.prems by (cases fit) auto
  then obtain fit1 evs1 where c: "ft_layout_content (page_at t (A @ p)) = Some (Inr (fit1, evs1))"
    using ps(2) by (cases qs) auto
  from Suc.IH [OF fit(3) _ c] Suc.prems(2) ps(1) fit c show ?case by (simp add: page_at_step Let_def)
qed




definition two_pages :: formatted_text where
  "two_pages = formatted_text_new (op_text (op_next_page (op_text ((ops_place (op_text_layout_new (text_style_new fixed_font))
     \<lparr>x0 = 0, y0 = 0, x1 = 5, y1 = 3\<rparr>)) [104])) [105])"

lemma two_pages_ops: "ops (ft_ops two_pages) = [OpText [104] False, OpNextPage, OpText [105] False]"
  by (simp add: two_pages_def formatted_text_new_def op_text_def op_next_page_def with_new_item_def ops_place_def
      op_text_layout_new_def MAX_OPS_def)

definition page_layout :: text_layout where
  "page_layout = (text_layout_new (text_style_new fixed_font))\<lparr>tl_bounds := \<lparr>x0 = 0, y0 = 0, x1 = 5, y1 = 3\<rparr>\<rparr>"

lemma two_pages_layout: "op_layout (ft_ops two_pages) = page_layout" "ft_vertical two_pages = AlStart"
  by (simp_all add: two_pages_def formatted_text_new_def op_text_def op_next_page_def with_new_item_def ops_place_def
      op_text_layout_new_def MAX_OPS_def page_layout_def)

lemma page_layout_sel [simp]:
  "style page_layout = text_style_new fixed_font" "tl_bounds page_layout = \<lparr>x0 = 0, y0 = 0, x1 = 5, y1 = 3\<rparr>"
  "padding_bottom page_layout = 0" "padding_top page_layout = 0" "tl_align page_layout = AlStart"
  by (simp_all add: page_layout_def text_layout_new_def)

lemma text_style_new_sel [simp]:
  "text_font (text_style_new f) = f" "style_chunks (text_style_new f) = None" "line_spacing (text_style_new f) = 0"
  "line_breaking (text_style_new f) = BreakAtWhitespace" "page_breaking (text_style_new f) = CutAndInsertEllipsis"
  by (simp_all add: text_style_new_def)

lemma one_letter:
  assumes "c = 104 \<or> c = 105"
  shows "\<exists>cur' evs h. layout_text (page_layout\<lparr>continues_from_prev_page := b\<rparr>) [c] \<lparr>pt_x = 0, pt_y = 1\<rparr> = Some (Inr (Fitting 1 h, cur', evs))"
proof -
  let ?L = "page_layout\<lparr>continues_from_prev_page := b\<rparr>"
  have sp: "next_span ?L \<lparr>pt_x = 0, pt_y = 1\<rparr> [c] =
    \<lparr>sp_length = 1, skip_next_chars = 0, advance_x = 1, advance_y = 0, insert_hyphen = False\<rparr>"
    using assms by (elim disjE) (simp_all add: chunk_eval)
  have split: "str_split 1 [c] = Some ([c], [])" "str_split (Suc 0) [c] = Some ([c], [])" using assms by (auto simp: len_utf8_def)
  have loop: "layout_loop ?L 1 [c] \<lparr>pt_x = 0, pt_y = 1\<rparr> [] = Some (Inr (False, \<lparr>pt_x = 1, pt_y = 1\<rparr>, [], [SinkText \<lparr>pt_x = 0, pt_y = 1\<rparr> [c]]))"
    by (subst layout_loop.simps) (simp add: sp split Let_def i16_id del: str_split.simps)
  have start: "layout_start ?L cur = (cur, [])" for cur by (simp add: layout_start_def)
  have bottom: "bottom_y ?L = 3" by (simp add: bottom_y_def max16_def i16_id)
  show ?thesis using assms loop by (auto simp: layout_text_def start bottom len_utf8_def)
qed

lemma two_pages_not_stuck: "\<not> stuck two_pages"
proof
  assume "stuck two_pages"
  then obtain A B h evs where ab: "[Some 104, None, Some 105] = A @ B"
    and l: "ft_layout_content (page_at two_pages A) = Some (Inr (OutOfBounds 0 h, evs))"
    by (auto simp: stuck_def two_pages_ops)
  have cursor: "point_ofs (initial_cursor page_layout) (offset_new 0 0) = \<lparr>pt_x = 0, pt_y = 1\<rparr>"
    by (simp add: initial_cursor_def fixed_font_def point_ofs_def point_new_def top_left_def offset_new_def i16_id)
  have eval: "ft_layout_content (page_at two_pages A) = pbind (Some (filter_skipped_ops (stream_len A) 0
      [OpText [104] False, OpNextPage, OpText [105] False])) (\<lambda>os. ops_loop os \<lparr>pt_x = 0, pt_y = 1\<rparr> page_layout \<lparr>pt_x = 0, pt_y = 1\<rparr> 0 [])" for A
    by (simp add: ft_layout_content_def page_at_def layout_ops_def two_pages_ops two_pages_layout cursor Let_def)
  note letters = one_letter [of 104 False] one_letter [of 105 False]
  from ab consider "A = []" | "A = [Some 104]" | "A = [Some 104, None]" | "A = [Some 104, None, Some 105]"
    by (auto simp: Cons_eq_append_conv)
  then show False
    using l letters unfolding eval by cases (auto simp: len_utf8_def PROCESSED_CHARS_ONE_def Let_def)
qed



text \<open>If a page takes nothing, then counting the pages does not return.\<close>

lemma stuck_count_never_returns:
  assumes "ft_layout_content t = Some (Inr (OutOfBounds 0 h, evs))"
  shows "ft_count_loop t n = None"
proof (rule ccontr)
  assume "ft_count_loop t n \<noteq> None"
  then obtain r where "ft_count_loop t n = Some r" by auto
  then have "ft_layout_content t \<noteq> Some (Inr (OutOfBounds 0 h, evs))"
  proof (rule ft_count_loop.raw_induct [rotated], goal_cases)
    case (1 loop t n r)
    then show ?case by (auto split: option.splits sum.splits layout_fit.splits)
  qed
  with assms show False by simp
qed

end
