(* ===== verification/Crypto.thy ===== *)
theory Crypto
  imports Micropython "HOL-Library.List_Lexorder"
begin

section \<open>Merkle proofs and collective signatures\<close>

text \<open>
  \<^verbatim>\<open>core/embed/rust/src/crypto/\<close>: \<^verbatim>\<open>merkle.rs\<close>, \<^verbatim>\<open>cosi.rs\<close>, \<^verbatim>\<open>ed25519.rs\<close>, \<^verbatim>\<open>sha256.rs\<close> and the errors of
  \<^verbatim>\<open>mod.rs\<close>.  The C primitives are the fields of \<open>primitives\<close>: the hash of a byte string (a context
  that was updated with several pieces hashes their concatenation), the check of one Ed25519
  signature, and the sum of public keys, which fails on an invalid key.
\<close>

type_synonym digest = bytes
type_synonym public_key = bytes

record primitives =
  sha256 :: "bytes \<Rightarrow> digest"
  ed25519_sign_open :: "bytes \<Rightarrow> public_key \<Rightarrow> bytes \<Rightarrow> bool"
  cosi_combine :: "public_key list \<Rightarrow> public_key option"

datatype crypto_error = SignatureVerificationFailed | InvalidEncoding | InvalidParams

type_synonym 'a cres = "('a, crypto_error) result"

definition error_of_crypto :: "crypto_error \<Rightarrow> error" where
  "error_of_crypto e = (case e of
      SignatureVerificationFailed \<Rightarrow> ValueError ''Signature verification failed''
    | InvalidEncoding \<Rightarrow> ValueError ''Invalid key or signature encoding''
    | InvalidParams \<Rightarrow> ValueError ''Invalid cryptographic parameters'')"

text \<open>The conversion that the operator \<open>?\<close> applies to an error.\<close>

definition lift_crypto :: "'a cres \<Rightarrow> 'a res" where
  "lift_crypto r = (case r of
      Inl (Err e) \<Rightarrow> Inl (Err (error_of_crypto e)) | Inl Panic \<Rightarrow> Inl Panic | Inr x \<Rightarrow> Inr x)"

subsection \<open>Operations\<close>

definition ed25519_verify :: "primitives \<Rightarrow> bytes \<Rightarrow> public_key \<Rightarrow> bytes \<Rightarrow> unit cres" where
  "ed25519_verify P message key sig =
     (if ed25519_sign_open P message key sig then Inr () else Inl (Err SignatureVerificationFailed))"

definition combine_publickeys :: "primitives \<Rightarrow> public_key list \<Rightarrow> public_key cres" where
  "combine_publickeys P keys = ok_or (cosi_combine P keys) InvalidEncoding"

text \<open>\<open>heapless::Vec\<close> with the capacity \<open>MAX_PUBKEYS\<close>: the unwrapped \<open>push\<close> panics when it is full.\<close>

definition MAX_PUBKEYS :: nat where
  "MAX_PUBKEYS = 3"

fun select_keys_loop :: "u8 \<Rightarrow> public_key list \<Rightarrow> public_key list \<Rightarrow> (public_key list \<times> u8) cres" where
  "select_keys_loop sigmask [] selected = Inr (selected, sigmask)"
| "select_keys_loop sigmask (key # keys) selected =
     (if sigmask AND 1 \<noteq> 0 then
        (if length selected < MAX_PUBKEYS
         then select_keys_loop (drop_bit 1 sigmask) keys (selected @ [key])
         else Inl Panic)
      else select_keys_loop (drop_bit 1 sigmask) keys selected)"

definition select_keys :: "u8 \<Rightarrow> public_key list \<Rightarrow> public_key list cres" where
  "select_keys sigmask keys =
     rbind (select_keys_loop sigmask keys []) (\<lambda>(selected, msk).
       if msk \<noteq> 0 then Inl (Err InvalidParams) else Inr selected)"

record cosi_signature =
  sigmask :: u8
  signature :: bytes

definition cosi_verify ::
  "primitives \<Rightarrow> u8 \<Rightarrow> bytes \<Rightarrow> public_key list \<Rightarrow> cosi_signature \<Rightarrow> unit cres" where
  "cosi_verify P threshold message public_keys sig =
     (if threshold < 1 then Inl (Err InvalidParams)
      else rbind (select_keys (sigmask sig) public_keys) (\<lambda>selected.
        if length selected < unat threshold then Inl (Err InvalidParams)
        else rbind (combine_publickeys P selected) (\<lambda>combined.
          ed25519_verify P message combined (signature sig))))"

definition merkle_step :: "primitives \<Rightarrow> digest \<Rightarrow> digest \<Rightarrow> digest" where
  "merkle_step P out proof_elem =
     (let (mi, ma) = (if out < proof_elem then (out, proof_elem) else (proof_elem, out)) in
      sha256 P ([0x01] @ mi @ ma))"

definition merkle_root :: "primitives \<Rightarrow> bytes \<Rightarrow> digest list \<Rightarrow> digest" where
  "merkle_root P elem proof = foldl (merkle_step P) (sha256 P ([0x00] @ elem)) proof"

subsection \<open>Merkle trees\<close>

text \<open>
  The tree the proofs are about, as \<^verbatim>\<open>ethereum-definitions.md\<close> specifies it: a leaf is hashed with the
  prefix \<open>0\<close>, an inner node hashes its children in the order of their digests with the prefix \<open>1\<close>.
  A path leads from the root to a leaf; the proof lists the digests of the siblings, the lowest first.
\<close>

datatype merkle_tree = MLeaf bytes | MNode merkle_tree merkle_tree

fun tree_root :: "primitives \<Rightarrow> merkle_tree \<Rightarrow> digest" where
  "tree_root P (MLeaf b) = sha256 P (0 # b)"
| "tree_root P (MNode l r) =
     (let a = tree_root P l; b = tree_root P r in sha256 P (1 # min a b @ max a b))"

fun leaf_at :: "merkle_tree \<Rightarrow> bool list \<Rightarrow> bytes option" where
  "leaf_at (MLeaf b) [] = Some b"
| "leaf_at (MNode l r) (d # ds) = leaf_at (if d then r else l) ds"
| "leaf_at _ _ = None"

fun proof_at :: "primitives \<Rightarrow> merkle_tree \<Rightarrow> bool list \<Rightarrow> digest list" where
  "proof_at P (MNode l r) (d # ds) =
     proof_at P (if d then r else l) ds @ [tree_root P (if d then l else r)]"
| "proof_at P _ _ = []"

lemma merkle_step_eq: "merkle_step P a b = sha256 P (1 # min a b @ max a b)"
  by (auto simp: merkle_step_def min_def max_def)

lemma min_max_commute: "min a b @ max a b = min b a @ max b (a :: bytes)"
  by (simp add: min.commute max.commute)

text \<open>
  C40.  A proof of inclusion built for any leaf of a Merkle tree leads \<open>merkle_root\<close> to the root of
  that tree, whatever the depth of the leaf and the order of the digests on the way.
\<close>

theorem merkle_root_of_proof:
  assumes "leaf_at t path = Some elem"
  shows "merkle_root P elem (proof_at P t path) = tree_root P t"
  using assms
proof (induction t path rule: leaf_at.induct)
  case (1 b)
  then show ?case by (simp add: merkle_root_def)
next
  case (2 l r d ds)
  then have "merkle_root P elem (proof_at P (MNode l r) (d # ds)) =
      merkle_step P (tree_root P (if d then r else l)) (tree_root P (if d then l else r))"
    by (simp add: merkle_root_def split: if_splits)
  then show ?case
    by (cases d) (simp_all add: merkle_step_eq Let_def min_max_commute [of "tree_root P r"])
qed simp_all

theorem merkle_root_of_proof_witness:
  "merkle_root \<lparr>sha256 = rev, ed25519_sign_open = \<lambda>_ _ _. True, cosi_combine = \<lambda>_. None\<rparr> [5]
     (proof_at \<lparr>sha256 = rev, ed25519_sign_open = \<lambda>_ _ _. True, cosi_combine = \<lambda>_. None\<rparr>
        (MNode (MLeaf [7]) (MNode (MLeaf [5]) (MLeaf [9]))) [True, False]) =
   tree_root \<lparr>sha256 = rev, ed25519_sign_open = \<lambda>_ _ _. True, cosi_combine = \<lambda>_. None\<rparr>
     (MNode (MLeaf [7]) (MNode (MLeaf [5]) (MLeaf [9])))"
  by (rule merkle_root_of_proof) simp

subsection \<open>Which signatures are accepted\<close>

text \<open>The keys that a mask names, in the order of the table.\<close>

definition masked_keys :: "u8 \<Rightarrow> public_key list \<Rightarrow> public_key list" where
  "masked_keys msk keys = map (\<lambda>i. keys ! i) (filter (bit msk) [0..<length keys])"

lemma masked_keys_Cons:
  "masked_keys msk (k # keys) = (if bit msk 0 then [k] else []) @ masked_keys (drop_bit 1 msk) keys"
proof -
  have "filter (bit msk) [0..<length (k # keys)] =
      (if bit msk 0 then [0] else []) @ map Suc (filter (bit (drop_bit 1 msk)) [0..<length keys])"
    by (simp add: upt_conv_Cons map_Suc_upt [symmetric] filter_map o_def bit_drop_bit_eq del: upt_Suc)
  then show ?thesis
    by (simp add: masked_keys_def)
qed

lemma and_1_bit: "(m :: u8) AND 1 \<noteq> 0 \<longleftrightarrow> bit m 0"
  by (simp add: and_one_eq odd_iff_mod_2_eq_one bit_0)

lemma select_keys_loop_eq:
  "length selected + length keys \<le> MAX_PUBKEYS \<Longrightarrow>
     select_keys_loop msk keys selected = Inr (selected @ masked_keys msk keys, drop_bit (length keys) msk)"
proof (induction msk keys selected rule: select_keys_loop.induct)
  case (1 msk selected)
  then show ?case by (simp add: masked_keys_def)
next
  case (2 msk key keys selected)
  then show ?case
    by (auto simp: masked_keys_Cons and_1_bit)
qed

lemma select_keys_eq:
  assumes "length keys \<le> MAX_PUBKEYS"
  shows "select_keys msk keys =
    (if drop_bit (length keys) msk = 0 then Inr (masked_keys msk keys) else Inl (Err InvalidParams))"
  using assms by (simp add: select_keys_def select_keys_loop_eq)

lemma high_bits_zero: "drop_bit n (m :: u8) = 0 \<longleftrightarrow> (\<forall>i \<ge> n. \<not> bit m i)"
proof
  assume d: "drop_bit n m = 0"
  show "\<forall>i \<ge> n. \<not> bit m i"
  proof (intro allI impI)
    fix i assume "n \<le> i"
    then have "bit m i = bit (drop_bit n m) (i - n)" by (simp add: bit_drop_bit_eq)
    with d show "\<not> bit m i" by simp
  qed
next
  assume "\<forall>i \<ge> n. \<not> bit m i"
  then show "drop_bit n m = 0" by (intro bit_eqI) (simp add: bit_drop_bit_eq)
qed

lemma cosi_verify_safe:
  assumes "length keys \<le> MAX_PUBKEYS"
  shows "safe (cosi_verify P threshold message keys sig)
    (\<lambda>_. cosi_verify P threshold message keys sig = Inr ())"
  unfolding cosi_verify_def select_keys_eq [OF assms]
  by (auto simp: combine_publickeys_def ed25519_verify_def ok_or_def rbind_def safe_def
      split: option.splits)

text \<open>
  C8.  A collective signature is accepted exactly if the threshold is positive, its mask names no
  key beyond the table, it names at least as many keys as the threshold, and the Ed25519 signature is
  valid under the combination of exactly the keys it names.  In no case does the check panic.
\<close>

theorem cosi_verify_accepts:
  assumes "length keys \<le> MAX_PUBKEYS"
  shows "(cosi_verify P threshold message keys sig = Inr () \<longleftrightarrow>
      1 \<le> threshold \<and> (\<forall>i \<ge> length keys. \<not> bit (sigmask sig) i) \<and>
      unat threshold \<le> length (masked_keys (sigmask sig) keys) \<and>
      (\<exists>key. cosi_combine P (masked_keys (sigmask sig) keys) = Some key \<and>
         ed25519_sign_open P message key (signature sig))) \<and>
    cosi_verify P threshold message keys sig \<noteq> Inl Panic"
proof -
  have t: "threshold < 1 \<longleftrightarrow> \<not> 1 \<le> threshold"
    by (rule not_le [symmetric])
  show ?thesis
    unfolding cosi_verify_def select_keys_eq [OF assms] high_bits_zero t
    by (auto simp: combine_publickeys_def ed25519_verify_def ok_or_def rbind_def split: option.splits)
qed

theorem cosi_verify_accepts_witness:
  "cosi_verify \<lparr>sha256 = id, ed25519_sign_open = \<lambda>m k s. s = m @ k, cosi_combine = \<lambda>ks. Some (concat ks)\<rparr>
     2 [9] [[1], [2], [3]] \<lparr>sigmask = 5, signature = [9, 1, 3]\<rparr> = Inr ()"
proof -
  have "masked_keys 5 [[1], [2], [3]] = [[1], [3]]"
    by (simp add: masked_keys_def upt_rec)
  moreover have "\<not> bit (5 :: u8) i" if "3 \<le> i" for i
    using that high_bits_zero [of 3 5] by simp
  ultimately show ?thesis
    by (subst cosi_verify_accepts [THEN conjunct1]) (auto simp: MAX_PUBKEYS_def)
qed

end
