(* ===== verification/Io_Stream.thy ===== *)
theory Io_Stream
  imports Micropython
begin

section \<open>Input streams\<close>

text \<open>
  \<^verbatim>\<open>InputStream\<close> and \<^verbatim>\<open>BinaryData\<close> of \<^verbatim>\<open>core/embed/rust/src/io.rs\<close>: a cursor over a byte slice.
  Every reading operation returns the value together with the advanced stream; on an error no
  caller looks at the stream again, so only the error is returned.  The position is a \<open>usize\<close>; the
  one addition that can wrap, \<open>self.pos + len\<close> with a caller-chosen \<open>len\<close>, is written with
  \<^const>\<open>usize_add\<close>.
\<close>

record input_stream =
  buf :: bytes
  pos :: nat

definition stream_new :: "bytes \<Rightarrow> input_stream" where
  "stream_new b = \<lparr>buf = b, pos = 0\<rparr>"

definition remaining :: "input_stream \<Rightarrow> nat" where
  "remaining s = length (buf s) - pos s"

definition tell :: "input_stream \<Rightarrow> nat" where
  "tell s = pos s"

definition read :: "input_stream \<Rightarrow> nat \<Rightarrow> (bytes \<times> input_stream) res" where
  "read s len =
     rbind (ok_or (slice_get (buf s) (pos s) (usize_add (pos s) len)) EOFError)
       (\<lambda>b. Inr (b, s\<lparr>pos := usize_add (pos s) len\<rparr>))"

definition read_stream :: "input_stream \<Rightarrow> nat \<Rightarrow> (input_stream \<times> input_stream) res" where
  "read_stream s len = rbind (read s len) (\<lambda>(b, s'). Inr (stream_new b, s'))"

definition rest :: "input_stream \<Rightarrow> bytes" where
  "rest s = (if pos s > length (buf s) then [] else drop (pos s) (buf s))"

definition read_byte :: "input_stream \<Rightarrow> (u8 \<times> input_stream) res" where
  "read_byte s =
     rbind (ok_or (nth_get (buf s) (pos s)) EOFError) (\<lambda>v. Inr (v, s\<lparr>pos := pos s + 1\<rparr>))"

definition read_u16_le :: "input_stream \<Rightarrow> (u16 \<times> input_stream) res" where
  "read_u16_le s = rbind (read s 2) (\<lambda>(b, s'). Inr (from_le_bytes b, s'))"

definition read_u32_le :: "input_stream \<Rightarrow> (u32 \<times> input_stream) res" where
  "read_u32_le s = rbind (read s 4) (\<lambda>(b, s'). Inr (from_le_bytes b, s'))"

text \<open>
  The loop of \<open>read_uvarint\<close>.  In the release profile \<open>x << shift\<close> uses \<open>shift\<close> modulo 64 and
  the accumulation wraps at 64 bits.
\<close>

function read_uvarint_loop :: "input_stream \<Rightarrow> u64 \<Rightarrow> nat \<Rightarrow> (u64 \<times> input_stream) res" where
  "read_uvarint_loop s acc shift =
     rbind (read_byte s) (\<lambda>(byte, s').
       let acc' = acc + push_bit (shift mod 64) (ucast byte AND 0x7F) in
       if byte AND 0x80 = 0 then Inr (acc', s')
       else read_uvarint_loop s' acc' (shift + 7))"
  by pat_completeness auto
termination
  by (relation "measure (\<lambda>(s, _). length (buf s) - pos s)")
    (auto simp: read_byte_def nth_get_def result_simps split: if_splits)

declare read_uvarint_loop.simps [simp del]

definition read_uvarint :: "input_stream \<Rightarrow> (u64 \<times> input_stream) res" where
  "read_uvarint s = read_uvarint_loop s 0 0"

subsection \<open>Binary data sources\<close>

text \<open>
  \<open>BinaryData::read\<close>: copies at most \<open>length buff\<close> bytes from offset \<open>ofs\<close> into the buffer and
  returns the filled buffer with the count.  \<open>data[ofs..ofs + size]\<close> panics when \<open>ofs\<close> lies beyond
  the end.
\<close>

definition binary_data_read :: "bytes \<Rightarrow> nat \<Rightarrow> bytes \<Rightarrow> (bytes \<times> nat) res" where
  "binary_data_read data ofs buff =
     (let size = min (length buff) (length data - ofs) in
      rbind (unwrap (slice_get data ofs (usize_add ofs size)))
        (\<lambda>b. Inr (b @ drop size buff, size)))"

subsection \<open>Streams as the bytes still to be read\<close>

text \<open>The abstraction: what is left of the input.  A position never passes the end.\<close>

definition input :: "input_stream \<Rightarrow> bytes" where
  "input s = drop (pos s) (buf s)"

definition wf_stream :: "input_stream \<Rightarrow> bool" where
  "wf_stream s \<longleftrightarrow> pos s \<le> length (buf s) \<and> length (buf s) < 2 ^ 31"

definition advance :: "input_stream \<Rightarrow> nat \<Rightarrow> input_stream" where
  "advance s n = s\<lparr>pos := pos s + n\<rparr>"

lemma input_stream_new [simp]: "input (stream_new b) = b"
  by (simp add: input_def stream_new_def)

lemma wf_stream_new [simp]: "wf_stream (stream_new b) \<longleftrightarrow> length b < 2 ^ 31"
  by (auto simp: wf_stream_def stream_new_def)

lemma buf_advance [simp]: "buf (advance s n) = buf s" and pos_advance [simp]: "pos (advance s n) = pos s + n"
  by (simp_all add: advance_def)

lemma input_advance [simp]: "input (advance s n) = drop n (input s)"
  by (simp add: input_def advance_def add.commute)

lemma advance_advance [simp]: "advance (advance s m) n = advance s (m + n)"
  by (simp add: advance_def add.assoc)

lemma advance_0 [simp]: "advance s 0 = s"
  by (simp add: advance_def)

lemma length_input: "length (input s) = length (buf s) - pos s"
  by (simp add: input_def)

lemma wf_stream_advance: "wf_stream s \<Longrightarrow> n \<le> length (input s) \<Longrightarrow> wf_stream (advance s n)"
  by (auto simp: wf_stream_def length_input)

lemma remaining_eq: "remaining s = length (input s)"
  by (simp add: remaining_def length_input)

lemma rest_eq: "rest s = input s"
  by (simp add: rest_def input_def)

lemma read_eq:
  assumes "wf_stream s" "len < 2 ^ 32"
  shows "read s len =
    (if len \<le> length (input s) then Inr (take len (input s), advance s len) else Inl (Err EOFError))"
proof (cases "len \<le> length (input s)")
  case True
  with assms have "pos s + len \<le> length (buf s)" "pos s + len < 2 ^ 32"
    by (auto simp: wf_stream_def length_input)
  then show ?thesis using True
    by (simp add: read_def slice_get_def usize_add_def input_def advance_def)
next
  case False
  then have long: "length (buf s) < pos s + len" using assms by (simp add: wf_stream_def length_input)
  have "slice_get (buf s) (pos s) (usize_add (pos s) len) = None"
  proof (cases "pos s + len < 2 ^ 32")
    case True
    with long show ?thesis by (simp add: slice_get_def usize_add_def)
  next
    case wrap: False
    with assms have "(pos s + len) mod 2 ^ 32 = pos s + len - 2 ^ 32"
      by (subst le_mod_geq) (auto simp: wf_stream_def)
    with wrap assms have "usize_add (pos s) len < pos s"
      by (simp add: usize_add_def)
    then show ?thesis by (simp add: slice_get_def)
  qed
  with False show ?thesis by (simp add: read_def)
qed

lemma read_byte_eq:
  "read_byte s = (case input s of [] \<Rightarrow> Inl (Err EOFError) | b # _ \<Rightarrow> Inr (b, advance s 1))"
proof (cases "pos s < length (buf s)")
  case True
  then have "input s = buf s ! pos s # drop (Suc (pos s)) (buf s)"
    by (simp add: input_def Cons_nth_drop_Suc)
  with True show ?thesis by (simp add: read_byte_def nth_get_def advance_def)
next
  case False
  then show ?thesis by (simp add: read_byte_def nth_get_def input_def)
qed

lemma read_uvarint_loop_eq:
  "read_uvarint_loop s acc shift =
     (case input s of
        [] \<Rightarrow> Inl (Err EOFError)
      | b # _ \<Rightarrow>
          let acc' = acc + push_bit (shift mod 64) (ucast b AND 0x7F) in
          if b AND 0x80 = 0 then Inr (acc', advance s 1)
          else read_uvarint_loop (advance s 1) acc' (shift + 7))"
  by (subst read_uvarint_loop.simps) (simp add: read_byte_eq Let_def split: list.split)

text \<open>A successful varint consumes at least one byte and stays inside the buffer.\<close>

lemma read_uvarint_loop_progress:
  "read_uvarint_loop s acc shift = Inr (v, s') \<Longrightarrow>
     \<exists>n. s' = advance s n \<and> 0 < n \<and> n \<le> length (input s)"
proof (induction s acc shift rule: read_uvarint_loop.induct)
  case (1 s acc shift)
  from "1.prems" obtain b bs where inp: "input s = b # bs"
    by (auto simp: read_uvarint_loop_eq [of s acc shift] split: list.splits)
  let ?acc = "acc + push_bit (shift mod 64) (ucast b AND 0x7F)"
  show ?case
  proof (cases "b AND 0x80 = 0")
    case True
    with "1.prems" inp have "s' = advance s 1"
      by (simp add: read_uvarint_loop_eq [of s acc shift] Let_def)
    then show ?thesis using inp by auto
  next
    case False
    with "1.prems" inp have "read_uvarint_loop (advance s 1) ?acc (shift + 7) = Inr (v, s')"
      by (simp add: read_uvarint_loop_eq [of s acc shift] Let_def)
    with "1.IH" [of "(b, advance s 1)" b "advance s 1" ?acc] False inp
    obtain n where "s' = advance (advance s 1) n" "0 < n" "n \<le> length (input (advance s 1))"
      by (auto simp: read_byte_eq)
    then show ?thesis using inp by (intro exI [of _ "Suc n"]) auto
  qed
qed

lemma read_uvarint_progress:
  "read_uvarint s = Inr (v, s') \<Longrightarrow> \<exists>n. s' = advance s n \<and> 0 < n \<and> n \<le> length (input s)"
  unfolding read_uvarint_def by (rule read_uvarint_loop_progress)

lemma read_uvarint_no_panic: "read_uvarint_loop s acc shift \<noteq> Inl Panic"
  by (induction s acc shift rule: read_uvarint_loop.induct)
    (auto simp: read_uvarint_loop.simps read_byte_eq result_simps Let_def split: list.splits if_splits)

end
