(* ===== verification/Utf8.thy ===== *)
theory Utf8
  imports Prelude
begin

section \<open>UTF-8 validation of \<open>core::str\<close>\<close>

text \<open>
  \<open>core::str::from_utf8\<close> accepts exactly the well-formed byte sequences of the Unicode standard
  (table 3-7): the first byte fixes the length of a sequence and the range of its second byte, every
  further byte is a continuation byte.  A \<open>&str\<close> is modelled by its bytes.
\<close>

definition cont :: "u8 \<Rightarrow> bool" where
  "cont b \<longleftrightarrow> 0x80 \<le> b \<and> b \<le> 0xBF"

definition second2 :: "u8 \<Rightarrow> u8 \<Rightarrow> bool" where
  "second2 a b \<longleftrightarrow>
     (if a = 0xE0 then 0xA0 \<le> b \<and> b \<le> 0xBF
      else if a = 0xED then 0x80 \<le> b \<and> b \<le> 0x9F
      else 0xE1 \<le> a \<and> a \<le> 0xEF \<and> cont b)"

definition second3 :: "u8 \<Rightarrow> u8 \<Rightarrow> bool" where
  "second3 a b \<longleftrightarrow>
     (if a = 0xF0 then 0x90 \<le> b \<and> b \<le> 0xBF
      else if a = 0xF4 then 0x80 \<le> b \<and> b \<le> 0x8F
      else 0xF1 \<le> a \<and> a \<le> 0xF3 \<and> cont b)"

fun utf8_valid :: "bytes \<Rightarrow> bool" where
  "utf8_valid [] = True"
| "utf8_valid (a # bs) =
     (if a < 0x80 then utf8_valid bs
      else if 0xC2 \<le> a \<and> a \<le> 0xDF then
        (case bs of b # bs' \<Rightarrow> cont b \<and> utf8_valid bs' | _ \<Rightarrow> False)
      else if a < 0xF0 then
        (case bs of b # c # bs' \<Rightarrow> second2 a b \<and> cont c \<and> utf8_valid bs' | _ \<Rightarrow> False)
      else
        (case bs of b # c # d # bs' \<Rightarrow> second3 a b \<and> cont c \<and> cont d \<and> utf8_valid bs' | _ \<Rightarrow> False))"

definition from_utf8 :: "bytes \<Rightarrow> bytes option" where
  "from_utf8 b = (if utf8_valid b then Some b else None)"

lemma utf8_valid_ascii: "\<forall>b\<in>set bs. b < 0x80 \<Longrightarrow> utf8_valid bs"
  by (induction bs) auto

end
