(* ===== verification/Blob.thy ===== *)
theory Blob
  imports Crypto Io_Stream Utf8
begin

section \<open>The translations blob\<close>

text \<open>
  \<^verbatim>\<open>core/embed/rust/src/translations/blob.rs\<close>: the signed container with the strings and the fonts of a
  language.  Slices of the blob are modelled by the bytes they hold.  The cast of bytes to a slice of
  \<open>u16\<close> needs an even address, so that \<open>translations_new\<close> takes the address of the blob.  The model
  name, the production keys and, in a debug build, the development keys are fields of \<open>env\<close>.
\<close>

record env = primitives +
  internal_name :: bytes
  PUBLIC_KEYS :: "public_key list"
  PUBLIC_KEYS_DEVEL :: "public_key list option"

definition EMPTY_BYTE :: u8 where
  "EMPTY_BYTE = 0xFF"

definition SENTINEL_ID :: u16 where
  "SENTINEL_ID = 0xFFFF"

definition SIGNATURE_THRESHOLD :: u8 where
  "SIGNATURE_THRESHOLD = 2"

definition MAX_TABLE_PADDING :: nat where
  "MAX_TABLE_PADDING = 3"

definition INVALID_TRANSLATIONS_BLOB :: error where
  "INVALID_TRANSLATIONS_BLOB = ValueError ''Invalid translations blob''"

abbreviation invalid_blob :: "'a res" where
  "invalid_blob \<equiv> Inl (Err INVALID_TRANSLATIONS_BLOB)"

definition BLOB_MAGIC :: bytes where
  "BLOB_MAGIC = [0x54, 0x52, 0x54, 0x52, 0x30, 0x30]"

lemma length_BLOB_MAGIC [simp]: "length BLOB_MAGIC = 6"
  by (simp add: BLOB_MAGIC_def)

definition HEADER_MAGIC :: bytes where
  "HEADER_MAGIC = [0x54, 0x52]"

definition LANGUAGE_TAG_LEN :: nat where
  "LANGUAGE_TAG_LEN = 8"

definition DIGEST_SIZE :: nat where
  "DIGEST_SIZE = 32"

definition SIGNATURE_SIZE :: nat where
  "SIGNATURE_SIZE = 64"

subsection \<open>Tables with offsets\<close>

record offset_entry =
  entry_id :: u16
  entry_offset :: u16

record table =
  offsets :: "offset_entry list"
  table_data :: bytes

text \<open>The loop over the offsets after the first: each at least its predecessor; the last is returned.\<close>

fun ascending :: "u16 \<Rightarrow> u16 list \<Rightarrow> u16 res" where
  "ascending prev [] = Inr prev"
| "ascending prev (nxt # iter) = (if prev > nxt then invalid_blob else ascending nxt iter)"

definition validate_offset_table :: "nat \<Rightarrow> u16 list \<Rightarrow> unit res" where
  "validate_offset_table data_len iter = (case iter of
      [] \<Rightarrow> invalid_blob
    | prev # iter' \<Rightarrow>
        if prev \<noteq> 0 then invalid_blob
        else rbind (ascending prev iter') (\<lambda>last.
          let sentinel = unat last in
          if sentinel < usize_sub data_len MAX_TABLE_PADDING \<or> sentinel > data_len then invalid_blob
          else Inr ()))"

definition parse_entries :: "bytes \<Rightarrow> offset_entry list" where
  "parse_entries b =
     map (\<lambda>g. \<lparr>entry_id = from_le_bytes (take 2 g), entry_offset = from_le_bytes (drop 2 g)\<rparr>) (groups 4 b)"

definition table_new :: "input_stream \<Rightarrow> table res" where
  "table_new reader =
     rbind (read_u16_le reader) (\<lambda>(count, reader).
     rbind (read reader (unat (count + 1) * 4)) (\<lambda>(offsets_data, reader).
       Inr \<lparr>offsets = parse_entries offsets_data, table_data = rest reader\<rparr>))"

fun ids_sorted :: "u16 \<Rightarrow> offset_entry list \<Rightarrow> unit res" where
  "ids_sorted prev_id [] = Inr ()"
| "ids_sorted prev_id (entry # entries) =
     (if entry_id entry \<le> prev_id then invalid_blob else ids_sorted (entry_id entry) entries)"

definition table_validate :: "table \<Rightarrow> unit res" where
  "table_validate t =
     rbind (validate_offset_table (length (table_data t)) (map entry_offset (offsets t))) (\<lambda>_.
       if offsets t = [] \<or> entry_id (last (offsets t)) \<noteq> SENTINEL_ID then invalid_blob
       else (case offsets t of
           [] \<Rightarrow> Inr ()
         | first_entry # entries \<Rightarrow> ids_sorted (entry_id first_entry) entries))"

definition table_get :: "table \<Rightarrow> u16 \<Rightarrow> bytes option res" where
  "table_get t key = (case binary_search_by_key entry_id key (offsets t) of
      Inl _ \<Rightarrow> Inr None
    | Inr idx \<Rightarrow>
        rbind (unwrap (nth_get (offsets t) idx)) (\<lambda>a.
        rbind (unwrap (nth_get (offsets t) (idx + 1))) (\<lambda>b.
          Inr (slice_get (table_data t) (unat (entry_offset a)) (unat (entry_offset b))))))"

text \<open>
  \<open>iter\<close>: one result per entry after the first, computed when the loop over it asks for it.  The
  data is the one before the entry's offset, the id is the one of the entry itself.
\<close>

fun iter_loop :: "bytes \<Rightarrow> nat \<Rightarrow> offset_entry list \<Rightarrow> (u16 \<times> bytes) res list" where
  "iter_loop data prev_offset [] = []"
| "iter_loop data prev_offset (entry # entries) =
     (let end_ofs = unat (entry_offset entry) in
      rbind (unwrap (slice_get data prev_offset end_ofs)) (\<lambda>d. Inr (entry_id entry, d))
        # iter_loop data end_ofs entries)"

definition table_iter :: "table \<Rightarrow> (u16 \<times> bytes) res list" where
  "table_iter t = iter_loop (table_data t) 0 (drop 1 (offsets t))"

subsection \<open>The header\<close>

record translations_header =
  header_bytes :: bytes
  language :: bytes
  version :: bytes
  data_len :: nat
  data_hash :: digest
  merkle_proof :: "digest list"
  cosi_sig :: cosi_signature
  total_len :: nat

definition read_u16_prefixed_block :: "input_stream \<Rightarrow> (input_stream \<times> input_stream) res" where
  "read_u16_prefixed_block reader =
     rbind (read_u16_le reader) (\<lambda>(len, reader). read_stream reader (unat len))"

definition read_fixedsize_str :: "input_stream \<Rightarrow> nat \<Rightarrow> (bytes \<times> input_stream) res" where
  "read_fixedsize_str reader len =
     rbind (read reader len) (\<lambda>(b, reader).
       let find_zero = length (takeWhile (\<lambda>x. x \<noteq> 0) b) in
       rbind (ok_or (from_utf8 (take find_zero b)) INVALID_TRANSLATIONS_BLOB) (\<lambda>s. Inr (s, reader)))"

definition verify_with_keys :: "env \<Rightarrow> translations_header \<Rightarrow> public_key list \<Rightarrow> unit res" where
  "verify_with_keys E h keys =
     (let root = merkle_root (primitives.truncate E) (header_bytes h) (merkle_proof h) in
      lift_crypto (cosi_verify (primitives.truncate E) SIGNATURE_THRESHOLD root keys (cosi_sig h)))"

definition header_verify :: "env \<Rightarrow> translations_header \<Rightarrow> unit res" where
  "header_verify E h =
     (let result = verify_with_keys E h (PUBLIC_KEYS E) in
      case (result, PUBLIC_KEYS_DEVEL E) of
        (Inl (Err _), Some keys) \<Rightarrow> verify_with_keys E h keys
      | _ \<Rightarrow> result)"

text \<open>
  The proof section: the number of digests, the digests, the mask and the signature.  It is the third
  part of \<open>parse_from\<close>.
\<close>

definition parse_proof :: "input_stream \<Rightarrow> (digest list \<times> cosi_signature) res" where
  "parse_proof proof_reader =
     rbind (read_byte proof_reader) (\<lambda>(proof_count, proof_reader).
     rbind (read proof_reader (unat proof_count * DIGEST_SIZE)) (\<lambda>(proof_bytes, proof_reader).
     rbind (read_byte proof_reader) (\<lambda>(msk, proof_reader).
     rbind (read proof_reader SIGNATURE_SIZE) (\<lambda>(sig, proof_reader).
       if remaining proof_reader > 0 then invalid_blob
       else Inr (groups DIGEST_SIZE proof_bytes, \<lparr>sigmask = msk, signature = sig\<rparr>)))))"

text \<open>The fields of the header section that are looked at, the second part of \<open>parse_from\<close>.\<close>

definition parse_fields :: "env \<Rightarrow> input_stream \<Rightarrow> (bytes \<times> bytes \<times> nat \<times> digest) res" where
  "parse_fields E header_reader =
     rbind (read header_reader (length HEADER_MAGIC)) (\<lambda>(magic, header_reader).
     if magic \<noteq> HEADER_MAGIC then invalid_blob
     else rbind (read_fixedsize_str header_reader LANGUAGE_TAG_LEN) (\<lambda>(lang, header_reader).
     if lang = [] then invalid_blob
     else rbind (read_fixedsize_str header_reader 4) (\<lambda>(model, header_reader).
     if model \<noteq> internal_name E then Inl (Err (ValueError ''Wrong Trezor model''))
     else rbind (read header_reader 4) (\<lambda>(ver, header_reader).
     rbind (read_u16_le header_reader) (\<lambda>(dlen, header_reader).
     rbind (read header_reader DIGEST_SIZE) (\<lambda>(dhash, header_reader).
       Inr (lang, ver, unat dlen, dhash)))))))"

text \<open>
  The end of \<open>parse_from\<close>: the check of the announced length, the header, and the check of its
  signature.
\<close>

definition finish_header ::
  "env \<Rightarrow> nat \<Rightarrow> bytes \<Rightarrow> bytes \<times> bytes \<times> nat \<times> digest \<Rightarrow> digest list \<times> cosi_signature \<Rightarrow> input_stream
     \<Rightarrow> (translations_header \<times> input_stream) res" where
  "finish_header E container_length hbytes flds pf reader =
     (case flds of (lang, ver, dlen, dhash) \<Rightarrow>
      if usize_sub container_length (tell reader) \<noteq> dlen then invalid_blob
      else
        let new = \<lparr>header_bytes = hbytes, language = lang, version = ver, data_len = dlen,
                   data_hash = dhash, merkle_proof = fst pf, cosi_sig = snd pf,
                   total_len = container_length + length BLOB_MAGIC + 2\<rparr> in
        rbind (header_verify E new) (\<lambda>_. Inr (new, reader)))"

text \<open>The contained data: the header section, the proof section, the checks.\<close>

definition parse_container ::
  "env \<Rightarrow> nat \<Rightarrow> input_stream \<Rightarrow> (translations_header \<times> input_stream) res" where
  "parse_container E container_length reader =
     rbind (read_u16_prefixed_block reader) (\<lambda>(block, reader).
     rbind (parse_fields E (stream_new (rest block))) (\<lambda>flds.
     rbind (read_u16_prefixed_block reader) (\<lambda>(proof_reader, reader).
     rbind (parse_proof proof_reader) (\<lambda>pf.
       finish_header E container_length (rest block) flds pf reader))))"

definition parse_from ::
  "env \<Rightarrow> input_stream \<Rightarrow> (translations_header \<times> input_stream \<times> input_stream) res" where
  "parse_from E outer =
     rbind (read outer (length BLOB_MAGIC)) (\<lambda>(magic, outer).
     if magic \<noteq> BLOB_MAGIC then invalid_blob
     else rbind (read_u16_le outer) (\<lambda>(clen, outer).
     let container_length = unat clen in
     rbind (read_stream outer (min container_length (remaining outer))) (\<lambda>(reader, outer).
     rbind (parse_container E container_length reader) (\<lambda>(new, reader).
       Inr (new, reader, outer)))))"

subsection \<open>The blob\<close>

record translations_blob =
  tr_header :: translations_header
  translations_data :: bytes
  translations_offsets :: "u16 list"
  fonts :: table

fun check_fonts :: "(u16 \<times> bytes) res list \<Rightarrow> unit res" where
  "check_fonts [] = Inr ()"
| "check_fonts (item # items) =
     rbind item (\<lambda>(_, font_data).
     rbind (table_new (stream_new font_data)) (\<lambda>font_table.
     rbind (table_validate font_table) (\<lambda>_. check_fonts items)))"

text \<open>
  The parsing of the payload, with the address of its first byte.  A cast of bytes to \<open>u16\<close> has an
  empty prefix if and only if the address is even, and then also an empty suffix, the number of bytes
  being even.
\<close>

definition parse_payload :: "translations_header \<Rightarrow> nat \<Rightarrow> bytes \<Rightarrow> translations_blob res" where
  "parse_payload hdr addr payload_bytes =
     rbind (read_u16_prefixed_block (stream_new payload_bytes)) (\<lambda>(translations_reader, payload_reader).
     rbind (read_u16_prefixed_block payload_reader) (\<lambda>(fonts_reader, payload_reader).
     if remaining payload_reader > 0 then invalid_blob
     else
     rbind (read_u16_le translations_reader) (\<lambda>(translations_count, translations_reader).
     rbind (read translations_reader ((unat translations_count + 1) * 2)) (\<lambda>(ofs_bytes, translations_reader).
     if odd (addr + 4) then invalid_blob
     else
     let ofs = map from_le_bytes (groups 2 ofs_bytes);
         strings = rest translations_reader in
     rbind (validate_offset_table (length strings) ofs) (\<lambda>_.
     rbind (table_new fonts_reader) (\<lambda>fnts.
     rbind (table_validate fnts) (\<lambda>_.
     rbind (check_fonts (table_iter fnts)) (\<lambda>_.
       Inr \<lparr>tr_header = hdr, translations_data = strings, translations_offsets = ofs, fonts = fnts\<rparr>))))))))"

definition translations_new :: "env \<Rightarrow> nat \<Rightarrow> bytes \<Rightarrow> translations_blob res" where
  "translations_new E addr blob =
     rbind (parse_from E (stream_new blob)) (\<lambda>(hdr, payload_reader, blob_reader).
     if \<not> list_all (\<lambda>b. b = EMPTY_BYTE) (rest blob_reader)
     then Inl (Err (ValueError ''Trailing data in translations blob''))
     else
     let payload_bytes = rest payload_reader in
     if sha256 E payload_bytes \<noteq> data_hash hdr then invalid_blob
     else parse_payload hdr (addr + length BLOB_MAGIC + 2 + tell payload_reader) payload_bytes)"

definition translation :: "translations_blob \<Rightarrow> nat \<Rightarrow> bytes option res" where
  "translation t i =
     (if usize_add i 1 \<ge> length (translations_offsets t) then Inr None
      else
        rbind (unwrap (nth_get (translations_offsets t) i)) (\<lambda>start_offset.
        rbind (unwrap (nth_get (translations_offsets t) (usize_add i 1))) (\<lambda>end_offset.
        rbind (unwrap (slice_get (translations_data t) (unat start_offset) (unat end_offset))) (\<lambda>str.
          if str = [] then Inr None else Inr (from_utf8 str)))))"

definition font :: "translations_blob \<Rightarrow> u16 \<Rightarrow> table option res" where
  "font t i =
     rbind (table_get (fonts t) i) (\<lambda>d. case d of
         None \<Rightarrow> Inr None
       | Some data \<Rightarrow> (case table_new (stream_new data) of
             Inr tbl \<Rightarrow> Inr (Some tbl) | Inl (Err _) \<Rightarrow> Inr None | Inl Panic \<Rightarrow> Inl Panic))"

subsection \<open>Validated tables\<close>

text \<open>What a validated list of offsets promises for data of the given length.\<close>

definition wf_offsets :: "nat \<Rightarrow> u16 list \<Rightarrow> bool" where
  "wf_offsets n ofs \<longleftrightarrow> ofs \<noteq> [] \<and> hd ofs = 0 \<and> sorted ofs \<and> unat (last ofs) \<le> n"

definition wf_table :: "table \<Rightarrow> bool" where
  "wf_table t \<longleftrightarrow> wf_offsets (length (table_data t)) (map entry_offset (offsets t)) \<and>
     sorted_wrt (<) (map entry_id (offsets t)) \<and> entry_id (last (offsets t)) = SENTINEL_ID"

lemma ascending_safe: "safe (ascending prev ofs) (\<lambda>l. sorted (prev # ofs) \<and> l = last (prev # ofs))"
proof (induction ofs arbitrary: prev)
  case (Cons a ofs)
  have "safe (ascending a ofs) (\<lambda>l. sorted (prev # a # ofs) \<and> l = last (prev # a # ofs))" if "\<not> a < prev"
    by (rule safe_mono [OF Cons.IH]) (use that in \<open>auto simp: not_less\<close>)
  then show ?case by (auto intro: safe_Err)
qed (simp add: safe_def)

lemma validate_offset_table_safe: "safe (validate_offset_table n ofs) (\<lambda>_. wf_offsets n ofs)"
proof (cases ofs)
  case (Cons prev iter)
  then show ?thesis
    by (auto simp: validate_offset_table_def Let_def wf_offsets_def not_less
        intro!: safe_intros safe_rbind [OF ascending_safe])
qed (simp add: validate_offset_table_def safe_Err)

lemma ids_sorted_safe: "safe (ids_sorted k es) (\<lambda>_. sorted_wrt (<) (k # map entry_id es))"
proof (induction es arbitrary: k)
  case (Cons e es)
  have "safe (ids_sorted (entry_id e) es) (\<lambda>_. sorted_wrt (<) (k # map entry_id (e # es)))"
    if "\<not> entry_id e \<le> k"
    by (rule safe_mono [OF Cons.IH]) (use that in auto)
  then show ?case by (auto intro: safe_Err)
qed (simp add: safe_def)

lemma table_validate_safe: "safe (table_validate t) (\<lambda>_. wf_table t)"
proof -
  have "safe (case offsets t of [] \<Rightarrow> Inr () | e # es \<Rightarrow> ids_sorted (entry_id e) es) (\<lambda>_. wf_table t)"
    if "wf_offsets (length (table_data t)) (map entry_offset (offsets t))"
      "entry_id (last (offsets t)) = SENTINEL_ID" "offsets t \<noteq> []"
    using that by (cases "offsets t") (auto simp: wf_table_def intro: safe_mono [OF ids_sorted_safe])
  then show ?thesis
    unfolding table_validate_def
    by (auto intro!: safe_rbind [OF validate_offset_table_safe] safe_Err)
qed

lemma offset_mono:
  assumes "wf_offsets n ofs" "i \<le> j" "j < length ofs"
  shows "unat (ofs ! i) \<le> unat (ofs ! j)" "unat (ofs ! j) \<le> n"
proof -
  have s: "sorted ofs" and l: "unat (last ofs) \<le> n" and "ofs \<noteq> []"
    using assms(1) by (auto simp: wf_offsets_def)
  show "unat (ofs ! i) \<le> unat (ofs ! j)"
    using sorted_nth_mono [OF s assms(2,3)] by (simp add: word_le_nat_alt)
  have "ofs ! j \<le> ofs ! (length ofs - 1)"
    using assms(3) by (intro sorted_nth_mono [OF s]) auto
  then show "unat (ofs ! j) \<le> n"
    using l \<open>ofs \<noteq> []\<close> by (simp add: last_conv_nth word_le_nat_alt)
qed

lemma wf_offsets_slice:
  assumes "wf_offsets (length data) ofs" "i \<le> j" "j < length ofs"
  shows "slice_get data (unat (ofs ! i)) (unat (ofs ! j)) =
    Some (take (unat (ofs ! j) - unat (ofs ! i)) (drop (unat (ofs ! i)) data))"
  using offset_mono [OF assms] by (simp add: slice_get_def)

lemma table_get_entry:
  assumes "wf_table t" "i + 1 < length (offsets t)"
  shows "table_get t (entry_id (offsets t ! i)) =
    Inr (Some (take (unat (entry_offset (offsets t ! (i + 1))) - unat (entry_offset (offsets t ! i)))
      (drop (unat (entry_offset (offsets t ! i))) (table_data t))))"
proof -
  have "binary_search_by_key entry_id (entry_id (offsets t ! i)) (offsets t) = Inr i"
    using assms by (subst binary_search_by_key_correct) (auto simp: wf_table_def)
  moreover have "slice_get (table_data t) (unat (entry_offset (offsets t ! i)))
      (unat (entry_offset (offsets t ! (i + 1)))) =
      Some (take (unat (entry_offset (offsets t ! (i + 1))) - unat (entry_offset (offsets t ! i)))
        (drop (unat (entry_offset (offsets t ! i))) (table_data t)))"
    using wf_offsets_slice [of "table_data t" "map entry_offset (offsets t)" i "i + 1"] assms
    by (simp add: wf_table_def)
  ultimately show ?thesis
    using assms(2) by (simp add: table_get_def nth_get_def)
qed

lemma table_get_absent:
  assumes "wf_table t" "key \<notin> entry_id ` set (offsets t)"
  shows "table_get t key = Inr None"
proof -
  have "binary_search_by_key entry_id key (offsets t) \<noteq> Inr i" for i
    using assms by (subst binary_search_by_key_correct) (auto simp: wf_table_def)
  then show ?thesis
    by (auto simp: table_get_def split: sum.splits)
qed

lemma table_get_sentinel:
  assumes "wf_table t"
  shows "table_get t SENTINEL_ID = Inl Panic"
proof -
  let ?n = "length (offsets t)"
  have "offsets t \<noteq> []" and l: "entry_id (last (offsets t)) = SENTINEL_ID"
    using assms by (auto simp: wf_table_def wf_offsets_def)
  then have n: "?n - 1 < ?n" and e: "entry_id (offsets t ! (?n - 1)) = SENTINEL_ID"
    by (auto simp: last_conv_nth)
  have "binary_search_by_key entry_id SENTINEL_ID (offsets t) = Inr (?n - 1)"
    using assms n e by (subst binary_search_by_key_correct) (auto simp: wf_table_def)
  then show ?thesis
    using n by (simp add: table_get_def nth_get_def unwrap_def)
qed

text \<open>
  C34.  In a table that passed validation, the lookup of any entry but the sentinel returns exactly
  the bytes between its offset and the next one, which lie inside the data; the lookup of an id that
  the table does not have returns nothing; and the lookup of the sentinel's own id, \<open>0xFFFF\<close>, reads
  past the end of the offsets and panics.
\<close>

theorem table_get_validated:
  assumes "table_validate t = Inr ()"
  shows "(\<forall>i. i + 1 < length (offsets t) \<longrightarrow>
      table_get t (entry_id (offsets t ! i)) =
        Inr (Some (take (unat (entry_offset (offsets t ! (i + 1))) - unat (entry_offset (offsets t ! i)))
          (drop (unat (entry_offset (offsets t ! i))) (table_data t)))) \<and>
      unat (entry_offset (offsets t ! i)) \<le> unat (entry_offset (offsets t ! (i + 1))) \<and>
      unat (entry_offset (offsets t ! (i + 1))) \<le> length (table_data t)) \<and>
    (\<forall>key. key \<notin> entry_id ` set (offsets t) \<longrightarrow> table_get t key = Inr None) \<and>
    table_get t 0xFFFF = Inl Panic"
proof -
  have wf: "wf_table t"
    using safeD [OF table_validate_safe assms] .
  then have w: "wf_offsets (length (table_data t)) (map entry_offset (offsets t))"
    by (simp add: wf_table_def)
  show ?thesis
    using table_get_entry [OF wf] table_get_absent [OF wf] table_get_sentinel [OF wf]
      offset_mono [OF w, of i "i + 1" for i]
    by (auto simp: SENTINEL_ID_def)
qed

theorem table_get_validated_witness:
  "table_get \<lparr>offsets = [\<lparr>entry_id = 7, entry_offset = 0\<rparr>, \<lparr>entry_id = 0xFFFF, entry_offset = 3\<rparr>],
     table_data = [1, 2, 3]\<rparr> 7 = Inr (Some [1, 2, 3]) \<and>
   table_get \<lparr>offsets = [\<lparr>entry_id = 7, entry_offset = 0\<rparr>, \<lparr>entry_id = 0xFFFF, entry_offset = 3\<rparr>],
     table_data = [1, 2, 3]\<rparr> 0xFFFF = Inl Panic"
proof -
  let ?t = "\<lparr>offsets = [\<lparr>entry_id = 7, entry_offset = 0\<rparr>, \<lparr>entry_id = 0xFFFF, entry_offset = 3\<rparr>],
     table_data = [1, 2, 3]\<rparr>"
  have "table_validate ?t = Inr ()"
    by (simp add: table_validate_def validate_offset_table_def usize_sub_def MAX_TABLE_PADDING_def
        SENTINEL_ID_def)
  from table_get_validated [OF this] show ?thesis
    by (auto dest: spec [of _ 0])
qed

text \<open>The tables of keys fit the bounded vector of selected keys.\<close>

definition wf_env :: "env \<Rightarrow> bool" where
  "wf_env E \<longleftrightarrow> length (PUBLIC_KEYS E) \<le> MAX_PUBKEYS \<and>
     (\<forall>keys. PUBLIC_KEYS_DEVEL E = Some keys \<longrightarrow> length keys \<le> MAX_PUBKEYS)"

subsection \<open>An example\<close>

text \<open>
  A small blob with one string and no font, and primitives under which it is signed: a hash that is
  constant, and a signature check that accepts everything under a combined key.
\<close>

definition example_env :: env where
  "example_env =
     \<lparr>sha256 = \<lambda>_. replicate 32 0, ed25519_sign_open = \<lambda>_ _ _. True, cosi_combine = \<lambda>ks. Some (concat ks),
      internal_name = [0x54, 0x32, 0x42, 0x31], PUBLIC_KEYS = [[1], [2]], PUBLIC_KEYS_DEVEL = None\<rparr>"

definition example_blob :: bytes where
  "example_blob =
     [0x54, 0x52, 0x54, 0x52, 0x30, 0x30, 145, 0,
      52, 0, 0x54, 0x52, 0x63, 0x73, 0x2d, 0x43, 0x5a, 0, 0, 0, 0x54, 0x32, 0x42, 0x31, 2, 8, 0, 0, 23, 0]
     @ replicate 32 0 @ [66, 0, 0, 3] @ replicate 64 0
     @ [10, 0, 1, 0, 0, 0, 4, 0, 0x41, 0x68, 0x6f, 0x6a, 9, 0, 0, 0, 0xFF, 0xFF, 0, 0, 0, 0, 0, 0xFF, 0xFF]"

lemma length_example_blob [simp]: "length example_blob = 155"
  by (simp add: example_blob_def)

lemma example_blob_not_empty: "take 16 example_blob \<noteq> replicate 16 0xFF"
  by code_simp

lemma wf_example_env: "wf_env example_env"
  by (simp add: wf_env_def example_env_def MAX_PUBKEYS_def)

lemma example_blob_accepted:
  "translations_new example_env 0 example_blob = Inr
     \<lparr>tr_header = \<lparr>header_bytes = take 52 (drop 10 example_blob), language = [0x63, 0x73, 0x2d, 0x43, 0x5a],
        version = [2, 8, 0, 0], data_len = 23, data_hash = replicate 32 0, merkle_proof = [],
        cosi_sig = \<lparr>sigmask = 3, signature = replicate 64 0\<rparr>, total_len = 153\<rparr>,
      translations_data = [0x41, 0x68, 0x6f, 0x6a], translations_offsets = [0, 4],
      fonts = \<lparr>offsets = [\<lparr>entry_id = 0xFFFF, entry_offset = 0\<rparr>], table_data = [0, 0, 0]\<rparr>\<rparr>"
  by code_simp

subsection \<open>Parsing never panics\<close>

text \<open>The rules of the reading operations, one per step of a parser.\<close>

lemma bind_read:
  assumes "wf_stream s" "len < 2 ^ 32"
    "\<And>b. b = take len (input s) \<Longrightarrow> length b = len \<Longrightarrow> wf_stream (advance s len) \<Longrightarrow>
       len \<le> length (input s) \<Longrightarrow> safe (f (b, advance s len)) Q"
  shows "safe (rbind (read s len) f) Q"
  using assms wf_stream_advance [OF assms(1)] by (auto simp: read_eq safe_Err)

lemma bind_read_u16_le:
  assumes "wf_stream s"
    "\<And>v. v = from_le_bytes (take 2 (input s)) \<Longrightarrow> wf_stream (advance s 2) \<Longrightarrow>
       2 \<le> length (input s) \<Longrightarrow> safe (f (v, advance s 2)) Q"
  shows "safe (rbind (read_u16_le s) f) Q"
  unfolding read_u16_le_def rbind_assoc
  by (rule bind_read [OF assms(1)]) (auto intro!: assms(2))

lemma bind_read_byte:
  assumes "wf_stream s"
    "\<And>v. wf_stream (advance s 1) \<Longrightarrow> 1 \<le> length (input s) \<Longrightarrow> safe (f (v, advance s 1)) Q"
  shows "safe (rbind (read_byte s) f) Q"
  using assms wf_stream_advance [OF assms(1), of 1]
  by (auto simp: read_byte_eq safe_Err split: list.split)

lemma bind_block:
  assumes "wf_stream s"
    "\<And>n. n = unat (from_le_bytes (take 2 (input s)) :: u16) \<Longrightarrow> n < 2 ^ 16 \<Longrightarrow>
       2 + n \<le> length (input s) \<Longrightarrow> wf_stream (stream_new (take n (drop 2 (input s)))) \<Longrightarrow>
       wf_stream (advance s (2 + n)) \<Longrightarrow>
       safe (f (stream_new (take n (drop 2 (input s))), advance s (2 + n))) Q"
  shows "safe (rbind (read_u16_prefixed_block s) f) Q"
proof -
  define v where "v = (from_le_bytes (take 2 (input s)) :: u16)"
  have v: "unat v < 2 ^ 16"
    using unsigned_less [of v] by simp
  have w: "length (input s) < 2 ^ 31"
    using assms(1) by (auto simp: wf_stream_def length_input)
  show ?thesis
    unfolding read_u16_prefixed_block_def rbind_assoc
  proof (rule bind_read_u16_le [OF assms(1)])
    fix v' :: u16 assume v': "v' = from_le_bytes (take 2 (input s))"
      and w2: "wf_stream (advance s 2)" and l: "2 \<le> length (input s)"
    have "safe (rbind (read_stream (advance s 2) (unat v)) f) Q"
      unfolding read_stream_def rbind_assoc
    proof (rule bind_read [OF w2])
      show "unat v < 2 ^ 32" using v by simp
    next
      fix b assume b: "b = take (unat v) (input (advance s 2))"
        and w3: "wf_stream (advance (advance s 2) (unat v))" and l2: "unat v \<le> length (input (advance s 2))"
      have "safe (f (stream_new (take (unat v) (drop 2 (input s))), advance s (2 + unat v))) Q"
        using v w w3 l l2 by (intro assms(2)) (auto simp: v_def)
      then show "safe (rbind ((\<lambda>(b, s'). Inr (stream_new b, s')) (b, advance (advance s 2) (unat v))) f) Q"
        by (simp add: b)
    qed
    then show "safe (rbind (case (v', advance s 2) of (len, reader) \<Rightarrow> read_stream reader (unat len)) f) Q"
      by (simp add: v' v_def)
  qed
qed

lemma bind_fixedsize_str:
  assumes "wf_stream s" "len < 2 ^ 32"
    "\<And>b. utf8_valid b \<Longrightarrow> wf_stream (advance s len) \<Longrightarrow> safe (f (b, advance s len)) Q"
  shows "safe (rbind (read_fixedsize_str s len) f) Q"
  unfolding read_fixedsize_str_def rbind_assoc Let_def
  by (rule bind_read [OF assms(1,2)])
    (auto simp: rbind_assoc from_utf8_def intro!: safe_rbind [OF safe_ok_or] safe_Err assms(3) split: if_splits)

lemma parse_fields_safe:
  assumes "wf_stream s"
  shows "safe (parse_fields E s) (\<lambda>(lang, ver, dlen, dhash).
    lang \<noteq> [] \<and> utf8_valid lang \<and> length ver = 4 \<and> dlen < 2 ^ 16 \<and> length dhash = 32)"
proof -
  have u: "unat (v :: u16) < 65536" for v
    using unsigned_less [of v] by simp
  show ?thesis
    unfolding parse_fields_def
    by (rule bind_read [OF assms], simp add: HEADER_MAGIC_def, simp only: prod.case, rule safe_if,
        rule safe_Err, rule bind_fixedsize_str, assumption, simp add: LANGUAGE_TAG_LEN_def,
        simp only: prod.case, rule safe_if, rule safe_Err, rule bind_fixedsize_str, assumption, simp,
        simp only: prod.case, rule safe_if, rule safe_Err, rule bind_read, assumption, simp,
        simp only: prod.case, rule bind_read_u16_le, assumption,
        simp only: prod.case, rule bind_read, assumption, simp add: DIGEST_SIZE_def,
        simp add: safe_Inr DIGEST_SIZE_def u)
qed

lemma parse_proof_safe: "wf_stream s \<Longrightarrow> safe (parse_proof s) (\<lambda>_. True)"
proof -
  assume s: "wf_stream s"
  have u: "unat (v :: u8) * 32 < 4294967296" for v
    using unat_u8 [of v] by simp
  show ?thesis
    unfolding parse_proof_def
    by (rule bind_read_byte [OF s], simp only: prod.case, rule bind_read, assumption,
        simp add: DIGEST_SIZE_def u, simp only: prod.case, rule bind_read_byte, assumption,
        simp only: prod.case, rule bind_read, assumption, simp add: SIGNATURE_SIZE_def,
        simp only: prod.case, rule safe_if, rule safe_Err, simp add: safe_Inr)
qed

lemma table_new_safe: "wf_stream s \<Longrightarrow> safe (table_new s) (\<lambda>t. length (table_data t) < 2 ^ 31)"
proof -
  assume s: "wf_stream s"
  have u: "unat (v :: u16) * 4 < 4294967296" for v
    using unat_u16 [of v] by simp
  show ?thesis
    unfolding table_new_def
    by (rule bind_read_u16_le [OF s], simp only: prod.case, rule bind_read, assumption, simp add: u)
      (auto simp: safe_def rest_eq length_input wf_stream_def)
qed

text \<open>The signature check that a parsed header has passed.\<close>

definition authentic :: "env \<Rightarrow> translations_header \<Rightarrow> bool" where
  "authentic E h \<longleftrightarrow> (\<exists>keys. (keys = PUBLIC_KEYS E \<or> PUBLIC_KEYS_DEVEL E = Some keys) \<and>
     cosi_verify (primitives.truncate E) SIGNATURE_THRESHOLD
       (merkle_root (primitives.truncate E) (header_bytes h) (merkle_proof h)) keys (cosi_sig h) = Inr ())"

lemma verify_with_keys_safe:
  assumes "length keys \<le> MAX_PUBKEYS" "keys = PUBLIC_KEYS E \<or> PUBLIC_KEYS_DEVEL E = Some keys"
  shows "safe (verify_with_keys E h keys) (\<lambda>_. authentic E h)"
  using cosi_verify_safe [OF assms(1), of "primitives.truncate E" SIGNATURE_THRESHOLD
      "merkle_root (primitives.truncate E) (header_bytes h) (merkle_proof h)" "cosi_sig h"] assms(2)
  by (auto simp: verify_with_keys_def lift_crypto_def safe_def authentic_def Let_def
      split: sum.splits fault.splits)

lemma header_verify_safe:
  assumes "wf_env E"
  shows "safe (header_verify E h) (\<lambda>_. authentic E h)"
proof -
  have prod: "safe (verify_with_keys E h (PUBLIC_KEYS E)) (\<lambda>_. authentic E h)"
    using assms by (intro verify_with_keys_safe) (auto simp: wf_env_def)
  have devel: "safe (verify_with_keys E h keys) (\<lambda>_. authentic E h)" if "PUBLIC_KEYS_DEVEL E = Some keys" for keys
    using assms that by (intro verify_with_keys_safe) (auto simp: wf_env_def)
  show ?thesis
    using prod devel by (auto simp: header_verify_def Let_def split: sum.splits fault.splits option.splits)
qed

text \<open>
  Where the parts of an accepted blob lie: the payload ends at the total length that the header
  announces and has the announced length in front of it; the rest of the input follows.
\<close>

definition payload_of :: "translations_header \<Rightarrow> bytes \<Rightarrow> bytes" where
  "payload_of h blob = drop (total_len h - data_len h) (take (total_len h) blob)"

lemma finish_header_safe:
  assumes "wf_env E" "wf_stream r" "length (buf r) \<le> clen" "clen < 2 ^ 16"
  shows "safe (finish_header E clen hbytes flds pf r) (\<lambda>(h, r'). authentic E h \<and> r' = r \<and>
    header_bytes h = hbytes \<and> pos r + data_len h = clen \<and> total_len h = clen + 8)"
proof -
  have "pos r \<le> clen" using assms by (simp add: wf_stream_def)
  then have "usize_sub clen (tell r) = clen - pos r"
    using assms by (simp add: usize_sub_le tell_def)
  with \<open>pos r \<le> clen\<close> show ?thesis
    by (cases flds) (auto simp: finish_header_def Let_def
        intro!: safe_Err safe_Inr safe_rbind [OF header_verify_safe [OF assms(1)]])
qed

definition header_section :: "bytes \<Rightarrow> bytes" where
  "header_section c = take (unat (from_le_bytes (take 2 c) :: u16)) (drop 2 c)"

lemma parse_container_safe:
  assumes c: "length c < 2 ^ 31" "length c \<le> clen" "clen < 2 ^ 16" and E: "wf_env E"
  shows "safe (parse_container E clen (stream_new c)) (\<lambda>(h, r). authentic E h \<and> wf_stream r \<and>
    buf r = c \<and> pos r + data_len h = clen \<and> total_len h = clen + 8 \<and> header_bytes h = header_section c)"
proof -
  have w: "wf_stream (stream_new c)" using c by simp
  show ?thesis
    unfolding parse_container_def
  proof (rule bind_block [OF w], unfold prod.case rest_eq input_stream_new)
    fix n assume n: "n = unat (from_le_bytes (take 2 c) :: u16)"
      and wb: "wf_stream (stream_new (take n (drop 2 c)))" and wr: "wf_stream (advance (stream_new c) (2 + n))"
    show "safe (rbind (parse_fields E (stream_new (take n (drop 2 c)))) (\<lambda>flds.
        rbind (read_u16_prefixed_block (advance (stream_new c) (2 + n))) (\<lambda>(proof_reader, reader).
        rbind (parse_proof proof_reader) (\<lambda>pf. finish_header E clen (take n (drop 2 c)) flds pf reader))))
        (\<lambda>(h, r). authentic E h \<and> wf_stream r \<and> buf r = c \<and> pos r + data_len h = clen \<and>
           total_len h = clen + 8 \<and> header_bytes h = header_section c)"
    proof (rule safe_rbind [OF parse_fields_safe [OF wb]], rule bind_block [OF wr], unfold prod.case)
      fix flds m
      let ?pr = "stream_new (take m (drop 2 (input (advance (stream_new c) (2 + n)))))"
      let ?r = "advance (advance (stream_new c) (2 + n)) (2 + m)"
      assume wp: "wf_stream ?pr" and wr2: "wf_stream ?r"
      have b: "buf ?r = c" by (simp add: stream_new_def)
      show "safe (rbind (parse_proof ?pr) (\<lambda>pf. finish_header E clen (take n (drop 2 c)) flds pf ?r))
        (\<lambda>(h, r). authentic E h \<and> wf_stream r \<and> buf r = c \<and> pos r + data_len h = clen \<and>
           total_len h = clen + 8 \<and> header_bytes h = header_section c)"
      proof (rule safe_rbind [OF parse_proof_safe [OF wp]])
        fix pf
        show "safe (finish_header E clen (take n (drop 2 c)) flds pf ?r)
          (\<lambda>(h, r). authentic E h \<and> wf_stream r \<and> buf r = c \<and> pos r + data_len h = clen \<and>
             total_len h = clen + 8 \<and> header_bytes h = header_section c)"
          by (rule safe_mono [OF finish_header_safe [OF E wr2]])
            (use c b wr2 in \<open>auto simp: header_section_def n\<close>)
      qed
    qed
  qed
qed

lemma parse_from_safe:
  assumes "length blob < 2 ^ 31" "wf_env E"
  shows "safe (parse_from E (stream_new blob)) (\<lambda>(h, r, outer). authentic E h \<and>
    data_len h \<le> total_len h \<and> rest r = payload_of h blob \<and> rest outer = drop (total_len h) blob \<and>
    length (rest r) < 2 ^ 31 \<and> take 6 blob = BLOB_MAGIC \<and> tell r + 8 = total_len h - data_len h \<and>
    header_bytes h = header_section (drop 8 (take (total_len h) blob)))"
  unfolding parse_from_def
proof (rule bind_read, goal_cases)
  case (3 magic)
  define o1 where "o1 = advance (stream_new blob) 6"
  have o1: "wf_stream o1" "input o1 = drop 6 blob" "6 \<le> length blob" "magic = take 6 blob"
    using 3 by (simp_all add: o1_def)
  show ?case
    unfolding prod.case length_BLOB_MAGIC o1_def [symmetric]
  proof (rule safe_if [OF safe_Err], rule bind_read_u16_le [OF o1(1)], unfold prod.case Let_def)
    fix clen :: u16
    assume m: "\<not> magic \<noteq> BLOB_MAGIC" and w: "wf_stream (advance o1 2)" and "2 \<le> length (input o1)"
    then have l8: "8 \<le> length blob" using o1 by simp
    let ?k = "min (unat clen) (length blob - 8)"
    have rem: "remaining (advance o1 2) = length blob - 8"
      by (simp add: remaining_eq o1)
    have c: "take ?k (drop 8 blob) = take (unat clen) (drop 8 blob)"
      by (metis length_drop min.commute take_all_iff take_take linorder_le_cases)
    have rs: "read_stream (advance o1 2) ?k =
        Inr (stream_new (take (unat clen) (drop 8 blob)), advance o1 (2 + ?k))"
      using w l8 unat_u16 [of clen] by (simp add: read_stream_def read_eq o1 c)
    have "length (take (unat clen) (drop 8 blob)) < 2 ^ 31" "length (take (unat clen) (drop 8 blob)) \<le> unat clen"
      "unat clen < 2 ^ 16"
      using assms(1) unat_u16 [of clen] by auto
    note pc = parse_container_safe [OF this assms(2)]
    have out: "rest (advance o1 (2 + ?k)) = drop (unat clen + 8) blob"
      using l8 by (simp add: rest_eq o1 min_def add.commute)
    show "safe (rbind (read_stream (advance o1 2) (min (unat clen) (remaining (advance o1 2)))) (\<lambda>(reader, outer).
        rbind (parse_container E (unat clen) reader) (\<lambda>(new, reader). Inr (new, reader, outer))))
      (\<lambda>(h, r, outer). authentic E h \<and> data_len h \<le> total_len h \<and> rest r = payload_of h blob \<and>
        rest outer = drop (total_len h) blob \<and> length (rest r) < 2 ^ 31 \<and> take 6 blob = BLOB_MAGIC \<and>
        tell r + 8 = total_len h - data_len h \<and>
        header_bytes h = header_section (drop 8 (take (total_len h) blob)))"
      unfolding rem rs rbind_Inr prod.case
    proof (rule safe_rbind [OF pc], clarify)
      fix h r
      assume h: "authentic E h" "wf_stream r" "buf r = take (unat clen) (drop 8 blob)"
        "pos r + data_len h = unat clen" "total_len h = unat clen + 8"
        "header_bytes h = header_section (take (unat clen) (drop 8 blob))"
      have d: "drop 8 (take (total_len h) blob) = take (unat clen) (drop 8 blob)"
        and t: "total_len h - data_len h = pos r + 8"
        using h(4,5) by (simp_all add: drop_take)
      have "rest r = payload_of h blob"
        unfolding payload_of_def t rest_eq input_def h(3) d [symmetric] by (simp add: drop_drop add.commute)
      moreover have "length (rest r) < 2 ^ 31"
        using h(2) by (auto simp: rest_eq length_input wf_stream_def)
      ultimately show "safe (Inr (h, r, advance o1 (2 + ?k)))
        (\<lambda>(h, r, outer). authentic E h \<and> data_len h \<le> total_len h \<and> rest r = payload_of h blob \<and>
          rest outer = drop (total_len h) blob \<and> length (rest r) < 2 ^ 31 \<and> take 6 blob = BLOB_MAGIC \<and>
          tell r + 8 = total_len h - data_len h \<and>
          header_bytes h = header_section (drop 8 (take (total_len h) blob)))"
        using h m o1(4) out t d by (simp add: safe_def tell_def)
    qed
  qed
qed (use assms in simp_all)

subsection \<open>What an accepted blob guarantees\<close>

lemma iter_loop_eq:
  assumes "wf_offsets (length data) (map entry_offset (e # es))"
  shows "iter_loop data (unat (entry_offset e)) es =
    map (\<lambda>i. Inr (entry_id (es ! i), take (unat (entry_offset (es ! i)) - unat (entry_offset ((e # es) ! i)))
      (drop (unat (entry_offset ((e # es) ! i))) data))) [0..<length es]"
proof -
  have "iter_loop data (unat (entry_offset e)) es =
    map (\<lambda>i. Inr (entry_id (es ! i), take (unat (entry_offset (es ! i)) - unat (entry_offset ((e # es) ! i)))
      (drop (unat (entry_offset ((e # es) ! i))) data))) [0..<length es]"
    if "\<forall>i<length es. entry_offset ((e # es) ! i) \<le> entry_offset (es ! i) \<and>
        unat (entry_offset (es ! i)) \<le> length data" for e es
    using that
  proof (induction es arbitrary: e)
    case (Cons a es)
    have "\<forall>i<length es. entry_offset ((a # es) ! i) \<le> entry_offset (es ! i) \<and>
        unat (entry_offset (es ! i)) \<le> length data"
      using Cons.prems by force
    note IH = Cons.IH [OF this]
    have "slice_get data (unat (entry_offset e)) (unat (entry_offset a)) =
        Some (take (unat (entry_offset a) - unat (entry_offset e)) (drop (unat (entry_offset e)) data))"
      using Cons.prems [rule_format, of 0] by (simp add: slice_get_def word_le_nat_alt)
    then show ?case
      by (simp add: Let_def IH upt_conv_Cons map_Suc_upt [symmetric] o_def del: upt_Suc)
  qed simp
  moreover have "\<forall>i<length es. entry_offset ((e # es) ! i) \<le> entry_offset (es ! i) \<and>
      unat (entry_offset (es ! i)) \<le> length data"
  proof (intro allI impI)
    fix i assume i: "i < length es"
    then have "map entry_offset (e # es) ! i = entry_offset ((e # es) ! i)"
      by (intro nth_map) simp
    with offset_mono [OF assms, of i "Suc i"] i
    show "entry_offset ((e # es) ! i) \<le> entry_offset (es ! i) \<and> unat (entry_offset (es ! i)) \<le> length data"
      by (simp add: word_le_nat_alt)
  qed
  ultimately show ?thesis by blast
qed

text \<open>The data of entry \<open>i\<close> of a table.\<close>

definition entry_data :: "table \<Rightarrow> nat \<Rightarrow> bytes" where
  "entry_data t i =
     take (unat (entry_offset (offsets t ! (i + 1))) - unat (entry_offset (offsets t ! i)))
       (drop (unat (entry_offset (offsets t ! i))) (table_data t))"

lemma table_iter_eq:
  assumes "wf_table t"
  shows "table_iter t =
    map (\<lambda>i. Inr (entry_id (offsets t ! (i + 1)), entry_data t i)) [0..<length (offsets t) - 1]"
proof -
  obtain e es where t: "offsets t = e # es" and "entry_offset e = 0"
    using assms by (cases "offsets t") (auto simp: wf_table_def wf_offsets_def)
  with iter_loop_eq [of "table_data t" e es] assms show ?thesis
    by (simp add: table_iter_def entry_data_def wf_table_def)
qed

definition wf_translations :: "translations_blob \<Rightarrow> bool" where
  "wf_translations t \<longleftrightarrow> wf_offsets (length (translations_data t)) (translations_offsets t) \<and>
     wf_table (fonts t) \<and>
     (\<forall>i. i + 1 < length (offsets (fonts t)) \<longrightarrow>
        (\<exists>ft. table_new (stream_new (entry_data (fonts t) i)) = Inr ft \<and> wf_table ft))"

lemma check_fonts_safe:
  assumes "\<forall>x\<in>set items. \<exists>k d. x = Inr (k, d) \<and> length d < 2 ^ 31"
  shows "safe (check_fonts items) (\<lambda>_. \<forall>k d. Inr (k, d) \<in> set items \<longrightarrow>
    (\<exists>ft. table_new (stream_new d) = Inr ft \<and> wf_table ft))"
  using assms
proof (induction items)
  case (Cons x items)
  then obtain k d where x: "x = Inr (k, d)" and d: "wf_stream (stream_new d)"
    by auto
  have IH: "safe (check_fonts items) (\<lambda>_. \<forall>k d. Inr (k, d) \<in> set items \<longrightarrow>
      (\<exists>ft. table_new (stream_new d) = Inr ft \<and> wf_table ft))"
    using Cons by simp
  show ?case
  proof (cases "table_new (stream_new d)")
    case (Inr ft)
    then show ?thesis
      by (auto simp: x intro!: safe_rbind [OF table_validate_safe] safe_mono [OF IH])
  next
    case (Inl e)
    with table_new_safe [OF d] show ?thesis by (cases e) (simp_all add: x safe_def)
  qed
qed (simp add: safe_def)

lemma fonts_safe:
  assumes "wf_stream fr"
  shows "safe (rbind (table_new fr) (\<lambda>fnts. rbind (table_validate fnts) (\<lambda>_.
      rbind (check_fonts (table_iter fnts)) (\<lambda>_. Inr (f fnts)))))
    (\<lambda>t. \<exists>fnts. t = f fnts \<and> wf_table fnts \<and> (\<forall>i. i + 1 < length (offsets fnts) \<longrightarrow>
       (\<exists>ft. table_new (stream_new (entry_data fnts i)) = Inr ft \<and> wf_table ft)))"
proof (rule safe_rbind [OF table_new_safe [OF assms]], rule safe_rbind [OF table_validate_safe])
  fix fnts assume l: "length (table_data fnts) < 2 ^ 31" and w: "wf_table fnts"
  have items: "\<forall>x\<in>set (table_iter fnts). \<exists>k d. x = Inr (k, d) \<and> length d < 2 ^ 31"
    using l by (auto simp: table_iter_eq [OF w] entry_data_def)
  show "safe (rbind (check_fonts (table_iter fnts)) (\<lambda>_. Inr (f fnts)))
    (\<lambda>t. \<exists>fnts. t = f fnts \<and> wf_table fnts \<and> (\<forall>i. i + 1 < length (offsets fnts) \<longrightarrow>
       (\<exists>ft. table_new (stream_new (entry_data fnts i)) = Inr ft \<and> wf_table ft)))"
  proof (rule safe_rbind [OF check_fonts_safe [OF items]], rule safe_Inr, rule exI [of _ fnts],
      intro conjI refl w allI impI)
    fix i
    assume all: "\<forall>k d. Inr (k, d) \<in> set (table_iter fnts) \<longrightarrow>
        (\<exists>ft. table_new (stream_new d) = Inr ft \<and> wf_table ft)" and i: "i + 1 < length (offsets fnts)"
    have "Inr (entry_id (offsets fnts ! (i + 1)), entry_data fnts i) \<in> set (table_iter fnts)"
      using i by (auto simp: table_iter_eq [OF w])
    with all show "\<exists>ft. table_new (stream_new (entry_data fnts i)) = Inr ft \<and> wf_table ft"
      by blast
  qed
qed

lemma parse_payload_safe:
  assumes "length b < 2 ^ 31"
  shows "safe (parse_payload h addr b) (\<lambda>t. wf_translations t \<and> tr_header t = h)"
proof -
  have u: "(unat (v :: u16) + 1) * 2 < 2 ^ 32" for v
    using unat_u16 [of v] by simp
  have w: "wf_stream (stream_new b)" using assms by simp
  have last: "safe (rbind (validate_offset_table (length strings) ofs) (\<lambda>_.
      rbind (table_new fr) (\<lambda>fnts. rbind (table_validate fnts) (\<lambda>_. rbind (check_fonts (table_iter fnts)) (\<lambda>_.
        Inr \<lparr>tr_header = h, translations_data = strings, translations_offsets = ofs, fonts = fnts\<rparr>)))))
      (\<lambda>t. wf_translations t \<and> tr_header t = h)" if "wf_stream fr" for strings ofs fr
    by (rule safe_rbind [OF validate_offset_table_safe], rule safe_mono [OF fonts_safe [OF that]])
      (auto simp: wf_translations_def)
  show ?thesis
    unfolding parse_payload_def Let_def
    by (rule bind_block [OF w], unfold prod.case, rule bind_block, assumption, unfold prod.case,
        rule safe_if, rule safe_Err, rule bind_read_u16_le, assumption, unfold prod.case,
        rule bind_read, assumption, rule u, unfold prod.case, rule safe_if, rule safe_Err, rule last)
qed

lemma translation_no_panic:
  assumes "wf_translations t" "i < 2 ^ 32 - 1"
  shows "translation t i \<noteq> Inl Panic"
proof (cases "i + 1 < length (translations_offsets t)")
  case True
  have "usize_add i 1 = i + 1" using assms(2) by (simp add: usize_add_def)
  with True wf_offsets_slice [of "translations_data t" "translations_offsets t" i "i + 1"] assms(1)
  show ?thesis
    by (simp add: translation_def nth_get_def wf_translations_def)
next
  case False
  have "usize_add i 1 = i + 1" using assms(2) by (simp add: usize_add_def)
  with False show ?thesis by (simp add: translation_def)
qed

lemma wf_table_get_no_panic:
  assumes "wf_table t" "key \<noteq> SENTINEL_ID"
  shows "table_get t key = Inr None \<or>
    (\<exists>i. i + 1 < length (offsets t) \<and> table_get t key = Inr (Some (entry_data t i)))"
proof (cases "key \<in> entry_id ` set (offsets t)")
  case True
  then obtain i where i: "i < length (offsets t)" "key = entry_id (offsets t ! i)"
    by (auto simp: in_set_conv_nth)
  have "offsets t \<noteq> []" "entry_id (last (offsets t)) = SENTINEL_ID"
    using assms(1) by (auto simp: wf_table_def wf_offsets_def)
  then have "i \<noteq> length (offsets t) - 1"
    using assms(2) i by (auto simp: last_conv_nth)
  then have "i + 1 < length (offsets t)" using i by simp
  with table_get_entry [OF assms(1) this] i show ?thesis
    by (auto simp: entry_data_def)
qed (use assms table_get_absent in auto)

lemma font_safe:
  assumes "wf_translations t" "f \<noteq> SENTINEL_ID"
  shows "\<exists>r. font t f = Inr r \<and> (\<forall>ft. r = Some ft \<longrightarrow> wf_table ft)"
proof -
  have "wf_table (fonts t)"
    using assms(1) by (simp add: wf_translations_def)
  from wf_table_get_no_panic [OF this assms(2)] show ?thesis
  proof (elim disjE exE conjE)
    fix i assume i: "i + 1 < length (offsets (fonts t))" "table_get (fonts t) f = Inr (Some (entry_data (fonts t) i))"
    then obtain ft where "table_new (stream_new (entry_data (fonts t) i)) = Inr ft" "wf_table ft"
      using assms(1) by (auto simp: wf_translations_def)
    with i show ?thesis by (simp add: font_def)
  qed (simp add: font_def)
qed

lemma translations_new_safe:
  assumes "length blob < 2 ^ 31" "wf_env E"
  shows "safe (translations_new E addr blob) (\<lambda>t. wf_translations t \<and> authentic E (tr_header t) \<and>
    take 6 blob = BLOB_MAGIC \<and>
    header_bytes (tr_header t) = header_section (drop 8 (take (total_len (tr_header t)) blob)) \<and>
    sha256 E (payload_of (tr_header t) blob) = data_hash (tr_header t) \<and>
    (\<forall>b\<in>set (drop (total_len (tr_header t)) blob). b = EMPTY_BYTE))"
  unfolding translations_new_def
proof (rule safe_rbind [OF parse_from_safe [OF assms]], clarify, unfold prod.case Let_def)
  fix h r outer
  assume h: "authentic E h" "rest r = payload_of h blob" "rest outer = drop (total_len h) blob"
    "length (rest r) < 2 ^ 31" "take 6 blob = BLOB_MAGIC"
    "header_bytes h = header_section (drop 8 (take (total_len h) blob))"
  show "safe (if \<not> list_all (\<lambda>b. b = EMPTY_BYTE) (rest outer)
      then Inl (Err (ValueError ''Trailing data in translations blob''))
      else if sha256 E (rest r) \<noteq> data_hash h then invalid_blob
        else parse_payload h (addr + length BLOB_MAGIC + 2 + tell r) (rest r))
    (\<lambda>t. wf_translations t \<and> authentic E (tr_header t) \<and> take 6 blob = BLOB_MAGIC \<and>
      header_bytes (tr_header t) = header_section (drop 8 (take (total_len (tr_header t)) blob)) \<and>
      sha256 E (payload_of (tr_header t) blob) = data_hash (tr_header t) \<and>
      (\<forall>b\<in>set (drop (total_len (tr_header t)) blob). b = EMPTY_BYTE))"
    using h by (intro safe_if safe_Err safe_mono [OF parse_payload_safe]) (auto simp: list_all_iff)
qed

text \<open>
  C3.  Authenticity.  A blob that is accepted starts with the magic bytes; its header section is a
  leaf of a Merkle tree whose root carries a valid collective signature of at least two of the keys of
  the build; the hash in this signed header is the hash of exactly the payload bytes of the blob; and
  nothing but empty flash follows.  So no byte of an accepted blob escapes the signature.
\<close>

theorem accepted_blob_authentic:
  assumes "length blob < 2 ^ 31" "wf_env E" "translations_new E addr blob = Inr t"
  shows "take 6 blob = BLOB_MAGIC \<and>
    header_bytes (tr_header t) = header_section (drop 8 (take (total_len (tr_header t)) blob)) \<and>
    (\<exists>keys. (keys = PUBLIC_KEYS E \<or> PUBLIC_KEYS_DEVEL E = Some keys) \<and>
       cosi_verify (primitives.truncate E) 2
         (merkle_root (primitives.truncate E) (header_bytes (tr_header t)) (merkle_proof (tr_header t)))
         keys (cosi_sig (tr_header t)) = Inr ()) \<and>
    sha256 E (payload_of (tr_header t) blob) = data_hash (tr_header t) \<and>
    (\<forall>b\<in>set (drop (total_len (tr_header t)) blob). b = 0xFF)"
  using safeD [OF translations_new_safe [OF assms(1,2)] assms(3)]
  by (auto simp: authentic_def SIGNATURE_THRESHOLD_def EMPTY_BYTE_def)

theorem accepted_blob_authentic_witness:
  "\<exists>t. translations_new example_env 0 example_blob = Inr t \<and>
    header_bytes (tr_header t) = header_section (drop 8 (take (total_len (tr_header t)) example_blob)) \<and>
    sha256 example_env (payload_of (tr_header t) example_blob) = data_hash (tr_header t) \<and>
    (\<forall>b\<in>set (drop (total_len (tr_header t)) example_blob). b = 0xFF)"
proof -
  have "length example_blob < 2 ^ 31"
    by simp
  moreover note wf_example_env
  ultimately show ?thesis
    using accepted_blob_authentic example_blob_accepted by blast
qed

text \<open>
  C12.  No input makes the parser panic, and after a blob is accepted no lookup of a string panics,
  nor any lookup of a font or of a glyph in a font, the sentinel id \<open>0xFFFF\<close> excepted.
\<close>

theorem accepted_blob_lookups_safe:
  assumes "length blob < 2 ^ 31" "wf_env E"
  shows "translations_new E addr blob \<noteq> Inl Panic \<and>
    (\<forall>t. translations_new E addr blob = Inr t \<longrightarrow>
      (\<forall>i < 2 ^ 32 - 1. translation t i \<noteq> Inl Panic) \<and>
      (\<forall>f. f \<noteq> 0xFFFF \<longrightarrow> (\<exists>r. font t f = Inr r \<and>
         (\<forall>ft cp. r = Some ft \<longrightarrow> cp \<noteq> 0xFFFF \<longrightarrow> table_get ft cp \<noteq> Inl Panic))))"
proof (intro conjI allI impI)
  show "translations_new E addr blob \<noteq> Inl Panic"
    by (rule safe_no_panic [OF translations_new_safe [OF assms]])
next
  fix t assume "translations_new E addr blob = Inr t"
  then have wf: "wf_translations t"
    using safeD [OF translations_new_safe [OF assms]] by blast
  show "translation t i \<noteq> Inl Panic" if "i < 2 ^ 32 - 1" for i
    using translation_no_panic [OF wf that] .
  show "\<exists>r. font t f = Inr r \<and> (\<forall>ft cp. r = Some ft \<longrightarrow> cp \<noteq> 0xFFFF \<longrightarrow> table_get ft cp \<noteq> Inl Panic)"
    if "f \<noteq> 0xFFFF" for f
    using font_safe [OF wf, of f] wf_table_get_no_panic that by (fastforce simp: SENTINEL_ID_def)
qed

theorem accepted_blob_lookups_safe_witness:
  "\<exists>t. translations_new example_env 0 example_blob = Inr t \<and> translation t 0 \<noteq> Inl Panic \<and>
    (\<exists>r. font t 1 = Inr r)"
proof -
  have "length example_blob < 2 ^ 31"
    by simp
  moreover note wf_example_env
  moreover have "(0::nat) < 2 ^ 32 - 1" "(1::u16) \<noteq> 0xFFFF"
    by simp_all
  ultimately show ?thesis
    using accepted_blob_lookups_safe [of example_blob example_env 0] example_blob_accepted by blast
qed

text \<open>
  The comment in \<open>validate_offset_table\<close> allows a lone zero offset as the sentinel of a table without
  data.  Such a table is rejected: \<open>data_len - MAX_TABLE_PADDING\<close> wraps around for less than three
  bytes of data.
\<close>

lemma empty_table_rejected: "validate_offset_table 0 [0] = invalid_blob"
  by (simp add: validate_offset_table_def usize_sub_def MAX_TABLE_PADDING_def)

text \<open>The iterator pairs the data of an entry with the id of the next one.\<close>

lemma table_iter_shifts_ids:
  "table_iter \<lparr>offsets = [\<lparr>entry_id = 7, entry_offset = 0\<rparr>, \<lparr>entry_id = 0xFFFF, entry_offset = 3\<rparr>],
     table_data = [1, 2, 3]\<rparr> = [Inr (0xFFFF, [1, 2, 3])]"
  by (simp add: table_iter_def slice_get_def)

end
