(* ===== verification/Flash.thy ===== *)
theory Flash
  imports Blob
begin

section \<open>Translations in flash\<close>

text \<open>
  \<^verbatim>\<open>core/embed/rust/src/translations/flash.rs\<close> with \<^verbatim>\<open>translated_string.rs\<close>, \<open>get_utf8_glyph\<close> of
  \<^verbatim>\<open>mod.rs\<close> and the lookups of \<^verbatim>\<open>obj.rs\<close>: the lifecycle of the blob that the firmware uses.  The state is
  the read-write lock with the parsed blob behind it, and the flash area.  Erasing and writing the
  area is done by C code: \<open>hal\<close> holds what they make of the area, and its address.
\<close>

record flash_hal =
  hal_erase :: "bytes \<Rightarrow> bytes"
  hal_write :: "bytes \<Rightarrow> bytes \<Rightarrow> nat \<Rightarrow> bytes option" \<comment> \<open>\<open>None\<close>: refused\<close>
  hal_addr :: nat

text \<open>
  \<open>readers\<close> counts the read guards that are alive; \<open>writer\<close> says that a write guard is alive.  A
  write guard never outlives the operation that took it.
\<close>

record flash_state =
  cached :: "translations_blob option"
  readers :: nat
  writer :: bool
  area :: bytes

definition try_write :: "flash_state \<Rightarrow> bool" where
  "try_write s \<longleftrightarrow> readers s = 0 \<and> \<not> writer s"

definition flash_erase :: "flash_hal \<Rightarrow> flash_state \<Rightarrow> flash_state res" where
  "flash_erase H s =
     (if \<not> try_write s then Inl Panic
      else if cached s \<noteq> None then Inl (Err (ValueError ''Translations blob already set''))
      else Inr (s\<lparr>area := hal_erase H (area s)\<rparr>))"

definition flash_write :: "flash_hal \<Rightarrow> bytes \<Rightarrow> nat \<Rightarrow> flash_state \<Rightarrow> flash_state res" where
  "flash_write H data offset s =
     (if \<not> try_write s then Inl Panic
      else if cached s \<noteq> None then Inl (Err (ValueError ''Translations blob already set''))
      else (case hal_write H (area s) data offset of
          Some a \<Rightarrow> Inr (s\<lparr>area := a\<rparr>)
        | None \<Rightarrow> Inl (Err (ValueError ''Failed to write translations blob''))))"

definition try_init :: "env \<Rightarrow> flash_hal \<Rightarrow> flash_state \<Rightarrow> translations_blob option res" where
  "try_init E H s =
     rbind (unwrap (slice_get (area s) 0 16)) (\<lambda>b.
       if b = replicate 16 EMPTY_BYTE then Inr None
       else rbind (translations_new E (hal_addr H) (area s)) (\<lambda>t. Inr (Some t)))"

text \<open>
  \<open>init\<close>.  An upgradeable read guard can be had beside readers; turning it into a write guard spins
  until the last reader is gone.  With one thread of execution that never happens: \<open>None\<close>.
\<close>

definition flash_init :: "env \<Rightarrow> flash_hal \<Rightarrow> flash_state \<Rightarrow> flash_state res option" where
  "flash_init E H s =
     (if writer s then Some (Inl Panic)
      else if cached s \<noteq> None then Some (Inr s)
      else if readers s \<noteq> 0 then None
      else Some (case try_init E H s of
          Inr (Some t) \<Rightarrow> Inr (s\<lparr>cached := Some t\<rparr>)
        | Inr None \<Rightarrow> Inr s
        | Inl (Err _) \<Rightarrow> Inr (s\<lparr>area := hal_erase H (area s)\<rparr>)
        | Inl Panic \<Rightarrow> Inl Panic))"

definition flash_deinit :: "flash_state \<Rightarrow> flash_state res" where
  "flash_deinit s =
     (if \<not> try_write s then Inl (Err (ValueError ''Translations are in use.''))
      else Inr (s\<lparr>cached := None\<rparr>))"

text \<open>\<open>get\<close> hands out a read guard; dropping the guard is \<open>release\<close>.\<close>

definition flash_get :: "flash_state \<Rightarrow> (translations_blob option \<times> flash_state) res" where
  "flash_get s =
     (if writer s then Inl (Err (ValueError ''Translations are in use.''))
      else Inr (cached s, s\<lparr>readers := readers s + 1\<rparr>))"

definition release :: "flash_state \<Rightarrow> flash_state" where
  "release s = s\<lparr>readers := readers s - 1\<rparr>"

subsection \<open>Lookups\<close>

text \<open>The generated table of the English texts is the argument \<open>untranslated\<close>.\<close>

definition translate :: "(nat \<Rightarrow> bytes) \<Rightarrow> nat \<Rightarrow> translations_blob option \<Rightarrow> bytes res" where
  "translate untranslated i source = (case source of
      None \<Rightarrow> Inr (untranslated i)
    | Some t \<Rightarrow> rbind (translation t i) (\<lambda>r. Inr (case r of None \<Rightarrow> untranslated i | Some str \<Rightarrow> str)))"

definition map_translated :: "(nat \<Rightarrow> bytes) \<Rightarrow> nat \<Rightarrow> (bytes \<Rightarrow> 'b) \<Rightarrow> flash_state \<Rightarrow> ('b \<times> flash_state) res" where
  "map_translated untranslated i fn s = (case flash_get s of
      Inl _ \<Rightarrow> Inl Panic
    | Inr (source, s') \<Rightarrow> rbind (translate untranslated i source) (\<lambda>str. Inr (fn str, release s')))"

definition get_utf8_glyph :: "u16 \<Rightarrow> int \<Rightarrow> flash_state \<Rightarrow> bytes option res" where
  "get_utf8_glyph codepoint fnt s =
     (let font_abs = word_of_int \<bar>fnt\<bar> in
      case flash_get s of
        Inl _ \<Rightarrow> Inr None
      | Inr (None, _) \<Rightarrow> Inr None
      | Inr (Some tr, _) \<Rightarrow>
          rbind (font tr font_abs) (\<lambda>t. case t of
              None \<Rightarrow> Inr None
            | Some tbl \<Rightarrow> table_get tbl codepoint))"

definition DEFAULT_LANGUAGE :: bytes where
  "DEFAULT_LANGUAGE = [0x65, 0x6e, 0x2d, 0x55, 0x53]"

definition get_language :: "flash_state \<Rightarrow> bytes res" where
  "get_language s =
     rbind (flash_get s) (\<lambda>(blob, _). Inr (case blob of
         None \<Rightarrow> DEFAULT_LANGUAGE | Some t \<Rightarrow> language (tr_header t)))"

subsection \<open>The lifecycle as a transition system\<close>

inductive flash_step :: "env \<Rightarrow> flash_hal \<Rightarrow> flash_state \<Rightarrow> flash_state \<Rightarrow> bool" for E H where
  step_erase: "flash_erase H s = Inr s' \<Longrightarrow> flash_step E H s s'"
| step_write: "flash_write H data offset s = Inr s' \<Longrightarrow> flash_step E H s s'"
| step_init: "flash_init E H s = Some (Inr s') \<Longrightarrow> flash_step E H s s'"
| step_deinit: "flash_deinit s = Inr s' \<Longrightarrow> flash_step E H s s'"
| step_get: "flash_get s = Inr (t, s') \<Longrightarrow> flash_step E H s s'"
| step_release: "0 < readers s \<Longrightarrow> flash_step E H s (release s)"

definition flash_boot :: "bytes \<Rightarrow> flash_state" where
  "flash_boot a = \<lparr>cached = None, readers = 0, writer = False, area = a\<rparr>"

inductive flash_reachable :: "env \<Rightarrow> flash_hal \<Rightarrow> flash_state \<Rightarrow> bool" for E H where
  boot: "flash_reachable E H (flash_boot a)"
| step: "flash_reachable E H s \<Longrightarrow> flash_step E H s s' \<Longrightarrow> flash_reachable E H s'"

inductive_cases flash_stepE: "flash_step E H s s'"

lemmas flash_ops = flash_erase_def flash_write_def flash_init_def try_init_def flash_deinit_def
  flash_get_def release_def try_write_def

text \<open>The parsed blob always describes the bytes that are in flash.\<close>

definition flash_inv :: "env \<Rightarrow> flash_hal \<Rightarrow> flash_state \<Rightarrow> bool" where
  "flash_inv E H s \<longleftrightarrow> \<not> writer s \<and>
     (\<forall>t. cached s = Some t \<longrightarrow> translations_new E (hal_addr H) (area s) = Inr t)"

lemma flash_inv_step:
  assumes "flash_step E H s s'" "flash_inv E H s"
  shows "flash_inv E H s'"
  using assms(1)
proof (cases rule: flash_step.cases)
  case step_init
  then show ?thesis
    using assms(2)
    by (auto simp: flash_inv_def flash_ops result_simps split: if_splits sum.splits option.splits fault.splits)
qed (use assms(2) in \<open>auto simp: flash_inv_def flash_ops split: if_splits option.splits\<close>)

lemma flash_reachable_inv: "flash_reachable E H s \<Longrightarrow> flash_inv E H s"
proof (induction rule: flash_reachable.induct)
  case (boot a)
  then show ?case by (simp add: flash_inv_def flash_boot_def)
next
  case (step s s')
  then show ?case using flash_inv_step by blast
qed

text \<open>
  C10.  In every state that the operations can lead to, the blob that is handed out is the parse of
  the bytes that are in flash at that moment; and as long as a reader holds it, no operation changes
  the flash area or takes the blob away, so that the references a reader has stay valid.
\<close>

theorem flash_blob_in_sync:
  assumes "flash_reachable E H s"
  shows "(\<forall>t. cached s = Some t \<longrightarrow> translations_new E (hal_addr H) (area s) = Inr t) \<and>
    (\<forall>s'. flash_step E H s s' \<longrightarrow> 0 < readers s \<longrightarrow> area s' = area s \<and> cached s' = cached s)"
proof (intro conjI allI impI)
  show "translations_new E (hal_addr H) (area s) = Inr t" if "cached s = Some t" for t
    using flash_reachable_inv [OF assms] that by (simp add: flash_inv_def)
  fix s' assume "flash_step E H s s'" "0 < readers s"
  then show "area s' = area s" "cached s' = cached s"
    by (auto elim!: flash_stepE simp: flash_ops split: if_splits option.splits)
qed

text \<open>The life of the example blob: it is found in flash at boot and then read.\<close>

definition example_hal :: flash_hal where
  "example_hal = \<lparr>hal_erase = \<lambda>a. replicate (length a) 0xFF, hal_write = \<lambda>_ _ _. None, hal_addr = 0\<rparr>"

lemma example_reachable:
  "\<exists>s. flash_reachable example_env example_hal s \<and> area s = example_blob \<and> 0 < readers s \<and> cached s \<noteq> None"
proof -
  obtain t where t: "translations_new example_env 0 example_blob = Inr t"
    using example_blob_accepted by blast
  let ?s = "(flash_boot example_blob)\<lparr>cached := Some t\<rparr>"
  have "flash_init example_env example_hal (flash_boot example_blob) = Some (Inr ?s)"
    using t example_blob_not_empty
    by (simp add: flash_ops flash_boot_def slice_get_def example_hal_def EMPTY_BYTE_def)
  then have "flash_reachable example_env example_hal ?s"
    by (rule flash_reachable.step [OF flash_reachable.boot flash_step.step_init])
  moreover have "flash_step example_env example_hal ?s (?s\<lparr>readers := 1\<rparr>)"
    by (rule flash_step.step_get [of _ "Some t"]) (simp add: flash_get_def flash_boot_def)
  ultimately have "flash_reachable example_env example_hal (?s\<lparr>readers := 1\<rparr>)"
    by (rule flash_reachable.step)
  then show ?thesis
    by (intro exI [of _ "?s\<lparr>readers := 1\<rparr>"]) (simp add: flash_boot_def)
qed

theorem flash_blob_in_sync_witness:
  "\<exists>s t. flash_reachable example_env example_hal s \<and> cached s = Some t \<and>
     translations_new example_env 0 (area s) = Inr t \<and>
     (\<forall>s'. flash_step example_env example_hal s s' \<longrightarrow> area s' = area s \<and> cached s' = cached s)"
proof -
  obtain s where s: "flash_reachable example_env example_hal s" "0 < readers s" "cached s \<noteq> None"
    using example_reachable by blast
  then obtain t where "cached s = Some t" by blast
  with flash_blob_in_sync [OF s(1)] s show ?thesis
    by (auto simp: example_hal_def)
qed



text \<open>
  C38.  Initialisation without readers always returns, and it ends in one of three ways: the parsed
  blob of the unchanged flash area is available; or the area starts empty and is left alone; or its
  contents were not acceptable and the area is erased.  A second initialisation changes nothing.
\<close>

theorem flash_init_outcome:
  assumes "\<not> writer s" "readers s = 0" "cached s = None" "wf_env E"
    and "16 \<le> length (area s)" "length (area s) < 2 ^ 31"
  shows "\<exists>s'. flash_init E H s = Some (Inr s') \<and>
    ((\<exists>t. cached s' = Some t \<and> area s' = area s \<and> translations_new E (hal_addr H) (area s) = Inr t) \<or>
     (cached s' = None \<and> area s' = area s \<and> take 16 (area s) = replicate 16 0xFF) \<or>
     (cached s' = None \<and> area s' = hal_erase H (area s) \<and>
        (\<exists>e. translations_new E (hal_addr H) (area s) = Inl (Err e)))) \<and>
    (cached s' \<noteq> None \<longrightarrow> flash_init E H s' = Some (Inr s'))"
proof -
  have sl: "slice_get (area s) 0 16 = Some (take 16 (area s))"
    using assms(5) by (simp add: slice_get_def)
  show ?thesis
  proof (cases "take 16 (area s) = replicate 16 EMPTY_BYTE")
    case True
    then show ?thesis
      using assms(1-3) sl by (simp add: flash_init_def try_init_def EMPTY_BYTE_def)
  next
    case False
    show ?thesis
    proof (cases "translations_new E (hal_addr H) (area s)")
      case (Inr t)
      then show ?thesis
        using assms(1-3) sl False by (simp add: flash_init_def try_init_def)
    next
      case (Inl e)
      with safe_no_panic [OF translations_new_safe [OF assms(6,4)]] obtain e' where "e = Err e'"
        by (cases e) auto
      with Inl show ?thesis
        using assms(1-3) sl False by (simp add: flash_init_def try_init_def)
    qed
  qed
qed

theorem flash_init_outcome_witness:
  "\<exists>s' t. flash_init example_env example_hal (flash_boot example_blob) = Some (Inr s') \<and> cached s' = Some t"
proof -
  let ?s = "flash_boot example_blob"
  have h: "\<not> writer ?s" "readers ?s = 0" "cached ?s = None" "wf_env example_env" "16 \<le> length (area ?s)"
    "length (area ?s) < 2 ^ 31"
    by (simp_all add: flash_boot_def wf_example_env)
  have n: "take 16 (area ?s) \<noteq> replicate 16 0xFF"
    using example_blob_not_empty by (simp add: flash_boot_def)
  have "\<exists>t. translations_new example_env (hal_addr example_hal) (area ?s) = Inr t"
    using example_blob_accepted by (simp add: flash_boot_def example_hal_def)
  with flash_init_outcome [OF h, of example_hal] n show ?thesis
    by auto
qed

text \<open>Called while a reader holds the lock and no blob is loaded, \<open>init\<close> spins forever.\<close>

lemma flash_init_deadlock:
  "flash_init E H s = None \<longleftrightarrow> \<not> writer s \<and> cached s = None \<and> readers s \<noteq> 0"
  by (auto simp: flash_init_def)

end
