(* ===== verification/Strutil.thy ===== *)
theory Strutil
  imports Flash
begin

section \<open>String utilities\<close>

text \<open>
  \<^verbatim>\<open>strutil.rs\<close>: writing bytes as hexadecimal digits, formatting of signed numbers into a caller's
  buffer, and \<open>TString\<close>, the string type of the user interface, which is a literal, a string of the
  interpreter (\<open>StrBuffer\<close> of \<^verbatim>\<open>micropython/buffer.rs\<close>) or a translated string with an offset.  A
  string is its UTF-8 bytes.
\<close>

subsection \<open>Hexadecimal digits\<close>

definition HEX_LOWER :: bytes where
  "HEX_LOWER = [48, 49, 50, 51, 52, 53, 54, 55, 56, 57, 97, 98, 99, 100, 101, 102]"

fun hexlify_loop :: "bytes \<Rightarrow> nat \<Rightarrow> bytes \<Rightarrow> bytes" where
  "hexlify_loop [] i buffer = buffer"
| "hexlify_loop (b # bs) i buffer =
     (let hi = unat (drop_bit 4 (b AND 0xf0));
          lo = unat (b AND 0x0f);
          buffer = buffer[i := HEX_LOWER ! hi];
          buffer = buffer[i + 1 := HEX_LOWER ! lo] in
      hexlify_loop bs (i + 2) buffer)"

definition hexlify :: "bytes \<Rightarrow> bytes \<Rightarrow> bytes" where
  "hexlify data buffer = hexlify_loop (take (length buffer div 2) data) 0 buffer"

text \<open>The digits of a byte, and the value of a digit.\<close>

definition hex_digits :: "u8 \<Rightarrow> bytes" where
  "hex_digits b = [HEX_LOWER ! (unat b div 16), HEX_LOWER ! (unat b mod 16)]"

lemma nibbles:
  "unat (drop_bit 4 ((b :: u8) AND 0xf0)) = unat b div 16" "unat (b AND 0x0f) = unat b mod 16"
proof -
  have m: "(15 :: u8) = mask 4"
    by (simp add: mask_eq_exp_minus_1)
  have "drop_bit 4 (b AND 0xf0) = drop_bit 4 b"
    by (intro bit_word_eqI) (auto simp: bit_simps m dest: bit_imp_le_length)
  moreover have "b AND 0x0f = take_bit 4 b"
    by (simp add: take_bit_eq_mask mask_eq_exp_minus_1)
  ultimately show "unat (drop_bit 4 (b AND 0xf0)) = unat b div 16" "unat (b AND 0x0f) = unat b mod 16"
    by (simp_all only: unsigned_drop_bit_eq unsigned_take_bit_eq)
      (simp_all add: drop_bit_eq_div take_bit_eq_mod unat_u8)
qed

lemma hexlify_loop_eq:
  "2 * length bs + i \<le> length buffer \<Longrightarrow>
   hexlify_loop bs i buffer = take i buffer @ concat (map hex_digits bs) @ drop (i + 2 * length bs) buffer"
proof (induction bs arbitrary: i buffer)
  case (Cons b bs)
  define buf where "buf = (buffer[i := HEX_LOWER ! (unat b div 16)])[i + 1 := HEX_LOWER ! (unat b mod 16)]"
  have "take (i + 2) buf = take i buffer @ hex_digits b"
    using Cons.prems by (auto simp: buf_def hex_digits_def take_Suc_conv_app_nth numeral_2_eq_2)
  moreover have "drop (i + 2 + 2 * length bs) buf = drop (i + 2 * length (b # bs)) buffer"
    by (simp add: buf_def)
  moreover have "hexlify_loop (b # bs) i buffer = hexlify_loop bs (i + 2) buf"
    by (simp only: hexlify_loop.simps Let_def nibbles buf_def)
  ultimately show ?case
    using Cons.IH [of "i + 2" buf] Cons.prems by (simp add: buf_def)
qed simp

lemma hexlify_eq:
  "hexlify data buffer =
     (let n = min (length data) (length buffer div 2) in
      concat (map hex_digits (take n data)) @ drop (2 * n) buffer)"
  unfolding hexlify_def by (subst hexlify_loop_eq) (auto simp: Let_def min_def)

lemma length_hex_digits [simp]: "length (concat (map hex_digits bs)) = 2 * length bs"
  by (induction bs) (simp_all add: hex_digits_def)

subsection \<open>Decimal numbers\<close>

function format_loop :: "int \<Rightarrow> nat \<Rightarrow> bytes \<Rightarrow> int \<times> nat \<times> bytes" where
  "format_loop num i buffer =
     (if num > 0 \<and> i < length buffer then
        format_loop (num div 10) (i + 1) (buffer[i := 48 + word_of_int (num mod 10)])
      else (num, i, buffer))"
  by pat_completeness auto
termination
  by (relation "measure (\<lambda>(num, i, buffer). nat num)") auto

declare format_loop.simps [simp del]

text \<open>
  The result is the text, if there is one, and the buffer as the function leaves it.  The negation wraps,
  and the match tests the number of written digits first.
\<close>

definition format_i64 :: "i64 \<Rightarrow> bytes \<Rightarrow> bytes option \<times> bytes" where
  "format_i64 num buffer =
     (let negative = sint num < 0;
          num = (if negative then - num else num);
          (n, i, buffer) = format_loop (sint num) 0 buffer in
      if i = 0 then (Some [48], buffer)
      else if n > 0 then (None, buffer)
      else if negative \<and> i = length buffer then (None, buffer)
      else
        let (buffer, i) = (if negative then (buffer[i := 45], i + 1) else (buffer, i));
            buffer = rev (take i buffer) @ drop i buffer in
        (Some (take i buffer), buffer))"

text \<open>The reference: the digits of a number from the least significant one, and its decimal notation.\<close>

function digits_rev :: "int \<Rightarrow> bytes" where
  "digits_rev n = (if n > 0 then (48 + word_of_int (n mod 10)) # digits_rev (n div 10) else [])"
  by pat_completeness auto
termination
  by (relation "measure nat") auto

declare digits_rev.simps [simp del]

definition decimal :: "int \<Rightarrow> bytes" where
  "decimal n = (if n = 0 then [48] else (if n < 0 then [45] else []) @ rev (digits_rev \<bar>n\<bar>))"

lemma digits_rev_Nil [simp]: "digits_rev n = [] \<longleftrightarrow> n \<le> 0"
  by (subst digits_rev.simps) auto

lemma digits_rev_stop [simp]: "n \<le> 0 \<Longrightarrow> digits_rev n = []"
  by simp

lemma format_loop_stop: "\<not> (n > 0 \<and> i < length buffer) \<Longrightarrow> format_loop n i buffer = (n, i, buffer)"
  by (subst format_loop.simps) auto

text \<open>The loop writes the digits from the front of the buffer, as many as there is room for.\<close>

lemma format_loop_room:
  "i + length (digits_rev n) \<le> length buffer \<Longrightarrow> n \<ge> 0 \<Longrightarrow>
   format_loop n i buffer =
     (0, i + length (digits_rev n), take i buffer @ digits_rev n @ drop (i + length (digits_rev n)) buffer)"
proof (induction n i buffer rule: format_loop.induct)
  case (1 num i buffer)
  show ?case
  proof (cases "num > 0")
    case True
    let ?d = "48 + word_of_int (num mod 10) :: u8"
    have d: "digits_rev num = ?d # digits_rev (num div 10)"
      using True by (simp add: digits_rev.simps [of num])
    have "i < length buffer"
      using "1.prems" d by simp
    then show ?thesis
      using "1.IH" [OF conjI [OF True]] "1.prems" True d
      by (simp add: format_loop.simps [of num i buffer] take_Suc_conv_app_nth)
  next
    case False
    then have "num = 0"
      using "1.prems" by simp
    then show ?thesis
      by (simp add: format_loop_stop)
  qed
qed

lemma format_loop_full:
  "length buffer < i + length (digits_rev n) \<Longrightarrow> i \<le> length buffer \<Longrightarrow>
   \<exists>n' buffer'. format_loop n i buffer = (n', length buffer, buffer') \<and> n' > 0 \<and> length buffer' = length buffer"
proof (induction n i buffer rule: format_loop.induct)
  case (1 num i buffer)
  have pos: "num > 0"
    using "1.prems" by (cases "num > 0") (simp_all add: digits_rev.simps [of num])
  then have d: "length (digits_rev num) = Suc (length (digits_rev (num div 10)))"
    by (simp add: digits_rev.simps [of num])
  show ?case
  proof (cases "i < length buffer")
    case True
    then show ?thesis
      using "1.IH" [OF conjI [OF pos]] "1.prems" pos d by (simp add: format_loop.simps [of num i buffer])
  next
    case False
    then show ?thesis
      using "1.prems" pos by (simp add: format_loop_stop)
  qed
qed

text \<open>Reading a number back from its decimal notation.\<close>

definition parse_decimal :: "bytes \<Rightarrow> int" where
  "parse_decimal t =
     (let value = foldl (\<lambda>v d. 10 * v + (uint d - 48)) 0 in
      case t of [] \<Rightarrow> 0 | c # t' \<Rightarrow> if c = 45 then - value t' else value t)"

lemma uint_digit: "uint (48 + word_of_int (n mod 10) :: u8) = 48 + n mod 10"
proof -
  have "0 \<le> n mod 10" "n mod 10 < 10"
    by simp_all
  then show ?thesis
    by (simp add: uint_word_ariths uint_word_of_int)
qed

lemma digits_value: "0 \<le> n \<Longrightarrow> foldl (\<lambda>v d. 10 * v + (uint d - 48)) 0 (rev (digits_rev n)) = n"
proof (induction n rule: digits_rev.induct)
  case (1 n)
  show ?case
  proof (cases "n > 0")
    case True
    then show ?thesis
      using 1 by (subst digits_rev.simps) (simp add: uint_digit pos_imp_zdiv_nonneg_iff)
  next
    case False
    then show ?thesis
      using 1 by simp
  qed
qed

lemma digits_not_minus: "d \<in> set (digits_rev n) \<Longrightarrow> d \<noteq> 45"
proof (induction n rule: digits_rev.induct)
  case (1 n)
  have "uint (48 + word_of_int (n mod 10) :: u8) \<noteq> uint (45 :: u8)"
    unfolding uint_digit by simp
  then have "48 + word_of_int (n mod 10) \<noteq> (45 :: u8)"
    by metis
  then show ?case
    using 1 by (cases "n > 0") (auto simp: digits_rev.simps [of n])
qed

lemma parse_decimal_decimal [simp]: "parse_decimal (decimal n) = n"
proof (cases "n > 0")
  case True
  then obtain d t where t: "rev (digits_rev n) = d # t"
    by (cases "rev (digits_rev n)") auto
  then have "d \<noteq> 45"
    using digits_not_minus [of d n] by (metis list.set_intros(1) set_rev)
  then show ?thesis
    using True digits_value [of n] t by (simp add: parse_decimal_def decimal_def)
next
  case False
  then show ?thesis
    using digits_value [of "- n"] by (auto simp: parse_decimal_def decimal_def)
qed

lemma sint_minus_i64: "sint (n :: i64) \<noteq> - (2 ^ 63) \<Longrightarrow> sint (- n) = - sint n"
  using sint_ge [of n] sint_lt [of n] by (simp add: sint_word_ariths signed_take_bit_int_eq_self)

lemma sint_i64_min: "sint (n :: i64) = - (2 ^ 63) \<Longrightarrow> sint (- n) = - (2 ^ 63)"
  by (simp add: sint_word_ariths)

text \<open>
  C35.  Formatting of a signed number.  The result is the decimal notation of the number, which reads
  back as the number, exactly if it fits the buffer, the sign included, and nothing otherwise.  Two
  inputs are outside of this rule: the smallest number, whose negation wraps, and an empty buffer; both
  give the text of zero.
\<close>

theorem format_i64_decimal:
  "fst (format_i64 num buffer) =
     (if buffer = [] \<or> sint num = - (2 ^ 63) then Some [48]
      else if length (decimal (sint num)) \<le> length buffer then Some (decimal (sint num)) else None) \<and>
   length (snd (format_i64 num buffer)) = length buffer \<and> parse_decimal (decimal (sint num)) = sint num"
proof -
  let ?n = "sint (if sint num < 0 then - num else num)"
  consider (zero) "buffer = [] \<or> sint num = - (2 ^ 63) \<or> sint num = 0"
    | (num) "buffer \<noteq> []" "?n = \<bar>sint num\<bar>" "?n > 0" "sint num \<noteq> - (2 ^ 63)"
    using sint_minus_i64 [of num] by (cases "sint num < 0") force+
  then show ?thesis
  proof cases
    case zero
    then have "format_loop ?n 0 buffer = (?n, 0, buffer)"
      by (intro format_loop_stop) (auto simp: sint_i64_min)
    then have "format_i64 num buffer = (Some [48], buffer)"
      by (simp add: format_i64_def Let_def split del: if_split)
    then show ?thesis
      unfolding parse_decimal_decimal using zero by (auto simp: decimal_def Suc_le_eq)
  next
    case num
    show ?thesis
    proof (cases "length (digits_rev ?n) \<le> length buffer")
      case True
      let ?d = "digits_rev ?n"
      have l: "format_loop ?n 0 buffer = (0, length ?d, ?d @ drop (length ?d) buffer)"
        using True format_loop_room [of 0 ?n buffer] num(3) by simp
      consider "sint num < 0" "length ?d = length buffer" | "sint num > 0" | "sint num < 0" "length ?d < length buffer"
        using True num(2,3) by fastforce
      then show ?thesis
      proof cases
        case 3
        then obtain x r where x: "drop (length ?d) buffer = x # r"
          by (metis drop_eq_Nil list.exhaust not_le)
        have "length buffer = length ?d + Suc (length r)"
          using arg_cong [OF x, of length] 3 by (simp split del: if_split)
        then show ?thesis
          unfolding parse_decimal_decimal using x 3 l num by (simp add: format_i64_def decimal_def list_update_append)
      qed (unfold parse_decimal_decimal, use l num True in \<open>simp_all add: format_i64_def decimal_def\<close>)
    next
      case False
      then obtain n' buffer' where "format_loop ?n 0 buffer = (n', length buffer, buffer')" "n' > 0" "length buffer' = length buffer"
        using format_loop_full [of buffer 0 ?n] by auto
      then show ?thesis
        unfolding parse_decimal_decimal using False num by (auto simp: format_i64_def Let_def decimal_def split del: if_split)
    qed
  qed
qed

subsection \<open>Slices of strings\<close>

text \<open>\<open>str::is_char_boundary\<close>, and the slice \<open>&s[n..]\<close>, which panics inside a character.\<close>

definition is_char_boundary :: "bytes \<Rightarrow> nat \<Rightarrow> bool" where
  "is_char_boundary s n \<longleftrightarrow> n = 0 \<or> n = length s \<or> n < length s \<and> \<not> cont (s ! n)"

definition str_from :: "bytes \<Rightarrow> nat \<Rightarrow> bytes res" where
  "str_from s n = (if is_char_boundary s n then Inr (drop n s) else Inl Panic)"

text \<open>
  A string of the interpreter: the memory behind the head pointer, which is absent for the null pointer,
  with the offset and the length of the slice.
\<close>

record str_buffer =
  sb_ptr :: "bytes option"
  sb_len :: u16
  sb_off :: u16

definition from_ptr_and_len :: "bytes option \<Rightarrow> nat \<Rightarrow> str_buffer res" where
  "from_ptr_and_len p n =
     (if n < 2 ^ 16 then Inr \<lparr>sb_ptr = p, sb_len = of_nat n, sb_off = 0\<rparr> else Inl Panic)"

definition as_bytes :: "str_buffer \<Rightarrow> bytes" where
  "as_bytes b = (case sb_ptr b of None \<Rightarrow> [] | Some m \<Rightarrow> take (unat (sb_len b)) (drop (unat (sb_off b)) m))"

definition strbuffer_skip_prefix :: "str_buffer \<Rightarrow> nat \<Rightarrow> str_buffer res" where
  "strbuffer_skip_prefix b n =
     (if \<not> n < 2 ^ 16 then Inl Panic
      else if \<not> of_nat n \<le> sb_len b then Inl Panic
      else if \<not> is_char_boundary (as_bytes b) n then Inl Panic
      else Inr \<lparr>sb_ptr = sb_ptr b, sb_len = sb_len b - of_nat n, sb_off = sb_off b + of_nat n\<rparr>)"

text \<open>
  \<open>alloc_with\<close> gets memory from the collector, unless \<open>gc_alloc\<close> says there is none, lets the closure
  fill it and checks that the result is a text.
\<close>

definition alloc_with :: "(nat \<Rightarrow> bool) \<Rightarrow> nat \<Rightarrow> (bytes \<Rightarrow> bytes) \<Rightarrow> str_buffer res" where
  "alloc_with gc_alloc n func =
     (if \<not> gc_alloc (usize_add n 1) then Inl (Err AllocationFailed)
      else let b = func (replicate n 0) in
        if from_utf8 b = None then Inl (Err OutOfRange)
        else from_ptr_and_len (Some (b @ [0])) n)"

definition is_bytes :: "obj \<Rightarrow> bool" where
  "is_bytes x = (case x of OBytes _ \<Rightarrow> True | _ \<Rightarrow> False)"

definition hexlify_bytes :: "(nat \<Rightarrow> bool) \<Rightarrow> (qstr \<Rightarrow> bytes) \<Rightarrow> obj \<Rightarrow> nat \<Rightarrow> nat \<Rightarrow> str_buffer res" where
  "hexlify_bytes gc_alloc qstr_data x offset max_len =
     (if \<not> is_bytes x then Inl (Err TypeError)
      else
        let bin_off = offset div 2; hex_off = offset mod 2 in
        rbind (get_buffer qstr_data x) (\<lambda>bin.
        if \<not> bin_off \<le> length bin then Inl Panic
        else
          let bin_slice = drop bin_off bin;
              max_len = 2 * (max_len div 2);
              hex_len = min (length bin_slice * 2 mod 2 ^ 32) max_len in
          rbind (alloc_with gc_alloc hex_len (hexlify bin_slice)) (\<lambda>result.
          strbuffer_skip_prefix result hex_off)))"

text \<open>The strings of the user interface.\<close>

datatype tstring = Allocated str_buffer | Translation nat u16 | TStr bytes

definition tstring_map ::
  "(nat \<Rightarrow> bytes) \<Rightarrow> tstring \<Rightarrow> (bytes \<Rightarrow> 'b) \<Rightarrow> flash_state \<Rightarrow> ('b \<times> flash_state) res" where
  "tstring_map untranslated t fn st = (case t of
      Allocated b \<Rightarrow> Inr (fn (as_bytes b), st)
    | Translation tr offset \<Rightarrow>
        rbind (map_translated untranslated tr (\<lambda>s. str_from s (unat offset)) st)
          (\<lambda>(r, st). rbind r (\<lambda>s. Inr (fn s, st)))
    | TStr s \<Rightarrow> Inr (fn s, st))"

definition tstring_len :: "(nat \<Rightarrow> bytes) \<Rightarrow> tstring \<Rightarrow> flash_state \<Rightarrow> (nat \<times> flash_state) res" where
  "tstring_len untranslated t st = tstring_map untranslated t length st"

definition tstring_is_empty :: "(nat \<Rightarrow> bytes) \<Rightarrow> tstring \<Rightarrow> flash_state \<Rightarrow> (bool \<times> flash_state) res" where
  "tstring_is_empty untranslated t st = rbind (tstring_len untranslated t st) (\<lambda>(n, st). Inr (n = 0, st))"

definition skip_prefix :: "(nat \<Rightarrow> bytes) \<Rightarrow> tstring \<Rightarrow> nat \<Rightarrow> flash_state \<Rightarrow> (tstring \<times> flash_state) res" where
  "skip_prefix untranslated t n st =
     rbind (tstring_map untranslated t (\<lambda>s. n \<le> length s \<and> is_char_boundary s n) st) (\<lambda>(fine, st).
     if \<not> fine then Inl Panic
     else case t of
       Allocated b \<Rightarrow> rbind (strbuffer_skip_prefix b n) (\<lambda>b. Inr (Allocated b, st))
     | Translation tr offset \<Rightarrow> Inr (Translation tr (offset + of_nat n), st)
     | TStr s \<Rightarrow> rbind (str_from s n) (\<lambda>s. Inr (TStr s, st)))"

definition from_translation :: "nat \<Rightarrow> tstring" where
  "from_translation tr = Translation tr 0"

definition from_strbuffer :: "str_buffer \<Rightarrow> tstring" where
  "from_strbuffer b = Allocated b"

definition tstring_empty :: tstring where
  "tstring_empty = TStr []"

definition tstring_eq :: "(nat \<Rightarrow> bytes) \<Rightarrow> tstring \<Rightarrow> tstring \<Rightarrow> flash_state \<Rightarrow> (bool \<times> flash_state) res" where
  "tstring_eq untranslated a b st =
     rbind (tstring_map untranslated a (\<lambda>s. s) st) (\<lambda>(s, st).
     tstring_map untranslated b (\<lambda>o'. s = o') st)"

subsection \<open>Skipping a prefix\<close>

definition wf_strbuffer :: "str_buffer \<Rightarrow> bool" where
  "wf_strbuffer b \<longleftrightarrow> (case sb_ptr b of None \<Rightarrow> sb_len b = 0
     | Some m \<Rightarrow> unat (sb_off b) + unat (sb_len b) \<le> length m \<and> unat (sb_off b) + unat (sb_len b) < 2 ^ 16)"

lemma length_as_bytes: "wf_strbuffer b \<Longrightarrow> length (as_bytes b) = unat (sb_len b)"
  by (auto simp: wf_strbuffer_def as_bytes_def split: option.splits)

lemma unat_of_nat_u16 [simp]: "n < 2 ^ 16 \<Longrightarrow> unat (of_nat n :: u16) = n"
  by (simp add: unat_of_nat take_bit_nat_eq_self)

lemma unat_add_u16: "unat (a :: u16) + unat b < 2 ^ 16 \<Longrightarrow> unat (a + b) = unat a + unat b"
  by (simp add: unat_add_lem [THEN iffD1])

text \<open>Skipping a prefix of a string of the interpreter succeeds exactly at a boundary, and gives the rest.\<close>

lemma strbuffer_skip_prefix_text:
  assumes "wf_strbuffer b" "is_char_boundary (as_bytes b) n"
  shows "\<exists>b'. strbuffer_skip_prefix b n = Inr b' \<and> wf_strbuffer b' \<and> as_bytes b' = drop n (as_bytes b)"
proof -
  have n: "n \<le> unat (sb_len b)"
    using assms length_as_bytes [OF assms(1)] by (auto simp: is_char_boundary_def)
  moreover have "unat (sb_len b) < 2 ^ 16"
    using unat_u16 [of "sb_len b"] by simp
  ultimately have n16: "n < 2 ^ 16" "unat (of_nat n :: u16) = n"
    by simp_all
  then have le: "of_nat n \<le> sb_len b"
    using n by (simp add: word_le_nat_alt)
  then have l: "unat (sb_len b - of_nat n) = unat (sb_len b) - n"
    using n16 by (simp add: unat_sub)
  show ?thesis
  proof (cases "sb_ptr b")
    case None
    then show ?thesis
      using assms n n16 le by (auto simp: wf_strbuffer_def strbuffer_skip_prefix_def as_bytes_def)
  next
    case (Some m)
    then have "unat (sb_off b) + unat (of_nat n :: u16) < 2 ^ 16"
      using assms(1) n n16 by (simp add: wf_strbuffer_def)
    then have "unat (sb_off b + of_nat n) = unat (sb_off b) + n"
      using n16 by (simp add: unat_add_u16)
    then show ?thesis
      using Some assms n n16 le l
      by (auto simp: wf_strbuffer_def strbuffer_skip_prefix_def as_bytes_def drop_take add.commute)
  qed
qed

text \<open>The same for every string of the user interface; reading a string leaves the translations as they are.\<close>

definition tstring_text :: "(nat \<Rightarrow> bytes) \<Rightarrow> flash_state \<Rightarrow> tstring \<Rightarrow> bytes \<Rightarrow> bool" where
  "tstring_text untranslated st t s \<longleftrightarrow> tstring_map untranslated t (\<lambda>s. s) st = Inr (s, st) \<and>
     (case t of Allocated b \<Rightarrow> wf_strbuffer b | Translation tr offset \<Rightarrow> unat offset + length s < 2 ^ 16 | TStr _ \<Rightarrow> True)"

lemma str_from_drop: "str_from s a = Inr t \<Longrightarrow> is_char_boundary t n \<Longrightarrow> str_from s (a + n) = Inr (drop n t)"
  by (auto simp: str_from_def is_char_boundary_def add.commute split: if_splits)

lemma map_translated_eq:
  "map_translated untranslated tr fn st = (if writer st then Inl Panic
     else rbind (translate untranslated tr (cached st)) (\<lambda>s. Inr (fn s, st)))"
  by (simp add: map_translated_def flash_get_def release_def)

lemma tstring_text_map:
  "tstring_text untranslated st t s \<Longrightarrow> tstring_map untranslated t fn st = Inr (fn s, st)"
  by (auto simp: tstring_text_def tstring_map_def map_translated_eq result_simps split: tstring.splits if_splits)

lemma skip_prefix_text:
  assumes t: "tstring_text untranslated st t s" and "is_char_boundary s n"
  shows "\<exists>t'. skip_prefix untranslated t n st = Inr (t', st) \<and> tstring_text untranslated st t' (drop n s)"
proof -
  have n: "n \<le> length s"
    using assms(2) by (auto simp: is_char_boundary_def)
  show ?thesis
  proof (cases t)
    case (Allocated b)
    then have s: "wf_strbuffer b" "s = as_bytes b"
      using t by (simp_all add: tstring_text_def tstring_map_def)
    obtain b' where "strbuffer_skip_prefix b n = Inr b'" "wf_strbuffer b'" "as_bytes b' = drop n (as_bytes b)"
      using strbuffer_skip_prefix_text [OF s(1)] assms(2) s(2) by blast
    then show ?thesis
      using n assms(2) s Allocated by (simp add: skip_prefix_def tstring_text_map [OF t] tstring_text_def tstring_map_def)
  next
    case (Translation tr offset)
    then obtain s0 where w: "\<not> writer st" "translate untranslated tr (cached st) = Inr s0"
        "str_from s0 (unat offset) = Inr s" "unat offset + length s < 2 ^ 16"
      using t by (auto simp: tstring_text_def tstring_map_def map_translated_eq result_simps split: if_splits)
    then have "unat (offset + of_nat n) = unat offset + n"
      using n by (subst unat_add_u16) simp_all
    moreover have "str_from s0 (unat offset + n) = Inr (drop n s)"
      by (rule str_from_drop [OF w(3) assms(2)])
    ultimately show ?thesis
      using n assms(2) w Translation
      by (simp add: skip_prefix_def tstring_text_map [OF t] tstring_text_def tstring_map_def map_translated_eq)
  next
    case (TStr u)
    then show ?thesis
      using n t assms(2) by (simp add: skip_prefix_def tstring_text_map [OF t] str_from_def tstring_text_def tstring_map_def)
  qed
qed

subsection \<open>Pages of hexadecimal text\<close>

lemma hex_digits_ascii: "d \<in> set (hex_digits b) \<Longrightarrow> d < 0x80"
proof -
  have "\<forall>i<16. HEX_LOWER ! i < 0x80"
    by code_simp
  moreover have "unat b div 16 < 16" "unat b mod 16 < 16"
    using unat_u8 [of b] by auto
  ultimately show "d \<in> set (hex_digits b) \<Longrightarrow> d < 0x80"
    by (auto simp: hex_digits_def)
qed

lemma boundary_ascii: "\<forall>d\<in>set s. d < 0x80 \<Longrightarrow> n \<le> length s \<Longrightarrow> is_char_boundary s n"
  using nth_mem [of n s] by (force simp: is_char_boundary_def cont_def not_le)

lemma concat_hex_take: "concat (map hex_digits (take k bs)) = take (2 * k) (concat (map hex_digits bs))"
proof (induction bs arbitrary: k)
  case (Cons b bs)
  then show ?case by (cases k) (simp_all add: hex_digits_def)
qed simp

lemma concat_hex_drop: "concat (map hex_digits (drop k bs)) = drop (2 * k) (concat (map hex_digits bs))"
proof (induction bs arbitrary: k)
  case (Cons b bs)
  then show ?case by (cases k) (simp_all add: hex_digits_def)
qed simp

text \<open>
  A page of the hexadecimal text of a byte string: the digits from any offset on, also from the middle
  of a byte, up to the next multiple of the page size.
\<close>

lemma hexlify_bytes_text:
  assumes "offset \<le> 2 * length bin" "2 * length bin < 2 ^ 32" "1 < m" "m < 2 ^ 16" "even m" "\<forall>n. gc_alloc n"
  shows "\<exists>b. hexlify_bytes gc_alloc qstr_data (OBytes bin) offset m = Inr b \<and>
    as_bytes b = take (m - offset mod 2) (drop offset (concat (map hex_digits bin)))"
proof -
  let ?sl = "drop (offset div 2) bin"
  define k where "k = min (length ?sl) (m div 2)"
  let ?n = "2 * k"
  let ?h = "concat (map hex_digits (take k ?sl))"
  have n: "min (2 * length ?sl) m = ?n" "?n < 2 ^ 16"
    using assms(4,5) by (auto simp: k_def min_def elim!: evenE)
  have h: "hexlify ?sl (replicate ?n 0) = ?h" and len: "length ?h = ?n"
    by (simp_all add: hexlify_eq k_def)
  have asc: "\<forall>d\<in>set ?h. d < 0x80"
    using hex_digits_ascii by auto
  let ?b = "\<lparr>sb_ptr = Some (?h @ [0]), sb_len = of_nat ?n, sb_off = 0\<rparr> :: str_buffer"
  have al: "alloc_with gc_alloc ?n (hexlify ?sl) = Inr ?b"
    using assms(6) n(2) utf8_valid_ascii [OF asc] by (simp add: alloc_with_def h from_utf8_def from_ptr_and_len_def)
  have b: "wf_strbuffer ?b" "as_bytes ?b = ?h"
    using len n(2) unat_of_nat_u16 [OF n(2)] by (simp_all add: wf_strbuffer_def as_bytes_def del: of_nat_mult)
  have "offset mod 2 \<le> length ?h"
    unfolding len k_def using assms(1,3,5) by (cases "even offset") (auto elim!: oddE evenE)
  then obtain b' where "strbuffer_skip_prefix ?b (offset mod 2) = Inr b'" "as_bytes b' = drop (offset mod 2) ?h"
    using strbuffer_skip_prefix_text [OF b(1)] boundary_ascii [OF asc] b(2) by metis
  moreover have "drop (offset mod 2) ?h = take (m - offset mod 2) (drop offset (concat (map hex_digits bin)))"
  proof -
    have "?h = take (m div 2 * 2) (drop (2 * (offset div 2)) (concat (map hex_digits bin)))"
      by (simp add: k_def min_def concat_hex_take concat_hex_drop) (simp add: mult.commute)
    then have "drop (offset mod 2) ?h = take (m - offset mod 2) (drop (2 * (offset div 2) + offset mod 2) (concat (map hex_digits bin)))"
      using assms(5) by (simp add: drop_take add.commute)
    then show ?thesis
      by simp
  qed
  moreover have "hexlify_bytes gc_alloc qstr_data (OBytes bin) offset m = strbuffer_skip_prefix ?b (offset mod 2)"
  proof -
    have "offset div 2 \<le> length bin"
      using assms(1) by linarith
    then show ?thesis
      using assms al n(1) by (simp add: hexlify_bytes_def is_bytes_def get_buffer_def Let_def mult.commute)
  qed
  ultimately show ?thesis
    by metis
qed

end
