(* ===== verification/Text_Entry.thy ===== *)
theory Text_Entry
  imports Strutil Component "HOL-Library.Multiset"
begin

section \<open>Random orders, text boxes, multi-tap keys and touch buttons\<close>

text \<open>
  The parts that the keyboards of the touch models are made of: the shuffle of \<^verbatim>\<open>trezorhal/random.rs\<close>,
  the bounded strings behind \<open>ShortString\<close>, \<open>TextBox\<close> of \<^verbatim>\<open>ui/component/text/common.rs\<close>, the multi-tap
  state of \<^verbatim>\<open>model_tt/component/keyboard/common.rs\<close>, the button of \<^verbatim>\<open>model_tt/component/button.rs\<close>, and
  the wrappers \<open>Maybe\<close> and \<open>Pad\<close> of \<^verbatim>\<open>ui/component\<close>.  A character is the list of its UTF-8 bytes.
  Icons are numbers and the style sheets of the theme are names; drawing and the backlight are left out,
  and the vibration motor has no effect on the state.
\<close>

subsection \<open>Shuffling\<close>

text \<open>
  \<open>random_uniform\<close> of the hardware library is a parameter: the list of its results, one for each call.
  The loop goes down from the last index to 1.
\<close>

definition swap_list :: "'a list \<Rightarrow> nat \<Rightarrow> nat \<Rightarrow> 'a list" where
  "swap_list xs i j = xs[i := xs ! j, j := xs ! i]"

fun shuffle_loop :: "nat \<Rightarrow> nat list \<Rightarrow> 'a list \<Rightarrow> 'a list" where
  "shuffle_loop (Suc i) (j # js) xs = shuffle_loop i js (swap_list xs (Suc i) j)"
| "shuffle_loop _ _ xs = xs"

definition shuffle_with :: "nat list \<Rightarrow> 'a list \<Rightarrow> 'a list" where
  "shuffle_with js xs = shuffle_loop (length xs - 1) js xs"

text \<open>What the code relies on: a call for a number below \<open>n\<close> returns one.\<close>

fun draws :: "nat \<Rightarrow> nat list \<Rightarrow> bool" where
  "draws (Suc i) (j # js) \<longleftrightarrow> j \<le> Suc i \<and> draws i js"
| "draws 0 [] \<longleftrightarrow> True"
| "draws _ _ \<longleftrightarrow> False"

lemma mset_swap_list: "i < length xs \<Longrightarrow> j < length xs \<Longrightarrow> mset (swap_list xs i j) = mset xs"
  by (simp add: swap_list_def mset_swap)

lemma length_swap_list [simp]: "length (swap_list xs i j) = length xs"
  by (simp add: swap_list_def)

lemma mset_shuffle_loop: "draws i js \<Longrightarrow> i < length xs \<Longrightarrow> mset (shuffle_loop i js xs) = mset xs"
  by (induction i js xs rule: shuffle_loop.induct) (auto simp: mset_swap_list)

lemma shuffle_loop_above: "draws i js \<Longrightarrow> i < k \<Longrightarrow> k < length xs \<Longrightarrow> shuffle_loop i js xs ! k = xs ! k"
  by (induction i js xs rule: shuffle_loop.induct) (auto simp: swap_list_def)

text \<open>The element that ends at the highest position of the loop names the draw.\<close>

lemma draw_unique:
  assumes "distinct xs" "mset ys = mset xs" "\<forall>k. Suc i < k \<and> k < length xs \<longrightarrow> ys ! k = xs ! k" "Suc i < length xs"
  shows "\<exists>!j. j \<le> Suc i \<and> xs ! j = ys ! Suc i"
proof -
  have l: "length ys = length xs" and d: "distinct ys" and s: "set ys = set xs"
    using assms(1,2) by (metis size_mset, metis distinct_count_atmost_1 mset_eq_setD, metis set_mset_mset)
  then have "ys ! Suc i \<in> set xs"
    using assms(4) by (metis nth_mem)
  then obtain j where j: "j < length xs" "xs ! j = ys ! Suc i"
    by (auto simp: in_set_conv_nth)
  have "j \<le> Suc i"
  proof (rule ccontr)
    assume "\<not> j \<le> Suc i"
    then have "ys ! j = ys ! Suc i"
      using assms(3) j by auto
    then show False
      using \<open>\<not> j \<le> Suc i\<close> d l j(1) assms(4) by (simp add: nth_eq_iff_index_eq)
  qed
  then show ?thesis
    using j assms(1,4) by (metis le_less_trans nth_eq_iff_index_eq)
qed

lemma shuffle_loop_unique:
  assumes "distinct xs" "mset ys = mset xs" "\<forall>k. i < k \<and> k < length xs \<longrightarrow> ys ! k = xs ! k" "i < length xs"
  shows "\<exists>!js. draws i js \<and> shuffle_loop i js xs = ys"
  using assms
proof (induction i arbitrary: xs)
  case 0
  then obtain x xs' y ys' where c: "xs = x # xs'" "ys = y # ys'"
    by (metis length_greater_0_conv list.exhaust size_mset)
  have "length ys' = length xs'"
    using 0(2) c by (metis length_Cons nat.inject size_mset)
  moreover have "ys' ! k = xs' ! k" if "k < length xs'" for k
    using 0(3) that c by (metis Suc_less_eq length_Cons nth_Cons_Suc zero_less_Suc)
  ultimately have "ys' = xs'"
    by (metis nth_equalityI)
  then have "ys = xs"
    using 0(2) c by simp
  moreover have "js = []" if "draws 0 js" for js
    using that by (cases js) auto
  ultimately show ?case
    by (intro ex1I [of _ "[]"]) auto
next
  case (Suc i)
  obtain j where j: "j \<le> Suc i" "xs ! j = ys ! Suc i" and ju: "\<And>k. k \<le> Suc i \<Longrightarrow> xs ! k = ys ! Suc i \<Longrightarrow> k = j"
    using draw_unique [OF Suc.prems] by blast
  let ?xs = "swap_list xs (Suc i) j"
  have "\<exists>!js. draws i js \<and> shuffle_loop i js ?xs = ys"
  proof (rule Suc.IH)
    show "distinct ?xs"
      using Suc.prems j unfolding swap_list_def by (subst distinct_swap) auto
    show "mset ys = mset ?xs"
      using Suc.prems j by (simp add: mset_swap_list)
    show "\<forall>k. i < k \<and> k < length ?xs \<longrightarrow> ys ! k = ?xs ! k"
    proof (intro allI impI)
      fix k assume k: "i < k \<and> k < length ?xs"
      show "ys ! k = ?xs ! k"
        using k Suc.prems(3,4) j by (cases "k = Suc i") (auto simp: swap_list_def nth_list_update)
    qed
    show "i < length ?xs"
      using Suc.prems by simp
  qed
  then obtain js where js: "draws i js" "shuffle_loop i js ?xs = ys"
    and u: "\<And>js'. draws i js' \<Longrightarrow> shuffle_loop i js' ?xs = ys \<Longrightarrow> js' = js"
    by blast
  show ?case
  proof (rule ex1I [of _ "j # js"])
    show "draws (Suc i) (j # js) \<and> shuffle_loop (Suc i) (j # js) xs = ys"
      using j js by simp
    fix l assume l: "draws (Suc i) l \<and> shuffle_loop (Suc i) l xs = ys"
    then obtain j' js' where l': "l = j' # js'" "j' \<le> Suc i" "draws i js'" "shuffle_loop i js' (swap_list xs (Suc i) j') = ys"
      by (cases l) auto
    have "ys ! Suc i = swap_list xs (Suc i) j' ! Suc i"
      using shuffle_loop_above [OF l'(3), of "Suc i" "swap_list xs (Suc i) j'"] l'(4) Suc.prems(4) by simp
    then have "j' = j"
      using ju l'(2) Suc.prems(4) by (auto simp: swap_list_def nth_list_update split: if_splits)
    then show "l = j # js"
      using l' u by simp
  qed
qed

text \<open>
  C33.  The shuffle is fair.  Every order of the elements comes from exactly one sequence of draws, each
  below the number asked for, so that independent uniform draws make all orders of the digits on the PIN
  keyboard equally likely.
\<close>

theorem shuffle_fair:
  assumes "distinct xs" "xs \<noteq> []"
  shows "(\<forall>js. draws (length xs - 1) js \<longrightarrow> mset (shuffle_with js xs) = mset xs) \<and>
    (\<forall>ys. mset ys = mset xs \<longrightarrow> (\<exists>!js. draws (length xs - 1) js \<and> shuffle_with js xs = ys))"
proof (intro conjI allI impI)
  have n: "length xs - 1 < length xs"
    using assms(2) by simp
  show "mset (shuffle_with js xs) = mset xs" if "draws (length xs - 1) js" for js
    unfolding shuffle_with_def by (rule mset_shuffle_loop [OF that n])
  show "\<exists>!js. draws (length xs - 1) js \<and> shuffle_with js xs = ys" if "mset ys = mset xs" for ys
    unfolding shuffle_with_def using n by (intro shuffle_loop_unique [OF assms(1) that]) linarith+
qed

theorem shuffle_fair_witness:
  "\<exists>!js. draws 2 js \<and> shuffle_with js [1, 2, 3 :: nat] = [3, 1, 2]"
proof -
  have m: "mset [3, 1, 2 :: nat] = mset [1, 2, 3]" and n: "length [1, 2, 3 :: nat] - 1 = 2"
    and d: "distinct [1, 2, 3 :: nat]" "[1, 2, 3 :: nat] \<noteq> []"
    by simp_all
  show ?thesis
    by (rule shuffle_fair [OF d, unfolded n, THEN conjunct2, rule_format, OF m])
qed

subsection \<open>Bounded strings\<close>

text \<open>\<open>heapless::String\<close> of 50 bytes: a push that does not fit fails and changes nothing.\<close>

definition SHORT_CAPACITY :: nat where
  "SHORT_CAPACITY = 50"

definition push_str :: "bytes \<Rightarrow> bytes \<Rightarrow> bytes option" where
  "push_str s t = (if length s + length t \<le> SHORT_CAPACITY then Some (s @ t) else None)"

text \<open>A failed push is ignored, as in builds without the checks of the UI.\<close>

definition try_push :: "bytes \<Rightarrow> bytes \<Rightarrow> bytes" where
  "try_push s t = (case push_str s t of Some s' \<Rightarrow> s' | None \<Rightarrow> s)"

text \<open>\<open>chars\<close> splits at every byte that does not continue a character; \<open>pop\<close> removes the last one.\<close>

function chars :: "bytes \<Rightarrow> bytes list" where
  "chars [] = []"
| "chars (b # s) = (b # takeWhile cont s) # chars (dropWhile cont s)"
  by pat_completeness auto
termination
  by (relation "measure length") (auto simp: length_dropWhile_le le_imp_less_Suc)

definition string_pop :: "bytes \<Rightarrow> (bytes \<times> bytes) option" where
  "string_pop s = (if s = [] then None else
     let r = rev s; tail = takeWhile cont r; r = dropWhile cont r in
     Some (rev (tail @ take 1 r), rev (drop 1 r)))"

lemma push_str_length: "push_str s t = Some s' \<Longrightarrow> length s' \<le> SHORT_CAPACITY"
  by (auto simp: push_str_def split: if_splits)

lemma try_push_length: "length s \<le> SHORT_CAPACITY \<Longrightarrow> length (try_push s t) \<le> SHORT_CAPACITY"
  by (auto simp: try_push_def dest: push_str_length split: option.splits)

lemma string_pop_text: "string_pop s = Some (c, s') \<Longrightarrow> s = s' @ c"
  by (auto simp: string_pop_def Let_def split: if_splits)
    (metis append.assoc append_take_drop_id rev_append rev_rev_ident takeWhile_dropWhile_id)

text \<open>A single character: a byte that starts a character, and bytes that continue it.\<close>

definition is_char :: "bytes \<Rightarrow> bool" where
  "is_char c \<longleftrightarrow> (\<exists>b r. c = b # r \<and> \<not> cont b \<and> (\<forall>x\<in>set r. cont x))"

lemma string_pop_push: "is_char c \<Longrightarrow> string_pop (s @ c) = Some (c, s)"
  by (auto simp: is_char_def string_pop_def Let_def takeWhile_append dropWhile_append)

lemma string_pop_Nil [simp]: "string_pop [] = None"
  by (simp add: string_pop_def)

subsection \<open>Text boxes\<close>

datatype text_edit = ReplaceLast bytes | Append bytes

record text_box =
  tb_text :: bytes

definition textbox_new :: "bytes \<Rightarrow> (text_box, 'e) result" where
  "textbox_new t = rbind (unwrap (push_str [] t)) (\<lambda>t. Inr \<lparr>tb_text = t\<rparr>)"

definition textbox_empty :: "(text_box, 'e) result" where
  "textbox_empty = textbox_new []"

definition textbox_len :: "text_box \<Rightarrow> nat" where
  "textbox_len t = length (tb_text t)"

definition textbox_is_empty :: "text_box \<Rightarrow> bool" where
  "textbox_is_empty t \<longleftrightarrow> tb_text t = []"

definition delete_last :: "event_ctx \<Rightarrow> text_box \<Rightarrow> event_ctx \<times> text_box" where
  "delete_last ctx t = (case string_pop (tb_text t) of
      Some (_, s) \<Rightarrow> (request_paint ctx, t\<lparr>tb_text := s\<rparr>)
    | None \<Rightarrow> (ctx, t))"

definition replace_last :: "event_ctx \<Rightarrow> bytes \<Rightarrow> text_box \<Rightarrow> event_ctx \<times> text_box" where
  "replace_last ctx ch t =
     (let (previous, s) = (case string_pop (tb_text t) of
            Some (c, s) \<Rightarrow> (Some c, s) | None \<Rightarrow> (None, tb_text t));
          t = t\<lparr>tb_text := try_push s ch\<rparr> in
      (if previous \<noteq> Some ch then request_paint ctx else ctx, t))"

definition textbox_append :: "event_ctx \<Rightarrow> bytes \<Rightarrow> text_box \<Rightarrow> event_ctx \<times> text_box" where
  "textbox_append ctx ch t = (request_paint ctx, t\<lparr>tb_text := try_push (tb_text t) ch\<rparr>)"

definition append_slice :: "event_ctx \<Rightarrow> bytes \<Rightarrow> text_box \<Rightarrow> event_ctx \<times> text_box" where
  "append_slice ctx s t = (request_paint ctx, t\<lparr>tb_text := try_push (tb_text t) s\<rparr>)"

definition textbox_replace :: "event_ctx \<Rightarrow> bytes \<Rightarrow> text_box \<Rightarrow> event_ctx \<times> text_box" where
  "textbox_replace ctx new t =
     (if tb_text t \<noteq> new then (request_paint ctx, t\<lparr>tb_text := try_push [] new\<rparr>) else (ctx, t))"

definition textbox_clear :: "event_ctx \<Rightarrow> text_box \<Rightarrow> event_ctx \<times> text_box" where
  "textbox_clear ctx t = textbox_replace ctx [] t"

definition textbox_apply :: "event_ctx \<Rightarrow> text_edit \<Rightarrow> text_box \<Rightarrow> event_ctx \<times> text_box" where
  "textbox_apply ctx edit t = (case edit of
      ReplaceLast c \<Rightarrow> replace_last ctx c t
    | Append c \<Rightarrow> textbox_append ctx c t)"

subsection \<open>Multi-tap keys\<close>

record pending =
  pd_key :: nat
  pd_press :: nat
  pd_timer :: timer_token

record multi_tap =
  mt_timeout :: duration
  mt_pending :: "pending option"

definition multi_tap_new :: multi_tap where
  "multi_tap_new = \<lparr>mt_timeout = from_secs 1, mt_pending = None\<rparr>"

definition pending_key :: "multi_tap \<Rightarrow> nat option" where
  "pending_key m = map_option pd_key (mt_pending m)"

definition pending_press :: "multi_tap \<Rightarrow> nat option" where
  "pending_press m = map_option pd_press (mt_pending m)"

definition pending_timer :: "multi_tap \<Rightarrow> timer_token option" where
  "pending_timer m = map_option pd_timer (mt_pending m)"

definition is_timeout_event :: "multi_tap \<Rightarrow> event \<Rightarrow> bool" where
  "is_timeout_event m e = (case (e, pending_timer m) of (Timer t, Some pt) \<Rightarrow> pt = t | _ \<Rightarrow> False)"

definition clear_pending_state :: "event_ctx \<Rightarrow> multi_tap \<Rightarrow> event_ctx \<times> multi_tap" where
  "clear_pending_state ctx m =
     (if mt_pending m \<noteq> None then (request_paint ctx, m\<lparr>mt_pending := None\<rparr>) else (ctx, m))"

text \<open>The length of the text of a key is counted in bytes; the cycle over its characters never ends.\<close>

definition click_key ::
  "event_ctx \<Rightarrow> nat \<Rightarrow> bytes \<Rightarrow> multi_tap \<Rightarrow> (text_edit \<times> event_ctx \<times> multi_tap, 'e) result" where
  "click_key ctx key key_text m =
     (let (is_pending, press) = (case mt_pending m of
            Some p \<Rightarrow> if pd_key p = key then (True, usize_add (pd_press p) 1) else (False, 0)
          | None \<Rightarrow> (False, 0));
          (ctx, m) = (if 1 < length key_text then
              let (t, ctx) = request_timer (mt_timeout m) ctx in
              (ctx, m\<lparr>mt_pending := Some \<lparr>pd_key = key, pd_press = press, pd_timer = t\<rparr>\<rparr>)
            else (ctx, m\<lparr>mt_pending := None\<rparr>)) in
      if key_text = [] then Inl Panic
      else
        let cs = chars key_text; ch = cs ! (press mod length cs) in
        Inr (if is_pending then ReplaceLast ch else Append ch, ctx, m))"

text \<open>Clicks on one key, each applied to the text box, as the keyboards do.\<close>

fun type_key ::
  "nat \<Rightarrow> nat \<Rightarrow> bytes \<Rightarrow> event_ctx \<times> multi_tap \<times> text_box \<Rightarrow> (event_ctx \<times> multi_tap \<times> text_box, 'e) result" where
  "type_key 0 key text s = Inr s"
| "type_key (Suc n) key text s =
     rbind (type_key n key text s) (\<lambda>(ctx, m, t).
     rbind (click_key ctx key text m) (\<lambda>(edit, ctx, m).
     let (ctx, t) = textbox_apply ctx edit t in Inr (ctx, m, t)))"

lemma is_char_chars: "\<not> cont (hd s) \<Longrightarrow> c \<in> set (chars s) \<Longrightarrow> is_char c"
proof (induction s rule: chars.induct)
  case (2 b s)
  have "\<not> cont (hd (dropWhile cont s))" if "dropWhile cont s \<noteq> []"
    using hd_dropWhile [OF that] .
  then show ?case
    using 2 by (cases "dropWhile cont s = []") (auto simp: is_char_def dest: set_takeWhileD)
qed simp

lemma chars_Nil [simp]: "chars s = [] \<longleftrightarrow> s = []"
  by (cases s) auto

lemma type_key_cycle:
  assumes "1 < length text" "\<not> cont (hd text)" "pending_key m \<noteq> Some key" "n < 2 ^ 32"
    and room: "\<forall>c\<in>set (chars text). length (tb_text t) + length c \<le> SHORT_CAPACITY"
  shows "\<exists>ctx' m' t'. type_key (Suc n) key text (ctx, m, t) = (Inr (ctx', m', t') :: (_, 'e) result) \<and>
    tb_text t' = tb_text t @ chars text ! (n mod length (chars text)) \<and>
    pending_key m' = Some key \<and> pending_press m' = Some n"
  using assms(4)
proof (induction n)
  case 0
  have ne: "text \<noteq> []"
    using assms(1) by auto
  have "length (chars text) > 0"
    using ne by simp
  then have "chars text ! 0 \<in> set (chars text)"
    by (metis nth_mem)
  then have "try_push (tb_text t) (chars text ! 0) = tb_text t @ chars text ! 0"
    using room by (simp add: try_push_def push_str_def)
  moreover have "(case mt_pending m of Some p \<Rightarrow> if pd_key p = key then (True, usize_add (pd_press p) 1) else (False, 0)
      | None \<Rightarrow> (False, 0)) = (False, 0)"
    using assms(3) by (auto simp: pending_key_def split: option.splits)
  ultimately show ?case
    using assms(1) ne
    by (simp add: click_key_def textbox_apply_def textbox_append_def pending_key_def pending_press_def
        split: prod.splits)
next
  case (Suc n)
  let ?cs = "chars text"
  obtain ctx' m' t' where IH: "type_key (Suc n) key text (ctx, m, t) = (Inr (ctx', m', t') :: (_, 'e) result)"
      "tb_text t' = tb_text t @ ?cs ! (n mod length ?cs)" "pending_key m' = Some key" "pending_press m' = Some n"
    using Suc.IH Suc.prems by (metis Suc_lessD)
  have ne: "text \<noteq> []"
    using assms(1) by auto
  then have mem: "?cs ! (k mod length ?cs) \<in> set ?cs" for k
    by (intro nth_mem) simp
  have pop: "string_pop (tb_text t') = Some (?cs ! (n mod length ?cs), tb_text t)"
    unfolding IH(2) by (rule string_pop_push [OF is_char_chars [OF assms(2) mem]])
  have push: "try_push (tb_text t) (?cs ! (Suc n mod length ?cs)) = tb_text t @ ?cs ! (Suc n mod length ?cs)"
    using room mem [of "Suc n"] by (simp add: try_push_def push_str_def)
  obtain p where p: "mt_pending m' = Some p" "pd_key p = key" "pd_press p = n"
    using IH(3,4) by (auto simp: pending_key_def pending_press_def)
  have press: "usize_add n 1 = Suc n"
    using Suc.prems by (simp add: usize_add_def)
  show ?case
    unfolding type_key.simps(2) [of "Suc n"] IH(1)
    using assms(1) ne pop push p press
    by (simp add: click_key_def textbox_apply_def replace_last_def pending_key_def pending_press_def Let_def
        split: prod.splits)
qed

subsection \<open>Pads and hidden components\<close>

record pad =
  pad_area :: rect
  pad_color :: u16
  pad_clear :: bool

definition pad_with_background :: "u16 \<Rightarrow> pad" where
  "pad_with_background c = \<lparr>pad_area = rect_zero, pad_color = c, pad_clear = False\<rparr>"

definition pad_place :: "rect \<Rightarrow> pad \<Rightarrow> pad" where
  "pad_place r p = p\<lparr>pad_area := r\<rparr>"

definition pad_clear_now :: "pad \<Rightarrow> pad" where
  "pad_clear_now p = p\<lparr>pad_clear := True\<rparr>"

text \<open>\<open>ComponentExt::request_complete_repaint\<close>; a message raised by the component is dropped.\<close>

definition request_complete_repaint :: "('c, 'm) handler \<Rightarrow> event_ctx \<Rightarrow> 'c \<Rightarrow> event_ctx \<times> 'c" where
  "request_complete_repaint ev ctx c = (let (_, ctx, c) = ev ctx RequestPaint c in (request_paint ctx, c))"

record 'c maybe =
  mb_inner :: 'c
  mb_pad :: pad
  mb_visible :: bool

definition maybe_new :: "u16 \<Rightarrow> 'c \<Rightarrow> bool \<Rightarrow> 'c maybe" where
  "maybe_new bg c v = \<lparr>mb_inner = c, mb_pad = pad_with_background bg, mb_visible = v\<rparr>"

definition maybe_hidden :: "u16 \<Rightarrow> 'c \<Rightarrow> 'c maybe" where
  "maybe_hidden bg c = maybe_new bg c False"

definition show_if :: "('c, 'm) handler \<Rightarrow> event_ctx \<Rightarrow> bool \<Rightarrow> 'c maybe \<Rightarrow> event_ctx \<times> 'c maybe" where
  "show_if ev ctx show m =
     (if mb_visible m \<noteq> show then
        let m = m\<lparr>mb_visible := show, mb_pad := pad_clear_now (mb_pad m)\<rparr> in
        if show then let (ctx, c) = request_complete_repaint ev ctx (mb_inner m) in (ctx, m\<lparr>mb_inner := c\<rparr>)
        else (request_paint ctx, m)
      else (ctx, m))"

definition maybe_event :: "('c, 'm) handler \<Rightarrow> ('c maybe, 'm) handler" where
  "maybe_event ev ctx e m =
     (if mb_visible m then let (msg, ctx, c) = ev ctx e (mb_inner m) in (msg, ctx, m\<lparr>mb_inner := c\<rparr>)
      else (None, ctx, m))"

subsection \<open>Touch buttons\<close>

datatype tt_button_msg = BtnPressed | BtnReleased | BtnClicked | BtnLongPressed

datatype tt_button_state = StInitial | StPressed | StReleased | StDisabled

text \<open>The style sheets of \<^verbatim>\<open>theme/mod.rs\<close> that the keyboards use; no two of them are equal.\<close>

datatype style_sheet =
    StyleDefault | StyleConfirm | StyleCancel | StyleReset | StylePin | StylePinConfirm | StylePinAutocomplete
  | StyleSuggestionConfirm | StyleSuggestionAutocomplete

text \<open>Icons are numbers.\<close>

datatype button_content =
    ContentEmpty | ContentText bytes | ContentIcon nat | ContentIconAndText nat bytes | ContentIconBlend nat nat offset

record tt_button =
  tt_area :: rect
  touch_expand :: "insets option"
  tt_content :: button_content
  tt_styles :: style_sheet
  tt_state :: tt_button_state
  long_press :: "duration option"
  long_timer :: "timer_token option"

definition tt_button_new :: "button_content \<Rightarrow> tt_button" where
  "tt_button_new c =
     \<lparr>tt_area = rect_zero, touch_expand = None, tt_content = c, tt_styles = StyleDefault,
      tt_state = StInitial, long_press = None, long_timer = None\<rparr>"

definition styled :: "style_sheet \<Rightarrow> tt_button \<Rightarrow> tt_button" where
  "styled st b = b\<lparr>tt_styles := st\<rparr>"

definition with_long_press :: "duration \<Rightarrow> tt_button \<Rightarrow> tt_button" where
  "with_long_press d b = b\<lparr>long_press := Some d\<rparr>"

definition with_expanded_touch_area :: "insets \<Rightarrow> tt_button \<Rightarrow> tt_button" where
  "with_expanded_touch_area i b = b\<lparr>touch_expand := Some i\<rparr>"

definition initially_enabled :: "bool \<Rightarrow> tt_button \<Rightarrow> tt_button" where
  "initially_enabled enabled b = (if \<not> enabled then b\<lparr>tt_state := StDisabled\<rparr> else b)"

definition tt_set :: "event_ctx \<Rightarrow> tt_button_state \<Rightarrow> tt_button \<Rightarrow> event_ctx \<times> tt_button" where
  "tt_set ctx st b = (if tt_state b \<noteq> st then (request_paint ctx, b\<lparr>tt_state := st\<rparr>) else (ctx, b))"

definition tt_enable :: "event_ctx \<Rightarrow> tt_button \<Rightarrow> event_ctx \<times> tt_button" where
  "tt_enable ctx b = tt_set ctx StInitial b"

definition tt_disable :: "event_ctx \<Rightarrow> tt_button \<Rightarrow> event_ctx \<times> tt_button" where
  "tt_disable ctx b = tt_set ctx StDisabled b"

definition enable_if :: "event_ctx \<Rightarrow> bool \<Rightarrow> tt_button \<Rightarrow> event_ctx \<times> tt_button" where
  "enable_if ctx enabled b = (if enabled then tt_enable ctx b else tt_disable ctx b)"

definition set_content :: "event_ctx \<Rightarrow> button_content \<Rightarrow> tt_button \<Rightarrow> event_ctx \<times> tt_button" where
  "set_content ctx c b = (if tt_content b \<noteq> c then (request_paint ctx, b\<lparr>tt_content := c\<rparr>) else (ctx, b))"

definition set_stylesheet :: "event_ctx \<Rightarrow> style_sheet \<Rightarrow> tt_button \<Rightarrow> event_ctx \<times> tt_button" where
  "set_stylesheet ctx st b = (if tt_styles b \<noteq> st then (request_paint ctx, b\<lparr>tt_styles := st\<rparr>) else (ctx, b))"

definition tt_is_enabled :: "tt_button \<Rightarrow> bool" where
  "tt_is_enabled b \<longleftrightarrow> tt_state b = StInitial \<or> tt_state b = StPressed \<or> tt_state b = StReleased"

definition tt_is_disabled :: "tt_button \<Rightarrow> bool" where
  "tt_is_disabled b \<longleftrightarrow> tt_state b = StDisabled"

definition tt_button_place :: "rect \<Rightarrow> tt_button \<Rightarrow> tt_button" where
  "tt_button_place r b = b\<lparr>tt_area := r\<rparr>"

definition touch_area :: "tt_button \<Rightarrow> rect" where
  "touch_area b = (case touch_expand b of Some i \<Rightarrow> outset (tt_area b) i | None \<Rightarrow> tt_area b)"

definition tt_button_event :: "(tt_button, tt_button_msg) handler" where
  "tt_button_event ctx e b = (case e of
      Touch (TouchStart p) \<Rightarrow>
        (case tt_state b of
           StDisabled \<Rightarrow> (None, ctx, b)
         | _ \<Rightarrow>
           if contains (touch_area b) p then
             let (ctx, b) = tt_set ctx StPressed b;
                 (ctx, b) = (case long_press b of
                   Some d \<Rightarrow> (let (t, ctx) = request_timer d ctx in (ctx, b\<lparr>long_timer := Some t\<rparr>))
                 | None \<Rightarrow> (ctx, b)) in
             (Some BtnPressed, ctx, b)
           else (None, ctx, b))
    | Touch (TouchMove p) \<Rightarrow>
        if tt_state b = StPressed \<and> \<not> contains (touch_area b) p then
          let (ctx, b) = tt_set ctx StReleased b in (Some BtnReleased, ctx, b)
        else (None, ctx, b)
    | Touch (TouchEnd p) \<Rightarrow>
        (if tt_state b = StInitial \<or> tt_state b = StDisabled then (None, ctx, b)
         else if tt_state b = StPressed \<and> contains (touch_area b) p then
           let (ctx, b) = tt_set ctx StInitial b in (Some BtnClicked, ctx, b)
         else
           let (ctx, b) = tt_set ctx StInitial b in (None, ctx, b\<lparr>long_timer := None\<rparr>))
    | Timer token \<Rightarrow>
        if long_timer b = Some token then
          let b = b\<lparr>long_timer := None\<rparr> in
          if tt_state b = StPressed then
            let (ctx, b) = tt_set ctx StInitial b in (Some BtnLongPressed, ctx, b)
          else (None, ctx, b)
        else (None, ctx, b)
    | _ \<Rightarrow> (None, ctx, b))"

text \<open>An event neither disables nor enables a button, keeps its content, and a disabled button reports nothing.\<close>

lemma tt_button_event_keeps:
  assumes "tt_button_event ctx e b = (m, ctx', b')"
  shows "tt_content b' = tt_content b" "tt_is_disabled b' = tt_is_disabled b" "tt_is_disabled b \<Longrightarrow> m = None"
  using assms
  by (auto simp: tt_button_event_def tt_set_def tt_is_disabled_def Let_def
      split: event.splits touch_event.splits tt_button_state.splits if_splits option.splits prod.splits)

text \<open>A click is reported only for a press that ends inside the area, a long press only by the timer.\<close>

lemma tt_button_clicked:
  assumes "tt_button_event ctx e b = (Some BtnClicked, ctx', b')"
  shows "\<exists>p. e = Touch (TouchEnd p) \<and> tt_state b = StPressed \<and> contains (touch_area b) p \<and> tt_state b' = StInitial"
  using assms
  by (auto simp: tt_button_event_def tt_set_def Let_def
      split: event.splits touch_event.splits tt_button_state.splits if_splits option.splits prod.splits)

lemma enable_if_eq [simp]: "snd (enable_if ctx en b) = b\<lparr>tt_state := if en then StInitial else StDisabled\<rparr>"
  by (auto simp: enable_if_def tt_enable_def tt_disable_def tt_set_def)

lemma child_mutate_wrapped:
  assumes "child_mutate f ctx ch = (u, ctx', ch')"
  shows "\<exists>ctx1 ctx2. f ctx1 (wrapped ch) = (u, ctx2, wrapped ch')"
  using assms by (auto simp: child_mutate_def Let_def split: prod.splits if_splits) metis+

lemma child_event_wrapped:
  assumes "child_event ev ctx e ch = (m, ctx', ch')"
  shows "\<exists>ctx1 ctx2. ev ctx1 e (wrapped ch) = (m, ctx2, wrapped ch')"
  using child_mutate_wrapped [OF assms [unfolded child_event_def]] by metis

subsection \<open>Parts that the keyboards share\<close>

definition ERASE_HOLD_DURATION :: duration where
  "ERASE_HOLD_DURATION = from_millis 1500"

text \<open>The icons of the theme, by number, and its background colour.\<close>

definition IMAGE_BG_BACK_BTN :: nat where "IMAGE_BG_BACK_BTN = 0"
definition ICON_BACK :: nat where "ICON_BACK = 1"
definition ICON_CANCEL :: nat where "ICON_CANCEL = 2"
definition ICON_CONFIRM :: nat where "ICON_CONFIRM = 3"
definition THEME_BG :: u16 where "THEME_BG = 0"

definition label_event :: "(bytes, unit) handler" where
  "label_event ctx e l = (None, ctx, l)"

definition mutate_enable :: "bool \<Rightarrow> event_ctx \<Rightarrow> tt_button \<Rightarrow> unit \<times> event_ctx \<times> tt_button" where
  "mutate_enable en ctx b = (let (ctx, b) = enable_if ctx en b in ((), ctx, b))"

definition theme_borders :: insets where
  "theme_borders = insets_new 6 6 6 6"

definition BUTTON_SPACING :: int where
  "BUTTON_SPACING = 6"

definition maybe_place :: "(rect \<Rightarrow> 'c \<Rightarrow> rect \<times> 'c) \<Rightarrow> rect \<Rightarrow> 'c maybe \<Rightarrow> rect \<times> 'c maybe" where
  "maybe_place place bounds m =
     (let (r, c) = place bounds (mb_inner m) in
      (r, m\<lparr>mb_inner := c, mb_pad := pad_place r (mb_pad m)\<rparr>))"

definition place_maybe_btn :: "rect \<Rightarrow> tt_button maybe child \<Rightarrow> tt_button maybe child" where
  "place_maybe_btn r ch =
     ch\<lparr>wrapped := snd (maybe_place (\<lambda>a b. (a, tt_button_place a b)) r (wrapped ch))\<rparr>"

lemma child_button_event_keeps:
  assumes "child_event tt_button_event ctx e ch = (m, ctx', ch')"
  shows "tt_content (wrapped ch') = tt_content (wrapped ch)" "tt_is_disabled (wrapped ch') = tt_is_disabled (wrapped ch)"
    "m \<noteq> None \<Longrightarrow> \<not> tt_is_disabled (wrapped ch)"
  using child_event_wrapped [OF assms] by (auto dest: tt_button_event_keeps)

lemma child_maybe_event_keeps:
  assumes "child_event (maybe_event ev) ctx e ch = (m, ctx', ch')"
  shows "mb_visible (wrapped ch') = mb_visible (wrapped ch)" "m \<noteq> None \<Longrightarrow> mb_visible (wrapped ch)"
  using child_event_wrapped [OF assms]
  by (auto simp: maybe_event_def split: if_splits prod.splits dest!: arg_cong [where f = mb_visible])

lemma child_mutate_enable:
  assumes "child_mutate (mutate_enable en) ctx ch = (u, ctx', ch')"
  shows "tt_content (wrapped ch') = tt_content (wrapped ch)" "tt_is_disabled (wrapped ch') \<longleftrightarrow> \<not> en"
proof -
  obtain ctx1 ctx2 where "mutate_enable en ctx1 (wrapped ch) = (u, ctx2, wrapped ch')"
    using child_mutate_wrapped [OF assms] by blast
  then have "wrapped ch' = snd (enable_if ctx1 en (wrapped ch))"
    by (simp add: mutate_enable_def split: prod.splits)
  then show "tt_content (wrapped ch') = tt_content (wrapped ch)" "tt_is_disabled (wrapped ch') \<longleftrightarrow> \<not> en"
    by (simp_all add: tt_is_disabled_def)
qed

subsection \<open>Swipes of the touch model\<close>

text \<open>
  \<^verbatim>\<open>model_tt/component/swipe.rs\<close>.  \<open>ratio(dist) >= THRESHOLD\<close> divides by 120 and compares with 0.3; the
  quotient for 36 pixels is rounded to the very constant, so that the comparison is the one of integers.
\<close>

record tt_swipe =
  ts_area :: rect
  ts_up :: bool
  ts_down :: bool
  ts_left :: bool
  ts_right :: bool
  ts_origin :: "point option"

definition tt_swipe_new :: tt_swipe where
  "tt_swipe_new = \<lparr>ts_area = rect_zero, ts_up = False, ts_down = False, ts_left = False, ts_right = False, ts_origin = None\<rparr>"

definition tt_swipe_up :: "tt_swipe \<Rightarrow> tt_swipe" where "tt_swipe_up s = s\<lparr>ts_up := True\<rparr>"
definition tt_swipe_down :: "tt_swipe \<Rightarrow> tt_swipe" where "tt_swipe_down s = s\<lparr>ts_down := True\<rparr>"
definition tt_swipe_left :: "tt_swipe \<Rightarrow> tt_swipe" where "tt_swipe_left s = s\<lparr>ts_left := True\<rparr>"
definition tt_swipe_right :: "tt_swipe \<Rightarrow> tt_swipe" where "tt_swipe_right s = s\<lparr>ts_right := True\<rparr>"

definition tt_swipe_vertical :: tt_swipe where
  "tt_swipe_vertical = tt_swipe_down (tt_swipe_up tt_swipe_new)"

definition tt_swipe_horizontal :: tt_swipe where
  "tt_swipe_horizontal = tt_swipe_right (tt_swipe_left tt_swipe_new)"

definition tt_swipe_is_active :: "tt_swipe \<Rightarrow> bool" where
  "tt_swipe_is_active s \<longleftrightarrow> ts_up s \<or> ts_down s \<or> ts_left s \<or> ts_right s"

definition tt_swipe_reached :: "int \<Rightarrow> bool" where
  "tt_swipe_reached dist \<longleftrightarrow> 3 * 120 \<le> 10 * dist"

definition tt_swipe_place :: "rect \<Rightarrow> tt_swipe \<Rightarrow> tt_swipe" where
  "tt_swipe_place bounds s = s\<lparr>ts_area := bounds\<rparr>"

definition tt_swipe_result :: "tt_swipe \<Rightarrow> offset \<Rightarrow> swipe_direction option" where
  "tt_swipe_result s ofs =
     (let a = offset_abs ofs in
      if off_x a > off_y a \<and> (ts_left s \<or> ts_right s) then
        (if tt_swipe_reached (off_x a) then
           (if off_x ofs < 0 \<and> ts_left s then Some SwipeLeft
            else if off_x ofs > 0 \<and> ts_right s then Some SwipeRight
            else None)
         else None)
      else if off_x a < off_y a \<and> (ts_up s \<or> ts_down s) then
        (if tt_swipe_reached (off_y a) then
           (if off_y ofs < 0 \<and> ts_up s then Some SwipeUp
            else if off_y ofs > 0 \<and> ts_down s then Some SwipeDown
            else None)
         else None)
      else None)"

definition tt_swipe_event :: "(tt_swipe, swipe_direction) handler" where
  "tt_swipe_event ctx e s =
     (if \<not> tt_swipe_is_active s then (None, ctx, s)
      else case (e, ts_origin s) of
        (Touch (TouchStart p), _) \<Rightarrow>
          if contains (ts_area s) p then (None, ctx, s\<lparr>ts_origin := Some p\<rparr>) else (None, ctx, s)
      | (Touch (TouchEnd p), Some origin) \<Rightarrow>
          (tt_swipe_result s (point_sub p origin), ctx, s\<lparr>ts_origin := None\<rparr>)
      | _ \<Rightarrow> (None, ctx, s))"

end
