(* ===== verification/Pin_Keyboard.thy ===== *)
theory Pin_Keyboard
  imports Text_Entry
begin

section \<open>The PIN keyboard of the touch model\<close>

text \<open>
  \<^verbatim>\<open>model_tt/component/keyboard/pin.rs\<close>: the row of dots that holds the digits, and the keyboard with its
  ten shuffled digit keys, the keys to erase, cancel and confirm, and the warning that disappears after
  two seconds.  Labels are their texts; drawing is left out.
\<close>

subsection \<open>The dots\<close>

definition MAX_LENGTH :: nat where
  "MAX_LENGTH = 50"

record pin_dots =
  dots_area :: rect
  dots_pad :: pad
  pin_digits :: bytes
  display_digits :: bool

definition dots_new :: "u16 \<Rightarrow> pin_dots" where
  "dots_new background =
     \<lparr>dots_area = rect_zero, dots_pad = pad_with_background background, pin_digits = [], display_digits = False\<rparr>"

definition dots_is_empty :: "pin_dots \<Rightarrow> bool" where
  "dots_is_empty d \<longleftrightarrow> pin_digits d = []"

definition dots_is_full :: "pin_dots \<Rightarrow> bool" where
  "dots_is_full d \<longleftrightarrow> MAX_LENGTH \<le> length (pin_digits d)"

definition dots_clear :: "event_ctx \<Rightarrow> pin_dots \<Rightarrow> unit \<times> event_ctx \<times> pin_dots" where
  "dots_clear ctx d = ((), request_paint ctx, d\<lparr>pin_digits := []\<rparr>)"

definition dots_push :: "bytes \<Rightarrow> event_ctx \<Rightarrow> pin_dots \<Rightarrow> unit \<times> event_ctx \<times> pin_dots" where
  "dots_push text ctx d = ((), request_paint ctx, d\<lparr>pin_digits := try_push (pin_digits d) text\<rparr>)"

definition dots_pop :: "event_ctx \<Rightarrow> pin_dots \<Rightarrow> unit \<times> event_ctx \<times> pin_dots" where
  "dots_pop ctx d = (case string_pop (pin_digits d) of
      Some (_, s) \<Rightarrow> ((), request_paint ctx, d\<lparr>pin_digits := s\<rparr>)
    | None \<Rightarrow> ((), ctx, d))"

definition dots_place :: "rect \<Rightarrow> pin_dots \<Rightarrow> pin_dots" where
  "dots_place bounds d = d\<lparr>dots_pad := pad_place bounds (dots_pad d), dots_area := bounds\<rparr>"

definition dots_event :: "(pin_dots, unit) handler" where
  "dots_event ctx e d = (case e of
      Touch (TouchStart p) \<Rightarrow>
        if contains (dots_area d) p
        then (None, request_paint ctx, d\<lparr>display_digits := True, dots_pad := pad_clear_now (dots_pad d)\<rparr>)
        else (None, ctx, d)
    | Touch (TouchEnd _) \<Rightarrow>
        if display_digits d
        then (None, request_paint ctx, d\<lparr>display_digits := False, dots_pad := pad_clear_now (dots_pad d)\<rparr>)
        else (None, ctx, d)
    | _ \<Rightarrow> (None, ctx, d))"

subsection \<open>The keyboard\<close>

datatype pin_keyboard_msg = PinConfirmed | PinCancelled

record pin_keyboard =
  allow_cancel :: bool
  major_prompt :: "bytes child"
  minor_prompt :: "bytes child"
  major_warning :: "bytes child option"
  pin_textbox :: "pin_dots child"
  textbox_pad :: pad
  erase_btn :: "tt_button maybe child"
  cancel_btn :: "tt_button maybe child"
  confirm_btn :: "tt_button child"
  digit_btns :: "tt_button child list"
  warning_timer :: "timer_token option"

definition digit_texts :: "bytes list" where
  "digit_texts = map (\<lambda>d. [d]) [48, 49, 50, 51, 52, 53, 54, 55, 56, 57]"

definition generate_digit_buttons :: "nat list \<Rightarrow> tt_button child list" where
  "generate_digit_buttons js =
     map child_new (map (styled StylePin) (map (\<lambda>c. tt_button_new (ContentText c)) (shuffle_with js digit_texts)))"

definition pin_keyboard_new :: "nat list \<Rightarrow> bytes \<Rightarrow> bytes \<Rightarrow> bytes option \<Rightarrow> bool \<Rightarrow> pin_keyboard" where
  "pin_keyboard_new js major minor warning allow =
     (let erase = initially_enabled False (with_long_press ERASE_HOLD_DURATION
            (styled StyleReset (tt_button_new (ContentIconBlend IMAGE_BG_BACK_BTN ICON_BACK (offset_new 30 12)))));
          cancel = styled StyleCancel (tt_button_new (ContentIcon ICON_CANCEL)) in
      \<lparr>allow_cancel = allow, major_prompt = child_new major, minor_prompt = child_new minor,
       major_warning = map_option child_new warning, pin_textbox = child_new (dots_new THEME_BG),
       textbox_pad = pad_with_background THEME_BG, erase_btn = child_new (maybe_hidden THEME_BG erase),
       cancel_btn = child_new (maybe_new THEME_BG cancel allow),
       confirm_btn = child_new (initially_enabled False (styled StyleConfirm (tt_button_new (ContentIcon ICON_CONFIRM)))),
       digit_btns = generate_digit_buttons js, warning_timer = None\<rparr>)"

definition pin :: "pin_keyboard \<Rightarrow> bytes" where
  "pin k = pin_digits (wrapped (pin_textbox k))"

definition mutate_show :: "bool \<Rightarrow> bool \<Rightarrow> event_ctx \<Rightarrow> tt_button maybe \<Rightarrow> unit \<times> event_ctx \<times> tt_button maybe" where
  "mutate_show visible en ctx m =
     (let (ctx, m) = show_if tt_button_event ctx visible m;
          (ctx, b) = enable_if ctx en (mb_inner m) in
      ((), ctx, m\<lparr>mb_inner := b\<rparr>))"

fun enable_all :: "bool \<Rightarrow> event_ctx \<Rightarrow> tt_button child list \<Rightarrow> event_ctx \<times> tt_button child list" where
  "enable_all en ctx [] = (ctx, [])"
| "enable_all en ctx (b # bs) =
     (let (_, ctx, b) = child_mutate (mutate_enable en) ctx b;
          (ctx, bs) = enable_all en ctx bs in
      (ctx, b # bs))"

definition repaint_prompts :: "event_ctx \<Rightarrow> pin_keyboard \<Rightarrow> event_ctx \<times> pin_keyboard" where
  "repaint_prompts ctx k =
     (let (ctx, l) = request_complete_repaint (child_event label_event) ctx (major_prompt k);
          k = k\<lparr>major_prompt := l\<rparr>;
          (ctx, l) = request_complete_repaint (child_event label_event) ctx (minor_prompt k);
          k = k\<lparr>minor_prompt := l\<rparr>;
          (ctx, w) = request_complete_repaint (option_event (child_event label_event)) ctx (major_warning k) in
      (ctx, k\<lparr>major_warning := w\<rparr>))"

definition pin_modified :: "event_ctx \<Rightarrow> pin_keyboard \<Rightarrow> event_ctx \<times> pin_keyboard" where
  "pin_modified ctx k =
     (let full = dots_is_full (wrapped (pin_textbox k));
          empty = dots_is_empty (wrapped (pin_textbox k));
          k = k\<lparr>textbox_pad := pad_clear_now (textbox_pad k)\<rparr>;
          (ctx, t) = request_complete_repaint (child_event dots_event) ctx (pin_textbox k);
          k = k\<lparr>pin_textbox := t\<rparr>;
          (ctx, k) = (if empty then repaint_prompts ctx k else (ctx, k));
          cancel_enabled = (empty \<and> allow_cancel k);
          (ctx, bs) = enable_all (\<not> full) ctx (digit_btns k);
          k = k\<lparr>digit_btns := bs\<rparr>;
          (_, ctx, b) = child_mutate (mutate_show (\<not> empty) (\<not> empty)) ctx (erase_btn k);
          k = k\<lparr>erase_btn := b\<rparr>;
          (_, ctx, b) = child_mutate (mutate_show cancel_enabled empty) ctx (cancel_btn k);
          k = k\<lparr>cancel_btn := b\<rparr>;
          (_, ctx, b) = child_mutate (mutate_enable (\<not> empty)) ctx (confirm_btn k) in
      (ctx, k\<lparr>confirm_btn := b\<rparr>))"

text \<open>The loop over the digit keys stops at the first one that is clicked.\<close>

fun digits_event ::
  "event_ctx \<Rightarrow> event \<Rightarrow> tt_button child list \<Rightarrow> bytes option \<times> event_ctx \<times> tt_button child list" where
  "digits_event ctx e [] = (None, ctx, [])"
| "digits_event ctx e (b # bs) =
     (let (m, ctx, b) = child_event tt_button_event ctx e b in
      case (m, tt_content (wrapped b)) of
        (Some BtnClicked, ContentText text) \<Rightarrow> (Some text, ctx, b # bs)
      | _ \<Rightarrow> (let (r, ctx, bs) = digits_event ctx e bs in (r, ctx, b # bs)))"

definition warning_event :: "event_ctx \<Rightarrow> event \<Rightarrow> pin_keyboard \<Rightarrow> event_ctx \<times> pin_keyboard" where
  "warning_event ctx e k = (case e of
      Attach _ \<Rightarrow>
        if major_warning k \<noteq> None then
          let (t, ctx) = request_timer (from_secs 2) ctx in (ctx, k\<lparr>warning_timer := Some t\<rparr>)
        else (ctx, k)
    | Timer token \<Rightarrow>
        if Some token = warning_timer k then
          let k = k\<lparr>major_warning := None, textbox_pad := pad_clear_now (textbox_pad k)\<rparr>;
              (ctx, l) = request_complete_repaint (child_event label_event) ctx (minor_prompt k) in
          (request_paint ctx, k\<lparr>minor_prompt := l\<rparr>)
        else (ctx, k)
    | _ \<Rightarrow> (ctx, k))"

definition pin_edit ::
  "(event_ctx \<Rightarrow> pin_dots \<Rightarrow> unit \<times> event_ctx \<times> pin_dots) \<Rightarrow> event_ctx \<Rightarrow> pin_keyboard \<Rightarrow> event_ctx \<times> pin_keyboard" where
  "pin_edit f ctx k =
     (let (_, ctx, t) = child_mutate f ctx (pin_textbox k) in pin_modified ctx (k\<lparr>pin_textbox := t\<rparr>))"

definition pin_event :: "(pin_keyboard, pin_keyboard_msg) handler" where
  "pin_event ctx e k =
     (let (ctx, k) = warning_event ctx e k;
          (_, ctx, t) = child_event dots_event ctx e (pin_textbox k);
          k = k\<lparr>pin_textbox := t\<rparr>;
          (m, ctx, b) = child_event tt_button_event ctx e (confirm_btn k);
          k = k\<lparr>confirm_btn := b\<rparr> in
      if m = Some BtnClicked then (Some PinConfirmed, ctx, k)
      else
        let (m, ctx, b) = child_event (maybe_event tt_button_event) ctx e (cancel_btn k);
            k = k\<lparr>cancel_btn := b\<rparr> in
        if m = Some BtnClicked then (Some PinCancelled, ctx, k)
        else
          let (m, ctx, b) = child_event (maybe_event tt_button_event) ctx e (erase_btn k);
              k = k\<lparr>erase_btn := b\<rparr> in
          if m = Some BtnClicked then let (ctx, k) = pin_edit dots_pop ctx k in (None, ctx, k)
          else if m = Some BtnLongPressed then let (ctx, k) = pin_edit dots_clear ctx k in (None, ctx, k)
          else
            let (r, ctx, bs) = digits_event ctx e (digit_btns k);
                k = k\<lparr>digit_btns := bs\<rparr> in
            case r of
              Some text \<Rightarrow> (let (ctx, k) = pin_edit (dots_push text) ctx k in (None, ctx, k))
            | None \<Rightarrow> (None, ctx, k))"

text \<open>Placing: the header above, the keys in a grid of four rows below.  Labels have no area here.\<close>

definition PIN_BUTTON_HEIGHT :: int where
  "PIN_BUTTON_HEIGHT = 40"

fun place_digits :: "grid \<Rightarrow> nat \<Rightarrow> tt_button child list \<Rightarrow> (tt_button child list, 'e) result" where
  "place_digits g i [] = Inr []"
| "place_digits g i (b # bs) =
     rbind (cell g (if i < 9 then i else i + 1)) (\<lambda>r.
     rbind (place_digits g (i + 1) bs) (\<lambda>bs.
     Inr (b\<lparr>wrapped := tt_button_place r (wrapped b)\<rparr> # bs)))"

definition pin_place :: "rect \<Rightarrow> pin_keyboard \<Rightarrow> (pin_keyboard, 'e) result" where
  "pin_place bounds k =
     (let borders_no_top = theme_borders\<lparr>in_top := 0\<rparr>;
          (header, keypad) = split_bottom (inset bounds borders_no_top) (4 * PIN_BUTTON_HEIGHT + 3 * BUTTON_SPACING);
          g = grid_with_spacing (grid_new keypad 4 3) BUTTON_SPACING;
          k = k\<lparr>textbox_pad := pad_place header (textbox_pad k),
                pin_textbox := (pin_textbox k)\<lparr>wrapped := dots_place header (wrapped (pin_textbox k))\<rparr>\<rparr> in
      rbind (row_col g 3 0) (\<lambda>erase_cancel_area.
      rbind (row_col g 3 2) (\<lambda>confirm_area.
      rbind (place_digits g 0 (digit_btns k)) (\<lambda>bs.
      Inr (k\<lparr>erase_btn := place_maybe_btn erase_cancel_area (erase_btn k),
            cancel_btn := place_maybe_btn erase_cancel_area (cancel_btn k),
            confirm_btn := (confirm_btn k)\<lparr>wrapped := tt_button_place confirm_area (wrapped (confirm_btn k))\<rparr>,
            digit_btns := bs\<rparr>)))))"

subsection \<open>The state of the keys follows the PIN\<close>

definition is_digit :: "u8 \<Rightarrow> bool" where
  "is_digit d \<longleftrightarrow> 48 \<le> d \<and> d \<le> 57"

definition digit_key :: "bool \<Rightarrow> tt_button child \<Rightarrow> bool" where
  "digit_key full b \<longleftrightarrow> (\<exists>d. tt_content (wrapped b) = ContentText [d] \<and> is_digit d) \<and> tt_is_disabled (wrapped b) = full"

definition pin_inv :: "pin_keyboard \<Rightarrow> bool" where
  "pin_inv k \<longleftrightarrow> length (pin k) \<le> MAX_LENGTH \<and> (\<forall>d\<in>set (pin k). is_digit d) \<and>
     (\<forall>b\<in>set (digit_btns k). digit_key (MAX_LENGTH \<le> length (pin k)) b) \<and>
     tt_is_disabled (wrapped (confirm_btn k)) = (pin k = []) \<and>
     mb_visible (wrapped (erase_btn k)) = (pin k \<noteq> []) \<and>
     mb_visible (wrapped (cancel_btn k)) = (pin k = [] \<and> allow_cancel k)"

text \<open>The parts of the keyboard on which the invariant rests.\<close>

definition same_keys :: "pin_keyboard \<Rightarrow> pin_keyboard \<Rightarrow> bool" where
  "same_keys k k' \<longleftrightarrow> allow_cancel k' = allow_cancel k \<and>
     map (\<lambda>b. (tt_content (wrapped b), tt_is_disabled (wrapped b))) (digit_btns k') =
       map (\<lambda>b. (tt_content (wrapped b), tt_is_disabled (wrapped b))) (digit_btns k) \<and>
     tt_is_disabled (wrapped (confirm_btn k')) = tt_is_disabled (wrapped (confirm_btn k)) \<and>
     mb_visible (wrapped (erase_btn k')) = mb_visible (wrapped (erase_btn k)) \<and>
     mb_visible (wrapped (cancel_btn k')) = mb_visible (wrapped (cancel_btn k))"

lemma same_keys_digits:
  assumes "same_keys k k'" "\<forall>b\<in>set (digit_btns k). digit_key full b"
  shows "\<forall>b\<in>set (digit_btns k'). digit_key full b"
proof
  let ?f = "\<lambda>b. (tt_content (wrapped b), tt_is_disabled (wrapped b))"
  fix b' assume "b' \<in> set (digit_btns k')"
  then have "?f b' \<in> ?f ` set (digit_btns k')"
    by blast
  also have "?f ` set (digit_btns k') = ?f ` set (digit_btns k)"
    using assms(1) unfolding same_keys_def set_map [symmetric] by (simp only:)
  finally obtain b where "b \<in> set (digit_btns k)" "?f b' = ?f b"
    by auto
  then show "digit_key full b'"
    using assms(2) by (simp add: digit_key_def)
qed

lemma same_keys_inv: "same_keys k k' \<Longrightarrow> pin k' = pin k \<Longrightarrow> pin_inv k \<Longrightarrow> pin_inv k'"
  using same_keys_digits [of k k'] by (simp add: pin_inv_def same_keys_def)

lemma same_keys_refl [simp]: "same_keys k k"
  by (simp add: same_keys_def)

lemma same_keys_trans: "same_keys a b \<Longrightarrow> same_keys b c \<Longrightarrow> same_keys a c"
  by (simp add: same_keys_def)

lemma dots_event_pin: "dots_event ctx e d = (m, ctx', d') \<Longrightarrow> pin_digits d' = pin_digits d"
  by (auto simp: dots_event_def split: event.splits touch_event.splits if_splits)

lemma child_dots_event_pin:
  "child_event dots_event ctx e ch = (m, ctx', ch') \<Longrightarrow> pin_digits (wrapped ch') = pin_digits (wrapped ch)"
  by (drule child_event_wrapped) (auto dest: dots_event_pin)

lemma digits_event_keeps:
  "digits_event ctx e bs = (r, ctx', bs') \<Longrightarrow>
     map (\<lambda>b. (tt_content (wrapped b), tt_is_disabled (wrapped b))) bs' =
     map (\<lambda>b. (tt_content (wrapped b), tt_is_disabled (wrapped b))) bs"
  "digits_event ctx e bs = (Some t, ctx', bs') \<Longrightarrow>
     \<exists>b\<in>set bs. tt_content (wrapped b) = ContentText t \<and> \<not> tt_is_disabled (wrapped b)"
proof (induction bs arbitrary: ctx r bs' ctx')
  case (Cons b bs)
  { case 1
    then show ?case
      using Cons.IH(1) child_button_event_keeps(1,2)
      by (fastforce split: prod.splits option.splits tt_button_msg.splits button_content.splits)
  next
    case 2
    then show ?case
      using Cons.IH(2) child_button_event_keeps
      by (fastforce split: prod.splits option.splits tt_button_msg.splits button_content.splits)
  }
qed simp_all

lemma child_mutate_show:
  assumes "child_mutate (mutate_show visible en) ctx ch = (u, ctx', ch')"
  shows "mb_visible (wrapped ch') = visible"
proof -
  obtain ctx1 ctx2 where "mutate_show visible en ctx1 (wrapped ch) = (u, ctx2, wrapped ch')"
    using child_mutate_wrapped [OF assms] by blast
  then show ?thesis
    by (auto simp: mutate_show_def show_if_def Let_def split: prod.splits if_splits dest!: arg_cong [where f = mb_visible])
qed

lemma enable_all_keys:
  "enable_all en ctx bs = (ctx', bs') \<Longrightarrow> \<forall>b\<in>set bs. digit_key full b \<Longrightarrow> \<forall>b\<in>set bs'. digit_key (\<not> en) b"
proof (induction bs arbitrary: ctx ctx' bs')
  case (Cons b bs)
  obtain u ctx1 b1 ctx2 bs1 where s: "child_mutate (mutate_enable en) ctx b = (u, ctx1, b1)" "enable_all en ctx1 bs = (ctx2, bs1)"
    by (metis prod_cases3 surj_pair)
  have "\<forall>b\<in>set bs1. digit_key (\<not> en) b"
    using Cons.IH [OF s(2)] Cons.prems(2) by simp
  moreover have "digit_key (\<not> en) b1"
    using Cons.prems(2) child_mutate_enable [OF s(1)] by (simp add: digit_key_def)
  moreover have "bs' = b1 # bs1"
    using Cons.prems(1) s by simp
  ultimately show ?case
    by simp
qed simp

lemma repaint_prompts_keeps:
  assumes "repaint_prompts ctx k = (ctx', k')"
  shows "same_keys k k' \<and> pin_textbox k' = pin_textbox k \<and> digit_btns k' = digit_btns k"
proof -
  have "\<exists>a b c. k' = k\<lparr>major_prompt := a, minor_prompt := b, major_warning := c\<rparr>"
    using assms unfolding repaint_prompts_def Let_def split_beta by (simp only: prod.inject) blast
  then show ?thesis
    by (auto simp: same_keys_def)
qed

lemma repaint_dots_pin:
  "request_complete_repaint (child_event dots_event) ctx t = (ctx', t') \<Longrightarrow>
   pin_digits (wrapped t') = pin_digits (wrapped t)"
  by (auto simp: request_complete_repaint_def split: prod.splits dest: child_dots_event_pin)

lemma pin_modified_inv:
  assumes "pin_modified ctx k = (ctx', k')" "length (pin k) \<le> MAX_LENGTH" "\<forall>d\<in>set (pin k). is_digit d"
    and "\<forall>b\<in>set (digit_btns k). digit_key full b"
  shows "pin_inv k' \<and> pin k' = pin k \<and> allow_cancel k' = allow_cancel k"
proof -
  let ?full = "MAX_LENGTH \<le> length (pin k)" and ?k0 = "k\<lparr>textbox_pad := pad_clear_now (textbox_pad k)\<rparr>"
  obtain ctx1 t where t: "request_complete_repaint (child_event dots_event) ctx (pin_textbox k) = (ctx1, t)"
    by (metis surj_pair)
  obtain ctx2 k2 where k2: "(if pin k = [] then repaint_prompts ctx1 (?k0\<lparr>pin_textbox := t\<rparr>)
      else (ctx1, ?k0\<lparr>pin_textbox := t\<rparr>)) = (ctx2, k2)"
    by (metis surj_pair)
  obtain ctx3 bs where bs: "enable_all (\<not> ?full) ctx2 (digit_btns k2) = (ctx3, bs)"
    by (metis surj_pair)
  obtain u4 ctx4 eb where eb: "child_mutate (mutate_show (pin k \<noteq> []) (pin k \<noteq> [])) ctx3 (erase_btn k2) = (u4, ctx4, eb)"
    by (metis prod_cases3)
  obtain u5 ctx5 cb where cb: "child_mutate (mutate_show (pin k = [] \<and> allow_cancel k2) (pin k = [])) ctx4 (cancel_btn k2) = (u5, ctx5, cb)"
    by (metis prod_cases3)
  obtain u6 ctx6 ob where ob: "child_mutate (mutate_enable (pin k \<noteq> [])) ctx5 (confirm_btn k2) = (u6, ctx6, ob)"
    by (metis prod_cases3)
  have k': "k' = k2\<lparr>digit_btns := bs, erase_btn := eb, cancel_btn := cb, confirm_btn := ob\<rparr>"
    using assms(1) t k2 bs eb cb ob
    by (simp add: pin_modified_def Let_def dots_is_full_def dots_is_empty_def pin_def [symmetric])
  have k2': "pin k2 = pin k" "allow_cancel k2 = allow_cancel k" "digit_btns k2 = digit_btns k"
    using k2 repaint_prompts_keeps [of ctx1 "?k0\<lparr>pin_textbox := t\<rparr>" ctx2 k2] repaint_dots_pin [OF t]
    by (auto simp: pin_def same_keys_def split: if_splits)
  have "\<forall>b\<in>set bs. digit_key ?full b"
    using enable_all_keys [OF bs] assms(4) k2'(3) by simp
  then show ?thesis
    using k' k2' assms(2,3) child_mutate_show [OF eb] child_mutate_show [OF cb] child_mutate_enable [OF ob]
    by (simp add: pin_inv_def pin_def)
qed

lemma pin_edit_inv:
  assumes "pin_edit f ctx k = (ctx', k')" and f: "\<And>ctx d. pin_digits (snd (snd (f ctx d))) = g (pin_digits d)"
    and "length (g (pin k)) \<le> MAX_LENGTH" "\<forall>d\<in>set (g (pin k)). is_digit d"
    and "\<forall>b\<in>set (digit_btns k). digit_key full b"
  shows "pin_inv k' \<and> pin k' = g (pin k) \<and> allow_cancel k' = allow_cancel k"
proof -
  obtain u ctx1 t where t: "child_mutate f ctx (pin_textbox k) = (u, ctx1, t)"
    by (metis prod_cases3)
  obtain c1 c2 where "f c1 (wrapped (pin_textbox k)) = (u, c2, wrapped t)"
    using child_mutate_wrapped [OF t] by blast
  then have "pin_digits (wrapped t) = g (pin k)"
    using f [of c1 "wrapped (pin_textbox k)"] by (simp add: pin_def)
  then have "pin (k\<lparr>pin_textbox := t\<rparr>) = g (pin k)"
    by (simp add: pin_def)
  moreover have "pin_modified ctx1 (k\<lparr>pin_textbox := t\<rparr>) = (ctx', k')"
    using assms(1) t by (simp add: pin_edit_def)
  ultimately show ?thesis
    using pin_modified_inv [of ctx1 "k\<lparr>pin_textbox := t\<rparr>" ctx' k' full] assms(3-5) by simp
qed

lemma warning_event_keeps:
  assumes "warning_event ctx e k = (ctx', k')"
  shows "same_keys k k' \<and> pin k' = pin k \<and> digit_btns k' = digit_btns k \<and> confirm_btn k' = confirm_btn k \<and>
    cancel_btn k' = cancel_btn k \<and> erase_btn k' = erase_btn k"
  using assms by (auto simp: warning_event_def Let_def same_keys_def pin_def split: event.splits if_splits prod.splits)

lemma digit_not_cont: "is_digit d \<Longrightarrow> \<not> cont d"
  by (auto simp: is_digit_def cont_def word_le_nat_alt)

lemma pop_digits:
  assumes "\<forall>d\<in>set s. is_digit d"
  shows "(case string_pop s of Some (_, r) \<Rightarrow> r | None \<Rightarrow> s) = butlast s"
proof (cases s rule: rev_cases)
  case (snoc r d)
  then have "is_char [d]"
    using assms digit_not_cont by (auto simp: is_char_def)
  then show ?thesis
    using snoc string_pop_push [of "[d]" r] by simp
qed simp

lemma dots_edit:
  "pin_digits (snd (snd (dots_pop ctx d))) = (case string_pop (pin_digits d) of Some (_, r) \<Rightarrow> r | None \<Rightarrow> pin_digits d)"
  "pin_digits (snd (snd (dots_clear ctx d))) = []"
  "pin_digits (snd (snd (dots_push t ctx d))) = try_push (pin_digits d) t"
  by (simp_all add: dots_pop_def dots_clear_def dots_push_def split: option.splits)

text \<open>What an event may do to the PIN.\<close>

definition pin_step :: "pin_keyboard_msg option \<Rightarrow> pin_keyboard \<Rightarrow> pin_keyboard \<Rightarrow> bool" where
  "pin_step m k k' \<longleftrightarrow> (case m of
      Some PinConfirmed \<Rightarrow> pin k' = pin k \<and> pin k \<noteq> []
    | Some PinCancelled \<Rightarrow> pin k' = [] \<and> pin k = [] \<and> allow_cancel k
    | None \<Rightarrow> pin k' = pin k \<or> (\<exists>d. is_digit d \<and> pin k' = pin k @ [d]) \<or>
        pin k \<noteq> [] \<and> (pin k' = butlast (pin k) \<or> pin k' = []))"

lemma pin_event_step:
  assumes "pin_event ctx e k = (m, ctx', k')" "pin_inv k"
  shows "pin_inv k' \<and> pin_step m k k' \<and> allow_cancel k' = allow_cancel k"
proof -
  obtain ctx1 k1 where 1: "warning_event ctx e k = (ctx1, k1)"
    by (metis surj_pair)
  obtain u ctx2 t where 2: "child_event dots_event ctx1 e (pin_textbox k1) = (u, ctx2, t)"
    by (metis prod_cases3)
  obtain mo ctx3 ob where 3: "child_event tt_button_event ctx2 e (confirm_btn k1) = (mo, ctx3, ob)"
    by (metis prod_cases3)
  obtain mc ctx4 cb where 4: "child_event (maybe_event tt_button_event) ctx3 e (cancel_btn k1) = (mc, ctx4, cb)"
    by (metis prod_cases3)
  obtain me ctx5 eb where 5: "child_event (maybe_event tt_button_event) ctx4 e (erase_btn k1) = (me, ctx5, eb)"
    by (metis prod_cases3)
  obtain r ctx6 bs where 6: "digits_event ctx5 e (digit_btns k1) = (r, ctx6, bs)"
    by (metis prod_cases3)
  define ka where "ka = k1\<lparr>pin_textbox := t, confirm_btn := ob\<rparr>"
  define kb where "kb = ka\<lparr>cancel_btn := cb\<rparr>"
  define kc where "kc = kb\<lparr>erase_btn := eb\<rparr>"
  define kd where "kd = kc\<lparr>digit_btns := bs\<rparr>"
  note kdefs = ka_def kb_def kc_def kd_def
  have k1: "same_keys k k1" "pin k1 = pin k"
    using warning_event_keeps [OF 1] by simp_all
  have sa: "same_keys k ka" and sb: "same_keys k kb" and sc: "same_keys k kc" and sd: "same_keys k kd"
    using k1 child_button_event_keeps [OF 3] child_maybe_event_keeps(1) [OF 4] child_maybe_event_keeps(1) [OF 5]
      digits_event_keeps(1) [OF 6] by (simp_all add: same_keys_def kdefs)
  have pin: "pin ka = pin k" "pin kb = pin k" "pin kc = pin k" "pin kd = pin k"
    using k1(2) child_dots_event_pin [OF 2] by (simp_all add: pin_def kdefs)
  note stay = same_keys_inv [OF sa pin(1) assms(2)] same_keys_inv [OF sb pin(2) assms(2)] same_keys_inv [OF sd pin(4) assms(2)]
  have inv: "length (pin k) \<le> MAX_LENGTH" "\<forall>d\<in>set (pin k). is_digit d"
      "\<forall>b\<in>set (digit_btns k). digit_key (MAX_LENGTH \<le> length (pin k)) b"
    using assms(2) by (simp_all add: pin_inv_def)
  have allow: "allow_cancel ka = allow_cancel k" "allow_cancel kb = allow_cancel k" "allow_cancel kc = allow_cancel k"
      "allow_cancel kd = allow_cancel k"
    using sa sb sc sd unfolding same_keys_def by blast+
  have ev: "pin_event ctx e k =
      (if mo = Some BtnClicked then (Some PinConfirmed, ctx3, ka)
       else if mc = Some BtnClicked then (Some PinCancelled, ctx4, kb)
       else if me = Some BtnClicked then let (c, k) = pin_edit dots_pop ctx5 kc in (None, c, k)
       else if me = Some BtnLongPressed then let (c, k) = pin_edit dots_clear ctx5 kc in (None, c, k)
       else case r of Some tx \<Rightarrow> (let (c, k) = pin_edit (dots_push tx) ctx6 kd in (None, c, k)) | None \<Rightarrow> (None, ctx6, kd))"
    by (simp add: pin_event_def Let_def 1 2 3 4 5 6 kdefs cong: option.case_cong)
  consider (confirm) "mo = Some BtnClicked" "m = Some PinConfirmed" "k' = ka"
    | (cancel) "mc = Some BtnClicked" "m = Some PinCancelled" "k' = kb"
    | (pop) ctx7 where "me = Some BtnClicked" "m = None" "pin_edit dots_pop ctx5 kc = (ctx7, k')"
    | (clear) ctx7 where "me = Some BtnLongPressed" "m = None" "pin_edit dots_clear ctx5 kc = (ctx7, k')"
    | (digit) tx ctx7 where "r = Some tx" "m = None" "pin_edit (dots_push tx) ctx6 kd = (ctx7, k')"
    | (none) "m = None" "k' = kd"
    using assms(1) [unfolded ev] by (simp split: if_split_asm option.split_asm prod.split_asm)
  then show ?thesis
  proof cases
    case confirm
    then show ?thesis
      using stay(1) pin(1) allow(1) assms(2) child_button_event_keeps(3) [OF 3] warning_event_keeps [OF 1]
      by (simp add: pin_step_def pin_inv_def)
  next
    case cancel
    then show ?thesis
      using stay(2) pin(2) allow(2) assms(2) child_maybe_event_keeps(2) [OF 4] warning_event_keeps [OF 1]
      by (simp add: pin_step_def pin_inv_def)
  next
    case pop
    have ne: "pin k \<noteq> []"
      using pop(1) assms(2) child_maybe_event_keeps(2) [OF 5] warning_event_keeps [OF 1] by (simp add: pin_inv_def)
    have "pin_inv k' \<and> pin k' = butlast (pin k) \<and> allow_cancel k' = allow_cancel k"
      using pin_edit_inv [OF pop(3) dots_edit(1) _ _ same_keys_digits [OF sc inv(3)], unfolded pin(3) pop_digits [OF inv(2)]]
        inv(1,2) allow(3) in_set_butlastD [of _ "pin k"] by simp
    then show ?thesis
      using pop(2) ne by (simp add: pin_step_def)
  next
    case clear
    have ne: "pin k \<noteq> []"
      using clear(1) assms(2) child_maybe_event_keeps(2) [OF 5] warning_event_keeps [OF 1] by (simp add: pin_inv_def)
    have "pin_inv k' \<and> pin k' = [] \<and> allow_cancel k' = allow_cancel k"
      using pin_edit_inv [OF clear(3) dots_edit(2) _ _ same_keys_digits [OF sc inv(3)]] allow(3) by simp
    then show ?thesis
      using clear(2) ne by (simp add: pin_step_def)
  next
    case digit
    obtain b where b: "b \<in> set (digit_btns k)" "tt_content (wrapped b) = ContentText tx" "\<not> tt_is_disabled (wrapped b)"
      using digits_event_keeps(2) [OF 6 [unfolded digit(1)]] warning_event_keeps [OF 1] by auto
    then have "digit_key (MAX_LENGTH \<le> length (pin k)) b"
      using inv(3) by blast
    then obtain d where d: "tx = [d]" "is_digit d" and room: "length (pin k) < MAX_LENGTH"
      using b by (auto simp: digit_key_def)
    have push: "try_push (pin k) tx = pin k @ [d]"
      using room d(1) by (simp add: try_push_def push_str_def MAX_LENGTH_def SHORT_CAPACITY_def)
    have "pin_inv k' \<and> pin k' = pin k @ [d] \<and> allow_cancel k' = allow_cancel k"
      using pin_edit_inv [OF digit(3) dots_edit(3) _ _ same_keys_digits [OF sd inv(3)]] push inv(2) room d pin(4) allow(4) by simp
    then show ?thesis
      using digit(2) d(2) by (auto simp: pin_step_def)
  next
    case none
    then show ?thesis
      using stay(3) pin(4) allow(4) by (simp add: pin_step_def)
  qed
qed

subsection \<open>The keyboard in use\<close>

text \<open>The keyboards that can be reached from a new one by placing it and by events.\<close>

inductive pin_reachable :: "bool \<Rightarrow> pin_keyboard \<Rightarrow> bool" for allow where
  pin_start: "draws 9 js \<Longrightarrow> pin_reachable allow (pin_keyboard_new js major minor warning allow)"
| pin_placed: "pin_reachable allow k \<Longrightarrow> pin_place bounds k = (Inr k' :: (_, unit) result) \<Longrightarrow> pin_reachable allow k'"
| pin_handled: "pin_reachable allow k \<Longrightarrow> pin_event ctx e k = (m, ctx', k') \<Longrightarrow> pin_reachable allow k'"

lemma digit_texts_digit: "t \<in> set digit_texts \<Longrightarrow> \<exists>d. t = [d] \<and> is_digit d"
  by (auto simp: digit_texts_def is_digit_def)

lemma shuffled_digits:
  assumes "draws 9 js"
  shows "mset (shuffle_with js digit_texts) = mset digit_texts"
proof -
  have "length digit_texts = 10"
    by (simp add: digit_texts_def)
  then show ?thesis
    using mset_shuffle_loop [of 9 js digit_texts] assms by (simp add: shuffle_with_def)
qed

lemma pin_new_inv: "draws 9 js \<Longrightarrow> pin_inv (pin_keyboard_new js major minor warning allow)"
proof -
  assume "draws 9 js"
  then have "set (shuffle_with js digit_texts) = set digit_texts"
    using shuffled_digits mset_eq_setD by blast
  then have "digit_key False b" if "b \<in> set (generate_digit_buttons js)" for b
    using that digit_texts_digit
    by (auto simp: generate_digit_buttons_def digit_key_def child_new_def tt_button_new_def styled_def tt_is_disabled_def)
  then show ?thesis
    by (simp add: pin_inv_def pin_keyboard_new_def Let_def pin_def child_new_def dots_new_def MAX_LENGTH_def
        initially_enabled_def tt_is_disabled_def maybe_hidden_def maybe_new_def tt_button_new_def styled_def)
qed

lemma place_digits_keeps:
  "place_digits g i bs = Inr bs' \<Longrightarrow>
     map (\<lambda>b. (tt_content (wrapped b), tt_is_disabled (wrapped b))) bs' =
     map (\<lambda>b. (tt_content (wrapped b), tt_is_disabled (wrapped b))) bs"
proof (induction bs arbitrary: i bs')
  case (Cons b bs)
  then show ?case
    by (clarsimp simp: result_simps) (simp add: tt_button_place_def tt_is_disabled_def)
qed simp

lemma pin_place_keeps:
  assumes "pin_place bounds k = Inr k'"
  shows "same_keys k k' \<and> pin k' = pin k"
proof -
  obtain a h g ea ca bs where
    "place_digits g 0 (digit_btns k) = (Inr bs :: (_, 'a) result)"
    "k' = k\<lparr>textbox_pad := a, pin_textbox := (pin_textbox k)\<lparr>wrapped := dots_place h (wrapped (pin_textbox k))\<rparr>,
       erase_btn := place_maybe_btn ea (erase_btn k), cancel_btn := place_maybe_btn ea (cancel_btn k),
       confirm_btn := (confirm_btn k)\<lparr>wrapped := tt_button_place ca (wrapped (confirm_btn k))\<rparr>, digit_btns := bs\<rparr>"
    using assms by (auto simp: pin_place_def Let_def result_simps split: prod.splits)
  then show ?thesis
    using place_digits_keeps [of g 0 "digit_btns k" bs]
    by (simp add: same_keys_def pin_def dots_place_def place_maybe_btn_def maybe_place_def tt_button_place_def tt_is_disabled_def)
qed

lemma pin_reachable_inv: "pin_reachable allow k \<Longrightarrow> pin_inv k \<and> allow_cancel k = allow"
proof (induction rule: pin_reachable.induct)
  case (pin_start js major minor warning)
  then show ?case
    by (simp add: pin_new_inv) (simp add: pin_keyboard_new_def Let_def)
next
  case (pin_placed k bounds k')
  then show ?case
    using same_keys_inv pin_place_keeps by (metis same_keys_def)
next
  case (pin_handled k ctx e m ctx' k')
  then show ?case
    using pin_event_step by blast
qed

text \<open>A touch ends on a digit key while no other key is pressed.\<close>

definition key_pressed :: "pin_keyboard \<Rightarrow> nat \<Rightarrow> bool" where
  "key_pressed k i \<longleftrightarrow> i < length (digit_btns k) \<and>
     (\<forall>j<length (digit_btns k). tt_state (wrapped (digit_btns k ! j)) = StPressed \<longleftrightarrow> j = i) \<and>
     tt_state (wrapped (confirm_btn k)) \<noteq> StPressed \<and> tt_state (mb_inner (wrapped (cancel_btn k))) \<noteq> StPressed \<and>
     tt_state (mb_inner (wrapped (erase_btn k))) \<noteq> StPressed"

lemma touch_end_not_pressed:
  "tt_state b \<noteq> StPressed \<Longrightarrow> tt_button_event ctx (Touch (TouchEnd p)) b = (m, ctx', b') \<Longrightarrow> m = None"
  by (auto simp: tt_button_event_def tt_set_def Let_def split: if_splits)

lemma touch_end_pressed:
  "tt_state b = StPressed \<Longrightarrow> contains (touch_area b) p \<Longrightarrow>
   tt_button_event ctx (Touch (TouchEnd p)) b = (m, ctx', b') \<Longrightarrow> m = Some BtnClicked"
  by (auto simp: tt_button_event_def tt_set_def Let_def split: if_splits)

lemma digits_event_pressed:
  assumes "i < length bs" "tt_state (wrapped (bs ! i)) = StPressed" "\<forall>j<i. tt_state (wrapped (bs ! j)) \<noteq> StPressed"
    and "contains (touch_area (wrapped (bs ! i))) p" "tt_content (wrapped (bs ! i)) = ContentText t"
  shows "fst (digits_event ctx (Touch (TouchEnd p)) bs) = Some t"
  using assms
proof (induction bs arbitrary: i ctx)
  case (Cons b bs)
  obtain m ctx1 b1 where b1: "child_event tt_button_event ctx (Touch (TouchEnd p)) b = (m, ctx1, b1)"
    by (metis prod_cases3)
  obtain c1 c2 where ev: "tt_button_event c1 (Touch (TouchEnd p)) (wrapped b) = (m, c2, wrapped b1)"
    using child_event_wrapped [OF b1] by blast
  show ?case
  proof (cases i)
    case 0
    then show ?thesis
      using Cons.prems b1 touch_end_pressed [OF _ _ ev] child_button_event_keeps(1) [OF b1] by simp
  next
    case (Suc j)
    have "m = None"
      using Cons.prems(3) Suc touch_end_not_pressed [OF _ ev] by auto
    moreover have "fst (digits_event ctx1 (Touch (TouchEnd p)) bs) = Some t"
      using Cons.prems Suc by (intro Cons.IH [of j]) auto
    ultimately show ?thesis
      using b1 by (simp add: split_beta)
  qed
qed simp

lemma pin_event_digit:
  assumes "pin_event ctx (Touch (TouchEnd p)) k = (m, ctx', k')" "pin_inv k" "key_pressed k i"
    and "contains (touch_area (wrapped (digit_btns k ! i))) p" "tt_content (wrapped (digit_btns k ! i)) = ContentText [d]"
  shows "pin k' = pin k @ [d]"
proof -
  let ?e = "Touch (TouchEnd p)"
  obtain u ctx2 t where 2: "child_event dots_event ctx ?e (pin_textbox k) = (u, ctx2, t)"
    by (metis prod_cases3)
  obtain mo ctx3 ob where 3: "child_event tt_button_event ctx2 ?e (confirm_btn k) = (mo, ctx3, ob)"
    by (metis prod_cases3)
  obtain mc ctx4 cb where 4: "child_event (maybe_event tt_button_event) ctx3 ?e (cancel_btn k) = (mc, ctx4, cb)"
    by (metis prod_cases3)
  obtain me ctx5 eb where 5: "child_event (maybe_event tt_button_event) ctx4 ?e (erase_btn k) = (me, ctx5, eb)"
    by (metis prod_cases3)
  obtain ctx6 bs where 6: "digits_event ctx5 ?e (digit_btns k) = (Some [d], ctx6, bs)"
    using digits_event_pressed [of i "digit_btns k" p "[d]" ctx5] assms(3-5) by (auto simp: key_pressed_def prod_eq_iff)
  have none: "mo = None" "mc = None" "me = None"
    using child_event_wrapped [OF 3] child_event_wrapped [OF 4] child_event_wrapped [OF 5] assms(3)
    by (auto simp: key_pressed_def maybe_event_def split: if_splits prod.splits dest: touch_end_not_pressed)
  let ?k = "k\<lparr>pin_textbox := t, confirm_btn := ob, cancel_btn := cb, erase_btn := eb, digit_btns := bs\<rparr>"
  obtain ctx7 where e: "pin_edit (dots_push [d]) ctx6 ?k = (ctx7, k')"
    using assms(1) by (auto simp: pin_event_def warning_event_def Let_def 2 3 4 5 6 none split: prod.splits)
  have p: "pin ?k = pin k"
    using child_dots_event_pin [OF 2] by (simp add: pin_def)
  have inv: "\<forall>b\<in>set (digit_btns k). digit_key (MAX_LENGTH \<le> length (pin k)) b" "\<forall>d\<in>set (pin k). is_digit d"
    using assms(2) by (simp_all add: pin_inv_def)
  have "tt_state (wrapped (digit_btns k ! i)) = StPressed" "digit_btns k ! i \<in> set (digit_btns k)"
    using assms(3) by (simp_all add: key_pressed_def)
  then have room: "length (pin k) < MAX_LENGTH" and d: "is_digit d"
    using inv(1) assms(5) by (auto simp: digit_key_def tt_is_disabled_def)
  have "same_keys k ?k"
    using digits_event_keeps(1) [OF 6] child_button_event_keeps [OF 3] child_maybe_event_keeps(1) [OF 4] child_maybe_event_keeps(1) [OF 5]
    by (simp add: same_keys_def)
  then show ?thesis
    using pin_edit_inv [OF e dots_edit(3) _ _ same_keys_digits [OF _ inv(1)]] p room d inv(2)
    by (simp add: try_push_def push_str_def MAX_LENGTH_def SHORT_CAPACITY_def)
qed

text \<open>
  C9.  The PIN keyboard.  In every state that can be reached, an event leaves a PIN of at most fifty
  decimal digits; it adds one digit, removes the last one, removes all or changes nothing; the keyboard
  confirms only a PIN that is not empty and cancels only with an empty one, where that is allowed.  A
  touch that ends on the digit key it pressed adds the digit of that key.
\<close>

theorem pin_keyboard_entry:
  assumes "pin_reachable allow k" "pin_event ctx e k = (m, ctx', k')"
  shows "length (pin k') \<le> 50 \<and> list_all (\<lambda>d. 48 \<le> d \<and> d \<le> 57) (pin k') \<and> pin_step m k k' \<and>
    (m = Some PinCancelled \<longrightarrow> allow) \<and>
    (\<forall>i d p. e = Touch (TouchEnd p) \<and> key_pressed k i \<and> contains (touch_area (wrapped (digit_btns k ! i))) p \<and>
       tt_content (wrapped (digit_btns k ! i)) = ContentText [d] \<longrightarrow> pin k' = pin k @ [d])"
proof -
  have inv: "pin_inv k" "allow_cancel k = allow"
    using pin_reachable_inv [OF assms(1)] by simp_all
  have step: "pin_inv k'" "pin_step m k k'"
    using pin_event_step [OF assms(2) inv(1)] by simp_all
  then have "length (pin k') \<le> 50" "list_all (\<lambda>d. 48 \<le> d \<and> d \<le> 57) (pin k')"
    by (simp_all add: pin_inv_def MAX_LENGTH_def is_digit_def list_all_iff)
  moreover have "allow" if "m = Some PinCancelled"
    using step(2) that inv(2) by (simp add: pin_step_def)
  ultimately show ?thesis
    using step(2) pin_event_digit [OF _ inv(1)] assms(2) by blast
qed

text \<open>A keyboard on a screen of 240 pixels: the touch on the first key adds its digit.\<close>

definition example_pin :: pin_keyboard where
  "example_pin =
     (let k = pin_keyboard_new [0, 1, 2, 3, 0, 1, 2, 0, 1] [] [] None True;
          k = (case (pin_place (rect_new (point_new 0 0) (point_new 240 240)) k :: (_, unit) result) of Inr k \<Rightarrow> k | Inl _ \<Rightarrow> k);
          (_, _, k) = pin_event ctx_new (Touch (TouchStart (point_new 20 80))) k in k)"

definition example_key :: u8 where
  "example_key = (case tt_content (wrapped (digit_btns example_pin ! 0)) of ContentText [d] \<Rightarrow> d | _ \<Rightarrow> 0)"

theorem pin_keyboard_entry_witness:
  "pin_reachable True example_pin \<and>
   pin (snd (snd (pin_event ctx_new (Touch (TouchEnd (point_new 20 80))) example_pin))) = [example_key]"
proof -
  let ?k = "pin_keyboard_new [0, 1, 2, 3, 0, 1, 2, 0, 1] [] [] None True"
  let ?p = "pin_place (rect_new (point_new 0 0) (point_new 240 240)) ?k :: (_, unit) result"
  have d: "draws 9 [0, 1, 2, 3, 0, 1, 2, 0, 1]"
    by code_simp
  obtain k1 where k1: "?p = Inr k1"
  proof -
    have "is_ok ?p"
      by code_simp
    then show thesis
      using that by (auto simp: is_ok_iff)
  qed
  have "pin_reachable True k1"
    using pin_placed [OF pin_start [OF d] k1] .
  then have r: "pin_reachable True example_pin"
    using k1 by (auto simp: example_pin_def Let_def split: prod.splits intro: pin_handled)
  have "key_pressed example_pin 0" "contains (touch_area (wrapped (digit_btns example_pin ! 0))) (point_new 20 80)"
      "tt_content (wrapped (digit_btns example_pin ! 0)) = ContentText [example_key]" "pin example_pin = []"
    by code_simp+
  moreover obtain m ctx' k' where e: "pin_event ctx_new (Touch (TouchEnd (point_new 20 80))) example_pin = (m, ctx', k')"
    by (metis prod_cases3)
  ultimately show ?thesis
    using r pin_keyboard_entry [OF r e] by (metis append_Nil snd_conv)
qed

end
