(* ===== verification/Wordlist.thy ===== *)
theory Wordlist
  imports Prelude "HOL-Library.List_Lexorder"
begin

section \<open>Seed word lists\<close>

text \<open>
  \<^verbatim>\<open>core/embed/rust/src/trezorhal/wordlist.rs\<close>, \<^verbatim>\<open>bip39.rs\<close> and \<^verbatim>\<open>slip39.rs\<close>: a view of a static, sorted
  table of words, the refinement of the view by a typed prefix, and the letters that can follow.
  A word is the bytes before its terminating zero; both tables hold ASCII words, so that the
  characters of a word are its bytes.  The tables themselves and the functions of the C library that
  compute completion masks are arguments.
\<close>

type_synonym word_bytes = bytes

record wordlist =
  words :: "word_bytes list"
  prefix_len :: nat

definition wordlist_new :: "word_bytes list \<Rightarrow> nat \<Rightarrow> wordlist" where
  "wordlist_new ws n = \<lparr>words = ws, prefix_len = n\<rparr>"

text \<open>\<open>i\<close> is the index of the loop; reading at the length of the word gives its terminating zero.\<close>

definition c_char :: "word_bytes \<Rightarrow> nat \<Rightarrow> u8" where
  "c_char w i = (if i < length w then w ! i else 0)"

fun prefix_cmp_loop :: "bytes \<Rightarrow> nat \<Rightarrow> word_bytes \<Rightarrow> ordering" where
  "prefix_cmp_loop [] i w = Equal"
| "prefix_cmp_loop (prefix_char # prefix) i w =
     (let word_char = c_char w i in
      if word_char = 0 then Less
      else if prefix_char \<noteq> word_char then cmp word_char prefix_char
      else prefix_cmp_loop prefix (i + 1) w)"

definition prefix_cmp :: "bytes \<Rightarrow> word_bytes \<Rightarrow> ordering" where
  "prefix_cmp prefix w = prefix_cmp_loop prefix 0 w"

definition filter_prefix :: "wordlist \<Rightarrow> bytes \<Rightarrow> (wordlist, 'e) result" where
  "filter_prefix wl prefix =
     (let start = partition_point (\<lambda>w. prefix_cmp prefix w = Less) (words wl);
          stop = partition_point (\<lambda>w. prefix_cmp prefix w \<noteq> Greater) (words wl) in
      rbind (unwrap (slice_get (words wl) start stop)) (\<lambda>ws.
        Inr (wordlist_new ws (length prefix))))"

definition wordlist_get :: "wordlist \<Rightarrow> nat \<Rightarrow> word_bytes option" where
  "wordlist_get wl i = nth_get (words wl) i"

definition wordlist_len :: "wordlist \<Rightarrow> nat" where
  "wordlist_len wl = length (words wl)"

definition wordlist_iter :: "wordlist \<Rightarrow> word_bytes list" where
  "wordlist_iter wl = words wl"

text \<open>The closure of \<open>filter_map\<close> with its captured \<open>prev_char\<close>.\<close>

fun letters_loop :: "nat \<Rightarrow> u8 \<Rightarrow> word_bytes list \<Rightarrow> (u8 list, 'e) result" where
  "letters_loop n prev_char [] = Inr []"
| "letters_loop n prev_char (w # ws) =
     (if length w \<le> n then letters_loop n prev_char ws
      else rbind (unwrap (nth_get w n)) (\<lambda>following_char.
        if following_char \<noteq> prev_char then
          rbind (letters_loop n following_char ws) (\<lambda>cs. Inr (following_char # cs))
        else letters_loop n prev_char ws))"

definition get_available_letters :: "wordlist \<Rightarrow> (u8 list, 'e) result" where
  "get_available_letters wl = letters_loop (prefix_len wl) 0 (wordlist_iter wl)"

subsection \<open>Completion of words\<close>

definition bip39 :: "word_bytes list \<Rightarrow> wordlist" where
  "bip39 table = wordlist_new table 0"

definition complete_word :: "word_bytes list \<Rightarrow> bytes \<Rightarrow> (word_bytes option, 'e) result" where
  "complete_word table prefix =
     (if prefix = [] then Inr None
      else rbind (filter_prefix (bip39 table) prefix) (\<lambda>wl.
        Inr (case wordlist_iter wl of [] \<Rightarrow> None | w # _ \<Rightarrow> Some w)))"

definition options_num :: "word_bytes list \<Rightarrow> bytes \<Rightarrow> (nat option, 'e) result" where
  "options_num table prefix =
     (if prefix = [] then Inr None
      else rbind (filter_prefix (bip39 table) prefix) (\<lambda>wl. Inr (Some (wordlist_len wl))))"

definition slip39_word_completion_mask :: "(u16 \<Rightarrow> u16) \<Rightarrow> u16 \<Rightarrow> u16 option" where
  "slip39_word_completion_mask ffi_mask prefix =
     (if \<not> (1 \<le> prefix \<and> prefix \<le> 9999) then None else Some (ffi_mask prefix))"

definition button_sequence_to_word :: "(u16 \<Rightarrow> word_bytes option) \<Rightarrow> u16 \<Rightarrow> word_bytes option" where
  "button_sequence_to_word ffi_word prefix =
     (case ffi_word prefix of None \<Rightarrow> None | Some w \<Rightarrow> Some w)"

subsection \<open>The comparison is the lexicographic one on the first bytes\<close>

definition starts_with :: "word_bytes \<Rightarrow> bytes \<Rightarrow> bool" where
  "starts_with w p \<longleftrightarrow> take (length p) w = p"

text \<open>A table the code relies on: strictly sorted, with no zero byte inside a word.\<close>

definition wf_words :: "word_bytes list \<Rightarrow> bool" where
  "wf_words ws \<longleftrightarrow> sorted_wrt (<) ws \<and> (\<forall>w\<in>set ws. 0 \<notin> set w)"

lemma prefix_cmp_loop_drop:
  assumes "0 \<notin> set w"
  shows "prefix_cmp_loop p i w = cmp (take (length p) (drop i w)) p"
  using assms
proof (induction p arbitrary: i)
  case (Cons a p)
  show ?case
  proof (cases "i < length w")
    case True
    then have "drop i w = w ! i # drop (i + 1) w"
      by (simp add: Cons_nth_drop_Suc)
    moreover have "w ! i \<noteq> 0"
      using Cons.prems True nth_mem by metis
    ultimately show ?thesis
      using True Cons.IH [OF Cons.prems, of "i + 1"]
      by (simp add: Let_def c_char_def cmp_def)
  next
    case False
    then show ?thesis by (simp add: Let_def c_char_def cmp_def)
  qed
qed (simp add: cmp_def)

lemma prefix_cmp_eq: "0 \<notin> set w \<Longrightarrow> prefix_cmp p w = cmp (take (length p) w) p"
  by (simp add: prefix_cmp_def prefix_cmp_loop_drop)

lemma take_mono_lex: "v \<le> (w :: 'a::linorder list) \<Longrightarrow> take n v \<le> take n w"
proof (induction v arbitrary: w n)
  case (Cons a v)
  then obtain b w' where w: "w = b # w'"
    by (cases w) auto
  show ?case
  proof (cases n)
    case (Suc m)
    then show ?thesis
      using Cons.prems Cons.IH [of w' m] by (auto simp: w)
  qed simp
qed simp

lemma filter_take_drop:
  assumes "a \<le> b" "b \<le> length xs" "\<And>i. i < length xs \<Longrightarrow> P (xs ! i) \<longleftrightarrow> a \<le> i \<and> i < b"
  shows "filter P xs = take (b - a) (drop a xs)"
proof -
  have split: "xs = take a xs @ take (b - a) (drop a xs) @ drop b xs"
    using assms(1) by (metis append_take_drop_id drop_drop le_add_diff_inverse2)
  have "filter P (take a xs) = []" "filter P (drop b xs) = []"
    "filter P (take (b - a) (drop a xs)) = take (b - a) (drop a xs)"
    using assms by (auto simp: filter_empty_conv filter_id_conv in_set_conv_nth)
  then show ?thesis
    by (subst split) (simp only: filter_append append_Nil append_Nil2)
qed

lemma filter_prefix_eq:
  assumes "wf_words (words wl)"
  shows "filter_prefix wl p = Inr (wordlist_new (filter (\<lambda>w. starts_with w p) (words wl)) (length p))"
proof -
  let ?ws = "words wl"
  let ?lt = "\<lambda>w. prefix_cmp p w = Less" and ?le = "\<lambda>w. prefix_cmp p w \<noteq> Greater"
  have c: "prefix_cmp p (?ws ! i) = cmp (take (length p) (?ws ! i)) p" if "i < length ?ws" for i
    using assms that by (auto simp: wf_words_def intro!: prefix_cmp_eq)
  have mono: "take (length p) (?ws ! i) \<le> take (length p) (?ws ! j)" if "i < j" "j < length ?ws" for i j
    using assms that by (intro take_mono_lex less_imp_le) (auto simp: wf_words_def sorted_wrt_iff_nth_less)
  have s: "partition_point ?lt ?ws \<le> length ?ws \<and> (\<forall>i < partition_point ?lt ?ws. ?lt (?ws ! i)) \<and>
      (\<forall>i. partition_point ?lt ?ws \<le> i \<longrightarrow> i < length ?ws \<longrightarrow> \<not> ?lt (?ws ! i))"
  proof (rule partition_point_correct)
    fix i j assume "i < j" "j < length ?ws" "?lt (?ws ! j)"
    then show "?lt (?ws ! i)"
      using mono [of i j] by (simp add: c)
  qed
  have e: "partition_point ?le ?ws \<le> length ?ws \<and> (\<forall>i < partition_point ?le ?ws. ?le (?ws ! i)) \<and>
      (\<forall>i. partition_point ?le ?ws \<le> i \<longrightarrow> i < length ?ws \<longrightarrow> \<not> ?le (?ws ! i))"
  proof (rule partition_point_correct)
    fix i j assume "i < j" "j < length ?ws" "?le (?ws ! j)"
    then show "?le (?ws ! i)"
      using mono [of i j] by (simp add: c not_less)
  qed
  define a b where "a = partition_point ?lt ?ws" and "b = partition_point ?le ?ws"
  note ab = s [folded a_def] e [folded b_def]
  have "a \<le> b"
  proof (rule ccontr)
    assume "\<not> a \<le> b"
    then have "?lt (?ws ! b)" "\<not> ?le (?ws ! b)"
      using ab by auto
    then show False by simp
  qed
  moreover have "starts_with (?ws ! i) p \<longleftrightarrow> a \<le> i \<and> i < b" if "i < length ?ws" for i
  proof -
    have "starts_with (?ws ! i) p \<longleftrightarrow> \<not> ?lt (?ws ! i) \<and> ?le (?ws ! i)"
      using c [OF that] by (auto simp: starts_with_def)
    also have "\<dots> \<longleftrightarrow> a \<le> i \<and> i < b"
      using ab that by (meson not_le)
    finally show ?thesis .
  qed
  ultimately have "filter (\<lambda>w. starts_with w p) ?ws = take (b - a) (drop a ?ws)"
    using ab by (intro filter_take_drop) auto
  moreover have "slice_get ?ws a b = Some (take (b - a) (drop a ?ws))"
    using ab \<open>a \<le> b\<close> by (simp add: slice_get_def)
  ultimately show ?thesis
    by (simp add: filter_prefix_def Let_def a_def [symmetric] b_def [symmetric])
qed

subsection \<open>The letters that can follow\<close>

lemma append_le_lex: "p @ [a] \<le> p @ [b] \<longleftrightarrow> a \<le> (b :: 'a::linorder)"
  by (induction p) auto

lemma next_letter_mono:
  assumes "v < w" "take n v = p" "take n w = p" "n < length v" "n < length (w :: word_bytes)"
  shows "v ! n \<le> w ! n"
proof -
  have "take (Suc n) v \<le> take (Suc n) w"
    using assms(1) by (intro take_mono_lex) simp
  then show ?thesis
    using assms by (simp add: take_Suc_conv_app_nth append_le_lex)
qed

definition next_letters :: "nat \<Rightarrow> word_bytes list \<Rightarrow> u8 set" where
  "next_letters n ws = {w ! n |w. w \<in> set ws \<and> n < length w}"

lemma starts_with_snoc:
  "starts_with w (p @ [c]) \<longleftrightarrow> starts_with w p \<and> length p < length w \<and> w ! length p = c"
proof (cases "length p < length w")
  case True
  then show ?thesis by (simp add: starts_with_def take_Suc_conv_app_nth)
next
  case False
  then show ?thesis by (auto simp: starts_with_def)
qed

lemma next_letters_simps:
  "next_letters n [] = {}"
  "next_letters n (w # ws) = (if n < length w then {w ! n} else {}) \<union> next_letters n ws"
  by (auto simp: next_letters_def)

lemma letters_loop_spec:
  assumes "sorted_wrt (<) ws" "\<forall>w\<in>set ws. take n w = p" "\<forall>c\<in>next_letters n ws. prev \<le> c"
  shows "\<exists>cs. (letters_loop n prev ws :: (u8 list, 'e) result) = Inr cs \<and> sorted_wrt (<) cs \<and> set cs = next_letters n ws - {prev}"
  using assms
proof (induction ws arbitrary: prev)
  case (Cons w ws)
  show ?case
  proof (cases "length w \<le> n")
    case True
    then show ?thesis
      using Cons by (simp add: next_letters_simps)
  next
    case False
    let ?c = "w ! n"
    have IH: "\<exists>cs. (letters_loop n q ws :: (u8 list, 'e) result) = Inr cs \<and> sorted_wrt (<) cs \<and> set cs = next_letters n ws - {q}"
      if "\<forall>c\<in>next_letters n ws. q \<le> c" for q
      using Cons.IH [OF _ _ that] Cons.prems by simp
    have later: "?c \<le> v ! n" if "v \<in> set ws" "n < length v" for v
      using Cons.prems(1,2) False that by (intro next_letter_mono [of w v n p]) auto
    then have c: "\<forall>c\<in>next_letters n ws. ?c \<le> c"
      by (auto simp: next_letters_def)
    obtain cs where cs: "(letters_loop n ?c ws :: (u8 list, 'e) result) = Inr cs" "sorted_wrt (<) cs"
      "set cs = next_letters n ws - {?c}"
      using IH [OF c] by blast
    have le: "prev \<le> ?c"
      using Cons.prems(3) False by (simp add: next_letters_simps)
    have nth: "nth_get w n = Some ?c"
      using False by (simp add: nth_get_def)
    show ?thesis
    proof (cases "?c = prev")
      case True
      then show ?thesis
        using cs False nth by (auto simp: next_letters_simps)
    next
      case neq: False
      then have "prev < ?c" using le by simp
      then have "prev \<notin> next_letters n ws" using c by force
      then show ?thesis
        using cs False nth neq c by (force simp: next_letters_simps)
    qed
  qed
qed (simp add: next_letters_simps)

text \<open>
  C32.  Refining a word list by a prefix keeps exactly the words that start with it, in their order,
  whatever prefix the list was refined by before: the two binary searches find the run of such words
  in a sorted table, and the slice between them never panics.
\<close>

theorem filter_prefix_correct:
  assumes "wf_words (words wl)"
  shows "\<exists>wl'. filter_prefix wl p = Inr wl' \<and>
    words wl' = filter (\<lambda>w. starts_with w p) (words wl) \<and> prefix_len wl' = length p \<and>
    wf_words (words wl') \<and> filter_prefix wl' (p @ q) = filter_prefix wl (p @ q)"
proof -
  have sub: "starts_with w (p @ q) \<Longrightarrow> starts_with w p" for w
  proof -
    assume "starts_with w (p @ q)"
    then have "take (length p) (take (length p + length q) w) = take (length p) (p @ q)"
      by (simp add: starts_with_def)
    then show "starts_with w p"
      by (simp add: starts_with_def min_def)
  qed
  have "wf_words (filter (\<lambda>w. starts_with w p) (words wl))"
    using assms by (auto simp: wf_words_def sorted_wrt_filter)
  moreover have "filter (\<lambda>w. starts_with w (p @ q)) (filter (\<lambda>w. starts_with w p) (words wl)) =
      filter (\<lambda>w. starts_with w (p @ q)) (words wl)"
    using sub by (auto intro: filter_cong)
  ultimately show ?thesis
    using assms by (simp add: filter_prefix_eq wordlist_new_def)
qed

theorem filter_prefix_correct_witness:
  "\<exists>wl'. filter_prefix (bip39 [[97, 98], [97, 99, 100], [98]]) [97] = Inr wl' \<and>
    words wl' = filter (\<lambda>w. starts_with w [97]) [[97, 98], [97, 99, 100], [98]] \<and>
    prefix_len wl' = length [97 :: u8] \<and> wf_words (words wl') \<and>
    filter_prefix wl' ([97] @ [99]) = filter_prefix (bip39 [[97, 98], [97, 99, 100], [98]]) ([97] @ [99])"
proof -
  have "wf_words (words (bip39 [[97, 98], [97, 99, 100], [98]]))"
    by (simp add: wf_words_def bip39_def wordlist_new_def)
  from filter_prefix_correct [OF this, of "[97]" "[99]"] show ?thesis
    by (simp add: bip39_def wordlist_new_def)
qed

text \<open>
  After a prefix was typed, the letters offered are exactly those that continue it to a word of
  the table, each of them once, in alphabetical order.
\<close>

theorem available_letters_correct:
  assumes "wf_words table"
  shows "\<exists>cs. (rbind (filter_prefix (bip39 table) p) get_available_letters :: (u8 list, 'e) result) = Inr cs \<and>
    sorted_wrt (<) cs \<and> (\<forall>c. c \<in> set cs \<longleftrightarrow> (\<exists>w\<in>set table. starts_with w (p @ [c])))"
proof -
  let ?n = "length p" and ?ws = "filter (\<lambda>w. starts_with w p) table"
  have f: "(filter_prefix (bip39 table) p :: (wordlist, 'e) result) = Inr (wordlist_new ?ws ?n)"
    using filter_prefix_eq [of "bip39 table" p] assms by (simp add: bip39_def wordlist_new_def)
  have nz: "0 \<notin> next_letters ?n ?ws"
    using assms by (force simp: next_letters_def wf_words_def dest: nth_mem)
  have "sorted_wrt (<) ?ws" "\<forall>w\<in>set ?ws. take ?n w = p" "\<forall>c\<in>next_letters ?n ?ws. 0 \<le> c"
    using assms by (simp_all add: wf_words_def sorted_wrt_filter starts_with_def)
  from letters_loop_spec [OF this] obtain cs where cs: "(letters_loop ?n 0 ?ws :: (u8 list, 'e) result) = Inr cs" "sorted_wrt (<) cs"
    "set cs = next_letters ?n ?ws - {0}"
    by blast
  have n: "c \<in> next_letters ?n ?ws \<longleftrightarrow> (\<exists>w\<in>set table. starts_with w (p @ [c]))" for c
    by (auto simp: next_letters_def starts_with_snoc)
  show ?thesis
    using cs nz n by (simp add: f get_available_letters_def wordlist_iter_def wordlist_new_def)
qed

theorem available_letters_correct_witness:
  "\<exists>cs. rbind (filter_prefix (bip39 [[97, 98], [97, 99, 100], [98]]) [97]) get_available_letters = Inr cs \<and>
    sorted_wrt (<) cs \<and>
    (\<forall>c. c \<in> set cs \<longleftrightarrow> (\<exists>w\<in>set [[97, 98], [97, 99, 100], [98]]. starts_with w ([97] @ [c])))"
proof -
  have "wf_words [[97, 98], [97, 99, 100], [98]]"
    by (simp add: wf_words_def)
  from available_letters_correct [OF this, of "[97]"] show ?thesis .
qed

end
