(* ===== verification/Mnemonic_Input.thy ===== *)
theory Mnemonic_Input
  imports Text_Entry Wordlist
begin

section \<open>Entering the words of a seed\<close>

text \<open>
  The two inputs of \<^verbatim>\<open>model_tt/component/keyboard\<close>: \<open>Bip39Input\<close> (\<^verbatim>\<open>bip39.rs\<close>), in which letters are typed
  by multi-tap and completed from the dictionary, and \<open>Slip39Input\<close> (\<^verbatim>\<open>slip39.rs\<close>), in which each key stands
  for one digit of a sequence that identifies the word.  The completion masks and the search for a
  sequence are the functions of \<^verbatim>\<open>crypto/bip39.c\<close> and \<^verbatim>\<open>crypto/slip39.c\<close>; the two tables are arguments.
  Drawing is left out.
\<close>

datatype mnemonic_input_msg = InputConfirmed | InputCompleted | InputTimedOut

text \<open>The trait \<open>MnemonicInput\<close>, with the handler and the placing of its component.\<close>

record 'i mnemonic_ops =
  mi_keys :: "bytes list"
  mi_can_key :: "'i \<Rightarrow> nat \<Rightarrow> (bool, unit) result"
  mi_key_click :: "event_ctx \<Rightarrow> nat \<Rightarrow> 'i \<Rightarrow> (event_ctx \<times> 'i, unit) result"
  mi_backspace :: "event_ctx \<Rightarrow> 'i \<Rightarrow> (event_ctx \<times> 'i, unit) result"
  mi_long_press :: "event_ctx \<Rightarrow> 'i \<Rightarrow> (event_ctx \<times> 'i, unit) result"
  mi_is_empty :: "'i \<Rightarrow> bool"
  mi_mnemonic :: "'i \<Rightarrow> word_bytes option"
  mi_event :: "event_ctx \<Rightarrow> event \<Rightarrow> 'i \<Rightarrow> (mnemonic_input_msg option \<times> event_ctx \<times> 'i, unit) result"
  mi_place :: "rect \<Rightarrow> 'i \<Rightarrow> 'i"

definition ICON_LIST_CHECK :: nat where "ICON_LIST_CHECK = 4"
definition ICON_CLICK :: nat where "ICON_CLICK = 5"

subsection \<open>The completion mask of the letters\<close>

text \<open>\<open>strncmp(word, prefix, len) == 0\<close>, from the index \<open>i\<close> of the word on.\<close>

fun strncmp_eq :: "word_bytes \<Rightarrow> nat \<Rightarrow> bytes \<Rightarrow> bool" where
  "strncmp_eq word i [] \<longleftrightarrow> True"
| "strncmp_eq word i (c # prefix) \<longleftrightarrow> c_char word i = c \<and> (c = 0 \<or> strncmp_eq word (i + 1) prefix)"

definition mask_letter :: "bytes \<Rightarrow> word_bytes \<Rightarrow> u32 \<Rightarrow> u32" where
  "mask_letter prefix word res =
     (let c = c_char word (length prefix) in
      if strncmp_eq word 0 prefix \<and> 97 \<le> c \<and> c \<le> 122
      then res OR push_bit (unat (c - 97)) 1 else res)"

definition mnemonic_word_completion_mask :: "word_bytes list \<Rightarrow> bytes \<Rightarrow> u32" where
  "mnemonic_word_completion_mask table prefix =
     (if prefix = [] then 0x3ffffff else fold (mask_letter prefix) table 0)"

subsection \<open>Letters by multi-tap\<close>

record bip39_input =
  bi_button :: tt_button
  bi_suggestion :: tt_button
  bi_textbox :: text_box
  bi_multi_tap :: multi_tap
  bi_options :: "nat option"
  bi_suggested :: "word_bytes option"

definition bip39_keys :: "bytes list" where
  "bip39_keys = [[97, 98, 99], [100, 101, 102], [103, 104, 105], [106, 107, 108], [109, 110, 111],
     [112, 113, 114], [115, 116, 117], [118, 119, 120], [121, 122]]"

definition bip39_key_mask :: "nat \<Rightarrow> (u32, unit) result" where
  "bip39_key_mask key =
     rbind (unwrap (nth_get bip39_keys key)) (\<lambda>text.
     Inr (fold (\<lambda>ch m. m OR push_bit (unat (ch - 97)) 1) text 0))"

definition bip39_can_key :: "word_bytes list \<Rightarrow> bip39_input \<Rightarrow> nat \<Rightarrow> (bool, unit) result" where
  "bip39_can_key table i key =
     (let key_is_pending = (pending_key (bi_multi_tap i) = Some key) in
      rbind (bip39_key_mask key) (\<lambda>m.
      let key_matches_mask = (mnemonic_word_completion_mask table (tb_text (bi_textbox i)) AND m \<noteq> 0) in
      Inr (key_is_pending \<or> key_matches_mask)))"

text \<open>The word can be confirmed: it is the only one left, or it was typed in full.\<close>

definition bip39_confirms :: "word_bytes \<Rightarrow> nat \<Rightarrow> bytes \<Rightarrow> bool" where
  "bip39_confirms word num content \<longleftrightarrow> num = 1 \<and> starts_with word content \<or> num > 1 \<and> word = content"

definition bip39_complete_word ::
  "word_bytes list \<Rightarrow> event_ctx \<Rightarrow> bip39_input \<Rightarrow> (event_ctx \<times> bip39_input, unit) result" where
  "bip39_complete_word table ctx i =
     (let content = tb_text (bi_textbox i) in
      rbind (options_num table content) (\<lambda>num.
      rbind (complete_word table content) (\<lambda>sug.
      let i = i\<lparr>bi_options := num, bi_suggested := sug\<rparr> in
      Inr (case (sug, num) of
        (Some word, Some n) \<Rightarrow>
          (let (style, icon, sstyle) =
                 (if bip39_confirms word n content then (StylePinConfirm, ICON_LIST_CHECK, StyleSuggestionConfirm)
                  else (StylePinAutocomplete, ICON_CLICK, StyleSuggestionAutocomplete));
               (ctx, b) = tt_enable ctx (bi_button i);
               (ctx, b) = set_stylesheet ctx style b;
               (ctx, b) = set_content ctx (ContentIcon icon) b;
               (ctx, s) = set_stylesheet ctx sstyle (bi_suggestion i) in
           (ctx, i\<lparr>bi_button := b, bi_suggestion := s\<rparr>))
      | _ \<Rightarrow>
          (let (ctx, b) = tt_disable ctx (bi_button i);
               (ctx, b) = set_stylesheet ctx StylePin b;
               (ctx, b) = set_content ctx (ContentText []) b in
           (ctx, i\<lparr>bi_button := b\<rparr>))))))"

definition bip39_key_click ::
  "word_bytes list \<Rightarrow> event_ctx \<Rightarrow> nat \<Rightarrow> bip39_input \<Rightarrow> (event_ctx \<times> bip39_input, unit) result" where
  "bip39_key_click table ctx key i =
     rbind (unwrap (nth_get bip39_keys key)) (\<lambda>text.
     rbind (click_key ctx key text (bi_multi_tap i)) (\<lambda>(edit, ctx, m).
     let (ctx, t) = textbox_apply ctx edit (bi_textbox i) in
     bip39_complete_word table ctx (i\<lparr>bi_multi_tap := m, bi_textbox := t\<rparr>)))"

definition bip39_backspace :: "word_bytes list \<Rightarrow> event_ctx \<Rightarrow> bip39_input \<Rightarrow> (event_ctx \<times> bip39_input, unit) result" where
  "bip39_backspace table ctx i =
     (let (ctx, m) = clear_pending_state ctx (bi_multi_tap i);
          (ctx, t) = delete_last ctx (bi_textbox i) in
      bip39_complete_word table ctx (i\<lparr>bi_multi_tap := m, bi_textbox := t\<rparr>))"

definition bip39_long_press :: "word_bytes list \<Rightarrow> event_ctx \<Rightarrow> bip39_input \<Rightarrow> (event_ctx \<times> bip39_input, unit) result" where
  "bip39_long_press table ctx i =
     (let (ctx, m) = clear_pending_state ctx (bi_multi_tap i);
          (ctx, t) = textbox_clear ctx (bi_textbox i) in
      bip39_complete_word table ctx (i\<lparr>bi_multi_tap := m, bi_textbox := t\<rparr>))"

definition bip39_input_click ::
  "word_bytes list \<Rightarrow> event_ctx \<Rightarrow> bip39_input \<Rightarrow> (mnemonic_input_msg option \<times> event_ctx \<times> bip39_input, unit) result" where
  "bip39_input_click table ctx i = (case (bi_suggested i, bi_options i) of
      (Some word, Some num) \<Rightarrow>
        if bip39_confirms word num (tb_text (bi_textbox i)) then
          let (ctx, t) = textbox_clear ctx (bi_textbox i) in Inr (Some InputConfirmed, ctx, i\<lparr>bi_textbox := t\<rparr>)
        else
          let (ctx, t) = textbox_replace ctx word (bi_textbox i) in
          rbind (bip39_complete_word table ctx (i\<lparr>bi_textbox := t\<rparr>)) (\<lambda>(ctx, i).
          Inr (Some InputCompleted, ctx, i))
    | _ \<Rightarrow> Inr (None, ctx, i))"

definition bip39_timeout ::
  "word_bytes list \<Rightarrow> event_ctx \<Rightarrow> bip39_input \<Rightarrow> (mnemonic_input_msg option \<times> event_ctx \<times> bip39_input, unit) result" where
  "bip39_timeout table ctx i =
     (let (ctx, m) = clear_pending_state ctx (bi_multi_tap i);
          i = i\<lparr>bi_multi_tap := m\<rparr> in
      rbind (if bi_suggested i = None then
               let (ctx, t) = delete_last ctx (bi_textbox i) in bip39_complete_word table ctx (i\<lparr>bi_textbox := t\<rparr>)
             else Inr (ctx, i)) (\<lambda>(ctx, i).
      Inr (Some InputTimedOut, ctx, i)))"

definition bip39_event ::
  "word_bytes list \<Rightarrow> event_ctx \<Rightarrow> event \<Rightarrow> bip39_input \<Rightarrow> (mnemonic_input_msg option \<times> event_ctx \<times> bip39_input, unit) result" where
  "bip39_event table ctx e i =
     (let (_, ctx, s) = tt_button_event ctx e (bi_suggestion i);
          i = i\<lparr>bi_suggestion := s\<rparr> in
      if is_timeout_event (bi_multi_tap i) e then bip39_timeout table ctx i
      else
        let (m, ctx, b) = tt_button_event ctx e (bi_button i);
            i = i\<lparr>bi_button := b\<rparr> in
        if m = Some BtnClicked then bip39_input_click table ctx i else Inr (None, ctx, i))"

definition bip39_place :: "rect \<Rightarrow> bip39_input \<Rightarrow> bip39_input" where
  "bip39_place r i = i\<lparr>bi_button := tt_button_place r (bi_button i), bi_suggestion := tt_button_place r (bi_suggestion i)\<rparr>"

definition bip39_new :: "(bip39_input, unit) result" where
  "bip39_new =
     rbind textbox_empty (\<lambda>t.
     Inr \<lparr>bi_button = tt_button_new ContentEmpty, bi_suggestion = tt_button_new ContentEmpty, bi_textbox = t,
          bi_multi_tap = multi_tap_new, bi_options = None, bi_suggested = None\<rparr>)"

definition bip39_prefilled :: "word_bytes list \<Rightarrow> bytes \<Rightarrow> (bip39_input, unit) result" where
  "bip39_prefilled table word =
     (if word = [] then bip39_new
      else
        rbind (textbox_new word) (\<lambda>t.
        rbind (options_num table word) (\<lambda>num.
        rbind (complete_word table word) (\<lambda>sug.
        Inr \<lparr>bi_button = styled StylePinConfirm (tt_button_new (ContentIcon ICON_LIST_CHECK)),
             bi_suggestion = styled StyleSuggestionConfirm (tt_button_new ContentEmpty), bi_textbox = t,
             bi_multi_tap = multi_tap_new, bi_options = num, bi_suggested = sug\<rparr>))))"

definition bip39_ops :: "word_bytes list \<Rightarrow> bip39_input mnemonic_ops" where
  "bip39_ops table =
     \<lparr>mi_keys = bip39_keys, mi_can_key = bip39_can_key table, mi_key_click = bip39_key_click table,
      mi_backspace = bip39_backspace table, mi_long_press = bip39_long_press table,
      mi_is_empty = (\<lambda>i. textbox_is_empty (bi_textbox i)), mi_mnemonic = bi_suggested,
      mi_event = bip39_event table, mi_place = bip39_place\<rparr>"

subsection \<open>The dictionary\<close>

text \<open>What the code relies on: a sorted table of short lower-case words.\<close>

definition letter :: "u8 \<Rightarrow> bool" where
  "letter c \<longleftrightarrow> 97 \<le> c \<and> c \<le> 122"

definition wf_dictionary :: "word_bytes list \<Rightarrow> bool" where
  "wf_dictionary table \<longleftrightarrow> wf_words table \<and> (\<forall>w\<in>set table. w \<noteq> [] \<and> length w \<le> 8 \<and> (\<forall>c\<in>set w. letter c))"

definition valid_prefix :: "word_bytes list \<Rightarrow> bytes \<Rightarrow> bool" where
  "valid_prefix table p \<longleftrightarrow> p = [] \<or> (\<exists>w\<in>set table. starts_with w p)"

lemma letter_no_zero: "letter c \<Longrightarrow> c \<noteq> 0" "letter c \<Longrightarrow> \<not> cont c"
  unfolding letter_def cont_def word_le_nat_alt by (rule notI, simp)+

lemma starts_with_take: "starts_with w p \<Longrightarrow> starts_with w (take n p)"
  by (metis starts_with_def take_take min.commute length_take)

lemma valid_prefix_butlast: "valid_prefix table p \<Longrightarrow> valid_prefix table (butlast p)"
  by (auto simp: valid_prefix_def butlast_conv_take intro: starts_with_take)

lemma starts_with_length: "starts_with w p \<Longrightarrow> length p \<le> length w"
  by (metis starts_with_def length_take min.cobounded1)

lemma starts_with_set: "starts_with w p \<Longrightarrow> set p \<subseteq> set w"
  by (metis starts_with_def set_take_subset)

lemma starts_with_refl [simp]: "starts_with w w" "starts_with w []"
  by (simp_all add: starts_with_def)

lemma valid_prefix_short: "wf_dictionary table \<Longrightarrow> valid_prefix table p \<Longrightarrow> length p \<le> 8 \<and> (\<forall>c\<in>set p. letter c)"
  using starts_with_length starts_with_set by (fastforce simp: wf_dictionary_def valid_prefix_def)

lemma words_bip39 [simp]: "words (bip39 table) = table" "words (wordlist_new ws n) = ws"
  by (simp_all add: bip39_def wordlist_new_def)

lemma complete_word_eq:
  "wf_dictionary table \<Longrightarrow> complete_word table p =
     Inr (if p = [] then None else case filter (\<lambda>w. starts_with w p) table of [] \<Rightarrow> None | w # _ \<Rightarrow> Some w)"
  by (simp add: complete_word_def filter_prefix_eq wf_dictionary_def wordlist_iter_def)

lemma options_num_eq:
  "wf_dictionary table \<Longrightarrow> options_num table p =
     Inr (if p = [] then None else Some (length (filter (\<lambda>w. starts_with w p) table)))"
  by (simp add: options_num_def filter_prefix_eq wf_dictionary_def wordlist_len_def)

text \<open>The suggestion is the first word with the prefix.\<close>

lemma complete_word_Some:
  assumes "wf_dictionary table" "complete_word table p = (Inr (Some w) :: (_, unit) result)"
  shows "w \<in> set table" "starts_with w p" "p \<noteq> []"
proof -
  obtain ws where "filter (\<lambda>w. starts_with w p) table = w # ws" "p \<noteq> []"
    using assms by (auto simp: complete_word_eq split: if_splits list.splits)
  then have "w \<in> set (filter (\<lambda>w. starts_with w p) table)"
    by simp
  then show "w \<in> set table" "starts_with w p"
    by simp_all
  show "p \<noteq> []"
    by fact
qed

lemma complete_word_None:
  assumes "wf_dictionary table" "complete_word table p = (Inr None :: (_, unit) result)" "p \<noteq> []"
  shows "\<not> valid_prefix table p"
  using assms by (auto simp: complete_word_eq valid_prefix_def filter_empty_conv split: list.splits)

lemma take_le_lex: "take n v = w \<Longrightarrow> w \<le> (v :: 'a::linorder list)"
proof (induction v arbitrary: n w)
  case (Cons a v)
  then show ?case
    by (cases n) auto
qed simp

text \<open>A word of the table is the first one with itself as a prefix.\<close>

lemma complete_word_self:
  assumes "wf_dictionary table" "w \<in> set table"
  shows "complete_word table w = (Inr (Some w) :: (_, unit) result)"
proof -
  let ?ws = "filter (\<lambda>v. starts_with v w) table"
  have ne: "w \<noteq> []"
    using assms by (auto simp: wf_dictionary_def)
  obtain v vs where v: "?ws = v # vs"
    using assms(2) by (cases ?ws) (auto simp: filter_empty_conv)
  have "sorted_wrt (<) ?ws"
    using assms(1) by (simp add: wf_dictionary_def wf_words_def sorted_wrt_filter)
  moreover have "w \<in> set (v # vs)"
    unfolding v [symmetric] using assms(2) by simp
  ultimately have "v \<le> w"
    using v by auto
  moreover have "v \<in> set ?ws"
    unfolding v by simp
  then have "w \<le> v"
    by (auto simp: starts_with_def intro: take_le_lex)
  ultimately show ?thesis
    using assms(1) ne v by (simp add: complete_word_eq)
qed

subsection \<open>The mask holds the letters that continue the input\<close>

lemma strncmp_eq_starts: "0 \<notin> set p \<Longrightarrow> strncmp_eq w i p \<longleftrightarrow> take (length p) (drop i w) = p"
proof (induction p arbitrary: i)
  case (Cons c p)
  show ?case
  proof (cases "i < length w")
    case True
    then have "drop i w = w ! i # drop (i + 1) w"
      by (simp add: Cons_nth_drop_Suc)
    then show ?thesis
      using Cons True by (auto simp: c_char_def)
  next
    case False
    then show ?thesis
      using Cons.prems by (auto simp: c_char_def)
  qed
qed simp

lemma letter_index: "letter c \<and> n = unat (c - 97) \<longleftrightarrow> n < 26 \<and> c = 97 + of_nat n"
proof
  assume c: "letter c \<and> n = unat (c - 97)"
  then have "unat (c - 97) = unat c - 97" "97 \<le> unat c" "unat c \<le> 122"
    by (auto simp: letter_def unat_sub word_le_nat_alt)
  then show "n < 26 \<and> c = 97 + of_nat n"
    using c by (auto simp: )
next
  assume n: "n < 26 \<and> c = 97 + of_nat n"
  then have "unat (97 + of_nat n :: u8) = 97 + n"
    by (simp add: unat_word_ariths unat_of_nat)
  then show "letter c \<and> n = unat (c - 97)"
    using n by (auto simp: letter_def word_le_nat_alt unat_of_nat)
qed

lemma mask_letter_bit:
  assumes "0 \<notin> set p" 
  shows "bit (mask_letter p w r) n \<longleftrightarrow> bit r n \<or> n < 26 \<and> starts_with w (p @ [97 + of_nat n])"
proof -
  let ?c = "c_char w (length p)"
  have m: "strncmp_eq w 0 p \<and> letter ?c \<longleftrightarrow> starts_with w (p @ [?c]) \<and> letter ?c"
    using strncmp_eq_starts [OF assms, of w 0] letter_no_zero(1) [of ?c]
    by (auto simp: starts_with_snoc c_char_def starts_with_def [of w p] split: if_splits)
  have k: "letter ?c \<Longrightarrow> bit (push_bit (unat (?c - 97)) (1 :: u32)) n \<longleftrightarrow> n < 26 \<and> ?c = 97 + of_nat n"
    using letter_index [of ?c n] by (auto simp: bit_exp_iff)
  have s: "starts_with w (p @ [97 + of_nat n]) \<Longrightarrow> ?c = 97 + of_nat n"
    by (auto simp: starts_with_snoc c_char_def)
  have l: "n < 26 \<Longrightarrow> letter (97 + of_nat n)"
    using letter_index [of "97 + of_nat n" n] by simp
  show ?thesis
    using m k s l by (auto simp: mask_letter_def Let_def letter_def [symmetric] bit_or_iff)
qed

lemma completion_mask_bit:
  assumes "0 \<notin> set p" "p \<noteq> []"
  shows "bit (mnemonic_word_completion_mask table p) n \<longleftrightarrow> n < 26 \<and> (\<exists>w\<in>set table. starts_with w (p @ [97 + of_nat n]))"
proof -
  have "bit (fold (mask_letter p) table r) n \<longleftrightarrow> bit r n \<or> n < 26 \<and> (\<exists>w\<in>set table. starts_with w (p @ [97 + of_nat n]))" for r
    by (induction table arbitrary: r) (auto simp: mask_letter_bit [OF assms(1)])
  then show ?thesis
    using assms(2) by (simp add: mnemonic_word_completion_mask_def)
qed

subsection \<open>The invariant of the typed letters\<close>

text \<open>
  All letters but the last continue to a word; the last one does too, unless its key is still pending.  The
  suggestion and the number of options are those of the content.
\<close>

definition bip39_inv :: "word_bytes list \<Rightarrow> bip39_input \<Rightarrow> bool" where
  "bip39_inv table i \<longleftrightarrow>
     (let p = tb_text (bi_textbox i) in
      (\<forall>c\<in>set p. letter c) \<and> valid_prefix table (butlast p) \<and>
      (valid_prefix table p \<or> pending_key (bi_multi_tap i) \<noteq> None) \<and>
      (pending_key (bi_multi_tap i) \<noteq> None \<longrightarrow> p \<noteq> []) \<and>
      options_num table p = (Inr (bi_options i) :: (_, unit) result) \<and>
      complete_word table p = (Inr (bi_suggested i) :: (_, unit) result))"

definition bip39_allowed :: "word_bytes list \<Rightarrow> bip39_input \<Rightarrow> nat \<Rightarrow> bool" where
  "bip39_allowed table i key \<longleftrightarrow> valid_prefix table (tb_text (bi_textbox i)) \<or> pending_key (bi_multi_tap i) = Some key"

text \<open>Completing keeps the content and the pending key, and refreshes the rest.\<close>

lemma bip39_complete_word_ok:
  assumes "wf_dictionary table"
  shows "\<exists>ctx' i'. bip39_complete_word table ctx i = Inr (ctx', i') \<and> bi_textbox i' = bi_textbox i \<and>
    bi_multi_tap i' = bi_multi_tap i \<and> options_num table (tb_text (bi_textbox i)) = (Inr (bi_options i') :: (_, unit) result) \<and>
    complete_word table (tb_text (bi_textbox i)) = (Inr (bi_suggested i') :: (_, unit) result)"
proof -
  obtain num sug where r: "options_num table (tb_text (bi_textbox i)) = (Inr num :: (_, unit) result)"
      "complete_word table (tb_text (bi_textbox i)) = (Inr sug :: (_, unit) result)"
    using complete_word_eq [OF assms] options_num_eq [OF assms] by metis
  show ?thesis
    by (simp add: bip39_complete_word_def Let_def r split: option.split prod.split)
qed

lemma bip39_complete_inv:
  assumes "wf_dictionary table" "\<forall>c\<in>set (tb_text (bi_textbox i)). letter c"
    and "valid_prefix table (butlast (tb_text (bi_textbox i)))"
    and "valid_prefix table (tb_text (bi_textbox i)) \<or> pending_key (bi_multi_tap i) \<noteq> None"
    and "pending_key (bi_multi_tap i) \<noteq> None \<Longrightarrow> tb_text (bi_textbox i) \<noteq> []"
  shows "\<exists>ctx' i'. bip39_complete_word table ctx i = Inr (ctx', i') \<and> bip39_inv table i' \<and>
    bi_textbox i' = bi_textbox i \<and> bi_multi_tap i' = bi_multi_tap i"
  using bip39_complete_word_ok [OF assms(1), of ctx i] assms(2-) by (auto simp: bip39_inv_def)

lemma delete_last_letters:
  assumes "\<forall>c\<in>set (tb_text t). letter c"
  shows "tb_text (snd (delete_last ctx t)) = butlast (tb_text t)"
proof (cases "tb_text t" rule: rev_cases)
  case (snoc s c)
  then have "is_char [c]"
    using assms letter_no_zero(2) by (auto simp: is_char_def)
  then show ?thesis
    by (simp add: delete_last_def snoc string_pop_push)
qed (simp add: delete_last_def)

lemma clear_pending_key: "pending_key (snd (clear_pending_state ctx m)) = None"
  by (auto simp: clear_pending_state_def pending_key_def)

lemma bip39_backspace_inv:
  assumes "wf_dictionary table" "bip39_inv table i"
  shows "\<exists>ctx' i'. bip39_backspace table ctx i = Inr (ctx', i') \<and> bip39_inv table i' \<and>
    tb_text (bi_textbox i') = butlast (tb_text (bi_textbox i))"
proof -
  obtain ctx1 m where m: "clear_pending_state ctx (bi_multi_tap i) = (ctx1, m)"
    by (metis surj_pair)
  obtain ctx2 t where t: "delete_last ctx1 (bi_textbox i) = (ctx2, t)"
    by (metis surj_pair)
  have p: "tb_text t = butlast (tb_text (bi_textbox i))" "pending_key m = None"
    using delete_last_letters [of "bi_textbox i" ctx1] clear_pending_key [of ctx "bi_multi_tap i"] assms(2) t m
    by (auto simp: bip39_inv_def Let_def)
  have v: "valid_prefix table (tb_text t)" "\<forall>c\<in>set (tb_text t). letter c"
    using assms(2) p by (auto simp: bip39_inv_def Let_def dest: in_set_butlastD)
  show ?thesis
    using bip39_complete_inv [OF assms(1), of "i\<lparr>bi_multi_tap := m, bi_textbox := t\<rparr>" ctx2] v p
      valid_prefix_butlast [OF v(1)]
    by (auto simp: bip39_backspace_def m t)
qed

lemma bip39_long_press_inv:
  assumes "wf_dictionary table"
  shows "\<exists>ctx' i'. bip39_long_press table ctx i = Inr (ctx', i') \<and> bip39_inv table i' \<and> tb_text (bi_textbox i') = []"
proof -
  obtain ctx1 m where m: "clear_pending_state ctx (bi_multi_tap i) = (ctx1, m)"
    by (metis surj_pair)
  obtain ctx2 t where t: "textbox_clear ctx1 (bi_textbox i) = (ctx2, t)"
    by (metis surj_pair)
  have p: "tb_text t = []" "pending_key m = None"
    using t m clear_pending_key [of ctx "bi_multi_tap i"]
    by (auto simp: textbox_clear_def textbox_replace_def try_push_def push_str_def SHORT_CAPACITY_def split: if_splits)
  show ?thesis
    using bip39_complete_inv [OF assms(1), of "i\<lparr>bi_multi_tap := m, bi_textbox := t\<rparr>" ctx2] p
    by (auto simp: bip39_long_press_def m t valid_prefix_def)
qed

lemma chars_ascii: "\<forall>c\<in>set s. \<not> cont c \<Longrightarrow> chars s = map (\<lambda>c. [c]) s"
proof (induction s)
  case (Cons b s)
  then show ?case
    by (cases s) auto
qed simp

lemma click_key_letter:
  assumes "1 < length text" "\<forall>c\<in>set text. \<not> cont c"
  shows "\<exists>c ctx' m'. click_key ctx key text m =
      Inr (if pending_key m = Some key then ReplaceLast [c] else Append [c], ctx', m') \<and>
    c \<in> set text \<and> pending_key m' = Some key"
proof -
  have "text ! (n mod length text) \<in> set text" for n
    using assms(1) by (intro nth_mem mod_less_divisor) auto
  moreover have "map (\<lambda>c. [c]) text ! (n mod length text) = [text ! (n mod length text)]" for n
    using assms(1) by (intro nth_map mod_less_divisor) auto
  moreover have "text \<noteq> []"
    using assms(1) by auto
  moreover define n where "n = (case mt_pending m of Some p \<Rightarrow> if pd_key p = key then usize_add (pd_press p) 1 else 0 | None \<Rightarrow> 0)"
  ultimately show ?thesis
    using assms(1) chars_ascii [OF assms(2)]
    by (intro exI [of _ "text ! (n mod length text)"])
      (simp add: click_key_def Let_def pending_key_def split: option.split prod.split)
qed

lemma textbox_apply_letter:
  assumes "\<forall>c\<in>set (tb_text t). letter c" "length (tb_text t) < SHORT_CAPACITY"
  shows "tb_text (snd (textbox_apply ctx (Append [c]) t)) = tb_text t @ [c]"
    "tb_text t \<noteq> [] \<Longrightarrow> tb_text (snd (textbox_apply ctx (ReplaceLast [c]) t)) = butlast (tb_text t) @ [c]"
proof -
  show "tb_text (snd (textbox_apply ctx (Append [c]) t)) = tb_text t @ [c]"
    using assms(2) by (simp add: textbox_apply_def textbox_append_def try_push_def push_str_def)
  assume "tb_text t \<noteq> []"
  then obtain s d where s: "tb_text t = s @ [d]"
    by (metis rev_exhaust)
  then have "is_char [d]"
    using assms(1) letter_no_zero(2) by (auto simp: is_char_def)
  then show "tb_text (snd (textbox_apply ctx (ReplaceLast [c]) t)) = butlast (tb_text t) @ [c]"
    using assms(2) by (simp add: textbox_apply_def replace_last_def s string_pop_push try_push_def push_str_def)
qed

text \<open>The letters of the keys.\<close>

lemma bip39_keys_letters: "text \<in> set bip39_keys \<Longrightarrow> 1 < length text \<and> (\<forall>c\<in>set text. letter c)"
  by (auto simp: bip39_keys_def letter_def)

lemma length_bip39_keys: "length bip39_keys = 9"
  by (simp add: bip39_keys_def)

lemma bip39_keys_nth: "key < 9 \<Longrightarrow> nth_get bip39_keys key = Some (bip39_keys ! key) \<and> bip39_keys ! key \<in> set bip39_keys"
  by (simp add: nth_get_def length_bip39_keys)

lemma bip39_content_short:
  "wf_dictionary table \<Longrightarrow> bip39_inv table i \<Longrightarrow> length (tb_text (bi_textbox i)) \<le> 9"
  using valid_prefix_short [of table "butlast (tb_text (bi_textbox i))"] by (auto simp: bip39_inv_def Let_def)

text \<open>A click on a key that is allowed appends a letter of the key, or replaces the pending one.\<close>

lemma bip39_key_click_edit:
  assumes "wf_dictionary table" "bip39_inv table i" "key < 9" "bip39_allowed table i key"
    and click: "click_key ctx key (bip39_keys ! key) (bi_multi_tap i) =
      (Inr (if pending_key (bi_multi_tap i) = Some key then ReplaceLast [c] else Append [c], ctx1, m) :: (_, unit) result)"
      "c \<in> set (bip39_keys ! key)" "pending_key m = Some key"
  shows "\<exists>ctx' i'. bip39_key_click table ctx key i = Inr (ctx', i') \<and> bip39_inv table i' \<and> bi_multi_tap i' = m \<and>
    tb_text (bi_textbox i') = (if pending_key (bi_multi_tap i) = Some key then butlast (tb_text (bi_textbox i))
      else tb_text (bi_textbox i)) @ [c]"
proof -
  let ?p = "tb_text (bi_textbox i)" and ?pend = "pending_key (bi_multi_tap i) = Some key"
  have tx: "nth_get bip39_keys key = Some (bip39_keys ! key)" "letter c"
    using bip39_keys_nth [OF assms(3)] bip39_keys_letters click(2) by auto
  have p: "\<forall>c\<in>set ?p. letter c" "valid_prefix table (butlast ?p)" "?pend \<Longrightarrow> ?p \<noteq> []" "length ?p < SHORT_CAPACITY"
    using assms(2) bip39_content_short [OF assms(1,2)] by (auto simp: bip39_inv_def Let_def SHORT_CAPACITY_def)
  obtain ctx2 t where t: "textbox_apply ctx1 (if ?pend then ReplaceLast [c] else Append [c]) (bi_textbox i) = (ctx2, t)"
    by (metis surj_pair)
  have tt: "tb_text t = (if ?pend then butlast ?p else ?p) @ [c]"
    using textbox_apply_letter [OF p(1,4), of ctx1 c] t p(3) by (auto split: if_splits)
  have "valid_prefix table (butlast (tb_text t))"
    using assms(4) p(2) by (auto simp: tt bip39_allowed_def)
  moreover have "\<forall>c\<in>set (tb_text t). letter c"
    using p(1) tx(2) by (auto simp: tt dest: in_set_butlastD)
  moreover have "tb_text t \<noteq> []"
    by (simp add: tt)
  ultimately obtain ctx3 i' where i': "bip39_complete_word table ctx2 (i\<lparr>bi_multi_tap := m, bi_textbox := t\<rparr>) = Inr (ctx3, i')"
      "bip39_inv table i'" "bi_textbox i' = t" "bi_multi_tap i' = m"
    using bip39_complete_inv [OF assms(1), of "i\<lparr>bi_multi_tap := m, bi_textbox := t\<rparr>" ctx2] click(3) by auto
  have "bip39_key_click table ctx key i = Inr (ctx3, i')"
    by (simp add: bip39_key_click_def tx(1) click(1) t i'(1))
  then show ?thesis
    using i' tt by auto
qed

lemma bip39_key_click_inv:
  assumes "wf_dictionary table" "bip39_inv table i" "key < 9" "bip39_allowed table i key"
  shows "\<exists>ctx' i'. bip39_key_click table ctx key i = Inr (ctx', i') \<and> bip39_inv table i'"
proof -
  have "1 < length (bip39_keys ! key)" "\<forall>c\<in>set (bip39_keys ! key). \<not> cont c"
    using bip39_keys_nth [OF assms(3)] bip39_keys_letters letter_no_zero(2) by auto
  from click_key_letter [OF this, of ctx key "bi_multi_tap i"] show ?thesis
    using bip39_key_click_edit [OF assms, of ctx] by blast
qed

lemma bip39_can_key_allowed:
  assumes "wf_dictionary table" "bip39_inv table i" "key < 9"
  shows "\<exists>b. bip39_can_key table i key = Inr b \<and> (b \<longrightarrow> bip39_allowed table i key)"
proof -
  let ?p = "tb_text (bi_textbox i)"
  have nz: "0 \<notin> set ?p"
    using assms(2) letter_no_zero(1) by (auto simp: bip39_inv_def Let_def)
  have "valid_prefix table ?p" if m: "mnemonic_word_completion_mask table ?p AND x \<noteq> 0" for x
  proof (cases "?p = []")
    case False
    obtain n where "bit (mnemonic_word_completion_mask table ?p) n"
      using m by (auto simp: bit_eq_iff bit_and_iff)
    then show ?thesis
      using completion_mask_bit [OF nz False] by (auto simp: starts_with_snoc valid_prefix_def)
  qed (simp add: valid_prefix_def)
  then show ?thesis
    using bip39_keys_nth [OF assms(3)] by (auto simp: bip39_can_key_def bip39_key_mask_def bip39_allowed_def Let_def)
qed

text \<open>Every letter that continues the content to a word is on a key that is enabled.\<close>

lemma key_mask_fold: "\<forall>c\<in>set ts. letter c \<Longrightarrow>
    bit (fold (\<lambda>ch m. m OR push_bit (unat (ch - 97)) 1) ts (r :: u32)) n \<longleftrightarrow> bit r n \<or> (\<exists>c\<in>set ts. n = unat (c - 97))"
proof (induction ts arbitrary: r)
  case (Cons a ts)
  then have "unat (a - 97) < 26"
    using letter_index [of a "unat (a - 97)"] by simp
  then show ?case
    using Cons by (auto simp: bit_or_iff bit_exp_iff)
qed simp

lemma bip39_can_key_letter:
  assumes "key < 9" "\<forall>c\<in>set (tb_text (bi_textbox i)). letter c" "c \<in> set (bip39_keys ! key)"
    and "\<exists>w\<in>set table. starts_with w (tb_text (bi_textbox i) @ [c])"
  shows "bip39_can_key table i key = Inr True"
proof -
  let ?p = "tb_text (bi_textbox i)" and ?n = "unat (c - 97)"
  let ?m = "fold (\<lambda>ch m. m OR push_bit (unat (ch - 97)) 1) (bip39_keys ! key) (0 :: u32)"
  have key: "nth_get bip39_keys key = Some (bip39_keys ! key)" "\<forall>c\<in>set (bip39_keys ! key). letter c"
    using bip39_keys_nth [OF assms(1)] bip39_keys_letters by auto
  have c: "?n < 26" "c = 97 + of_nat ?n"
    using letter_index [of c ?n] key(2) assms(3) by auto
  have "bit (mnemonic_word_completion_mask table ?p) ?n"
  proof (cases "?p = []")
    case True
    have "\<forall>n<26. bit (0x3ffffff :: u32) n"
      by code_simp
    then show ?thesis
      using True c(1) by (simp add: mnemonic_word_completion_mask_def)
  next
    case False
    then show ?thesis
      using completion_mask_bit [OF _ False, of table ?n] assms(2,4) c letter_no_zero(1) by auto
  qed
  moreover have "bit ?m ?n"
    using key_mask_fold [OF key(2), of 0 ?n] assms(3) by auto
  ultimately have "bit (mnemonic_word_completion_mask table ?p AND ?m) ?n"
    by (simp only: bit_and_iff)
  then have "mnemonic_word_completion_mask table ?p AND ?m \<noteq> 0"
    by (metis bit_0_eq bot_apply bot_bool_def)
  then show ?thesis
    by (simp add: bip39_can_key_def bip39_key_mask_def key(1))
qed

text \<open>A word that is confirmed starts with the content, and is the only such word or the content itself.\<close>

definition bip39_done :: "word_bytes list \<Rightarrow> bip39_input \<Rightarrow> bip39_input \<Rightarrow> bool" where
  "bip39_done table i i' \<longleftrightarrow>
     (\<exists>w\<in>set table. bi_suggested i' = Some w \<and> starts_with w (tb_text (bi_textbox i)) \<and>
       (w = tb_text (bi_textbox i) \<or> (\<forall>v\<in>set table. starts_with v (tb_text (bi_textbox i)) \<longrightarrow> v = w)))"

lemma bip39_input_click_inv:
  assumes "wf_dictionary table" "bip39_inv table i"
  shows "\<exists>m ctx' i'. bip39_input_click table ctx i = Inr (m, ctx', i') \<and> (m = None \<longrightarrow> i' = i) \<and>
    (m = Some InputConfirmed \<longrightarrow> bip39_done table i i') \<and> (m \<noteq> Some InputConfirmed \<longrightarrow> bip39_inv table i')"
proof (cases "bi_suggested i = None \<or> bi_options i = None")
  case True
  then show ?thesis
    using assms(2) by (auto simp: bip39_input_click_def split: option.splits)
next
  case False
  let ?p = "tb_text (bi_textbox i)"
  obtain w n where w: "bi_suggested i = Some w" "bi_options i = Some n"
    using False by auto
  have eq: "complete_word table ?p = (Inr (Some w) :: (_, unit) result)" "options_num table ?p = (Inr (Some n) :: (_, unit) result)"
    using assms(2) w by (simp_all add: bip39_inv_def Let_def)
  note W = complete_word_Some [OF assms(1) eq(1)]
  show ?thesis
  proof (cases "bip39_confirms w n ?p")
    case True
    have "\<forall>v\<in>set table. starts_with v ?p \<longrightarrow> v = w" if "n = 1"
    proof -
      have "length (filter (\<lambda>v. starts_with v ?p) table) = 1"
        using eq(2) that W(3) by (simp add: options_num_eq [OF assms(1)])
      then obtain u where "filter (\<lambda>v. starts_with v ?p) table = [u]"
        by (auto simp: length_Suc_conv)
      then have "v \<in> set (filter (\<lambda>v. starts_with v ?p) table) \<longleftrightarrow> v = u" for v
        by (simp only: set_simps singleton_iff)
      then have "v \<in> set table \<and> starts_with v ?p \<longleftrightarrow> v = u" for v
        by simp
      then show ?thesis
        using W(1,2) by metis
    qed
    then have "bip39_done table i i'" if "bi_suggested i' = Some w" for i'
      using True W that by (auto simp: bip39_done_def bip39_confirms_def)
    then show ?thesis
      using True w by (simp add: bip39_input_click_def split: prod.split)
  next
    case conf: False
    obtain ctx1 t where t: "textbox_replace ctx w (bi_textbox i) = (ctx1, t)"
      by (metis surj_pair)
    have l: "length w \<le> 8" "\<forall>c\<in>set w. letter c" "valid_prefix table w" "w \<noteq> []"
      using assms(1) W(1) by (auto simp: wf_dictionary_def valid_prefix_def intro: starts_with_refl)
    then have tw: "tb_text t = w"
      using t by (auto simp: textbox_replace_def try_push_def push_str_def SHORT_CAPACITY_def split: if_splits)
    obtain ctx2 i' where "bip39_complete_word table ctx1 (i\<lparr>bi_textbox := t\<rparr>) = Inr (ctx2, i')" "bip39_inv table i'"
      using bip39_complete_inv [OF assms(1), of "i\<lparr>bi_textbox := t\<rparr>" ctx1] l valid_prefix_butlast [OF l(3)] tw by auto
    then show ?thesis
      using conf w t by (simp add: bip39_input_click_def)
  qed
qed

lemma bip39_timeout_inv:
  assumes "wf_dictionary table" "bip39_inv table i"
  shows "\<exists>ctx' i'. bip39_timeout table ctx i = Inr (Some InputTimedOut, ctx', i') \<and> bip39_inv table i' \<and>
    pending_key (bi_multi_tap i') = None \<and>
    (valid_prefix table (tb_text (bi_textbox i)) \<longrightarrow> tb_text (bi_textbox i') = tb_text (bi_textbox i))"
proof -
  let ?p = "tb_text (bi_textbox i)"
  obtain ctx1 m where m: "clear_pending_state ctx (bi_multi_tap i) = (ctx1, m)"
    by (metis surj_pair)
  have pm: "pending_key m = None"
    using clear_pending_key [of ctx "bi_multi_tap i"] m by simp
  have p: "\<forall>c\<in>set ?p. letter c" "valid_prefix table (butlast ?p)"
      "complete_word table ?p = (Inr (bi_suggested i) :: (_, unit) result)"
    using assms(2) by (simp_all add: bip39_inv_def Let_def)
  show ?thesis
  proof (cases "bi_suggested i")
    case None
    obtain ctx2 t where t: "delete_last ctx1 (bi_textbox i) = (ctx2, t)"
      by (metis surj_pair)
    have tt: "tb_text t = butlast ?p"
      using delete_last_letters [OF p(1), of ctx1] t by simp
    obtain ctx3 i' where i': "bip39_complete_word table ctx2 (i\<lparr>bi_multi_tap := m, bi_textbox := t\<rparr>) = Inr (ctx3, i')"
        "bip39_inv table i'" "bi_textbox i' = t" "bi_multi_tap i' = m"
      using bip39_complete_inv [OF assms(1), of "i\<lparr>bi_multi_tap := m, bi_textbox := t\<rparr>" ctx2] tt pm p(1,2)
        valid_prefix_butlast [OF p(2)] by (auto dest: in_set_butlastD)
    have "?p = []" if "valid_prefix table ?p"
      using complete_word_None [OF assms(1), of ?p] p(3) None that by auto
    then show ?thesis
      using None m t i' pm tt by (auto simp: bip39_timeout_def)
  next
    case (Some w)
    have "valid_prefix table ?p"
      using complete_word_Some [OF assms(1), of ?p w] p(3) Some by (auto simp: valid_prefix_def)
    then show ?thesis
      using Some m pm assms(2) by (auto simp: bip39_timeout_def bip39_inv_def Let_def)
  qed
qed

lemma bip39_event_inv:
  assumes "wf_dictionary table" "bip39_inv table i"
  shows "\<exists>m ctx' i'. bip39_event table ctx e i = Inr (m, ctx', i') \<and>
    (m = None \<longrightarrow> bi_textbox i' = bi_textbox i \<and> bi_multi_tap i' = bi_multi_tap i) \<and>
    (m = Some InputConfirmed \<longrightarrow> bip39_done table i i') \<and> (m \<noteq> Some InputConfirmed \<longrightarrow> bip39_inv table i')"
proof -
  obtain ms ctx1 s where s: "tt_button_event ctx e (bi_suggestion i) = (ms, ctx1, s)"
    by (metis prod_cases3)
  obtain mb ctx2 b where b: "tt_button_event ctx1 e (bi_button i) = (mb, ctx2, b)"
    by (metis prod_cases3)
  define ja jb where "ja = i\<lparr>bi_suggestion := s\<rparr>" and "jb = i\<lparr>bi_suggestion := s, bi_button := b\<rparr>"
  have j: "bip39_inv table ja" "bip39_inv table jb" "bi_textbox jb = bi_textbox i" "bi_multi_tap jb = bi_multi_tap i"
      "bi_textbox ja = bi_textbox i" "bip39_done table jb = bip39_done table i"
    using assms(2) by (simp_all add: ja_def jb_def bip39_inv_def bip39_done_def fun_eq_iff)
  have ev: "bip39_event table ctx e i =
      (if is_timeout_event (bi_multi_tap i) e then bip39_timeout table ctx1 ja
       else if mb = Some BtnClicked then bip39_input_click table ctx2 jb else Inr (None, ctx2, jb))"
    by (simp add: bip39_event_def s b ja_def jb_def)
  show ?thesis
  proof (cases "is_timeout_event (bi_multi_tap i) e")
    case True
    then show ?thesis
      using bip39_timeout_inv [OF assms(1) j(1), of ctx1] ev by auto
  next
    case False
    then show ?thesis
      using bip39_input_click_inv [OF assms(1) j(2), of ctx2] ev j by (cases "mb = Some BtnClicked") auto
  qed
qed

lemma bip39_event_paint: "bip39_event table ctx RequestPaint i = Inr (None, ctx, i)"
  by (simp add: bip39_event_def tt_button_event_def is_timeout_event_def)

lemma bip39_prefilled_inv:
  assumes "wf_dictionary table" "valid_prefix table word"
  shows "\<exists>i. bip39_prefilled table word = Inr i \<and> bip39_inv table i \<and> tb_text (bi_textbox i) = word \<and> pending_key (bi_multi_tap i) = None"
proof -
  obtain num sug where r: "options_num table word = (Inr num :: (_, unit) result)"
      "complete_word table word = (Inr sug :: (_, unit) result)"
    using complete_word_eq [OF assms(1)] options_num_eq [OF assms(1)] by metis
  show ?thesis
  proof (cases "word = []")
    case True
    then show ?thesis
      by (simp add: bip39_prefilled_def bip39_new_def textbox_empty_def textbox_new_def push_str_def SHORT_CAPACITY_def
          bip39_inv_def Let_def multi_tap_new_def pending_key_def options_num_def complete_word_def valid_prefix_def)
  next
    case False
    then show ?thesis
      using valid_prefix_short [OF assms] valid_prefix_butlast [OF assms(2)] assms(2)
      by (simp add: bip39_prefilled_def textbox_new_def push_str_def SHORT_CAPACITY_def r
          bip39_inv_def Let_def multi_tap_new_def pending_key_def)
  qed
qed

subsection \<open>Every word of the dictionary can be entered\<close>

text \<open>Taps on keys that are enabled, and pauses until the timer of the pending key fires.\<close>

datatype tap = Tap nat | Pause

fun bip39_type :: "word_bytes list \<Rightarrow> tap list \<Rightarrow> event_ctx \<times> bip39_input \<Rightarrow> (event_ctx \<times> bip39_input, unit) result" where
  "bip39_type table [] s = Inr s"
| "bip39_type table (Tap key # ts) (ctx, i) =
     rbind (bip39_can_key table i key) (\<lambda>b.
     if b then rbind (bip39_key_click table ctx key i) (bip39_type table ts) else Inl Panic)"
| "bip39_type table (Pause # ts) (ctx, i) =
     rbind (unwrap (pending_timer (bi_multi_tap i))) (\<lambda>t.
     rbind (bip39_event table ctx (Timer t) i) (\<lambda>(_, ctx, i). bip39_type table ts (ctx, i)))"

text \<open>The key of a letter, and the number of taps on it.\<close>

definition letter_taps :: "u8 \<Rightarrow> tap list" where
  "letter_taps c =
     (let n = unat (c - 97); key = (if n < 24 then n div 3 else 8); k = n - 3 * key in
      replicate (Suc k) (Tap key) @ [Pause])"

definition word_taps :: "bytes \<Rightarrow> tap list" where
  "word_taps w = concat (map letter_taps w)"

lemma bip39_type_append:
  "bip39_type table (as @ bs) s = rbind (bip39_type table as s) (bip39_type table bs)"
proof (induction table as s rule: bip39_type.induct)
  case (2 table key ts ctx i)
  then show ?case
    by (cases "bip39_can_key table i key"; cases "bip39_key_click table ctx key i") (auto split: prod.splits)
next
  case (3 table ts ctx i)
  then show ?case
    by (cases "pending_timer (bi_multi_tap i)") (auto simp: rbind_assoc split_beta intro: rbind_cong)
qed simp

lemma letter_key:
  assumes "letter c"
  shows "\<exists>key k. letter_taps c = replicate (Suc k) (Tap key) @ [Pause] \<and> key < 9 \<and> k < length (bip39_keys ! key) \<and>
    bip39_keys ! key ! k = c"
proof -
  have "\<forall>n<26. let key = (if n < 24 then n div 3 else 8); k = n - 3 * key in
      key < 9 \<and> k < length (bip39_keys ! key) \<and> bip39_keys ! key ! k = 97 + of_nat n"
    by code_simp
  moreover have "unat (c - 97) < 26" "c = 97 + of_nat (unat (c - 97))"
    using assms letter_index [of c "unat (c - 97)"] by auto
  ultimately show ?thesis
    unfolding letter_taps_def Let_def by metis
qed

text \<open>One more tap on the pending key moves to the next letter of the key.\<close>

lemma click_key_press:
  assumes "1 < length text" "\<forall>c\<in>set text. \<not> cont c" "n < length text" "length text < 2 ^ 32"
    and "n = 0 \<and> pending_key m = None \<or> (\<exists>j. n = Suc j \<and> pending_key m = Some key \<and> pending_press m = Some j)"
  shows "\<exists>ctx' m'. click_key ctx key text m =
      Inr (if n = 0 then Append [text ! n] else ReplaceLast [text ! n], ctx', m') \<and>
    pending_key m' = Some key \<and> pending_press m' = Some n"
proof -
  have "text \<noteq> []" "usize_add j 1 = Suc j" if "n = Suc j" for j
    using assms(1,3,4) that by (auto simp: usize_add_def)
  then show ?thesis
    using assms chars_ascii [OF assms(2)]
    by (auto simp: click_key_def Let_def pending_key_def pending_press_def split: option.split prod.split)
qed

lemma bip39_taps:
  assumes "wf_dictionary table" "bip39_inv table i" "pending_key (bi_multi_tap i) = None" "key < 9"
    and k: "k < length (bip39_keys ! key)" "\<exists>w\<in>set table. starts_with w (tb_text (bi_textbox i) @ [bip39_keys ! key ! k])"
  shows "n \<le> k \<Longrightarrow> \<exists>ctx' i'. bip39_type table (replicate (Suc n) (Tap key)) (ctx, i) = Inr (ctx', i') \<and> bip39_inv table i' \<and>
    tb_text (bi_textbox i') = tb_text (bi_textbox i) @ [bip39_keys ! key ! n] \<and>
    pending_key (bi_multi_tap i') = Some key \<and> pending_press (bi_multi_tap i') = Some n"
proof (induction n)
  let ?text = "bip39_keys ! key"
  have tx: "?text \<in> set bip39_keys" "1 < length ?text" "\<forall>c\<in>set ?text. \<not> cont c"
    using bip39_keys_nth [OF assms(4)] bip39_keys_letters letter_no_zero(2) by auto
  have "\<forall>t\<in>set bip39_keys. length t < 2 ^ 32"
    by (simp add: bip39_keys_def)
  then have l: "length ?text < 2 ^ 32" and z: "0 < length ?text"
    using tx(1,2) by auto
  { case 0
    obtain ctx1 m where c: "click_key ctx key ?text (bi_multi_tap i) = (Inr (Append [?text ! 0], ctx1, m) :: (_, unit) result)"
        "pending_key m = Some key" "pending_press m = Some 0"
      using click_key_press [OF tx(2,3) z l, of "bi_multi_tap i" key ctx] assms(3) by auto
    have "valid_prefix table (tb_text (bi_textbox i))"
      using k(2) by (auto simp: valid_prefix_def starts_with_snoc)
    then have al: "bip39_allowed table i key"
      by (simp add: bip39_allowed_def)
    have can: "bip39_can_key table i key = Inr True"
      using assms(2,4) k by (intro bip39_can_key_letter [where c = "?text ! k"]) (auto simp: bip39_inv_def Let_def)
    show ?case
      using bip39_key_click_edit [OF assms(1,2,4) al, of ctx "?text ! 0" ctx1 m] c assms(3) nth_mem [OF z] can by auto
  next
    case (Suc n)
    obtain ctx1 i1 where i1: "bip39_type table (replicate (Suc n) (Tap key)) (ctx, i) = Inr (ctx1, i1)" "bip39_inv table i1"
        "tb_text (bi_textbox i1) = tb_text (bi_textbox i) @ [?text ! n]" "pending_key (bi_multi_tap i1) = Some key"
        "pending_press (bi_multi_tap i1) = Some n"
      using Suc by auto
    have n: "Suc n < length ?text"
      using Suc.prems k(1) by simp
    obtain ctx2 m where c: "click_key ctx1 key ?text (bi_multi_tap i1) = (Inr (ReplaceLast [?text ! Suc n], ctx2, m) :: (_, unit) result)"
        "pending_key m = Some key" "pending_press m = Some (Suc n)"
      using click_key_press [OF tx(2,3) n l, of "bi_multi_tap i1" key ctx1] i1(4,5) by auto
    have al: "bip39_allowed table i1 key"
      using i1(4) by (simp add: bip39_allowed_def)
    obtain ctx3 i2 where i2: "bip39_key_click table ctx1 key i1 = Inr (ctx3, i2)" "bip39_inv table i2" "bi_multi_tap i2 = m"
        "tb_text (bi_textbox i2) = tb_text (bi_textbox i) @ [?text ! Suc n]"
      using bip39_key_click_edit [OF assms(1) i1(2) assms(4) al, of ctx1 "?text ! Suc n" ctx2 m] c i1(3,4) n by auto
    have "bip39_can_key table i1 key = Inr True"
      using i1(4) bip39_keys_nth [OF assms(4)] by (simp add: bip39_can_key_def bip39_key_mask_def)
    moreover have "replicate (Suc (Suc n)) (Tap key) = replicate (Suc n) (Tap key) @ [Tap key]"
      by (simp add: replicate_append_same)
    ultimately show ?case
      using i1(1) i2 c by (simp only: bip39_type_append) simp
  }
qed

lemma bip39_letter:
  assumes "wf_dictionary table" "bip39_inv table i" "pending_key (bi_multi_tap i) = None"
    and c: "letter c" "\<exists>w\<in>set table. starts_with w (tb_text (bi_textbox i) @ [c])"
  shows "\<exists>ctx' i'. bip39_type table (letter_taps c) (ctx, i) = Inr (ctx', i') \<and> bip39_inv table i' \<and>
    tb_text (bi_textbox i') = tb_text (bi_textbox i) @ [c] \<and> pending_key (bi_multi_tap i') = None"
proof -
  obtain key k where k: "letter_taps c = replicate (Suc k) (Tap key) @ [Pause]" "key < 9" "k < length (bip39_keys ! key)"
      "bip39_keys ! key ! k = c"
    using letter_key [OF c(1)] by blast
  obtain ctx1 i1 where i1: "bip39_type table (replicate (Suc k) (Tap key)) (ctx, i) = Inr (ctx1, i1)" "bip39_inv table i1"
      "tb_text (bi_textbox i1) = tb_text (bi_textbox i) @ [c]" "pending_key (bi_multi_tap i1) = Some key"
    using bip39_taps [OF assms(1-3) k(2,3), of k ctx] c(2) k(4) by auto
  then obtain t where t: "pending_timer (bi_multi_tap i1) = Some t"
    by (auto simp: pending_key_def pending_timer_def)
  let ?i = "i1\<lparr>bi_suggestion := snd (snd (tt_button_event ctx1 (Timer t) (bi_suggestion i1)))\<rparr>"
  let ?ctx = "fst (snd (tt_button_event ctx1 (Timer t) (bi_suggestion i1)))"
  have "bip39_event table ctx1 (Timer t) i1 = bip39_timeout table ?ctx ?i"
    using t by (simp add: bip39_event_def is_timeout_event_def split_beta)
  moreover have "bip39_inv table ?i" "valid_prefix table (tb_text (bi_textbox ?i))"
    using i1 c(2) by (auto simp: bip39_inv_def valid_prefix_def)
  ultimately obtain ctx2 i2 where i2: "bip39_event table ctx1 (Timer t) i1 = Inr (Some InputTimedOut, ctx2, i2)" "bip39_inv table i2"
      "pending_key (bi_multi_tap i2) = None" "tb_text (bi_textbox i2) = tb_text (bi_textbox i1)"
    using bip39_timeout_inv [OF assms(1), of ?i ?ctx] by auto
  have "bip39_type table (letter_taps c) (ctx, i) = Inr (ctx2, i2)"
    unfolding k(1) bip39_type_append i1(1) using t i2(1) by simp
  then show ?thesis
    using i1(3) i2 by simp
qed

lemma bip39_word:
  assumes "wf_dictionary table" "bip39_inv table i" "pending_key (bi_multi_tap i) = None"
    and "w \<in> set table" "tb_text (bi_textbox i) @ v = w"
  shows "\<exists>ctx' i'. bip39_type table (word_taps v) (ctx, i) = Inr (ctx', i') \<and> bip39_inv table i' \<and> tb_text (bi_textbox i') = w"
  using assms(2-)
proof (induction v arbitrary: ctx i)
  case Nil
  then show ?case
    by (simp add: word_taps_def)
next
  case (Cons c v)
  have l: "letter c"
    using assms(1) Cons.prems(3,4) by (auto simp: wf_dictionary_def)
  have "\<exists>w\<in>set table. starts_with w (tb_text (bi_textbox i) @ [c])"
    using Cons.prems(3,4) by (intro bexI [of _ w]) (auto simp: starts_with_def)
  then obtain ctx1 i1 where i1: "bip39_type table (letter_taps c) (ctx, i) = Inr (ctx1, i1)" "bip39_inv table i1"
      "tb_text (bi_textbox i1) = tb_text (bi_textbox i) @ [c]" "pending_key (bi_multi_tap i1) = None"
    using bip39_letter [OF assms(1) Cons.prems(1,2) l, of ctx] by blast
  have "word_taps (c # v) = letter_taps c @ word_taps v"
    by (simp add: word_taps_def)
  then show ?case
    using Cons.IH [OF i1(2,4) Cons.prems(3), of ctx1] i1(1,3) Cons.prems(4) by (auto simp: bip39_type_append)
qed

text \<open>
  C22.  Every word of the dictionary can be entered.  Starting from an empty input, tapping each letter of a
  word on keys that the keyboard keeps enabled, with a pause after each letter, never panics; it ends with
  the word as the content and the suggestion, and a click on the input then confirms that word.
\<close>

theorem bip39_every_word:
  assumes "wf_dictionary table" "w \<in> set table"
  shows "\<exists>i0 ctx' i'. bip39_new = Inr i0 \<and> bip39_type table (word_taps w) (ctx, i0) = Inr (ctx', i') \<and>
    tb_text (bi_textbox i') = w \<and> bi_suggested i' = Some w \<and>
    (\<exists>ctx'' i''. bip39_input_click table ctx' i' = Inr (Some InputConfirmed, ctx'', i'') \<and> bi_suggested i'' = Some w)"
proof -
  obtain i0 where i0: "bip39_new = Inr i0" "bip39_inv table i0" "tb_text (bi_textbox i0) = []" "pending_key (bi_multi_tap i0) = None"
    using bip39_prefilled_inv [OF assms(1), of "[]"] by (auto simp: bip39_prefilled_def valid_prefix_def)
  obtain ctx' i' where i': "bip39_type table (word_taps w) (ctx, i0) = Inr (ctx', i')" "bip39_inv table i'" "tb_text (bi_textbox i') = w"
    using bip39_word [OF assms(1) i0(2,4) assms(2), of w ctx] i0(3) by auto
  have s: "bi_suggested i' = Some w"
    using i'(2,3) complete_word_self [OF assms] by (simp add: bip39_inv_def Let_def)
  have "w \<noteq> []"
    using assms by (auto simp: wf_dictionary_def)
  then have "bi_options i' = Some (length (filter (\<lambda>v. starts_with v w) table))"
    using i'(2,3) by (simp add: bip39_inv_def Let_def options_num_eq [OF assms(1)])
  moreover have "length (filter (\<lambda>v. starts_with v w) table) \<noteq> 0"
    using assms(2) by (simp add: filter_empty_conv) (metis starts_with_refl(1))
  ultimately obtain n where "bi_options i' = Some n" "n \<noteq> 0"
    by blast
  then have "\<exists>ctx'' i''. bip39_input_click table ctx' i' = Inr (Some InputConfirmed, ctx'', i'') \<and> bi_suggested i'' = Some w"
    using s i'(3) by (auto simp: bip39_input_click_def bip39_confirms_def split: prod.split)
  then show ?thesis
    using i0(1) i' s by blast
qed

text \<open>Three words of the English list: \<open>add\<close> is also the beginning of \<open>addict\<close>.\<close>

definition example_words :: "word_bytes list" where
  "example_words = [[97, 100, 100], [97, 100, 100, 105, 99, 116], [122, 111, 111]]"

lemma example_words_ok: "wf_dictionary example_words"
  by code_simp

theorem bip39_every_word_witness:
  "\<exists>i0 ctx' i'. bip39_new = Inr i0 \<and> bip39_type example_words (word_taps [97, 100, 100]) (ctx_new, i0) = Inr (ctx', i') \<and>
    tb_text (bi_textbox i') = [97, 100, 100] \<and> bi_suggested i' = Some [97, 100, 100] \<and>
    (\<exists>ctx'' i''. bip39_input_click example_words ctx' i' = Inr (Some InputConfirmed, ctx'', i'') \<and> bi_suggested i'' = Some [97, 100, 100])"
proof -
  have w: "[97, 100, 100] \<in> set example_words"
    by (simp add: example_words_def)
  show ?thesis
    by (rule bip39_every_word [OF example_words_ok w])
qed

end
