(* ===== verification/Slip39_Input.thy ===== *)
theory Slip39_Input
  imports Mnemonic_Input
begin

section \<open>Words that are identified by their keys\<close>

text \<open>
  \<open>Slip39Input\<close> of \<^verbatim>\<open>model_tt/component/keyboard/slip39.rs\<close> with the search of \<^verbatim>\<open>crypto/slip39.c\<close>.  A key press
  adds a digit to the input; the digits are a prefix of the four-digit sequences of the table
  \<open>words_button_seq\<close>, which is sorted by sequence and gives the index of the word.  The numbers of the C
  functions stay below \<open>2 ^ 16\<close>, so that they are natural numbers here.
\<close>

record slip39_table =
  button_seq :: "(nat \<times> nat) list" \<comment> \<open>sequence and index\<close>
  slip39_words :: "word_bytes list"

subsection \<open>The search of the C library\<close>

function find_loop :: "(nat \<times> nat) list \<Rightarrow> nat \<Rightarrow> nat \<Rightarrow> nat \<Rightarrow> nat" where
  "find_loop qs s low high =
     (if high - low > 1 then
        let mid = (high + low) div 2 in
        if fst (qs ! mid) \<ge> s then find_loop qs s low mid else find_loop qs s mid high
      else high)"
  by pat_completeness auto
termination
  by (relation "measure (\<lambda>(qs, s, low, high). high - low)") auto

declare find_loop.simps [simp del]

definition find_sequence :: "(nat \<times> nat) list \<Rightarrow> nat \<Rightarrow> nat" where
  "find_sequence qs s = (if s \<le> fst (qs ! 0) then 0 else find_loop qs s 0 (length qs))"

text \<open>The loop is entered with a sequence that is not zero.\<close>

function scale_loop :: "nat \<Rightarrow> nat \<Rightarrow> nat \<times> nat" where
  "scale_loop s multiplier =
     (if 0 < s \<and> s < 1000 then scale_loop (s * 10) (multiplier * 10) else (s, multiplier))"
  by pat_completeness auto
termination
  by (relation "measure (\<lambda>(s, m). 1000 - s)") auto

declare scale_loop.simps [simp del]

definition c_button_sequence_to_word :: "slip39_table \<Rightarrow> nat \<Rightarrow> word_bytes option" where
  "c_button_sequence_to_word T s =
     (let qs = button_seq T in
      if s = 0 then Some (slip39_words T ! snd (qs ! 0))
      else
        let (s, multiplier) = scale_loop s 1; i = find_sequence qs s in
        if i \<ge> length qs \<or> fst (qs ! i) - s \<ge> multiplier then None
        else Some (slip39_words T ! snd (qs ! i)))"

text \<open>\<open>max\<close> starts above zero.\<close>

function range_loop :: "nat \<Rightarrow> nat \<Rightarrow> nat \<Rightarrow> nat \<times> nat \<times> nat" where
  "range_loop low high divider =
     (if 0 < high \<and> high \<le> 1000 then range_loop (low * 10) (high * 10) (divider * 10) else (low, high, divider))"
  by pat_completeness auto
termination
  by (relation "measure (\<lambda>(low, high, d). 1001 - high)") auto

declare range_loop.simps [simp del]

definition mask_digit :: "(nat \<times> nat) list \<Rightarrow> nat \<Rightarrow> nat \<Rightarrow> u16 \<Rightarrow> u16" where
  "mask_digit qs divider i bitmap =
     (let digit = (fst (qs ! i) div divider) mod 10 in bitmap OR push_bit (digit - 1) 1)"

definition c_word_completion_mask :: "slip39_table \<Rightarrow> nat \<Rightarrow> u16" where
  "c_word_completion_mask T p =
     (if p \<ge> 1000 then 0
      else
        let qs = button_seq T; (low, high, divider) = range_loop p (p + 1) 1; divider = divider div 10;
            low = find_sequence qs low; high = find_sequence qs high in
        fold (mask_digit qs divider) [low..<high] 0)"

subsection \<open>The input\<close>

text \<open>\<open>str::parse\<close> for \<open>u16\<close>: an optional plus sign and decimal digits that fit.\<close>

fun parse_digits :: "nat \<Rightarrow> bytes \<Rightarrow> nat option" where
  "parse_digits acc [] = Some acc"
| "parse_digits acc (c # s) =
     (if 48 \<le> c \<and> c \<le> 57 then
        let v = acc * 10 + unat (c - 48) in if v < 2 ^ 16 then parse_digits v s else None
      else None)"

definition parse_u16 :: "bytes \<Rightarrow> u16 option" where
  "parse_u16 s =
     (let s' = (case s of c # r \<Rightarrow> if c = 43 then r else s | [] \<Rightarrow> []) in
      if s' = [] then None else map_option of_nat (parse_digits 0 s'))"

definition mask_full :: u16 where
  "mask_full = 0x1FF"

definition count_ones :: "u16 \<Rightarrow> nat" where
  "count_ones m = length (filter (bit m) [0..<16])"

definition mask_contains_key :: "u16 \<Rightarrow> nat \<Rightarrow> bool" where
  "mask_contains_key m key \<longleftrightarrow> m AND push_bit key 1 \<noteq> 0"

definition mask_is_final :: "u16 \<Rightarrow> bool" where
  "mask_is_final m \<longleftrightarrow> count_ones m \<le> 1"

record slip39_input =
  si_button :: tt_button
  si_textbox :: text_box
  si_multi_tap :: multi_tap
  si_final :: "word_bytes option"
  si_mask :: u16

definition slip39_keys :: "bytes list" where
  "slip39_keys = [[97, 98], [99, 100], [101, 102], [103, 104, 105, 106], [107, 108, 109],
     [110, 111, 112, 113], [114, 115], [116, 117, 118], [119, 120, 121, 122]]"

definition slip39_can_key :: "slip39_input \<Rightarrow> nat \<Rightarrow> (bool, unit) result" where
  "slip39_can_key i key =
     Inr (if mask_is_final (si_mask i) then False
          else pending_key (si_multi_tap i) = Some key \<or> mask_contains_key (si_mask i) key)"

definition key_digit :: "nat \<Rightarrow> (bytes, unit) result" where
  "key_digit key = (let index = key + 1 in if index < 10 then Inr [48 + of_nat index] else Inl Panic)"

text \<open>What the digits so far allow: the keys that can follow, and the word once it is known.\<close>

definition slip39_lookup :: "slip39_table \<Rightarrow> bytes \<Rightarrow> u16 \<times> word_bytes option" where
  "slip39_lookup T content =
     (let sequence = parse_u16 content;
          m = (case Option.bind sequence (slip39_word_completion_mask (\<lambda>p. c_word_completion_mask T (unat p))) of
                 Some m \<Rightarrow> m | None \<Rightarrow> mask_full);
          word = (if mask_is_final m
                  then Option.bind sequence (button_sequence_to_word (\<lambda>p. c_button_sequence_to_word T (unat p)))
                  else None) in
      (m, word))"

definition slip39_complete_word :: "slip39_table \<Rightarrow> event_ctx \<Rightarrow> slip39_input \<Rightarrow> event_ctx \<times> slip39_input" where
  "slip39_complete_word T ctx i =
     (let (m, word) = slip39_lookup T (tb_text (si_textbox i));
          i = i\<lparr>si_mask := m, si_final := word\<rparr>;
          (ctx, b) = (if word \<noteq> None then
              let (ctx, b) = tt_enable ctx (si_button i) in set_content ctx (ContentIcon ICON_LIST_CHECK) b
            else
              let (ctx, b) = tt_disable ctx (si_button i) in set_content ctx (ContentText []) b) in
      (ctx, i\<lparr>si_button := b\<rparr>))"

definition slip39_key_click ::
  "slip39_table \<Rightarrow> event_ctx \<Rightarrow> nat \<Rightarrow> slip39_input \<Rightarrow> (event_ctx \<times> slip39_input, unit) result" where
  "slip39_key_click T ctx key i =
     rbind (unwrap (nth_get slip39_keys key)) (\<lambda>text.
     rbind (click_key ctx key text (si_multi_tap i)) (\<lambda>(edit, ctx, m).
     let i = i\<lparr>si_multi_tap := m\<rparr> in
     rbind (case edit of
         Append _ \<Rightarrow>
           rbind (key_digit key) (\<lambda>d.
           let (ctx, t) = textbox_append ctx d (si_textbox i) in Inr (ctx, i\<lparr>si_textbox := t\<rparr>))
       | ReplaceLast _ \<Rightarrow> Inr (request_paint ctx, i)) (\<lambda>(ctx, i).
     Inr (slip39_complete_word T ctx i))))"

definition slip39_backspace :: "slip39_table \<Rightarrow> event_ctx \<Rightarrow> slip39_input \<Rightarrow> (event_ctx \<times> slip39_input, unit) result" where
  "slip39_backspace T ctx i =
     (let (ctx, m) = clear_pending_state ctx (si_multi_tap i);
          (ctx, t) = delete_last ctx (si_textbox i) in
      Inr (slip39_complete_word T ctx (i\<lparr>si_multi_tap := m, si_textbox := t\<rparr>)))"

definition slip39_long_press :: "slip39_table \<Rightarrow> event_ctx \<Rightarrow> slip39_input \<Rightarrow> (event_ctx \<times> slip39_input, unit) result" where
  "slip39_long_press T ctx i =
     (let (ctx, m) = clear_pending_state ctx (si_multi_tap i);
          (ctx, t) = textbox_clear ctx (si_textbox i) in
      Inr (slip39_complete_word T ctx (i\<lparr>si_multi_tap := m, si_textbox := t\<rparr>)))"

definition slip39_event ::
  "event_ctx \<Rightarrow> event \<Rightarrow> slip39_input \<Rightarrow> (mnemonic_input_msg option \<times> event_ctx \<times> slip39_input, unit) result" where
  "slip39_event ctx e i =
     (if is_timeout_event (si_multi_tap i) e then
        let (ctx, m) = clear_pending_state ctx (si_multi_tap i) in
        Inr (Some InputTimedOut, ctx, i\<lparr>si_multi_tap := m\<rparr>)
      else
        let (msg, ctx, b) = tt_button_event ctx e (si_button i);
            i = i\<lparr>si_button := b\<rparr> in
        if msg = Some BtnClicked \<and> mask_is_final (si_mask i) then Inr (Some InputConfirmed, ctx, i)
        else Inr (None, ctx, i))"

definition slip39_place :: "rect \<Rightarrow> slip39_input \<Rightarrow> slip39_input" where
  "slip39_place r i = i\<lparr>si_button := tt_button_place r (si_button i)\<rparr>"

definition slip39_new :: "(slip39_input, unit) result" where
  "slip39_new =
     rbind textbox_empty (\<lambda>t.
     Inr \<lparr>si_button = styled StylePinConfirm (tt_button_new ContentEmpty), si_textbox = t,
          si_multi_tap = multi_tap_new, si_final = None, si_mask = mask_full\<rparr>)"

text \<open>A character that is on no key counts as one of the first key.\<close>

definition key_of_char :: "bytes \<Rightarrow> nat" where
  "key_of_char ch = (case find (\<lambda>k. ch \<in> set (chars (slip39_keys ! k))) [0..<9] of Some k \<Rightarrow> k | None \<Rightarrow> 0)"

fun slip39_setup :: "slip39_table \<Rightarrow> bytes \<Rightarrow> bytes list \<Rightarrow> (bytes \<times> u16 \<times> word_bytes option, unit) result" where
  "slip39_setup T buff [] = Inr (buff, mask_full, None)"
| "slip39_setup T buff (ch # chs) =
     rbind (key_digit (key_of_char ch)) (\<lambda>d.
     let buff = try_push buff d; (m, word) = slip39_lookup T buff in
     if word \<noteq> None then Inr (buff, m, word) else slip39_setup T buff chs)"

definition slip39_prefilled :: "slip39_table \<Rightarrow> bytes \<Rightarrow> (slip39_input, unit) result" where
  "slip39_prefilled T word =
     (if word = [] then slip39_new
      else
        rbind (slip39_setup T [] (chars word)) (\<lambda>(buff, m, final).
        rbind (textbox_new buff) (\<lambda>t.
        Inr \<lparr>si_button = styled StylePinConfirm (tt_button_new ContentEmpty), si_textbox = t,
             si_multi_tap = multi_tap_new, si_final = final, si_mask = m\<rparr>)))"

definition slip39_ops :: "slip39_table \<Rightarrow> slip39_input mnemonic_ops" where
  "slip39_ops T =
     \<lparr>mi_keys = slip39_keys, mi_can_key = slip39_can_key, mi_key_click = slip39_key_click T,
      mi_backspace = slip39_backspace T, mi_long_press = slip39_long_press T,
      mi_is_empty = (\<lambda>i. textbox_is_empty (si_textbox i)), mi_mnemonic = si_final,
      mi_event = slip39_event, mi_place = slip39_place\<rparr>"

subsection \<open>What the search finds\<close>

text \<open>The table is sorted and its sequences have four digits, none of them zero.\<close>

definition seq_digits :: "nat \<Rightarrow> bool" where
  "seq_digits s \<longleftrightarrow> 1000 \<le> s \<and> s \<le> 9999 \<and> s mod 10 \<noteq> 0 \<and> s div 10 mod 10 \<noteq> 0 \<and> s div 100 mod 10 \<noteq> 0"

definition wf_seqs :: "(nat \<times> nat) list \<Rightarrow> bool" where
  "wf_seqs qs \<longleftrightarrow> qs \<noteq> [] \<and> sorted_wrt (<) (map fst qs) \<and> (\<forall>q\<in>set qs. seq_digits (fst q))"

text \<open>The digits of \<open>p\<close> are the first digits of the sequence \<open>s\<close>.\<close>

definition seq_prefix :: "nat \<Rightarrow> nat \<Rightarrow> bool" where
  "seq_prefix p s \<longleftrightarrow> s = p \<or> s div 10 = p \<or> s div 100 = p \<or> s div 1000 = p"

text \<open>The keys that continue the digits, and tables in which a single such key leaves a single word.\<close>

definition next_keys :: "(nat \<times> nat) list \<Rightarrow> nat \<Rightarrow> nat set" where
  "next_keys qs p = {d. d < 9 \<and> p < 1000 \<and> (\<exists>q\<in>set qs. seq_prefix (10 * p + (d + 1)) (fst q))}"

definition unambiguous :: "(nat \<times> nat) list \<Rightarrow> bool" where
  "unambiguous qs \<longleftrightarrow> (\<forall>p i j. i < length qs \<and> j < length qs \<and> seq_prefix p (fst (qs ! i)) \<and> seq_prefix p (fst (qs ! j)) \<and>
     card (next_keys qs p) \<le> 1 \<longrightarrow> i = j)"

lemma next_keys_finite: "finite (next_keys qs p)"
  by (rule finite_subset [of _ "{..<9}"]) (auto simp: next_keys_def)

lemma wf_seqs_nth: "wf_seqs qs \<Longrightarrow> i < j \<Longrightarrow> j < length qs \<Longrightarrow> fst (qs ! i) < fst (qs ! j)"
  by (auto simp: wf_seqs_def sorted_wrt_iff_nth_less)

lemma find_loop_spec:
  assumes "wf_seqs qs" "low < high" "high \<le> length qs" "fst (qs ! low) < s" "high < length qs \<longrightarrow> s \<le> fst (qs ! high)"
  shows "low < find_loop qs s low high \<and> find_loop qs s low high \<le> length qs \<and> fst (qs ! (find_loop qs s low high - 1)) < s \<and>
    (find_loop qs s low high < length qs \<longrightarrow> s \<le> fst (qs ! find_loop qs s low high))"
  using assms
proof (induction qs s low high rule: find_loop.induct)
  case (1 qs s low high)
  let ?mid = "(high + low) div 2"
  show ?case
  proof (cases "high - low > 1")
    case True
    then have mid: "low < ?mid" "?mid < high" "?mid < length qs" "?mid \<le> length qs"
      using 1(5) by auto
    show ?thesis
    proof (cases "s \<le> fst (qs ! ?mid)")
      case le: True
      then have "low < find_loop qs s low ?mid \<and> find_loop qs s low ?mid \<le> length qs \<and>
          fst (qs ! (find_loop qs s low ?mid - 1)) < s \<and>
          (find_loop qs s low ?mid < length qs \<longrightarrow> s \<le> fst (qs ! find_loop qs s low ?mid))"
        using 1(1) [OF True refl le] 1(3,6) mid by simp
      moreover have "find_loop qs s low high = find_loop qs s low ?mid"
        using le True by (subst find_loop.simps) (simp add: Let_def)
      ultimately show ?thesis
        by simp
    next
      case False
      then have "?mid < find_loop qs s ?mid high \<and> find_loop qs s ?mid high \<le> length qs \<and>
          fst (qs ! (find_loop qs s ?mid high - 1)) < s \<and>
          (find_loop qs s ?mid high < length qs \<longrightarrow> s \<le> fst (qs ! find_loop qs s ?mid high))"
        using 1(2) [OF True refl] 1(3,5,7) mid by simp
      moreover have "find_loop qs s low high = find_loop qs s ?mid high"
        using False True by (subst find_loop.simps) (simp add: Let_def)
      ultimately show ?thesis
        using mid(1) by simp
    qed
  next
    case False
    then have h: "high = Suc low" "find_loop qs s low high = high"
      using 1(4) by (auto simp: find_loop.simps)
    then show ?thesis
      using 1(5-7) by simp
  qed
qed

lemma find_sequence_spec:
  assumes "wf_seqs qs"
  shows "find_sequence qs s \<le> length qs" "j < find_sequence qs s \<Longrightarrow> fst (qs ! j) < s"
    "find_sequence qs s \<le> j \<Longrightarrow> j < length qs \<Longrightarrow> s \<le> fst (qs ! j)"
proof -
  let ?r = "find_sequence qs s"
  have ne: "0 < length qs"
    using assms by (auto simp: wf_seqs_def)
  have *: "?r \<le> length qs \<and> (0 < ?r \<longrightarrow> fst (qs ! (?r - 1)) < s) \<and> (?r < length qs \<longrightarrow> s \<le> fst (qs ! ?r))"
    using find_loop_spec [OF assms ne order_refl, of s] by (auto simp: find_sequence_def)
  then show "?r \<le> length qs"
    by simp
  show "fst (qs ! j) < s" if "j < ?r"
    using * that wf_seqs_nth [OF assms, of j "?r - 1"] by (cases "j = ?r - 1") fastforce+
  show "s \<le> fst (qs ! j)" if "?r \<le> j" "j < length qs"
    using * that wf_seqs_nth [OF assms, of ?r j] by (cases "j = ?r") fastforce+
qed

lemma scale_loop_spec:
  assumes "1 \<le> p" "p \<le> 9999"
  shows "\<exists>M\<in>{1, 10, 100, 1000}. scale_loop p 1 = (p * M, M) \<and> 1000 \<le> p * M \<and> p * M \<le> 9999"
proof -
  consider "p < 10" | "10 \<le> p" "p < 100" | "100 \<le> p" "p < 1000" | "1000 \<le> p"
    by linarith
  then show ?thesis
    using assms by cases (simp_all add: scale_loop.simps)
qed

lemma range_loop_spec:
  assumes "1 \<le> p" "p \<le> 999"
  shows "\<exists>M\<in>{10, 100, 1000}. range_loop p (p + 1) 1 = (p * M, (p + 1) * M, M) \<and> 1000 \<le> p * M \<and> p * M \<le> 9999"
proof -
  consider "p < 10" | "10 \<le> p" "p < 100" | "100 \<le> p" "p < 1000"
    using assms by linarith
  then show ?thesis
    using assms by cases (simp_all add: range_loop.simps)
qed

text \<open>A sequence in digits, and its prefixes.\<close>

lemma four_digits:
  assumes "s \<le> (9999 :: nat)"
  obtains a b c d where "s = 1000 * a + 100 * b + 10 * c + d" "a < 10" "b < 10" "c < 10" "d < 10"
    "s div 10 = 100 * a + 10 * b + c" "s div 100 = 10 * a + b" "s div 1000 = a"
    "s mod 10 = d" "s div 10 mod 10 = c" "s div 100 mod 10 = b"
proof -
  let ?a = "s div 1000" and ?b = "s div 100 mod 10" and ?c = "s div 10 mod 10" and ?d = "s mod 10"
  have h: "s div 1000 = s div 100 div 10" "s div 100 = s div 10 div 10"
    by (simp_all add: div_mult2_eq [symmetric])
  have "s = 10 * (s div 10) + ?d" "s div 10 = 10 * (s div 100) + ?c" "s div 100 = 10 * ?a + ?b"
    by (simp_all add: h)
  moreover have "?a < 10" "?b < 10" "?c < 10" "?d < 10"
    using assms by auto
  ultimately show thesis
    by (intro that [of ?a ?b ?c ?d]) (linarith | rule refl)+
qed

text \<open>The sequences with a prefix are those in a range.\<close>

lemma seq_prefix_range:
  assumes "M \<in> {1, 10, 100, 1000}" "1000 \<le> p * M" "p * M \<le> 9999" "1000 \<le> s" "s \<le> 9999"
  shows "seq_prefix p s \<longleftrightarrow> p * M \<le> s \<and> s < (p + 1) * M"
proof -
  obtain a b c d where s: "s = 1000 * a + 100 * b + 10 * c + d" "a < 10" "b < 10" "c < 10" "d < 10"
      "s div 10 = 100 * a + 10 * b + c" "s div 100 = 10 * a + b" "s div 1000 = a"
    using four_digits [OF assms(5)] by metis
  then have "1 \<le> a"
    using assms(4) by linarith
  show ?thesis
    unfolding seq_prefix_def s(6-8) using assms(1-3) s(1-5) \<open>1 \<le> a\<close> by (elim insertE emptyE; simp; linarith?)
qed

lemma digit_eq: "d < 10 \<Longrightarrow> e < 10 \<Longrightarrow> 10 * x + d = 10 * y + e \<longleftrightarrow> x = y \<and> d = (e :: nat)"
proof -
  assume "d < 10" "e < 10"
  then have "(10 * x + d) div 10 = x" "(10 * x + d) mod 10 = d" "(10 * y + e) div 10 = y" "(10 * y + e) mod 10 = e"
    by simp_all
  then show ?thesis
    by metis
qed

lemma seq_prefix_snoc:
  assumes "M \<in> {10, 100, 1000}" "1000 \<le> p * M" "p * M \<le> 9999" "seq_digits s" "e < 10"
  shows "seq_prefix (10 * p + e) s \<longleftrightarrow> seq_prefix p s \<and> s div (M div 10) mod 10 = e"
proof -
  have "1000 \<le> s" "s \<le> 9999"
    using assms(4) by (auto simp: seq_digits_def)
  then obtain a b c d where s: "s = 1000 * a + 100 * b + 10 * c + d" "a < 10" "b < 10" "c < 10" "d < 10"
      "s div 10 = 100 * a + 10 * b + c" "s div 100 = 10 * a + b" "s div 1000 = a"
    and m: "s mod 10 = d" "s div 10 mod 10 = c" "s div 100 mod 10 = b"
    using four_digits by metis
  have "1 \<le> a"
    using s(1-5) \<open>1000 \<le> s\<close> by linarith
  have e: "s div (M div 10) mod 10 = (if M = 10 then d else if M = 100 then c else b)"
    using assms(1) m by auto
  have "s = 10 * (100 * a + 10 * b + c) + d" "s div 10 = 10 * (10 * a + b) + c" "s div 1000 < 10 * p"
    using s assms(1,2) by auto
  then have f: "s = 10 * p + e \<longleftrightarrow> 100 * a + 10 * b + c = p \<and> d = e" "s div 10 = 10 * p + e \<longleftrightarrow> 10 * a + b = p \<and> c = e"
      "s div 100 = 10 * p + e \<longleftrightarrow> a = p \<and> b = e" "s div 1000 = 10 * p + e \<longleftrightarrow> False"
    using digit_eq [OF s(5) assms(5)] digit_eq [OF s(4) assms(5)] digit_eq [OF s(3) assms(5)] s(7)
    by (simp_all only: s(7)) auto
  consider "M = 10" "100 \<le> p" "p \<le> 999" | "M = 100" "10 \<le> p" "p \<le> 99" | "M = 1000" "1 \<le> p" "p \<le> 9"
    using assms(1-3) by auto
  then show ?thesis
    unfolding seq_prefix_def f unfolding s(6-8) e using s(1-5) \<open>1 \<le> a\<close> by cases auto
qed

lemma seq_range:
  assumes "wf_seqs qs" "i < length qs"
  shows "1000 \<le> fst (qs ! i)" "fst (qs ! i) \<le> 9999" "seq_digits (fst (qs ! i))"
proof -
  have "qs ! i \<in> set qs"
    using assms(2) by simp
  then show "1000 \<le> fst (qs ! i)" "fst (qs ! i) \<le> 9999" "seq_digits (fst (qs ! i))"
    using assms(1) unfolding wf_seqs_def seq_digits_def by metis+
qed

lemma word_spec:
  assumes "wf_seqs (button_seq T)" "1 \<le> p" "p \<le> 9999"
  shows "case c_button_sequence_to_word T p of
      None \<Rightarrow> \<forall>i<length (button_seq T). \<not> seq_prefix p (fst (button_seq T ! i))
    | Some w \<Rightarrow> \<exists>i<length (button_seq T). w = slip39_words T ! snd (button_seq T ! i) \<and>
        seq_prefix p (fst (button_seq T ! i)) \<and> (\<forall>j<i. \<not> seq_prefix p (fst (button_seq T ! j)))"
proof -
  let ?qs = "button_seq T"
  obtain M where M: "M \<in> {1, 10, 100, 1000}" "scale_loop p 1 = (p * M, M)" "1000 \<le> p * M" "p * M \<le> 9999"
    using scale_loop_spec [OF assms(2,3)] by blast
  define r where "r = find_sequence ?qs (p * M)"
  note F = find_sequence_spec [OF assms(1), where s = "p * M", folded r_def]
  have pre: "seq_prefix p (fst (?qs ! i)) \<longleftrightarrow> p * M \<le> fst (?qs ! i) \<and> fst (?qs ! i) < (p + 1) * M" if "i < length ?qs" for i
    using seq_prefix_range [OF M(1,3,4) seq_range(1,2) [OF assms(1) that]] .
  have w: "c_button_sequence_to_word T p =
      (if length ?qs \<le> r \<or> M \<le> fst (?qs ! r) - p * M then None else Some (slip39_words T ! snd (?qs ! r)))"
    using assms(2) M(2) by (simp add: c_button_sequence_to_word_def Let_def r_def)
  show ?thesis
  proof (cases "length ?qs \<le> r \<or> M \<le> fst (?qs ! r) - p * M")
    case True
    have "\<not> seq_prefix p (fst (?qs ! i))" if i: "i < length ?qs" for i
    proof
      assume "seq_prefix p (fst (?qs ! i))"
      then have b: "p * M \<le> fst (?qs ! i)" "fst (?qs ! i) < p * M + M"
        using pre [OF i] by simp_all
      then have "r \<le> i"
        using F(2) [of i] by (meson leI not_le)
      then have "fst (?qs ! r) \<le> fst (?qs ! i)" "r < length ?qs"
        using wf_seqs_nth [OF assms(1), of r i] i by (cases "r = i", auto)
      then show False
        using True b by linarith
    qed
    then show ?thesis
      using w True by simp
  next
    case False
    then have r: "r < length ?qs" "fst (?qs ! r) < (p + 1) * M" "p * M \<le> fst (?qs ! r)"
      using F(3) [of r] by auto
    moreover have "\<not> seq_prefix p (fst (?qs ! j))" if "j < r" for j
      using pre [of j] F(2) [OF that] that r(1) by simp
    ultimately show ?thesis
      using w False pre [OF r(1)] by auto
  qed
qed

lemma mask_digit_fold:
  assumes "\<forall>i\<in>set is. (fst (qs ! i) div k) mod 10 \<noteq> 0"
  shows "bit (fold (mask_digit qs k) is b) n \<longleftrightarrow> bit b n \<or> (\<exists>i\<in>set is. (fst (qs ! i) div k) mod 10 = n + 1)"
  using assms
proof (induction "is" arbitrary: b)
  case (Cons i "is")
  let ?d = "(fst (qs ! i) div k) mod 10"
  have d: "?d \<noteq> 0" "?d < 10"
    using Cons.prems by auto
  then have "bit (mask_digit qs k i b) n \<longleftrightarrow> bit b n \<or> ?d = n + 1"
    by (auto simp: mask_digit_def Let_def bit_or_iff bit_exp_iff)
  then show ?case
    using Cons by auto
qed simp

lemma seq_digits_div: "seq_digits s \<Longrightarrow> M \<in> {10, 100, 1000} \<Longrightarrow> s div (M div 10) mod 10 \<noteq> 0"
  by (auto simp: seq_digits_def)

lemma mask_spec:
  assumes "wf_seqs (button_seq T)" "1 \<le> p" "p \<le> 999"
  shows "bit (c_word_completion_mask T p) n \<longleftrightarrow>
    n < 9 \<and> (\<exists>i<length (button_seq T). seq_prefix (10 * p + (n + 1)) (fst (button_seq T ! i)))"
proof -
  let ?qs = "button_seq T"
  obtain M where M: "M \<in> {10, 100, 1000}" "range_loop p (p + 1) 1 = (p * M, (p + 1) * M, M)" "1000 \<le> p * M" "p * M \<le> 9999"
    using range_loop_spec [OF assms(2,3)] by blast
  define a b where "a = find_sequence ?qs (p * M)" and "b = find_sequence ?qs ((p + 1) * M)"
  note A = find_sequence_spec [OF assms(1), where s = "p * M", folded a_def]
  note B = find_sequence_spec [OF assms(1), where s = "(p + 1) * M", folded b_def]
  have pre: "seq_prefix p (fst (?qs ! i)) \<longleftrightarrow> a \<le> i \<and> i < b" if "i < length ?qs" for i
  proof -
    have "seq_prefix p (fst (?qs ! i)) \<longleftrightarrow> p * M \<le> fst (?qs ! i) \<and> fst (?qs ! i) < (p + 1) * M"
      using seq_prefix_range [OF _ M(3,4) seq_range(1,2) [OF assms(1) that]] M(1) by blast
    also have "\<dots> \<longleftrightarrow> a \<le> i \<and> i < b"
      using A(2,3) [of i] B(2,3) [of i] that by (meson leD leI)
    finally show ?thesis .
  qed
  have "c_word_completion_mask T p = fold (mask_digit ?qs (M div 10)) [a..<b] 0"
    using assms(3) M(2) by (simp add: c_word_completion_mask_def Let_def a_def b_def)
  moreover have len: "i < length ?qs" if "i < b" for i
    using that B(1) by simp
  moreover have "fst (?qs ! i) div (M div 10) mod 10 \<noteq> 0" if "i < b" for i
    using seq_digits_div [OF seq_range(3) [OF assms(1) len [OF that]] M(1)] .
  ultimately have "bit (c_word_completion_mask T p) n \<longleftrightarrow> (\<exists>i\<in>{a..<b}. fst (?qs ! i) div (M div 10) mod 10 = n + 1)"
    using mask_digit_fold [of "[a..<b]" ?qs "M div 10" 0 n] by simp
  also have "\<dots> \<longleftrightarrow> n < 9 \<and> (\<exists>i<length ?qs. seq_prefix p (fst (?qs ! i)) \<and> fst (?qs ! i) div (M div 10) mod 10 = n + 1)"
  proof -
    have "x mod 10 = n + 1 \<Longrightarrow> n < 9" for x
      using mod_less_divisor [of 10 x] by linarith
    then show ?thesis
      using pre len by (metis atLeastLessThan_iff)
  qed
  also have "\<dots> \<longleftrightarrow> n < 9 \<and> (\<exists>i<length ?qs. seq_prefix (10 * p + (n + 1)) (fst (?qs ! i)))"
    using seq_prefix_snoc [OF M(1,3,4) seq_range(3) [OF assms(1)], of _ "n + 1"] by auto
  finally show ?thesis .
qed

text \<open>
  C23.  The search by keys.  For every sequence of up to four digits, the completion mask has exactly the bits
  of the keys that continue the sequence to one of the table, and the word that is found is the first one
  whose sequence starts with the digits; there is none exactly if no sequence does.
\<close>

theorem slip39_search:
  assumes "wf_seqs (button_seq T)" "1 \<le> p" "p \<le> 9999"
  shows "(\<forall>n. bit (c_word_completion_mask T p) n \<longleftrightarrow>
      n < 9 \<and> p < 1000 \<and> (\<exists>i<length (button_seq T). seq_prefix (10 * p + (n + 1)) (fst (button_seq T ! i)))) \<and>
    (case c_button_sequence_to_word T p of
      None \<Rightarrow> \<forall>i<length (button_seq T). \<not> seq_prefix p (fst (button_seq T ! i))
    | Some w \<Rightarrow> \<exists>i<length (button_seq T). w = slip39_words T ! snd (button_seq T ! i) \<and>
        seq_prefix p (fst (button_seq T ! i)) \<and> (\<forall>j<i. \<not> seq_prefix p (fst (button_seq T ! j))))"
proof (intro conjI allI word_spec [OF assms])
  fix n
  show "bit (c_word_completion_mask T p) n \<longleftrightarrow>
      n < 9 \<and> p < 1000 \<and> (\<exists>i<length (button_seq T). seq_prefix (10 * p + (n + 1)) (fst (button_seq T ! i)))"
    using mask_spec [OF assms(1,2), of n] by (cases "p < 1000") (auto simp: c_word_completion_mask_def)
qed

text \<open>Three entries of the table.\<close>

definition example_table :: slip39_table where
  "example_table = \<lparr>button_seq = [(1212, 0), (1216, 2), (2361, 1)],
     slip39_words = [[97, 99, 97, 100, 101, 109, 105, 99], [100, 101, 110, 97], [97, 100, 97, 112, 116]]\<rparr>"

theorem slip39_search_witness:
  "wf_seqs (button_seq example_table) \<and> bit (c_word_completion_mask example_table 121) 5 \<and>
   c_button_sequence_to_word example_table 23 = Some [100, 101, 110, 97]"
proof -
  have wf: "wf_seqs (button_seq example_table)"
    by (simp add: example_table_def wf_seqs_def seq_digits_def)
  have "\<exists>i<length (button_seq example_table). seq_prefix (10 * 121 + (5 + 1)) (fst (button_seq example_table ! i))"
    by (rule exI [of _ 1]) (simp add: example_table_def seq_prefix_def)
  then have "bit (c_word_completion_mask example_table 121) 5"
    using slip39_search [OF wf, of 121] by simp
  moreover have "c_button_sequence_to_word example_table 23 = Some [100, 101, 110, 97]"
    by code_simp
  ultimately show ?thesis
    using wf by blast
qed

subsection \<open>The invariant of the typed digits\<close>

text \<open>
  The digits are those of the nine keys.  The word, once there is one, is what the digits give; while the
  mask is final and the button is enabled there is one.
\<close>

definition slip39_inv :: "slip39_table \<Rightarrow> slip39_input \<Rightarrow> bool" where
  "slip39_inv T i \<longleftrightarrow>
     (\<forall>c\<in>set (tb_text (si_textbox i)). 49 \<le> c \<and> c \<le> 57) \<and>
     (si_final i \<noteq> None \<longrightarrow> slip39_lookup T (tb_text (si_textbox i)) = (si_mask i, si_final i)) \<and>
     (mask_is_final (si_mask i) \<and> \<not> tt_is_disabled (si_button i) \<longrightarrow> si_final i \<noteq> None)"

text \<open>
  A word that is confirmed is the first one whose sequence starts with the digits, and at most one key
  could follow them.
\<close>

definition slip39_done :: "slip39_table \<Rightarrow> slip39_input \<Rightarrow> slip39_input \<Rightarrow> bool" where
  "slip39_done T i i' \<longleftrightarrow>
     (\<exists>s j. parse_u16 (tb_text (si_textbox i)) = Some s \<and> j < length (button_seq T) \<and>
       si_final i' = Some (slip39_words T ! snd (button_seq T ! j)) \<and>
       seq_prefix (unat s) (fst (button_seq T ! j)) \<and> (\<forall>k<j. \<not> seq_prefix (unat s) (fst (button_seq T ! k))) \<and>
       (\<forall>k l d e. k < length (button_seq T) \<and> l < length (button_seq T) \<and> d < 9 \<and> e < 9 \<and> unat s < 1000 \<and>
          seq_prefix (10 * unat s + (d + 1)) (fst (button_seq T ! k)) \<and>
          seq_prefix (10 * unat s + (e + 1)) (fst (button_seq T ! l)) \<longrightarrow> d = e))"

lemma mask_final_unique:
  assumes "mask_is_final m" "bit m a" "bit m b"
  shows "a = b"
proof -
  let ?xs = "filter (bit m) [0..<16]"
  have "a \<in> set ?xs" "b \<in> set ?xs"
    using assms(2,3) bit_imp_le_length [of m] by fastforce+
  moreover have "?xs = [] \<or> (\<exists>x. ?xs = [x])"
    using assms(1) by (cases ?xs) (auto simp: mask_is_final_def count_ones_def)
  ultimately show ?thesis
    by (metis empty_iff list.set(1) singleton_iff list.simps(15))
qed

lemma mask_full_not_final: "\<not> mask_is_final mask_full"
  by code_simp

lemma slip39_lookup_word:
  assumes "wf_seqs (button_seq T)" "slip39_lookup T content = (m, Some w)"
  shows "\<exists>s. parse_u16 content = Some s \<and> 1 \<le> unat s \<and> unat s \<le> 9999 \<and> mask_is_final (c_word_completion_mask T (unat s)) \<and>
    c_button_sequence_to_word T (unat s) = Some w"
proof -
  obtain s where s: "parse_u16 content = Some s"
    using assms(2) by (cases "parse_u16 content") (auto simp: slip39_lookup_def Let_def split: if_splits)
  have m: "m = (case slip39_word_completion_mask (\<lambda>p. c_word_completion_mask T (unat p)) s of Some m \<Rightarrow> m | None \<Rightarrow> mask_full)"
      "mask_is_final m" "button_sequence_to_word (\<lambda>p. c_button_sequence_to_word T (unat p)) s = Some w"
    using assms(2) s by (auto simp: slip39_lookup_def Let_def split: if_splits)
  then have "1 \<le> s" "s \<le> 9999" "mask_is_final (c_word_completion_mask T (unat s))"
    using mask_full_not_final by (auto simp: slip39_word_completion_mask_def split: if_splits)
  then show ?thesis
    using s m(3) by (auto simp: word_le_nat_alt button_sequence_to_word_def split: option.splits)
qed

lemma slip39_final_done:
  assumes "wf_seqs (button_seq T)" "slip39_inv T i" "si_final i \<noteq> None" "si_final i' = si_final i"
  shows "slip39_done T i i'"
proof -
  obtain w where w: "si_final i = Some w" "slip39_lookup T (tb_text (si_textbox i)) = (si_mask i, Some w)"
    using assms(2,3) by (auto simp: slip39_inv_def)
  then obtain s where s: "parse_u16 (tb_text (si_textbox i)) = Some s" "1 \<le> unat s" "unat s \<le> 9999"
      "mask_is_final (c_word_completion_mask T (unat s))" "c_button_sequence_to_word T (unat s) = Some w"
    using slip39_lookup_word [OF assms(1)] by blast
  have "d = e" if "k < length (button_seq T)" "l < length (button_seq T)" "d < 9" "e < 9" "unat s < 1000"
      "seq_prefix (10 * unat s + (d + 1)) (fst (button_seq T ! k))" "seq_prefix (10 * unat s + (e + 1)) (fst (button_seq T ! l))"
    for k l d e
    using mask_final_unique [OF s(4), of d e] mask_spec [OF assms(1) s(2), of d] mask_spec [OF assms(1) s(2), of e] that by auto
  moreover obtain j where "j < length (button_seq T)" "w = slip39_words T ! snd (button_seq T ! j)"
      "seq_prefix (unat s) (fst (button_seq T ! j))" "\<forall>k<j. \<not> seq_prefix (unat s) (fst (button_seq T ! k))"
    using word_spec [OF assms(1) s(2,3)] s(5) by auto
  ultimately show ?thesis
    using s(1) w(1) assms(4) unfolding slip39_done_def by metis
qed

lemma set_content_disabled: "tt_is_disabled (snd (set_content ctx c b)) = tt_is_disabled b"
  by (simp add: set_content_def tt_is_disabled_def)

lemma slip39_complete_inv:
  assumes "\<forall>c\<in>set (tb_text (si_textbox i)). 49 \<le> c \<and> c \<le> 57"
  shows "slip39_inv T (snd (slip39_complete_word T ctx i))"
proof -
  obtain m word where l: "slip39_lookup T (tb_text (si_textbox i)) = (m, word)"
    by (metis surj_pair)
  define b where "b = snd (if word \<noteq> None then
      let (ctx, b) = tt_enable ctx (si_button i) in set_content ctx (ContentIcon ICON_LIST_CHECK) b
    else let (ctx, b) = tt_disable ctx (si_button i) in set_content ctx (ContentText []) b)"
  have "tt_is_disabled b \<longleftrightarrow> word = None"
    by (auto simp: b_def split_beta Let_def set_content_disabled tt_enable_def tt_disable_def tt_set_def)
      (simp_all add: tt_is_disabled_def)
  moreover have "snd (slip39_complete_word T ctx i) = i\<lparr>si_mask := m, si_final := word, si_button := b\<rparr>"
    by (simp add: slip39_complete_word_def l b_def split_beta Let_def)
  ultimately show ?thesis
    using assms l by (auto simp: slip39_inv_def)
qed

lemma key_digit_ok: "key < 9 \<Longrightarrow> key_digit key = Inr [48 + of_nat (key + 1)] \<and> (49 :: u8) \<le> 48 + of_nat (key + 1) \<and> 48 + of_nat (key + 1) \<le> (57 :: u8)"
proof -
  assume "key < 9"
  moreover have "\<forall>k<9. (49 :: u8) \<le> 48 + of_nat (k + 1) \<and> 48 + of_nat (k + 1) \<le> (57 :: u8)"
    by code_simp
  ultimately show ?thesis
    by (simp add: key_digit_def)
qed

lemma length_slip39_keys: "length slip39_keys = 9"
  by (simp add: slip39_keys_def)

lemma slip39_keys_nth: "key < 9 \<Longrightarrow> nth_get slip39_keys key = Some (slip39_keys ! key) \<and> slip39_keys ! key \<in> set slip39_keys"
  by (simp add: nth_get_def length_slip39_keys)

lemma slip39_keys_letters: "t \<in> set slip39_keys \<Longrightarrow> 1 < length t \<and> (\<forall>c\<in>set t. letter c)"
  by (auto simp: slip39_keys_def letter_def)

lemma try_push_set: "set (try_push s t) \<subseteq> set s \<union> set t"
  by (auto simp: try_push_def push_str_def)

lemma slip39_key_click_inv:
  assumes "slip39_inv T i" "key < 9"
  shows "\<exists>ctx' i'. slip39_key_click T ctx key i = Inr (ctx', i') \<and> slip39_inv T i'"
proof -
  let ?text = "slip39_keys ! key"
  have tx: "nth_get slip39_keys key = Some ?text" "1 < length ?text" "\<forall>c\<in>set ?text. \<not> cont c"
    using slip39_keys_nth [OF assms(2)] slip39_keys_letters letter_no_zero(2) by auto
  obtain c ctx1 m where c: "click_key ctx key ?text (si_multi_tap i) =
      (Inr (if pending_key (si_multi_tap i) = Some key then ReplaceLast [c] else Append [c], ctx1, m) :: (_, unit) result)"
    using click_key_letter [OF tx(2,3), of ctx key "si_multi_tap i"] by metis
  have d: "\<forall>c\<in>set (tb_text (si_textbox i)). 49 \<le> c \<and> c \<le> 57"
    using assms(1) by (simp add: slip39_inv_def)
  define j where "j = (if pending_key (si_multi_tap i) = Some key then i\<lparr>si_multi_tap := m\<rparr>
    else i\<lparr>si_multi_tap := m, si_textbox := snd (textbox_append ctx1 [48 + of_nat (key + 1)] (si_textbox i))\<rparr>)"
  have "\<forall>c\<in>set (tb_text (si_textbox j)). 49 \<le> c \<and> c \<le> 57"
    using d key_digit_ok [OF assms(2)] try_push_set [of "tb_text (si_textbox i)" "[48 + of_nat (key + 1)]"]
    by (auto simp: j_def textbox_append_def)
  then have "slip39_inv T (snd (slip39_complete_word T ctx' j))" for ctx'
    by (rule slip39_complete_inv)
  moreover have "\<exists>ctx'. slip39_key_click T ctx key i = Inr (slip39_complete_word T ctx' j)"
    using key_digit_ok [OF assms(2)]
    by (auto simp: slip39_key_click_def tx(1) c j_def textbox_append_def)
  ultimately show ?thesis
    by (metis prod.collapse)
qed

lemma slip39_erase_inv:
  assumes "slip39_inv T i"
  shows "\<exists>ctx' i'. slip39_backspace T ctx i = Inr (ctx', i') \<and> slip39_inv T i'"
    "\<exists>ctx' i'. slip39_long_press T ctx i = Inr (ctx', i') \<and> slip39_inv T i'"
proof -
  have d: "\<forall>c\<in>set (tb_text (si_textbox i)). 49 \<le> c \<and> c \<le> 57"
    using assms by (simp add: slip39_inv_def)
  have sub: "set (tb_text (snd (delete_last ctx' (si_textbox i)))) \<subseteq> set (tb_text (si_textbox i))" for ctx'
    by (auto simp: delete_last_def split: option.split dest!: string_pop_text)
  have clr: "tb_text (snd (textbox_clear ctx' (si_textbox i))) = []" for ctx'
    by (auto simp: textbox_clear_def textbox_replace_def try_push_def push_str_def SHORT_CAPACITY_def)
  obtain ctx1 m where m: "clear_pending_state ctx (si_multi_tap i) = (ctx1, m)"
    by (metis surj_pair)
  obtain ctx2 t where t: "delete_last ctx1 (si_textbox i) = (ctx2, t)"
    by (metis surj_pair)
  obtain ctx3 u where u: "textbox_clear ctx1 (si_textbox i) = (ctx3, u)"
    by (metis surj_pair)
  have "slip39_inv T (snd (slip39_complete_word T ctx2 (i\<lparr>si_multi_tap := m, si_textbox := t\<rparr>)))"
    using d sub [of ctx1] t by (intro slip39_complete_inv) auto
  then show "\<exists>ctx' i'. slip39_backspace T ctx i = Inr (ctx', i') \<and> slip39_inv T i'"
    using m t by (simp add: slip39_backspace_def) (metis prod.collapse)
  have "slip39_inv T (snd (slip39_complete_word T ctx3 (i\<lparr>si_multi_tap := m, si_textbox := u\<rparr>)))"
    using clr [of ctx1] u by (intro slip39_complete_inv) auto
  then show "\<exists>ctx' i'. slip39_long_press T ctx i = Inr (ctx', i') \<and> slip39_inv T i'"
    using m u by (simp add: slip39_long_press_def) (metis prod.collapse)
qed

lemma slip39_event_inv:
  assumes "wf_seqs (button_seq T)" "slip39_inv T i"
  shows "\<exists>m ctx' i'. slip39_event ctx e i = Inr (m, ctx', i') \<and> slip39_inv T i' \<and>
    (m = Some InputConfirmed \<longrightarrow> slip39_done T i i')"
proof (cases "is_timeout_event (si_multi_tap i) e")
  case True
  then show ?thesis
    using assms(2) by (simp add: slip39_event_def slip39_inv_def split: prod.split)
next
  case False
  obtain mb ctx1 b where b: "tt_button_event ctx e (si_button i) = (mb, ctx1, b)"
    by (metis prod_cases3)
  note K = tt_button_event_keeps [OF b]
  have "slip39_inv T (i\<lparr>si_button := b\<rparr>)"
    using assms(2) K(2) by (simp add: slip39_inv_def)
  moreover have "slip39_done T i (i\<lparr>si_button := b\<rparr>)" if "mb = Some BtnClicked" "mask_is_final (si_mask i)"
    using slip39_final_done [OF assms] assms(2) K(3) that by (auto simp: slip39_inv_def)
  ultimately show ?thesis
    using False b by (simp add: slip39_event_def Let_def)
qed

lemma slip39_event_paint: "slip39_event ctx RequestPaint i = Inr (None, ctx, i)"
  by (simp add: slip39_event_def tt_button_event_def is_timeout_event_def)

lemma key_of_char_less: "key_of_char ch < 9"
  by (auto simp: key_of_char_def find_Some_iff split: option.split)

lemma slip39_setup_ok:
  "\<forall>c\<in>set buff. 49 \<le> c \<and> c \<le> 57 \<Longrightarrow> length buff \<le> SHORT_CAPACITY \<Longrightarrow> \<exists>buff' m word. slip39_setup T buff chs = Inr (buff', m, word) \<and>
     (\<forall>c\<in>set buff'. 49 \<le> c \<and> c \<le> 57) \<and> length buff' \<le> SHORT_CAPACITY \<and>
     (if word = None then m = mask_full else slip39_lookup T buff' = (m, word))"
proof (induction chs arbitrary: buff)
  case (Cons ch chs)
  let ?b = "try_push buff [48 + of_nat (key_of_char ch + 1)]"
  obtain m word where l: "slip39_lookup T ?b = (m, word)"
    by (metis surj_pair)
  have "\<forall>c\<in>set ?b. 49 \<le> c \<and> c \<le> 57" "length ?b \<le> SHORT_CAPACITY"
    using Cons.prems try_push_set [of buff "[48 + of_nat (key_of_char ch + 1)]"] key_digit_ok [OF key_of_char_less [of ch]]
      try_push_length [OF Cons.prems(2)] by auto
  then show ?case
    using Cons.IH [of ?b] key_digit_ok [OF key_of_char_less [of ch]] l by (cases word) (auto simp: Let_def)
qed simp

lemma slip39_prefilled_inv: "\<exists>i. slip39_prefilled T word = Inr i \<and> slip39_inv T i"
proof -
  obtain buff m final where s: "slip39_setup T [] (chars word) = Inr (buff, m, final)" "\<forall>c\<in>set buff. 49 \<le> c \<and> c \<le> 57"
      "length buff \<le> SHORT_CAPACITY" "if final = None then m = mask_full else slip39_lookup T buff = (m, final)"
    using slip39_setup_ok [of "[]" T "chars word"] by auto
  then show ?thesis
    using mask_full_not_final
    by (cases "word = []") (auto simp: slip39_prefilled_def slip39_new_def textbox_empty_def textbox_new_def push_str_def
        slip39_inv_def split: if_splits)
qed

end
