(* ===== verification/Mnemonic_Keyboard.thy ===== *)
theory Mnemonic_Keyboard
  imports Slip39_Input "HOL-Library.Code_Target_Nat"
begin

section \<open>The keyboard for the words of a seed\<close>

text \<open>
  \<open>MnemonicKeyboard\<close> of \<^verbatim>\<open>model_tt/component/keyboard/mnemonic.rs\<close>, for any input that implements the trait
  \<open>MnemonicInput\<close>: nine keys, a key to erase, the input that completes and confirms, and the swipe back to
  the previous word.  The contract of an input is a locale, which both inputs satisfy.  The area of the
  prompt depends on the layout of its text and is left out, like drawing.
\<close>

subsection \<open>Wrappers of handlers that may panic\<close>

definition child_mutate_r ::
  "(event_ctx \<Rightarrow> 'c \<Rightarrow> ('u \<times> event_ctx \<times> 'c, unit) result) \<Rightarrow> event_ctx \<Rightarrow> 'c child \<Rightarrow> ('u \<times> event_ctx \<times> 'c child, unit) result" where
  "child_mutate_r component_func ctx ch =
     (let prev_requested = paint_requested ctx in
      rbind (component_func (ctx\<lparr>paint_requested := False\<rparr>) (wrapped ch)) (\<lambda>(result, ctx, c).
      Inr (if paint_requested ctx then (result, ctx, ch\<lparr>wrapped := c, marked_for_paint := True\<rparr>)
           else (result, ctx\<lparr>paint_requested := prev_requested\<rparr>, ch\<lparr>wrapped := c\<rparr>))))"

type_synonym ('c, 'm) handler_r = "event_ctx \<Rightarrow> event \<Rightarrow> 'c \<Rightarrow> ('m option \<times> event_ctx \<times> 'c, unit) result"

definition child_event_r :: "('c, 'm) handler_r \<Rightarrow> ('c child, 'm) handler_r" where
  "child_event_r ev ctx e ch =
     child_mutate_r (\<lambda>ctx c. ev (if e = RequestPaint then request_paint ctx else ctx) e c) ctx ch"

definition maybe_event_r :: "('c, 'm) handler_r \<Rightarrow> ('c maybe, 'm) handler_r" where
  "maybe_event_r ev ctx e m =
     (if mb_visible m then rbind (ev ctx e (mb_inner m)) (\<lambda>(msg, ctx, c). Inr (msg, ctx, m\<lparr>mb_inner := c\<rparr>))
      else Inr (None, ctx, m))"

definition show_if_r :: "('c, 'm) handler_r \<Rightarrow> event_ctx \<Rightarrow> bool \<Rightarrow> 'c maybe \<Rightarrow> (event_ctx \<times> 'c maybe, unit) result" where
  "show_if_r ev ctx show m =
     (if mb_visible m \<noteq> show then
        let m = m\<lparr>mb_visible := show, mb_pad := pad_clear_now (mb_pad m)\<rparr> in
        if show then rbind (ev ctx RequestPaint (mb_inner m)) (\<lambda>(_, ctx, c). Inr (request_paint ctx, m\<lparr>mb_inner := c\<rparr>))
        else Inr (request_paint ctx, m)
      else Inr (ctx, m))"

subsection \<open>The keyboard\<close>

definition MNEMONIC_KEY_COUNT :: nat where
  "MNEMONIC_KEY_COUNT = 9"

datatype mnemonic_keyboard_msg = MkConfirmed | MkPrevious

record 'i mnemonic_keyboard =
  mk_prompt :: "bytes maybe child"
  mk_back :: "tt_button maybe child"
  mk_input :: "'i maybe child"
  mk_keys :: "tt_button child list"
  mk_swipe :: tt_swipe
  can_go_back :: bool

definition IMAGE_BG_BACK_BTN_TALL :: nat where "IMAGE_BG_BACK_BTN_TALL = 6"

definition mnemonic_keyboard_new :: "'i mnemonic_ops \<Rightarrow> 'i \<Rightarrow> bytes \<Rightarrow> bool \<Rightarrow> 'i mnemonic_keyboard" where
  "mnemonic_keyboard_new ops inp prompt go_back =
     (let prompt_visible = mi_is_empty ops inp in
      \<lparr>mk_prompt = child_new (maybe_new THEME_BG prompt prompt_visible),
       mk_back = child_new (maybe_new THEME_BG (with_long_press ERASE_HOLD_DURATION (styled StyleReset
         (tt_button_new (ContentIconBlend IMAGE_BG_BACK_BTN_TALL ICON_BACK (offset_new 30 17))))) (\<not> prompt_visible)),
       mk_input = child_new (maybe_new THEME_BG inp (\<not> prompt_visible)),
       mk_keys = map child_new (map (\<lambda>t. styled StylePin (tt_button_new (ContentText t))) (mi_keys ops)),
       mk_swipe = tt_swipe_right tt_swipe_new, can_go_back = go_back\<rparr>)"

definition kb_input :: "'i mnemonic_keyboard \<Rightarrow> 'i" where
  "kb_input k = mb_inner (wrapped (mk_input k))"

definition kb_mnemonic :: "'i mnemonic_ops \<Rightarrow> 'i mnemonic_keyboard \<Rightarrow> word_bytes option" where
  "kb_mnemonic ops k = mi_mnemonic ops (kb_input k)"

fun toggle_keys ::
  "'i mnemonic_ops \<Rightarrow> 'i \<Rightarrow> nat \<Rightarrow> event_ctx \<Rightarrow> tt_button child list \<Rightarrow> (event_ctx \<times> tt_button child list, unit) result" where
  "toggle_keys ops i key ctx [] = Inr (ctx, [])"
| "toggle_keys ops i key ctx (b # bs) =
     rbind (mi_can_key ops i key) (\<lambda>enabled.
     let (_, ctx, b) = child_mutate (mutate_enable enabled) ctx b in
     rbind (toggle_keys ops i (key + 1) ctx bs) (\<lambda>(ctx, bs). Inr (ctx, b # bs)))"

definition toggle_key_buttons ::
  "'i mnemonic_ops \<Rightarrow> event_ctx \<Rightarrow> 'i mnemonic_keyboard \<Rightarrow> (event_ctx \<times> 'i mnemonic_keyboard, unit) result" where
  "toggle_key_buttons ops ctx k =
     rbind (toggle_keys ops (kb_input k) 0 ctx (mk_keys k)) (\<lambda>(ctx, bs). Inr (ctx, k\<lparr>mk_keys := bs\<rparr>))"

definition mutate_show_if :: "('c, 'm) handler \<Rightarrow> bool \<Rightarrow> event_ctx \<Rightarrow> 'c maybe \<Rightarrow> unit \<times> event_ctx \<times> 'c maybe" where
  "mutate_show_if ev show ctx m = (let (ctx, m) = show_if ev ctx show m in ((), ctx, m))"

definition toggle_prompt_or_input ::
  "'i mnemonic_ops \<Rightarrow> event_ctx \<Rightarrow> 'i mnemonic_keyboard \<Rightarrow> (event_ctx \<times> 'i mnemonic_keyboard, unit) result" where
  "toggle_prompt_or_input ops ctx k =
     (let prompt_visible = mi_is_empty ops (kb_input k);
          (_, ctx, p) = child_mutate (mutate_show_if label_event prompt_visible) ctx (mk_prompt k);
          k = k\<lparr>mk_prompt := p\<rparr> in
      rbind (child_mutate_r (\<lambda>ctx m.
               rbind (show_if_r (mi_event ops) ctx (\<not> prompt_visible) m) (\<lambda>(ctx, m). Inr ((), ctx, m)))
             ctx (mk_input k)) (\<lambda>(_, ctx, i).
      let k = k\<lparr>mk_input := i\<rparr>;
          (_, ctx, b) = child_mutate (mutate_show_if tt_button_event (\<not> prompt_visible)) ctx (mk_back k) in
      Inr (ctx, k\<lparr>mk_back := b\<rparr>)))"

definition on_input_change ::
  "'i mnemonic_ops \<Rightarrow> event_ctx \<Rightarrow> 'i mnemonic_keyboard \<Rightarrow> (event_ctx \<times> 'i mnemonic_keyboard, unit) result" where
  "on_input_change ops ctx k =
     rbind (toggle_key_buttons ops ctx k) (\<lambda>(ctx, k). toggle_prompt_or_input ops ctx k)"

text \<open>An edit of the input, and the update of the keyboard that follows it.\<close>

definition kb_edit ::
  "'i mnemonic_ops \<Rightarrow> (event_ctx \<Rightarrow> 'i \<Rightarrow> (event_ctx \<times> 'i, unit) result) \<Rightarrow> event_ctx \<Rightarrow> 'i mnemonic_keyboard \<Rightarrow>
   (mnemonic_keyboard_msg option \<times> event_ctx \<times> 'i mnemonic_keyboard, unit) result" where
  "kb_edit ops f ctx k =
     rbind (child_mutate_r (\<lambda>ctx m. rbind (f ctx (mb_inner m)) (\<lambda>(ctx, i). Inr ((), ctx, m\<lparr>mb_inner := i\<rparr>)))
            ctx (mk_input k)) (\<lambda>(_, ctx, i).
     rbind (on_input_change ops ctx (k\<lparr>mk_input := i\<rparr>)) (\<lambda>(ctx, k). Inr (None, ctx, k)))"

text \<open>The loop over the keys stops at the first one that is clicked.\<close>

fun keys_event :: "event_ctx \<Rightarrow> event \<Rightarrow> nat \<Rightarrow> tt_button child list \<Rightarrow> nat option \<times> event_ctx \<times> tt_button child list" where
  "keys_event ctx e key [] = (None, ctx, [])"
| "keys_event ctx e key (b # bs) =
     (let (m, ctx, b) = child_event tt_button_event ctx e b in
      if m = Some BtnClicked then (Some key, ctx, b # bs)
      else let (r, ctx, bs) = keys_event ctx e (key + 1) bs in (r, ctx, b # bs))"

definition kb_event :: "'i mnemonic_ops \<Rightarrow> ('i mnemonic_keyboard, mnemonic_keyboard_msg) handler_r" where
  "kb_event ops ctx e k =
     (let (sw, ctx, s) = (if can_go_back k then tt_swipe_event ctx e (mk_swipe k) else (None, ctx, mk_swipe k));
          k = k\<lparr>mk_swipe := s\<rparr> in
      if sw = Some SwipeRight then Inr (Some MkPrevious, ctx, k)
      else
        rbind (child_event_r (maybe_event_r (mi_event ops)) ctx e (mk_input k)) (\<lambda>(m, ctx, i).
        let k = k\<lparr>mk_input := i\<rparr> in
        case m of
          Some InputConfirmed \<Rightarrow> Inr (Some MkConfirmed, ctx, k)
        | Some _ \<Rightarrow> rbind (on_input_change ops ctx k) (\<lambda>(ctx, k). Inr (None, ctx, k))
        | None \<Rightarrow>
          let (m, ctx, b) = child_event (maybe_event tt_button_event) ctx e (mk_back k);
              k = k\<lparr>mk_back := b\<rparr> in
          if m = Some BtnClicked then kb_edit ops (mi_backspace ops) ctx k
          else if m = Some BtnLongPressed then kb_edit ops (mi_long_press ops) ctx k
          else
            let (r, ctx, bs) = keys_event ctx e 0 (mk_keys k);
                k = k\<lparr>mk_keys := bs\<rparr> in
            case r of
              Some key \<Rightarrow> kb_edit ops (\<lambda>ctx. mi_key_click ops ctx key) ctx k
            | None \<Rightarrow> Inr (None, ctx, k)))"

definition MNEMONIC_BUTTON_HEIGHT :: int where
  "MNEMONIC_BUTTON_HEIGHT = 52"

fun place_keys :: "grid \<Rightarrow> nat \<Rightarrow> tt_button child list \<Rightarrow> (tt_button child list, 'e) result" where
  "place_keys g key [] = Inr []"
| "place_keys g key (b # bs) =
     rbind (cell g (key + cols g)) (\<lambda>r.
     rbind (place_keys g (key + 1) bs) (\<lambda>bs.
     Inr (b\<lparr>wrapped := tt_button_place r (wrapped b)\<rparr> # bs)))"

definition kb_place :: "'i mnemonic_ops \<Rightarrow> rect \<Rightarrow> 'i mnemonic_keyboard \<Rightarrow> ('i mnemonic_keyboard, unit) result" where
  "kb_place ops bounds k =
     (let (_, bounds) = split_bottom (inset bounds theme_borders) (4 * MNEMONIC_BUTTON_HEIGHT + 3 * BUTTON_SPACING);
          g = grid_with_spacing (grid_new bounds 4 3) BUTTON_SPACING in
      rbind (row_col g 0 0) (\<lambda>back_area.
      rbind (row_col g 0 1) (\<lambda>a.
      rbind (row_col g 0 3) (\<lambda>b.
      let input_area = rect_union a b;
          i = snd (maybe_place (\<lambda>r i. (r, mi_place ops r i)) input_area (wrapped (mk_input k))) in
      rbind (place_keys g 0 (mk_keys k)) (\<lambda>bs.
      Inr (k\<lparr>mk_swipe := tt_swipe_place bounds (mk_swipe k), mk_back := place_maybe_btn back_area (mk_back k),
            mk_input := (mk_input k)\<lparr>wrapped := i\<rparr>, mk_keys := bs\<rparr>))))))"

subsection \<open>The contract of an input\<close>

text \<open>
  \<open>inv\<close> is the invariant of the input and \<open>allowed\<close> the keys that keep it; an input enables only those.  Its
  handler raises the confirmation only in a state and with a result that \<open>finished\<close> describes, and a handler
  that reports nothing keeps the allowed keys.  A request for painting changes nothing.
\<close>

locale mnemonic_input =
  fixes ops :: "'i mnemonic_ops" and inv :: "'i \<Rightarrow> bool" and allowed :: "'i \<Rightarrow> nat \<Rightarrow> bool" and finished :: "'i \<Rightarrow> 'i \<Rightarrow> bool"
  assumes nine_keys: "length (mi_keys ops) = 9"
    and can_key: "inv i \<Longrightarrow> key < 9 \<Longrightarrow> \<exists>b. mi_can_key ops i key = Inr b \<and> (b \<longrightarrow> allowed i key)"
    and key_click: "inv i \<Longrightarrow> key < 9 \<Longrightarrow> allowed i key \<Longrightarrow> \<exists>ctx' i'. mi_key_click ops ctx key i = Inr (ctx', i') \<and> inv i'"
    and backspace: "inv i \<Longrightarrow> \<exists>ctx' i'. mi_backspace ops ctx i = Inr (ctx', i') \<and> inv i'"
    and erase: "inv i \<Longrightarrow> \<exists>ctx' i'. mi_long_press ops ctx i = Inr (ctx', i') \<and> inv i'"
    and handler: "inv i \<Longrightarrow> \<exists>m ctx' i'. mi_event ops ctx e i = Inr (m, ctx', i') \<and>
      (m = Some InputConfirmed \<longrightarrow> finished i i') \<and> (m \<noteq> Some InputConfirmed \<longrightarrow> inv i') \<and>
      (m = None \<longrightarrow> (\<forall>key. allowed i key \<longrightarrow> allowed i' key))"
    and repaint: "mi_event ops ctx RequestPaint i = Inr (None, ctx, i)"
    and placed: "inv i \<Longrightarrow> inv (mi_place ops r i)" "allowed i key \<Longrightarrow> allowed (mi_place ops r i) key"

definition keys_ok :: "(nat \<Rightarrow> bool) \<Rightarrow> tt_button child list \<Rightarrow> bool" where
  "keys_ok P bs \<longleftrightarrow> length bs = 9 \<and> (\<forall>key<9. \<not> tt_is_disabled (wrapped (bs ! key)) \<longrightarrow> P key)"

lemma child_mutate_r_wrapped:
  assumes "\<And>ctx. \<exists>u ctx' c. f ctx (wrapped ch) = Inr (u, ctx', c) \<and> P u c"
  shows "\<exists>u ctx' ch'. child_mutate_r f ctx ch = Inr (u, ctx', ch') \<and> P u (wrapped ch')"
proof -
  obtain u ctx1 c where "f (ctx\<lparr>paint_requested := False\<rparr>) (wrapped ch) = Inr (u, ctx1, c)" "P u c"
    using assms by blast
  then show ?thesis
    by (cases "paint_requested ctx1") (simp_all add: child_mutate_r_def Let_def)
qed

lemma child_event_r_wrapped:
  assumes "\<And>ctx. \<exists>m ctx' c. ev ctx e (wrapped ch) = Inr (m, ctx', c) \<and> P m c"
  shows "\<exists>m ctx' ch'. child_event_r ev ctx e ch = Inr (m, ctx', ch') \<and> P m (wrapped ch')"
  unfolding child_event_r_def by (rule child_mutate_r_wrapped) (rule assms)

lemma keys_event_keeps:
  "keys_event ctx e n bs = (r, ctx', bs') \<Longrightarrow>
   map (\<lambda>b. tt_is_disabled (wrapped b)) bs' = map (\<lambda>b. tt_is_disabled (wrapped b)) bs \<and>
   (\<forall>key. r = Some key \<longrightarrow> n \<le> key \<and> key - n < length bs \<and> \<not> tt_is_disabled (wrapped (bs ! (key - n))))"
proof (induction bs arbitrary: ctx n r bs' ctx')
  case (Cons b bs)
  obtain m ctx1 b1 where b1: "child_event tt_button_event ctx e b = (m, ctx1, b1)"
    by (metis prod_cases3)
  obtain r2 ctx2 bs2 where bs2: "keys_event ctx1 e (Suc n) bs = (r2, ctx2, bs2)"
    by (metis prod_cases3)
  have eq: "keys_event ctx e n (b # bs) = (if m = Some BtnClicked then (Some n, ctx1, b1 # bs) else (r2, ctx2, b1 # bs2))"
    by (simp add: b1 bs2)
  show ?case
    using Cons.prems child_button_event_keeps(2,3) [OF b1] Cons.IH [OF bs2] unfolding eq
    by (auto simp: nth_Cons' split: if_splits)
qed simp

context mnemonic_input
begin

lemma toggle_keys_ok:
  assumes "inv i"
  shows "n + length bs \<le> 9 \<Longrightarrow> \<exists>ctx' bs'. toggle_keys ops i n ctx bs = Inr (ctx', bs') \<and> length bs' = length bs \<and>
    (\<forall>k<length bs. \<not> tt_is_disabled (wrapped (bs' ! k)) \<longrightarrow> allowed i (n + k))"
proof (induction bs arbitrary: n ctx)
  case (Cons b bs)
  obtain en where en: "mi_can_key ops i n = Inr en" "en \<longrightarrow> allowed i n"
    using can_key [OF assms, of n] Cons.prems by auto
  obtain u ctx1 b1 where b1: "child_mutate (mutate_enable en) ctx b = (u, ctx1, b1)"
    by (metis prod_cases3)
  have d: "tt_is_disabled (wrapped b1) \<longleftrightarrow> \<not> en"
    using child_mutate_enable(2) [OF b1] .
  obtain ctx2 bs2 where bs2: "toggle_keys ops i (Suc n) ctx1 bs = Inr (ctx2, bs2)" "length bs2 = length bs"
      "\<forall>k<length bs. \<not> tt_is_disabled (wrapped (bs2 ! k)) \<longrightarrow> allowed i (Suc n + k)"
    using Cons.IH [of "Suc n" ctx1] Cons.prems by auto
  have "toggle_keys ops i n ctx (b # bs) = Inr (ctx2, b1 # bs2)"
    by (simp add: en(1) b1 bs2(1))
  moreover have "allowed i (n + k)" if "k < length (b # bs)" "\<not> tt_is_disabled (wrapped ((b1 # bs2) ! k))" for k
    using that en(2) d bs2(3) by (cases k) auto
  ultimately show ?case
    using bs2(2) by auto
qed simp

definition kb_inv :: "'i mnemonic_keyboard \<Rightarrow> bool" where
  "kb_inv k \<longleftrightarrow> inv (kb_input k) \<and> keys_ok (allowed (kb_input k)) (mk_keys k)"

lemma show_input:
  "\<exists>u ctx' m'. rbind (show_if_r (mi_event ops) ctx s m) (\<lambda>(ctx, m). Inr ((), ctx, m)) = Inr (u, ctx', m') \<and> mb_inner m' = mb_inner m"
  by (simp add: show_if_r_def repaint Let_def)

lemma on_input_change_inv:
  assumes "inv (kb_input k)" "length (mk_keys k) = 9"
  shows "\<exists>ctx' k'. on_input_change ops ctx k = Inr (ctx', k') \<and> kb_inv k' \<and> kb_input k' = kb_input k \<and> can_go_back k' = can_go_back k"
proof -
  obtain ctx1 bs where bs: "toggle_keys ops (kb_input k) 0 ctx (mk_keys k) = Inr (ctx1, bs)"
      "keys_ok (allowed (kb_input k)) bs"
    using toggle_keys_ok [OF assms(1), of 0 "mk_keys k" ctx] assms(2) by (auto simp: keys_ok_def)
  obtain u p ctx2 where p: "child_mutate (mutate_show_if label_event (mi_is_empty ops (kb_input k))) ctx1 (mk_prompt k) = (u, ctx2, p)"
    by (metis prod_cases3)
  let ?f = "\<lambda>ctx m. rbind (show_if_r (mi_event ops) ctx (\<not> mi_is_empty ops (kb_input k)) m) (\<lambda>(ctx, m). Inr ((), ctx, m))"
  have "\<exists>u ctx' m. ?f ctx (wrapped (mk_input k)) = Inr (u, ctx', m) \<and> mb_inner m = kb_input k" for ctx
    using show_input by (simp add: kb_input_def)
  then obtain v ctx3 i where i: "child_mutate_r ?f ctx2 (mk_input k) = Inr (v, ctx3, i)" "mb_inner (wrapped i) = kb_input k"
    using child_mutate_r_wrapped [of ?f "mk_input k" "\<lambda>u m. mb_inner m = kb_input k" ctx2] by blast
  obtain x ctx4 b where b: "child_mutate (mutate_show_if tt_button_event (\<not> mi_is_empty ops (kb_input k))) ctx3 (mk_back k) = (x, ctx4, b)"
    by (metis prod_cases3)
  have inp: "kb_input (k\<lparr>mk_keys := bs\<rparr>) = kb_input k"
    by (simp add: kb_input_def)
  have "on_input_change ops ctx k = Inr (ctx4, k\<lparr>mk_keys := bs, mk_prompt := p, mk_input := i, mk_back := b\<rparr>)"
    by (simp add: on_input_change_def toggle_key_buttons_def bs(1) toggle_prompt_or_input_def inp p i(1) b)
  then show ?thesis
    using bs(2) i(2) assms(1) by (simp add: kb_inv_def kb_input_def)
qed

lemma kb_edit_inv:
  assumes "\<And>ctx. \<exists>ctx' i'. f ctx (kb_input k) = Inr (ctx', i') \<and> inv i'" "length (mk_keys k) = 9"
  shows "\<exists>ctx' k'. kb_edit ops f ctx k = Inr (None, ctx', k') \<and> kb_inv k' \<and> can_go_back k' = can_go_back k"
proof -
  have "\<exists>u ctx' m'. rbind (f ctx (mb_inner (wrapped (mk_input k)))) (\<lambda>(ctx, i). Inr ((), ctx, (wrapped (mk_input k))\<lparr>mb_inner := i\<rparr>)) =
      Inr (u, ctx', m') \<and> inv (mb_inner m')" for ctx
    using assms(1) [of ctx] by (auto simp: kb_input_def)
  then obtain u ctx1 i where i: "child_mutate_r (\<lambda>ctx m. rbind (f ctx (mb_inner m)) (\<lambda>(ctx, i). Inr ((), ctx, m\<lparr>mb_inner := i\<rparr>)))
      ctx (mk_input k) = Inr (u, ctx1, i)" "inv (mb_inner (wrapped i))"
    using child_mutate_r_wrapped [of "\<lambda>ctx m. rbind (f ctx (mb_inner m)) (\<lambda>(ctx, i). Inr ((), ctx, m\<lparr>mb_inner := i\<rparr>))"
        "mk_input k" "\<lambda>u m. inv (mb_inner m)" ctx] by blast
  have "inv (kb_input (k\<lparr>mk_input := i\<rparr>))"
    using i(2) by (simp add: kb_input_def)
  then obtain ctx2 k' where "on_input_change ops ctx1 (k\<lparr>mk_input := i\<rparr>) = Inr (ctx2, k')" "kb_inv k'" "can_go_back k' = can_go_back k"
    using on_input_change_inv [of "k\<lparr>mk_input := i\<rparr>" ctx1] assms(2) by auto
  then show ?thesis
    by (simp add: kb_edit_def i(1))
qed

lemma keys_event_ok:
  assumes "keys_event ctx e 0 bs = (r, ctx', bs')" "keys_ok P bs"
  shows "keys_ok P bs'" "r = Some key \<Longrightarrow> key < 9 \<and> P key"
proof -
  have m: "map (\<lambda>b. tt_is_disabled (wrapped b)) bs' = map (\<lambda>b. tt_is_disabled (wrapped b)) bs"
    using keys_event_keeps [OF assms(1)] by blast
  then have l: "length bs' = length bs"
    by (metis length_map)
  then have "tt_is_disabled (wrapped (bs' ! k)) = tt_is_disabled (wrapped (bs ! k))" if "k < length bs" for k
    using m that by (metis nth_map)
  then show "keys_ok P bs'"
    using assms(2) l by (simp add: keys_ok_def)
  show "r = Some key \<Longrightarrow> key < 9 \<and> P key"
    using keys_event_keeps [OF assms(1)] assms(2) by (auto simp: keys_ok_def)
qed

text \<open>Every event keeps the invariant or finishes the input; it never panics.\<close>

lemma kb_event_inv:
  assumes "kb_inv k"
  shows "\<exists>m ctx' k'. kb_event ops ctx e k = Inr (m, ctx', k') \<and> can_go_back k' = can_go_back k \<and>
    (m = Some MkConfirmed \<longrightarrow> finished (kb_input k) (kb_input k')) \<and> (m \<noteq> Some MkConfirmed \<longrightarrow> kb_inv k') \<and>
    (m = Some MkPrevious \<longrightarrow> can_go_back k)"
proof -
  have I: "inv (kb_input k)" and N: "length (mk_keys k) = 9" and O: "keys_ok (allowed (kb_input k)) (mk_keys k)"
    using assms by (simp_all add: kb_inv_def keys_ok_def)
  obtain sw ctx1 s where s: "(if can_go_back k then tt_swipe_event ctx e (mk_swipe k) else (None, ctx, mk_swipe k)) = (sw, ctx1, s)"
    by (metis prod_cases3)
  let ?P = "\<lambda>m i'. (m = Some InputConfirmed \<longrightarrow> finished (kb_input k) i') \<and> (m \<noteq> Some InputConfirmed \<longrightarrow> inv i') \<and>
    (m = None \<longrightarrow> (\<forall>key. allowed (kb_input k) key \<longrightarrow> allowed i' key))"
  have "\<exists>m ctx' c. maybe_event_r (mi_event ops) ctx e (wrapped (mk_input k)) = Inr (m, ctx', c) \<and> ?P m (mb_inner c)" for ctx
    using handler [OF I, of ctx e] I by (auto simp: maybe_event_r_def kb_input_def)
  then obtain m ctx2 i where i: "child_event_r (maybe_event_r (mi_event ops)) ctx1 e (mk_input k) = Inr (m, ctx2, i)"
      "?P m (mb_inner (wrapped i))"
    using child_event_r_wrapped [of "maybe_event_r (mi_event ops)" e "mk_input k" "\<lambda>m c. ?P m (mb_inner c)" ctx1] by blast
  obtain mb ctx3 b where b: "child_event (maybe_event tt_button_event) ctx2 e (mk_back k) = (mb, ctx3, b)"
    by (metis prod_cases3)
  obtain r ctx4 bs where bs: "keys_event ctx3 e 0 (mk_keys k) = (r, ctx4, bs)"
    by (metis prod_cases3)
  define ka kb kc kd where "ka = k\<lparr>mk_swipe := s\<rparr>" and "kb = k\<lparr>mk_swipe := s, mk_input := i\<rparr>"
    and "kc = k\<lparr>mk_swipe := s, mk_input := i, mk_back := b\<rparr>"
    and "kd = k\<lparr>mk_swipe := s, mk_input := i, mk_back := b, mk_keys := bs\<rparr>"
  note kdefs = ka_def kb_def kc_def kd_def
  have inp: "kb_input kb = mb_inner (wrapped i)" "kb_input kc = mb_inner (wrapped i)" "kb_input kd = mb_inner (wrapped i)" "kb_input ka = kb_input k"
    and go: "can_go_back ka = can_go_back k" "can_go_back kb = can_go_back k" "can_go_back kc = can_go_back k" "can_go_back kd = can_go_back k"
    and len: "length (mk_keys kb) = 9" "length (mk_keys kc) = 9" "length (mk_keys kd) = 9"
    using N keys_event_ok(1) [OF bs O] by (simp_all add: kdefs kb_input_def keys_ok_def)
  have ev: "kb_event ops ctx e k =
      (if sw = Some SwipeRight then Inr (Some MkPrevious, ctx1, ka)
       else case m of
          Some InputConfirmed \<Rightarrow> Inr (Some MkConfirmed, ctx2, kb)
        | Some _ \<Rightarrow> rbind (on_input_change ops ctx2 kb) (\<lambda>(ctx, k). Inr (None, ctx, k))
        | None \<Rightarrow>
          if mb = Some BtnClicked then kb_edit ops (mi_backspace ops) ctx3 kc
          else if mb = Some BtnLongPressed then kb_edit ops (mi_long_press ops) ctx3 kc
          else case r of
              Some key \<Rightarrow> kb_edit ops (\<lambda>ctx. mi_key_click ops ctx key) ctx4 kd
            | None \<Rightarrow> Inr (None, ctx4, kd))"
    unfolding kb_event_def s by (simp add: i(1) b bs kdefs Let_def split: option.split mnemonic_input_msg.split)
  consider (prev) "sw = Some SwipeRight" | (conf) "sw \<noteq> Some SwipeRight" "m = Some InputConfirmed"
    | (change) "sw \<noteq> Some SwipeRight" "m = Some InputCompleted \<or> m = Some InputTimedOut"
    | (bksp) "sw \<noteq> Some SwipeRight" "m = None" "mb = Some BtnClicked"
    | (long) "sw \<noteq> Some SwipeRight" "m = None" "mb = Some BtnLongPressed"
    | (key) "sw \<noteq> Some SwipeRight" "m = None" "mb \<noteq> Some BtnClicked" "mb \<noteq> Some BtnLongPressed"
    by (cases m) (metis mnemonic_input_msg.exhaust)+
  then show ?thesis
  proof cases
    case prev
    then have "can_go_back k"
      using s by (auto split: if_splits)
    then show ?thesis
      using prev ev assms go inp by (simp add: kb_inv_def ka_def)
  next
    case conf
    then show ?thesis
      using ev i(2) inp go by simp
  next
    case change
    then have "inv (kb_input kb)"
      using i(2) inp(1) by auto
    then show ?thesis
      using on_input_change_inv [OF _ len(1), of ctx2] change ev go by auto
  next
    case bksp
    then have "inv (kb_input kc)"
      using i(2) inp by simp
    then show ?thesis
      using kb_edit_inv [of "mi_backspace ops" kc ctx3, OF backspace len(2)] bksp ev go by auto
  next
    case long
    then have "inv (kb_input kc)"
      using i(2) inp by simp
    then show ?thesis
      using kb_edit_inv [of "mi_long_press ops" kc ctx3, OF erase len(2)] long ev go by auto
  next
    case key
    then have K: "inv (kb_input kd)" "\<And>key. allowed (kb_input k) key \<Longrightarrow> allowed (kb_input kd) key"
      using i(2) inp by simp_all
    show ?thesis
    proof (cases r)
      case None
      then show ?thesis
        using key ev K keys_event_ok(1) [OF bs O] go by (auto simp: kb_inv_def keys_ok_def kd_def)
    next
      case (Some n)
      then have "n < 9" "allowed (kb_input kd) n"
        using keys_event_ok(2) [OF bs O] K(2) by auto
      then show ?thesis
        using kb_edit_inv [of "\<lambda>ctx. mi_key_click ops ctx n" kd ctx4, OF key_click [OF K(1)] len(3)] key ev Some go by auto
    qed
  qed
qed
end

subsection \<open>The keyboard in use\<close>

text \<open>The keyboards that can be reached, until a word is confirmed.\<close>

inductive kb_reachable :: "'i mnemonic_ops \<Rightarrow> ('i \<Rightarrow> bool) \<Rightarrow> 'i mnemonic_keyboard \<Rightarrow> bool" for ops start where
  kb_start: "start i \<Longrightarrow> kb_reachable ops start (mnemonic_keyboard_new ops i prompt go_back)"
| kb_placed: "kb_reachable ops start k \<Longrightarrow> kb_place ops bounds k = Inr k' \<Longrightarrow> kb_reachable ops start k'"
| kb_handled: "kb_reachable ops start k \<Longrightarrow> kb_event ops ctx e k = Inr (m, ctx', k') \<Longrightarrow> m \<noteq> Some MkConfirmed \<Longrightarrow> kb_reachable ops start k'"

lemma place_keys_keeps:
  "place_keys g n bs = Inr bs' \<Longrightarrow> map (\<lambda>b. tt_is_disabled (wrapped b)) bs' = map (\<lambda>b. tt_is_disabled (wrapped b)) bs"
proof (induction bs arbitrary: n bs')
  case (Cons b bs)
  then show ?case
    by (clarsimp simp: result_simps) (simp add: tt_button_place_def tt_is_disabled_def)
qed simp

lemma keys_ok_map:
  assumes "map (\<lambda>b. tt_is_disabled (wrapped b)) bs' = map (\<lambda>b. tt_is_disabled (wrapped b)) bs" "keys_ok P bs"
  shows "keys_ok P bs'"
proof -
  have l: "length bs' = length bs"
    using assms(1) by (metis length_map)
  then have "tt_is_disabled (wrapped (bs' ! k)) = tt_is_disabled (wrapped (bs ! k))" if "k < length bs" for k
    using assms(1) that by (metis nth_map)
  then show ?thesis
    using assms(2) l by (simp add: keys_ok_def)
qed

context mnemonic_input
begin

lemma kb_new_inv: "inv i \<Longrightarrow> \<forall>key<9. allowed i key \<Longrightarrow> kb_inv (mnemonic_keyboard_new ops i prompt go_back)"
  using nine_keys by (simp add: kb_inv_def mnemonic_keyboard_new_def Let_def kb_input_def keys_ok_def child_new_def maybe_new_def)

lemma kb_place_inv:
  assumes "kb_place ops bounds k = Inr k'" "kb_inv k"
  shows "kb_inv k'"
proof -
  obtain g r bs where "place_keys g 0 (mk_keys k) = (Inr bs :: (_, unit) result)" "mk_keys k' = bs" "kb_input k' = mi_place ops r (kb_input k)"
    using assms(1) by (auto simp: kb_place_def Let_def result_simps maybe_place_def kb_input_def split: prod.splits)
  then show ?thesis
    using assms(2) placed keys_ok_map [OF place_keys_keeps, of g 0 "mk_keys k" bs "allowed (kb_input k)"]
    by (auto simp: kb_inv_def keys_ok_def)
qed

lemma kb_reachable_inv:
  assumes "kb_reachable ops start k" "\<And>i. start i \<Longrightarrow> inv i \<and> (\<forall>key<9. allowed i key)"
  shows "kb_inv k"
  using assms(1)
proof induction
  case (kb_start i prompt go_back)
  then show ?case
    using assms(2) kb_new_inv by blast
next
  case (kb_placed k bounds k')
  then show ?case
    using kb_place_inv by blast
next
  case (kb_handled k ctx e m ctx' k')
  then show ?case
    using kb_event_inv [of k ctx e] by auto
qed

lemma kb_reachable_event:
  assumes "kb_reachable ops start k" "\<And>i. start i \<Longrightarrow> inv i \<and> (\<forall>key<9. allowed i key)"
  shows "\<exists>m ctx' k'. kb_event ops ctx e k = Inr (m, ctx', k') \<and> inv (kb_input k) \<and> (m \<noteq> Some MkConfirmed \<longrightarrow> inv (kb_input k')) \<and>
    (m = Some MkConfirmed \<longrightarrow> finished (kb_input k) (kb_input k')) \<and> (m = Some MkPrevious \<longrightarrow> can_go_back k)"
  using kb_event_inv [OF kb_reachable_inv [OF assms], of ctx e] kb_reachable_inv [OF assms] by (auto simp: kb_inv_def)

end

subsection \<open>The two inputs\<close>

interpretation bip: mnemonic_input "bip39_ops table" "\<lambda>i. wf_dictionary table \<and> bip39_inv table i" "bip39_allowed table" "bip39_done table"
  for table
proof unfold_locales
  fix i :: bip39_input and ctx e key r
  show "length (mi_keys (bip39_ops table)) = 9"
    by (simp add: bip39_ops_def length_bip39_keys)
  show "mi_event (bip39_ops table) ctx RequestPaint i = Inr (None, ctx, i)"
    by (simp add: bip39_ops_def bip39_event_paint)
  show "bip39_allowed table i key \<Longrightarrow> bip39_allowed table (mi_place (bip39_ops table) r i) key"
    by (simp add: bip39_ops_def bip39_place_def bip39_allowed_def)
  assume I: "wf_dictionary table \<and> bip39_inv table i"
  then have wf: "wf_dictionary table" and inv: "bip39_inv table i"
    by simp_all
  show "\<exists>ctx' i'. mi_backspace (bip39_ops table) ctx i = Inr (ctx', i') \<and> wf_dictionary table \<and> bip39_inv table i'"
    using bip39_backspace_inv [OF wf inv, of ctx] wf by (auto simp: bip39_ops_def)
  show "\<exists>ctx' i'. mi_long_press (bip39_ops table) ctx i = Inr (ctx', i') \<and> wf_dictionary table \<and> bip39_inv table i'"
    using bip39_long_press_inv [OF wf, of ctx i] wf by (auto simp: bip39_ops_def)
  show "\<exists>m ctx' i'. mi_event (bip39_ops table) ctx e i = Inr (m, ctx', i') \<and>
      (m = Some InputConfirmed \<longrightarrow> bip39_done table i i') \<and> (m \<noteq> Some InputConfirmed \<longrightarrow> wf_dictionary table \<and> bip39_inv table i') \<and>
      (m = None \<longrightarrow> (\<forall>key. bip39_allowed table i key \<longrightarrow> bip39_allowed table i' key))"
    using bip39_event_inv [OF wf inv, of ctx e] wf by (auto simp: bip39_ops_def bip39_allowed_def)
  show "wf_dictionary table \<and> bip39_inv table (mi_place (bip39_ops table) r i)"
    using I by (simp add: bip39_ops_def bip39_place_def bip39_inv_def)
  assume key: "key < 9"
  show "\<exists>b. mi_can_key (bip39_ops table) i key = Inr b \<and> (b \<longrightarrow> bip39_allowed table i key)"
    using bip39_can_key_allowed [OF wf inv key] by (simp add: bip39_ops_def)
  assume "bip39_allowed table i key"
  then show "\<exists>ctx' i'. mi_key_click (bip39_ops table) ctx key i = Inr (ctx', i') \<and> wf_dictionary table \<and> bip39_inv table i'"
    using bip39_key_click_inv [OF wf inv key] wf by (simp add: bip39_ops_def)
qed

interpretation slip: mnemonic_input "slip39_ops T" "\<lambda>i. wf_seqs (button_seq T) \<and> slip39_inv T i" "\<lambda>_ _. True" "slip39_done T"
  for T
proof unfold_locales
  fix i :: slip39_input and ctx e and key :: nat and r
  show "length (mi_keys (slip39_ops T)) = 9"
    by (simp add: slip39_ops_def length_slip39_keys)
  show "mi_event (slip39_ops T) ctx RequestPaint i = Inr (None, ctx, i)"
    by (simp add: slip39_ops_def slip39_event_paint)
  show True ..
  assume I: "wf_seqs (button_seq T) \<and> slip39_inv T i"
  then have wf: "wf_seqs (button_seq T)" and inv: "slip39_inv T i"
    by simp_all
  show "\<exists>b. mi_can_key (slip39_ops T) i key = Inr b \<and> (b \<longrightarrow> True)"
    by (simp add: slip39_ops_def slip39_can_key_def)
  show "\<exists>ctx' i'. mi_backspace (slip39_ops T) ctx i = Inr (ctx', i') \<and> wf_seqs (button_seq T) \<and> slip39_inv T i'"
    using slip39_erase_inv(1) [OF inv, of ctx] wf by (auto simp: slip39_ops_def)
  show "\<exists>ctx' i'. mi_long_press (slip39_ops T) ctx i = Inr (ctx', i') \<and> wf_seqs (button_seq T) \<and> slip39_inv T i'"
    using slip39_erase_inv(2) [OF inv, of ctx] wf by (auto simp: slip39_ops_def)
  show "\<exists>m ctx' i'. mi_event (slip39_ops T) ctx e i = Inr (m, ctx', i') \<and> (m = Some InputConfirmed \<longrightarrow> slip39_done T i i') \<and>
      (m \<noteq> Some InputConfirmed \<longrightarrow> wf_seqs (button_seq T) \<and> slip39_inv T i') \<and> (m = None \<longrightarrow> (\<forall>key :: nat. True \<longrightarrow> True))"
    using slip39_event_inv [OF wf inv, of ctx e] wf by (auto simp: slip39_ops_def)
  show "wf_seqs (button_seq T) \<and> slip39_inv T (mi_place (slip39_ops T) r i)"
    using I by (simp add: slip39_ops_def slip39_place_def slip39_inv_def tt_button_place_def tt_is_disabled_def)
  assume "key < 9"
  then show "\<exists>ctx' i'. mi_key_click (slip39_ops T) ctx key i = Inr (ctx', i') \<and> wf_seqs (button_seq T) \<and> slip39_inv T i'"
    using slip39_key_click_inv [OF inv, of key ctx] wf by (simp add: slip39_ops_def)
qed

text \<open>
  C20.  Entering a word letter by letter.  From an empty keyboard or one that is filled with the beginning of a
  dictionary word, no event panics.  At any time the letters typed are the beginning of a dictionary word,
  except that a last letter whose key is still pending may not fit yet.  The keyboard confirms only a
  dictionary word that starts with the letters typed and is the only such word or was typed in full, and
  goes back only where that is allowed.
\<close>

theorem bip39_keyboard:
  assumes "wf_dictionary table"
    and "kb_reachable (bip39_ops table) (\<lambda>i. \<exists>word. valid_prefix table word \<and> bip39_prefilled table word = Inr i) k"
  shows "\<exists>m ctx' k'. kb_event (bip39_ops table) ctx e k = Inr (m, ctx', k') \<and>
    (let p = tb_text (bi_textbox (kb_input k)) in
     (valid_prefix table p \<or> valid_prefix table (butlast p) \<and> pending_key (bi_multi_tap (kb_input k)) \<noteq> None) \<and>
     (m = Some MkConfirmed \<longrightarrow>
       (\<exists>w\<in>set table. kb_mnemonic (bip39_ops table) k' = Some w \<and> starts_with w p \<and>
         (w = p \<or> (\<forall>v\<in>set table. starts_with v p \<longrightarrow> v = w)))) \<and>
     (m = Some MkPrevious \<longrightarrow> can_go_back k))"
proof -
  have "(wf_dictionary table \<and> bip39_inv table i) \<and> (\<forall>key<9. bip39_allowed table i key)"
    if "\<exists>word. valid_prefix table word \<and> bip39_prefilled table word = Inr i" for i
    using that bip39_prefilled_inv [OF assms(1)] assms(1) unfolding bip39_allowed_def by (metis sum.inject(2))
  from bip.kb_reachable_event [OF assms(2) this, of ctx e] obtain m ctx' k' where
    ev: "kb_event (bip39_ops table) ctx e k = Inr (m, ctx', k')" "bip39_inv table (kb_input k)"
      "m = Some MkConfirmed \<longrightarrow> bip39_done table (kb_input k) (kb_input k')" "m = Some MkPrevious \<longrightarrow> can_go_back k"
    by blast
  have "kb_mnemonic (bip39_ops table) k' = bi_suggested (kb_input k')"
    by (simp add: kb_mnemonic_def bip39_ops_def)
  then show ?thesis
    using ev unfolding bip39_inv_def bip39_done_def Let_def by metis
qed

text \<open>A keyboard on a screen of 240 pixels, filled with the word \<open>add\<close>; a touch on the input confirms it.\<close>

definition input_touch :: "'i mnemonic_ops \<Rightarrow> 'i \<Rightarrow> ('i mnemonic_keyboard, unit) result" where
  "input_touch ops i =
     rbind (kb_place ops (rect_new (point_new 0 0) (point_new 240 240)) (mnemonic_keyboard_new ops i [] True)) (\<lambda>k.
     rbind (kb_event ops ctx_new (Touch (TouchStart (point_new 120 30))) k) (\<lambda>(m, _, k).
     if m = None then Inr k else Inl Panic))"

lemma input_touch_reachable: "start i \<Longrightarrow> input_touch ops i = Inr k \<Longrightarrow> kb_reachable ops start k"
  by (auto simp: input_touch_def result_simps split: if_splits intro!: kb_handled [OF kb_placed [OF kb_start]])

definition example_bip39 :: "(bip39_input mnemonic_keyboard, unit) result" where
  "example_bip39 = rbind (bip39_prefilled example_words [97, 100, 100]) (input_touch (bip39_ops example_words))"

definition touch_confirms :: "'i mnemonic_ops \<Rightarrow> ('i mnemonic_keyboard, unit) result \<Rightarrow> bool" where
  "touch_confirms ops r = (case r of Inl _ \<Rightarrow> False | Inr k \<Rightarrow>
     (case kb_event ops ctx_new (Touch (TouchEnd (point_new 120 30))) k of Inr (m, _, _) \<Rightarrow> m = Some MkConfirmed | Inl _ \<Rightarrow> False))"

theorem bip39_keyboard_witness:
  "\<exists>k m ctx' k'. example_bip39 = Inr k \<and>
    kb_event (bip39_ops example_words) ctx_new (Touch (TouchEnd (point_new 120 30))) k = Inr (m, ctx', k') \<and>
    m = Some MkConfirmed \<and> (\<exists>w\<in>set example_words. kb_mnemonic (bip39_ops example_words) k' = Some w)"
proof -
  have t: "touch_confirms (bip39_ops example_words) example_bip39"
    by code_simp
  then obtain k where k: "example_bip39 = Inr k"
    by (auto simp: touch_confirms_def split: sum.splits)
  then obtain i where i: "bip39_prefilled example_words [97, 100, 100] = Inr i" "input_touch (bip39_ops example_words) i = Inr k"
    by (auto simp: example_bip39_def result_simps)
  have "valid_prefix example_words [97, 100, 100]"
    by code_simp
  then have r: "kb_reachable (bip39_ops example_words)
      (\<lambda>i. \<exists>word. valid_prefix example_words word \<and> bip39_prefilled example_words word = Inr i) k"
    using i by (intro input_touch_reachable [OF _ i(2)]) blast
  from bip39_keyboard [OF example_words_ok r, of ctx_new "Touch (TouchEnd (point_new 120 30))"] obtain m ctx' k' where
    ev: "kb_event (bip39_ops example_words) ctx_new (Touch (TouchEnd (point_new 120 30))) k = Inr (m, ctx', k')"
      "m = Some MkConfirmed \<Longrightarrow> \<exists>w\<in>set example_words. kb_mnemonic (bip39_ops example_words) k' = Some w"
    unfolding Let_def by blast
  moreover have "m = Some MkConfirmed"
    using t ev(1) by (simp add: touch_confirms_def k)
  ultimately show ?thesis
    using k by blast
qed


definition example_slip39 :: "(slip39_input mnemonic_keyboard, unit) result" where
  "example_slip39 = rbind (slip39_prefilled example_table [100, 101, 110, 97]) (input_touch (slip39_ops example_table))"


end
