(* ===== verification/Slip39_Table.thy ===== *)
theory Slip39_Table
  imports Slip39_Input "HOL-Library.Code_Target_Nat"
begin

section \<open>The table of key sequences\<close>

text \<open>
  The table \<open>words_button_seq\<close> of \<^verbatim>\<open>crypto/slip39_wordlist.h\<close>, in nine parts by the first digit, and the check
  that it is what the search and the keyboard rely on.
\<close>

definition seqs1 :: "(nat \<times> nat) list" where
  "seqs1 =
    [(1212, 0), (1216, 7), (1236, 8), (1242, 1), (1248, 9), (1254, 10), (1263, 2), (1267, 11), (1268, 3), (1276, 4),
     (1281, 13), (1284, 5), (1285, 12), (1286, 14), (1287, 6), (1315, 67), (1317, 68), (1318, 69), (1326, 70), (1327, 71),
     (1341, 72), (1346, 73), (1354, 74), (1356, 75), (1363, 76), (1371, 15), (1378, 77), (1396, 78), (1414, 16), (1417, 23),
     (1423, 19), (1436, 17), (1453, 79), (1465, 80), (1472, 20), (1473, 18), (1474, 82), (1475, 21), (1476, 22), (1478, 81),
     (1512, 83), (1514, 35), (1516, 84), (1517, 24), (1518, 25), (1519, 34), (1526, 26), (1537, 85), (1543, 27), (1545, 86),
     (1546, 87), (1548, 28), (1564, 29), (1568, 36), (1573, 30), (1583, 88), (1585, 32), (1586, 31), (1587, 37), (1591, 33),
     (1615, 38), (1617, 48), (1618, 39), (1623, 40), (1624, 41), (1629, 89), (1643, 42), (1645, 44), (1647, 43), (1658, 90),
     (1674, 91), (1676, 92), (1679, 45), (1681, 49), (1683, 46), (1684, 93), (1686, 94), (1694, 47), (1712, 95), (1716, 96),
     (1718, 97), (1721, 50), (1731, 98), (1736, 51), (1743, 99), (1748, 52), (1753, 53), (1763, 56), (1765, 100), (1768, 101),
     (1769, 102), (1784, 54), (1789, 55), (1824, 104), (1825, 103), (1828, 57), (1837, 60), (1841, 61), (1845, 105), (1848, 58),
     (1851, 106), (1854, 107), (1856, 108), (1862, 109), (1864, 62), (1868, 59), (1872, 110), (1876, 111), (1879, 112), (1893, 113),
     (1917, 63), (1919, 64), (1947, 65), (1953, 66)]"

definition seqs2 :: "(nat \<times> nat) list" where
  "seqs2 =
    [(2143, 114), (2147, 185), (2151, 186), (2152, 115), (2153, 116), (2156, 117), (2161, 119), (2162, 187), (2164, 120), (2168, 121),
     (2169, 118), (2171, 122), (2172, 123), (2173, 124), (2174, 125), (2175, 188), (2176, 126), (2178, 127), (2181, 189), (2183, 128),
     (2184, 190), (2187, 129), (2312, 191), (2315, 192), (2317, 193), (2318, 194), (2323, 195), (2324, 196), (2325, 197), (2326, 198),
     (2327, 199), (2345, 130), (2351, 201), (2354, 200), (2361, 204), (2363, 205), (2364, 206), (2365, 207), (2367, 202), (2368, 131),
     (2369, 203), (2371, 132), (2372, 208), (2373, 209), (2374, 210), (2375, 211), (2378, 212), (2381, 213), (2383, 214), (2384, 215),
     (2386, 216), (2414, 217), (2415, 133), (2416, 134), (2417, 135), (2428, 218), (2432, 136), (2435, 137), (2437, 138), (2438, 219),
     (2439, 139), (2453, 220), (2454, 221), (2463, 141), (2464, 222), (2465, 223), (2471, 224), (2472, 225), (2473, 226), (2474, 227),
     (2475, 228), (2476, 229), (2478, 230), (2481, 140), (2483, 231), (2484, 142), (2486, 232), (2517, 143), (2519, 144), (2531, 145),
     (2543, 146), (2545, 147), (2546, 148), (2562, 149), (2564, 150), (2567, 151), (2568, 152), (2581, 153), (2587, 154), (2615, 155),
     (2617, 156), (2624, 157), (2628, 233), (2651, 234), (2653, 235), (2654, 236), (2656, 159), (2658, 158), (2676, 160), (2678, 161),
     (2683, 164), (2684, 237), (2686, 162), (2687, 163), (2691, 165), (2696, 238), (2712, 166), (2713, 167), (2714, 239), (2715, 240),
     (2719, 168), (2731, 241), (2732, 169), (2737, 242), (2742, 170), (2743, 243), (2745, 171), (2746, 244), (2747, 172), (2748, 173),
     (2768, 245), (2769, 174), (2782, 175), (2784, 246), (2786, 176), (2787, 177), (2793, 247), (2797, 178), (2814, 179), (2825, 248),
     (2853, 249), (2858, 180), (2871, 250), (2874, 181), (2875, 182), (2878, 183), (2917, 251), (2954, 184), (2961, 252)]"

definition seqs3 :: "(nat \<times> nat) list" where
  "seqs3 =
    [(3124, 323), (3128, 324), (3145, 325), (3146, 326), (3153, 327), (3154, 329), (3156, 330), (3157, 328), (3162, 331), (3164, 332),
     (3168, 333), (3173, 255), (3175, 253), (3178, 254), (3179, 256), (3181, 334), (3184, 335), (3186, 336), (3196, 337), (3243, 260),
     (3246, 257), (3248, 261), (3254, 258), (3265, 259), (3282, 262), (3413, 338), (3428, 339), (3458, 340), (3461, 341), (3462, 342),
     (3464, 343), (3472, 346), (3473, 344), (3474, 347), (3475, 345), (3484, 263), (3486, 348), (3514, 273), (3515, 349), (3516, 264),
     (3517, 350), (3518, 351), (3523, 265), (3531, 352), (3532, 266), (3534, 267), (3535, 268), (3536, 269), (3537, 274), (3538, 270),
     (3539, 353), (3546, 354), (3547, 275), (3548, 271), (3561, 355), (3563, 276), (3564, 277), (3565, 278), (3567, 356), (3568, 279),
     (3573, 272), (3583, 357), (3624, 280), (3625, 281), (3626, 282), (3628, 358), (3635, 283), (3636, 285), (3637, 284), (3641, 286),
     (3642, 292), (3646, 287), (3647, 293), (3651, 288), (3671, 359), (3672, 360), (3673, 361), (3674, 362), (3675, 363), (3678, 364),
     (3679, 365), (3681, 294), (3683, 290), (3684, 295), (3686, 366), (3687, 289), (3689, 291), (3712, 367), (3714, 368), (3717, 296),
     (3721, 298), (3736, 369), (3737, 370), (3741, 371), (3742, 372), (3743, 373), (3762, 297), (3767, 374), (3768, 375), (3769, 376),
     (3781, 299), (3784, 300), (3815, 301), (3836, 302), (3842, 303), (3845, 304), (3853, 377), (3862, 378), (3865, 305), (3873, 380),
     (3875, 379), (3912, 306), (3915, 307), (3923, 308), (3924, 309), (3925, 310), (3928, 311), (3931, 322), (3932, 312), (3937, 313),
     (3941, 314), (3961, 316), (3963, 317), (3965, 318), (3967, 319), (3968, 315), (3983, 320), (3987, 321)]"

definition seqs4 :: "(nat \<times> nat) list" where
  "seqs4 =
    [(4125, 483), (4147, 420), (4151, 381), (4153, 382), (4157, 421), (4162, 422), (4164, 423), (4171, 383), (4172, 384), (4175, 385),
     (4176, 386), (4178, 424), (4183, 425), (4184, 387), (4186, 426), (4191, 428), (4195, 427), (4231, 452), (4236, 453), (4253, 454),
     (4312, 429), (4315, 430), (4317, 431), (4318, 432), (4356, 433), (4363, 388), (4364, 389), (4365, 392), (4367, 390), (4368, 391),
     (4371, 434), (4372, 435), (4374, 436), (4375, 484), (4378, 393), (4393, 485), (4512, 394), (4514, 455), (4516, 395), (4517, 396),
     (4536, 397), (4545, 398), (4561, 456), (4565, 457), (4567, 458), (4568, 459), (4616, 437), (4618, 399), (4623, 463), (4624, 464),
     (4625, 460), (4626, 461), (4627, 462), (4628, 465), (4631, 466), (4636, 467), (4643, 468), (4646, 486), (4648, 469), (4651, 470),
     (4652, 400), (4653, 440), (4654, 438), (4659, 439), (4673, 471), (4674, 472), (4675, 441), (4676, 442), (4678, 473), (4681, 476),
     (4683, 474), (4684, 475), (4686, 477), (4687, 443), (4712, 401), (4716, 402), (4717, 403), (4718, 404), (4719, 405), (4731, 406),
     (4743, 407), (4745, 408), (4746, 409), (4747, 478), (4751, 479), (4762, 410), (4765, 480), (4767, 411), (4768, 412), (4769, 413),
     (4785, 414), (4817, 415), (4824, 487), (4835, 481), (4837, 416), (4842, 488), (4843, 444), (4845, 417), (4848, 418), (4851, 445),
     (4854, 446), (4856, 489), (4857, 419), (4862, 490), (4864, 491), (4865, 492), (4867, 482), (4868, 447), (4871, 448), (4874, 449),
     (4875, 450), (4878, 494), (4879, 493), (4917, 451)]"

definition seqs5 :: "(nat \<times> nat) list" where
  "seqs5 =
    [(5123, 502), (5124, 549), (5125, 503), (5129, 504), (5141, 550), (5142, 551), (5145, 552), (5146, 553), (5147, 505), (5151, 556),
     (5153, 554), (5154, 555), (5156, 506), (5161, 557), (5162, 558), (5164, 507), (5167, 559), (5168, 560), (5171, 561), (5172, 562),
     (5173, 509), (5174, 508), (5175, 563), (5176, 565), (5178, 564), (5183, 566), (5184, 567), (5186, 510), (5194, 568), (5196, 569),
     (5197, 511), (5312, 512), (5313, 513), (5316, 570), (5317, 514), (5318, 515), (5321, 571), (5324, 572), (5328, 516), (5341, 517),
     (5343, 518), (5347, 519), (5351, 573), (5356, 574), (5362, 520), (5364, 521), (5368, 575), (5372, 576), (5374, 577), (5376, 495),
     (5383, 522), (5384, 578), (5387, 579), (5391, 496), (5413, 523), (5417, 524), (5423, 525), (5426, 497), (5427, 580), (5438, 526),
     (5451, 528), (5452, 581), (5453, 527), (5454, 582), (5459, 529), (5462, 498), (5463, 583), (5464, 584), (5467, 530), (5468, 531),
     (5471, 585), (5478, 532), (5482, 499), (5483, 533), (5484, 534), (5491, 535), (5493, 586), (5498, 587), (5613, 537), (5614, 588),
     (5616, 536), (5621, 538), (5623, 589), (5624, 590), (5643, 500), (5647, 591), (5648, 501), (5653, 592), (5674, 539), (5676, 593),
     (5678, 594), (5682, 540), (5683, 598), (5684, 595), (5686, 596), (5687, 597), (5691, 541), (5824, 599), (5825, 542), (5853, 600),
     (5858, 601), (5861, 543), (5862, 544), (5864, 545), (5872, 602), (5873, 603), (5874, 604), (5878, 605), (5898, 546), (5946, 547),
     (5974, 548)]"

definition seqs6 :: "(nat \<times> nat) list" where
  "seqs6 =
    [(6123, 636), (6124, 637), (6125, 638), (6137, 618), (6141, 641), (6142, 639), (6143, 619), (6145, 606), (6146, 640), (6161, 644),
     (6162, 642), (6163, 645), (6168, 643), (6172, 646), (6173, 620), (6174, 617), (6175, 647), (6178, 648), (6181, 621), (6183, 649),
     (6184, 607), (6187, 650), (6195, 651), (6197, 652), (6231, 622), (6312, 653), (6316, 654), (6317, 655), (6321, 656), (6325, 608),
     (6341, 609), (6361, 657), (6362, 658), (6372, 659), (6373, 660), (6375, 661), (6378, 610), (6383, 623), (6384, 662), (6389, 611),
     (6397, 612), (6416, 663), (6417, 664), (6425, 668), (6428, 669), (6432, 670), (6453, 671), (6463, 673), (6465, 672), (6468, 665),
     (6471, 666), (6478, 674), (6482, 675), (6497, 667), (6514, 676), (6516, 677), (6517, 678), (6518, 679), (6519, 680), (6531, 681),
     (6548, 625), (6568, 682), (6586, 683), (6595, 624), (6712, 684), (6714, 628), (6715, 626), (6716, 627), (6719, 685), (6723, 629),
     (6724, 630), (6731, 686), (6732, 687), (6734, 688), (6735, 689), (6736, 690), (6737, 691), (6738, 692), (6741, 631), (6743, 693),
     (6745, 694), (6746, 695), (6747, 696), (6748, 697), (6749, 698), (6761, 699), (6762, 700), (6763, 701), (6764, 702), (6765, 703),
     (6767, 704), (6768, 705), (6786, 706), (6815, 707), (6816, 716), (6817, 717), (6825, 613), (6836, 633), (6837, 634), (6842, 718),
     (6843, 719), (6851, 614), (6853, 615), (6856, 709), (6857, 708), (6861, 712), (6862, 632), (6864, 710), (6869, 711), (6872, 713),
     (6876, 714), (6956, 616), (6963, 635), (6984, 715)]"

definition seqs7 :: "(nat \<times> nat) list" where
  "seqs7 =
    [(7121, 722), (7123, 720), (7124, 721), (7125, 775), (7131, 776), (7145, 723), (7146, 724), (7147, 725), (7151, 777), (7156, 778),
     (7158, 779), (7162, 726), (7164, 728), (7165, 727), (7176, 729), (7183, 782), (7184, 780), (7186, 781), (7197, 783), (7216, 784),
     (7217, 785), (7218, 786), (7236, 787), (7243, 789), (7246, 788), (7268, 790), (7271, 791), (7273, 792), (7274, 793), (7276, 794),
     (7312, 730), (7313, 795), (7315, 731), (7316, 732), (7317, 796), (7318, 733), (7321, 734), (7323, 735), (7326, 736), (7327, 797),
     (7328, 798), (7343, 739), (7345, 799), (7347, 737), (7348, 738), (7351, 740), (7353, 741), (7354, 742), (7356, 743), (7361, 745),
     (7362, 744), (7363, 746), (7364, 800), (7365, 747), (7368, 748), (7372, 749), (7373, 750), (7374, 751), (7376, 752), (7378, 753),
     (7381, 754), (7383, 757), (7384, 758), (7386, 756), (7387, 755), (7391, 759), (7412, 801), (7413, 802), (7415, 803), (7416, 804),
     (7417, 805), (7423, 811), (7424, 762), (7435, 806), (7437, 807), (7453, 812), (7454, 814), (7456, 815), (7458, 813), (7464, 816),
     (7467, 808), (7468, 809), (7474, 810), (7478, 817), (7481, 763), (7483, 764), (7495, 760), (7498, 761), (7516, 820), (7517, 827),
     (7518, 821), (7531, 828), (7532, 822), (7535, 829), (7542, 823), (7545, 824), (7546, 818), (7547, 830), (7548, 831), (7565, 832),
     (7569, 825), (7584, 833), (7586, 819), (7587, 826), (7612, 843), (7614, 765), (7615, 834), (7616, 835), (7617, 844), (7624, 837),
     (7625, 766), (7631, 845), (7632, 846), (7635, 847), (7636, 848), (7638, 838), (7639, 849), (7642, 850), (7643, 836), (7645, 851),
     (7646, 852), (7647, 853), (7648, 854), (7651, 767), (7652, 839), (7656, 768), (7658, 840), (7671, 855), (7674, 856), (7678, 769),
     (7681, 857), (7683, 858), (7685, 841), (7686, 770), (7687, 842), (7691, 771), (7812, 859), (7813, 860), (7814, 873), (7815, 874),
     (7816, 861), (7817, 862), (7818, 863), (7819, 864), (7831, 865), (7836, 866), (7841, 875), (7842, 867), (7845, 868), (7846, 772),
     (7848, 876), (7853, 773), (7856, 774), (7863, 878), (7865, 877), (7867, 869), (7871, 870), (7873, 879), (7874, 871), (7876, 880),
     (7878, 881), (7895, 872), (7931, 882), (7945, 883), (7946, 884), (7948, 885), (7951, 886), (7956, 887), (7962, 888), (7978, 889)]"

definition seqs8 :: "(nat \<times> nat) list" where
  "seqs8 =
    [(8125, 890), (8126, 892), (8128, 891), (8153, 893), (8154, 965), (8156, 967), (8158, 966), (8164, 968), (8174, 969), (8175, 894),
     (8178, 895), (8184, 896), (8194, 897), (8312, 898), (8315, 899), (8317, 900), (8341, 970), (8356, 901), (8358, 971), (8361, 902),
     (8362, 903), (8367, 904), (8368, 972), (8372, 973), (8374, 974), (8375, 905), (8378, 906), (8379, 975), (8383, 976), (8393, 977),
     (8398, 907), (8416, 908), (8418, 909), (8423, 979), (8425, 917), (8428, 978), (8429, 918), (8431, 910), (8436, 911), (8437, 912),
     (8439, 980), (8451, 919), (8453, 920), (8459, 946), (8464, 921), (8465, 982), (8467, 913), (8468, 981), (8471, 983), (8473, 914),
     (8474, 984), (8478, 985), (8481, 986), (8485, 915), (8486, 916), (8517, 948), (8584, 947), (8621, 987), (8623, 950), (8626, 949),
     (8631, 951), (8636, 952), (8638, 922), (8641, 953), (8642, 988), (8643, 923), (8646, 954), (8647, 960), (8648, 955), (8653, 924),
     (8654, 956), (8656, 957), (8658, 989), (8678, 961), (8681, 925), (8683, 990), (8684, 991), (8687, 958), (8694, 926), (8697, 959),
     (8712, 927), (8713, 928), (8714, 929), (8716, 930), (8717, 931), (8718, 932), (8731, 933), (8736, 934), (8737, 962), (8741, 935),
     (8742, 936), (8743, 963), (8746, 937), (8748, 938), (8768, 939), (8781, 964), (8783, 940), (8787, 941), (8942, 942), (8946, 943),
     (8963, 944), (8964, 945)]"

definition seqs9 :: "(nat \<times> nat) list" where
  "seqs9 =
    [(9156, 992), (9175, 993), (9176, 994), (9182, 995), (9189, 996), (9312, 999), (9315, 997), (9316, 998), (9317, 1019), (9352, 1000),
     (9353, 1001), (9356, 1020), (9376, 1023), (9378, 1002), (9428, 1003), (9435, 1021), (9452, 1004), (9462, 1005), (9463, 1006), (9472, 1008),
     (9473, 1007), (9484, 1009), (9487, 1010), (9641, 1022), (9651, 1012), (9653, 1011), (9675, 1013), (9678, 1014), (9716, 1015), (9747, 1016),
     (9748, 1017), (9768, 1018)]"

definition parts :: "(nat \<times> nat) list list" where
  "parts = [seqs1, seqs2, seqs3, seqs4, seqs5, seqs6, seqs7, seqs8, seqs9]"

definition words_button_seq :: "(nat \<times> nat) list" where
  "words_button_seq = concat parts"

subsection \<open>A check in one pass\<close>

text \<open>
  \<open>f\<close> and \<open>l\<close> are the first and the last sequence so far with the same digits before the place \<open>k\<close>; a group
  of several sequences must not share the digit at that place.
\<close>

fun groups_ok :: "nat \<Rightarrow> nat \<Rightarrow> nat \<Rightarrow> nat list \<Rightarrow> bool" where
  "groups_ok k f l [] \<longleftrightarrow> f = l \<or> f div k \<noteq> l div k"
| "groups_ok k f l (x # xs) \<longleftrightarrow>
     (if x div (10 * k) = f div (10 * k) then groups_ok k f x xs
      else (f = l \<or> f div k \<noteq> l div k) \<and> groups_ok k x x xs)"

fun digits_ok :: "nat \<Rightarrow> nat \<Rightarrow> nat list \<Rightarrow> bool" where
  "digits_ok d p [] \<longleftrightarrow> True"
| "digits_ok d p (s # ss) \<longleftrightarrow> p < s \<and> s div 1000 = d \<and> seq_digits s \<and> digits_ok d s ss"

definition part_ok :: "nat \<Rightarrow> nat list \<Rightarrow> bool" where
  "part_ok d qs \<longleftrightarrow> (case qs of [] \<Rightarrow> False
     | s # ss \<Rightarrow> digits_ok d 0 qs \<and> groups_ok 1 s s ss \<and> groups_ok 10 s s ss \<and> groups_ok 100 s s ss)"

lemma part_ok1: "part_ok 1 (map fst seqs1)"
  by code_simp

lemma part_ok2: "part_ok 2 (map fst seqs2)"
  by code_simp

lemma part_ok3: "part_ok 3 (map fst seqs3)"
  by code_simp

lemma part_ok4: "part_ok 4 (map fst seqs4)"
  by code_simp

lemma part_ok5: "part_ok 5 (map fst seqs5)"
  by code_simp

lemma part_ok6: "part_ok 6 (map fst seqs6)"
  by code_simp

lemma part_ok7: "part_ok 7 (map fst seqs7)"
  by code_simp

lemma part_ok8: "part_ok 8 (map fst seqs8)"
  by code_simp

lemma part_ok9: "part_ok 9 (map fst seqs9)"
  by code_simp

lemmas parts_ok = part_ok1 part_ok2 part_ok3 part_ok4 part_ok5 part_ok6 part_ok7 part_ok8 part_ok9

lemma digits_ok_sound: "digits_ok d p ss \<Longrightarrow> sorted_wrt (<) (p # ss) \<and> (\<forall>s\<in>set ss. s div 1000 = d \<and> seq_digits s)"
  by (induction d p ss rule: digits_ok.induct) auto

lemma groups_ok_sound:
  assumes "groups_ok k f l xs" "sorted_wrt (<) (G @ xs)" "G \<noteq> []" "hd G = f" "last G = l" "\<forall>g\<in>set G. g div (10 * k) = f div (10 * k)"
    and "a \<in> set (G @ xs)" "b \<in> set (G @ xs)" "a \<noteq> b" "a div (10 * k) = b div (10 * k)"
  shows "\<exists>c d. c \<in> set (G @ xs) \<and> d \<in> set (G @ xs) \<and> c div (10 * k) = a div (10 * k) \<and> d div (10 * k) = a div (10 * k) \<and> c div k \<noteq> d div k"
proof -
  have group: "\<exists>c d. c \<in> set G \<and> d \<in> set G \<and> c div (10 * k) = a div (10 * k) \<and> d div (10 * k) = a div (10 * k) \<and> c div k \<noteq> d div k"
    if H: "f = l \<or> f div k \<noteq> l div k" "sorted_wrt (<) G" "G \<noteq> []" "hd G = f" "last G = l" "\<forall>g\<in>set G. g div (10 * k) = f div (10 * k)"
      "a \<in> set G" "b \<in> set G" "a \<noteq> b" for f l k a b :: nat and G
  proof -
    obtain G' where G: "G = f # G'"
      using H(3,4) by (cases G) auto
    then have "G' \<noteq> []" "f \<in> set G" "l \<in> set G"
      using H(3,5,7-9) last_in_set [of G] by auto
    then have "f < l"
      using H(2,5) G by auto
    then show ?thesis
      using H(1,6,7) \<open>f \<in> set G\<close> \<open>l \<in> set G\<close> by (metis nat_neq_iff)
  qed
  show ?thesis
    using assms
  proof (induction k f l xs arbitrary: G a b rule: groups_ok.induct)
    case (1 k f l)
    then show ?case
      using group [of f l k G a b] by simp
  next
    case (2 k f l x xs)
    show ?case
    proof (cases "x div (10 * k) = f div (10 * k)")
      case True
      then show ?thesis
        using 2(1) [OF True, of "G @ [x]" a b] 2(3-) by auto
    next
      case False
      have s: "sorted_wrt (<) G" "sorted_wrt (<) ([x] @ xs)" "\<forall>g\<in>set G. \<forall>y\<in>set (x # xs). g < y" "\<forall>y\<in>set (x # xs). x \<le> y"
        using 2(4) by (auto simp: sorted_wrt_append intro: less_imp_le)
      have sep: "g div (10 * k) \<noteq> y div (10 * k)" if "g \<in> set G" "y \<in> set (x # xs)" for g y
      proof
        assume "g div (10 * k) = y div (10 * k)"
        moreover have "g \<le> x" "x \<le> y"
          using s(3,4) that by (auto intro: less_imp_le)
        then have "g div (10 * k) \<le> x div (10 * k)" "x div (10 * k) \<le> y div (10 * k)"
          by (simp_all add: div_le_mono)
        ultimately show False
          using False 2(8) that(1) by auto
      qed
      consider "a \<in> set G" "b \<in> set G" | "a \<in> set ([x] @ xs)" "b \<in> set ([x] @ xs)"
        using 2(9,10,12) sep by (metis Un_iff append_Cons append_Nil set_append)
      then show ?thesis
      proof cases
        case 1
        then show ?thesis
          using group [of f l k G a b] 2(3,5-8,11) s(1) False by fastforce
      next
        case second: 2
        then show ?thesis
          using 2(2) [OF False _ s(2), of a b] 2(3,11,12) False by fastforce
      qed
    qed
  qed
qed

subsection \<open>The table passes\<close>

definition part_seqs :: "nat \<Rightarrow> nat list \<Rightarrow> bool" where
  "part_seqs d ss \<longleftrightarrow> sorted_wrt (<) ss \<and> (\<forall>s\<in>set ss. s div 1000 = d \<and> seq_digits s) \<and>
     (\<forall>k\<in>{1, 10, 100}. \<forall>a\<in>set ss. \<forall>b\<in>set ss. a \<noteq> b \<and> a div (10 * k) = b div (10 * k) \<longrightarrow>
       (\<exists>c\<in>set ss. \<exists>e\<in>set ss. c div (10 * k) = a div (10 * k) \<and> e div (10 * k) = a div (10 * k) \<and> c div k \<noteq> e div k))"

lemma part_ok_sound:
  assumes "part_ok d ss"
  shows "part_seqs d ss"
proof -
  obtain s ss' where ss: "ss = s # ss'" and ok: "digits_ok d 0 ss" "groups_ok 1 s s ss'" "groups_ok 10 s s ss'" "groups_ok 100 s s ss'"
    using assms by (auto simp: part_ok_def split: list.splits)
  have so: "sorted_wrt (<) ss" "\<forall>s\<in>set ss. s div 1000 = d \<and> seq_digits s"
    using digits_ok_sound [OF ok(1)] by auto
  have "\<exists>c\<in>set ss. \<exists>e\<in>set ss. c div (10 * k) = a div (10 * k) \<and> e div (10 * k) = a div (10 * k) \<and> c div k \<noteq> e div k"
    if "k \<in> {1, 10, 100}" "a \<in> set ss" "b \<in> set ss" "a \<noteq> b" "a div (10 * k) = b div (10 * k)" for k a b
  proof -
    have "groups_ok k s s ss'"
      using that(1) ok by auto
    from groups_ok_sound [OF this, of "[s]" a b] show ?thesis
      using so(1) that by (auto simp: ss)
  qed
  then show ?thesis
    using so unfolding part_seqs_def by blast
qed

lemma length_parts: "length parts = 9"
  by (simp add: parts_def)

lemma parts_seqs: "i < 9 \<Longrightarrow> part_seqs (1 + i) (map fst (parts ! i))"
proof -
  have "\<forall>i<9. part_seqs (1 + i) (map (map fst) parts ! i)"
    using parts_ok [THEN part_ok_sound] by (auto simp: parts_def less_Suc_eq numeral_eq_Suc)
  then show "i < 9 \<Longrightarrow> part_seqs (1 + i) (map fst (parts ! i))"
    using length_parts by (metis nth_map)
qed

lemma in_parts: "s \<in> fst ` set words_button_seq \<longleftrightarrow> (\<exists>i<9. s \<in> set (map fst (parts ! i)))"
proof -
  have "s \<in> fst ` set words_button_seq \<longleftrightarrow> (\<exists>qs\<in>set parts. s \<in> set (map fst qs))"
    by (auto simp: words_button_seq_def)
  also have "\<dots> \<longleftrightarrow> (\<exists>i<9. s \<in> set (map fst (parts ! i)))"
    using length_parts by (metis in_set_conv_nth)
  finally show ?thesis .
qed

lemma concat_sorted:
  "\<forall>i<length ps. part_seqs (n + i) (ps ! i) \<Longrightarrow> sorted_wrt (<) (concat ps) \<and> (\<forall>t\<in>set (concat ps). n \<le> t div 1000 \<and> seq_digits t)"
proof (induction ps arbitrary: n)
  case (Cons ss ps)
  have ss: "part_seqs n ss"
    using Cons.prems by force
  have "\<forall>i<length ps. part_seqs (Suc n + i) (ps ! i)"
    using Cons.prems by (metis Suc_less_eq add_Suc_shift length_Cons nth_Cons_Suc)
  then have IH: "sorted_wrt (<) (concat ps)" "\<forall>t\<in>set (concat ps). Suc n \<le> t div 1000 \<and> seq_digits t"
    using Cons.IH by blast+
  have "s < t" if "s \<in> set ss" "t \<in> set (concat ps)" for s t
  proof (rule ccontr)
    assume "\<not> s < t"
    then have "t div 1000 \<le> s div 1000"
      by (simp add: div_le_mono)
    moreover have "s div 1000 = n" "Suc n \<le> t div 1000"
      using ss IH(2) that unfolding part_seqs_def by blast+
    ultimately show False
      by simp
  qed
  moreover have "sorted_wrt (<) ss" "\<forall>s\<in>set ss. n \<le> s div 1000 \<and> seq_digits s"
    using ss by (auto simp: part_seqs_def)
  ultimately show ?case
    using IH by (auto simp: sorted_wrt_append Suc_le_eq intro: less_imp_le)
qed simp

lemma words_button_seq_wf: "wf_seqs words_button_seq"
proof -
  have eq: "map fst words_button_seq = concat (map (map fst) parts)"
    by (simp add: words_button_seq_def map_concat)
  have "\<forall>i<length (map (map fst) parts). part_seqs (1 + i) (map (map fst) parts ! i)"
    using parts_seqs by (simp add: length_parts)
  from concat_sorted [OF this] have "sorted_wrt (<) (map fst words_button_seq)" "\<forall>t\<in>set (map fst words_button_seq). seq_digits t"
    unfolding eq by blast+
  moreover have "seqs1 \<noteq> []"
    by (simp add: seqs1_def)
  ultimately show ?thesis
    by (simp add: wf_seqs_def) (simp add: words_button_seq_def parts_def)
qed

lemma two_keys:
  assumes "M \<in> {10, 100, 1000}" "1000 \<le> p * M" "p * M \<le> 9999" "c div M = p" "e div M = p" "c div (M div 10) \<noteq> e div (M div 10)"
    and "c \<in> fst ` set words_button_seq" "e \<in> fst ` set words_button_seq"
  shows "1 < card (next_keys words_button_seq p)"
proof -
  have key: "x div (M div 10) mod 10 - 1 \<in> next_keys words_button_seq p \<and> x div (M div 10) mod 10 \<noteq> 0 \<and>
      x div (M div 10) = 10 * p + x div (M div 10) mod 10"
    if x: "x div M = p" "x \<in> fst ` set words_button_seq" for x
  proof -
    let ?d = "x div (M div 10) mod 10"
    have d: "seq_digits x"
      using words_button_seq_wf x(2) by (auto simp: wf_seqs_def)
    then have nz: "?d \<noteq> 0" and lt: "?d < 10"
      using seq_digits_div [OF _ assms(1)] by auto
    have "seq_prefix p x"
      using x(1) assms(1) by (auto simp: seq_prefix_def)
    then have "seq_prefix (10 * p + ?d) x"
      using seq_prefix_snoc [OF assms(1-3) d lt] by simp
    moreover have "p < 1000"
      using assms(1,3) by auto
    moreover have "x div (M div 10) div 10 = p"
      using x(1) assms(1) by (auto simp: div_mult2_eq [symmetric])
    ultimately show ?thesis
      using nz lt x(2) by (auto simp: next_keys_def)
  qed
  let ?a = "c div (M div 10) mod 10" and ?b = "e div (M div 10) mod 10"
  have "?a - 1 \<noteq> ?b - 1"
    using key [OF assms(4,7)] key [OF assms(5,8)] assms(6) by (metis One_nat_def Suc_pred not_gr_zero)
  moreover have "{?a - 1, ?b - 1} \<subseteq> next_keys words_button_seq p"
    using key [OF assms(4,7)] key [OF assms(5,8)] by blast
  ultimately show ?thesis
    using card_mono [OF next_keys_finite, of "{?a - 1, ?b - 1}" words_button_seq p] by simp
qed

text \<open>
  C24.  The table of key sequences.  The 1024 entries are sorted, their sequences have four digits from one to
  nine, and whenever at most one key can follow the digits typed so far, at most one entry is left: the
  keyboard may accept the word without asking for more keys.
\<close>

theorem words_button_seq_unambiguous:
  "length words_button_seq = 1024 \<and> wf_seqs words_button_seq \<and> unambiguous words_button_seq"
proof (intro conjI words_button_seq_wf)
  show "length words_button_seq = 1024"
    by code_simp
  let ?qs = words_button_seq
  show "unambiguous ?qs"
    unfolding unambiguous_def
  proof (intro allI impI)
    fix p i j
    let ?s = "fst (?qs ! i)" and ?t = "fst (?qs ! j)"
    assume A: "i < length ?qs \<and> j < length ?qs \<and> seq_prefix p ?s \<and> seq_prefix p ?t \<and> card (next_keys ?qs p) \<le> 1"
    have rng: "1000 \<le> ?s" "?s \<le> 9999" "1000 \<le> ?t" "?t \<le> 9999"
      using seq_range(1,2) [OF words_button_seq_wf] A by blast+
    have "?s = ?t"
    proof (rule ccontr)
      assume ne: "?s \<noteq> ?t"
      have "p < 1000"
      proof (rule ccontr)
        assume "\<not> p < 1000"
        then have "?s = p" "?t = p"
          using A rng by (auto simp: seq_prefix_def)
        then show False
          using ne by simp
      qed
      moreover have "1 \<le> p"
        using A rng by (auto simp: seq_prefix_def)
      ultimately have "\<exists>M\<in>{10, 100, 1000}. range_loop p (p + 1) 1 = (p * M, (p + 1) * M, M) \<and> 1000 \<le> p * M \<and> p * M \<le> 9999"
        by (intro range_loop_spec) simp_all
      then obtain M where M: "M \<in> {10, 100, 1000}" "1000 \<le> p * M" "p * M \<le> 9999"
        by blast
      have div: "seq_prefix p s \<longleftrightarrow> s div M = p" if "1000 \<le> s" "s \<le> 9999" for s
        using seq_prefix_range [OF _ M(2,3) that] M(1) by (auto simp: div_nat_eqI)
      have qs: "?s \<in> fst ` set ?qs" "?t \<in> fst ` set ?qs"
        using A by simp_all
      obtain x y where xy: "x < 9" "?s \<in> set (map fst (parts ! x))" "y < 9" "?t \<in> set (map fst (parts ! y))"
        using qs in_parts by metis
      have eqM: "?s div M = p" "?t div M = p"
        using A div rng by blast+
      moreover have "n div 1000 = n div M div (1000 div M)" for n :: nat
        using M(1) by (auto simp: div_mult2_eq [symmetric])
      ultimately have "?s div 1000 = ?t div 1000"
        by metis
      then have "x = y"
        using parts_seqs [OF xy(1)] parts_seqs [OF xy(3)] xy(2,4) unfolding part_seqs_def by (metis add_left_imp_eq)
      have k: "M div 10 \<in> {1, 10, 100}" "10 * (M div 10) = M"
        using M(1) by auto
      obtain c e where ce: "c \<in> set (map fst (parts ! x))" "e \<in> set (map fst (parts ! x))" "c div M = p" "e div M = p"
          "c div (M div 10) \<noteq> e div (M div 10)"
        using parts_seqs [OF xy(1)] k xy(2,4) \<open>x = y\<close> ne eqM unfolding part_seqs_def by metis
      show False
        using two_keys [OF M ce(3-5)] ce(1,2) xy(1) A in_parts [of c] in_parts [of e] by (metis not_le)
    qed
    then show "i = j"
      using A wf_seqs_nth [OF words_button_seq_wf, of i j] wf_seqs_nth [OF words_button_seq_wf, of j i] by (metis less_irrefl nat_neq_iff)
  qed
qed

end
