(* ===== verification/Transport.thy ===== *)
theory Transport
  imports Prelude
begin

section \<open>The host transport: chunked framing of messages\<close>

text \<open>
  \<^verbatim>\<open>rust/trezor-client/src/transport/protocol.rs\<close> (traits \<^verbatim>\<open>Link\<close> and \<^verbatim>\<open>Protocol\<close>,
  \<^verbatim>\<open>ProtocolV1\<close>, \<^verbatim>\<open>ProtocolV2\<close>), \<^verbatim>\<open>transport/error.rs\<close>, and the UDP link of
  \<^verbatim>\<open>transport/udp.rs\<close>.  A link is a pair of functions on its state, an argument of the protocol's
  definitions; the locale \<open>chunk_link\<close> is the contract of the trait and the UDP link interprets it.
  A read loop may never return on a link that keeps delivering empty chunks, so the loops return
  \<open>None\<close> in that case.  A message type is its discriminant; \<open>from_i32\<close>, the generated conversion
  of \<^verbatim>\<open>protos/generated/messages.rs\<close>, is a parameter.
\<close>

datatype transport_error =
    Usb | IO | DeviceNotFound | DeviceDisconnected | UnexpectedChunkSizeFromDevice nat
  | DeviceReadTimeout | DeviceBadMagic | DeviceBadSessionId | DeviceUnexpectedSequenceNumber
  | InvalidMessageType u32 | NoDeviceSerial

type_synonym 'a tres = "('a, transport_error) result"

record proto_message =
  message_type :: int
  payload :: bytes

type_synonym 'l write_chunk = "'l \<Rightarrow> bytes \<Rightarrow> 'l tres"
type_synonym 'l read_chunk = "'l \<Rightarrow> (bytes \<times> 'l) tres"

definition REPLEN :: nat where
  "REPLEN = 64"

text \<open>Indexing and slicing that panic out of range; \<open>Vec::resize\<close> with zeroes.\<close>

definition index :: "'a list \<Rightarrow> nat \<Rightarrow> 'a tres" where
  "index xs i = unwrap (nth_get xs i)"

definition slice :: "'a list \<Rightarrow> nat \<Rightarrow> nat \<Rightarrow> 'a list tres" where
  "slice xs a b = unwrap (slice_get xs a b)"

definition resize :: "nat \<Rightarrow> bytes \<Rightarrow> bytes" where
  "resize n xs = take n xs @ replicate (n - length xs) 0"

subsection \<open>Version 1\<close>

function v1_write_loop :: "'l write_chunk \<Rightarrow> 'l \<Rightarrow> bytes \<Rightarrow> nat \<Rightarrow> 'l tres" where
  "v1_write_loop wc l data cur =
     (if cur < length data then
        let end = min (cur + (REPLEN - 1)) (length data);
            chunk = resize REPLEN (0x3f # take (end - cur) (drop cur data)) in
        rbind (wc l chunk) (\<lambda>l'. v1_write_loop wc l' data end)
      else Inr l)"
  by pat_completeness auto
termination
  by (relation "measure (\<lambda>(_, _, data, cur). length data - cur)") (auto simp: REPLEN_def)

declare v1_write_loop.simps [simp del]

definition v1_data :: "proto_message \<Rightarrow> bytes" where
  "v1_data m =
     [0x23, 0x23] @ u16_be_bytes (word_of_int (message_type m))
       @ u32_be_bytes (word_of_nat (length (payload m))) @ payload m"

definition v1_write :: "'l write_chunk \<Rightarrow> 'l \<Rightarrow> proto_message \<Rightarrow> 'l tres" where
  "v1_write wc l m = v1_write_loop wc l (v1_data m) 0"

partial_function (option) v1_read_loop ::
  "'l read_chunk \<Rightarrow> 'l \<Rightarrow> bytes \<Rightarrow> nat \<Rightarrow> (bytes \<times> 'l) tres option" where
  "v1_read_loop rc l data data_length =
     (if length data < data_length then
        (case rc l of
           Inl e \<Rightarrow> Some (Inl e)
         | Inr (chunk, l') \<Rightarrow>
             (case index chunk 0 of
                Inl e \<Rightarrow> Some (Inl e)
              | Inr magic \<Rightarrow>
                  if magic \<noteq> 0x3f then Some (Inl (Err DeviceBadMagic))
                  else v1_read_loop rc l' (data @ drop 1 chunk) data_length))
      else Some (Inr (data, l)))"

text \<open>The header of the first chunk: magic, message type, length, first payload bytes.\<close>

definition v1_parse_header :: "(int \<Rightarrow> int option) \<Rightarrow> bytes \<Rightarrow> (int \<times> nat \<times> bytes) tres" where
  "v1_parse_header from_i32 chunk =
     rbind (index chunk 0) (\<lambda>c0.
     rbind (index chunk 1) (\<lambda>c1.
     rbind (index chunk 2) (\<lambda>c2.
       if c0 \<noteq> 0x3f \<or> c1 \<noteq> 0x23 \<or> c2 \<noteq> 0x23 then Inl (Err DeviceBadMagic)
       else
         rbind (slice chunk 3 5) (\<lambda>t.
         let message_type_id = (ucast (from_be_bytes t :: u16) :: u32) in
         rbind (ok_or (from_i32 (sint message_type_id)) (InvalidMessageType message_type_id)) (\<lambda>mt.
         rbind (slice chunk 5 9) (\<lambda>n.
         rbind (slice chunk 9 (length chunk)) (\<lambda>data.
           Inr (mt, unat (from_be_bytes n :: u32), data))))))))"

definition v1_read ::
  "(int \<Rightarrow> int option) \<Rightarrow> 'l read_chunk \<Rightarrow> 'l \<Rightarrow> (proto_message \<times> 'l) tres option" where
  "v1_read from_i32 rc l =
     (case rc l of
        Inl e \<Rightarrow> Some (Inl e)
      | Inr (chunk, l') \<Rightarrow>
          (case v1_parse_header from_i32 chunk of
             Inl e \<Rightarrow> Some (Inl e)
           | Inr (mt, data_length, data) \<Rightarrow>
               map_option (\<lambda>r. rbind r (\<lambda>(data', l'').
                   rbind (slice data' 0 data_length) (\<lambda>p.
                     Inr (\<lparr>message_type = mt, payload = p\<rparr>, l''))))
                 (v1_read_loop rc l' data data_length)))"

subsection \<open>Version 2\<close>

record 'l protocol_v2 =
  link :: 'l
  session_id :: u32

definition v2_session_begin ::
  "'l write_chunk \<Rightarrow> 'l read_chunk \<Rightarrow> 'l protocol_v2 \<Rightarrow> 'l protocol_v2 tres" where
  "v2_session_begin wc rc p =
     rbind (wc (link p) (0x03 # replicate (REPLEN - 1) 0)) (\<lambda>l.
     rbind (rc l) (\<lambda>(resp, l').
     rbind (index resp 0) (\<lambda>r0.
       if r0 \<noteq> 0x03 then Inl (Err DeviceBadMagic)
       else rbind (slice resp 1 5) (\<lambda>b. Inr \<lparr>link = l', session_id = from_be_bytes b\<rparr>))))"

definition v2_session_end ::
  "'l write_chunk \<Rightarrow> 'l read_chunk \<Rightarrow> 'l protocol_v2 \<Rightarrow> 'l protocol_v2 tres" where
  "v2_session_end wc rc p =
     (if session_id p = 0 then Inl Panic
      else
        rbind (wc (link p) (resize REPLEN (0x04 # u32_be_bytes (session_id p)))) (\<lambda>l.
        rbind (rc l) (\<lambda>(resp, l').
        rbind (index resp 0) (\<lambda>r0.
          if r0 \<noteq> 0x04 then Inl (Err DeviceBadMagic)
          else Inr \<lparr>link = l', session_id = 0\<rparr>))))"

definition v2_data :: "proto_message \<Rightarrow> bytes" where
  "v2_data m =
     u32_be_bytes (word_of_int (message_type m))
       @ u32_be_bytes (word_of_nat (length (payload m))) @ payload m"

definition v2_header :: "u32 \<Rightarrow> int \<Rightarrow> bytes" where
  "v2_header sid seq =
     (if seq < 0 then 0x01 # u32_be_bytes sid
      else 0x01 # u32_be_bytes sid @ u32_be_bytes (word_of_int seq))"

lemma length_v2_header: "length (v2_header sid seq) = (if seq < 0 then 5 else 9)"
  by (simp add: v2_header_def)

function v2_write_loop :: "'l write_chunk \<Rightarrow> u32 \<Rightarrow> 'l \<Rightarrow> bytes \<Rightarrow> nat \<Rightarrow> int \<Rightarrow> 'l tres" where
  "v2_write_loop wc sid l data cur seq =
     (if cur < length data then
        let header = v2_header sid seq;
            end = min (cur + (REPLEN - length header)) (length data);
            chunk = resize REPLEN (header @ take (end - cur) (drop cur data)) in
        rbind (wc l chunk) (\<lambda>l'. v2_write_loop wc sid l' data end (seq + 1))
      else Inr l)"
  by pat_completeness auto
termination
  by (relation "measure (\<lambda>(_, _, _, data, cur, _). length data - cur)")
    (auto simp: REPLEN_def length_v2_header)

declare v2_write_loop.simps [simp del]

definition v2_write :: "'l write_chunk \<Rightarrow> 'l protocol_v2 \<Rightarrow> proto_message \<Rightarrow> 'l protocol_v2 tres" where
  "v2_write wc p m =
     (if session_id p = 0 then Inl Panic
      else rbind (v2_write_loop wc (session_id p) (link p) (v2_data m) 0 (- 1))
             (\<lambda>l. Inr (p\<lparr>link := l\<rparr>)))"

definition v2_parse_next :: "u32 \<Rightarrow> nat \<Rightarrow> bytes \<Rightarrow> bytes tres" where
  "v2_parse_next sid seq chunk =
     rbind (index chunk 0) (\<lambda>c0.
       if c0 \<noteq> 0x02 then Inl (Err DeviceBadMagic)
       else rbind (slice chunk 1 5) (\<lambda>b.
         if from_be_bytes b \<noteq> sid then Inl (Err DeviceBadSessionId)
         else rbind (slice chunk 5 9) (\<lambda>q.
           if from_be_bytes q \<noteq> (word_of_nat seq :: u32) then Inl (Err DeviceUnexpectedSequenceNumber)
           else slice chunk 9 (length chunk))))"

partial_function (option) v2_read_loop ::
  "'l read_chunk \<Rightarrow> u32 \<Rightarrow> 'l \<Rightarrow> bytes \<Rightarrow> nat \<Rightarrow> nat \<Rightarrow> (bytes \<times> 'l) tres option" where
  "v2_read_loop rc sid l data data_length seq =
     (if length data < data_length then
        (case rc l of
           Inl e \<Rightarrow> Some (Inl e)
         | Inr (chunk, l') \<Rightarrow>
             (case v2_parse_next sid seq chunk of
                Inl e \<Rightarrow> Some (Inl e)
              | Inr tail \<Rightarrow> v2_read_loop rc sid l' (data @ tail) data_length (seq + 1)))
      else Some (Inr (data, l)))"

definition v2_parse_header ::
  "(int \<Rightarrow> int option) \<Rightarrow> u32 \<Rightarrow> bytes \<Rightarrow> (int \<times> nat \<times> bytes) tres" where
  "v2_parse_header from_i32 sid chunk =
     rbind (index chunk 0) (\<lambda>c0.
       if c0 \<noteq> 0x01 then Inl (Err DeviceBadMagic)
       else rbind (slice chunk 1 5) (\<lambda>b.
         if from_be_bytes b \<noteq> sid then Inl (Err DeviceBadSessionId)
         else
           rbind (slice chunk 5 9) (\<lambda>t.
           let message_type_id = (from_be_bytes t :: u32) in
           rbind (ok_or (from_i32 (sint message_type_id)) (InvalidMessageType message_type_id)) (\<lambda>mt.
           rbind (slice chunk 9 13) (\<lambda>n.
           rbind (slice chunk 13 (length chunk)) (\<lambda>data.
             Inr (mt, unat (from_be_bytes n :: u32), data)))))))"

definition v2_read ::
  "(int \<Rightarrow> int option) \<Rightarrow> 'l read_chunk \<Rightarrow> 'l protocol_v2 \<Rightarrow>
     (proto_message \<times> 'l protocol_v2) tres option" where
  "v2_read from_i32 rc p =
     (case rc (link p) of
        Inl e \<Rightarrow> Some (Inl e)
      | Inr (chunk, l') \<Rightarrow>
          (case v2_parse_header from_i32 (session_id p) chunk of
             Inl e \<Rightarrow> Some (Inl e)
           | Inr (mt, data_length, data) \<Rightarrow>
               map_option (\<lambda>r. rbind r (\<lambda>(data', l'').
                   rbind (slice data' 0 data_length) (\<lambda>q.
                     Inr (\<lparr>message_type = mt, payload = q\<rparr>, p\<lparr>link := l''\<rparr>))))
                 (v2_read_loop rc (session_id p) l' data data_length 0)))"

subsection \<open>The UDP link\<close>

text \<open>
  A connected datagram socket: the datagrams received and not yet read, those sent, and whether the
  operating system reports an error.  \<open>recv\<close> truncates a datagram to the buffer and times out when
  nothing arrives.
\<close>

record udp_link =
  inbox :: "bytes list"
  outbox :: "bytes list"
  broken :: bool

definition CHUNK_SIZE :: nat where
  "CHUNK_SIZE = 64"

definition socket_recv :: "udp_link \<Rightarrow> nat \<Rightarrow> (bytes \<times> udp_link) tres" where
  "socket_recv l n =
     (if broken l then Inl (Err IO)
      else case inbox l of
        [] \<Rightarrow> Inl (Err IO)
      | d # ds \<Rightarrow> Inr (take n d, l\<lparr>inbox := ds\<rparr>))"

definition udp_write_chunk :: "udp_link \<Rightarrow> bytes \<Rightarrow> udp_link tres" where
  "udp_write_chunk l chunk =
     (if broken l then Inl (Err IO) else Inr (l\<lparr>outbox := outbox l @ [chunk]\<rparr>))"

definition udp_read_chunk :: "udp_link \<Rightarrow> (bytes \<times> udp_link) tres" where
  "udp_read_chunk l =
     rbind (socket_recv l CHUNK_SIZE) (\<lambda>(d, l').
       if length d = CHUNK_SIZE then Inr (d, l') else Inl (Err DeviceReadTimeout))"

subsection \<open>Chunks of a message\<close>

definition v1_chunks :: "bytes \<Rightarrow> bytes list" where
  "v1_chunks data = map (\<lambda>g. resize 64 (0x3f # g)) (groups (63) data)"

lemma length_resize [simp]: "length (resize n xs) = n"
  by (simp add: resize_def)

lemma resize_eq: "length xs \<le> n \<Longrightarrow> resize n xs = xs @ replicate (n - length xs) 0"
  by (simp add: resize_def)

lemma v1_chunks_Nil [simp]: "v1_chunks [] = []"
  by (simp add: v1_chunks_def)

lemma v1_chunks_Cons:
  "xs \<noteq> [] \<Longrightarrow> v1_chunks xs = resize 64 (0x3f # take (63) xs) # v1_chunks (drop (63) xs)"
  by (simp add: v1_chunks_def groups_Cons REPLEN_def)

lemma be16_cases: obtains a b where "u16_be_bytes w = [a, b]" "from_be_bytes [a, b] = w"
  using that from_be_u16 [of w] by (simp add: u16_be_bytes_def)

lemma be32_cases: obtains a b c d where "u32_be_bytes w = [a, b, c, d]" "from_be_bytes [a, b, c, d] = w"
  using that from_be_u32 [of w] by (simp add: u32_be_bytes_def)

lemma v1_first_chunk:
  "resize 64 (0x3f # take (63) (v1_data m))
     = [0x3f, 0x23, 0x23] @ u16_be_bytes (word_of_int (message_type m))
       @ u32_be_bytes (word_of_nat (length (payload m))) @ resize 55 (take 55 (payload m))"
  by (simp add: v1_data_def REPLEN_def resize_def)

lemma v1_chunks_data:
  "v1_chunks (v1_data m)
     = resize 64 (0x3f # take (63) (v1_data m)) # v1_chunks (drop 55 (payload m))"
proof -
  have "v1_data m \<noteq> []" by (simp add: v1_data_def)
  moreover have "drop (63) (v1_data m) = drop 55 (payload m)"
    by (simp add: v1_data_def REPLEN_def)
  ultimately show ?thesis by (simp add: v1_chunks_Cons)
qed

lemma v1_parse_first_chunk:
  assumes "from_i32 (message_type m) = Some (message_type m)"
    and "0 \<le> message_type m" "message_type m < 2 ^ 16" "length (payload m) < 2 ^ 32"
  shows "v1_parse_header from_i32 (resize 64 (0x3f # take (63) (v1_data m)))
    = Inr (message_type m, length (payload m), resize 55 (take 55 (payload m)))"
proof -
  let ?t = "word_of_int (message_type m) :: u16" and ?n = "word_of_nat (length (payload m)) :: u32"
  obtain t0 t1 where t: "u16_be_bytes ?t = [t0, t1]" "from_be_bytes [t0, t1] = ?t" by (rule be16_cases)
  obtain n0 n1 n2 n3 where n: "u32_be_bytes ?n = [n0, n1, n2, n3]" "from_be_bytes [n0, n1, n2, n3] = ?n"
    by (rule be32_cases)
  have "uint ?t = message_type m"
    using assms(2,3) by (simp add: uint_word_of_int_eq take_bit_int_eq_self)
  then have mt: "sint (ucast ?t :: u32) = message_type m"
    using assms(2,3) by (simp add: sint_uint unsigned_ucast_eq signed_take_bit_int_eq_self take_bit_int_eq_self)
  have len: "unat ?n = length (payload m)"
    using assms(4) by (simp add: unat_of_nat)
  show ?thesis
    unfolding v1_first_chunk t n
    by (simp add: v1_parse_header_def index_def slice_def nth_get_def slice_get_def t(2) n(2) mt len assms(1))
qed

subsection \<open>The contract of a link\<close>

locale chunk_link =
  fixes wc :: "'l write_chunk"
    and rc :: "'l read_chunk"
    and up :: "'l \<Rightarrow> bool"
    and sent :: "'l \<Rightarrow> bytes list"
    and pending :: "'l \<Rightarrow> bytes list"
  assumes write_chunk: "wc l c = Inr l' \<Longrightarrow> sent l' = sent l @ [c] \<and> pending l' = pending l \<and> up l'"
    and write_chunk_up: "up l \<Longrightarrow> is_ok (wc l c)"
    and read_chunk: "up l \<Longrightarrow> pending l = c # cs \<Longrightarrow> length c = REPLEN \<Longrightarrow>
      \<exists>l'. rc l = Inr (c, l') \<and> pending l' = cs \<and> sent l' = sent l \<and> up l'"
    and read_chunk_size: "rc l = Inr (c, l') \<Longrightarrow> length c = REPLEN"
begin

lemma v1_write_loop_sends:
  "up l \<Longrightarrow> \<exists>l'. v1_write_loop wc l data cur = Inr l' \<and>
     sent l' = sent l @ v1_chunks (drop cur data) \<and> pending l' = pending l \<and> up l'"
proof (induction "length data - cur" arbitrary: l cur rule: less_induct)
  case less
  show ?case
  proof (cases "cur < length data")
    case False
    then show ?thesis using less.prems by (simp add: v1_write_loop.simps [of wc l data cur])
  next
    case True
    let ?stop = "min (cur + (63)) (length data)"
    let ?chunk = "resize 64 (0x3f # take (?stop - cur) (drop cur data))"
    have take_end: "take (?stop - cur) (drop cur data) = take (63) (drop cur data)"
      using True by (auto simp: min_def)
    have drop_end: "drop ?stop data = drop (63) (drop cur data)"
      by (auto simp: min_def add.commute)
    obtain l1 where l1: "wc l ?chunk = Inr l1"
      using write_chunk_up [OF less.prems, of ?chunk] by (auto simp: is_ok_iff)
    note w = write_chunk [OF l1]
    have "length data - ?stop < length data - cur"
      using True by (auto simp: min_def REPLEN_def)
    from less.hyps [OF this] w obtain l2 where
      "v1_write_loop wc l1 data ?stop = Inr l2" "sent l2 = sent l1 @ v1_chunks (drop ?stop data)"
      "pending l2 = pending l1" "up l2" by blast
    moreover have "v1_chunks (drop cur data) = ?chunk # v1_chunks (drop ?stop data)"
      using True by (simp add: v1_chunks_Cons take_end drop_end)
    ultimately show ?thesis using True l1 w
      by (simp add: v1_write_loop.simps [of wc l data cur] Let_def REPLEN_def)
  qed
qed

lemma v1_read_loop_chunks:
  "up l \<Longrightarrow> pending l = v1_chunks xs @ cs \<Longrightarrow> length data + length xs = n \<Longrightarrow>
    \<exists>l' z. v1_read_loop rc l data n = Some (Inr (data @ xs @ replicate z 0, l'))
      \<and> pending l' = cs \<and> sent l' = sent l \<and> up l'"
proof (induction "length xs" arbitrary: l xs data rule: less_induct)
  case less
  show ?case
  proof (cases "xs = []")
    case True
    with less.prems show ?thesis
      by (intro exI [of _ l] exI [of _ 0]) (simp add: v1_read_loop.simps [of rc l data n])
  next
    case False
    let ?c = "resize 64 (0x3f # take (63) xs)"
    have "pending l = ?c # v1_chunks (drop (63) xs) @ cs"
      using less.prems(2) False by (simp add: v1_chunks_Cons)
    then obtain l1 where l1: "rc l = Inr (?c, l1)"
      "pending l1 = v1_chunks (drop (63) xs) @ cs" "up l1" "sent l1 = sent l"
      using read_chunk [OF less.prems(1)] by (metis length_resize REPLEN_def)
    have c: "index ?c 0 = Inr 0x3f" "drop 1 ?c = resize (63) (take (63) xs)"
      by (simp_all add: index_def nth_get_def resize_def REPLEN_def)
    have step: "v1_read_loop rc l data n
        = v1_read_loop rc l1 (data @ resize (63) (take (63) xs)) n"
      using False less.prems(3) l1(1) c
      by (subst v1_read_loop.simps) (simp add: length_greater_0_conv [symmetric] del: length_greater_0_conv)
    show ?thesis
    proof (cases "63 \<le> length xs")
      case True
      then have "resize (63) (take (63) xs) = take (63) xs"
        by (simp add: resize_def)
      moreover have "length (drop (63) xs) < length xs"
        using False by (simp add: REPLEN_def)
      moreover have "length (data @ take (63) xs) + length (drop (63) xs) = n"
        using True less.prems(3) by simp
      ultimately obtain l2 z where
        "v1_read_loop rc l1 (data @ take (63) xs) n
           = Some (Inr ((data @ take (63) xs) @ drop (63) xs @ replicate z 0, l2))"
        "pending l2 = cs" "up l2" "sent l2 = sent l"
        using less.hyps [OF _ l1(3,2)] l1(4) by metis
      then show ?thesis
        using step \<open>resize (63) (take (63) xs) = take (63) xs\<close>
        by (intro exI [of _ l2] exI [of _ z]) simp
    next
      case short: False
      then have d: "resize (63) (take (63) xs) = xs @ replicate (63 - length xs) 0"
        and "drop (63) xs = []"
        by (simp_all add: resize_def)
      with l1 have "pending l1 = cs" by simp
      moreover have "\<not> length (data @ xs @ replicate (63 - length xs) 0) < n"
        using less.prems(3) by simp
      ultimately show ?thesis using step l1(3,4)
        by (intro exI [of _ l1] exI [of _ "63 - length xs"])
          (simp add: d v1_read_loop.simps [of rc l1])
    qed
  qed
qed

lemma v1_read_chunks:
  assumes "up l" "pending l = v1_chunks (v1_data m) @ cs"
    and "from_i32 (message_type m) = Some (message_type m)"
    and "0 \<le> message_type m" "message_type m < 2 ^ 16" "length (payload m) < 2 ^ 32"
  shows "\<exists>l'. v1_read from_i32 rc l = Some (Inr (m, l')) \<and> pending l' = cs \<and> sent l' = sent l \<and> up l'"
proof -
  let ?c = "resize 64 (0x3f # take (63) (v1_data m))"
  let ?p = "payload m"
  obtain l1 where l1: "rc l = Inr (?c, l1)" "pending l1 = v1_chunks (drop 55 ?p) @ cs" "up l1" "sent l1 = sent l"
    using read_chunk [OF assms(1), of ?c] assms(2) by (auto simp: v1_chunks_data REPLEN_def)
  have "\<exists>l' z. v1_read_loop rc l1 (resize 55 (take 55 ?p)) (length ?p)
      = Some (Inr (?p @ replicate z 0, l')) \<and> pending l' = cs \<and> sent l' = sent l \<and> up l'"
  proof (cases "55 \<le> length ?p")
    case True
    then have "resize 55 (take 55 ?p) = take 55 ?p" by (simp add: resize_def)
    moreover have "length (take 55 ?p) + length (drop 55 ?p) = length ?p" by simp
    ultimately show ?thesis
      using v1_read_loop_chunks [OF l1(3,2), of "take 55 ?p" "length ?p"] l1(4)
      by (simp flip: append_assoc)
  next
    case False
    then have "resize 55 (take 55 ?p) = ?p @ replicate (55 - length ?p) 0" "drop 55 ?p = []"
      by (simp_all add: resize_def)
    with l1(2-4) show ?thesis
      by (intro exI [of _ l1] exI [of _ "55 - length ?p"]) (simp add: v1_read_loop.simps [of rc l1])
  qed
  then obtain l2 z where "v1_read_loop rc l1 (resize 55 (take 55 ?p)) (length ?p)
      = Some (Inr (?p @ replicate z 0, l2))" "pending l2 = cs" "sent l2 = sent l" "up l2" by blast
  then show ?thesis
    using l1(1) v1_parse_first_chunk [of from_i32 m, OF assms(3-6)]
    by (auto simp: v1_read_def slice_def slice_get_def)
qed

end

interpretation udp: chunk_link udp_write_chunk udp_read_chunk "\<lambda>l. \<not> broken l" outbox inbox
proof unfold_locales
  fix l l' :: udp_link and c
  assume "udp_read_chunk l = Inr (c, l')"
  then show "length c = REPLEN"
    by (auto simp: udp_read_chunk_def result_simps CHUNK_SIZE_def REPLEN_def split: if_splits)
qed (auto simp: udp_write_chunk_def udp_read_chunk_def socket_recv_def CHUNK_SIZE_def REPLEN_def
      split: if_splits)

subsection \<open>Properties\<close>

text \<open>
  C7.  Protocol V1 round trip over UDP: the datagrams that \<open>write\<close> sends for a message, delivered in
  order to a peer, are parsed by \<open>read\<close> into the same message; nothing of a following message is
  consumed and the read loop terminates.  Every datagram has the chunk size.
\<close>

theorem v1_roundtrip:
  assumes "\<not> broken l" "\<not> broken peer" "outbox l = []"
    and "from_i32 (message_type m) = Some (message_type m)"
    and "0 \<le> message_type m" "message_type m < 2 ^ 16" "length (payload m) < 2 ^ 32"
    and "v1_write udp_write_chunk l m = Inr l'" "inbox peer = outbox l' @ later"
  shows "(\<forall>d \<in> set (outbox l'). length d = CHUNK_SIZE) \<and>
    (\<exists>peer'. v1_read from_i32 udp_read_chunk peer = Some (Inr (m, peer')) \<and> inbox peer' = later)"
proof -
  have out: "outbox l' = v1_chunks (v1_data m)"
    using udp.v1_write_loop_sends [OF assms(1), of "v1_data m" 0] assms(3,8)
    by (auto simp: v1_write_def)
  moreover have "\<forall>d \<in> set (v1_chunks (v1_data m)). length d = CHUNK_SIZE"
    by (auto simp: v1_chunks_def CHUNK_SIZE_def REPLEN_def)
  moreover have "\<exists>peer'. v1_read from_i32 udp_read_chunk peer = Some (Inr (m, peer')) \<and> inbox peer' = later"
    using udp.v1_read_chunks [of peer m later from_i32, OF assms(2) _ assms(4-7)] assms(9) out by auto
  ultimately show ?thesis by simp
qed

theorem v1_roundtrip_witness:
  "\<exists>peer'. v1_read (\<lambda>i. if i = 55 then Some 55 else None) udp_read_chunk
      \<lparr>inbox = [[0x3f, 0x23, 0x23, 0, 55, 0, 0, 0, 2, 8, 1] @ replicate 53 0], outbox = [], broken = False\<rparr>
    = Some (Inr (\<lparr>message_type = 55, payload = [8, 1]\<rparr>, peer')) \<and> inbox peer' = []"
proof -
  let ?m = "\<lparr>message_type = 55, payload = [8, 1]\<rparr>"
  let ?l = "\<lparr>inbox = [], outbox = [], broken = False\<rparr> :: udp_link"
  let ?c = "[0x3f, 0x23, 0x23, 0, 55, 0, 0, 0, 2, 8, 1] @ replicate 53 0 :: bytes"
  let ?peer = "\<lparr>inbox = [?c], outbox = [], broken = False\<rparr> :: udp_link"
  have w: "v1_write udp_write_chunk ?l ?m = Inr \<lparr>inbox = [], outbox = [?c], broken = False\<rparr>"
    by (simp add: v1_write_def v1_write_loop.simps v1_data_def u16_be_bytes_def u32_be_bytes_def
        resize_def REPLEN_def udp_write_chunk_def Let_def)
  show ?thesis
    using v1_roundtrip [of ?l ?peer "\<lambda>i. if i = 55 then Some 55 else None" ?m _ "[]", OF _ _ _ _ _ _ _ w]
    by simp
qed

lemma v2_write_loop_done: "length data \<le> cur \<Longrightarrow> v2_write_loop wc sid l data cur seq = Inr l"
  by (simp add: v2_write_loop.simps [of wc sid l data cur seq])

lemma v2_write_loop_appends:
  "v2_write_loop udp_write_chunk sid l data cur seq = Inr l' \<Longrightarrow>
     \<exists>cs. outbox l' = outbox l @ cs \<and> broken l' = broken l \<and> inbox l' = inbox l"
proof (induction "length data - cur" arbitrary: l cur seq rule: less_induct)
  case less
  let ?stop = "min (cur + (REPLEN - length (v2_header sid seq))) (length data)"
  let ?c = "resize REPLEN (v2_header sid seq @ take (?stop - cur) (drop cur data))"
  show ?case
  proof (cases "cur < length data")
    case False
    with less.prems show ?thesis by (simp add: v2_write_loop.simps [of _ sid l data cur seq])
  next
    case True
    with less.prems obtain l1 where l1: "udp_write_chunk l ?c = Inr l1"
      "v2_write_loop udp_write_chunk sid l1 data ?stop (seq + 1) = Inr l'"
      by (auto simp: v2_write_loop.simps [of _ sid l data cur seq] Let_def result_simps)
    have "length data - ?stop < length data - cur"
      using True by (auto simp: min_def REPLEN_def length_v2_header)
    from less.hyps [OF this l1(2)] l1(1) show ?thesis
      by (auto simp: udp_write_chunk_def split: if_splits)
  qed
qed

lemma v2_parse_first_chunk:
  assumes "from_i32 (message_type m) = Some (message_type m)"
    and "- (2 ^ 31) \<le> message_type m" "message_type m < 2 ^ 31" "length (payload m) < 2 ^ 32"
  shows "v2_parse_header from_i32 sid (resize 64 (v2_header sid (- 1) @ take 59 (v2_data m)))
    = Inr (message_type m, length (payload m), resize 51 (take 51 (payload m)))"
proof -
  let ?t = "word_of_int (message_type m) :: u32" and ?n = "word_of_nat (length (payload m)) :: u32"
  obtain s0 s1 s2 s3 where sid: "u32_be_bytes sid = [s0, s1, s2, s3]" "from_be_bytes [s0, s1, s2, s3] = sid"
    by (rule be32_cases)
  obtain t0 t1 t2 t3 where t: "u32_be_bytes ?t = [t0, t1, t2, t3]" "from_be_bytes [t0, t1, t2, t3] = ?t"
    by (rule be32_cases)
  obtain n0 n1 n2 n3 where n: "u32_be_bytes ?n = [n0, n1, n2, n3]" "from_be_bytes [n0, n1, n2, n3] = ?n"
    by (rule be32_cases)
  have mt: "sint ?t = message_type m"
    using assms(2,3) by (simp add: int_word_sint signed_take_bit_int_eq_self_iff)
  have len: "unat ?n = length (payload m)" using assms(4) by (simp add: unat_of_nat)
  have "resize 64 (v2_header sid (- 1) @ take 59 (v2_data m))
      = 0x01 # s0 # s1 # s2 # s3 # t0 # t1 # t2 # t3 # n0 # n1 # n2 # n3 # resize 51 (take 51 (payload m))"
    by (simp add: v2_header_def v2_data_def resize_def sid t n)
  then show ?thesis
    by (simp add: v2_parse_header_def index_def slice_def nth_get_def slice_get_def sid(2) t(2) n(2) mt len
        assms(1))
qed

text \<open>
  C36.  Protocol V2 between two ends of the same session: a message whose payload fits the first chunk
  (51 bytes) is read back unchanged; a longer one is refused with \<open>DeviceBadMagic\<close>, because the writer
  marks continuation chunks with \<open>0x01\<close> and the reader expects \<open>0x02\<close>.
\<close>

theorem v2_read_of_write:
  assumes "session_id p \<noteq> 0" "\<not> broken (link p)" "outbox (link p) = []" "\<not> broken peer"
    and "from_i32 (message_type m) = Some (message_type m)"
    and "- (2 ^ 31) \<le> message_type m" "message_type m < 2 ^ 31" "length (payload m) < 2 ^ 32"
    and "v2_write udp_write_chunk p m = Inr p'" "inbox peer = outbox (link p')"
  shows "v2_read from_i32 udp_read_chunk \<lparr>link = peer, session_id = session_id p\<rparr> =
    Some (if length (payload m) \<le> 51
      then Inr (m, \<lparr>link = peer\<lparr>inbox := []\<rparr>, session_id = session_id p\<rparr>)
      else Inl (Err DeviceBadMagic))"
proof -
  let ?sid = "session_id p" and ?d = "v2_data m" and ?p = "payload m"
  let ?c = "resize 64 (v2_header ?sid (- 1) @ take 59 ?d)"
  let ?l1 = "(link p)\<lparr>outbox := [?c]\<rparr>"
  have len: "length ?d = 8 + length ?p" by (simp add: v2_data_def)
  have first: "v2_write_loop udp_write_chunk ?sid (link p) ?d 0 (- 1)
      = v2_write_loop udp_write_chunk ?sid ?l1 ?d (min 59 (length ?d)) 0"
    using assms(2,3) len
    by (subst v2_write_loop.simps)
      (auto simp: udp_write_chunk_def length_v2_header REPLEN_def Let_def min_def)
  note head = v2_parse_first_chunk [of from_i32 m ?sid, OF assms(5-8)]
  have read1: "udp_read_chunk (peer\<lparr>inbox := ?c # cs\<rparr>) = Inr (?c, peer\<lparr>inbox := cs\<rparr>)" for cs
    using assms(4) by (simp add: udp_read_chunk_def socket_recv_def CHUNK_SIZE_def)
  show ?thesis
  proof (cases "length ?p \<le> 51")
    case True
    then have "p' = p\<lparr>link := ?l1\<rparr>"
      using assms(1,9) first len by (simp add: v2_write_def v2_write_loop_done)
    then have "peer = peer\<lparr>inbox := [?c]\<rparr>" using assms(10) by simp
    with read1 [of "[]"] have r: "udp_read_chunk peer = Inr (?c, peer\<lparr>inbox := []\<rparr>)" by metis
    have "resize 51 (take 51 ?p) = ?p @ replicate (51 - length ?p) 0"
      using True by (simp add: resize_def)
    then show ?thesis using True r head
      by (simp add: v2_read_def v2_read_loop.simps slice_def slice_get_def)
  next
    case False
    let ?c2 = "resize 64 (v2_header ?sid 0 @ take (min 114 (length ?d) - 59) (drop 59 ?d))"
    have "v2_write_loop udp_write_chunk ?sid ?l1 ?d 59 0
      = v2_write_loop udp_write_chunk ?sid (?l1\<lparr>outbox := [?c, ?c2]\<rparr>) ?d (min 114 (length ?d)) 1"
      using assms(2) False len
      by (subst v2_write_loop.simps) (simp add: udp_write_chunk_def length_v2_header REPLEN_def Let_def)
    with assms(1,9) first False len obtain l2 where
      "v2_write_loop udp_write_chunk ?sid (?l1\<lparr>outbox := [?c, ?c2]\<rparr>) ?d (min 114 (length ?d)) 1 = Inr l2"
      "link p' = l2"
      by (auto simp: v2_write_def result_simps)
    with v2_write_loop_appends [OF this(1)] obtain cs where "outbox (link p') = ?c # ?c2 # cs" by auto
    then have "peer = peer\<lparr>inbox := ?c # ?c2 # cs\<rparr>" using assms(10) by simp
    with read1 [of "?c2 # cs"] have r: "udp_read_chunk peer = Inr (?c, peer\<lparr>inbox := ?c2 # cs\<rparr>)" by metis
    have r2: "udp_read_chunk (peer\<lparr>inbox := ?c2 # cs\<rparr>) = Inr (?c2, peer\<lparr>inbox := cs\<rparr>)"
      using assms(4) by (simp add: udp_read_chunk_def socket_recv_def CHUNK_SIZE_def)
    have "v2_parse_next ?sid 0 ?c2 = Inl (Err DeviceBadMagic)"
      by (simp add: v2_parse_next_def index_def nth_get_def resize_def v2_header_def)
    then show ?thesis using False r r2 head
      by (simp add: v2_read_def v2_read_loop.simps [of _ ?sid "peer\<lparr>inbox := ?c2 # cs\<rparr>"])
  qed
qed

theorem v2_read_of_write_witness:
  "v2_read (\<lambda>i. if i = 1 then Some 1 else None) udp_read_chunk
      \<lparr>link = \<lparr>inbox = [[1, 0, 0, 0, 9, 0, 0, 0, 1, 0, 0, 0, 1, 7] @ replicate 50 0], outbox = [],
        broken = False\<rparr>, session_id = 9\<rparr>
    = Some (Inr (\<lparr>message_type = 1, payload = [7]\<rparr>,
        \<lparr>link = \<lparr>inbox = [], outbox = [], broken = False\<rparr>, session_id = 9\<rparr>))"
proof -
  let ?m = "\<lparr>message_type = 1, payload = [7]\<rparr>"
  let ?l = "\<lparr>inbox = [], outbox = [], broken = False\<rparr> :: udp_link"
  let ?c = "[1, 0, 0, 0, 9, 0, 0, 0, 1, 0, 0, 0, 1, 7] @ replicate 50 0 :: bytes"
  let ?peer = "\<lparr>inbox = [?c], outbox = [], broken = False\<rparr> :: udp_link"
  have w: "v2_write udp_write_chunk \<lparr>link = ?l, session_id = 9\<rparr> ?m
      = Inr \<lparr>link = ?l\<lparr>outbox := [?c]\<rparr>, session_id = 9\<rparr>"
    by (simp add: v2_write_def v2_write_loop.simps v2_data_def v2_header_def u32_be_bytes_def
        resize_def REPLEN_def udp_write_chunk_def Let_def)
  show ?thesis
    using v2_read_of_write [of "\<lparr>link = ?l, session_id = 9\<rparr>" ?peer
        "\<lambda>i. if i = 1 then Some 1 else None" ?m, OF _ _ _ _ _ _ _ _ w]
    by simp
qed

end
