(* ===== verification/Client.thy ===== *)
theory Client
  imports Transport
begin

section \<open>The host client: calls, interactions, requests\<close>

text \<open>
  \<^verbatim>\<open>rust/trezor-client/src/client/{mod,common,ethereum,solana}.rs\<close>, \<^verbatim>\<open>error.rs\<close>, \<^verbatim>\<open>messages/mod.rs\<close> and the message
  types of \<^verbatim>\<open>transport/mod.rs\<close>.  The structs of the messages are those of \<^verbatim>\<open>protos/generated\<close>, with the fields
  that this library sets or reads; every other field of a request stays unset.  Their encoding is the work of
  the \<open>protobuf\<close> crate and a parameter (record \<open>codec\<close>), like the transport (record \<open>host\<close>).

  A call may wait for ever, so an operation that talks to the device returns an option: \<open>None\<close> if it never
  returns.  Operations take the client and return it with the new state of its transport; after an error the
  client is not followed further.
\<close>

subsection \<open>Messages from the device\<close>

record failure =
  fail_code :: "int option"
  fail_message :: "string option"

record button_request =
  br_code :: "int option"
  br_pages :: "u32 option"

record pin_matrix_request =
  pm_type :: "int option"

record passphrase_request =
  pr_on_device :: "bool option"

text \<open>Of \<open>Features\<close> the fields that the tests of the library look at.\<close>

record features =
  f_vendor :: "string option"
  f_model :: "string option"
  f_label :: "string option"
  f_initialized :: "bool option"
  f_firmware_present :: "bool option"
  f_pin_protection :: "bool option"
  f_passphrase_protection :: "bool option"

record signed_identity =
  si_address :: "string option"
  si_public_key :: "bytes option"
  si_signature :: "bytes option"

record ecdh_session_key =
  ek_session_key :: "bytes option"
  ek_public_key :: "bytes option"

record ethereum_tx_request =
  et_data_length :: "u32 option"
  et_signature_v :: "u32 option"
  et_signature_r :: "bytes option"
  et_signature_s :: "bytes option"

record tx_request_details =
  request_index :: "u32 option"
  tx_hash :: "bytes option"

record tx_request_serialized =
  signature_index :: "u32 option"
  sr_signature :: "bytes option"
  serialized_tx :: "bytes option"

record tx_request =
  tr_request_type :: "int option"
  details :: "tx_request_details option"
  serialized :: "tx_request_serialized option"

text \<open>Messages with one field that is read: \<open>Success\<close> and \<open>EntropyRequest\<close> have none that matters.\<close>

record message_signature =
  ms_address :: "string option"
  ms_signature :: "bytes option"

subsection \<open>Messages to the device\<close>

record identity_type =
  id_proto :: "string option"
  id_user :: "string option"
  id_host :: "string option"
  id_port :: "string option"
  id_path :: "string option"
  id_index :: "u32 option"

record recovery_device =
  rd_word_count :: "u32 option"
  rd_passphrase_protection :: "bool option"
  rd_pin_protection :: "bool option"
  rd_language :: "string option"
  rd_label :: "string option"
  rd_enforce_wordlist :: "bool option"
  rd_input_method :: "int option"
  rd_type :: "int option"

record reset_device_msg =
  rs_display_random :: "bool option"
  rs_strength :: "u32 option"
  rs_passphrase_protection :: "bool option"
  rs_pin_protection :: "bool option"
  rs_label :: "string option"
  rs_skip_backup :: "bool option"
  rs_no_backup :: "bool option"

record apply_settings_msg =
  as_label :: "string option"
  as_use_passphrase :: "bool option"
  as_homescreen :: "bytes option"
  as_auto_lock_delay_ms :: "u32 option"

record ethereum_access_list =
  al_address :: "string option"
  al_storage_keys :: "bytes list"

text \<open>\<open>EthereumSignTx\<close> and \<open>EthereumSignTxEIP1559\<close> share most of their fields.\<close>

record ethereum_tx =
  etx_address_n :: "u32 list"
  etx_nonce :: "bytes option"
  etx_gas_limit :: "bytes option"
  etx_to :: "string option"
  etx_value :: "bytes option"
  etx_data_initial_chunk :: "bytes option"
  etx_data_length :: "u32 option"
  etx_chain_id :: "u64 option"

record ethereum_sign_tx_msg = ethereum_tx +
  etx_gas_price :: "bytes option"

record ethereum_sign_tx_eip1559_msg = ethereum_tx +
  etx_max_gas_fee :: "bytes option"
  etx_max_priority_fee :: "bytes option"
  etx_access_list :: "ethereum_access_list list"

record sign_tx_msg =
  st_outputs_count :: "u32 option"
  st_inputs_count :: "u32 option"
  st_coin_name :: "string option"
  st_version :: "u32 option"
  st_lock_time :: "u32 option"

datatype input_script_type =
  SPENDADDRESS | SPENDMULTISIG | EXTERNAL | SPENDWITNESS | SPENDP2SHWITNESS | SPENDTAPROOT

datatype output_script_type =
    PAYTOADDRESS | PAYTOSCRIPTHASH | PAYTOMULTISIG | PAYTOOPRETURN | PAYTOWITNESS | PAYTOP2SHWITNESS
  | PAYTOTAPROOT

record tx_input_type =
  ti_address_n :: "u32 list"
  ti_prev_hash :: "bytes option"
  ti_prev_index :: "u32 option"
  ti_script_sig :: "bytes option"
  ti_sequence :: "u32 option"
  ti_script_type :: "input_script_type option"
  ti_amount :: "u64 option"

record tx_output_bin_type =
  tb_amount :: "u64 option"
  tb_script_pubkey :: "bytes option"

record tx_output_type =
  to_address :: "string option"
  to_address_n :: "u32 list"
  to_amount :: "u64 option"
  to_script_type :: "output_script_type option"
  to_op_return_data :: "bytes option"

record transaction_type =
  tt_version :: "u32 option"
  tt_inputs :: "tx_input_type list"
  tt_bin_outputs :: "tx_output_bin_type list"
  tt_lock_time :: "u32 option"
  tt_outputs :: "tx_output_type list"
  tt_inputs_cnt :: "u32 option"
  tt_outputs_cnt :: "u32 option"

text \<open>A request of the address or the key of a path, and a message to sign with it.\<close>

record key_request =
  kr_address_n :: "u32 list"
  kr_show_display :: "bool option"
  kr_coin_name :: "string option"
  kr_script_type :: "input_script_type option"

record sign_message_msg =
  sm_address_n :: "u32 list"
  sm_message :: "bytes option"
  sm_coin_name :: "string option"
  sm_script_type :: "input_script_type option"

datatype request =
    Initialize "bytes option"
  | Ping "string option"
  | ChangePin "bool option"
  | WipeDevice
  | ResetDevice reset_device_msg
  | PinMatrixAck "string option"
  | ApplySettings apply_settings_msg
  | ButtonAck
  | BackupDevice
  | EntropyAck "bytes option"
  | PassphraseAck "string option" "bool option"
  | RecoveryDevice recovery_device
  | GetPublicKey key_request
  | SignTx sign_tx_msg
  | TxAck "transaction_type option"
  | GetAddress key_request
  | SignMessage sign_message_msg
  | SignIdentity "identity_type option" "bytes option" "string option" "string option"
  | GetECDHSessionKey "identity_type option" "bytes option" "string option"
  | EthereumGetAddress "u32 list"
  | EthereumSignTx ethereum_sign_tx_msg
  | EthereumSignTxEIP1559 ethereum_sign_tx_eip1559_msg
  | EthereumTxAck "bytes option"
  | EthereumSignMessage "u32 list" "bytes option"
  | SolanaGetAddress "u32 list" "bool option"

text \<open>The implementations of \<open>TrezorMessage\<close> for requests: the discriminants of \<open>MessageType\<close>.\<close>

fun request_MESSAGE_TYPE :: "request \<Rightarrow> int" where
  "request_MESSAGE_TYPE (Initialize _) = 0"
| "request_MESSAGE_TYPE (Ping _) = 1"
| "request_MESSAGE_TYPE (ChangePin _) = 4"
| "request_MESSAGE_TYPE WipeDevice = 5"
| "request_MESSAGE_TYPE (ResetDevice _) = 14"
| "request_MESSAGE_TYPE (PinMatrixAck _) = 19"
| "request_MESSAGE_TYPE (ApplySettings _) = 25"
| "request_MESSAGE_TYPE ButtonAck = 27"
| "request_MESSAGE_TYPE BackupDevice = 34"
| "request_MESSAGE_TYPE (EntropyAck _) = 36"
| "request_MESSAGE_TYPE (PassphraseAck _ _) = 42"
| "request_MESSAGE_TYPE (RecoveryDevice _) = 45"
| "request_MESSAGE_TYPE (GetPublicKey _) = 11"
| "request_MESSAGE_TYPE (SignTx _) = 15"
| "request_MESSAGE_TYPE (TxAck _) = 22"
| "request_MESSAGE_TYPE (GetAddress _) = 29"
| "request_MESSAGE_TYPE (SignMessage _) = 38"
| "request_MESSAGE_TYPE (SignIdentity _ _ _ _) = 53"
| "request_MESSAGE_TYPE (GetECDHSessionKey _ _ _) = 61"
| "request_MESSAGE_TYPE (EthereumGetAddress _) = 56"
| "request_MESSAGE_TYPE (EthereumSignTx _) = 58"
| "request_MESSAGE_TYPE (EthereumSignTxEIP1559 _) = 452"
| "request_MESSAGE_TYPE (EthereumTxAck _) = 60"
| "request_MESSAGE_TYPE (EthereumSignMessage _ _) = 64"
| "request_MESSAGE_TYPE (SolanaGetAddress _ _) = 902"

subsection \<open>The codec and the message classes\<close>

text \<open>A message type that can be received: its number and its parser.\<close>

record 'r message_class =
  MESSAGE_TYPE :: int
  parse_from_bytes :: "bytes \<Rightarrow> 'r option"

record codec =
  write_to_bytes :: "request \<Rightarrow> bytes option"
  parse_success :: "bytes \<Rightarrow> unit option"
  parse_failure :: "bytes \<Rightarrow> failure option"
  parse_features :: "bytes \<Rightarrow> features option"
  parse_pin_matrix_request :: "bytes \<Rightarrow> pin_matrix_request option"
  parse_button_request :: "bytes \<Rightarrow> button_request option"
  parse_entropy_request :: "bytes \<Rightarrow> unit option"
  parse_passphrase_request :: "bytes \<Rightarrow> passphrase_request option"
  parse_public_key :: "bytes \<Rightarrow> string option option"
  parse_tx_request :: "bytes \<Rightarrow> tx_request option"
  parse_address_msg :: "bytes \<Rightarrow> string option option"
  parse_message_signature :: "bytes \<Rightarrow> message_signature option"
  parse_signed_identity :: "bytes \<Rightarrow> signed_identity option"
  parse_ecdh_session_key :: "bytes \<Rightarrow> ecdh_session_key option"
  parse_ethereum_address :: "bytes \<Rightarrow> string option option"
  parse_ethereum_tx_request :: "bytes \<Rightarrow> ethereum_tx_request option"
  parse_ethereum_message_signature :: "bytes \<Rightarrow> bytes option option"
  parse_solana_address :: "bytes \<Rightarrow> string option option"

definition MessageType_Failure :: int where "MessageType_Failure = 3"

definition MessageType_PinMatrixRequest :: int where "MessageType_PinMatrixRequest = 18"

definition MessageType_ButtonRequest :: int where "MessageType_ButtonRequest = 26"

definition MessageType_PassphraseRequest :: int where "MessageType_PassphraseRequest = 41"

definition Success_class :: "codec \<Rightarrow> unit message_class" where
  "Success_class C = \<lparr>MESSAGE_TYPE = 2, parse_from_bytes = parse_success C\<rparr>"

definition Features_class :: "codec \<Rightarrow> features message_class" where
  "Features_class C = \<lparr>MESSAGE_TYPE = 17, parse_from_bytes = parse_features C\<rparr>"

definition EntropyRequest_class :: "codec \<Rightarrow> unit message_class" where
  "EntropyRequest_class C = \<lparr>MESSAGE_TYPE = 35, parse_from_bytes = parse_entropy_request C\<rparr>"

definition PublicKey_class :: "codec \<Rightarrow> string option message_class" where
  "PublicKey_class C = \<lparr>MESSAGE_TYPE = 12, parse_from_bytes = parse_public_key C\<rparr>"

definition TxRequest_class :: "codec \<Rightarrow> tx_request message_class" where
  "TxRequest_class C = \<lparr>MESSAGE_TYPE = 21, parse_from_bytes = parse_tx_request C\<rparr>"

definition Address_class :: "codec \<Rightarrow> string option message_class" where
  "Address_class C = \<lparr>MESSAGE_TYPE = 30, parse_from_bytes = parse_address_msg C\<rparr>"

definition MessageSignature_class :: "codec \<Rightarrow> message_signature message_class" where
  "MessageSignature_class C = \<lparr>MESSAGE_TYPE = 40, parse_from_bytes = parse_message_signature C\<rparr>"

definition SignedIdentity_class :: "codec \<Rightarrow> signed_identity message_class" where
  "SignedIdentity_class C = \<lparr>MESSAGE_TYPE = 54, parse_from_bytes = parse_signed_identity C\<rparr>"

definition ECDHSessionKey_class :: "codec \<Rightarrow> ecdh_session_key message_class" where
  "ECDHSessionKey_class C = \<lparr>MESSAGE_TYPE = 62, parse_from_bytes = parse_ecdh_session_key C\<rparr>"

definition EthereumAddress_class :: "codec \<Rightarrow> string option message_class" where
  "EthereumAddress_class C = \<lparr>MESSAGE_TYPE = 57, parse_from_bytes = parse_ethereum_address C\<rparr>"

definition EthereumTxRequest_class :: "codec \<Rightarrow> ethereum_tx_request message_class" where
  "EthereumTxRequest_class C = \<lparr>MESSAGE_TYPE = 59, parse_from_bytes = parse_ethereum_tx_request C\<rparr>"

definition EthereumMessageSignature_class :: "codec \<Rightarrow> bytes option message_class" where
  "EthereumMessageSignature_class C =
     \<lparr>MESSAGE_TYPE = 66, parse_from_bytes = parse_ethereum_message_signature C\<rparr>"

definition SolanaAddress_class :: "codec \<Rightarrow> string option message_class" where
  "SolanaAddress_class C = \<lparr>MESSAGE_TYPE = 903, parse_from_bytes = parse_solana_address C\<rparr>"

subsection \<open>Errors\<close>

datatype interaction_type = Button | PinMatrix | Passphrase | PassphraseState

datatype secp256k1_error = InvalidSignature | InvalidRecoveryId | OtherSecp256k1

datatype client_error =
    NoDeviceFound | DeviceNotUnique | MalformedSignature
  | TransportConnect transport_error | TransportBeginSession transport_error
  | TransportEndSession transport_error | TransportSendMessage transport_error
  | TransportReceiveMessage transport_error
  | UnexpectedMessageType int | Protobuf | FailureResponse failure
  | UnexpectedInteractionRequest interaction_type | UnsupportedNetwork | InvalidEntropy
  | TxRequestInvalidIndex nat | InvalidPsbt string | Base58
  | TxRequestUnknownTxid bytes | PsbtMissingInputTx bytes | MalformedTxRequest tx_request
  | BitcoinEncode | Secp256k1 secp256k1_error | Bip32 | AddressParse

type_synonym 'a cres = "('a, client_error) result"

text \<open>Sequencing of operations that may not return: the \<open>?\<close> operator.\<close>

definition cbind :: "'a cres option \<Rightarrow> ('a \<Rightarrow> 'b cres option) \<Rightarrow> 'b cres option" where
  "cbind r f = (case r of None \<Rightarrow> None | Some (Inl e) \<Rightarrow> Some (Inl e) | Some (Inr x) \<Rightarrow> f x)"

lemma cbind_simps [simp]:
  "cbind None f = None"
  "cbind (Some (Inl e)) f = Some (Inl e)"
  "cbind (Some (Inr x)) f = f x"
  by (simp_all add: cbind_def)

subsection \<open>The client\<close>

datatype model = TrezorLegacy | Trezor | TrezorBootloader | TrezorEmulator

record 't trezor =
  model :: model
  cached_features :: "features option"
  transport :: 't

definition trezor_with_transport :: "model \<Rightarrow> 't \<Rightarrow> 't trezor" where
  "trezor_with_transport m t = \<lparr>model = m, cached_features = None, transport = t\<rparr>"

record 't host =
  write_message :: "'t \<Rightarrow> proto_message \<Rightarrow> 't tres"
  read_message :: "'t \<Rightarrow> (proto_message \<times> 't) tres option"
  codec :: codec

definition into_message :: "(bytes \<Rightarrow> 'r option) \<Rightarrow> proto_message \<Rightarrow> 'r cres" where
  "into_message parse m = ok_or (parse (payload m)) Protobuf"

definition call_raw :: "'t host \<Rightarrow> 't trezor \<Rightarrow> request \<Rightarrow> (proto_message \<times> 't trezor) cres option" where
  "call_raw H c req =
     (case write_to_bytes (codec H) req of
        None \<Rightarrow> Some (Inl (Err Protobuf))
      | Some b \<Rightarrow>
          (case write_message H (transport c) \<lparr>message_type = request_MESSAGE_TYPE req, payload = b\<rparr> of
             Inl e \<Rightarrow> Some (Inl (map_fault TransportSendMessage e))
           | Inr t \<Rightarrow>
               (case read_message H t of
                  None \<Rightarrow> None
                | Some (Inl e) \<Rightarrow> Some (Inl (map_fault TransportReceiveMessage e))
                | Some (Inr (m, t')) \<Rightarrow> Some (Inr (m, c\<lparr>transport := t'\<rparr>)))))"

type_synonym ('t, 'a, 'r) result_handler = "'t trezor \<Rightarrow> 'r \<Rightarrow> 'a cres"

text \<open>
  \<open>ButtonRequest\<close>, \<open>PinMatrixRequest\<close> and \<open>PassphraseRequest\<close>: the message of the device, the client, and what
  is to be done with the result.
\<close>

record ('m, 't, 'a, 'r) interaction =
  message :: 'm
  client :: "'t trezor"
  result_handler :: "('t, 'a, 'r) result_handler"

text \<open>An \<open>Ok\<close> ends the borrow of the client, so it comes with its present state.\<close>

datatype ('t, 'a, 'r) trezor_response =
    TR_Ok 'a "'t trezor"
  | TR_Failure failure
  | TR_ButtonRequest "(button_request, 't, 'a, 'r) interaction"
  | TR_PinMatrixRequest "(pin_matrix_request, 't, 'a, 'r) interaction"
  | TR_PassphraseRequest "(passphrase_request, 't, 'a, 'r) interaction"

text \<open>What \<open>call\<close> makes of the message that came back.\<close>

definition receive ::
  "codec \<Rightarrow> 'r message_class \<Rightarrow> ('t, 'a, 'r) result_handler \<Rightarrow> proto_message \<Rightarrow> 't trezor \<Rightarrow>
     ('t, 'a, 'r) trezor_response cres" where
  "receive C R h resp c =
     (if message_type resp = MESSAGE_TYPE R then
        rbind (into_message (parse_from_bytes R) resp) (\<lambda>m.
        rbind (h c m) (\<lambda>a. Inr (TR_Ok a c)))
      else if message_type resp = MessageType_Failure then
        rbind (into_message (parse_failure C) resp) (\<lambda>m. Inr (TR_Failure m))
      else if message_type resp = MessageType_ButtonRequest then
        rbind (into_message (parse_button_request C) resp) (\<lambda>m.
          Inr (TR_ButtonRequest \<lparr>message = m, client = c, result_handler = h\<rparr>))
      else if message_type resp = MessageType_PinMatrixRequest then
        rbind (into_message (parse_pin_matrix_request C) resp) (\<lambda>m.
          Inr (TR_PinMatrixRequest \<lparr>message = m, client = c, result_handler = h\<rparr>))
      else if message_type resp = MessageType_PassphraseRequest then
        rbind (into_message (parse_passphrase_request C) resp) (\<lambda>m.
          Inr (TR_PassphraseRequest \<lparr>message = m, client = c, result_handler = h\<rparr>))
      else Inl (Err (UnexpectedMessageType (message_type resp))))"

definition call ::
  "'t host \<Rightarrow> 'r message_class \<Rightarrow> 't trezor \<Rightarrow> request \<Rightarrow> ('t, 'a, 'r) result_handler \<Rightarrow>
     ('t, 'a, 'r) trezor_response cres option" where
  "call H R c req h = cbind (call_raw H c req) (\<lambda>(resp, c'). Some (receive (codec H) R h resp c'))"

subsection \<open>Responses\<close>

fun response_ok :: "('t, 'a, 'r) trezor_response \<Rightarrow> ('a \<times> 't trezor) cres" where
  "response_ok (TR_Ok a c) = Inr (a, c)"
| "response_ok (TR_Failure m) = Inl (Err (FailureResponse m))"
| "response_ok (TR_ButtonRequest _) = Inl (Err (UnexpectedInteractionRequest Button))"
| "response_ok (TR_PinMatrixRequest _) = Inl (Err (UnexpectedInteractionRequest PinMatrix))"
| "response_ok (TR_PassphraseRequest _) = Inl (Err (UnexpectedInteractionRequest Passphrase))"

fun response_button_request ::
  "'r message_class \<Rightarrow> ('t, 'a, 'r) trezor_response \<Rightarrow> (button_request, 't, 'a, 'r) interaction cres" where
  "response_button_request R (TR_ButtonRequest r) = Inr r"
| "response_button_request R (TR_Ok _ _) = Inl (Err (UnexpectedMessageType (MESSAGE_TYPE R)))"
| "response_button_request R (TR_Failure m) = Inl (Err (FailureResponse m))"
| "response_button_request R (TR_PinMatrixRequest _) = Inl (Err (UnexpectedInteractionRequest PinMatrix))"
| "response_button_request R (TR_PassphraseRequest _) = Inl (Err (UnexpectedInteractionRequest Passphrase))"

fun response_pin_matrix_request ::
  "'r message_class \<Rightarrow> ('t, 'a, 'r) trezor_response \<Rightarrow> (pin_matrix_request, 't, 'a, 'r) interaction cres" where
  "response_pin_matrix_request R (TR_PinMatrixRequest r) = Inr r"
| "response_pin_matrix_request R (TR_Ok _ _) = Inl (Err (UnexpectedMessageType (MESSAGE_TYPE R)))"
| "response_pin_matrix_request R (TR_Failure m) = Inl (Err (FailureResponse m))"
| "response_pin_matrix_request R (TR_ButtonRequest _) = Inl (Err (UnexpectedInteractionRequest Button))"
| "response_pin_matrix_request R (TR_PassphraseRequest _) = Inl (Err (UnexpectedInteractionRequest Passphrase))"

fun response_passphrase_request ::
  "'r message_class \<Rightarrow> ('t, 'a, 'r) trezor_response \<Rightarrow> (passphrase_request, 't, 'a, 'r) interaction cres" where
  "response_passphrase_request R (TR_PassphraseRequest r) = Inr r"
| "response_passphrase_request R (TR_Ok _ _) = Inl (Err (UnexpectedMessageType (MESSAGE_TYPE R)))"
| "response_passphrase_request R (TR_Failure m) = Inl (Err (FailureResponse m))"
| "response_passphrase_request R (TR_ButtonRequest _) = Inl (Err (UnexpectedInteractionRequest Button))"
| "response_passphrase_request R (TR_PinMatrixRequest _) = Inl (Err (UnexpectedInteractionRequest PinMatrix))"

text \<open>The getters of the requests; an absent or unknown value of an enumeration reads as its first.\<close>

definition enum_value_or :: "int list \<Rightarrow> int \<Rightarrow> int option \<Rightarrow> int" where
  "enum_value_or known d v = (case v of None \<Rightarrow> d | Some i \<Rightarrow> if i \<in> set known then i else d)"

definition button_request_type :: "(button_request, 't, 'a, 'r) interaction \<Rightarrow> int" where
  "button_request_type r = enum_value_or [1..20] 1 (br_code (message r))"

definition pin_matrix_request_type :: "(pin_matrix_request, 't, 'a, 'r) interaction \<Rightarrow> int" where
  "pin_matrix_request_type r = enum_value_or [1..5] 1 (pm_type (message r))"

definition passphrase_on_device :: "(passphrase_request, 't, 'a, 'r) interaction \<Rightarrow> bool" where
  "passphrase_on_device r = (case pr_on_device (message r) of None \<Rightarrow> False | Some b \<Rightarrow> b)"

definition button_ack ::
  "'t host \<Rightarrow> 'r message_class \<Rightarrow> (button_request, 't, 'a, 'r) interaction \<Rightarrow>
     ('t, 'a, 'r) trezor_response cres option" where
  "button_ack H R r = call H R (client r) ButtonAck (result_handler r)"

definition ack_pin ::
  "'t host \<Rightarrow> 'r message_class \<Rightarrow> (pin_matrix_request, 't, 'a, 'r) interaction \<Rightarrow> string \<Rightarrow>
     ('t, 'a, 'r) trezor_response cres option" where
  "ack_pin H R r pin = call H R (client r) (PinMatrixAck (Some pin)) (result_handler r)"

definition ack_passphrase ::
  "'t host \<Rightarrow> 'r message_class \<Rightarrow> (passphrase_request, 't, 'a, 'r) interaction \<Rightarrow> string \<Rightarrow>
     ('t, 'a, 'r) trezor_response cres option" where
  "ack_passphrase H R r passphrase =
     call H R (client r) (PassphraseAck (Some passphrase) None) (result_handler r)"

definition passphrase_ack ::
  "'t host \<Rightarrow> 'r message_class \<Rightarrow> (passphrase_request, 't, 'a, 'r) interaction \<Rightarrow> bool \<Rightarrow>
     ('t, 'a, 'r) trezor_response cres option" where
  "passphrase_ack H R r on_device =
     call H R (client r) (PassphraseAck None (if on_device then Some on_device else None)) (result_handler r)"

partial_function (option) handle_interaction ::
  "'t host \<Rightarrow> 'r message_class \<Rightarrow> ('t, 'a, 'r) trezor_response \<Rightarrow> ('a \<times> 't trezor) cres option" where
  "handle_interaction H R resp =
     (case resp of
        TR_Ok a c \<Rightarrow> Some (Inr (a, c))
      | TR_Failure _ \<Rightarrow> Some (response_ok resp)
      | TR_ButtonRequest r \<Rightarrow>
          (case button_ack H R r of
             None \<Rightarrow> None
           | Some (Inl e) \<Rightarrow> Some (Inl e)
           | Some (Inr resp') \<Rightarrow> handle_interaction H R resp')
      | TR_PinMatrixRequest _ \<Rightarrow> Some (Inl (Err UnsupportedNetwork))
      | TR_PassphraseRequest r \<Rightarrow>
          (case passphrase_ack H R r (\<not> passphrase_on_device r) of
             None \<Rightarrow> None
           | Some (Inl e) \<Rightarrow> Some (Inl e)
           | Some (Inr resp') \<Rightarrow> handle_interaction H R resp'))"

record 't entropy_request =
  er_client :: "'t trezor"

definition ack_entropy ::
  "'t host \<Rightarrow> 't entropy_request \<Rightarrow> bytes \<Rightarrow> ('t, unit, unit) trezor_response cres option" where
  "ack_entropy H r entropy =
     (if length entropy \<noteq> 32 then Some (Inl (Err InvalidEntropy))
      else call H (Success_class (codec H)) (er_client r) (EntropyAck (Some entropy)) (\<lambda>_ _. Inr ()))"

subsection \<open>Requests of the device management\<close>

definition unit_handler :: "('t, unit, 'r) result_handler" where
  "unit_handler c m = Inr ()"

definition id_handler :: "('t, 'r, 'r) result_handler" where
  "id_handler c m = Inr m"

definition initialize ::
  "'t host \<Rightarrow> 't trezor \<Rightarrow> bytes option \<Rightarrow> ('t, features, features) trezor_response cres option" where
  "initialize H c session = call H (Features_class (codec H)) c (Initialize session) id_handler"

definition init_device :: "'t host \<Rightarrow> 't trezor \<Rightarrow> bytes option \<Rightarrow> 't trezor cres option" where
  "init_device H c session =
     cbind (initialize H c session) (\<lambda>resp.
       Some (rbind (response_ok resp) (\<lambda>(features, c'). Inr (c'\<lparr>cached_features := Some features\<rparr>))))"

definition ping :: "'t host \<Rightarrow> 't trezor \<Rightarrow> string \<Rightarrow> ('t, unit, unit) trezor_response cres option" where
  "ping H c msg = call H (Success_class (codec H)) c (Ping (Some msg)) unit_handler"

definition change_pin :: "'t host \<Rightarrow> 't trezor \<Rightarrow> bool \<Rightarrow> ('t, unit, unit) trezor_response cres option" where
  "change_pin H c remove = call H (Success_class (codec H)) c (ChangePin (Some remove)) unit_handler"

definition wipe_device :: "'t host \<Rightarrow> 't trezor \<Rightarrow> ('t, unit, unit) trezor_response cres option" where
  "wipe_device H c = call H (Success_class (codec H)) c WipeDevice unit_handler"

datatype word_count = W12 | W18 | W24

fun word_count_u32 :: "word_count \<Rightarrow> u32" where
  "word_count_u32 W12 = 12"
| "word_count_u32 W18 = 18"
| "word_count_u32 W24 = 24"

text \<open>\<open>RecoveryType::DryRun\<close> is 1 and \<open>NormalRecovery\<close> is 0; \<open>ScrambledWords\<close> is 0.\<close>

definition recover_device ::
  "'t host \<Rightarrow> 't trezor \<Rightarrow> word_count \<Rightarrow> bool \<Rightarrow> bool \<Rightarrow> string \<Rightarrow> bool \<Rightarrow>
     ('t, unit, unit) trezor_response cres option" where
  "recover_device H c word_count passphrase_protection pin_protection label dry_run =
     call H (Success_class (codec H)) c
       (RecoveryDevice \<lparr>rd_word_count = Some (word_count_u32 word_count),
          rd_passphrase_protection = Some passphrase_protection,
          rd_pin_protection = Some pin_protection,
          rd_language = Some ''english'',
          rd_label = Some label,
          rd_enforce_wordlist = Some True,
          rd_input_method = Some 0,
          rd_type = Some (if dry_run then 1 else 0)\<rparr>) unit_handler"

definition reset_device ::
  "'t host \<Rightarrow> 't trezor \<Rightarrow> bool \<Rightarrow> nat \<Rightarrow> bool \<Rightarrow> bool \<Rightarrow> string \<Rightarrow> bool \<Rightarrow> bool \<Rightarrow>
     ('t, 't entropy_request, unit) trezor_response cres option" where
  "reset_device H c display_random strength passphrase_protection pin_protection label skip_backup no_backup =
     call H (EntropyRequest_class (codec H)) c
       (ResetDevice \<lparr>rs_display_random = Some display_random,
          rs_strength = Some (word_of_nat strength),
          rs_passphrase_protection = Some passphrase_protection,
          rs_pin_protection = Some pin_protection,
          rs_label = Some label,
          rs_skip_backup = Some skip_backup,
          rs_no_backup = Some no_backup\<rparr>) (\<lambda>c' _. Inr \<lparr>er_client = c'\<rparr>)"

definition backup :: "'t host \<Rightarrow> 't trezor \<Rightarrow> ('t, unit, unit) trezor_response cres option" where
  "backup H c = call H (Success_class (codec H)) c BackupDevice unit_handler"

definition apply_settings ::
  "'t host \<Rightarrow> 't trezor \<Rightarrow> string option \<Rightarrow> bool option \<Rightarrow> bytes option \<Rightarrow> nat option \<Rightarrow>
     ('t, unit, unit) trezor_response cres option" where
  "apply_settings H c label use_passphrase homescreen auto_lock_delay_ms =
     call H (Success_class (codec H)) c
       (ApplySettings \<lparr>as_label = label, as_use_passphrase = use_passphrase, as_homescreen = homescreen,
          as_auto_lock_delay_ms = map_option word_of_nat auto_lock_delay_ms\<rparr>) unit_handler"

text \<open>A getter of an absent field of bytes or text gives the empty one.\<close>

definition or_empty :: "'a list option \<Rightarrow> 'a list" where
  "or_empty v = (case v of None \<Rightarrow> [] | Some x \<Rightarrow> x)"

definition sign_identity ::
  "'t host \<Rightarrow> 't trezor \<Rightarrow> identity_type \<Rightarrow> bytes \<Rightarrow> string \<Rightarrow>
     ('t, bytes, signed_identity) trezor_response cres option" where
  "sign_identity H c identity digest curve =
     call H (SignedIdentity_class (codec H)) c
       (SignIdentity (Some identity) (Some digest) (Some '''') (Some curve))
       (\<lambda>_ m. Inr (or_empty (si_signature m)))"

definition get_ecdh_session_key ::
  "'t host \<Rightarrow> 't trezor \<Rightarrow> identity_type \<Rightarrow> bytes \<Rightarrow> string \<Rightarrow>
     ('t, ecdh_session_key, ecdh_session_key) trezor_response cres option" where
  "get_ecdh_session_key H c identity peer_public_key curve =
     call H (ECDHSessionKey_class (codec H)) c
       (GetECDHSessionKey (Some identity) (Some peer_public_key) (Some curve)) id_handler"

subsection \<open>Ethereum and Solana\<close>

record access_list_item =
  ali_address :: string
  ali_storage_keys :: "bytes list"

record signature =
  sig_r :: bytes
  sig_s :: bytes
  sig_v :: u64

definition ethereum_get_address ::
  "'t host \<Rightarrow> 't trezor \<Rightarrow> u32 list \<Rightarrow> (string \<times> 't trezor) cres option" where
  "ethereum_get_address H c path =
     cbind (call H (EthereumAddress_class (codec H)) c (EthereumGetAddress path) (\<lambda>_ m. Inr (or_empty m)))
       (handle_interaction H (EthereumAddress_class (codec H)))"

definition solana_get_address ::
  "'t host \<Rightarrow> 't trezor \<Rightarrow> u32 list \<Rightarrow> (string \<times> 't trezor) cres option" where
  "solana_get_address H c path =
     cbind (call H (SolanaAddress_class (codec H)) c (SolanaGetAddress path (Some True))
         (\<lambda>_ m. Inr (or_empty m)))
       (handle_interaction H (SolanaAddress_class (codec H)))"

definition ethereum_message_signature :: "bytes option \<Rightarrow> signature cres" where
  "ethereum_message_signature m =
     (let signature = or_empty m in
      if length signature \<noteq> 65 then Inl (Err MalformedSignature)
      else
        rbind (unwrap (slice_get signature 0 32)) (\<lambda>r.
        rbind (unwrap (slice_get signature 32 64)) (\<lambda>s.
        rbind (unwrap (nth_get signature 64)) (\<lambda>v.
          Inr \<lparr>sig_r = r, sig_s = s, sig_v = ucast v\<rparr>))))"

definition ethereum_sign_message ::
  "'t host \<Rightarrow> 't trezor \<Rightarrow> bytes \<Rightarrow> u32 list \<Rightarrow> (signature \<times> 't trezor) cres option" where
  "ethereum_sign_message H c msg path =
     cbind (call H (EthereumMessageSignature_class (codec H)) c (EthereumSignMessage path (Some msg))
         (\<lambda>_ m. ethereum_message_signature m))
       (handle_interaction H (EthereumMessageSignature_class (codec H)))"

text \<open>
  \<open>try_into\<close> of a slice into an array of 32 bytes.  The recovery value of a chain is computed in 64 bits; in
  the release profile it wraps.
\<close>

definition array32 :: "bytes \<Rightarrow> bytes cres" where
  "array32 b = (if length b = 32 then Inr b else Inl (Err MalformedSignature))"

definition convert_signature :: "ethereum_tx_request \<Rightarrow> u64 option \<Rightarrow> signature cres" where
  "convert_signature resp chain_id =
     (let v0 = (case et_signature_v resp of None \<Rightarrow> (0 :: u64) | Some v \<Rightarrow> ucast v);
          v = (case chain_id of
                 None \<Rightarrow> v0
               | Some chain_id \<Rightarrow> if v0 \<le> 1 then v0 + 2 * chain_id + 35 else v0) in
      rbind (array32 (or_empty (et_signature_r resp))) (\<lambda>r.
      rbind (array32 (or_empty (et_signature_s resp))) (\<lambda>s.
        Inr \<lparr>sig_r = r, sig_s = s, sig_v = v\<rparr>)))"

definition data_length :: "ethereum_tx_request \<Rightarrow> u32" where
  "data_length resp = (case et_data_length resp of None \<Rightarrow> 0 | Some n \<Rightarrow> n)"

text \<open>The loop that sends the rest of the data, 1024 bytes at a time, as long as the device asks.\<close>

partial_function (option) ethereum_data_loop ::
  "'t host \<Rightarrow> 't trezor \<Rightarrow> bytes \<Rightarrow> ethereum_tx_request \<Rightarrow> (ethereum_tx_request \<times> 't trezor) cres option" where
  "ethereum_data_loop H c data resp =
     (if data_length resp > 0 then
        let n = min 1024 (length data) in
        (case call H (EthereumTxRequest_class (codec H)) c (EthereumTxAck (Some (take n data))) id_handler of
           None \<Rightarrow> None
         | Some (Inl e) \<Rightarrow> Some (Inl e)
         | Some (Inr r) \<Rightarrow>
             (case response_ok r of
                Inl e \<Rightarrow> Some (Inl e)
              | Inr (resp', c') \<Rightarrow> ethereum_data_loop H c' (drop n data) resp'))
      else Some (Inr (resp, c)))"

text \<open>What both transaction types do once the request is filled in.\<close>

definition ethereum_send_tx ::
  "'t host \<Rightarrow> 't trezor \<Rightarrow> request \<Rightarrow> bytes \<Rightarrow> u64 option \<Rightarrow> (signature \<times> 't trezor) cres option" where
  "ethereum_send_tx H c req rest chain_id =
     cbind (call H (EthereumTxRequest_class (codec H)) c req id_handler) (\<lambda>r.
     cbind (handle_interaction H (EthereumTxRequest_class (codec H)) r) (\<lambda>(resp, c1).
     cbind (ethereum_data_loop H c1 rest resp) (\<lambda>(resp', c2).
       Some (rbind (convert_signature resp' chain_id) (\<lambda>s. Inr (s, c2))))))"

definition ethereum_sign_tx_request ::
  "u32 list \<Rightarrow> bytes \<Rightarrow> bytes \<Rightarrow> bytes \<Rightarrow> string \<Rightarrow> bytes \<Rightarrow> bytes \<Rightarrow> u64 option \<Rightarrow> request" where
  "ethereum_sign_tx_request path nonce gas_price gas_limit to value data chain_id =
     EthereumSignTx \<lparr>etx_address_n = path, etx_nonce = Some nonce, etx_gas_limit = Some gas_limit,
       etx_to = Some to, etx_value = Some value,
       etx_data_initial_chunk = Some (take (min 1024 (length data)) data),
       etx_data_length = Some (word_of_nat (length data)),
       etx_chain_id = chain_id, etx_gas_price = Some gas_price\<rparr>"

definition ethereum_sign_tx ::
  "'t host \<Rightarrow> 't trezor \<Rightarrow> u32 list \<Rightarrow> bytes \<Rightarrow> bytes \<Rightarrow> bytes \<Rightarrow> string \<Rightarrow> bytes \<Rightarrow> bytes \<Rightarrow> u64 option \<Rightarrow>
     (signature \<times> 't trezor) cres option" where
  "ethereum_sign_tx H c path nonce gas_price gas_limit to value data chain_id =
     ethereum_send_tx H c (ethereum_sign_tx_request path nonce gas_price gas_limit to value data chain_id)
       (drop (min 1024 (length data)) data) chain_id"

definition ethereum_sign_eip1559_tx_request ::
  "u32 list \<Rightarrow> bytes \<Rightarrow> bytes \<Rightarrow> string \<Rightarrow> bytes \<Rightarrow> bytes \<Rightarrow> u64 option \<Rightarrow> bytes \<Rightarrow> bytes \<Rightarrow>
     access_list_item list \<Rightarrow> request" where
  "ethereum_sign_eip1559_tx_request path nonce gas_limit to value data chain_id max_gas_fee max_priority_fee
       access_list =
     EthereumSignTxEIP1559 \<lparr>etx_address_n = path, etx_nonce = Some nonce, etx_gas_limit = Some gas_limit,
       etx_to = Some to, etx_value = Some value,
       etx_data_initial_chunk = Some (take (min 1024 (length data)) data),
       etx_data_length = Some (word_of_nat (length data)),
       etx_chain_id = chain_id, etx_max_gas_fee = Some max_gas_fee,
       etx_max_priority_fee = Some max_priority_fee,
       etx_access_list = (if access_list \<noteq> [] then
           map (\<lambda>item. \<lparr>al_address = Some (ali_address item), al_storage_keys = ali_storage_keys item\<rparr>) access_list
         else [])\<rparr>"

definition ethereum_sign_eip1559_tx ::
  "'t host \<Rightarrow> 't trezor \<Rightarrow> u32 list \<Rightarrow> bytes \<Rightarrow> bytes \<Rightarrow> string \<Rightarrow> bytes \<Rightarrow> bytes \<Rightarrow> u64 option \<Rightarrow> bytes \<Rightarrow> bytes \<Rightarrow>
     access_list_item list \<Rightarrow> (signature \<times> 't trezor) cres option" where
  "ethereum_sign_eip1559_tx H c path nonce gas_limit to value data chain_id max_gas_fee max_priority_fee
       access_list =
     ethereum_send_tx H c
       (ethereum_sign_eip1559_tx_request path nonce gas_limit to value data chain_id max_gas_fee
          max_priority_fee access_list)
       (drop (min 1024 (length data)) data) chain_id"

subsection \<open>The UDP transport\<close>

definition udp_write_message :: "udp_link \<Rightarrow> proto_message \<Rightarrow> udp_link tres" where
  "udp_write_message l m = v1_write udp_write_chunk l m"

definition udp_read_message ::
  "(int \<Rightarrow> int option) \<Rightarrow> udp_link \<Rightarrow> (proto_message \<times> udp_link) tres option" where
  "udp_read_message from_i32 l = v1_read from_i32 udp_read_chunk l"

definition udp_host :: "(int \<Rightarrow> int option) \<Rightarrow> codec \<Rightarrow> udp_link host" where
  "udp_host from_i32 C =
     \<lparr>write_message = udp_write_message, read_message = udp_read_message from_i32, codec = C\<rparr>"

end
