(* ===== verification/Conversation.thy ===== *)
theory Conversation
  imports Client
begin

section \<open>Conversations of the client with a device\<close>

text \<open>
  What the client sends and returns when the device answers in a given way.  The locale \<open>message_link\<close> is the
  contract of the trait \<open>Transport\<close> (\<^verbatim>\<open>transport/mod.rs\<close>): messages written are sent in order, and messages
  of the device are read in order.  The UDP transport interprets it.
\<close>

subsection \<open>Specifications\<close>

definition request_message :: "codec \<Rightarrow> request \<Rightarrow> proto_message option" where
  "request_message C req =
     map_option (\<lambda>b. \<lparr>message_type = request_MESSAGE_TYPE req, payload = b\<rparr>) (write_to_bytes C req)"

text \<open>
  The acknowledgement that an interaction request of the device calls for, if the message is one: a button
  request is acknowledged, and a passphrase is left to the device unless it is entered there anyway.
\<close>

definition interaction_ack :: "codec \<Rightarrow> int \<Rightarrow> proto_message \<Rightarrow> request option" where
  "interaction_ack C expected m =
     (if message_type m = expected then None
      else if message_type m = MessageType_ButtonRequest then
        map_option (\<lambda>_. ButtonAck) (parse_button_request C (payload m))
      else if message_type m = MessageType_PassphraseRequest then
        map_option (\<lambda>r. PassphraseAck None (if pr_on_device r = Some True then None else Some True))
          (parse_passphrase_request C (payload m))
      else None)"

text \<open>The result of a call that is answered by a message which is no interaction request.\<close>

definition outcome ::
  "codec \<Rightarrow> 'r message_class \<Rightarrow> ('t, 'a, 'r) result_handler \<Rightarrow> proto_message \<Rightarrow> 't trezor \<Rightarrow>
     ('a \<times> 't trezor) cres" where
  "outcome C R h m c =
     (if message_type m = MESSAGE_TYPE R then
        case parse_from_bytes R (payload m) of
          None \<Rightarrow> Inl (Err Protobuf)
        | Some x \<Rightarrow> rbind (h c x) (\<lambda>a. Inr (a, c))
      else if message_type m = MessageType_Failure then
        case parse_failure C (payload m) of
          None \<Rightarrow> Inl (Err Protobuf)
        | Some f \<Rightarrow> Inl (Err (FailureResponse f))
      else if message_type m = MessageType_PinMatrixRequest then
        case parse_pin_matrix_request C (payload m) of
          None \<Rightarrow> Inl (Err Protobuf)
        | Some _ \<Rightarrow> Inl (Err UnsupportedNetwork)
      else if message_type m \<in> {MessageType_ButtonRequest, MessageType_PassphraseRequest} then
        Inl (Err Protobuf)
      else Inl (Err (UnexpectedMessageType (message_type m))))"

fun data_chunks :: "nat \<Rightarrow> bytes \<Rightarrow> bytes list" where
  "data_chunks 0 data = []"
| "data_chunks (Suc n) data = take 1024 data # data_chunks n (drop 1024 data)"

lemma length_data_chunks [simp]: "length (data_chunks n data) = n"
  by (induction n arbitrary: data) auto

lemma concat_data_chunks: "concat (data_chunks n data) = take (1024 * n) data"
  by (induction n arbitrary: data) (auto simp: take_add [symmetric] add.commute)

lemmas message_type_defs =
  MessageType_Failure_def MessageType_ButtonRequest_def MessageType_PinMatrixRequest_def
  MessageType_PassphraseRequest_def

lemma handle_interaction_simps [simp]:
  "handle_interaction H R (TR_Ok a c) = Some (Inr (a, c))"
  "handle_interaction H R (TR_Failure f) = Some (Inl (Err (FailureResponse f)))"
  "handle_interaction H R (TR_PinMatrixRequest p) = Some (Inl (Err UnsupportedNetwork))"
  "handle_interaction H R (TR_ButtonRequest r) = cbind (button_ack H R r) (handle_interaction H R)"
  "handle_interaction H R (TR_PassphraseRequest q) =
     cbind (passphrase_ack H R q (\<not> passphrase_on_device q)) (handle_interaction H R)"
  by (subst handle_interaction.simps, simp add: cbind_def split: option.splits sum.splits)+

text \<open>A reply that is no interaction request ends the interaction with its outcome.\<close>

lemma receive_final:
  assumes "interaction_ack (codec H) (MESSAGE_TYPE R) m = None"
  shows "cbind (Some (receive (codec H) R h m c)) (handle_interaction H R) = Some (outcome (codec H) R h m c)"
  using assms
  by (auto simp: receive_def outcome_def interaction_ack_def into_message_def message_type_defs
      rbind_def ok_or_def split: option.splits sum.splits)

text \<open>An interaction request is acknowledged on the same client, with the same handler.\<close>

lemma receive_request:
  assumes "interaction_ack (codec H) (MESSAGE_TYPE R) m = Some ack"
  shows "cbind (Some (receive (codec H) R h m c)) (handle_interaction H R)
    = cbind (call H R c ack h) (handle_interaction H R)"
  using assms
  by (auto simp: receive_def interaction_ack_def into_message_def message_type_defs button_ack_def
      passphrase_ack_def passphrase_on_device_def split: if_splits option.splits)

subsection \<open>The contract of a transport\<close>

locale message_link =
  fixes H :: "'t host"
    and carries :: "proto_message \<Rightarrow> bool"
    and talk :: "'t \<Rightarrow> proto_message list \<Rightarrow> proto_message list \<Rightarrow> bool"
  assumes write_message: "talk t out inc \<Longrightarrow> carries m \<Longrightarrow>
      \<exists>t'. write_message H t m = Inr t' \<and> talk t' (out @ [m]) inc"
    and read_message: "talk t out (m # inc) \<Longrightarrow>
      \<exists>t'. read_message H t = Some (Inr (m, t')) \<and> talk t' out inc"
begin

lemma call_talk:
  assumes "talk (transport c) out (m # inc)" "request_message (codec H) req = Some x" "carries x"
  shows "\<exists>t'. call H R c req h = Some (receive (codec H) R h m (c\<lparr>transport := t'\<rparr>)) \<and>
    talk t' (out @ [x]) inc"
proof -
  obtain b where b: "write_to_bytes (codec H) req = Some b"
    "x = \<lparr>message_type = request_MESSAGE_TYPE req, payload = b\<rparr>"
    using assms(2) by (auto simp: request_message_def)
  obtain t1 where t1: "write_message H (transport c) x = Inr t1" "talk t1 (out @ [x]) (m # inc)"
    using write_message [OF assms(1,3)] by blast
  obtain t2 where "read_message H t1 = Some (Inr (m, t2))" "talk t2 (out @ [x]) inc"
    using read_message [OF t1(2)] by blast
  with b t1(1) show ?thesis by (auto simp: call_def call_raw_def)
qed

text \<open>A call with its interactions: one acknowledgement for each request, and the outcome of the last reply.\<close>

lemma interaction_talk:
  assumes "talk (transport c) out (qs @ m # inc)"
    and "map (interaction_ack (codec H) (MESSAGE_TYPE R)) qs = map Some acks"
    and "interaction_ack (codec H) (MESSAGE_TYPE R) m = None"
    and "map (request_message (codec H)) (req # acks) = map Some ms" "\<forall>x \<in> set ms. carries x"
  shows "\<exists>t'. cbind (call H R c req h) (handle_interaction H R)
      = Some (outcome (codec H) R h m (c\<lparr>transport := t'\<rparr>)) \<and> talk t' (out @ ms) inc"
  using assms
proof (induction qs arbitrary: c out req acks ms)
  case Nil
  then obtain x where x: "ms = [x]" "request_message (codec H) req = Some x" "carries x" by auto
  then obtain t' where "call H R c req h = Some (receive (codec H) R h m (c\<lparr>transport := t'\<rparr>))"
    "talk t' (out @ ms) inc"
    using call_talk [of c out m inc req x R h] Nil.prems(1) by auto
  then show ?case using receive_final [OF Nil.prems(3)] by metis
next
  case (Cons q qs)
  then obtain ack acks' where acks: "acks = ack # acks'"
    "interaction_ack (codec H) (MESSAGE_TYPE R) q = Some ack"
    "map (interaction_ack (codec H) (MESSAGE_TYPE R)) qs = map Some acks'" by (cases acks) auto
  with Cons.prems(4,5) obtain x ms' where ms: "ms = x # ms'" "request_message (codec H) req = Some x"
    "map (request_message (codec H)) (ack # acks') = map Some ms'" "carries x" "\<forall>x \<in> set ms'. carries x"
    by (cases ms) auto
  obtain t1 where t1: "call H R c req h = Some (receive (codec H) R h q (c\<lparr>transport := t1\<rparr>))"
    "talk t1 (out @ [x]) (qs @ m # inc)"
    using call_talk [of c out q "qs @ m # inc" req x R h] Cons.prems(1) ms by auto
  have "\<exists>t'. cbind (call H R (c\<lparr>transport := t1\<rparr>) ack h) (handle_interaction H R)
      = Some (outcome (codec H) R h m (c\<lparr>transport := t1\<rparr>\<lparr>transport := t'\<rparr>)) \<and>
        talk t' ((out @ [x]) @ ms') inc"
    by (rule Cons.IH) (use t1(2) acks(3) Cons.prems(3) ms(3,5) in simp_all)
  then obtain t2 where "cbind (call H R (c\<lparr>transport := t1\<rparr>) ack h) (handle_interaction H R)
      = Some (outcome (codec H) R h m (c\<lparr>transport := t2\<rparr>))" "talk t2 (out @ ms) inc"
    using ms(1) by auto
  then show ?case using t1(1) receive_request [OF acks(2)] by metis
qed

text \<open>The loop of a transaction sends one chunk for each reply that asks for data.\<close>

lemma data_loop_talk:
  assumes "talk (transport c) out (rs @ inc)"
    and "\<forall>m \<in> set rs. message_type m = MESSAGE_TYPE (EthereumTxRequest_class (codec H))"
    and "map (\<lambda>m. parse_ethereum_tx_request (codec H) (payload m)) rs = map Some qs"
    and "\<forall>r \<in> set (butlast (q # qs)). data_length r > 0" "data_length (last (q # qs)) = 0"
    and "map (\<lambda>d. request_message (codec H) (EthereumTxAck (Some d))) (data_chunks (length rs) data) = map Some ms"
    and "\<forall>x \<in> set ms. carries x"
  shows "\<exists>t'. ethereum_data_loop H c data q = Some (Inr (last (q # qs), c\<lparr>transport := t'\<rparr>)) \<and>
    talk t' (out @ ms) inc"
  using assms
proof (induction rs arbitrary: c out data q qs ms)
  case Nil
  then show ?case
    by (intro exI [of _ "transport c"]) (simp add: ethereum_data_loop.simps [of H c data q])
next
  case (Cons r rs)
  then obtain q' qs' where qs: "qs = q' # qs'" "parse_ethereum_tx_request (codec H) (payload r) = Some q'"
    "map (\<lambda>m. parse_ethereum_tx_request (codec H) (payload m)) rs = map Some qs'" by (cases qs) auto
  from Cons.prems(6,7) obtain x ms' where ms: "ms = x # ms'" "carries x" "\<forall>x \<in> set ms'. carries x"
    "request_message (codec H) (EthereumTxAck (Some (take 1024 data))) = Some x"
    "map (\<lambda>d. request_message (codec H) (EthereumTxAck (Some d))) (data_chunks (length rs) (drop 1024 data))
       = map Some ms'"
    by (cases ms) auto
  let ?R = "EthereumTxRequest_class (codec H)"
  obtain t1 where t1: "call H ?R c (EthereumTxAck (Some (take 1024 data))) id_handler
      = Some (receive (codec H) ?R id_handler r (c\<lparr>transport := t1\<rparr>))" "talk t1 (out @ [x]) (rs @ inc)"
    using call_talk [of c out r "rs @ inc" _ x ?R id_handler] Cons.prems(1) ms(2,4) by auto
  have "receive (codec H) ?R id_handler r (c\<lparr>transport := t1\<rparr>) = Inr (TR_Ok q' (c\<lparr>transport := t1\<rparr>))"
    using Cons.prems(2) qs(2)
    by (simp add: receive_def into_message_def id_handler_def EthereumTxRequest_class_def)
  moreover have "data_length q > 0" using Cons.prems(4) qs(1) by simp
  moreover have "take (min 1024 (length data)) data = take 1024 data"
    "drop (min 1024 (length data)) data = drop 1024 data" by (simp_all add: min_def)
  ultimately have step: "ethereum_data_loop H c data q
      = ethereum_data_loop H (c\<lparr>transport := t1\<rparr>) (drop 1024 data) q'"
    using t1(1) by (subst ethereum_data_loop.simps) (simp add: Let_def)
  have "\<exists>t'. ethereum_data_loop H (c\<lparr>transport := t1\<rparr>) (drop 1024 data) q'
      = Some (Inr (last (q' # qs'), c\<lparr>transport := t1\<rparr>\<lparr>transport := t'\<rparr>)) \<and>
        talk t' ((out @ [x]) @ ms') inc"
    by (rule Cons.IH) (use t1(2) Cons.prems(2,4,5) qs ms(3,5) in simp_all)
  then show ?case using step qs(1) ms(1) by auto
qed

text \<open>Signing an Ethereum transaction: interactions, then the data, then the signature.\<close>

lemma ethereum_talk:
  assumes "talk (transport c) out (qs @ r0 # rs @ inc)"
    and "map (interaction_ack (codec H) (MESSAGE_TYPE (EthereumTxRequest_class (codec H)))) qs = map Some acks"
    and "\<forall>m \<in> set (r0 # rs). message_type m = MESSAGE_TYPE (EthereumTxRequest_class (codec H))"
    and "map (\<lambda>m. parse_ethereum_tx_request (codec H) (payload m)) (r0 # rs) = map Some (tx0 # txs)"
    and "\<forall>r \<in> set (butlast (tx0 # txs)). data_length r > 0" "data_length (last (tx0 # txs)) = 0"
    and "map (request_message (codec H))
        (req # acks @ map (\<lambda>d. EthereumTxAck (Some d)) (data_chunks (length rs) rest)) = map Some ms"
    and "\<forall>x \<in> set ms. carries x"
  shows "\<exists>t'. ethereum_send_tx H c req rest chain_id
      = Some (rbind (convert_signature (last (tx0 # txs)) chain_id) (\<lambda>s. Inr (s, c\<lparr>transport := t'\<rparr>))) \<and>
    talk t' (out @ ms) inc"
proof -
  let ?R = "EthereumTxRequest_class (codec H)" and ?k = "Suc (length acks)"
  have split: "map (request_message (codec H)) (req # acks) = map Some (take ?k ms)"
    "map (\<lambda>d. request_message (codec H) (EthereumTxAck (Some d))) (data_chunks (length rs) rest)
       = map Some (drop ?k ms)"
    using arg_cong [OF assms(7), of "take ?k"] arg_cong [OF assms(7), of "drop ?k"]
    by (simp_all add: take_map drop_map comp_def)
  have carry: "\<forall>x \<in> set (take ?k ms). carries x" "\<forall>x \<in> set (drop ?k ms). carries x"
    using assms(8) by (meson in_set_takeD, meson in_set_dropD)
  have r0: "interaction_ack (codec H) (MESSAGE_TYPE ?R) r0 = None"
    using assms(3) by (simp add: interaction_ack_def)
  obtain t1 where t1: "cbind (call H ?R c req id_handler) (handle_interaction H ?R)
      = Some (outcome (codec H) ?R id_handler r0 (c\<lparr>transport := t1\<rparr>))" "talk t1 (out @ take ?k ms) (rs @ inc)"
    using interaction_talk [OF assms(1,2) r0 split(1) carry(1)] by blast
  have "outcome (codec H) ?R id_handler r0 (c\<lparr>transport := t1\<rparr>) = Inr (tx0, c\<lparr>transport := t1\<rparr>)"
    using assms(3,4) by (simp add: outcome_def id_handler_def EthereumTxRequest_class_def)
  with t1(1) obtain resp where "call H ?R c req id_handler = Some (Inr resp)"
    "handle_interaction H ?R resp = Some (Inr (tx0, c\<lparr>transport := t1\<rparr>))"
    by (auto simp: cbind_def split: option.splits sum.splits)
  moreover obtain t2 where "ethereum_data_loop H (c\<lparr>transport := t1\<rparr>) rest tx0
      = Some (Inr (last (tx0 # txs), c\<lparr>transport := t1\<rparr>\<lparr>transport := t2\<rparr>))"
    "talk t2 ((out @ take ?k ms) @ drop ?k ms) inc"
    using data_loop_talk [of "c\<lparr>transport := t1\<rparr>" "out @ take ?k ms" rs inc txs tx0 rest "drop ?k ms"]
      t1(2) assms(3-6) split(2) carry(2) by auto
  ultimately show ?thesis by (auto simp: ethereum_send_tx_def)
qed

end

subsection \<open>The UDP transport keeps the contract\<close>

definition v1_carries :: "(int \<Rightarrow> int option) \<Rightarrow> proto_message \<Rightarrow> bool" where
  "v1_carries from_i32 m \<longleftrightarrow> from_i32 (message_type m) = Some (message_type m) \<and>
     0 \<le> message_type m \<and> message_type m < 2 ^ 16 \<and> length (payload m) < 2 ^ 32"

definition datagrams :: "proto_message list \<Rightarrow> bytes list" where
  "datagrams ms = concat (map (\<lambda>m. v1_chunks (v1_data m)) ms)"

definition udp_talk ::
  "(int \<Rightarrow> int option) \<Rightarrow> udp_link \<Rightarrow> proto_message list \<Rightarrow> proto_message list \<Rightarrow> bool" where
  "udp_talk from_i32 l out inc \<longleftrightarrow> \<not> broken l \<and> outbox l = datagrams out \<and> inbox l = datagrams inc \<and>
     (\<forall>m \<in> set inc. v1_carries from_i32 m)"

interpretation udp_messages: message_link "udp_host from_i32 C" "v1_carries from_i32" "udp_talk from_i32"
  for from_i32 C
proof unfold_locales
  fix t out inc m
  assume "udp_talk from_i32 t out inc"
  then show "\<exists>t'. write_message (udp_host from_i32 C) t m = Inr t' \<and> udp_talk from_i32 t' (out @ [m]) inc"
    using udp.v1_write_loop_sends [of t "v1_data m" 0]
    by (auto simp: udp_talk_def udp_host_def udp_write_message_def v1_write_def datagrams_def)
next
  fix t out m inc
  assume "udp_talk from_i32 t out (m # inc)"
  then show "\<exists>t'. read_message (udp_host from_i32 C) t = Some (Inr (m, t')) \<and> udp_talk from_i32 t' out inc"
    using udp.v1_read_chunks [of t m "datagrams inc" from_i32]
    by (auto simp: udp_talk_def udp_host_def udp_read_message_def v1_carries_def datagrams_def)
qed

lemma codec_udp_host [simp]: "codec (udp_host from_i32 C) = C"
  by (simp add: udp_host_def)

subsection \<open>Properties\<close>

text \<open>
  C14.  A call with its interactions ends.  If the device answers a call over UDP with any number of button and
  passphrase requests and then with another message, then \<open>handle_interaction\<close> returns; the client has sent
  the request and exactly one acknowledgement per request, in order (a passphrase is to be entered on the
  device, unless the device says so itself), has read exactly those replies, and its result is the one
  determined by the last reply: the handler's for the expected message, and otherwise the error for it.
\<close>

theorem handle_interaction_ends:
  assumes "\<not> broken (transport c)" "outbox (transport c) = []" "inbox (transport c) = datagrams (qs @ m # later)"
    and "\<forall>x \<in> set (qs @ m # later) \<union> set ms. v1_carries from_i32 x"
    and "map (interaction_ack C (MESSAGE_TYPE R)) qs = map Some acks"
    and "interaction_ack C (MESSAGE_TYPE R) m = None"
    and "map (request_message C) (req # acks) = map Some ms"
  shows "\<exists>l. cbind (call (udp_host from_i32 C) R c req h) (handle_interaction (udp_host from_i32 C) R)
      = Some (outcome C R h m (c\<lparr>transport := l\<rparr>)) \<and>
    outbox l = datagrams ms \<and> inbox l = datagrams later"
proof -
  have "udp_talk from_i32 (transport c) [] (qs @ m # later)"
    using assms(1-4) by (auto simp: udp_talk_def datagrams_def)
  then show ?thesis
    using udp_messages.interaction_talk [of from_i32 c "[]" qs m later C R acks req ms h] assms(4-7)
    by (auto simp: udp_talk_def)
qed

text \<open>
  C18.  Signing an Ethereum transaction over UDP.  If the device, after its interaction requests, asks \<open>n\<close>
  times for more data and then answers with the signature, the call returns; the messages sent are the
  request with the length of the data and its first 1024 bytes, the acknowledgements, and \<open>n\<close> chunks; first
  part and chunks together are the first \<open>1024 * (n + 1)\<close> bytes of the data, in order and without gap (all of
  it, if the device asks often enough), and the result is the signature of the last reply.
\<close>

theorem ethereum_sign_tx_streams:
  assumes "\<not> broken (transport c)" "outbox (transport c) = []" "inbox (transport c) = datagrams (qs @ rs)"
    and "\<forall>x \<in> set (qs @ rs) \<union> set ms. v1_carries from_i32 x"
    and "map (interaction_ack C (MESSAGE_TYPE (EthereumTxRequest_class C))) qs = map Some acks"
    and "\<forall>m \<in> set rs. message_type m = MESSAGE_TYPE (EthereumTxRequest_class C)"
    and "map (\<lambda>m. parse_ethereum_tx_request C (payload m)) rs = map Some (txs @ [tx])"
    and "\<forall>r \<in> set txs. data_length r > 0" "data_length tx = 0"
    and "map (request_message C) (ethereum_sign_tx_request path nonce gas_price gas_limit to value data chain_id
        # acks @ map (\<lambda>d. EthereumTxAck (Some d)) chunks) = map Some ms"
    and "chunks = data_chunks (length txs) (drop 1024 data)"
  shows "\<exists>l. ethereum_sign_tx (udp_host from_i32 C) c path nonce gas_price gas_limit to value data chain_id
      = Some (rbind (convert_signature tx chain_id) (\<lambda>s. Inr (s, c\<lparr>transport := l\<rparr>))) \<and>
    outbox l = datagrams ms \<and> inbox l = [] \<and>
    take 1024 data @ concat chunks = take (1024 * (length txs + 1)) data \<and>
    (length data \<le> 1024 * (length txs + 1) \<longrightarrow> take 1024 data @ concat chunks = data)"
proof -
  have "rs \<noteq> []" using assms(7) by auto
  then obtain r0 rs' where rs: "rs = r0 # rs'" by (cases rs) auto
  obtain tx0 txs' where txs: "txs @ [tx] = tx0 # txs'" by (cases txs) auto
  have len: "length rs' = length txs" using arg_cong [OF assms(7), of length] rs by simp
  have last: "last (tx0 # txs') = tx" "butlast (tx0 # txs') = txs" unfolding txs [symmetric] by simp_all
  have "udp_talk from_i32 (transport c) [] (qs @ r0 # rs' @ [])"
    using assms(1-4) rs by (auto simp: udp_talk_def datagrams_def)
  then have "\<exists>l. ethereum_send_tx (udp_host from_i32 C) c
        (ethereum_sign_tx_request path nonce gas_price gas_limit to value data chain_id) (drop 1024 data) chain_id
      = Some (rbind (convert_signature (last (tx0 # txs')) chain_id) (\<lambda>s. Inr (s, c\<lparr>transport := l\<rparr>))) \<and>
    udp_talk from_i32 l ([] @ ms) []"
    by (rule udp_messages.ethereum_talk [where acks = acks])
      (use assms(4-11) rs txs len last in \<open>auto simp del: last.simps butlast.simps\<close>)
  moreover have "drop (min 1024 (length data)) data = drop 1024 data" by (simp add: min_def)
  moreover have "take 1024 data @ concat chunks = take (1024 * (length txs + 1)) data"
    using assms(11) by (simp add: concat_data_chunks take_add add.commute)
  ultimately show ?thesis
    by (auto simp: ethereum_sign_tx_def last udp_talk_def datagrams_def simp del: last.simps)
qed

text \<open>A small codec for the examples, and the conversion of the message types it uses.\<close>

fun example_write :: "request \<Rightarrow> bytes option" where
  "example_write ButtonAck = Some []"
| "example_write (PassphraseAck None v) = Some (if v = Some True then [0x18, 1] else [])"
| "example_write (EthereumGetAddress path) = Some (concat (map (\<lambda>n. [0x08, ucast n]) path))"
| "example_write (EthereumSignTx m) = Some (or_empty (etx_data_initial_chunk m))"
| "example_write (EthereumTxAck d) = Some (or_empty d)"
| "example_write _ = None"

definition example_codec :: codec where
  "example_codec = \<lparr>write_to_bytes = example_write,
     parse_success = (\<lambda>_. Some ()),
     parse_failure = (\<lambda>_. Some \<lparr>fail_code = None, fail_message = None\<rparr>),
     parse_features = (\<lambda>_. None),
     parse_pin_matrix_request = (\<lambda>_. Some \<lparr>pm_type = None\<rparr>),
     parse_button_request = (\<lambda>_. Some \<lparr>br_code = None, br_pages = None\<rparr>),
     parse_entropy_request = (\<lambda>_. Some ()),
     parse_passphrase_request = (\<lambda>b. Some \<lparr>pr_on_device = (if b = [8, 1] then Some True else None)\<rparr>),
     parse_public_key = (\<lambda>_. None), parse_tx_request = (\<lambda>_. None), parse_address_msg = (\<lambda>_. None),
     parse_message_signature = (\<lambda>_. None), parse_signed_identity = (\<lambda>_. None),
     parse_ecdh_session_key = (\<lambda>_. None),
     parse_ethereum_address = (\<lambda>_. Some (Some ''0x1a'')),
     parse_ethereum_tx_request = (\<lambda>b. Some \<lparr>et_data_length = (if b = [] then None else Some (ucast (hd b))),
        et_signature_v = Some 1, et_signature_r = Some (replicate 32 7), et_signature_s = Some (replicate 32 9)\<rparr>),
     parse_ethereum_message_signature = (\<lambda>_. None), parse_solana_address = (\<lambda>_. None)\<rparr>"

definition example_from_i32 :: "int \<Rightarrow> int option" where
  "example_from_i32 i = (if i \<in> {26, 27, 41, 42, 56, 57, 58, 59, 60} then Some i else None)"

definition example_client :: "proto_message list \<Rightarrow> udp_link trezor" where
  "example_client ms = trezor_with_transport TrezorEmulator
     \<lparr>inbox = datagrams ms, outbox = [], broken = False\<rparr>"

lemmas example_defs = example_codec_def example_from_i32_def example_client_def trezor_with_transport_def
  v1_carries_def interaction_ack_def request_message_def message_type_defs

theorem handle_interaction_ends_witness:
  "\<exists>l. ethereum_get_address (udp_host example_from_i32 example_codec)
      (example_client [\<lparr>message_type = 26, payload = []\<rparr>, \<lparr>message_type = 41, payload = []\<rparr>,
         \<lparr>message_type = 57, payload = []\<rparr>]) [5]
    = Some (Inr (''0x1a'', (example_client [])\<lparr>transport := l\<rparr>)) \<and>
    outbox l = datagrams [\<lparr>message_type = 56, payload = [8, 5]\<rparr>, \<lparr>message_type = 27, payload = []\<rparr>,
      \<lparr>message_type = 42, payload = [0x18, 1]\<rparr>] \<and> inbox l = []"
proof -
  let ?qs = "[\<lparr>message_type = 26, payload = []\<rparr>, \<lparr>message_type = 41, payload = []\<rparr>]"
  let ?m = "\<lparr>message_type = 57, payload = []\<rparr>"
  let ?ms = "[\<lparr>message_type = 56, payload = [8, 5]\<rparr>, \<lparr>message_type = 27, payload = []\<rparr>,
      \<lparr>message_type = 42, payload = [0x18, 1]\<rparr>]"
  let ?R = "EthereumAddress_class example_codec"
  let ?c = "example_client (?qs @ [?m])"
  have "\<exists>l. cbind (call (udp_host example_from_i32 example_codec) ?R ?c (EthereumGetAddress [5]) (\<lambda>_ m. Inr (or_empty m)))
        (handle_interaction (udp_host example_from_i32 example_codec) ?R)
      = Some (outcome example_codec ?R (\<lambda>_ m. Inr (or_empty m)) ?m (?c\<lparr>transport := l\<rparr>)) \<and>
    outbox l = datagrams ?ms \<and> inbox l = datagrams []"
    by (rule handle_interaction_ends [where qs = ?qs and acks = "[ButtonAck, PassphraseAck None (Some True)]"])
      (simp_all add: example_defs EthereumAddress_class_def)
  then show ?thesis
    by (simp add: ethereum_get_address_def outcome_def EthereumAddress_class_def example_codec_def or_empty_def
        example_client_def trezor_with_transport_def datagrams_def)
qed

theorem ethereum_sign_tx_streams_witness:
  "\<exists>l. ethereum_sign_tx (udp_host example_from_i32 example_codec)
      (example_client [\<lparr>message_type = 26, payload = []\<rparr>, \<lparr>message_type = 59, payload = [1]\<rparr>,
         \<lparr>message_type = 59, payload = []\<rparr>]) [] [] [] [] '''' [] (replicate 1025 3) (Some 1)
    = Some (Inr (\<lparr>sig_r = replicate 32 7, sig_s = replicate 32 9, sig_v = 38\<rparr>, (example_client [])\<lparr>transport := l\<rparr>)) \<and>
    outbox l = datagrams [\<lparr>message_type = 58, payload = replicate 1024 3\<rparr>, \<lparr>message_type = 27, payload = []\<rparr>,
      \<lparr>message_type = 60, payload = [3]\<rparr>]"
proof -
  let ?qs = "[\<lparr>message_type = 26, payload = []\<rparr>]"
  let ?rs = "[\<lparr>message_type = 59, payload = [1]\<rparr>, \<lparr>message_type = 59, payload = []\<rparr>]"
  let ?ms = "[\<lparr>message_type = 58, payload = replicate 1024 3\<rparr>, \<lparr>message_type = 27, payload = []\<rparr>,
      \<lparr>message_type = 60, payload = [3]\<rparr>]"
  let ?tx = "\<lambda>n. \<lparr>et_data_length = n, et_signature_v = Some 1, et_signature_r = Some (replicate 32 7),
      et_signature_s = Some (replicate 32 9)\<rparr>"
  let ?c = "example_client (?qs @ ?rs)" and ?data = "replicate 1025 3 :: bytes"
  have one: "ucast (1 :: 8 word) = (1 :: u32)" by simp
  have rest: "drop 1024 ?data = [3]" by simp
  have "\<exists>l. ethereum_sign_tx (udp_host example_from_i32 example_codec) ?c [] [] [] [] '''' [] ?data (Some 1)
      = Some (rbind (convert_signature (?tx None) (Some 1)) (\<lambda>s. Inr (s, ?c\<lparr>transport := l\<rparr>))) \<and>
    outbox l = datagrams ?ms \<and> inbox l = [] \<and>
    take 1024 ?data @ concat [[3]] = take (1024 * (length [?tx (Some 1)] + 1)) ?data \<and>
    (length ?data \<le> 1024 * (length [?tx (Some 1)] + 1) \<longrightarrow> take 1024 ?data @ concat [[3]] = ?data)"
    by (rule ethereum_sign_tx_streams [where qs = ?qs and rs = ?rs and acks = "[ButtonAck]"])
      (simp_all add: example_defs EthereumTxRequest_class_def one rest data_length_def
        ethereum_sign_tx_request_def or_empty_def del: drop_replicate)
  moreover have "convert_signature (?tx None) (Some 1)
      = Inr \<lparr>sig_r = replicate 32 7, sig_s = replicate 32 9, sig_v = 38\<rparr>"
    by (simp add: convert_signature_def array32_def or_empty_def)
  ultimately show ?thesis
    by (auto simp: example_client_def trezor_with_transport_def)
qed

end
