(* ===== verification/Sign_Tx.thy ===== *)
theory Sign_Tx
  imports Conversation
begin

section \<open>Signing Bitcoin transactions\<close>

text \<open>
  \<^verbatim>\<open>rust/trezor-client/src/flows/sign_tx.rs\<close>, \<^verbatim>\<open>client/bitcoin.rs\<close> and \<^verbatim>\<open>utils.rs\<close>: the answers of the client to the
  questions of the device about the transaction it signs, taken from a partially signed transaction (PSBT).
  The data types of the crate \<open>bitcoin\<close> are records with the fields that are read here; a hash is its byte
  array, a script its bytes, and the map of key origins the list of its entries.  The operations of the crate are a
  parameter (record \<open>bitcoin\<close>).  Request indices are \<open>usize\<close> values, which hold every 32-bit index.
\<close>

subsection \<open>The data of the crate\<close>

datatype network = Bitcoin | Testnet | Signet | Regtest

record 'p bitcoin =
  hash_from_slice :: "bytes \<Rightarrow> bytes option"
  is_p2pkh :: "bytes \<Rightarrow> bool"
  is_p2wpkh :: "bytes \<Rightarrow> bool"
  is_p2wsh :: "bytes \<Rightarrow> bool"
  is_p2sh :: "bytes \<Rightarrow> bool"
  is_op_return :: "bytes \<Rightarrow> bool"
  payload_from_script :: "bytes \<Rightarrow> 'p option"
  address_to_string :: "network \<Rightarrow> 'p \<Rightarrow> string"

record tx_in =
  prev_txid :: bytes
  prev_vout :: u32
  script_sig :: bytes
  sequence :: u32

record tx_out =
  txo_value :: u64
  script_pubkey :: bytes

record btc_transaction =
  tx_version :: u32
  lock_time :: u32
  tx_input :: "tx_in list"
  tx_output :: "tx_out list"

type_synonym key_origins = "(bytes \<times> u32 \<times> u32 list) list"

record psbt_input =
  non_witness_utxo :: "btc_transaction option"
  witness_utxo :: "tx_out option"
  in_bip32_derivation :: key_origins
  in_witness_script :: "bytes option"

record psbt_output =
  redeem_script :: "bytes option"
  out_witness_script :: "bytes option"
  out_bip32_derivation :: key_origins

record psbt =
  unsigned_tx :: btc_transaction
  psbt_inputs :: "psbt_input list"
  psbt_outputs :: "psbt_output list"

subsection \<open>Utilities\<close>

definition address_from_script :: "'p bitcoin \<Rightarrow> bytes \<Rightarrow> network \<Rightarrow> string option" where
  "address_from_script B script network = map_option (address_to_string B network) (payload_from_script B script)"

fun position :: "('a \<Rightarrow> bool) \<Rightarrow> 'a list \<Rightarrow> nat option" where
  "position P [] = None"
| "position P (x # xs) = (if P x then Some 0 else map_option Suc (position P xs))"

definition psbt_find_input :: "psbt \<Rightarrow> bytes \<Rightarrow> psbt_input cres" where
  "psbt_find_input p txid =
     rbind (ok_or (position (\<lambda>tx. prev_txid tx = txid) (tx_input (unsigned_tx p))) (TxRequestUnknownTxid txid))
       (\<lambda>idx. ok_or (nth_get (psbt_inputs p) idx) (TxRequestInvalidIndex idx))"

definition from_rev_bytes :: "'p bitcoin \<Rightarrow> bytes \<Rightarrow> bytes option" where
  "from_rev_bytes B rev_bytes = hash_from_slice B (rev rev_bytes)"

definition to_rev_bytes :: "bytes \<Rightarrow> bytes" where
  "to_rev_bytes hash = rev hash"

text \<open>
  \<open>RecoveryId::from_i32\<close> and \<open>RecoverableSignature::from_compact\<close> belong to the crate.  The subtraction from the
  first byte wraps in the release profile.
\<close>

definition parse_recoverable_signature ::
  "(int \<Rightarrow> 'i cres) \<Rightarrow> (bytes \<Rightarrow> 'i \<Rightarrow> 's cres) \<Rightarrow> bytes \<Rightarrow> 's cres" where
  "parse_recoverable_signature from_i32 from_compact sig =
     (if length sig \<noteq> 65 then Inl (Err (Secp256k1 InvalidSignature))
      else
        rbind (unwrap (nth_get sig 0)) (\<lambda>s0.
        rbind (from_i32 (if s0 \<ge> 31 then uint (s0 - 31) else uint (s0 - 27))) (\<lambda>rec_id.
          from_compact (drop 1 sig) rec_id)))"

fun coin_name :: "network \<Rightarrow> string cres" where
  "coin_name Bitcoin = Inr ''Bitcoin''"
| "coin_name Testnet = Inr ''Testnet''"
| "coin_name _ = Inl (Err UnsupportedNetwork)"

subsection \<open>The answers\<close>

fun usize_decimal :: "nat \<Rightarrow> string" where
  "usize_decimal n = (if n < 10 then [char_of (48 + n)] else usize_decimal (n div 10) @ [char_of (48 + n mod 10)])"

declare usize_decimal.simps [simp del]

definition index_message :: "string \<Rightarrow> nat \<Rightarrow> string" where
  "index_message msg i = msg @ usize_decimal i"

definition empty_details :: tx_request_details where
  "empty_details = \<lparr>request_index = None, tx_hash = None\<rparr>"

text \<open>Reading through an absent \<open>MessageField\<close> reads the default message.\<close>

definition req_details :: "tx_request \<Rightarrow> tx_request_details" where
  "req_details req = (case details req of None \<Rightarrow> empty_details | Some d \<Rightarrow> d)"

definition requested_index :: "tx_request \<Rightarrow> nat" where
  "requested_index req = (case request_index (req_details req) of None \<Rightarrow> 0 | Some i \<Rightarrow> unat i)"

definition has_tx_hash :: "tx_request \<Rightarrow> bool" where
  "has_tx_hash req \<longleftrightarrow> tx_hash (req_details req) \<noteq> None"

definition requested_hash :: "'p bitcoin \<Rightarrow> tx_request \<Rightarrow> bytes cres" where
  "requested_hash B req =
     ok_or (from_rev_bytes B (or_empty (tx_hash (req_details req)))) (MalformedTxRequest req)"

definition new_transaction_type :: transaction_type where
  "new_transaction_type = \<lparr>tt_version = None, tt_inputs = [], tt_bin_outputs = [], tt_lock_time = None,
     tt_outputs = [], tt_inputs_cnt = None, tt_outputs_cnt = None\<rparr>"

definition script_type_of_input :: "'p bitcoin \<Rightarrow> bytes \<Rightarrow> psbt_input \<Rightarrow> input_script_type" where
  "script_type_of_input B script inp =
     (if is_p2pkh B script then SPENDADDRESS
      else if is_p2wpkh B script \<or> is_p2wsh B script then SPENDWITNESS
      else if is_p2sh B script \<and> in_witness_script inp \<noteq> None then SPENDP2SHWITNESS
      else EXTERNAL)"

definition single_path :: "key_origins \<Rightarrow> u32 list option" where
  "single_path ks = (case ks of [(_, _, path)] \<Rightarrow> Some path | _ \<Rightarrow> None)"

text \<open>The output that an input of the signed transaction spends.\<close>

definition spent_output :: "psbt_input \<Rightarrow> tx_in \<Rightarrow> nat \<Rightarrow> tx_out cres" where
  "spent_output inp txin i =
     (case witness_utxo inp of
        Some txout \<Rightarrow> Inr txout
      | None \<Rightarrow>
          (case non_witness_utxo inp of
             Some tx \<Rightarrow> ok_or (nth_get (tx_output tx) (unat (prev_vout txin)))
               (InvalidPsbt (index_message ''invalid utxo for PSBT input '' i))
           | None \<Rightarrow> Inl (Err (InvalidPsbt (index_message ''no utxo for PSBT input '' i)))))"

definition requested_input :: "'p bitcoin \<Rightarrow> tx_request \<Rightarrow> psbt \<Rightarrow> tx_in cres" where
  "requested_input B req p =
     (if has_tx_hash req then
        rbind (requested_hash B req) (\<lambda>req_hash.
        rbind (psbt_find_input p req_hash) (\<lambda>inp.
        rbind (ok_or (non_witness_utxo inp) (PsbtMissingInputTx req_hash)) (\<lambda>tx.
          ok_or (nth_get (tx_input tx) (requested_index req)) (TxRequestInvalidIndex (requested_index req)))))
      else ok_or (nth_get (tx_input (unsigned_tx p)) (requested_index req))
             (TxRequestInvalidIndex (requested_index req)))"

definition ack_input_request :: "'p bitcoin \<Rightarrow> tx_request \<Rightarrow> psbt \<Rightarrow> request cres" where
  "ack_input_request B req p =
     (if details req = None \<or> request_index (req_details req) = None then Inl (Err (MalformedTxRequest req))
      else
        rbind (requested_input B req p) (\<lambda>txin.
        let data_input = \<lparr>ti_address_n = [], ti_prev_hash = Some (to_rev_bytes (prev_txid txin)),
              ti_prev_index = Some (prev_vout txin), ti_script_sig = Some (script_sig txin),
              ti_sequence = Some (sequence txin), ti_script_type = None, ti_amount = None\<rparr> in
        rbind (if has_tx_hash req then Inr data_input
               else
                 rbind (ok_or (nth_get (psbt_inputs p) (requested_index req))
                     (InvalidPsbt ''not enough psbt inputs'')) (\<lambda>inp.
                 rbind (spent_output inp txin (requested_index req)) (\<lambda>txout.
                   Inr (data_input\<lparr>
                     ti_address_n := (case single_path (in_bip32_derivation inp) of None \<Rightarrow> [] | Some path \<Rightarrow> path),
                     ti_script_type := Some (script_type_of_input B (script_pubkey txout) inp),
                     ti_amount := Some (txo_value txout)\<rparr>)))) (\<lambda>data_input.
          Inr (TxAck (Some (new_transaction_type\<lparr>tt_inputs := [data_input]\<rparr>))))))"

definition requested_bin_output :: "'p bitcoin \<Rightarrow> tx_request \<Rightarrow> psbt \<Rightarrow> tx_out cres" where
  "requested_bin_output B req p =
     rbind (requested_hash B req) (\<lambda>req_hash.
     rbind (psbt_find_input p req_hash) (\<lambda>inp.
       case non_witness_utxo inp of
         Some tx \<Rightarrow> ok_or (nth_get (tx_output tx) (requested_index req)) (TxRequestInvalidIndex (requested_index req))
       | None \<Rightarrow>
           (case witness_utxo inp of
              Some utxo \<Rightarrow> Inr utxo
            | None \<Rightarrow> Inl (Err (InvalidPsbt ''not all inputs have utxo data'')))))"

text \<open>Script type and data of an output with a single key origin, which is taken to be change.\<close>

definition change_output :: "'p bitcoin \<Rightarrow> bytes \<Rightarrow> psbt_output \<Rightarrow> tx_output_type \<Rightarrow> tx_output_type cres" where
  "change_output B script out d =
     (if is_op_return B script then
        rbind (unwrap (slice_get script 1 (length script))) (\<lambda>data.
          Inr (d\<lparr>to_script_type := Some PAYTOOPRETURN, to_op_return_data := Some data\<rparr>))
      else if out_witness_script out \<noteq> None then
        if redeem_script out \<noteq> None then Inr (d\<lparr>to_script_type := Some PAYTOP2SHWITNESS\<rparr>)
        else Inr (d\<lparr>to_script_type := Some PAYTOWITNESS\<rparr>)
      else Inr (d\<lparr>to_script_type := Some PAYTOADDRESS\<rparr>))"

definition ack_output_request :: "'p bitcoin \<Rightarrow> tx_request \<Rightarrow> psbt \<Rightarrow> network \<Rightarrow> request cres" where
  "ack_output_request B req p network =
     (if details req = None \<or> request_index (req_details req) = None then Inl (Err (MalformedTxRequest req))
      else if has_tx_hash req then
        rbind (requested_bin_output B req p) (\<lambda>output.
          Inr (TxAck (Some (new_transaction_type\<lparr>tt_bin_outputs :=
            [\<lparr>tb_amount = Some (txo_value output), tb_script_pubkey = Some (script_pubkey output)\<rparr>]\<rparr>))))
      else
        rbind (ok_or (nth_get (tx_output (unsigned_tx p)) (requested_index req))
            (TxRequestInvalidIndex (requested_index req))) (\<lambda>output.
        let data_output = \<lparr>to_address = address_from_script B (script_pubkey output) network,
              to_address_n = [], to_amount = Some (txo_value output), to_script_type = Some PAYTOADDRESS,
              to_op_return_data = None\<rparr> in
        rbind (ok_or (nth_get (psbt_outputs p) (requested_index req))
            (InvalidPsbt ''output indices don't match'')) (\<lambda>out.
        rbind (case single_path (out_bip32_derivation out) of
                 None \<Rightarrow> Inr data_output
               | Some path \<Rightarrow>
                   change_output B (script_pubkey output) out (data_output\<lparr>to_address_n := path\<rparr>)) (\<lambda>data_output.
          Inr (TxAck (Some (new_transaction_type\<lparr>tt_outputs := [data_output]\<rparr>)))))))"

definition requested_tx :: "'p bitcoin \<Rightarrow> tx_request \<Rightarrow> psbt \<Rightarrow> btc_transaction cres" where
  "requested_tx B req p =
     (if has_tx_hash req then
        rbind (requested_hash B req) (\<lambda>req_hash.
        rbind (psbt_find_input p req_hash) (\<lambda>inp.
          ok_or (non_witness_utxo inp) (PsbtMissingInputTx req_hash)))
      else Inr (unsigned_tx p))"

definition ack_meta_request :: "'p bitcoin \<Rightarrow> tx_request \<Rightarrow> psbt \<Rightarrow> request cres" where
  "ack_meta_request B req p =
     (if details req = None then Inl (Err (MalformedTxRequest req))
      else
        rbind (requested_tx B req p) (\<lambda>tx.
          Inr (TxAck (Some (new_transaction_type\<lparr>
            tt_version := Some (tx_version tx), tt_lock_time := Some (lock_time tx),
            tt_inputs_cnt := Some (word_of_nat (length (tx_input tx))),
            tt_outputs_cnt := Some (word_of_nat (length (tx_output tx)))\<rparr>)))))"

subsection \<open>The signing flow\<close>

datatype tx_request_type =
    TXINPUT | TXOUTPUT | TXMETA | TXFINISHED | TXEXTRADATA | TXORIGINPUT | TXORIGOUTPUT | TXPAYMENTREQ

text \<open>The getter of the generated code: an absent or unknown type reads as \<open>TXINPUT\<close>.\<close>

definition request_type :: "tx_request \<Rightarrow> tx_request_type" where
  "request_type req =
     (case tr_request_type req of
        None \<Rightarrow> TXINPUT
      | Some v \<Rightarrow>
          if v = 1 then TXOUTPUT else if v = 2 then TXMETA else if v = 3 then TXFINISHED
          else if v = 4 then TXEXTRADATA else if v = 5 then TXORIGINPUT else if v = 6 then TXORIGOUTPUT
          else if v = 7 then TXPAYMENTREQ else TXINPUT)"

record 't sign_tx_progress =
  sp_client :: "'t trezor"
  sp_req :: tx_request

definition finished :: "'t sign_tx_progress \<Rightarrow> bool" where
  "finished s \<longleftrightarrow> request_type (sp_req s) = TXFINISHED"

definition has_signature :: "'t sign_tx_progress \<Rightarrow> bool" where
  "has_signature s =
     (case serialized (sp_req s) of
        None \<Rightarrow> False
      | Some r \<Rightarrow> signature_index r \<noteq> None \<and> sr_signature r \<noteq> None)"

definition get_signature :: "'t sign_tx_progress \<Rightarrow> (nat \<times> bytes) option" where
  "get_signature s =
     (if has_signature s then
        (case serialized (sp_req s) of
           None \<Rightarrow> Some (0, [])
         | Some r \<Rightarrow> Some (case signature_index r of None \<Rightarrow> 0 | Some i \<Rightarrow> unat i, or_empty (sr_signature r)))
      else None)"

definition has_serialized_tx_part :: "'t sign_tx_progress \<Rightarrow> bool" where
  "has_serialized_tx_part s =
     (case serialized (sp_req s) of None \<Rightarrow> False | Some r \<Rightarrow> serialized_tx r \<noteq> None)"

definition get_serialized_tx_part :: "'t sign_tx_progress \<Rightarrow> bytes option" where
  "get_serialized_tx_part s =
     (if has_serialized_tx_part s then
        Some (case serialized (sp_req s) of None \<Rightarrow> [] | Some r \<Rightarrow> or_empty (serialized_tx r))
      else None)"

definition progress_handler :: "('t, 't sign_tx_progress, tx_request) result_handler" where
  "progress_handler c m = Inr \<lparr>sp_client = c, sp_req = m\<rparr>"

definition ack_msg ::
  "'t host \<Rightarrow> 't sign_tx_progress \<Rightarrow> request \<Rightarrow> ('t, 't sign_tx_progress, tx_request) trezor_response cres option" where
  "ack_msg H s ack =
     (if finished s then Some (Inl Panic)
      else call H (TxRequest_class (codec H)) (sp_client s) ack progress_handler)"

definition psbt_answer :: "'p bitcoin \<Rightarrow> tx_request \<Rightarrow> psbt \<Rightarrow> network \<Rightarrow> request cres" where
  "psbt_answer B req p network =
     (case request_type req of
        TXINPUT \<Rightarrow> ack_input_request B req p
      | TXOUTPUT \<Rightarrow> ack_output_request B req p network
      | TXMETA \<Rightarrow> ack_meta_request B req p
      | TXEXTRADATA \<Rightarrow> Inl Panic
      | TXORIGINPUT \<Rightarrow> Inl Panic
      | TXORIGOUTPUT \<Rightarrow> Inl Panic
      | TXPAYMENTREQ \<Rightarrow> Inl Panic
      | TXFINISHED \<Rightarrow> Inl Panic)"

definition ack_psbt ::
  "'t host \<Rightarrow> 'p bitcoin \<Rightarrow> 't sign_tx_progress \<Rightarrow> psbt \<Rightarrow> network \<Rightarrow>
     ('t, 't sign_tx_progress, tx_request) trezor_response cres option" where
  "ack_psbt H B s p network =
     (if request_type (sp_req s) = TXFINISHED then Some (Inl Panic)
      else cbind (Some (psbt_answer B (sp_req s) p network)) (ack_msg H s))"

subsection \<open>Requests of the Bitcoin API\<close>

definition sign_tx ::
  "'t host \<Rightarrow> 't trezor \<Rightarrow> psbt \<Rightarrow> network \<Rightarrow> ('t, 't sign_tx_progress, tx_request) trezor_response cres option" where
  "sign_tx H c p network =
     cbind (Some (coin_name network)) (\<lambda>coin.
       call H (TxRequest_class (codec H)) c
         (SignTx \<lparr>st_outputs_count = Some (word_of_nat (length (tx_output (unsigned_tx p)))),
            st_inputs_count = Some (word_of_nat (length (tx_input (unsigned_tx p)))),
            st_coin_name = Some coin,
            st_version = Some (tx_version (unsigned_tx p)),
            st_lock_time = Some (lock_time (unsigned_tx p))\<rparr>) progress_handler)"

definition get_public_key ::
  "'t host \<Rightarrow> (string \<Rightarrow> 'x cres) \<Rightarrow> 't trezor \<Rightarrow> u32 list \<Rightarrow> input_script_type \<Rightarrow> network \<Rightarrow> bool \<Rightarrow>
     ('t, 'x, string option) trezor_response cres option" where
  "get_public_key H parse_xpub c path script_type network show_display =
     cbind (Some (coin_name network)) (\<lambda>coin.
       call H (PublicKey_class (codec H)) c
         (GetPublicKey \<lparr>kr_address_n = path, kr_show_display = Some show_display, kr_coin_name = Some coin,
            kr_script_type = Some script_type\<rparr>) (\<lambda>_ m. parse_xpub (or_empty m)))"

definition parse_address :: "(string \<Rightarrow> 'a option) \<Rightarrow> string \<Rightarrow> 'a cres" where
  "parse_address parse s = ok_or (parse s) AddressParse"

definition bitcoin_get_address ::
  "'t host \<Rightarrow> (string \<Rightarrow> 'a option) \<Rightarrow> 't trezor \<Rightarrow> u32 list \<Rightarrow> input_script_type \<Rightarrow> network \<Rightarrow> bool \<Rightarrow>
     ('t, 'a, string option) trezor_response cres option" where
  "bitcoin_get_address H parse c path script_type network show_display =
     cbind (Some (coin_name network)) (\<lambda>coin.
       call H (Address_class (codec H)) c
         (GetAddress \<lparr>kr_address_n = path, kr_show_display = Some show_display, kr_coin_name = Some coin,
            kr_script_type = Some script_type\<rparr>) (\<lambda>_ m. parse_address parse (or_empty m)))"

text \<open>The normalisation of Unicode text belongs to another crate.\<close>

definition nfc_normalize :: "(string \<Rightarrow> bool) \<Rightarrow> (string \<Rightarrow> string) \<Rightarrow> string \<Rightarrow> string" where
  "nfc_normalize is_nfc_quick nfc s = (if is_nfc_quick s then s else nfc s)"

definition sign_message ::
  "'t host \<Rightarrow> (string \<Rightarrow> bool) \<Rightarrow> (string \<Rightarrow> string) \<Rightarrow> (string \<Rightarrow> 'a option) \<Rightarrow> (bytes \<Rightarrow> 's cres) \<Rightarrow> 't trezor \<Rightarrow>
     string \<Rightarrow> u32 list \<Rightarrow> input_script_type \<Rightarrow> network \<Rightarrow>
     ('t, 'a \<times> 's, message_signature) trezor_response cres option" where
  "sign_message H is_nfc_quick nfc parse parse_signature c msg path script_type network =
     cbind (Some (coin_name network)) (\<lambda>coin.
       call H (MessageSignature_class (codec H)) c
         (SignMessage \<lparr>sm_address_n = path,
            sm_message = Some (map of_char (nfc_normalize is_nfc_quick nfc msg)),
            sm_coin_name = Some coin, sm_script_type = Some script_type\<rparr>)
         (\<lambda>_ m. rbind (parse_address parse (or_empty (ms_address m))) (\<lambda>address.
                 rbind (parse_signature (or_empty (ms_signature m))) (\<lambda>signature. Inr (address, signature)))))"

subsection \<open>Specifications\<close>

text \<open>The output that an input spends, as far as the PSBT carries it, and the metadata of a transaction.\<close>

definition spends :: "tx_in \<Rightarrow> psbt_input \<Rightarrow> tx_out option" where
  "spends txin inp =
     (case witness_utxo inp of
        Some txout \<Rightarrow> Some txout
      | None \<Rightarrow> Option.bind (non_witness_utxo inp) (\<lambda>tx. nth_get (tx_output tx) (unat (prev_vout txin))))"

definition tx_meta :: "btc_transaction \<Rightarrow> transaction_type" where
  "tx_meta tx = new_transaction_type\<lparr>tt_version := Some (tx_version tx), tt_lock_time := Some (lock_time tx),
     tt_inputs_cnt := Some (word_of_nat (length (tx_input tx))),
     tt_outputs_cnt := Some (word_of_nat (length (tx_output tx)))\<rparr>"

definition tx_input_data :: "tx_in \<Rightarrow> tx_input_type" where
  "tx_input_data txin = \<lparr>ti_address_n = [], ti_prev_hash = Some (rev (prev_txid txin)),
     ti_prev_index = Some (prev_vout txin), ti_script_sig = Some (script_sig txin),
     ti_sequence = Some (sequence txin), ti_script_type = None, ti_amount = None\<rparr>"

text \<open>An instance of the crate's operations and a PSBT for the examples.\<close>

definition example_bitcoin :: "bytes bitcoin" where
  "example_bitcoin = \<lparr>hash_from_slice = (\<lambda>b. if length b = 32 then Some b else None),
     is_p2pkh = (\<lambda>s. length s = 25 \<and> take 3 s = [0x76, 0xa9, 0x14] \<and> drop 23 s = [0x88, 0xac]),
     is_p2wpkh = (\<lambda>s. length s = 22 \<and> take 2 s = [0, 0x14]),
     is_p2wsh = (\<lambda>s. length s = 34 \<and> take 2 s = [0, 0x20]),
     is_p2sh = (\<lambda>s. length s = 23 \<and> take 2 s = [0xa9, 0x14] \<and> drop 22 s = [0x87]),
     is_op_return = (\<lambda>s. s \<noteq> [] \<and> hd s = 0x6a),
     payload_from_script = (\<lambda>s. if length s = 22 then Some (drop 2 s) else None),
     address_to_string = (\<lambda>_ a. map (\<lambda>b. char_of (unat b)) a)\<rparr>"

definition example_prev_tx :: btc_transaction where
  "example_prev_tx = \<lparr>tx_version = 2, lock_time = 0,
     tx_input = [\<lparr>prev_txid = replicate 32 5, prev_vout = 1, script_sig = [], sequence = 9\<rparr>],
     tx_output = [\<lparr>txo_value = 1000, script_pubkey = [0, 0x14] @ replicate 20 1\<rparr>]\<rparr>"

definition example_psbt :: psbt where
  "example_psbt = \<lparr>unsigned_tx = \<lparr>tx_version = 2, lock_time = 7,
       tx_input = [\<lparr>prev_txid = 1 # replicate 31 0, prev_vout = 0, script_sig = [], sequence = 3\<rparr>],
       tx_output = [\<lparr>txo_value = 900, script_pubkey = [0, 0x14] @ replicate 20 2\<rparr>]\<rparr>,
     psbt_inputs = [\<lparr>non_witness_utxo = Some example_prev_tx, witness_utxo = None,
       in_bip32_derivation = [([2], 0, [44, 1])], in_witness_script = None\<rparr>],
     psbt_outputs = [\<lparr>redeem_script = None, out_witness_script = None, out_bip32_derivation = []\<rparr>]\<rparr>"

subsection \<open>Facts about the answers\<close>

lemma position_Some: "position P xs = Some k \<Longrightarrow> k < length xs \<and> P (xs ! k)"
  by (induction xs arbitrary: k) (auto split: if_splits)

lemma position_exists: "i < length xs \<Longrightarrow> P (xs ! i) \<Longrightarrow> \<exists>k. position P xs = Some k"
  by (induction xs arbitrary: i) (auto simp: nth_Cons split: nat.splits)

lemma nth_get_less [simp]: "i < length xs \<Longrightarrow> nth_get xs i = Some (xs ! i)"
  by (simp add: nth_get_def)

text \<open>The hash that the device sends back is the one it was told.\<close>

lemma from_to_rev_bytes: "hash_from_slice B h = Some h \<Longrightarrow> from_rev_bytes B (to_rev_bytes h) = Some h"
  by (simp add: from_rev_bytes_def to_rev_bytes_def)

lemma ok_or_no_panic: "ok_or x e \<noteq> Inl Panic"
  by (cases x) auto

lemma psbt_find_input_no_panic: "psbt_find_input p h \<noteq> Inl Panic"
  by (auto simp: psbt_find_input_def result_simps)

lemmas no_panic = ok_or_no_panic psbt_find_input_no_panic

lemma ack_input_no_panic: "ack_input_request B req p \<noteq> Inl Panic"
  by (auto simp: ack_input_request_def requested_input_def requested_hash_def spent_output_def Let_def
      result_simps no_panic split: if_splits option.splits)

lemma ack_meta_no_panic: "ack_meta_request B req p \<noteq> Inl Panic"
  by (auto simp: ack_meta_request_def requested_tx_def requested_hash_def result_simps no_panic split: if_splits)

lemma change_output_no_panic: "(is_op_return B script \<longrightarrow> script \<noteq> []) \<Longrightarrow> change_output B script out d \<noteq> Inl Panic"
  by (cases script) (auto simp: change_output_def slice_get_def result_simps)

lemma ack_output_no_panic:
  "(\<And>script. is_op_return B script \<Longrightarrow> script \<noteq> []) \<Longrightarrow> ack_output_request B req p network \<noteq> Inl Panic"
  by (auto simp: ack_output_request_def requested_bin_output_def requested_hash_def Let_def result_simps
      no_panic change_output_no_panic split: if_splits option.splits)

text \<open>The input of a PSBT that carries a transaction, found by the hash of the transaction.\<close>

lemma psbt_find_input_carries:
  assumes "i < length (tx_input (unsigned_tx p))" "length (psbt_inputs p) = length (tx_input (unsigned_tx p))"
    and "\<And>k. k < length (tx_input (unsigned_tx p)) \<Longrightarrow>
      prev_txid (tx_input (unsigned_tx p) ! k) = prev_txid (tx_input (unsigned_tx p) ! i) \<Longrightarrow>
      non_witness_utxo (psbt_inputs p ! k) = Some tx"
  shows "\<exists>inp. psbt_find_input p (prev_txid (tx_input (unsigned_tx p) ! i)) = Inr inp \<and>
    non_witness_utxo inp = Some tx"
proof -
  let ?P = "\<lambda>t. prev_txid t = prev_txid (tx_input (unsigned_tx p) ! i)"
  obtain k where k: "position ?P (tx_input (unsigned_tx p)) = Some k"
    using position_exists [of i "tx_input (unsigned_tx p)" ?P] assms(1) by auto
  then have "k < length (tx_input (unsigned_tx p))" "?P (tx_input (unsigned_tx p) ! k)"
    using position_Some [OF k] by simp_all
  with k assms(2,3) show ?thesis by (simp add: psbt_find_input_def)
qed

subsection \<open>Properties\<close>

text \<open>
  C15.  Safety of the signing flow.  Whatever the device asks and whatever the PSBT holds, answering a request
  for an input, an output or the metadata does not panic: either the answer is an error, and nothing is sent,
  or the client sends that answer and hands over the reply of the device.  The other requests (the flow is
  finished, extra data, original inputs and outputs, payment requests) do panic.  The hypothesis is that of the
  crate: an OP\_RETURN script has an opcode.
\<close>

theorem ack_psbt_safe:
  assumes "\<And>script. is_op_return B script \<Longrightarrow> script \<noteq> []"
  shows "ack_psbt H B s p network =
      (if request_type (sp_req s) \<in> {TXINPUT, TXOUTPUT, TXMETA} then
         case psbt_answer B (sp_req s) p network of
           Inl e \<Rightarrow> Some (Inl e)
         | Inr ack \<Rightarrow> call H (TxRequest_class (codec H)) (sp_client s) ack progress_handler
       else Some (Inl Panic)) \<and>
    (request_type (sp_req s) \<in> {TXINPUT, TXOUTPUT, TXMETA} \<longrightarrow>
       psbt_answer B (sp_req s) p network \<noteq> Inl Panic)"
  using ack_input_no_panic [of B "sp_req s" p] ack_output_no_panic [of B "sp_req s" p network, OF assms]
    ack_meta_no_panic [of B "sp_req s" p]
  by (cases "request_type (sp_req s)")
    (simp_all add: ack_psbt_def psbt_answer_def ack_msg_def finished_def cbind_def split: sum.splits)

theorem ack_psbt_safe_witness:
  "ack_psbt (udp_host Some example_codec) (example_bitcoin)
      \<lparr>sp_client = example_client [], sp_req = \<lparr>tr_request_type = Some 3, details = None, serialized = None\<rparr>\<rparr>
      example_psbt Testnet = Some (Inl Panic)"
  using ack_psbt_safe [of example_bitcoin "udp_host Some example_codec"
      "\<lparr>sp_client = example_client [], sp_req = \<lparr>tr_request_type = Some 3, details = None, serialized = None\<rparr>\<rparr>"
      example_psbt Testnet]
  by (auto simp: example_bitcoin_def request_type_def split: if_splits)



text \<open>
  C16.  Questions about the transactions that are spent.  The hash that the client announces for an input names
  the transaction it spends: when the device asks with that hash, and every input of the PSBT that spends the
  transaction carries it, then the metadata, the inputs and the outputs answered are those of that transaction, and
  an index it does not have is refused.  The hypothesis on the crate is that a hash is read from its bytes.
\<close>

theorem psbt_answer_previous_tx:
  assumes "i < length (tx_input (unsigned_tx p))" "length (psbt_inputs p) = length (tx_input (unsigned_tx p))"
    and "\<And>k. k < length (tx_input (unsigned_tx p)) \<Longrightarrow>
      prev_txid (tx_input (unsigned_tx p) ! k) = prev_txid (tx_input (unsigned_tx p) ! i) \<Longrightarrow>
      non_witness_utxo (psbt_inputs p ! k) = Some tx"
    and "hash_from_slice B (prev_txid (tx_input (unsigned_tx p) ! i)) = Some (prev_txid (tx_input (unsigned_tx p) ! i))"
    and "details req = Some \<lparr>request_index = Some j,
      tx_hash = ti_prev_hash (tx_input_data (tx_input (unsigned_tx p) ! i))\<rparr>"
  shows "psbt_answer B req p network =
    (case request_type req of
       TXMETA \<Rightarrow> Inr (TxAck (Some (tx_meta tx)))
     | TXINPUT \<Rightarrow>
         if unat j < length (tx_input tx)
         then Inr (TxAck (Some (new_transaction_type\<lparr>tt_inputs := [tx_input_data (tx_input tx ! unat j)]\<rparr>)))
         else Inl (Err (TxRequestInvalidIndex (unat j)))
     | TXOUTPUT \<Rightarrow>
         if unat j < length (tx_output tx)
         then Inr (TxAck (Some (new_transaction_type\<lparr>tt_bin_outputs :=
           [\<lparr>tb_amount = Some (txo_value (tx_output tx ! unat j)),
              tb_script_pubkey = Some (script_pubkey (tx_output tx ! unat j))\<rparr>]\<rparr>)))
         else Inl (Err (TxRequestInvalidIndex (unat j)))
     | _ \<Rightarrow> Inl Panic)"
proof -
  let ?h = "prev_txid (tx_input (unsigned_tx p) ! i)"
  obtain inp where inp: "psbt_find_input p ?h = Inr inp" "non_witness_utxo inp = Some tx"
    using psbt_find_input_carries [OF assms(1-3)] by blast
  have d: "req_details req = \<lparr>request_index = Some j, tx_hash = Some (to_rev_bytes ?h)\<rparr>"
    using assms(5) by (simp add: req_details_def tx_input_data_def to_rev_bytes_def)
  then have "requested_hash B req = Inr ?h" "has_tx_hash req" "requested_index req = unat j"
    using from_to_rev_bytes [OF assms(4)]
    by (simp_all add: requested_hash_def or_empty_def has_tx_hash_def requested_index_def)
  note known = this d inp assms(5)
  have "ack_meta_request B req p = Inr (TxAck (Some (tx_meta tx)))"
    using known by (simp add: ack_meta_request_def requested_tx_def tx_meta_def)
  moreover have "ack_input_request B req p =
      (if unat j < length (tx_input tx)
       then Inr (TxAck (Some (new_transaction_type\<lparr>tt_inputs := [tx_input_data (tx_input tx ! unat j)]\<rparr>)))
       else Inl (Err (TxRequestInvalidIndex (unat j))))"
    using known
    by (simp add: ack_input_request_def requested_input_def tx_input_data_def to_rev_bytes_def nth_get_def)
  moreover have "ack_output_request B req p network =
      (if unat j < length (tx_output tx)
       then Inr (TxAck (Some (new_transaction_type\<lparr>tt_bin_outputs :=
         [\<lparr>tb_amount = Some (txo_value (tx_output tx ! unat j)),
            tb_script_pubkey = Some (script_pubkey (tx_output tx ! unat j))\<rparr>]\<rparr>)))
       else Inl (Err (TxRequestInvalidIndex (unat j))))"
    using known by (simp add: ack_output_request_def requested_bin_output_def nth_get_def)
  ultimately show ?thesis by (simp add: psbt_answer_def split: tx_request_type.split)
qed

theorem psbt_answer_previous_tx_witness:
  "psbt_answer example_bitcoin
      \<lparr>tr_request_type = Some 1,
        details = Some \<lparr>request_index = Some 0, tx_hash = Some (replicate 31 0 @ [1])\<rparr>, serialized = None\<rparr>
      example_psbt Testnet
    = Inr (TxAck (Some (new_transaction_type\<lparr>tt_bin_outputs :=
        [\<lparr>tb_amount = Some 1000, tb_script_pubkey = Some ([0, 0x14] @ replicate 20 1)\<rparr>]\<rparr>)))"
proof -
  let ?req = "\<lparr>tr_request_type = Some 1,
      details = Some \<lparr>request_index = Some 0, tx_hash = Some (replicate 31 0 @ [1])\<rparr>, serialized = None\<rparr>"
  have rev: "rev (1 # replicate 31 0) = replicate 31 0 @ [1 :: u8]" by simp
  show ?thesis
    using psbt_answer_previous_tx [of 0 example_psbt example_prev_tx example_bitcoin ?req 0 Testnet]
    by (simp add: request_type_def example_bitcoin_def example_psbt_def example_prev_tx_def tx_input_data_def rev)
qed

end
