(* ===== verification/Discovery.thy ===== *)
theory Discovery
  imports Client
begin

section \<open>Finding and connecting devices\<close>

text \<open>
  \<^verbatim>\<open>rust/trezor-client/src/lib.rs\<close>, \<^verbatim>\<open>transport/mod.rs\<close>, \<^verbatim>\<open>transport/webusb.rs\<close> and the discovery of \<^verbatim>\<open>transport/udp.rs\<close>.
  The USB bus and the operations of the crate \<open>rusb\<close> are a parameter (record \<open>usb\<close>), and so are binding and
  connecting a socket (record \<open>net\<close>).  A connected device is a sum of the two transports, as behind
  \<open>Box<dyn Transport>\<close>.
\<close>

subsection \<open>What the operating system offers\<close>

record usb_interface =
  number :: u8
  descriptors :: "(u8 \<times> u8) list" \<comment> \<open>setting number and class code\<close>

record usb_device =
  bus_number :: u8
  address :: u8
  device_descriptor :: "(u16 \<times> u16) tres"
  config_descriptor :: "u8 \<Rightarrow> usb_interface list tres"

record 'h usb =
  devices :: "usb_device list tres"
  open_device :: "usb_device \<Rightarrow> 'h tres"
  claim_interface :: "'h \<Rightarrow> u8 \<Rightarrow> 'h tres"
  write_interrupt :: "'h \<Rightarrow> u8 \<Rightarrow> bytes \<Rightarrow> 'h tres"
  read_interrupt :: "'h \<Rightarrow> u8 \<Rightarrow> nat \<Rightarrow> (bytes \<times> 'h) tres"

record net =
  bind_socket :: "unit tres"
  connect_socket :: "string \<Rightarrow> udp_link tres"

subsection \<open>Available devices\<close>

datatype available_transport = WebUsb u8 u8 | Udp string string

record available_device =
  ad_model :: model
  ad_debug :: bool
  ad_transport :: available_transport

definition DEV_TREZOR_LEGACY :: "u16 \<times> u16" where "DEV_TREZOR_LEGACY = (0x534C, 0x0001)"

definition DEV_TREZOR :: "u16 \<times> u16" where "DEV_TREZOR = (0x1209, 0x53C1)"

definition DEV_TREZOR_BOOTLOADER :: "u16 \<times> u16" where "DEV_TREZOR_BOOTLOADER = (0x1209, 0x53C0)"

definition derive_model :: "u16 \<times> u16 \<Rightarrow> model option" where
  "derive_model dev_id =
     (if dev_id = DEV_TREZOR_LEGACY then Some TrezorLegacy
      else if dev_id = DEV_TREZOR then Some Trezor
      else if dev_id = DEV_TREZOR_BOOTLOADER then Some TrezorBootloader
      else None)"

subsection \<open>WebUSB\<close>

definition CONFIG_ID :: u8 where "CONFIG_ID = 0"

definition INTERFACE_DESCRIPTOR :: u8 where "INTERFACE_DESCRIPTOR = 0"

definition LIBUSB_CLASS_VENDOR_SPEC :: u8 where "LIBUSB_CLASS_VENDOR_SPEC = 0xff"

definition INTERFACE :: u8 where "INTERFACE = 0"

definition INTERFACE_DEBUG :: u8 where "INTERFACE_DEBUG = 1"

definition ENDPOINT :: u8 where "ENDPOINT = 1"

definition ENDPOINT_DEBUG :: u8 where "ENDPOINT_DEBUG = 2"

definition READ_ENDPOINT_MASK :: u8 where "READ_ENDPOINT_MASK = 0x80"

record 'h web_usb_link =
  handle :: 'h
  endpoint :: u8

definition webusb_write_chunk :: "'h usb \<Rightarrow> 'h web_usb_link write_chunk" where
  "webusb_write_chunk U l chunk =
     rbind (write_interrupt U (handle l) (endpoint l) chunk) (\<lambda>h. Inr (l\<lparr>handle := h\<rparr>))"

definition webusb_read_chunk :: "'h usb \<Rightarrow> 'h web_usb_link read_chunk" where
  "webusb_read_chunk U l =
     rbind (read_interrupt U (handle l) (READ_ENDPOINT_MASK OR endpoint l) CHUNK_SIZE) (\<lambda>(chunk, h).
       if length chunk = CHUNK_SIZE then Inr (chunk, l\<lparr>handle := h\<rparr>) else Inl (Err DeviceReadTimeout))"

definition class_code :: "usb_device \<Rightarrow> u8 tres" where
  "class_code dev =
     rbind (config_descriptor dev CONFIG_ID) (\<lambda>interfaces.
     rbind (ok_or (List.find (\<lambda>i. number i = INTERFACE) interfaces) Usb) (\<lambda>i.
     rbind (ok_or (List.find (\<lambda>d. fst d = INTERFACE_DESCRIPTOR) (descriptors i)) Usb) (\<lambda>d.
       Inr (snd d))))"

fun webusb_find_loop :: "bool \<Rightarrow> usb_device list \<Rightarrow> available_device list \<Rightarrow> available_device list tres" where
  "webusb_find_loop debug [] found = Inr found"
| "webusb_find_loop debug (dev # devs) found =
     rbind (device_descriptor dev) (\<lambda>dev_id.
       case derive_model dev_id of
         None \<Rightarrow> webusb_find_loop debug devs found
       | Some m \<Rightarrow>
           rbind (class_code dev) (\<lambda>cls.
             if cls \<noteq> LIBUSB_CLASS_VENDOR_SPEC then webusb_find_loop debug devs found
             else webusb_find_loop debug devs
               (found @ [\<lparr>ad_model = m, ad_debug = debug, ad_transport = WebUsb (bus_number dev) (address dev)\<rparr>])))"

definition webusb_find_devices :: "'h usb \<Rightarrow> bool \<Rightarrow> available_device list tres" where
  "webusb_find_devices U debug =
     (case devices U of Inl _ \<Rightarrow> Inl Panic | Inr devs \<Rightarrow> webusb_find_loop debug devs [])"

definition webusb_connect :: "'h usb \<Rightarrow> available_device \<Rightarrow> 'h web_usb_link tres" where
  "webusb_connect U device =
     (case ad_transport device of
        Udp _ _ \<Rightarrow> Inl Panic
      | WebUsb bus addr \<Rightarrow>
          rbind (devices U) (\<lambda>devs.
          rbind (ok_or (List.find (\<lambda>dev. bus_number dev = bus \<and> address dev = addr) devs) DeviceDisconnected) (\<lambda>dev.
          rbind (device_descriptor dev) (\<lambda>dev_id.
            if derive_model dev_id \<noteq> Some (ad_model device) then Inl (Err DeviceDisconnected)
            else
              rbind (open_device U dev) (\<lambda>h.
              rbind (claim_interface U h (if ad_debug device then INTERFACE_DEBUG else INTERFACE)) (\<lambda>h'.
                Inr \<lparr>handle = h', endpoint = (if ad_debug device then ENDPOINT_DEBUG else ENDPOINT)\<rparr>))))))"

subsection \<open>UDP\<close>

definition DEFAULT_HOST :: string where "DEFAULT_HOST = ''127.0.0.1''"

definition DEFAULT_PORT :: string where "DEFAULT_PORT = ''21324''"

definition DEFAULT_DEBUG_PORT :: string where "DEFAULT_DEBUG_PORT = ''21325''"

text \<open>\<open>split(':')\<close>: the parts between colons, at least one.\<close>

fun split_colon :: "string \<Rightarrow> string list" where
  "split_colon [] = [[]]"
| "split_colon (c # s) = (if c = CHR '':'' then [] # split_colon s
     else (c # hd (split_colon s)) # tl (split_colon s))"

definition udp_open :: "net \<Rightarrow> string \<Rightarrow> (udp_link \<times> string \<times> string) tres" where
  "udp_open N path =
     rbind (bind_socket N) (\<lambda>_.
     rbind (unwrap (nth_get (split_colon path) 0)) (\<lambda>host.
     rbind (unwrap (nth_get (split_colon path) 1)) (\<lambda>port.
     rbind (connect_socket N path) (\<lambda>l. Inr (l, host, port)))))"

definition ascii :: "string \<Rightarrow> bytes" where
  "ascii s = map of_char s"

definition udp_ping :: "udp_link \<Rightarrow> bool tres" where
  "udp_ping l =
     rbind (udp_write_chunk l (ascii ''PINGPING'')) (\<lambda>l'.
     rbind (socket_recv l' CHUNK_SIZE) (\<lambda>(resp, _). Inr (resp = ascii ''PONGPONG'')))"

definition udp_find_devices :: "net \<Rightarrow> bool \<Rightarrow> string option \<Rightarrow> available_device list tres" where
  "udp_find_devices N debug path =
     (let dest = (case path of
          Some p \<Rightarrow> p
        | None \<Rightarrow> DEFAULT_HOST @ '':'' @ (if debug then DEFAULT_DEBUG_PORT else DEFAULT_PORT)) in
      rbind (udp_open N dest) (\<lambda>(l, host, port).
      rbind (udp_ping l) (\<lambda>pong.
        Inr (if pong then [\<lparr>ad_model = TrezorEmulator, ad_debug = debug, ad_transport = Udp host port\<rparr>] else []))))"

definition udp_connect :: "net \<Rightarrow> available_device \<Rightarrow> udp_link tres" where
  "udp_connect N device =
     (case ad_transport device of
        WebUsb _ _ \<Rightarrow> Inl Panic
      | Udp host port \<Rightarrow> rbind (udp_open N (host @ '':'' @ port)) (\<lambda>(l, _). Inr l))"

subsection \<open>The library\<close>

datatype 'h device_link = UdpTransport udp_link | WebUsbTransport "'h web_usb_link"

definition connect_transport :: "'h usb \<Rightarrow> net \<Rightarrow> available_device \<Rightarrow> 'h device_link tres" where
  "connect_transport U N device =
     (case ad_transport device of
        WebUsb _ _ \<Rightarrow> rbind (webusb_connect U device) (\<lambda>l. Inr (WebUsbTransport l))
      | Udp _ _ \<Rightarrow> rbind (udp_connect N device) (\<lambda>l. Inr (UdpTransport l)))"

definition device_write_message :: "'h usb \<Rightarrow> 'h device_link \<Rightarrow> proto_message \<Rightarrow> 'h device_link tres" where
  "device_write_message U t m =
     (case t of
        UdpTransport l \<Rightarrow> rbind (udp_write_message l m) (\<lambda>l'. Inr (UdpTransport l'))
      | WebUsbTransport l \<Rightarrow> rbind (v1_write (webusb_write_chunk U) l m) (\<lambda>l'. Inr (WebUsbTransport l')))"

definition device_read_message ::
  "(int \<Rightarrow> int option) \<Rightarrow> 'h usb \<Rightarrow> 'h device_link \<Rightarrow> (proto_message \<times> 'h device_link) tres option" where
  "device_read_message from_i32 U t =
     (case t of
        UdpTransport l \<Rightarrow>
          map_option (\<lambda>r. rbind r (\<lambda>(m, l'). Inr (m, UdpTransport l'))) (udp_read_message from_i32 l)
      | WebUsbTransport l \<Rightarrow>
          map_option (\<lambda>r. rbind r (\<lambda>(m, l'). Inr (m, WebUsbTransport l')))
            (v1_read from_i32 (webusb_read_chunk U) l))"

definition device_host :: "(int \<Rightarrow> int option) \<Rightarrow> 'h usb \<Rightarrow> codec \<Rightarrow> 'h device_link host" where
  "device_host from_i32 U C =
     \<lparr>write_message = device_write_message U, read_message = device_read_message from_i32 U, codec = C\<rparr>"

definition connect_device :: "'h usb \<Rightarrow> net \<Rightarrow> available_device \<Rightarrow> 'h device_link trezor cres" where
  "connect_device U N device =
     (case connect_transport U N device of
        Inl e \<Rightarrow> Inl (map_fault TransportConnect e)
      | Inr t \<Rightarrow> Inr (trezor_with_transport (ad_model device) t))"

text \<open>An error of one transport is logged and its devices are left out; a panic is not caught.\<close>

fun found_devices :: "available_device list tres \<Rightarrow> available_device list cres" where
  "found_devices (Inr ds) = Inr ds"
| "found_devices (Inl (Err _)) = Inr []"
| "found_devices (Inl Panic) = Inl Panic"

definition find_devices :: "'h usb \<Rightarrow> net \<Rightarrow> bool \<Rightarrow> available_device list cres" where
  "find_devices U N debug =
     rbind (found_devices (webusb_find_devices U debug)) (\<lambda>usb.
     rbind (found_devices (udp_find_devices N debug None)) (\<lambda>udp. Inr (usb @ udp)))"

definition unique :: "'h usb \<Rightarrow> net \<Rightarrow> bool \<Rightarrow> 'h device_link trezor cres" where
  "unique U N debug =
     rbind (find_devices U N debug) (\<lambda>ds.
       case ds of
         [] \<Rightarrow> Inl (Err NoDeviceFound)
       | [d] \<Rightarrow> connect_device U N d
       | _ \<Rightarrow> Inl (Err DeviceNotUnique))"

subsection \<open>Found devices can be connected\<close>

definition vendor_device :: "usb_device \<Rightarrow> model \<Rightarrow> bool" where
  "vendor_device dev m \<longleftrightarrow>
     (\<exists>dev_id. device_descriptor dev = Inr dev_id \<and> derive_model dev_id = Some m) \<and>
     class_code dev = Inr LIBUSB_CLASS_VENDOR_SPEC"

definition connected :: "model \<Rightarrow> 'h device_link tres \<Rightarrow> 'h device_link trezor cres" where
  "connected m r =
     (case r of Inl e \<Rightarrow> Inl (map_fault TransportConnect e) | Inr t \<Rightarrow> Inr (trezor_with_transport m t))"

lemma connect_device_connected: "connect_device U N d = connected (ad_model d) (connect_transport U N d)"
  by (simp add: connect_device_def connected_def)

lemma webusb_find_loop_sound:
  "webusb_find_loop debug devs found = Inr ds \<Longrightarrow> d \<in> set ds \<Longrightarrow> d \<notin> set found \<Longrightarrow>
     \<exists>dev \<in> set devs. \<exists>m. vendor_device dev m \<and>
       d = \<lparr>ad_model = m, ad_debug = debug, ad_transport = WebUsb (bus_number dev) (address dev)\<rparr>"
proof (induction debug devs found rule: webusb_find_loop.induct)
  case (2 debug dev devs found)
  from "2.prems"(1) obtain dev_id where dev_id: "device_descriptor dev = Inr dev_id"
    by (auto simp: result_simps)
  show ?case
  proof (cases "derive_model dev_id")
    case None
    with 2 dev_id show ?thesis by fastforce
  next
    case (Some m)
    with "2.prems"(1) dev_id obtain cls where cls: "class_code dev = Inr cls"
      by (auto simp: result_simps)
    let ?d = "\<lparr>ad_model = m, ad_debug = debug, ad_transport = WebUsb (bus_number dev) (address dev)\<rparr>"
    show ?thesis
    proof (cases "cls = LIBUSB_CLASS_VENDOR_SPEC")
      case True
      then have here: "vendor_device dev m" using dev_id Some cls by (simp add: vendor_device_def)
      show ?thesis
      proof (cases "d = ?d")
        case True
        with here show ?thesis by auto
      next
        case False
        with 2 dev_id Some cls True show ?thesis by fastforce
      qed
    next
      case False
      with 2 dev_id Some cls show ?thesis by fastforce
    qed
  qed
qed simp

lemma find_distinct:
  "distinct (map f xs) \<Longrightarrow> x \<in> set xs \<Longrightarrow> List.find (\<lambda>y. f y = f x) xs = Some x"
  by (induction xs) (auto simp: image_iff)

lemmas default_address = DEFAULT_HOST_def DEFAULT_PORT_def DEFAULT_DEBUG_PORT_def

lemma found_devices_Inr: "found_devices r = Inr ds \<Longrightarrow> d \<in> set ds \<Longrightarrow> r = Inr ds"
  by (cases r rule: found_devices.cases) auto

text \<open>The emulator is found at the default address, and connecting it opens that address.\<close>

lemma udp_find_default:
  assumes "udp_find_devices N debug None = Inr ds" "d \<in> set ds"
  shows "d = \<lparr>ad_model = TrezorEmulator, ad_debug = debug,
    ad_transport = Udp ''127.0.0.1'' (if debug then ''21325'' else ''21324'')\<rparr>"
proof -
  let ?dest = "DEFAULT_HOST @ '':'' @ (if debug then DEFAULT_DEBUG_PORT else DEFAULT_PORT)"
  have "split_colon ?dest = [''127.0.0.1'', if debug then ''21325'' else ''21324'']"
    by (cases debug) (simp_all add: default_address)
  then have "udp_open N ?dest = rbind (bind_socket N) (\<lambda>_. rbind (connect_socket N ?dest)
      (\<lambda>l. Inr (l, ''127.0.0.1'', if debug then ''21325'' else ''21324'')))"
    by (simp only: udp_open_def nth_get_def) simp
  then show ?thesis
    using assms by (auto simp only: udp_find_devices_def option.case Let_def result_simps split: if_splits prod.splits)
      auto
qed

lemma udp_connect_default:
  assumes "ad_transport d = Udp ''127.0.0.1'' (if debug then ''21325'' else ''21324'')"
  shows "connect_transport U N d = rbind (bind_socket N) (\<lambda>_.
    rbind (connect_socket N (if debug then ''127.0.0.1:21325'' else ''127.0.0.1:21324'')) (\<lambda>l. Inr (UdpTransport l)))"
  using assms
  by (cases debug) (simp_all add: connect_transport_def udp_connect_def udp_open_def nth_get_def rbind_assoc)

text \<open>
  C19.  A device that \<open>find_devices\<close> reports can be connected, while the bus does not change.  A USB device of
  the list is one of the bus with the identifiers of a Trezor and the vendor's interface class, reported with
  the model of its identifiers, and \<open>connect\<close> opens that very device (addresses on a bus are unique) and claims
  the interface and endpoint of the normal or the debug link; the only other entry is the emulator, and
  connecting it opens the address that answered the ping.
\<close>

theorem found_device_connects:
  assumes "devices U = Inr devs" "distinct (map (\<lambda>dev. (bus_number dev, address dev)) devs)"
    and "find_devices U N debug = Inr ds" "d \<in> set ds"
  shows "(\<exists>dev \<in> set devs. \<exists>m. vendor_device dev m \<and>
      d = \<lparr>ad_model = m, ad_debug = debug, ad_transport = WebUsb (bus_number dev) (address dev)\<rparr> \<and>
      connect_device U N d = connected m
        (rbind (open_device U dev) (\<lambda>h. rbind (claim_interface U h (if debug then 1 else 0)) (\<lambda>h'.
           Inr (WebUsbTransport \<lparr>handle = h', endpoint = (if debug then 2 else 1)\<rparr>))))) \<or>
    (d = \<lparr>ad_model = TrezorEmulator, ad_debug = debug,
       ad_transport = Udp ''127.0.0.1'' (if debug then ''21325'' else ''21324'')\<rparr> \<and>
     connect_device U N d = connected TrezorEmulator
       (rbind (bind_socket N) (\<lambda>_.
        rbind (connect_socket N (if debug then ''127.0.0.1:21325'' else ''127.0.0.1:21324'')) (\<lambda>l.
          Inr (UdpTransport l)))))"
proof -
  obtain us es where "found_devices (webusb_find_devices U debug) = Inr us"
    "found_devices (udp_find_devices N debug None) = Inr es" "ds = us @ es"
    using assms(3) by (auto simp: find_devices_def result_simps)
  then consider (usb) "webusb_find_loop debug devs [] = Inr us" "d \<in> set us"
    | (udp) "udp_find_devices N debug None = Inr es" "d \<in> set es"
    using assms(1,4) found_devices_Inr [of "webusb_find_devices U debug" us d]
      found_devices_Inr [of "udp_find_devices N debug None" es d]
    by (auto simp: webusb_find_devices_def)
  then show ?thesis
  proof cases
    case usb
    then obtain dev m where dev: "dev \<in> set devs" "vendor_device dev m"
      "d = \<lparr>ad_model = m, ad_debug = debug, ad_transport = WebUsb (bus_number dev) (address dev)\<rparr>"
      using webusb_find_loop_sound by fastforce
    have "List.find (\<lambda>x. bus_number x = bus_number dev \<and> address x = address dev) devs = Some dev"
      using find_distinct [OF assms(2) dev(1)] by simp
    moreover obtain dev_id where "device_descriptor dev = Inr dev_id" "derive_model dev_id = Some m"
      using dev(2) by (auto simp: vendor_device_def)
    ultimately have "connect_device U N d = connected m
        (rbind (open_device U dev) (\<lambda>h. rbind (claim_interface U h (if debug then 1 else 0)) (\<lambda>h'.
           Inr (WebUsbTransport \<lparr>handle = h', endpoint = (if debug then 2 else 1)\<rparr>))))"
      using assms(1) dev(3)
      by (simp add: connect_device_connected connect_transport_def webusb_connect_def rbind_assoc
          INTERFACE_def INTERFACE_DEBUG_def ENDPOINT_def ENDPOINT_DEBUG_def)
    with dev show ?thesis by blast
  next
    case udp
    note d = udp_find_default [OF udp]
    then show ?thesis
      using udp_connect_default [of d debug U N] by (simp add: connect_device_connected)
  qed
qed

definition example_usb_device :: usb_device where
  "example_usb_device = \<lparr>bus_number = 1, address = 4, device_descriptor = Inr DEV_TREZOR,
     config_descriptor = (\<lambda>_. Inr [\<lparr>number = INTERFACE, descriptors = [(INTERFACE_DESCRIPTOR, LIBUSB_CLASS_VENDOR_SPEC)]\<rparr>])\<rparr>"

definition example_usb :: "u8 usb" where
  "example_usb = \<lparr>devices = Inr [example_usb_device], open_device = (\<lambda>dev. Inr (address dev)),
     claim_interface = (\<lambda>h i. Inr (h + i)), write_interrupt = (\<lambda>h _ _. Inr h),
     read_interrupt = (\<lambda>h _ n. Inr (replicate n 0, h))\<rparr>"

definition no_net :: net where
  "no_net = \<lparr>bind_socket = Inl (Err IO), connect_socket = (\<lambda>_. Inl (Err IO))\<rparr>"

theorem found_device_connects_witness:
  "connect_device example_usb no_net \<lparr>ad_model = Trezor, ad_debug = True, ad_transport = WebUsb 1 4\<rparr>
    = Inr (trezor_with_transport Trezor (WebUsbTransport \<lparr>handle = 5, endpoint = 2\<rparr>))"
proof -
  let ?d = "\<lparr>ad_model = Trezor, ad_debug = True, ad_transport = WebUsb 1 4\<rparr>"
  have udp: "udp_find_devices no_net True None = Inl (Err IO)"
    by (simp add: udp_find_devices_def udp_open_def no_net_def Let_def)
  have dev: "device_descriptor example_usb_device = Inr DEV_TREZOR" "bus_number example_usb_device = 1"
    "address example_usb_device = 4" "class_code example_usb_device = Inr LIBUSB_CLASS_VENDOR_SPEC"
    by (simp_all add: example_usb_device_def class_code_def)
  have "derive_model DEV_TREZOR = Some Trezor"
    by (simp add: derive_model_def DEV_TREZOR_def DEV_TREZOR_LEGACY_def)
  moreover have "devices example_usb = Inr [example_usb_device]" by (simp add: example_usb_def)
  ultimately have "find_devices example_usb no_net True = Inr [?d]"
    using dev udp by (simp add: find_devices_def webusb_find_devices_def)
  with \<open>devices example_usb = Inr [example_usb_device]\<close> have "connect_device example_usb no_net ?d = connected Trezor
      (rbind (open_device example_usb example_usb_device) (\<lambda>h. rbind (claim_interface example_usb h 1) (\<lambda>h'.
         Inr (WebUsbTransport \<lparr>handle = h', endpoint = 2\<rparr>))))"
    using found_device_connects [of example_usb "[example_usb_device]" no_net True "[?d]" ?d] by auto
  then show ?thesis by (simp add: connected_def example_usb_def dev)
qed

end
