(* ===== verification/Hold_To_Confirm.thy ===== *)
theory Hold_To_Confirm
  imports Component
begin

section \<open>The loader and hold-to-confirm\<close>

text \<open>
  \<^verbatim>\<open>core/embed/rust/src/ui/model_tr/component/loader.rs\<close> and \<^verbatim>\<open>hold_to_confirm.rs\<close>, with
  \<open>Animation::value\<close> and \<open>seek_to_value\<close> of \<^verbatim>\<open>ui/animation.rs\<close>.  The two computations in \<open>f32\<close> are
  fields of the environment: the interpolated value for an elapsed time, and the time offset at which
  an animation has a given value.  The clock is read once per event.  Areas, texts and drawing are
  left out.
\<close>

record ui_env =
  now :: instant
  lerp_at :: "u16 \<Rightarrow> u16 \<Rightarrow> duration \<Rightarrow> duration \<Rightarrow> u16" \<comment> \<open>from, to, elapsed, duration\<close>
  seek_offset :: "u16 \<Rightarrow> u16 \<Rightarrow> duration \<Rightarrow> u16 \<Rightarrow> duration" \<comment> \<open>from, to, duration, value\<close>
  animation_disabled :: bool

definition anim_value :: "ui_env \<Rightarrow> u16 animation \<Rightarrow> instant \<Rightarrow> u16" where
  "anim_value U a t = lerp_at U (anim_from a) (anim_to a) (anim_elapsed a t) (anim_duration a)"

definition seek_to_value :: "ui_env \<Rightarrow> u16 animation \<Rightarrow> u16 \<Rightarrow> u16 animation" where
  "seek_to_value U a v = seek_forward a (seek_offset U (anim_from a) (anim_to a) (anim_duration a) v)"

subsection \<open>Loader\<close>

definition LOADER_MIN :: u16 where
  "LOADER_MIN = 0"

definition LOADER_MAX :: u16 where
  "LOADER_MAX = 1000"

definition DEFAULT_DURATION_MS :: u32 where
  "DEFAULT_DURATION_MS = 1000"

definition SHRINKING_DURATION_MS :: u32 where
  "SHRINKING_DURATION_MS = 500"

datatype loader_msg = GrownCompletely | ShrunkCompletely

datatype loader_state = LInitial | LGrowing "u16 animation" | LShrinking "u16 animation" | LGrown

record loader =
  ld_state :: loader_state
  growing_duration :: duration
  shrinking_duration :: duration

definition loader_new :: loader where
  "loader_new =
     \<lparr>ld_state = LInitial, growing_duration = from_millis DEFAULT_DURATION_MS,
      shrinking_duration = from_millis SHRINKING_DURATION_MS\<rparr>"

definition with_growing_duration :: "loader \<Rightarrow> duration \<Rightarrow> loader" where
  "with_growing_duration l d = l\<lparr>growing_duration := d\<rparr>"

definition start_growing :: "ui_env \<Rightarrow> event_ctx \<Rightarrow> loader \<Rightarrow> event_ctx \<times> loader" where
  "start_growing U ctx l =
     (let anim = animation_new LOADER_MIN LOADER_MAX (growing_duration l) (now U);
          anim = (case ld_state l of LShrinking s \<Rightarrow> seek_to_value U anim (anim_value U s (now U)) | _ \<Rightarrow> anim) in
      (request_paint (request_anim_frame ctx), l\<lparr>ld_state := LGrowing anim\<rparr>))"

definition start_shrinking :: "ui_env \<Rightarrow> event_ctx \<Rightarrow> loader \<Rightarrow> event_ctx \<times> loader" where
  "start_shrinking U ctx l =
     (let anim = animation_new LOADER_MAX LOADER_MIN (shrinking_duration l) (now U);
          anim = (case ld_state l of
              LGrowing g \<Rightarrow> seek_to_value U anim (LOADER_MAX - anim_value U g (now U)) | _ \<Rightarrow> anim) in
      (request_paint ctx, l\<lparr>ld_state := LShrinking anim\<rparr>))"

definition loader_reset :: "loader \<Rightarrow> loader" where
  "loader_reset l = l\<lparr>ld_state := LInitial\<rparr>"

definition loader_animation :: "loader \<Rightarrow> u16 animation option" where
  "loader_animation l = (case ld_state l of
      LInitial \<Rightarrow> None | LGrown \<Rightarrow> None | LGrowing a \<Rightarrow> Some a | LShrinking a \<Rightarrow> Some a)"

definition loader_progress :: "ui_env \<Rightarrow> loader \<Rightarrow> instant \<Rightarrow> u16 option" where
  "loader_progress U l t = map_option (\<lambda>a. anim_value U a t) (loader_animation l)"

definition is_animating :: "loader \<Rightarrow> bool" where
  "is_animating l \<longleftrightarrow> loader_animation l \<noteq> None"

definition is_completely_grown :: "ui_env \<Rightarrow> loader \<Rightarrow> instant \<Rightarrow> bool" where
  "is_completely_grown U l t \<longleftrightarrow> loader_progress U l t = Some LOADER_MAX"

definition is_completely_shrunk :: "ui_env \<Rightarrow> loader \<Rightarrow> instant \<Rightarrow> bool" where
  "is_completely_shrunk U l t \<longleftrightarrow> loader_progress U l t = Some LOADER_MIN"

definition loader_event :: "ui_env \<Rightarrow> (loader, loader_msg) handler" where
  "loader_event U ctx e l =
     (if e = Timer ANIM_FRAME_TIMER \<and> is_animating l then
        if is_completely_grown U l (now U) then
          (Some GrownCompletely, request_paint ctx, l\<lparr>ld_state := LGrown\<rparr>)
        else if is_completely_shrunk U l (now U) then
          (Some ShrunkCompletely, request_paint ctx, l\<lparr>ld_state := LInitial\<rparr>)
        else
          (None, (let ctx = request_anim_frame ctx in
             if \<not> animation_disabled U then request_paint ctx else ctx), l)
      else (None, ctx, l))"

subsection \<open>Hold to confirm\<close>

datatype htc_msg = Confirmed | FailedToConfirm

record hold_to_confirm =
  htc_loader :: loader

definition htc_new :: "duration \<Rightarrow> hold_to_confirm" where
  "htc_new d = \<lparr>htc_loader = with_growing_duration loader_new d\<rparr>"

definition htc_event :: "ui_env \<Rightarrow> (hold_to_confirm, htc_msg) handler" where
  "htc_event U ctx e h =
     (let (ctx, l) =
        (if e = Button HoldStarted then start_growing U ctx (htc_loader h)
         else if e = Button HoldEnded then
           (if is_animating (htc_loader h) then start_shrinking U ctx (htc_loader h) else (ctx, htc_loader h))
         else (ctx, htc_loader h));
        (msg, ctx, l) = loader_event U ctx e l in
      (case msg of
          Some GrownCompletely \<Rightarrow> Some Confirmed
        | Some ShrunkCompletely \<Rightarrow> Some FailedToConfirm
        | None \<Rightarrow> None,
       ctx, h\<lparr>htc_loader := l\<rparr>))"

subsection \<open>They honour the contract\<close>

lemma request_anim_frame_props:
  "paint_requested (request_anim_frame ctx) = paint_requested ctx"
  "length (timers ctx) \<le> MAX_TIMERS \<Longrightarrow> length (timers (request_anim_frame ctx)) \<le> MAX_TIMERS"
  by (auto simp: request_anim_frame_def register_timer_def)

lemma request_paint_props [simp]:
  "paint_requested (request_paint ctx)" "timers (request_paint ctx) = timers ctx"
  by (simp_all add: request_paint_def)

interpretation loader: ui_component "loader_event U" for U
proof
  fix ctx e l m ctx' l'
  assume h: "loader_event U ctx e l = (m, ctx', l')"
  show "paint_requested ctx'" if "paint_requested ctx"
    using h that by (auto simp: loader_event_def Let_def request_anim_frame_props split: if_splits)
  show "length (timers ctx') \<le> MAX_TIMERS" if "length (timers ctx) \<le> MAX_TIMERS"
    using h that request_anim_frame_props(2) [of ctx]
    by (auto simp: loader_event_def Let_def split: if_splits)
qed (auto simp: loader_event_def)

lemma start_props:
  "fst (start_growing U ctx l) = request_paint (request_anim_frame ctx)"
  "fst (start_shrinking U ctx l) = request_paint ctx"
  by (simp_all add: start_growing_def start_shrinking_def Let_def)

text \<open>The context and the loader with which \<open>htc_event\<close> calls the loader's handler.\<close>

definition htc_before :: "ui_env \<Rightarrow> event_ctx \<Rightarrow> event \<Rightarrow> loader \<Rightarrow> event_ctx \<times> loader" where
  "htc_before U ctx e l =
     (if e = Button HoldStarted then start_growing U ctx l
      else if e = Button HoldEnded then (if is_animating l then start_shrinking U ctx l else (ctx, l))
      else (ctx, l))"

lemma htc_event_eq:
  "htc_event U ctx e h =
     (let (ctx, l) = htc_before U ctx e (htc_loader h); (msg, ctx, l) = loader_event U ctx e l in
      (map_option (\<lambda>x. case x of GrownCompletely \<Rightarrow> Confirmed | ShrunkCompletely \<Rightarrow> FailedToConfirm) msg,
       ctx, h\<lparr>htc_loader := l\<rparr>))"
  by (auto simp: htc_event_def htc_before_def Let_def split: prod.splits option.splits loader_msg.splits)

interpretation htc: ui_component "htc_event U" for U
proof
  fix ctx e h m ctx' h'
  assume a: "htc_event U ctx e h = (m, ctx', h')"
  obtain ctx1 l1 where b: "htc_before U ctx e (htc_loader h) = (ctx1, l1)" by fastforce
  obtain m2 ctx2 l2 where c: "loader_event U ctx1 e l1 = (m2, ctx2, l2)" by (metis prod_cases3)
  have ctx': "ctx' = ctx2" using a b c by (simp add: htc_event_eq)
  have ctx1: "ctx1 = fst (htc_before U ctx e (htc_loader h))" by (simp add: b)
  show "paint_requested ctx'" if "paint_requested ctx"
    using loader.paint_kept [OF c] that
    by (auto simp: ctx' ctx1 htc_before_def start_props)
  show "length (timers ctx') \<le> MAX_TIMERS" if "length (timers ctx) \<le> MAX_TIMERS"
    using loader.timers_bounded [OF c] that request_anim_frame_props(2) [OF that]
    by (auto simp: ctx' ctx1 htc_before_def start_props)
next
  fix ctx h m ctx' h'
  assume a: "htc_event U ctx RequestPaint h = (m, ctx', h')"
  obtain m2 ctx2 l2 where c: "loader_event U ctx RequestPaint (htc_loader h) = (m2, ctx2, l2)"
    by (metis prod_cases3)
  show "m = None \<and> timers ctx' = timers ctx"
    using a c loader.request_paint_silent [OF c] by (auto simp: htc_event_eq htc_before_def)
qed

text \<open>
  A confirmation comes only from a tick of the animation, and only when the loader of this button has
  grown to its maximum; after it the loader rests, so that it cannot confirm twice.
\<close>

lemma htc_confirmed_iff:
  "fst (htc_event U ctx e h) = Some Confirmed \<longleftrightarrow>
     e = Timer ANIM_FRAME_TIMER \<and> is_completely_grown U (htc_loader h) (now U)"
  by (auto simp: htc_event_eq htc_before_def loader_event_def is_completely_grown_def loader_progress_def
      is_animating_def split: if_splits prod.splits)

lemma htc_confirmed_rests:
  assumes "htc_event U ctx e h = (Some Confirmed, ctx', h')"
  shows "ld_state (htc_loader h') = LGrown" "fst (htc_event U' ctx'' (Timer t) h') = None"
proof -
  have c: "e = Timer ANIM_FRAME_TIMER" "is_completely_grown U (htc_loader h) (now U)"
    using htc_confirmed_iff [of U ctx e h] assms by auto
  then show s: "ld_state (htc_loader h') = LGrown"
    using assms by (auto simp: htc_event_eq htc_before_def loader_event_def split: if_splits)
  then show "fst (htc_event U' ctx'' (Timer t) h') = None"
    by (simp add: htc_event_eq htc_before_def loader_event_def is_animating_def loader_animation_def)
qed

end
