(* ===== verification/Button_Controller.thy ===== *)
theory Button_Controller
  imports Hold_To_Confirm
begin

section \<open>The button controller of the two-button device\<close>

text \<open>
  \<^verbatim>\<open>core/embed/rust/src/ui/model_tr/component/button_controller.rs\<close> with the button positions, the
  pressed state and the details of \<^verbatim>\<open>button.rs\<close> that decide its behaviour: the state machine that turns
  presses and releases of the two physical buttons into messages of three virtual buttons.  The areas
  and the look of the buttons are left out.
\<close>

subsection \<open>Buttons\<close>

datatype button_pos = BLeft | BMiddle | BRight

definition pos_of :: "physical_button \<Rightarrow> button_pos" where
  "pos_of b = (case b of PLeft \<Rightarrow> BLeft | PRight \<Rightarrow> BRight)"

text \<open>Of the content of a button only its kind matters: an icon cannot be held.\<close>

record button_details =
  is_icon :: bool
  details_duration :: "duration option"
  details_send_long_press :: bool

record button_layout =
  btn_left :: "button_details option"
  btn_middle :: "button_details option"
  btn_right :: "button_details option"

record button =
  btn_pressed :: bool

definition button_set_pressed :: "event_ctx \<Rightarrow> bool \<Rightarrow> button \<Rightarrow> event_ctx \<times> button" where
  "button_set_pressed ctx p b =
     (if btn_pressed b \<noteq> p then (request_paint ctx, b\<lparr>btn_pressed := p\<rparr>) else (ctx, b))"

datatype button_type = TButton button | THold hold_to_confirm | TNothing

definition from_button_details :: "button_details option \<Rightarrow> (button_type, 'e) result" where
  "from_button_details details = (case details of
      None \<Rightarrow> Inr TNothing
    | Some d \<Rightarrow> (case details_duration d of
          Some dur \<Rightarrow> if is_icon d then Inl Panic else Inr (THold (htc_new dur))
        | None \<Rightarrow> Inr (TButton \<lparr>btn_pressed = False\<rparr>)))"

datatype controller_msg =
    Pressed button_pos
  | Triggered button_pos bool
  | LongPressed button_pos
  | ReleasedWithoutLongPress button_pos

subsection \<open>Button containers\<close>

record button_container =
  bc_pos :: button_pos
  bc_type :: button_type
  pressed_since :: "instant option"
  long_press_ms :: u32
  long_pressed_timer :: "timer_token option"
  send_long_press :: bool

definition wants_long_press :: "button_details option \<Rightarrow> bool" where
  "wants_long_press details = (case details of None \<Rightarrow> False | Some d \<Rightarrow> details_send_long_press d)"

definition container_new :: "button_pos \<Rightarrow> button_details option \<Rightarrow> (button_container, 'e) result" where
  "container_new p details =
     rbind (from_button_details details) (\<lambda>ty.
       Inr \<lparr>bc_pos = p, bc_type = ty, pressed_since = None, long_press_ms = 1000,
            long_pressed_timer = None, send_long_press = wants_long_press details\<rparr>)"

definition container_set :: "button_details option \<Rightarrow> button_container \<Rightarrow> (button_container, 'e) result" where
  "container_set details b =
     rbind (from_button_details details) (\<lambda>ty.
       Inr (b\<lparr>send_long_press := wants_long_press details, bc_type := ty\<rparr>))"

definition container_set_pressed :: "bool \<Rightarrow> event_ctx \<Rightarrow> button_container \<Rightarrow> event_ctx \<times> button_container" where
  "container_set_pressed p ctx b = (case bc_type b of
      TButton btn \<Rightarrow> (let (ctx, btn) = button_set_pressed ctx p btn in (ctx, b\<lparr>bc_type := TButton btn\<rparr>))
    | _ \<Rightarrow> (ctx, b))"

text \<open>Sending an event to the hold-to-confirm button, if the container has one.\<close>

definition container_htc :: "ui_env \<Rightarrow> event \<Rightarrow> event_ctx \<Rightarrow> button_container \<Rightarrow> htc_msg option \<times> event_ctx \<times> button_container" where
  "container_htc U e ctx b = (case bc_type b of
      THold h \<Rightarrow> (let (msg, ctx, h) = htc_event U ctx e h in (msg, ctx, b\<lparr>bc_type := THold h\<rparr>))
    | _ \<Rightarrow> (None, ctx, b))"

definition hold_started :: "ui_env \<Rightarrow> event_ctx \<Rightarrow> button_container \<Rightarrow> event_ctx \<times> button_container" where
  "hold_started U ctx b = snd (container_htc U (Button HoldStarted) ctx b)"

definition hold_ended :: "ui_env \<Rightarrow> event_ctx \<Rightarrow> button_container \<Rightarrow> event_ctx \<times> button_container" where
  "hold_ended U ctx b = snd (container_htc U (Button HoldEnded) ctx b)"

definition htc_got_triggered :: "ui_env \<Rightarrow> event \<Rightarrow> event_ctx \<Rightarrow> button_container \<Rightarrow> bool \<times> event_ctx \<times> button_container" where
  "htc_got_triggered U e ctx b =
     (let (msg, ctx, b) = container_htc U e ctx b in (msg = Some Confirmed, ctx, b))"

definition maybe_trigger ::
  "ui_env \<Rightarrow> event_ctx \<Rightarrow> button_container \<Rightarrow> controller_msg option \<times> event_ctx \<times> button_container" where
  "maybe_trigger U ctx b = (case bc_type b of
      TButton _ \<Rightarrow>
        (let long_press = (case pressed_since b of
               None \<Rightarrow> False
             | Some since \<Rightarrow> to_millis (saturating_duration_since (now U) since) > long_press_ms b) in
         (Some (Triggered (bc_pos b) long_press), ctx, b\<lparr>pressed_since := None, long_pressed_timer := None\<rparr>))
    | THold _ \<Rightarrow>
        (let (ctx, b) = hold_ended U ctx b in (Some (ReleasedWithoutLongPress (bc_pos b)), ctx, b))
    | TNothing \<Rightarrow> (None, ctx, b))"

definition container_got_pressed :: "ui_env \<Rightarrow> event_ctx \<Rightarrow> button_container \<Rightarrow> event_ctx \<times> button_container" where
  "container_got_pressed U ctx b =
     (let b = b\<lparr>pressed_since := Some (now U)\<rparr> in
      if send_long_press b then
        (let (token, ctx) = request_timer (from_millis (long_press_ms b)) ctx in
         (ctx, b\<lparr>long_pressed_timer := Some token\<rparr>))
      else (ctx, b))"

definition container_reset :: "button_container \<Rightarrow> button_container" where
  "container_reset b = b\<lparr>pressed_since := None, long_pressed_timer := None\<rparr>"

definition is_timer_token :: "timer_token \<Rightarrow> button_container \<Rightarrow> bool" where
  "is_timer_token token b \<longleftrightarrow> long_pressed_timer b = Some token"

subsection \<open>Ignoring the other button after a delay\<close>

record ignore_button_delay =
  ign_delay :: duration
  left_clickable :: bool
  right_clickable :: bool
  left_clickable_timer :: "timer_token option"
  right_clickable_timer :: "timer_token option"

definition ignore_new :: "u32 \<Rightarrow> ignore_button_delay" where
  "ignore_new delay_ms =
     \<lparr>ign_delay = from_millis delay_ms, left_clickable = True, right_clickable = True,
      left_clickable_timer = None, right_clickable_timer = None\<rparr>"

definition make_button_clickable :: "button_pos \<Rightarrow> ignore_button_delay \<Rightarrow> ignore_button_delay" where
  "make_button_clickable p d = (case p of
      BLeft \<Rightarrow> d\<lparr>left_clickable := True, left_clickable_timer := None\<rparr>
    | BRight \<Rightarrow> d\<lparr>right_clickable := True, right_clickable_timer := None\<rparr>
    | BMiddle \<Rightarrow> d)"

definition handle_button_press ::
  "physical_button \<Rightarrow> event_ctx \<Rightarrow> ignore_button_delay \<Rightarrow> event_ctx \<times> ignore_button_delay" where
  "handle_button_press b ctx d =
     (let (token, ctx) = request_timer (ign_delay d) ctx in
      case b of
        PLeft \<Rightarrow> (ctx, d\<lparr>right_clickable_timer := Some token\<rparr>)
      | PRight \<Rightarrow> (ctx, d\<lparr>left_clickable_timer := Some token\<rparr>))"

definition ignore_button :: "physical_button \<Rightarrow> ignore_button_delay \<Rightarrow> bool" where
  "ignore_button b d \<longleftrightarrow> b = PLeft \<and> \<not> left_clickable d \<or> b = PRight \<and> \<not> right_clickable d"

definition handle_timer_token :: "timer_token \<Rightarrow> ignore_button_delay \<Rightarrow> ignore_button_delay" where
  "handle_timer_token token d =
     (let d = (if left_clickable_timer d = Some token
               then d\<lparr>left_clickable := False, left_clickable_timer := None\<rparr> else d) in
      if right_clickable_timer d = Some token
      then d\<lparr>right_clickable := False, right_clickable_timer := None\<rparr> else d)"

definition ignore_reset :: "ignore_button_delay \<Rightarrow> ignore_button_delay" where
  "ignore_reset d =
     d\<lparr>left_clickable := True, right_clickable := True, left_clickable_timer := None,
       right_clickable_timer := None\<rparr>"

subsection \<open>The controller\<close>

datatype button_state =
    SNothing | OneDown physical_button | BothDown | OneReleased physical_button
  | HTCNeedsRelease physical_button

record controller =
  left_btn :: button_container
  middle_btn :: button_container
  right_btn :: button_container
  c_state :: button_state
  ignore_btn_delay :: "ignore_button_delay option"
  handle_middle_button :: bool
  pad_clear :: bool

definition controller_new :: "button_layout \<Rightarrow> (controller, 'e) result" where
  "controller_new lay =
     rbind (container_new BLeft (btn_left lay)) (\<lambda>l.
     rbind (container_new BMiddle (btn_middle lay)) (\<lambda>m.
     rbind (container_new BRight (btn_right lay)) (\<lambda>r.
       Inr \<lparr>left_btn = l, middle_btn = m, right_btn = r, c_state = SNothing, ignore_btn_delay = None,
            handle_middle_button = (btn_middle lay \<noteq> None), pad_clear = True\<rparr>)))"

definition with_ignore_btn_delay :: "u32 \<Rightarrow> controller \<Rightarrow> controller" where
  "with_ignore_btn_delay delay_ms c = c\<lparr>ignore_btn_delay := Some (ignore_new delay_ms)\<rparr>"

definition controller_set :: "button_layout \<Rightarrow> controller \<Rightarrow> (controller, 'e) result" where
  "controller_set lay c =
     rbind (container_set (btn_left lay) (left_btn c)) (\<lambda>l.
     rbind (container_set (btn_middle lay) (middle_btn c)) (\<lambda>m.
     rbind (container_set (btn_right lay) (right_btn c)) (\<lambda>r.
       Inr (c\<lparr>handle_middle_button := (btn_middle lay \<noteq> None), pad_clear := True,
              left_btn := l, middle_btn := m, right_btn := r\<rparr>))))"

text \<open>Running an operation on one of the three containers.\<close>

definition on_btn :: "button_pos \<Rightarrow> (event_ctx \<Rightarrow> button_container \<Rightarrow> event_ctx \<times> button_container) \<Rightarrow>
    event_ctx \<times> controller \<Rightarrow> event_ctx \<times> controller" where
  "on_btn p f cc = (case p of
      BLeft \<Rightarrow> (let (ctx, b) = f (fst cc) (left_btn (snd cc)) in (ctx, (snd cc)\<lparr>left_btn := b\<rparr>))
    | BMiddle \<Rightarrow> (let (ctx, b) = f (fst cc) (middle_btn (snd cc)) in (ctx, (snd cc)\<lparr>middle_btn := b\<rparr>))
    | BRight \<Rightarrow> (let (ctx, b) = f (fst cc) (right_btn (snd cc)) in (ctx, (snd cc)\<lparr>right_btn := b\<rparr>)))"

definition btn :: "button_pos \<Rightarrow> controller \<Rightarrow> button_container" where
  "btn p c = (case p of BLeft \<Rightarrow> left_btn c | BMiddle \<Rightarrow> middle_btn c | BRight \<Rightarrow> right_btn c)"

definition set_pressed :: "bool \<Rightarrow> bool \<Rightarrow> bool \<Rightarrow> event_ctx \<times> controller \<Rightarrow> event_ctx \<times> controller" where
  "set_pressed left mid right cc =
     on_btn BRight (container_set_pressed right)
       (on_btn BMiddle (container_set_pressed mid)
         (on_btn BLeft (container_set_pressed left) cc))"

definition highlight_button :: "button_pos \<Rightarrow> event_ctx \<times> controller \<Rightarrow> event_ctx \<times> controller" where
  "highlight_button p cc = on_btn p (container_set_pressed True) cc"

definition middle_hold_started :: "ui_env \<Rightarrow> event_ctx \<times> controller \<Rightarrow> event_ctx \<times> controller" where
  "middle_hold_started U cc =
     on_btn BRight (hold_ended U) (on_btn BMiddle (hold_started U) (on_btn BLeft (hold_ended U) cc))"

definition reset_button_presses :: "controller \<Rightarrow> controller" where
  "reset_button_presses c =
     c\<lparr>left_btn := container_reset (left_btn c), middle_btn := container_reset (middle_btn c),
       right_btn := container_reset (right_btn c)\<rparr>"

definition got_pressed :: "ui_env \<Rightarrow> button_pos \<Rightarrow> event_ctx \<times> controller \<Rightarrow> event_ctx \<times> controller" where
  "got_pressed U p cc = on_btn p (container_got_pressed U) (fst cc, reset_button_presses (snd cc))"

definition handle_long_press_timer_token :: "timer_token \<Rightarrow> controller \<Rightarrow> button_pos option" where
  "handle_long_press_timer_token token c =
     (if is_timer_token token (left_btn c) then Some BLeft
      else if is_timer_token token (middle_btn c) then Some BMiddle
      else if is_timer_token token (right_btn c) then Some BRight
      else None)"

definition reset_state :: "event_ctx \<times> controller \<Rightarrow> event_ctx \<times> controller" where
  "reset_state cc =
     (let cc = (fst cc, reset_button_presses ((snd cc)\<lparr>c_state := SNothing\<rparr>));
          cc = set_pressed False False False cc in
      (fst cc, (snd cc)\<lparr>ignore_btn_delay := map_option ignore_reset (ignore_btn_delay (snd cc))\<rparr>))"

definition handle_htc_expiration ::
  "ui_env \<Rightarrow> event \<Rightarrow> event_ctx \<times> controller \<Rightarrow> controller_msg option \<times> event_ctx \<times> controller" where
  "handle_htc_expiration U e cc =
     (let (t, ctx, l) = htc_got_triggered U e (fst cc) (left_btn (snd cc)); c = (snd cc)\<lparr>left_btn := l\<rparr> in
      if t then
        (Some (Triggered BLeft True), set_pressed False False False (ctx, c\<lparr>c_state := HTCNeedsRelease PLeft\<rparr>))
      else let (t, ctx, m) = htc_got_triggered U e ctx (middle_btn c); c = c\<lparr>middle_btn := m\<rparr> in
      if t then
        (Some (Triggered BMiddle True), set_pressed False False False (ctx, c\<lparr>c_state := SNothing\<rparr>))
      else let (t, ctx, r) = htc_got_triggered U e ctx (right_btn c); c = c\<lparr>right_btn := r\<rparr> in
      if t then
        (Some (Triggered BRight True), set_pressed False False False (ctx, c\<lparr>c_state := HTCNeedsRelease PRight\<rparr>))
      else (None, ctx, c))"

subsection \<open>The state machine\<close>

text \<open>
  One function per state of the match on \<open>self.state\<close>: the new state, the message and what became of
  the context and the controller.  \<open>None\<close> is the early return for a button that is to be ignored.
\<close>

type_synonym step_result = "(button_state \<times> controller_msg option \<times> event_ctx \<times> controller) option"

definition ignore_press :: "physical_button \<Rightarrow> event_ctx \<times> controller \<Rightarrow> event_ctx \<times> controller" where
  "ignore_press b cc = (case ignore_btn_delay (snd cc) of
      None \<Rightarrow> cc
    | Some d \<Rightarrow> (let (ctx, d) = handle_button_press b (fst cc) d in
        (ctx, (snd cc)\<lparr>ignore_btn_delay := Some d\<rparr>)))"

definition make_clickable :: "button_pos \<Rightarrow> event_ctx \<times> controller \<Rightarrow> event_ctx \<times> controller" where
  "make_clickable p cc =
     (fst cc, (snd cc)\<lparr>ignore_btn_delay := map_option (make_button_clickable p) (ignore_btn_delay (snd cc))\<rparr>)"

definition trigger :: "ui_env \<Rightarrow> button_pos \<Rightarrow> event_ctx \<times> controller \<Rightarrow>
    controller_msg option \<times> event_ctx \<times> controller" where
  "trigger U p cc =
     (let (msg, ctx, b) = maybe_trigger U (fst cc) (btn p (snd cc)) in
      (msg, on_btn p (\<lambda>_ _. (ctx, b)) cc))"

definition on_nothing :: "ui_env \<Rightarrow> button_event \<Rightarrow> event_ctx \<times> controller \<Rightarrow> step_result" where
  "on_nothing U be cc = (case be of
      ButtonPressed which \<Rightarrow>
        (let cc = ignore_press which cc; p = pos_of which;
             cc = on_btn p (hold_started U) (got_pressed U p cc) in
         Some (OneDown which, Some (Pressed p), cc))
    | _ \<Rightarrow> Some (c_state (snd cc), None, cc))"

definition other_pos :: "physical_button \<Rightarrow> button_pos" where
  "other_pos b = (case b of PLeft \<Rightarrow> BRight | PRight \<Rightarrow> BLeft)"

definition on_one_down :: "ui_env \<Rightarrow> physical_button \<Rightarrow> button_event \<Rightarrow> event_ctx \<times> controller \<Rightarrow> step_result" where
  "on_one_down U which_down be cc = (case be of
      ButtonReleased b \<Rightarrow>
        if b = which_down then
          (let cc = make_clickable (other_pos which_down) cc; (msg, cc) = trigger U (pos_of which_down) cc in
           Some (SNothing, msg, cc))
        else Some (c_state (snd cc), None, cc)
    | ButtonPressed b \<Rightarrow>
        if b \<noteq> which_down then
          if (case ignore_btn_delay (snd cc) of None \<Rightarrow> False | Some d \<Rightarrow> ignore_button b d) then None
          else if handle_middle_button (snd cc) then
            Some (BothDown, Some (Pressed BMiddle), middle_hold_started U (got_pressed U BMiddle cc))
          else Some (BothDown, Some (Pressed (pos_of b)), got_pressed U (pos_of b) cc)
        else Some (c_state (snd cc), None, cc)
    | _ \<Rightarrow> Some (c_state (snd cc), None, cc))"

definition on_both_down :: "ui_env \<Rightarrow> button_event \<Rightarrow> event_ctx \<times> controller \<Rightarrow> step_result" where
  "on_both_down U be cc = (case be of
      ButtonReleased b \<Rightarrow>
        (let cc = on_btn BMiddle (hold_ended U) cc in
         if handle_middle_button (snd cc) then Some (OneReleased b, None, cc)
         else Some (OneReleased b, Some (Triggered (pos_of b) False), cc))
    | _ \<Rightarrow> Some (c_state (snd cc), None, cc))"

definition on_one_released :: "ui_env \<Rightarrow> physical_button \<Rightarrow> button_event \<Rightarrow> event_ctx \<times> controller \<Rightarrow> step_result" where
  "on_one_released U which_up be cc = (case be of
      ButtonPressed b \<Rightarrow>
        if b = which_up then Some (BothDown, None, middle_hold_started U cc)
        else Some (c_state (snd cc), None, cc)
    | ButtonReleased b \<Rightarrow>
        if b \<noteq> which_up then
          (let cc = make_clickable BRight (make_clickable BLeft cc) in
           if handle_middle_button (snd cc) then
             (let (msg, cc) = trigger U BMiddle cc in Some (SNothing, msg, cc))
           else Some (SNothing, Some (Triggered (pos_of b) False), cc))
        else Some (c_state (snd cc), None, cc)
    | _ \<Rightarrow> Some (c_state (snd cc), None, cc))"

definition on_htc_needs_release :: "physical_button \<Rightarrow> button_event \<Rightarrow> event_ctx \<times> controller \<Rightarrow> step_result" where
  "on_htc_needs_release needs_release be cc =
     (if be = ButtonReleased needs_release then Some (SNothing, None, cc)
      else Some (c_state (snd cc), None, cc))"

definition button_step :: "ui_env \<Rightarrow> button_event \<Rightarrow> event_ctx \<times> controller \<Rightarrow> step_result" where
  "button_step U be cc = (case c_state (snd cc) of
      SNothing \<Rightarrow> on_nothing U be cc
    | OneDown b \<Rightarrow> on_one_down U b be cc
    | BothDown \<Rightarrow> on_both_down U be cc
    | OneReleased b \<Rightarrow> on_one_released U b be cc
    | HTCNeedsRelease b \<Rightarrow> on_htc_needs_release b be cc)"

definition show_state :: "button_state \<Rightarrow> event_ctx \<times> controller \<Rightarrow> event_ctx \<times> controller" where
  "show_state st cc = (case st of
      SNothing \<Rightarrow> set_pressed False False False cc
    | HTCNeedsRelease _ \<Rightarrow> set_pressed False False False cc
    | OneDown PLeft \<Rightarrow> set_pressed True False False cc
    | OneDown PRight \<Rightarrow> set_pressed False False True cc
    | BothDown \<Rightarrow> set_pressed False True False cc
    | OneReleased _ \<Rightarrow> set_pressed False True False cc)"

definition controller_event :: "ui_env \<Rightarrow> (controller, controller_msg) handler" where
  "controller_event U ctx e c = (case e of
      Button be \<Rightarrow> (case button_step U be (ctx, c) of
          None \<Rightarrow> (None, ctx, c)
        | Some (new_state, msg, cc) \<Rightarrow>
            (let (ctx, c) = show_state new_state cc in (msg, ctx, c\<lparr>c_state := new_state\<rparr>)))
    | Timer token \<Rightarrow>
        (let c = c\<lparr>ignore_btn_delay := map_option (handle_timer_token token) (ignore_btn_delay c)\<rparr> in
         case handle_long_press_timer_token token c of
           Some p \<Rightarrow> (Some (LongPressed p), ctx, c)
         | None \<Rightarrow> handle_htc_expiration U e (ctx, c))
    | _ \<Rightarrow> (None, ctx, c))"

subsection \<open>Automatic movement\<close>

record automatic_mover =
  mv_timer_token :: "timer_token option"
  moving_direction :: "button_pos option"
  auto_moved_screens :: nat
  duration_func :: "nat \<Rightarrow> u32"

definition default_duration_func :: "nat \<Rightarrow> u32" where
  "default_duration_func steps = (if steps < 3 then 200 else if steps < 10 then 150 else 100)"

definition mover_new :: automatic_mover where
  "mover_new =
     \<lparr>mv_timer_token = None, moving_direction = None, auto_moved_screens = 0,
      duration_func = default_duration_func\<rparr>"

definition with_duration_func :: "(nat \<Rightarrow> u32) \<Rightarrow> automatic_mover \<Rightarrow> automatic_mover" where
  "with_duration_func f m = m\<lparr>duration_func := f\<rparr>"

definition get_auto_move_duration :: "automatic_mover \<Rightarrow> duration" where
  "get_auto_move_duration m = from_millis (duration_func m (auto_moved_screens m))"

definition is_moving :: "automatic_mover \<Rightarrow> bool" where
  "is_moving m \<longleftrightarrow> moving_direction m \<noteq> None"

definition was_moving :: "automatic_mover \<Rightarrow> bool" where
  "was_moving m \<longleftrightarrow> auto_moved_screens m > 0"

definition start_moving :: "button_pos \<Rightarrow> event_ctx \<Rightarrow> automatic_mover \<Rightarrow> event_ctx \<times> automatic_mover" where
  "start_moving b ctx m =
     (let m = m\<lparr>auto_moved_screens := 0, moving_direction := Some b\<rparr>;
          (token, ctx) = request_timer (get_auto_move_duration m) ctx in
      (ctx, m\<lparr>mv_timer_token := Some token\<rparr>))"

definition stop_moving :: "automatic_mover \<Rightarrow> automatic_mover" where
  "stop_moving m = m\<lparr>moving_direction := None, mv_timer_token := None\<rparr>"

definition mover_event :: "(automatic_mover, button_pos) handler" where
  "mover_event ctx e m = (case e of
      Timer token \<Rightarrow>
        (if mv_timer_token m = Some token \<and> moving_direction m \<noteq> None then
           (let (token, ctx) = request_timer (get_auto_move_duration m) ctx;
                m = m\<lparr>mv_timer_token := Some token, auto_moved_screens := usize_add (auto_moved_screens m) 1\<rparr> in
            (moving_direction m, ctx, m))
         else (None, ctx, m))
    | _ \<Rightarrow> (None, ctx, m))"

subsection \<open>The controller honours the contract of a component\<close>

text \<open>Handlers only add requests to the context.\<close>

definition ctx_le :: "event_ctx \<Rightarrow> event_ctx \<Rightarrow> bool" where
  "ctx_le ctx ctx' \<longleftrightarrow> (paint_requested ctx \<longrightarrow> paint_requested ctx') \<and>
     (length (timers ctx) \<le> MAX_TIMERS \<longrightarrow> length (timers ctx') \<le> MAX_TIMERS)"

named_theorems ctx_le_intros

lemma ctx_le_refl [ctx_le_intros]: "ctx_le ctx ctx"
  by (simp add: ctx_le_def)

lemma ctx_le_trans: "ctx_le a b \<Longrightarrow> ctx_le b c \<Longrightarrow> ctx_le a c"
  by (auto simp: ctx_le_def)

lemma ctx_le_request_timer: "ctx_le ctx (snd (request_timer d ctx))"
  by (auto simp: ctx_le_def request_timer_def next_timer_token_def register_timer_def)

lemma ctx_le_request_paint: "ctx_le ctx (request_paint ctx)"
  by (simp add: ctx_le_def)

lemma ctx_le_htc: "ctx_le ctx (fst (snd (htc_event U ctx e h)))"
proof -
  obtain m ctx' h' where e: "htc_event U ctx e h = (m, ctx', h')" by (metis prod_cases3)
  show ?thesis
    using htc.paint_kept [OF e] htc.timers_bounded [OF e] by (simp add: ctx_le_def e)
qed

text \<open>An operation on a container that only adds requests.\<close>

definition growing_op :: "(event_ctx \<Rightarrow> 'b \<Rightarrow> event_ctx \<times> 'b) \<Rightarrow> bool" where
  "growing_op f \<longleftrightarrow> (\<forall>ctx b. ctx_le ctx (fst (f ctx b)))"

lemma ctx_le_container_htc: "ctx_le ctx (fst (snd (container_htc U e ctx b)))"
  using ctx_le_htc by (auto simp: container_htc_def ctx_le_refl split: button_type.split prod.split)
    (metis fst_conv snd_conv)

lemma growing_ops [ctx_le_intros]:
  "growing_op (container_set_pressed p)" "growing_op (hold_started U)" "growing_op (hold_ended U)"
  "growing_op (container_got_pressed U)"
  using ctx_le_container_htc ctx_le_request_timer
  by (auto simp: growing_op_def container_set_pressed_def button_set_pressed_def hold_started_def
      hold_ended_def container_got_pressed_def Let_def ctx_le_refl ctx_le_request_paint
      split: button_type.split prod.split)
    (metis snd_conv)

lemma ctx_le_on_btn [ctx_le_intros]: "growing_op f \<Longrightarrow> ctx_le ctx (fst cc) \<Longrightarrow> ctx_le ctx (fst (on_btn p f cc))"
  using ctx_le_trans [of ctx "fst cc"]
  by (auto simp: on_btn_def growing_op_def split: button_pos.split prod.split) (metis fst_conv)+

lemma ctx_le_set_pressed [ctx_le_intros]: "ctx_le ctx (fst cc) \<Longrightarrow> ctx_le ctx (fst (set_pressed l m r cc))"
  by (simp add: set_pressed_def ctx_le_intros)

lemma ctx_le_middle_hold_started [ctx_le_intros]:
  "ctx_le ctx (fst cc) \<Longrightarrow> ctx_le ctx (fst (middle_hold_started U cc))"
  by (simp add: middle_hold_started_def ctx_le_intros)

lemma ctx_le_got_pressed [ctx_le_intros]: "ctx_le ctx (fst cc) \<Longrightarrow> ctx_le ctx (fst (got_pressed U p cc))"
  by (simp add: got_pressed_def ctx_le_intros)

lemma ctx_le_ignore_press [ctx_le_intros]: "ctx_le ctx (fst cc) \<Longrightarrow> ctx_le ctx (fst (ignore_press b cc))"
  using ctx_le_trans [of ctx "fst cc", OF _ ctx_le_request_timer]
  by (auto simp: ignore_press_def handle_button_press_def Let_def
      split: option.split prod.split physical_button.split) (metis snd_conv)+

lemma ctx_le_make_clickable [ctx_le_intros]: "ctx_le ctx (fst cc) \<Longrightarrow> ctx_le ctx (fst (make_clickable p cc))"
  by (simp add: make_clickable_def)

lemma ctx_le_trigger [ctx_le_intros]: "ctx_le ctx (fst cc) \<Longrightarrow> ctx_le ctx (fst (snd (trigger U p cc)))"
proof -
  assume h: "ctx_le ctx (fst cc)"
  obtain msg ctx' b where m: "maybe_trigger U (fst cc) (btn p (snd cc)) = (msg, ctx', b)"
    by (metis prod_cases3)
  have "ctx_le (fst cc) ctx'"
    using m growing_ops(3) [of U, unfolded growing_op_def, rule_format, of "fst cc" "btn p (snd cc)"]
    by (auto simp: maybe_trigger_def Let_def ctx_le_refl split: button_type.splits prod.splits)
  with h show ?thesis
    by (auto simp: trigger_def m on_btn_def intro: ctx_le_trans split: button_pos.split)
qed

text \<open>A result of the state machine whose context has all requests of the given one.\<close>

definition step_le :: "event_ctx \<Rightarrow> step_result \<Rightarrow> bool" where
  "step_le ctx r \<longleftrightarrow> (case r of None \<Rightarrow> True | Some (_, _, cc) \<Rightarrow> ctx_le ctx (fst cc))"

lemma step_le_Some: "ctx_le ctx (fst cc) \<Longrightarrow> step_le ctx (Some (st, msg, cc))"
  by (cases cc) (simp add: step_le_def)

lemma step_le_trigger:
  "ctx_le ctx (fst cc) \<Longrightarrow> step_le ctx (let (msg, cc) = trigger U p cc in Some (st, msg, cc))"
  using ctx_le_trigger [of ctx cc U p] by (auto simp: step_le_def Let_def split: prod.splits)

lemma step_le_on_nothing: "step_le (fst cc) (on_nothing U be cc)"
  by (cases be) (simp_all add: on_nothing_def Let_def step_le_Some ctx_le_intros)

lemma step_le_on_one_down: "step_le (fst cc) (on_one_down U b be cc)"
proof (cases be)
  case (ButtonReleased x)
  then show ?thesis
    using step_le_trigger [of "fst cc" "make_clickable (other_pos b) cc" U "pos_of b" SNothing]
    by (auto simp: on_one_down_def Let_def step_le_Some ctx_le_intros)
next
  case (ButtonPressed x)
  then show ?thesis
    by (simp add: on_one_down_def Let_def step_le_Some ctx_le_intros) (simp add: step_le_def)
qed (simp_all add: on_one_down_def step_le_Some ctx_le_refl)

lemma step_le_on_both_down: "step_le (fst cc) (on_both_down U be cc)"
  by (cases be) (simp_all add: on_both_down_def Let_def step_le_Some ctx_le_intros)

lemma step_le_on_one_released: "step_le (fst cc) (on_one_released U b be cc)"
proof (cases be)
  case (ButtonReleased x)
  have c: "ctx_le (fst cc) (fst (make_clickable BRight (make_clickable BLeft cc)))"
    by (simp add: ctx_le_intros)
  show ?thesis
    unfolding on_one_released_def ButtonReleased
    using step_le_trigger [OF c, of U BMiddle SNothing] c
    by (simp add: Let_def step_le_Some ctx_le_refl)
qed (simp_all add: on_one_released_def step_le_Some ctx_le_intros)

lemma ctx_le_button_step:
  assumes "button_step U be cc = Some (st, msg, cc')"
  shows "ctx_le (fst cc) (fst cc')"
proof -
  have "step_le (fst cc) (button_step U be cc)"
    unfolding button_step_def
    by (auto simp: step_le_on_nothing step_le_on_one_down step_le_on_both_down step_le_on_one_released
        on_htc_needs_release_def step_le_Some ctx_le_refl split: button_state.split)
  with assms show ?thesis by (cases cc') (simp add: step_le_def)
qed

lemma ctx_le_show_state: "ctx_le ctx (fst cc) \<Longrightarrow> ctx_le ctx (fst (show_state st cc))"
  by (auto simp: show_state_def ctx_le_intros split: button_state.split physical_button.split)

lemma htc_got_triggered_props:
  assumes "htc_got_triggered U e ctx b = (t, ctx', b')"
  shows "ctx_le ctx ctx'" "t \<longleftrightarrow> fst (container_htc U e ctx b) = Some Confirmed"
    "b' = snd (snd (container_htc U e ctx b))"
  using assms ctx_le_container_htc [of ctx U e b]
  by (auto simp: htc_got_triggered_def Let_def split: prod.splits)

lemma ctx_le_handle_htc_expiration:
  assumes "handle_htc_expiration U e cc = (m, cc')"
  shows "ctx_le (fst cc) (fst cc')"
proof -
  obtain t1 ctx1 l where h1: "htc_got_triggered U e (fst cc) (left_btn (snd cc)) = (t1, ctx1, l)"
    by (metis prod_cases3)
  obtain t2 ctx2 mb where h2: "htc_got_triggered U e ctx1 (middle_btn (snd cc)) = (t2, ctx2, mb)"
    by (metis prod_cases3)
  obtain t3 ctx3 r where h3: "htc_got_triggered U e ctx2 (right_btn (snd cc)) = (t3, ctx3, r)"
    by (metis prod_cases3)
  have "ctx_le (fst cc) ctx1" "ctx_le (fst cc) ctx2" "ctx_le (fst cc) ctx3"
    using htc_got_triggered_props(1) [OF h1] htc_got_triggered_props(1) [OF h2]
      htc_got_triggered_props(1) [OF h3] ctx_le_trans by blast+
  then show ?thesis
    using assms by (auto simp: handle_htc_expiration_def Let_def h1 h2 h3 intro!: ctx_le_intros split: if_splits)
qed

lemma ctx_le_controller_event:
  assumes "controller_event U ctx e c = (m, ctx', c')"
  shows "ctx_le ctx ctx'"
proof (cases e)
  case (Button be)
  show ?thesis
  proof (cases "button_step U be (ctx, c)")
    case None
    with assms Button show ?thesis by (simp add: controller_event_def ctx_le_refl)
  next
    case (Some x)
    obtain st msg cc where x: "x = (st, msg, cc)" by (metis prod_cases3)
    have "ctx_le ctx (fst cc)"
      using ctx_le_button_step [OF Some [unfolded x]] by simp
    from ctx_le_show_state [OF this, of st] show ?thesis
      using assms Button Some x by (auto simp: controller_event_def Let_def split: prod.splits)
  qed
next
  case (Timer token)
  let ?c = "c\<lparr>ignore_btn_delay := map_option (handle_timer_token token) (ignore_btn_delay c)\<rparr>"
  show ?thesis
  proof (cases "handle_long_press_timer_token token ?c")
    case None
    with assms Timer have "handle_htc_expiration U (Timer token) (ctx, ?c) = (m, (ctx', c'))"
      by (simp add: controller_event_def Let_def)
    from ctx_le_handle_htc_expiration [OF this] show ?thesis by simp
  next
    case (Some p)
    with assms Timer show ?thesis by (simp add: controller_event_def Let_def ctx_le_refl)
  qed
qed (use assms in \<open>simp_all add: controller_event_def ctx_le_refl\<close>)

interpretation controller: ui_component "controller_event U" for U
proof
  fix ctx e c m ctx' c'
  assume h: "controller_event U ctx e c = (m, ctx', c')"
  show "paint_requested ctx \<Longrightarrow> paint_requested ctx'"
    and "length (timers ctx) \<le> MAX_TIMERS \<Longrightarrow> length (timers ctx') \<le> MAX_TIMERS"
    using ctx_le_controller_event [OF h] by (auto simp: ctx_le_def)
qed (simp add: controller_event_def)

interpretation mover: ui_component mover_event
proof
  fix ctx e m msg ctx' m'
  assume h: "mover_event ctx e m = (msg, ctx', m')"
  have "ctx_le ctx ctx'"
    using h ctx_le_request_timer [of ctx "get_auto_move_duration m"]
    by (auto simp: mover_event_def Let_def ctx_le_refl split: event.splits if_splits prod.splits)
  then show "paint_requested ctx \<Longrightarrow> paint_requested ctx'"
    and "length (timers ctx) \<le> MAX_TIMERS \<Longrightarrow> length (timers ctx') \<le> MAX_TIMERS"
    by (auto simp: ctx_le_def)
qed (simp add: mover_event_def)

interpretation child_controller: ui_component "child_event (controller_event U)" for U
  by (rule controller.child_is_component)

interpretation optional_controller: ui_component "option_event (controller_event U)" for U
  by (rule option_is_component [OF controller.ui_component_axioms])

subsection \<open>Frame lemmas\<close>

text \<open>What the operations on containers leave alone.\<close>

named_theorems frame

lemma on_btn_frame [frame, simp]:
  "c_state (snd (on_btn p f cc)) = c_state (snd cc)"
  "handle_middle_button (snd (on_btn p f cc)) = handle_middle_button (snd cc)"
  "ignore_btn_delay (snd (on_btn p f cc)) = ignore_btn_delay (snd cc)"
  by (auto simp: on_btn_def split: button_pos.split prod.split)

lemma set_pressed_frame [frame, simp]:
  "c_state (snd (set_pressed l m r cc)) = c_state (snd cc)"
  "handle_middle_button (snd (set_pressed l m r cc)) = handle_middle_button (snd cc)"
  "ignore_btn_delay (snd (set_pressed l m r cc)) = ignore_btn_delay (snd cc)"
  by (simp_all add: set_pressed_def)

lemma show_state_frame [frame, simp]:
  "handle_middle_button (snd (show_state st cc)) = handle_middle_button (snd cc)"
  "ignore_btn_delay (snd (show_state st cc)) = ignore_btn_delay (snd cc)"
  by (auto simp: show_state_def split: button_state.split physical_button.split)

lemma got_pressed_frame [frame, simp]:
  "c_state (snd (got_pressed U p cc)) = c_state (snd cc)"
  "handle_middle_button (snd (got_pressed U p cc)) = handle_middle_button (snd cc)"
  "ignore_btn_delay (snd (got_pressed U p cc)) = ignore_btn_delay (snd cc)"
  by (simp_all add: got_pressed_def reset_button_presses_def)

lemma make_clickable_frame [frame, simp]:
  "c_state (snd (make_clickable p cc)) = c_state (snd cc)"
  "handle_middle_button (snd (make_clickable p cc)) = handle_middle_button (snd cc)"
  "btn q (snd (make_clickable p cc)) = btn q (snd cc)"
  by (simp_all add: make_clickable_def btn_def split: button_pos.split)

lemma btn_on_btn: "btn q (snd (on_btn p f cc)) = (if p = q then snd (f (fst cc) (btn p (snd cc))) else btn q (snd cc))"
  by (cases p; cases q) (auto simp: on_btn_def btn_def split: prod.split)

text \<open>The kind of a button never changes by an event.\<close>

fun same_kind :: "button_type \<Rightarrow> button_type \<Rightarrow> bool" where
  "same_kind (TButton _) (TButton _) = True"
| "same_kind (THold _) (THold _) = True"
| "same_kind TNothing TNothing = True"
| "same_kind _ _ = False"

subsection \<open>The state machine, abstractly\<close>

text \<open>
  The transitions on the state alone, as the diagram in the comments of the code draws them;
  \<open>ignored\<close> tells that the second button is not clickable at the moment.
\<close>

fun spec_next :: "bool \<Rightarrow> button_state \<Rightarrow> button_event \<Rightarrow> button_state" where
  "spec_next ignored SNothing (ButtonPressed b) = OneDown b"
| "spec_next ignored (OneDown d) (ButtonReleased b) = (if b = d then SNothing else OneDown d)"
| "spec_next ignored (OneDown d) (ButtonPressed b) =
     (if b \<noteq> d \<and> \<not> ignored then BothDown else OneDown d)"
| "spec_next ignored BothDown (ButtonReleased b) = OneReleased b"
| "spec_next ignored (OneReleased u) (ButtonPressed b) = (if b = u then BothDown else OneReleased u)"
| "spec_next ignored (OneReleased u) (ButtonReleased b) = (if b \<noteq> u then SNothing else OneReleased u)"
| "spec_next ignored (HTCNeedsRelease n) (ButtonReleased b) = (if b = n then SNothing else HTCNeedsRelease n)"
| "spec_next ignored st _ = st"

definition is_ignored :: "controller \<Rightarrow> button_event \<Rightarrow> bool" where
  "is_ignored c be = (case (ignore_btn_delay c, be) of
      (Some d, ButtonPressed b) \<Rightarrow> ignore_button b d | _ \<Rightarrow> False)"

lemma button_step_state:
  "(case button_step U be (ctx, c) of None \<Rightarrow> c_state c | Some (st, _, _) \<Rightarrow> st) =
     spec_next (is_ignored c be) (c_state c) be"
proof (cases "c_state c")
  case SNothing
  then show ?thesis by (cases be) (simp_all add: button_step_def on_nothing_def Let_def)
next
  case (OneDown d)
  then show ?thesis
    by (cases be) (auto simp: button_step_def on_one_down_def Let_def is_ignored_def
        split: option.split prod.split)
next
  case BothDown
  then show ?thesis by (cases be) (simp_all add: button_step_def on_both_down_def Let_def)
next
  case (OneReleased u)
  then show ?thesis
    by (cases be) (auto simp: button_step_def on_one_released_def Let_def split: prod.split)
next
  case (HTCNeedsRelease n)
  then show ?thesis by (cases be) (auto simp: button_step_def on_htc_needs_release_def)
qed

lemma controller_event_state:
  "c_state (snd (snd (controller_event U ctx (Button be) c))) = spec_next (is_ignored c be) (c_state c) be"
  using button_step_state [where U = U and be = be and ctx = ctx and c = c]
  by (auto simp: controller_event_def Let_def split: option.splits prod.splits)

text \<open>A sequence of events, each with the environment at its time.\<close>

fun run :: "(ui_env \<times> event) list \<Rightarrow> event_ctx \<times> controller \<Rightarrow> controller_msg option list \<times> event_ctx \<times> controller" where
  "run [] cc = ([], cc)"
| "run ((U, e) # es) cc =
     (let (msg, cc) = controller_event U (fst cc) e (snd cc); (msgs, cc) = run es cc in (msg # msgs, cc))"

lemma physical_button_neq [simp]: "PRight \<noteq> x \<longleftrightarrow> x = PLeft" "PLeft \<noteq> x \<longleftrightarrow> x = PRight"
  by (cases x; simp)+

definition other :: "physical_button \<Rightarrow> physical_button" where
  "other b = (case b of PLeft \<Rightarrow> PRight | PRight \<Rightarrow> PLeft)"

text \<open>
  C25.  The controller never gets stuck: whatever state it is in, the releases of the two buttons, in
  any order, bring it back to the state in which nothing is pressed.
\<close>

theorem controller_recovers:
  "c_state (snd (snd (run [(U1, Button (ButtonReleased b)), (U2, Button (ButtonReleased (other b)))] cc))) =
     SNothing"
proof -
  obtain m1 ctx1 c1 where e1: "controller_event U1 (fst cc) (Button (ButtonReleased b)) (snd cc) = (m1, ctx1, c1)"
    by (metis prod_cases3)
  obtain m2 ctx2 c2 where e2: "controller_event U2 ctx1 (Button (ButtonReleased (other b))) c1 = (m2, ctx2, c2)"
    by (metis prod_cases3)
  have s1: "c_state c1 = spec_next False (c_state (snd cc)) (ButtonReleased b)"
    using controller_event_state [of U1 "fst cc" "ButtonReleased b" "snd cc"]
    by (simp add: e1 is_ignored_def split: option.splits)
  have s2: "c_state c2 = spec_next False (c_state c1) (ButtonReleased (other b))"
    using controller_event_state [of U2 ctx1 "ButtonReleased (other b)" c1]
    by (simp add: e2 is_ignored_def split: option.splits)
  have "c_state c2 = SNothing"
    unfolding s2 s1 by (cases "c_state (snd cc)"; cases b) (auto simp: other_def split: physical_button.split)
  then show ?thesis by (simp add: e1 e2 Let_def)
qed

subsection \<open>Clicks\<close>

text \<open>What the release of a button that was pressed at a given time reports.\<close>

definition click_msg :: "ui_env \<Rightarrow> ui_env \<Rightarrow> button_container \<Rightarrow> controller_msg option" where
  "click_msg U1 U2 b = (case bc_type b of
      TButton _ \<Rightarrow> Some (Triggered (bc_pos b)
        (to_millis (saturating_duration_since (now U2) (now U1)) > long_press_ms b))
    | THold _ \<Rightarrow> Some (ReleasedWithoutLongPress (bc_pos b))
    | TNothing \<Rightarrow> None)"

text \<open>The parts of a container that a click looks at, and that no event changes.\<close>

definition same_button :: "button_container \<Rightarrow> button_container \<Rightarrow> bool" where
  "same_button a b \<longleftrightarrow> bc_pos a = bc_pos b \<and> long_press_ms a = long_press_ms b \<and>
     same_kind (bc_type a) (bc_type b)"

lemma same_kind_refl [simp]: "same_kind t t"
  by (cases t) simp_all

lemma same_kind_trans: "same_kind a b \<Longrightarrow> same_kind b c \<Longrightarrow> same_kind a c"
  by (cases a; cases b; cases c; simp)

lemma same_button_refl [simp]: "same_button b b"
  by (simp add: same_button_def)

lemma same_button_trans: "same_button a b \<Longrightarrow> same_button b c \<Longrightarrow> same_button a c"
  using same_kind_trans by (auto simp: same_button_def)

lemma container_ops_same:
  "same_button b (snd (container_set_pressed p ctx b))"
  "same_button b (snd (snd (container_htc U e ctx b)))"
  "same_button b (snd (container_got_pressed U ctx b))"
  by (auto simp: same_button_def container_set_pressed_def container_htc_def container_got_pressed_def
      Let_def split: button_type.split prod.split)

lemma container_ops_since:
  "pressed_since (snd (container_set_pressed p ctx b)) = pressed_since b"
  "pressed_since (snd (snd (container_htc U e ctx b))) = pressed_since b"
  "pressed_since (snd (container_got_pressed U ctx b)) = Some (now U)"
  by (auto simp: container_set_pressed_def container_htc_def container_got_pressed_def
      Let_def split: button_type.split prod.split)

lemma maybe_trigger_msg:
  assumes "same_button b b'" "pressed_since b' = Some (now U1)"
  shows "fst (maybe_trigger U2 ctx b') = click_msg U1 U2 b"
proof -
  have *: "bc_pos (snd (hold_ended U2 ctx b')) = bc_pos b'"
    using container_ops_same(2) [of b' U2 "Button HoldEnded" ctx] by (simp add: hold_ended_def same_button_def)
  show ?thesis
    using assms * by (cases "bc_type b"; cases "bc_type b'")
      (auto simp: maybe_trigger_def click_msg_def same_button_def Let_def split: prod.splits)
qed

lemma btn_frame:
  "btn p (c\<lparr>c_state := st\<rparr>) = btn p c" "btn p (c\<lparr>ignore_btn_delay := d\<rparr>) = btn p c"
  by (simp_all add: btn_def split: button_pos.split)

lemma btn_set_pressed:
  "same_button (btn q (snd cc)) (btn q (snd (set_pressed l m r cc)))"
  "pressed_since (btn q (snd (set_pressed l m r cc))) = pressed_since (btn q (snd cc))"
  by (cases q; simp add: set_pressed_def btn_on_btn container_ops_same container_ops_since)+

lemma btn_show_state:
  "same_button (btn q (snd cc)) (btn q (snd (show_state st cc)))"
  "pressed_since (btn q (snd (show_state st cc))) = pressed_since (btn q (snd cc))"
  by (auto simp: show_state_def btn_set_pressed split: button_state.split physical_button.split)

lemma btn_reset: "btn p (reset_button_presses c) = container_reset (btn p c)"
  by (cases p) (simp_all add: reset_button_presses_def btn_def)

lemma btn_got_pressed:
  "same_button (btn q (snd cc)) (btn q (snd (got_pressed U p cc)))"
  "pressed_since (btn q (snd (got_pressed U p cc))) = (if q = p then Some (now U) else None)"
  using container_ops_same(3) [of "container_reset (btn q (snd cc))" U "fst cc"]
  by (auto simp: got_pressed_def btn_on_btn btn_reset container_ops_since container_reset_def same_button_def)

lemma btn_ignore_press [simp]: "btn q (snd (ignore_press b cc)) = btn q (snd cc)"
  by (auto simp: ignore_press_def btn_frame split: option.split prod.split)

lemma handle_middle_ignore_press [simp]:
  "handle_middle_button (snd (ignore_press b cc)) = handle_middle_button (snd cc)"
  by (auto simp: ignore_press_def split: option.split prod.split)

lemma btn_hold:
  "same_button (btn q (snd cc)) (btn q (snd (on_btn p (hold_started U) cc)))"
  "same_button (btn q (snd cc)) (btn q (snd (on_btn p (hold_ended U) cc)))"
  "pressed_since (btn q (snd (on_btn p (hold_started U) cc))) = pressed_since (btn q (snd cc))"
  "pressed_since (btn q (snd (on_btn p (hold_ended U) cc))) = pressed_since (btn q (snd cc))"
  by (auto simp: btn_on_btn hold_started_def hold_ended_def container_ops_same container_ops_since)

lemma btn_middle_hold_started:
  "same_button (btn q (snd cc)) (btn q (snd (middle_hold_started U cc)))"
  "pressed_since (btn q (snd (middle_hold_started U cc))) = pressed_since (btn q (snd cc))"
  unfolding middle_hold_started_def by (meson btn_hold same_button_trans, simp add: btn_hold)

text \<open>One event of the state machine, seen through the buttons and the state.\<close>

lemma controller_event_Some:
  assumes "button_step U be (ctx, c) = Some (st, msg, cc)"
  shows "controller_event U ctx (Button be) c =
    (msg, fst (show_state st cc), (snd (show_state st cc))\<lparr>c_state := st\<rparr>)"
  using assms by (auto simp: controller_event_def Let_def split: prod.splits)

lemma is_ignored_show [simp]: "is_ignored (c\<lparr>c_state := st\<rparr>) be = is_ignored c be"
  by (simp add: is_ignored_def)

lemma press_first:
  assumes "c_state c = SNothing"
  shows "\<exists>ctx' c'. controller_event U ctx (Button (ButtonPressed b)) c = (Some (Pressed (pos_of b)), ctx', c') \<and>
    c_state c' = OneDown b \<and> handle_middle_button c' = handle_middle_button c \<and>
    (\<forall>q. same_button (btn q c) (btn q c')) \<and> pressed_since (btn (pos_of b) c') = Some (now U) \<and>
    (\<forall>x. is_ignored c' (ButtonPressed x) = is_ignored c (ButtonPressed x))"
proof -
  let ?cc = "on_btn (pos_of b) (hold_started U) (got_pressed U (pos_of b) (ignore_press b (ctx, c)))"
  have same: "same_button (btn q c) (btn q (snd (show_state (OneDown b) ?cc)))" for q
    using btn_got_pressed(1) [of q "ignore_press b (ctx, c)" U "pos_of b"] btn_hold(1) btn_show_state(1)
      same_button_trans by (metis btn_ignore_press snd_conv)
  have since: "pressed_since (btn (pos_of b) (snd (show_state (OneDown b) ?cc))) = Some (now U)"
    by (simp add: btn_show_state btn_hold btn_got_pressed)
  have ign: "is_ignored (snd (show_state (OneDown b) ?cc)) (ButtonPressed x) = is_ignored c (ButtonPressed x)" for x
    by (auto simp: is_ignored_def ignore_press_def handle_button_press_def ignore_button_def Let_def
        split: option.splits prod.splits physical_button.splits)
  have "button_step U (ButtonPressed b) (ctx, c) = Some (OneDown b, Some (Pressed (pos_of b)), ?cc)"
    using assms by (simp add: button_step_def on_nothing_def Let_def)
  from controller_event_Some [OF this] show ?thesis
    using same since ign by (simp add: btn_frame)
qed

lemma release_one:
  assumes "c_state c = OneDown b" "same_button b0 (btn (pos_of b) c)" "pressed_since (btn (pos_of b) c) = Some (now U1)"
  shows "\<exists>ctx' c'. controller_event U2 ctx (Button (ButtonReleased b)) c = (click_msg U1 U2 b0, ctx', c') \<and>
    c_state c' = SNothing"
proof -
  have m: "fst (trigger U2 (pos_of b) (make_clickable (other_pos b) (ctx, c))) = click_msg U1 U2 b0"
    using maybe_trigger_msg [OF assms(2,3)] by (auto simp: trigger_def Let_def split: prod.splits)
      (metis fst_conv)
  show ?thesis
    using assms(1) m by (auto simp: controller_event_def button_step_def on_one_down_def Let_def split: prod.splits)
qed

lemma press_second:
  assumes "c_state c = OneDown a" "handle_middle_button c" "\<not> is_ignored c (ButtonPressed (other a))"
  shows "\<exists>ctx' c'. controller_event U ctx (Button (ButtonPressed (other a))) c = (Some (Pressed BMiddle), ctx', c') \<and>
    c_state c' = BothDown \<and> handle_middle_button c' \<and> same_button (btn BMiddle c) (btn BMiddle c') \<and>
    pressed_since (btn BMiddle c') = Some (now U)"
proof -
  let ?cc = "middle_hold_started U (got_pressed U BMiddle (ctx, c))"
  have o: "other a \<noteq> a" by (cases a) (simp_all add: other_def)
  have n: "\<not> (case ignore_btn_delay c of None \<Rightarrow> False | Some d \<Rightarrow> ignore_button (other a) d)"
    using assms(3) by (auto simp: is_ignored_def split: option.splits)
  have same: "same_button (btn BMiddle c) (btn BMiddle (snd (show_state BothDown ?cc)))"
    using btn_got_pressed(1) [of BMiddle "(ctx, c)" U BMiddle] btn_middle_hold_started(1) btn_show_state(1)
      same_button_trans by (metis snd_conv)
  have since: "pressed_since (btn BMiddle (snd (show_state BothDown ?cc))) = Some (now U)"
    by (simp add: btn_show_state btn_middle_hold_started btn_got_pressed)
  have hm: "handle_middle_button (snd (show_state BothDown ?cc))"
    using assms(2) by (simp add: middle_hold_started_def)
  have "button_step U (ButtonPressed (other a)) (ctx, c) = Some (BothDown, Some (Pressed BMiddle), ?cc)"
    using assms(1,2) o n by (simp add: button_step_def on_one_down_def Let_def)
  from controller_event_Some [OF this] show ?thesis
    using same since hm by (simp add: btn_frame)
qed

lemma release_first_of_two:
  assumes "c_state c = BothDown" "handle_middle_button c"
  shows "\<exists>ctx' c'. controller_event U ctx (Button (ButtonReleased b)) c = (None, ctx', c') \<and>
    c_state c' = OneReleased b \<and> handle_middle_button c' \<and> same_button (btn BMiddle c) (btn BMiddle c') \<and>
    pressed_since (btn BMiddle c') = pressed_since (btn BMiddle c)"
proof -
  let ?cc = "on_btn BMiddle (hold_ended U) (ctx, c)"
  have "same_button (btn BMiddle c) (btn BMiddle (snd (show_state (OneReleased b) ?cc)))"
    using btn_hold(2) [of BMiddle "(ctx, c)" BMiddle U] btn_show_state(1) same_button_trans
    by (metis snd_conv)
  moreover have "pressed_since (btn BMiddle (snd (show_state (OneReleased b) ?cc))) = pressed_since (btn BMiddle c)"
    by (simp add: btn_show_state btn_hold)
  moreover have "handle_middle_button (snd (show_state (OneReleased b) ?cc))"
    using assms(2) by simp
  moreover have "button_step U (ButtonReleased b) (ctx, c) = Some (OneReleased b, None, ?cc)"
    using assms by (simp add: button_step_def on_both_down_def Let_def)
  note controller_event_Some [OF this]
  ultimately show ?thesis
    by (simp add: btn_frame)
qed

lemma release_second_of_two:
  assumes "c_state c = OneReleased b" "handle_middle_button c"
    "same_button b0 (btn BMiddle c)" "pressed_since (btn BMiddle c) = Some (now U1)"
  shows "\<exists>ctx' c'. controller_event U2 ctx (Button (ButtonReleased (other b))) c = (click_msg U1 U2 b0, ctx', c') \<and>
    c_state c' = SNothing"
proof -
  let ?cc = "make_clickable BRight (make_clickable BLeft (ctx, c))"
  have o: "other b \<noteq> b" by (cases b) (simp_all add: other_def)
  have m: "fst (trigger U2 BMiddle ?cc) = click_msg U1 U2 b0"
    using maybe_trigger_msg [OF assms(3,4)] by (auto simp: trigger_def Let_def split: prod.splits)
      (metis fst_conv)
  show ?thesis
    using assms(1,2) o m
    by (auto simp: controller_event_def button_step_def on_one_released_def Let_def split: prod.splits)
qed

text \<open>
  A click: pressing one button and releasing it again reports the press and then, for an
  ordinary button, that it was triggered, with the long-press flag set exactly if it was held for more
  than its limit; for a hold-to-confirm button that it was released too early; for no button nothing.
  The controller is idle again after it.
\<close>

theorem click_messages:
  assumes "c_state c = SNothing"
  shows "\<exists>cc. run [(U1, Button (ButtonPressed b)), (U2, Button (ButtonReleased b))] (ctx, c) =
      ([Some (Pressed (pos_of b)), click_msg U1 U2 (btn (pos_of b) c)], cc) \<and> c_state (snd cc) = SNothing"
proof -
  obtain ctx1 c1 where 1: "controller_event U1 ctx (Button (ButtonPressed b)) c = (Some (Pressed (pos_of b)), ctx1, c1)"
    "c_state c1 = OneDown b" "same_button (btn (pos_of b) c) (btn (pos_of b) c1)"
    "pressed_since (btn (pos_of b) c1) = Some (now U1)"
    using press_first [OF assms, of U1 ctx b] by blast
  obtain ctx2 c2 where 2: "controller_event U2 ctx1 (Button (ButtonReleased b)) c1 =
      (click_msg U1 U2 (btn (pos_of b) c), ctx2, c2)" "c_state c2 = SNothing"
    using release_one [OF 1(2-4)] by blast
  show ?thesis
    using 1 2 by simp
qed

text \<open>An example: an icon on the left, text to hold on the right, and an environment.\<close>

definition example_layout :: "button_details option \<Rightarrow> button_layout" where
  "example_layout m =
     \<lparr>btn_left = Some \<lparr>is_icon = True, details_duration = None, details_send_long_press = False\<rparr>,
      btn_middle = m,
      btn_right = Some \<lparr>is_icon = False, details_duration = Some (from_millis 1000),
        details_send_long_press = False\<rparr>\<rparr>"

definition example_ui :: "u32 \<Rightarrow> ui_env" where
  "example_ui t =
     \<lparr>now = Instant t, lerp_at = \<lambda>f t e d. if e < d then f else t,
      seek_offset = \<lambda>_ _ _ _. duration_ZERO, animation_disabled = False\<rparr>"

lemma example_controller:
  "\<exists>c. controller_new (example_layout m) = (Inr c :: (controller, unit) result) \<and> c_state c = SNothing \<and>
     (handle_middle_button c \<longleftrightarrow> m \<noteq> None) \<and> ignore_btn_delay c = None \<and>
     (\<exists>b. bc_type (btn BLeft c) = TButton b) \<and> (\<exists>h. bc_type (btn BRight c) = THold h) \<and>
     (\<forall>q. bc_pos (btn q c) = q)"
  if "\<forall>d. m = Some d \<longrightarrow> details_duration d = None"
  using that
  by (cases m) (auto simp: controller_new_def container_new_def from_button_details_def example_layout_def
      btn_def split: button_pos.split)

theorem click_messages_witness:
  "\<exists>c cc. controller_new (example_layout None) = (Inr c :: (controller, unit) result) \<and>
     run [(example_ui 5, Button (ButtonPressed PLeft)), (example_ui 2005, Button (ButtonReleased PLeft))] (ctx_new, c) =
      ([Some (Pressed BLeft), click_msg (example_ui 5) (example_ui 2005) (btn BLeft c)], cc) \<and>
     c_state (snd cc) = SNothing"
proof -
  obtain c where c: "controller_new (example_layout None) = (Inr c :: (controller, unit) result)" "c_state c = SNothing"
    using example_controller [of None] by auto
  from click_messages [OF c(2), of "example_ui 5" PLeft "example_ui 2005" ctx_new] c(1) show ?thesis
    by (auto simp: pos_of_def)
qed

text \<open>
  A middle click: with a middle button configured, pressing both buttons, in either order, and
  releasing them, in either order, reports the press of the first button, the press of the middle
  button, and at the last release that the middle button was triggered, measured from the moment both
  were down.  Neither side button is ever triggered by it.
\<close>

theorem middle_click_messages:
  assumes "c_state c = SNothing" "handle_middle_button c" "\<not> is_ignored c (ButtonPressed (other a))"
  shows "\<exists>cc. run [(U1, Button (ButtonPressed a)), (U2, Button (ButtonPressed (other a))),
        (U3, Button (ButtonReleased b)), (U4, Button (ButtonReleased (other b)))] (ctx, c) =
      ([Some (Pressed (pos_of a)), Some (Pressed BMiddle), None, click_msg U2 U4 (btn BMiddle c)], cc) \<and>
    c_state (snd cc) = SNothing"
proof -
  obtain ctx1 c1 where 1: "controller_event U1 ctx (Button (ButtonPressed a)) c = (Some (Pressed (pos_of a)), ctx1, c1)"
    "c_state c1 = OneDown a" "handle_middle_button c1" "same_button (btn BMiddle c) (btn BMiddle c1)"
    "\<not> is_ignored c1 (ButtonPressed (other a))"
    using press_first [OF assms(1), of U1 ctx a] assms(2,3) by blast
  obtain ctx2 c2 where 2: "controller_event U2 ctx1 (Button (ButtonPressed (other a))) c1 = (Some (Pressed BMiddle), ctx2, c2)"
    "c_state c2 = BothDown" "handle_middle_button c2" "same_button (btn BMiddle c1) (btn BMiddle c2)"
    "pressed_since (btn BMiddle c2) = Some (now U2)"
    using press_second [OF 1(2,3,5)] by blast
  obtain ctx3 c3 where 3: "controller_event U3 ctx2 (Button (ButtonReleased b)) c2 = (None, ctx3, c3)"
    "c_state c3 = OneReleased b" "handle_middle_button c3" "same_button (btn BMiddle c2) (btn BMiddle c3)"
    "pressed_since (btn BMiddle c3) = Some (now U2)"
    using release_first_of_two [OF 2(2,3)] 2(5) by metis
  have s: "same_button (btn BMiddle c) (btn BMiddle c3)"
    using 1(4) 2(4) 3(4) same_button_trans by blast
  obtain ctx4 c4 where 4: "controller_event U4 ctx3 (Button (ButtonReleased (other b))) c3 =
      (click_msg U2 U4 (btn BMiddle c), ctx4, c4)" "c_state c4 = SNothing"
    using release_second_of_two [OF 3(2,3) s 3(5)] by blast
  show ?thesis
    using 1 2 3 4 by simp
qed

theorem middle_click_messages_witness:
  "\<exists>c cc. controller_new (example_layout (Some \<lparr>is_icon = False, details_duration = None,
        details_send_long_press = False\<rparr>)) = (Inr c :: (controller, unit) result) \<and>
     run [(example_ui 5, Button (ButtonPressed PRight)), (example_ui 8, Button (ButtonPressed PLeft)),
        (example_ui 99, Button (ButtonReleased PLeft)), (example_ui 100, Button (ButtonReleased PRight))] (ctx_new, c) =
      ([Some (Pressed BRight), Some (Pressed BMiddle), None,
        click_msg (example_ui 8) (example_ui 100) (btn BMiddle c)], cc) \<and> c_state (snd cc) = SNothing"
proof -
  let ?m = "Some \<lparr>is_icon = False, details_duration = None, details_send_long_press = False\<rparr>"
  obtain c where c: "controller_new (example_layout ?m) = (Inr c :: (controller, unit) result)" "c_state c = SNothing"
    "handle_middle_button c" "ignore_btn_delay c = None"
    using example_controller [of ?m] by auto
  have "\<not> is_ignored c (ButtonPressed (other PRight))"
    using c(4) by (simp add: is_ignored_def)
  from middle_click_messages [OF c(2,3) this, of "example_ui 5" "example_ui 8" "example_ui 99" PLeft
      "example_ui 100" ctx_new] c(1) show ?thesis
    by (auto simp: other_def pos_of_def)
qed

text \<open>
  Without a middle button, pressing both side buttons reports each of the two as triggered when
  it is released, at once and whatever kind of button it is.  A hold-to-confirm button that is pressed
  together with the other one is so triggered without being held for its duration.
\<close>

theorem two_button_press_triggers:
  assumes "c_state c = SNothing" "\<not> handle_middle_button c" "\<not> is_ignored c (ButtonPressed (other a))"
  shows "\<exists>cc. run [(U1, Button (ButtonPressed a)), (U2, Button (ButtonPressed (other a))),
        (U3, Button (ButtonReleased b)), (U4, Button (ButtonReleased (other b)))] (ctx, c) =
      ([Some (Pressed (pos_of a)), Some (Pressed (pos_of (other a))), Some (Triggered (pos_of b) False),
        Some (Triggered (pos_of (other b)) False)], cc) \<and> c_state (snd cc) = SNothing"
proof -
  have o: "other x \<noteq> x" for x by (cases x) (simp_all add: other_def)
  obtain ctx1 c1 where 1: "controller_event U1 ctx (Button (ButtonPressed a)) c = (Some (Pressed (pos_of a)), ctx1, c1)"
    "c_state c1 = OneDown a" "\<not> handle_middle_button c1" "\<not> is_ignored c1 (ButtonPressed (other a))"
    using press_first [OF assms(1), of U1 ctx a] assms(2,3) by blast
  have "\<not> (case ignore_btn_delay c1 of None \<Rightarrow> False | Some d \<Rightarrow> ignore_button (other a) d)"
    using 1(4) by (auto simp: is_ignored_def split: option.splits)
  then have "button_step U2 (ButtonPressed (other a)) (ctx1, c1) =
      Some (BothDown, Some (Pressed (pos_of (other a))), got_pressed U2 (pos_of (other a)) (ctx1, c1))"
    using 1(2,3) o by (simp add: button_step_def on_one_down_def Let_def)
  from controller_event_Some [OF this] obtain ctx2 c2 where
    2: "controller_event U2 ctx1 (Button (ButtonPressed (other a))) c1 = (Some (Pressed (pos_of (other a))), ctx2, c2)"
    "c_state c2 = BothDown" "\<not> handle_middle_button c2"
    using 1(3) by auto
  have "button_step U3 (ButtonReleased b) (ctx2, c2) =
      Some (OneReleased b, Some (Triggered (pos_of b) False), on_btn BMiddle (hold_ended U3) (ctx2, c2))"
    using 2(2,3) by (simp add: button_step_def on_both_down_def Let_def)
  from controller_event_Some [OF this] obtain ctx3 c3 where
    3: "controller_event U3 ctx2 (Button (ButtonReleased b)) c2 = (Some (Triggered (pos_of b) False), ctx3, c3)"
    "c_state c3 = OneReleased b" "\<not> handle_middle_button c3"
    using 2(3) by auto
  have "button_step U4 (ButtonReleased (other b)) (ctx3, c3) =
      Some (SNothing, Some (Triggered (pos_of (other b)) False),
        make_clickable BRight (make_clickable BLeft (ctx3, c3)))"
    using 3(2,3) o by (simp add: button_step_def on_one_released_def Let_def)
  from controller_event_Some [OF this] obtain ctx4 c4 where
    4: "controller_event U4 ctx3 (Button (ButtonReleased (other b))) c3 =
      (Some (Triggered (pos_of (other b)) False), ctx4, c4)" "c_state c4 = SNothing"
    by auto
  show ?thesis using 1 2 3 4 by simp
qed

theorem two_button_press_triggers_witness:
  "\<exists>c cc h. controller_new (example_layout None) = (Inr c :: (controller, unit) result) \<and>
     bc_type (btn BRight c) = THold h \<and>
     run [(example_ui 5, Button (ButtonPressed PRight)), (example_ui 6, Button (ButtonPressed PLeft)),
        (example_ui 7, Button (ButtonReleased PRight)), (example_ui 8, Button (ButtonReleased PLeft))] (ctx_new, c) =
      ([Some (Pressed BRight), Some (Pressed BLeft), Some (Triggered BRight False),
        Some (Triggered BLeft False)], cc)"
proof -
  obtain c h where c: "controller_new (example_layout None) = (Inr c :: (controller, unit) result)" "c_state c = SNothing"
    "\<not> handle_middle_button c" "ignore_btn_delay c = None" "bc_type (btn BRight c) = THold h"
    using example_controller [of None] by auto
  have "\<not> is_ignored c (ButtonPressed (other PRight))"
    using c(4) by (simp add: is_ignored_def)
  from two_button_press_triggers [OF c(2,3) this, of "example_ui 5" "example_ui 6" "example_ui 7" PRight
      "example_ui 8" ctx_new] c(1,5) show ?thesis
    by (auto simp: other_def pos_of_def)
qed

subsection \<open>Holding and highlighting\<close>

lemma trigger_on_hold:
  assumes "fst (trigger U q cc) = Some (Triggered p l)" "bc_type (btn p (snd cc)) = THold h"
    "bc_pos (btn q (snd cc)) = q"
  shows False
  using assms by (auto simp: trigger_def maybe_trigger_def Let_def split: prod.splits button_type.splits)

lemma button_step_triggers_hold:
  assumes "button_step U be (ctx, c) = Some (st, Some (Triggered p l), cc)"
    and h: "bc_type (btn p c) = THold h" and pos: "\<forall>q. bc_pos (btn q c) = q"
  shows "\<not> l \<and> \<not> handle_middle_button c \<and>
    (\<exists>b. p = pos_of b \<and> be = ButtonReleased b \<and> (c_state c = BothDown \<or> c_state c = OneReleased (other b)))"
proof (cases "c_state c")
  case (OneDown d)
  have "fst (trigger U (pos_of d) (make_clickable (other_pos d) (ctx, c))) \<noteq> Some (Triggered p l)"
    using trigger_on_hold [of U "pos_of d" "make_clickable (other_pos d) (ctx, c)" p l h] h pos by auto
  then show ?thesis
    using assms(1) OneDown
    by (auto simp: button_step_def on_one_down_def Let_def split: button_event.splits if_splits prod.splits)
next
  case (OneReleased u)
  let ?cc = "make_clickable BRight (make_clickable BLeft (ctx, c))"
  have "fst (trigger U BMiddle ?cc) \<noteq> Some (Triggered p l)"
    using trigger_on_hold [of U BMiddle ?cc p l h] h pos by auto
  moreover have "u = other x" if "x \<noteq> u" for x
    using that by (cases x; cases u; simp add: other_def)
  ultimately show ?thesis
    using assms(1) OneReleased
    by (auto simp: button_step_def on_one_released_def Let_def split: button_event.splits if_splits prod.splits)
qed (use assms(1) in \<open>auto simp: button_step_def on_nothing_def on_both_down_def on_htc_needs_release_def
    Let_def split: button_event.splits if_splits\<close>)

lemma container_htc_confirmed:
  "fst (container_htc U e ctx b) = Some Confirmed \<longleftrightarrow>
     (\<exists>h. bc_type b = THold h \<and> e = Timer ANIM_FRAME_TIMER \<and> is_completely_grown U (htc_loader h) (now U))"
  using htc_confirmed_iff by (auto simp: container_htc_def split: button_type.split prod.split) (metis fst_conv)+

lemma handle_htc_expiration_triggers:
  assumes "handle_htc_expiration U e cc = (Some (Triggered p l), cc')"
  shows "l \<and> (\<exists>h. bc_type (btn p (snd cc)) = THold h \<and> e = Timer ANIM_FRAME_TIMER \<and>
    is_completely_grown U (htc_loader h) (now U))"
proof -
  obtain t1 ctx1 lb where h1: "htc_got_triggered U e (fst cc) (left_btn (snd cc)) = (t1, ctx1, lb)"
    by (metis prod_cases3)
  obtain t2 ctx2 mb where h2: "htc_got_triggered U e ctx1 (middle_btn (snd cc)) = (t2, ctx2, mb)"
    by (metis prod_cases3)
  obtain t3 ctx3 r where h3: "htc_got_triggered U e ctx2 (right_btn (snd cc)) = (t3, ctx3, r)"
    by (metis prod_cases3)
  note t = htc_got_triggered_props(2) [OF h1] htc_got_triggered_props(2) [OF h2]
    htc_got_triggered_props(2) [OF h3]
  show ?thesis
    using assms by (auto simp: handle_htc_expiration_def Let_def h1 h2 h3 t container_htc_confirmed btn_def
        split: if_splits)
qed

text \<open>
  C5.  Safety of holding: a controller whose containers carry their own positions reports a
  hold-to-confirm button as triggered in two cases only.  Either the animation of its loader ticked
  and the loader has grown to its maximum, and the message says it was held; or there is no middle
  button, both side buttons were down together, and this one is released.
\<close>

theorem hold_triggers_only:
  assumes "controller_event U ctx e c = (Some (Triggered p l), ctx', c')"
    and "bc_type (btn p c) = THold h" and "\<forall>q. bc_pos (btn q c) = q"
  shows "(l \<and> e = Timer ANIM_FRAME_TIMER \<and> is_completely_grown U (htc_loader h) (now U)) \<or>
    (\<not> l \<and> \<not> handle_middle_button c \<and>
     (\<exists>b. p = pos_of b \<and> e = Button (ButtonReleased b) \<and>
        (c_state c = BothDown \<or> c_state c = OneReleased (other b))))"
proof (cases e)
  case (Button be)
  then obtain st cc where "button_step U be (ctx, c) = Some (st, Some (Triggered p l), cc)"
    using assms(1) by (auto simp: controller_event_def Let_def split: option.splits prod.splits)
  from button_step_triggers_hold [OF this assms(2,3)] Button show ?thesis by blast
next
  case (Timer token)
  let ?c = "c\<lparr>ignore_btn_delay := map_option (handle_timer_token token) (ignore_btn_delay c)\<rparr>"
  have "handle_htc_expiration U e (ctx, ?c) = (Some (Triggered p l), ctx', c')"
    using assms(1) Timer by (auto simp: controller_event_def Let_def split: option.splits)
  from handle_htc_expiration_triggers [OF this] assms(2) show ?thesis
    by (auto simp: btn_frame)
qed (use assms(1) in \<open>simp_all add: controller_event_def\<close>)

text \<open>An example in which the right button has been held for its duration of one second.\<close>

definition held_controller :: controller where
  "held_controller =
     (let b = \<lparr>bc_pos = BLeft, bc_type = TNothing, pressed_since = None, long_press_ms = 1000,
               long_pressed_timer = None, send_long_press = False\<rparr>;
          a = animation_new LOADER_MIN LOADER_MAX (from_millis 1000) (Instant 5);
          h = \<lparr>htc_loader = loader_new\<lparr>ld_state := LGrowing a\<rparr>\<rparr> in
      \<lparr>left_btn = b, middle_btn = b\<lparr>bc_pos := BMiddle\<rparr>,
       right_btn = b\<lparr>bc_pos := BRight, bc_type := THold h, pressed_since := Some (Instant 5)\<rparr>,
       c_state = OneDown PRight, ignore_btn_delay = None, handle_middle_button = False, pad_clear = False\<rparr>)"

lemma held_controller_triggers:
  "\<exists>ctx' c' h. controller_event (example_ui 1005) ctx_new (Timer ANIM_FRAME_TIMER) held_controller =
     (Some (Triggered BRight True), ctx', c') \<and> bc_type (btn BRight held_controller) = THold h \<and>
   (\<forall>q. bc_pos (btn q held_controller) = q)"
proof -
  have d: "\<not> anim_elapsed (animation_new LOADER_MIN LOADER_MAX (from_millis 1000) (Instant 5)) (Instant 1005) <
      from_millis 1000"
    by code_simp
  obtain h where h: "bc_type (btn BRight held_controller) = THold h"
    "h = \<lparr>htc_loader = loader_new\<lparr>ld_state :=
      LGrowing (animation_new LOADER_MIN LOADER_MAX (from_millis 1000) (Instant 5))\<rparr>\<rparr>"
    by (simp add: held_controller_def btn_def Let_def)
  have g: "is_completely_grown (example_ui 1005) (htc_loader h) (Instant 1005)"
    using d by (simp add: h(2) is_completely_grown_def loader_progress_def loader_animation_def anim_value_def
        example_ui_def animation_new_def)
  obtain m cx b where hb: "container_htc (example_ui 1005) (Timer ANIM_FRAME_TIMER) ctx_new (btn BRight held_controller) = (m, cx, b)"
    by (metis prod_cases3)
  have m: "m = Some Confirmed"
    using container_htc_confirmed [of "example_ui 1005" "Timer ANIM_FRAME_TIMER" ctx_new "btn BRight held_controller"]
      g h(1) hb by (simp add: example_ui_def)
  have o: "bc_type (left_btn held_controller) = TNothing" "bc_type (middle_btn held_controller) = TNothing"
    "ignore_btn_delay held_controller = None" "long_pressed_timer (btn q held_controller) = None"
    "bc_pos (btn q held_controller) = q" for q
    by (simp_all add: held_controller_def btn_def Let_def split: button_pos.split)
  have t: "handle_long_press_timer_token tok held_controller = None" for tok
    using o(4) [of BLeft] o(4) [of BMiddle] o(4) [of BRight]
    by (simp add: handle_long_press_timer_token_def is_timer_token_def btn_def)
  have s: "held_controller\<lparr>ignore_btn_delay := None\<rparr> = held_controller"
    by (simp add: held_controller_def Let_def)
  have n: "container_htc V e cx b = (None, cx, b)" if "bc_type b = TNothing" for V e cx b
    using that by (simp add: container_htc_def)
  have "\<exists>cc. handle_htc_expiration (example_ui 1005) (Timer ANIM_FRAME_TIMER) (ctx_new, held_controller) =
      (Some (Triggered BRight True), cc)"
    using hb m by (simp add: handle_htc_expiration_def htc_got_triggered_def Let_def n [OF o(1)] n [OF o(2)] btn_def)
  moreover have "controller_event (example_ui 1005) ctx_new (Timer ANIM_FRAME_TIMER) held_controller =
      handle_htc_expiration (example_ui 1005) (Timer ANIM_FRAME_TIMER) (ctx_new, held_controller)"
    by (simp add: controller_event_def o(3) s t)
  ultimately show ?thesis
    using h(1) o(5) by auto
qed

theorem hold_triggers_only_witness:
  "\<exists>h. bc_type (btn BRight held_controller) = THold h \<and> (\<forall>q. bc_pos (btn q held_controller) = q) \<and>
     is_completely_grown (example_ui 1005) (htc_loader h) (now (example_ui 1005))"
proof -
  obtain ctx' c' h where h: "controller_event (example_ui 1005) ctx_new (Timer ANIM_FRAME_TIMER) held_controller =
     (Some (Triggered BRight True), ctx', c')" "bc_type (btn BRight held_controller) = THold h"
   "\<forall>q. bc_pos (btn q held_controller) = q"
    using held_controller_triggers by blast
  from hold_triggers_only [OF h] h(2,3) show ?thesis by blast
qed

text \<open>
  The assertions of the root of a layout hold for the controller: whatever the event, its root
  handles it without a panic and keeps its content; and when a full repaint is requested, the content
  is marked for it.
\<close>

theorem controller_root_total:
  assumes "inner r = Some ch"
  shows "\<exists>m ctx' r'. root_event (controller_event U) ctx e r =
      (Inr (m, ctx', r') :: (controller_msg option \<times> event_ctx \<times> controller root, unit) result) \<and>
    inner r' \<noteq> None \<and>
    (root_repaint_requested ctx' \<longrightarrow> marked_for_clear r' \<and> (\<exists>ch'. inner r' = Some ch' \<and> marked_for_paint ch')) \<and>
    (\<forall>t. transition_out ctx' = Some t \<longrightarrow> root_transition_out r' = Some t)"
  by (rule controller.root_event_total [OF assms])

theorem controller_root_total_witness:
  "\<exists>m ctx' r'. root_event (controller_event (example_ui 5)) (request_repaint_root ctx_new)
      (Button (ButtonPressed PRight)) (root_new held_controller) =
      (Inr (m, ctx', r') :: (controller_msg option \<times> event_ctx \<times> controller root, unit) result) \<and> inner r' \<noteq> None"
  using controller_root_total [of "root_new held_controller" "child_new held_controller" "example_ui 5"
      "request_repaint_root ctx_new" "Button (ButtonPressed PRight)"]
  by (auto simp: root_new_def)

definition highlighted :: "button_pos \<Rightarrow> controller \<Rightarrow> bool" where
  "highlighted p c \<longleftrightarrow> (case bc_type (btn p c) of TButton b \<Rightarrow> btn_pressed b | _ \<Rightarrow> False)"

definition shown_button :: "button_state \<Rightarrow> button_pos option" where
  "shown_button st = (case st of
      OneDown b \<Rightarrow> Some (pos_of b) | BothDown \<Rightarrow> Some BMiddle | OneReleased _ \<Rightarrow> Some BMiddle | _ \<Rightarrow> None)"

definition is_plain_button :: "button_container \<Rightarrow> bool" where
  "is_plain_button b \<longleftrightarrow> (case bc_type b of TButton _ \<Rightarrow> True | _ \<Rightarrow> False)"

lemma is_plain_button_same: "same_button a b \<Longrightarrow> is_plain_button a = is_plain_button b"
  by (cases "bc_type a"; cases "bc_type b") (auto simp: same_button_def is_plain_button_def)

lemma highlighted_set_pressed:
  "highlighted p (snd (set_pressed l m r cc)) \<longleftrightarrow>
     is_plain_button (btn p (snd cc)) \<and> (case p of BLeft \<Rightarrow> l | BMiddle \<Rightarrow> m | BRight \<Rightarrow> r)"
  by (cases p) (auto simp: highlighted_def is_plain_button_def set_pressed_def btn_on_btn container_set_pressed_def
      button_set_pressed_def split: button_type.splits prod.splits)

lemma highlighted_show_state:
  "highlighted p (snd (show_state st cc)) \<longleftrightarrow> is_plain_button (btn p (snd cc)) \<and> shown_button st = Some p"
  by (cases p) (auto simp: show_state_def highlighted_set_pressed shown_button_def pos_of_def
      split: button_state.splits physical_button.splits)

text \<open>
  What the user sees is the state of the machine: after every button event that is not ignored,
  exactly the button of the new state is shown as pressed, if it is an ordinary button, whatever was
  highlighted before; so at most one button is.
\<close>

theorem highlight_follows_state:
  assumes "button_step U be (ctx, c) \<noteq> None"
    and "controller_event U ctx (Button be) c = (msg, ctx', c')"
  shows "highlighted p c' \<longleftrightarrow> is_plain_button (btn p c') \<and> shown_button (c_state c') = Some p"
proof -
  obtain st m cc where s: "button_step U be (ctx, c) = Some (st, m, cc)"
    using assms(1) by (metis not_None_eq prod_cases3)
  have c': "c' = (snd (show_state st cc))\<lparr>c_state := st\<rparr>"
    using assms(2) controller_event_Some [OF s] by simp
  show ?thesis
    using highlighted_show_state [of p st cc] is_plain_button_same [OF btn_show_state(1) [of p cc st]]
    by (simp add: c' highlighted_def btn_frame)
qed

theorem highlight_follows_state_witness:
  "\<exists>msg ctx' c'. controller_event (example_ui 5) ctx_new (Button (ButtonReleased PRight)) held_controller =
     (msg, ctx', c') \<and>
   (highlighted BRight c' \<longleftrightarrow> is_plain_button (btn BRight c') \<and> shown_button (c_state c') = Some BRight)"
proof -
  obtain msg ctx' c' where e: "controller_event (example_ui 5) ctx_new (Button (ButtonReleased PRight)) held_controller =
     (msg, ctx', c')" by (metis prod_cases3)
  have "button_step (example_ui 5) (ButtonReleased PRight) (ctx_new, held_controller) \<noteq> None"
    by (simp add: button_step_def held_controller_def Let_def on_one_down_def split: prod.split)
  from highlight_follows_state [OF this e, of BRight] e show ?thesis by blast
qed

end
