(* ===== verification/Output_Stream.thy ===== *)
theory Output_Stream
  imports Io_Stream
begin

section \<open>Output streams, varints and zigzag\<close>

text \<open>
  The trait \<^verbatim>\<open>OutputStream\<close> of \<^verbatim>\<open>core/embed/rust/src/protobuf/encode.rs\<close> with its two
  implementations, the byte counter and the bounded buffer, and \<^verbatim>\<open>protobuf/zigzag.rs\<close>.  The trait
  is the locale \<open>output_stream\<close>; both implementations interpret it.
\<close>

subsection \<open>Errors of the codec (\<^verbatim>\<open>protobuf/error.rs\<close>)\<close>

definition experimental_not_enabled :: error where
  "experimental_not_enabled = ValueError ''Experimental features are disabled.''"

definition unknown_field_type :: error where
  "unknown_field_type = ValueError ''Unknown field type.''"

definition missing_required_field :: "qstr \<Rightarrow> error" where
  "missing_required_field field = ValueErrorParam ''Missing required field.'' (OQstr field)"

definition invalid_value :: "qstr \<Rightarrow> error" where
  "invalid_value field = ValueErrorParam ''Invalid value for field.'' (OQstr field)"

definition end_of_buffer :: error where
  "end_of_buffer = ValueError ''End of buffer.''"

subsection \<open>Zigzag\<close>

definition to_unsigned :: "i64 \<Rightarrow> u64" where
  "to_unsigned v = push_bit 1 v XOR signed_drop_bit 63 v"

definition to_signed :: "u64 \<Rightarrow> i64" where
  "to_signed v = drop_bit 1 v XOR (- (v AND 1))"

subsection \<open>The trait and its default method\<close>

lemma unat_drop_bit_7: "unat (drop_bit 7 (n :: u64)) = unat n div 128"
  by (simp add: drop_bit_eq_div unat_div)

lemma drop_bit_7_less: "drop_bit 7 (n :: u64) \<noteq> 0 \<Longrightarrow> unat (drop_bit 7 n) < unat n"
proof -
  assume "drop_bit 7 n \<noteq> 0"
  then have "unat (drop_bit 7 n) \<noteq> 0" by (simp add: unat_eq_0)
  then have "unat n div 128 \<noteq> 0" by (simp only: unat_drop_bit_7 not_False_eq_True)
  then have "unat n div 128 < unat n" by (intro div_less_dividend) auto
  then show ?thesis by (simp only: unat_drop_bit_7)
qed

function write_uvarint :: "('s \<Rightarrow> u8 \<Rightarrow> 's res) \<Rightarrow> 's \<Rightarrow> u64 \<Rightarrow> 's res" where
  "write_uvarint write_byte s num =
     (let shifted = drop_bit 7 num; byte = ucast (num AND 0x7F) in
      if shifted \<noteq> 0 then rbind (write_byte s (byte OR 0x80)) (\<lambda>s'. write_uvarint write_byte s' shifted)
      else write_byte s byte)"
  by pat_completeness auto

termination
  by (relation "measure (\<lambda>(_, _, n). unat n)") (auto simp: drop_bit_7_less)

declare write_uvarint.simps [simp del]

subsection \<open>The two implementations\<close>

record counter_stream =
  cs_len :: nat

definition counter_write :: "counter_stream \<Rightarrow> bytes \<Rightarrow> counter_stream res" where
  "counter_write s b = Inr (s\<lparr>cs_len := usize_add (cs_len s) (length b)\<rparr>)"

definition counter_write_byte :: "counter_stream \<Rightarrow> u8 \<Rightarrow> counter_stream res" where
  "counter_write_byte s val = Inr (s\<lparr>cs_len := usize_add (cs_len s) 1\<rparr>)"

record buffer_stream =
  bs_buf :: bytes
  bs_pos :: nat

definition buffer_new :: "bytes \<Rightarrow> buffer_stream" where
  "buffer_new b = \<lparr>bs_buf = b, bs_pos = 0\<rparr>"

definition buffer_len :: "buffer_stream \<Rightarrow> nat" where
  "buffer_len s = bs_pos s"

text \<open>\<open>copy_from_slice\<close> into \<open>buf[pos..pos + len]\<close>.\<close>

definition splice :: "'a list \<Rightarrow> nat \<Rightarrow> 'a list \<Rightarrow> 'a list" where
  "splice xs p ys = take p xs @ ys @ drop (p + length ys) xs"

definition buffer_write :: "buffer_stream \<Rightarrow> bytes \<Rightarrow> buffer_stream res" where
  "buffer_write s val =
     (let p = bs_pos s; len = length val in
      case slice_get (bs_buf s) p (usize_add p len) of
        Some _ \<Rightarrow> Inr (s\<lparr>bs_pos := usize_add p len, bs_buf := splice (bs_buf s) p val\<rparr>)
      | None \<Rightarrow> Inl (Err end_of_buffer))"

definition buffer_write_byte :: "buffer_stream \<Rightarrow> u8 \<Rightarrow> buffer_stream res" where
  "buffer_write_byte s val =
     (case nth_get (bs_buf s) (bs_pos s) of
        Some _ \<Rightarrow> Inr (s\<lparr>bs_pos := bs_pos s + 1, bs_buf := (bs_buf s)[bs_pos s := val]\<rparr>)
      | None \<Rightarrow> Inl (Err end_of_buffer))"

subsection \<open>The varint as a byte string\<close>

function uvarint_bytes :: "u64 \<Rightarrow> bytes" where
  "uvarint_bytes n =
     (if drop_bit 7 n \<noteq> 0 then (ucast (n AND 0x7F) OR 0x80) # uvarint_bytes (drop_bit 7 n)
      else [ucast (n AND 0x7F)])"
  by pat_completeness auto
termination
  by (relation "measure unat") (auto simp: drop_bit_7_less)

declare uvarint_bytes.simps [simp del]

lemma uvarint_bytes_last: "drop_bit 7 n = 0 \<Longrightarrow> uvarint_bytes n = [ucast (n AND 0x7F)]"
  and uvarint_bytes_more: "drop_bit 7 n \<noteq> 0 \<Longrightarrow>
    uvarint_bytes n = (ucast (n AND 0x7F) OR 0x80) # uvarint_bytes (drop_bit 7 n)"
  by (simp_all add: uvarint_bytes.simps [of n])

lemma and_0x7F: "(x :: 'a::len word) AND 0x7F = take_bit 7 x"
  by (simp add: take_bit_eq_mask mask_eq_exp_minus_1)

lemma bit_0x80: "bit (0x80 :: 'a::len word) m \<longleftrightarrow> m = 7 \<and> 7 < LENGTH('a)"
proof -
  have "bit (2 ^ 7 :: 'a word) m \<longleftrightarrow> m = 7 \<and> 7 < LENGTH('a)" by (auto simp: bit_exp_iff simp del: power_numeral)
  then show ?thesis by simp
qed

lemma byte_and_0x80: "(b :: u8) AND 0x80 = 0 \<longleftrightarrow> \<not> bit b 7"
  using and_exp_eq_0_iff_not_bit [of b 7] by simp

lemma group_payload:
  "ucast (ucast (n AND 0x7F) :: u8) AND 0x7F = (n AND 0x7F :: u64)"
  "ucast (ucast (n AND 0x7F) OR 0x80 :: u8) AND 0x7F = (n AND 0x7F :: u64)"
proof -
  show "ucast (ucast (n AND 0x7F) :: u8) AND 0x7F = (n AND 0x7F :: u64)"
    by (rule bit_word_eqI) (auto simp: and_0x7F bit_simps)
  show "ucast (ucast (n AND 0x7F) OR 0x80 :: u8) AND 0x7F = (n AND 0x7F :: u64)"
    by (rule bit_word_eqI) ((simp only: and_0x7F bit_take_bit_iff bit_unsigned_iff bit_or_iff bit_0x80 possible_bit_word), auto)
qed

lemma group_flag:
  "(ucast (n AND 0x7F :: u64) :: u8) AND 0x80 = 0"
  "(ucast (n AND 0x7F :: u64) OR 0x80 :: u8) AND 0x80 \<noteq> 0"
proof -
  have "bit (0x80 :: u8) 7" by simp
  then show "(ucast (n AND 0x7F :: u64) OR 0x80 :: u8) AND 0x80 \<noteq> 0"
    by (simp add: byte_and_0x80 bit_simps)
  show "(ucast (n AND 0x7F :: u64) :: u8) AND 0x80 = 0"
    by (simp add: byte_and_0x80 and_0x7F bit_simps)
qed

lemma word_split_7: "(n :: u64) = (n AND 0x7F) + push_bit 7 (drop_bit 7 n)"
proof -
  have "n = take_bit 7 n + push_bit 7 (drop_bit 7 n)"
    by (metis add.commute bits_ident)
  then show ?thesis by (simp add: and_0x7F)
qed

lemma length_uvarint_bytes_pos: "0 < length (uvarint_bytes n)"
  by (subst uvarint_bytes.simps) simp

text \<open>A varint of 64 bits takes at most ten bytes.\<close>

lemma length_uvarint_bytes_le: "unat n < 2 ^ (7 * k) \<Longrightarrow> 0 < k \<Longrightarrow> length (uvarint_bytes n) \<le> k"
proof (induction n arbitrary: k rule: uvarint_bytes.induct)
  case (1 n)
  show ?case
  proof (cases "drop_bit 7 n = 0")
    case True
    with "1.prems" show ?thesis by (simp add: uvarint_bytes_last)
  next
    case False
    have d: "unat (drop_bit 7 n) = unat n div 2 ^ 7" using unat_drop_bit_7 [of n] by simp
    with False have big: "2 ^ 7 \<le> unat n"
      by (metis div_less not_less unat_eq_0)
    then have "1 < k"
      using "1.prems" by (cases "k = 1") auto
    then obtain j where k: "k = Suc j" "0 < j" by (cases k) auto
    have "unat n div 2 ^ 7 < 2 ^ (7 * j)"
      using "1.prems"(1) k by (simp add: less_mult_imp_div_less power_add mult.commute)
    with "1.IH" [OF False, of j] d k show ?thesis
      by (simp add: uvarint_bytes_more [OF False])
  qed
qed

lemma length_uvarint_bytes: "length (uvarint_bytes n) \<le> 10"
proof (rule length_uvarint_bytes_le)
  have "unat n < 2 ^ 64" using unsigned_less [of n] by simp
  also have "\<dots> < (2::nat) ^ (7 * 10)" by simp
  finally show "unat n < 2 ^ (7 * 10)" .
qed simp

subsection \<open>The contract of the trait\<close>

text \<open>
  \<open>fits s n\<close>: there is room for \<open>n\<close> more bytes; \<open>emit s bs\<close>: the stream after \<open>bs\<close> has been
  written.  Whatever is written through the trait is a function of the bytes alone.
\<close>

locale output_stream =
  fixes wr :: "'s \<Rightarrow> bytes \<Rightarrow> 's res"
    and wr_byte :: "'s \<Rightarrow> u8 \<Rightarrow> 's res"
    and inv :: "'s \<Rightarrow> bool"
    and fits :: "'s \<Rightarrow> nat \<Rightarrow> bool"
    and emit :: "'s \<Rightarrow> bytes \<Rightarrow> 's"
  assumes write_spec: "inv s \<Longrightarrow> length b < 2 ^ 31 \<Longrightarrow>
      wr s b = (if fits s (length b) then Inr (emit s b) else Inl (Err end_of_buffer))"
    and write_byte_spec: "inv s \<Longrightarrow>
      wr_byte s x = (if fits s 1 then Inr (emit s [x]) else Inl (Err end_of_buffer))"
    and inv_emit: "inv s \<Longrightarrow> fits s (length b) \<Longrightarrow> inv (emit s b)"
    and emit_emit: "inv s \<Longrightarrow> fits s (length b + length c) \<Longrightarrow> emit (emit s b) c = emit s (b @ c)"
    and emit_Nil: "inv s \<Longrightarrow> emit s [] = s"
    and fits_0: "inv s \<Longrightarrow> fits s 0"
    and fits_emit: "inv s \<Longrightarrow> fits s (length b + n) \<longleftrightarrow> fits s (length b) \<and> fits (emit s b) n"
begin

lemma write_uvarint_spec:
  "inv s \<Longrightarrow> write_uvarint wr_byte s n =
    (if fits s (length (uvarint_bytes n)) then Inr (emit s (uvarint_bytes n))
     else Inl (Err end_of_buffer))"
proof (induction n arbitrary: s rule: uvarint_bytes.induct)
  case (1 n)
  show ?case
  proof (cases "drop_bit 7 n = 0")
    case True
    then show ?thesis
      by (simp add: write_uvarint.simps [of _ s n] uvarint_bytes_last write_byte_spec "1.prems")
  next
    case False
    let ?b = "ucast (n AND 0x7F) OR 0x80 :: u8"
    have step: "write_uvarint wr_byte s n =
        rbind (wr_byte s ?b) (\<lambda>s'. write_uvarint wr_byte s' (drop_bit 7 n))"
      using False by (simp add: write_uvarint.simps [of _ s n] Let_def)
    let ?k = "length (uvarint_bytes (drop_bit 7 n))"
    have room: "fits s (Suc ?k) \<longleftrightarrow> fits s (Suc 0) \<and> fits (emit s [?b]) ?k"
      using fits_emit [OF "1.prems", of "[?b]" ?k] by simp
    show ?thesis
    proof (cases "fits s 1")
      case True
      then have "inv (emit s [?b])" using inv_emit [OF "1.prems", of "[?b]"] by simp
      moreover have "emit (emit s [?b]) (uvarint_bytes (drop_bit 7 n)) = emit s (uvarint_bytes n)"
        if "fits (emit s [?b]) (length (uvarint_bytes (drop_bit 7 n)))"
        using emit_emit [OF "1.prems", of "[?b]" "uvarint_bytes (drop_bit 7 n)"] that True room
        by (simp add: uvarint_bytes_more [OF False])
      ultimately show ?thesis
        using "1.IH" [OF False] True
        by (simp add: step write_byte_spec "1.prems" uvarint_bytes_more [OF False] room)
    next
      case no: False
      then show ?thesis
        by (simp add: step write_byte_spec "1.prems" uvarint_bytes_more [OF False] room)
    qed
  qed
qed

end

subsection \<open>Both streams satisfy it\<close>

definition counter_emit :: "counter_stream \<Rightarrow> bytes \<Rightarrow> counter_stream" where
  "counter_emit s b = s\<lparr>cs_len := usize_add (cs_len s) (length b)\<rparr>"

definition counter_inv :: "counter_stream \<Rightarrow> bool" where
  "counter_inv s \<longleftrightarrow> cs_len s < 2 ^ 32"

definition buffer_inv :: "buffer_stream \<Rightarrow> bool" where
  "buffer_inv s \<longleftrightarrow> bs_pos s \<le> length (bs_buf s) \<and> length (bs_buf s) < 2 ^ 31"

definition buffer_fits :: "buffer_stream \<Rightarrow> nat \<Rightarrow> bool" where
  "buffer_fits s n \<longleftrightarrow> bs_pos s + n \<le> length (bs_buf s)"

definition buffer_emit :: "buffer_stream \<Rightarrow> bytes \<Rightarrow> buffer_stream" where
  "buffer_emit s b = s\<lparr>bs_pos := bs_pos s + length b, bs_buf := splice (bs_buf s) (bs_pos s) b\<rparr>"

lemma length_splice [simp]: "p + length ys \<le> length xs \<Longrightarrow> length (splice xs p ys) = length xs"
  by (simp add: splice_def)

lemma splice_Nil [simp]: "splice xs p [] = xs"
  by (simp add: splice_def)

lemma splice_single: "p < length xs \<Longrightarrow> splice xs p [y] = xs[p := y]"
  by (simp add: splice_def upd_conv_take_nth_drop)

lemma splice_splice:
  "p + length ys + length zs \<le> length xs \<Longrightarrow>
    splice (splice xs p ys) (p + length ys) zs = splice xs p (ys @ zs)"
  by (simp add: splice_def ac_simps)

interpretation counter: output_stream
  counter_write counter_write_byte counter_inv "\<lambda>_ _. True" counter_emit
  by unfold_locales
    (auto simp: counter_write_def counter_write_byte_def counter_emit_def counter_inv_def
      usize_add_def mod_add_left_eq add.assoc)

interpretation buffer: output_stream
  buffer_write buffer_write_byte buffer_inv buffer_fits buffer_emit
proof unfold_locales
  fix s :: buffer_stream and b :: bytes
  assume "buffer_inv s" "length b < 2 ^ 31"
  then show "buffer_write s b =
      (if buffer_fits s (length b) then Inr (buffer_emit s b) else Inl (Err end_of_buffer))"
    by (simp add: buffer_write_def buffer_inv_def buffer_fits_def buffer_emit_def slice_get_def
        usize_add_def Let_def)
next
  fix s :: buffer_stream and x
  assume "buffer_inv s"
  then show "buffer_write_byte s x =
      (if buffer_fits s 1 then Inr (buffer_emit s [x]) else Inl (Err end_of_buffer))"
    by (simp add: buffer_write_byte_def buffer_inv_def buffer_fits_def buffer_emit_def nth_get_def
        splice_single)
qed (auto simp: buffer_inv_def buffer_fits_def buffer_emit_def splice_splice)

subsection \<open>Reading back what was written\<close>

lemma read_uvarint_loop_bytes:
  assumes "input s = uvarint_bytes n @ r" "shift < 64" "unat n < 2 ^ (64 - shift)"
  shows "read_uvarint_loop s acc shift =
    Inr (acc + push_bit shift n, advance s (length (uvarint_bytes n)))"
  using assms
proof (induction n arbitrary: s acc shift rule: uvarint_bytes.induct)
  case (1 n)
  show ?case
  proof (cases "drop_bit 7 n = 0")
    case True
    have "n AND 0x7F = n" using word_split_7 [of n] True by simp
    moreover have "input s = ucast (n AND 0x7F) # r" using "1.prems"(1) True by (simp add: uvarint_bytes_last)
    ultimately show ?thesis
      using group_flag(1) [of n] group_payload(1) [of n] "1.prems"(2) True
      by (simp add: read_uvarint_loop_eq [of s] Let_def uvarint_bytes_last)
  next
    case False
    let ?b = "ucast (n AND 0x7F) OR 0x80 :: u8" and ?m = "drop_bit 7 n"
    have m: "unat ?m = unat n div 2 ^ 7" using unat_drop_bit_7 [of n] by simp
    with False have "2 ^ 7 \<le> unat n" by (metis div_less not_less unat_eq_0)
    with "1.prems"(3) have "(2::nat) ^ 7 < 2 ^ (64 - shift)" by linarith
    then have sh: "shift + 7 < 64" using power_less_imp_less_exp [of "2::nat" 7 "64 - shift"] by simp
    have "7 + (64 - (shift + 7)) = 64 - shift" using sh by simp
    then have "unat n < 2 ^ 7 * 2 ^ (64 - (shift + 7))"
      using "1.prems"(3) power_add [of "2::nat" 7 "64 - (shift + 7)"] by simp
    then have bound: "unat ?m < 2 ^ (64 - (shift + 7))"
      unfolding m by (simp add: less_mult_imp_div_less mult.commute)
    have inp: "input s = ?b # uvarint_bytes ?m @ r"
      using "1.prems"(1) by (simp add: uvarint_bytes_more [OF False])
    then have "input (advance s 1) = uvarint_bytes ?m @ r" by simp
    note IH = "1.IH" [OF False this sh bound]
    have "push_bit shift n = push_bit shift (n AND 0x7F) + push_bit (shift + 7) ?m"
      by (subst (1) word_split_7) (simp add: push_bit_add)
    then show ?thesis
      using group_flag(2) [of n] group_payload(2) [of n] "1.prems"(2) inp IH
      by (simp add: read_uvarint_loop_eq [of s] Let_def uvarint_bytes_more [OF False] add.assoc)
  qed
qed

lemma read_uvarint_bytes:
  "input s = uvarint_bytes n @ r \<Longrightarrow> read_uvarint s = Inr (n, advance s (length (uvarint_bytes n)))"
  using read_uvarint_loop_bytes [of s n r 0 0] unsigned_less [of n] by (simp add: read_uvarint_def)

lemma input_buffer_emit:
  "buffer_fits s (length b) \<Longrightarrow>
    input \<lparr>buf = bs_buf (buffer_emit s b), pos = bs_pos s\<rparr>
      = b @ drop (bs_pos s + length b) (bs_buf s)"
  by (simp add: input_def buffer_emit_def splice_def buffer_fits_def)

subsection \<open>Properties\<close>

text \<open>
  A varint written to a buffer by \<open>write_uvarint\<close> is read back by \<open>read_uvarint\<close>, for every
  64-bit value: the reader returns the value and stops exactly where the writer stopped.
\<close>

theorem uvarint_roundtrip:
  assumes "buffer_inv s" and "write_uvarint buffer_write_byte s n = Inr s'"
  shows "read_uvarint \<lparr>buf = bs_buf s', pos = bs_pos s\<rparr>
    = Inr (n, \<lparr>buf = bs_buf s', pos = bs_pos s'\<rparr>)"
proof -
  let ?b = "uvarint_bytes n"
  have fit: "buffer_fits s (length ?b)" and s': "s' = buffer_emit s ?b"
    using assms buffer.write_uvarint_spec [OF assms(1), of n] by (auto split: if_splits)
  from read_uvarint_bytes [OF input_buffer_emit [OF fit]] show ?thesis
    by (simp add: s' advance_def buffer_emit_def)
qed

theorem uvarint_roundtrip_witness:
  "write_uvarint buffer_write_byte \<lparr>bs_buf = [0, 0, 0, 7], bs_pos = 1\<rparr> 300
     = Inr \<lparr>bs_buf = [0, 0xAC, 0x02, 7], bs_pos = 3\<rparr>
   \<and> read_uvarint \<lparr>buf = [0, 0xAC, 0x02, 7], pos = 1\<rparr>
     = Inr (300, \<lparr>buf = [0, 0xAC, 0x02, 7], pos = 3\<rparr>)"
proof -
  let ?s = "\<lparr>bs_buf = [0, 0, 0, 7], bs_pos = 1\<rparr> :: buffer_stream"
  have w: "write_uvarint buffer_write_byte ?s 300 = Inr \<lparr>bs_buf = [0, 0xAC, 0x02, 7], bs_pos = 3\<rparr>"
    by (simp add: write_uvarint.simps buffer_write_byte_def nth_get_def Let_def)
  have "buffer_inv ?s" by (simp add: buffer_inv_def)
  from uvarint_roundtrip [OF this w] w show ?thesis by simp
qed

lemma neg_low_bit: "- ((w :: u64) AND 1) = (if bit w 0 then - 1 else 0)"
  by (simp add: and_one_eq bit_0 mod_2_eq_odd)

lemma bit_to_signed: "n < 64 \<Longrightarrow> bit (to_signed w) n \<longleftrightarrow> (bit w (Suc n) \<noteq> bit w 0)"
  by (auto simp: to_signed_def neg_low_bit bit_simps)

lemma bit_to_unsigned:
  "n < 64 \<Longrightarrow> bit (to_unsigned v) n \<longleftrightarrow> ((0 < n \<and> bit v (n - 1)) \<noteq> bit v 63)"
  unfolding to_unsigned_def
  by (simp only: bit_xor_iff bit_push_bit_iff bit_signed_drop_bit_iff) (cases n; auto simp: min_def)

lemma sint_nonneg_iff: "0 \<le> sint (v :: 64 word) \<longleftrightarrow> \<not> bit v 63"
  by (simp add: sint_uint signed_take_bit_nonnegative_iff bit_uint_iff)

lemma to_unsigned_cases:
  "to_unsigned v = (if 0 \<le> sint v then word_of_int (2 * sint v) else word_of_int (- 2 * sint v - 1))"
proof -
  have twice: "push_bit 1 v = word_of_int (2 * sint v)"
    by (simp add: push_bit_eq_mult mult.commute)
  have "to_unsigned v = (if bit v 63 then NOT (push_bit 1 v) else push_bit 1 v)"
    by (rule bit_word_eqI) (auto simp add: bit_to_unsigned bit_not_iff bit_push_bit_iff simp del: push_bit_Suc)
  moreover have "NOT (push_bit 1 v) = word_of_int (- 2 * sint v - 1)"
    by (simp only: twice not_eq_complement) simp
  ultimately show ?thesis by (simp add: twice sint_nonneg_iff)
qed

lemma to_unsigned_value:
  "uint (to_unsigned v) = (if 0 \<le> sint v then 2 * sint v else - 2 * sint v - 1)"
proof -
  have wrap: "uint (word_of_int k :: 64 word) = k" if "0 \<le> k" "k < 2 ^ 64" for k
    using that by (simp add: uint_word_of_int_eq take_bit_int_eq_self)
  show ?thesis
    using sint_greater_eq [of v] sint_less [of v] wrap [of "2 * sint v"] wrap [of "- 2 * sint v - 1"]
    unfolding to_unsigned_cases by (simp only: split: if_split) simp
qed

lemma zigzag_inverse: "to_signed (to_unsigned v) = v" "to_unsigned (to_signed w) = w"
proof -
  show "to_signed (to_unsigned v) = v"
  proof (rule bit_word_eqI)
    fix n assume "n < LENGTH(64)"
    then have n: "n < 64" by simp
    show "bit (to_signed (to_unsigned v)) n = bit v n"
    proof (cases "n = 63")
      case True
      have "\<not> bit (to_unsigned v) 64" by (rule impossible_bit) simp
      with True show ?thesis by (simp add: bit_to_signed bit_to_unsigned)
    next
      case False
      with n show ?thesis by (auto simp: bit_to_signed bit_to_unsigned)
    qed
  qed
  show "to_unsigned (to_signed w) = w"
  proof (rule bit_word_eqI)
    fix n assume "n < LENGTH(64)"
    then have n: "n < 64" by simp
    have "\<not> bit w 64" by (rule impossible_bit) simp
    with n show "bit (to_unsigned (to_signed w)) n = bit w n"
      by (cases n) (auto simp: bit_to_signed bit_to_unsigned)
  qed
qed

text \<open>
  Zigzag is a bijection between \<open>i64\<close> and \<open>u64\<close>, with the documented values: a non-negative
  \<open>v\<close> becomes \<open>2 v\<close> and a negative one \<open>- 2 v - 1\<close>.
\<close>

theorem zigzag_bijective:
  "to_signed (to_unsigned v) = v \<and> to_unsigned (to_signed w) = w
   \<and> uint (to_unsigned v) = (if 0 \<le> sint v then 2 * sint v else - 2 * sint v - 1)"
  by (simp add: zigzag_inverse to_unsigned_value)

text \<open>
  A varint longer than ten bytes is accepted: the eleventh group is shifted by \<open>70 mod 64\<close> and
  added to the low bits.
\<close>

lemma overlong_uvarint_wraps:
  "read_uvarint (stream_new (replicate 10 0x80 @ [0x01]))
     = Inr (64, \<lparr>buf = replicate 10 0x80 @ [0x01], pos = 11\<rparr>)"
  by code_simp

end
