(* ===== verification/Proto_Defs.thy ===== *)
theory Proto_Defs
  imports Output_Stream
begin

section \<open>Message definitions\<close>

text \<open>
  \<^verbatim>\<open>core/embed/rust/src/protobuf/defs.rs\<close>: the compact tables that describe all messages.  The four
  tables are files the build generates; here they are the fields of \<open>proto_data\<close>, an argument of
  every definition that reads them.  The code reads them through raw pointers without any check, so
  reading past the end of a table is undefined behaviour; the model makes it a \<open>Panic\<close>, and a theorem
  that excludes panics excludes it too.
\<close>

record proto_data =
  ENUM_DEFS :: bytes
  MSG_DEFS :: bytes
  NAME_DEFS :: bytes
  WIRE_DEFS :: bytes

record field_def =
  tag :: u8
  flags_and_type :: u8
  enum_or_msg_offset :: u16
  f_name :: u16

record msg_def =
  msg_fields :: "field_def list"
  msg_defaults :: bytes
  msg_is_experimental :: bool
  msg_wire_id :: "u16 option"
  msg_offset :: u16

record enum_def =
  enum_values :: "u16 list"

datatype field_type =
    UVarInt | SVarInt | FBool | FBytes | FString | FEnum enum_def | FMsg msg_def

record name_def =
  nd_key :: u16     \<comment> \<open>\<open>msg_name\<close> of \<open>NameDef\<close>, \<open>wire_id\<close> of \<open>WireDef\<close>\<close>
  nd_msg_offset :: u16

definition PRIMITIVE_TYPE_VARINT :: u8 where
  "PRIMITIVE_TYPE_VARINT = 0"

definition PRIMITIVE_TYPE_LENGTH_DELIMITED :: u8 where
  "PRIMITIVE_TYPE_LENGTH_DELIMITED = 2"

definition primitive_type :: "field_type \<Rightarrow> u8" where
  "primitive_type ty = (case ty of
      UVarInt \<Rightarrow> PRIMITIVE_TYPE_VARINT | SVarInt \<Rightarrow> PRIMITIVE_TYPE_VARINT
    | FBool \<Rightarrow> PRIMITIVE_TYPE_VARINT | FEnum _ \<Rightarrow> PRIMITIVE_TYPE_VARINT
    | FBytes \<Rightarrow> PRIMITIVE_TYPE_LENGTH_DELIMITED | FString \<Rightarrow> PRIMITIVE_TYPE_LENGTH_DELIMITED
    | FMsg _ \<Rightarrow> PRIMITIVE_TYPE_LENGTH_DELIMITED)"

subsection \<open>Reading the tables\<close>

text \<open>Packed little-endian records of six and four bytes.\<close>

definition parse_field :: "bytes \<Rightarrow> field_def" where
  "parse_field b =
     \<lparr>tag = b ! 0, flags_and_type = b ! 1, enum_or_msg_offset = from_le_bytes [b ! 2, b ! 3],
      f_name = from_le_bytes [b ! 4, b ! 5]\<rparr>"

definition parse_name_def :: "bytes \<Rightarrow> name_def" where
  "parse_name_def b =
     \<lparr>nd_key = from_le_bytes [b ! 0, b ! 1], nd_msg_offset = from_le_bytes [b ! 2, b ! 3]\<rparr>"

definition parse_name_defs :: "bytes \<Rightarrow> name_def list" where
  "parse_name_defs b = map parse_name_def (groups 4 (take (length b div 4 * 4) b))"

definition get_msg :: "proto_data \<Rightarrow> u16 \<Rightarrow> (msg_def, 'e) result" where
  "get_msg D off =
     rbind (unwrap (slice_get (MSG_DEFS D) (unat off) (unat off + 4))) (\<lambda>hdr.
     let fields_count = unat (hdr ! 0); defaults_size = unat (hdr ! 1);
         flags_and_wire_id = from_le_bytes [hdr ! 2, hdr ! 3] :: u16;
         fields_size = fields_count * 6; p = unat off + 4 in
     rbind (unwrap (slice_get (MSG_DEFS D) p (p + fields_size))) (\<lambda>fs.
     rbind (unwrap (slice_get (MSG_DEFS D) (p + fields_size) (p + fields_size + defaults_size))) (\<lambda>ds.
       Inr \<lparr>msg_fields = map parse_field (groups 6 fs), msg_defaults = ds,
            msg_is_experimental = (flags_and_wire_id AND 0x8000 \<noteq> 0),
            msg_wire_id = (if flags_and_wire_id AND 0x7FFF = 0x7FFF then None
                           else Some (flags_and_wire_id AND 0x7FFF)),
            msg_offset = off\<rparr>)))"

definition get_enum :: "proto_data \<Rightarrow> u16 \<Rightarrow> (enum_def, 'e) result" where
  "get_enum D off =
     rbind (unwrap (nth_get (ENUM_DEFS D) (unat off))) (\<lambda>count.
     let p = unat off + 1 in
     rbind (unwrap (slice_get (ENUM_DEFS D) p (p + 2 * unat count))) (\<lambda>vs.
       Inr \<lparr>enum_values = map from_le_bytes (groups 2 vs)\<rparr>))"

subsection \<open>Fields\<close>

definition flags :: "field_def \<Rightarrow> u8" where
  "flags f = flags_and_type f AND 0xF0"

definition ftype :: "field_def \<Rightarrow> u8" where
  "ftype f = flags_and_type f AND 0x0F"

definition is_required :: "field_def \<Rightarrow> bool" where
  "is_required f \<longleftrightarrow> flags f AND 0x80 \<noteq> 0"

definition is_repeated :: "field_def \<Rightarrow> bool" where
  "is_repeated f \<longleftrightarrow> flags f AND 0x40 \<noteq> 0"

definition is_experimental :: "field_def \<Rightarrow> bool" where
  "is_experimental f \<longleftrightarrow> flags f AND 0x20 \<noteq> 0"

definition get_type :: "proto_data \<Rightarrow> field_def \<Rightarrow> (field_type, 'e) result" where
  "get_type D f =
     (let t = ftype f in
      if t = 0 then Inr UVarInt
      else if t = 1 then Inr SVarInt
      else if t = 2 then Inr FBool
      else if t = 3 then Inr FBytes
      else if t = 4 then Inr FString
      else if t = 5 then rbind (get_enum D (enum_or_msg_offset f)) (\<lambda>e. Inr (FEnum e))
      else if t = 6 then rbind (get_msg D (enum_or_msg_offset f)) (\<lambda>m. Inr (FMsg m))
      else Inl Panic)"

definition msg_field :: "msg_def \<Rightarrow> u8 \<Rightarrow> field_def option" where
  "msg_field msg t = find (\<lambda>f. tag f = t) (msg_fields msg)"

subsection \<open>Finding a message\<close>

definition find_name_by_msg_offset :: "proto_data \<Rightarrow> u16 \<Rightarrow> u16 option" where
  "find_name_by_msg_offset D off =
     map_option nd_key (find (\<lambda>d. nd_msg_offset d = off) (parse_name_defs (NAME_DEFS D)))"

definition find_msg_offset :: "name_def list \<Rightarrow> u16 \<Rightarrow> u16 option" where
  "find_msg_offset ds k = (case binary_search_by_key nd_key k ds of
      Inr i \<Rightarrow> Some (nd_msg_offset (ds ! i)) | Inl _ \<Rightarrow> None)"

definition find_msg_offset_by_name :: "proto_data \<Rightarrow> u16 \<Rightarrow> u16 option" where
  "find_msg_offset_by_name D name = find_msg_offset (parse_name_defs (NAME_DEFS D)) name"

definition find_msg_offset_by_wire :: "proto_data \<Rightarrow> u16 \<Rightarrow> u16 option" where
  "find_msg_offset_by_wire D wire_id = find_msg_offset (parse_name_defs (WIRE_DEFS D)) wire_id"

definition for_name :: "proto_data \<Rightarrow> u16 \<Rightarrow> (msg_def option, 'e) result" where
  "for_name D name = (case find_msg_offset_by_name D name of
      None \<Rightarrow> Inr None | Some off \<Rightarrow> rbind (get_msg D off) (\<lambda>m. Inr (Some m)))"

definition for_wire_id :: "proto_data \<Rightarrow> u16 \<Rightarrow> (msg_def option, 'e) result" where
  "for_wire_id D wire_id = (case find_msg_offset_by_wire D wire_id of
      None \<Rightarrow> Inr None | Some off \<Rightarrow> rbind (get_msg D off) (\<lambda>m. Inr (Some m)))"

subsection \<open>Well-formed tables\<close>

text \<open>
  What the comments of the code demand of the generated tables: every message that can be reached
  lies inside its table, its fields have known types, names and tags are unique, and the default
  values are complete.  The predicates are computable on concrete tables.
\<close>

definition scalar_type :: "field_type \<Rightarrow> bool" where
  "scalar_type ty \<longleftrightarrow> (case ty of FMsg _ \<Rightarrow> False | _ \<Rightarrow> True)"

definition wf_fields :: "proto_data \<Rightarrow> msg_def \<Rightarrow> bool" where
  "wf_fields D msg \<longleftrightarrow>
     list_all (\<lambda>f. is_ok (get_type D f :: (field_type, unit) result)) (msg_fields msg) \<and>
     distinct (map f_name (msg_fields msg)) \<and> distinct (map tag (msg_fields msg))"

text \<open>The messages that a message's fields refer to.\<close>

definition sub_msgs :: "proto_data \<Rightarrow> msg_def \<Rightarrow> msg_def list" where
  "sub_msgs D msg =
     concat (map (\<lambda>f. case (get_type D f :: (field_type, unit) result) of Inr (FMsg m) \<Rightarrow> [m] | _ \<Rightarrow> [])
       (msg_fields msg))"

text \<open>A set of messages that is closed under reference.\<close>

definition closed_schema :: "proto_data \<Rightarrow> msg_def set \<Rightarrow> bool" where
  "closed_schema D S \<longleftrightarrow> (\<forall>msg\<in>S. wf_fields D msg \<and> set (sub_msgs D msg) \<subseteq> S)"

lemma get_type_poly:
  "(get_type D f :: (field_type, 'a) result) = Inr ty \<longleftrightarrow> (get_type D f :: (field_type, 'b) result) = Inr ty"
  by (auto simp: get_type_def get_enum_def get_msg_def Let_def result_simps split: if_splits)

lemma closed_schemaD:
  assumes "closed_schema D S" "msg \<in> S" "f \<in> set (msg_fields msg)"
  obtains ty where "(get_type D f :: (field_type, 'e) result) = Inr ty" "\<And>m. ty = FMsg m \<Longrightarrow> m \<in> S"
proof -
  have w: "wf_fields D msg" "set (sub_msgs D msg) \<subseteq> S"
    using assms by (auto simp: closed_schema_def)
  then obtain ty where ty: "(get_type D f :: (field_type, unit) result) = Inr ty"
    using assms(3) by (auto simp: wf_fields_def list_all_iff is_ok_iff)
  have "m \<in> S" if "ty = FMsg m" for m
    using w(2) assms(3) ty that by (force simp: sub_msgs_def)
  moreover have "(get_type D f :: (field_type, 'e) result) = Inr ty"
    using ty by (simp add: get_type_poly [where 'a = 'e and 'b = unit])
  ultimately show ?thesis using that by blast
qed

lemma msg_field_Some: "msg_field msg t = Some f \<Longrightarrow> f \<in> set (msg_fields msg) \<and> tag f = t"
  by (auto simp: msg_field_def find_Some_iff)

lemma msg_field_unique:
  assumes "distinct (map tag (msg_fields msg))" "f \<in> set (msg_fields msg)"
  shows "msg_field msg (tag f) = Some f"
proof -
  have "msg_field msg (tag f) \<noteq> None"
    using assms(2) by (auto simp: msg_field_def find_None_iff)
  then obtain g where g: "msg_field msg (tag f) = Some g" by blast
  with msg_field_Some [OF g] assms have "g = f"
    by (metis distinct_map inj_onD)
  with g show ?thesis by simp
qed

lemma find_msg_offset_correct:
  assumes "sorted_wrt (<) (map nd_key ds)"
  shows "find_msg_offset ds k = map_of (map (\<lambda>d. (nd_key d, nd_msg_offset d)) ds) k"
proof -
  have dist: "distinct (map nd_key ds)"
    using assms strict_sorted_iff by (simp add: strict_sorted_iff)
  show ?thesis
  proof (cases "binary_search_by_key nd_key k ds")
    case (Inr i)
    then have i: "i < length ds" "nd_key (ds ! i) = k"
      using binary_search_by_key_correct [OF assms] by auto
    then have "(k, nd_msg_offset (ds ! i)) \<in> set (map (\<lambda>d. (nd_key d, nd_msg_offset d)) ds)"
      by (force simp: set_conv_nth)
    with dist Inr show ?thesis by (simp add: find_msg_offset_def comp_def)
  next
    case (Inl j)
    have "nd_key d \<noteq> k" if "d \<in> set ds" for d
      using that binary_search_by_key_correct [OF assms, of k] Inl by (auto simp: in_set_conv_nth)
    then have "map_of (map (\<lambda>d. (nd_key d, nd_msg_offset d)) ds) k = None"
      by (simp add: map_of_eq_None_iff image_image) blast
    then show ?thesis using Inl by (simp add: find_msg_offset_def)
  qed
qed

lemma get_msg_offset: "get_msg D off = Inr msg \<Longrightarrow> msg_offset msg = off"
  by (auto simp: get_msg_def Let_def result_simps)

subsection \<open>An example\<close>

text \<open>
  Tables with two messages.  The first has a required number, a repeated byte string, an optional
  message of the second kind and a flag whose default is true; the second has a required signed
  number.
\<close>

definition example_data :: proto_data where
  "example_data =
     \<lparr>ENUM_DEFS = [],
      MSG_DEFS =
        [4, 2, 0x37, 0,
         1, 0x80, 0, 0, 0x10, 0,
         2, 0x43, 0, 0, 0x11, 0,
         3, 0x06, 30, 0, 0x12, 0,
         4, 0x02, 0, 0, 0x13, 0,
         4, 1,
         1, 0, 0xFF, 0x7F,
         1, 0x81, 0, 0, 0x20, 0],
      NAME_DEFS = [0x30, 0, 0, 0, 0x31, 0, 30, 0],
      WIRE_DEFS = [0x37, 0, 0, 0]\<rparr>"

definition example_inner :: msg_def where
  "example_inner =
     \<lparr>msg_fields = [\<lparr>tag = 1, flags_and_type = 0x81, enum_or_msg_offset = 0, f_name = 0x20\<rparr>],
      msg_defaults = [], msg_is_experimental = False, msg_wire_id = None, msg_offset = 30\<rparr>"

definition example_outer :: msg_def where
  "example_outer =
     \<lparr>msg_fields =
        [\<lparr>tag = 1, flags_and_type = 0x80, enum_or_msg_offset = 0, f_name = 0x10\<rparr>,
         \<lparr>tag = 2, flags_and_type = 0x43, enum_or_msg_offset = 0, f_name = 0x11\<rparr>,
         \<lparr>tag = 3, flags_and_type = 0x06, enum_or_msg_offset = 30, f_name = 0x12\<rparr>,
         \<lparr>tag = 4, flags_and_type = 0x02, enum_or_msg_offset = 0, f_name = 0x13\<rparr>],
      msg_defaults = [4, 1], msg_is_experimental = False, msg_wire_id = Some 0x37, msg_offset = 0\<rparr>"

lemma example_inner: "get_msg example_data 30 = Inr example_inner"
  by (simp add: get_msg_def example_data_def example_inner_def slice_get_def Let_def groups_Cons
      parse_field_def from_le_bytes_def word_rcat_def)

lemma example_outer: "get_msg example_data 0 = Inr example_outer"
  by (simp add: get_msg_def example_data_def example_outer_def slice_get_def Let_def groups_Cons
      parse_field_def from_le_bytes_def word_rcat_def)

end
