(* ===== verification/Proto_Codec.thy ===== *)
theory Proto_Codec
  imports Proto_Defs Utf8
begin

section \<open>The protobuf codec\<close>

text \<open>
  \<^verbatim>\<open>core/embed/rust/src/protobuf/encode.rs\<close>, \<^verbatim>\<open>decode.rs\<close> and \<^verbatim>\<open>obj.rs\<close>: the encoder, the decoder and
  the message objects that MicroPython sees.  The interpreter is the record \<open>py_env\<close>: its allocator,
  the bytes of interned strings, the identifiers the build assigns to four names, and the two
  exceptions it raises.

  Encoder and decoder recurse over nested messages.  The recursion takes the number of stack frames
  that are left; with none left the outcome is \<open>Panic\<close>.  The loops take no bound: the loop over the
  fields of a stream and the one over the default values terminate because they consume input.
\<close>

record py_env =
  py_alloc :: allocator
  py_qstr :: "qstr \<Rightarrow> bytes"
  MP_QSTR_MESSAGE_WIRE_TYPE :: qstr
  MP_QSTR_MESSAGE_NAME :: qstr
  MP_QSTR_dict :: qstr
  MP_QSTR_is_type_of :: qstr
  not_iterable :: obj     \<comment> \<open>the exception raised by iterating over what cannot be iterated\<close>
  int_overflow :: obj     \<comment> \<open>the exception raised by reading an integer that does not fit\<close>

subsection \<open>Loops over fallible steps\<close>

fun rfold :: "('x \<Rightarrow> 's \<Rightarrow> ('s, 'e) result) \<Rightarrow> 'x list \<Rightarrow> 's \<Rightarrow> ('s, 'e) result" where
  "rfold f [] s = Inr s"
| "rfold f (x # xs) s = rbind (f x s) (rfold f xs)"

subsection \<open>More of the MicroPython interface\<close>

text \<open>Iteration over the built-in types: a string gives its characters, a dictionary its keys.\<close>

definition is_continuation :: "u8 \<Rightarrow> bool" where
  "is_continuation c \<longleftrightarrow> c AND 0xC0 = 0x80"

function str_chars :: "bytes \<Rightarrow> bytes list" where
  "str_chars [] = []"
| "str_chars (b # bs) = (b # takeWhile is_continuation bs) # str_chars (dropWhile is_continuation bs)"
  by pat_completeness auto
termination
  by (relation "measure length") (auto simp: le_imp_less_Suc length_dropWhile_le)

definition try_iterate :: "py_env \<Rightarrow> obj \<Rightarrow> obj list res" where
  "try_iterate E x = (case x of
      OList xs \<Rightarrow> Inr xs
    | OBytes bs \<Rightarrow> Inr (map (\<lambda>b. OInt (uint b)) bs)
    | OStr bs \<Rightarrow> Inr (map OStr (str_chars bs))
    | OQstr q \<Rightarrow> Inr (map OStr (str_chars (py_qstr E q)))
    | ODict m \<Rightarrow> Inr (map (\<lambda>e. OQstr (fst e)) m)
    | _ \<Rightarrow> Inl (Err (CaughtException (not_iterable E))))"

definition u16_of_obj :: "py_env \<Rightarrow> obj \<Rightarrow> u16 res" where
  "u16_of_obj E x =
     (let narrow = (\<lambda>i. if 0 \<le> i \<and> i < 2 ^ 16 then Inr (word_of_int i) else Inl (Err OutOfRange)) in
      case x of
        OInt i \<Rightarrow> if - (2 ^ 31) \<le> i \<and> i < 2 ^ 31 then narrow i else Inl (Err (CaughtException (int_overflow E)))
      | OBool b \<Rightarrow> narrow (of_bool b)
      | _ \<Rightarrow> Inl (Err TypeError))"

definition obj_of_usize :: "py_env \<Rightarrow> nat \<Rightarrow> obj res" where
  "obj_of_usize E n = obj_of_u64 (py_alloc E) (word_of_nat n)"

text \<open>Storing into a map allocates when the key is new.\<close>

definition obj_map_set :: "py_env \<Rightarrow> obj_map \<Rightarrow> qstr \<Rightarrow> obj \<Rightarrow> obj_map res" where
  "obj_map_set E m k v =
     (if contains_key m k then Inr (map_set m k v)
      else rbind (py_alloc E (ODict (map_set m k v))) (\<lambda>_. Inr (map_set m k v)))"

text \<open>\<open>u64\<close> to narrower integers.\<close>

definition u8_of_u64 :: "u64 \<Rightarrow> u8 res" where
  "u8_of_u64 n = (if unat n < 2 ^ 8 then Inr (ucast n) else Inl (Err OutOfRange))"

definition u16_of_u64 :: "u64 \<Rightarrow> u16 res" where
  "u16_of_u64 n = (if unat n < 2 ^ 16 then Inr (ucast n) else Inl (Err OutOfRange))"

definition usize_of_u64 :: "u64 \<Rightarrow> nat res" where
  "usize_of_u64 n = (if unat n < 2 ^ 32 then Inr (unat n) else Inl (Err OutOfRange))"

subsection \<open>Message objects\<close>

type_synonym msg_obj = "obj_map \<times> u16 option \<times> u16"

definition msg_of_obj :: "obj \<Rightarrow> msg_obj res" where
  "msg_of_obj x = (case x of OMsg m w off \<Rightarrow> Inr (m, w, off) | _ \<Rightarrow> Inl (Err TypeError))"

definition obj_of_msg :: "msg_obj \<Rightarrow> obj" where
  "obj_of_msg mo = OMsg (fst mo) (fst (snd mo)) (snd (snd mo))"

definition msg_def_of_obj :: "proto_data \<Rightarrow> obj \<Rightarrow> msg_def res" where
  "msg_def_of_obj D x = (case x of OMsgDef off \<Rightarrow> get_msg D off | _ \<Rightarrow> Inl (Err TypeError))"

definition alloc_with_capacity :: "py_env \<Rightarrow> nat \<Rightarrow> msg_def \<Rightarrow> msg_obj res" where
  "alloc_with_capacity E capacity msg =
     rbind (py_alloc E (ODict [])) (\<lambda>_.
     rbind (py_alloc E (OMsg [] (msg_wire_id msg) (msg_offset msg))) (\<lambda>_.
       Inr ([], msg_wire_id msg, msg_offset msg)))"

definition obj_of_wire_id :: "u16 option \<Rightarrow> obj" where
  "obj_of_wire_id w = (case w of None \<Rightarrow> ONone | Some i \<Rightarrow> obj_of_u16 i)"

definition msg_getattr :: "proto_data \<Rightarrow> py_env \<Rightarrow> msg_obj \<Rightarrow> qstr \<Rightarrow> obj res" where
  "msg_getattr D E mo attr = (case mo of (m, w, off) \<Rightarrow>
     (case map_get m attr of
        Inr v \<Rightarrow> Inr v
      | Inl _ \<Rightarrow>
          if attr = MP_QSTR_MESSAGE_WIRE_TYPE E then Inr (obj_of_wire_id w)
          else if attr = MP_QSTR_MESSAGE_NAME E then
            rbind (ok_or (find_name_by_msg_offset D off) (KeyError (obj_of_u16 off))) (\<lambda>name. Inr (OQstr name))
          else if attr = MP_QSTR_dict E then py_alloc E (ODict m)
          else Inl (Err (AttributeError attr))))"

definition msg_setattr :: "py_env \<Rightarrow> msg_obj \<Rightarrow> qstr \<Rightarrow> obj \<Rightarrow> msg_obj res" where
  "msg_setattr E mo attr v = (case mo of (m, w, off) \<Rightarrow>
     if v = ONull then Inl (Err TypeError)
     else if contains_key m attr then rbind (obj_map_set E m attr v) (\<lambda>m'. Inr (m', w, off))
     else Inl (Err (AttributeError attr)))"

text \<open>
  The attribute hook: \<open>dest\<close> holds null for a load and receives the value; for a store it holds the
  sentinel and the value, and receives null.  The object and the new \<open>dest[0]\<close> are returned.
\<close>

definition msg_obj_attr :: "proto_data \<Rightarrow> py_env \<Rightarrow> obj \<Rightarrow> qstr \<Rightarrow> obj \<Rightarrow> obj \<Rightarrow> (obj \<times> obj) res" where
  "msg_obj_attr D E self_in attr dest0 dest1 =
     rbind (msg_of_obj self_in) (\<lambda>mo.
       if dest0 = ONull then rbind (msg_getattr D E mo attr) (\<lambda>v. Inr (self_in, v))
       else rbind (msg_setattr E mo attr dest1) (\<lambda>mo'. Inr (obj_of_msg mo', ONull)))"

definition msg_def_obj_attr :: "proto_data \<Rightarrow> py_env \<Rightarrow> obj \<Rightarrow> qstr \<Rightarrow> obj \<Rightarrow> obj res" where
  "msg_def_obj_attr D E self_in attr dest0 =
     rbind (msg_def_of_obj D self_in) (\<lambda>def.
       if dest0 \<noteq> ONull then Inl (Err TypeError)
       else if attr = MP_QSTR_MESSAGE_NAME E then
         rbind (unwrap (find_name_by_msg_offset D (msg_offset def))) (\<lambda>name. Inr (OQstr name))
       else if attr = MP_QSTR_MESSAGE_WIRE_TYPE E then Inr (obj_of_wire_id (msg_wire_id def))
       else if attr = MP_QSTR_is_type_of E then Inr (OIsTypeOf self_in)
       else Inl (Err (AttributeError attr)))"

definition msg_def_obj_is_type_of :: "proto_data \<Rightarrow> obj \<Rightarrow> obj \<Rightarrow> obj res" where
  "msg_def_obj_is_type_of D self_in x =
     rbind (msg_def_of_obj D self_in) (\<lambda>def. case msg_of_obj x of
         Inr (_, _, off) \<Rightarrow> Inr (OBool (off = msg_offset def))
       | Inl _ \<Rightarrow> Inr (OBool False))"

definition qstr_of_obj :: "obj \<Rightarrow> qstr res" where
  "qstr_of_obj x = (case x of OQstr q \<Rightarrow> Inr q | _ \<Rightarrow> Inl (Err TypeError))"

definition protobuf_type_for_name :: "proto_data \<Rightarrow> py_env \<Rightarrow> obj \<Rightarrow> obj res" where
  "protobuf_type_for_name D E name =
     rbind (qstr_of_obj name) (\<lambda>q.
     rbind (for_name D q) (\<lambda>def.
     rbind (ok_or def (KeyError (OQstr q))) (\<lambda>def. py_alloc E (OMsgDef (msg_offset def)))))"

definition protobuf_type_for_wire :: "proto_data \<Rightarrow> py_env \<Rightarrow> obj \<Rightarrow> obj res" where
  "protobuf_type_for_wire D E wire =
     rbind (u16_of_obj E wire) (\<lambda>wire_id.
     rbind (for_wire_id D wire_id) (\<lambda>def.
     rbind (ok_or def (KeyError (obj_of_u16 wire_id))) (\<lambda>def. py_alloc E (OMsgDef (msg_offset def)))))"

subsection \<open>Encoder\<close>

text \<open>The encoder is generic in the stream; there are two streams, tagged here by a constructor.\<close>

datatype out_stream = Counting counter_stream | Buffering buffer_stream

definition os_write :: "out_stream \<Rightarrow> bytes \<Rightarrow> out_stream res" where
  "os_write s b = (case s of
      Counting c \<Rightarrow> rbind (counter_write c b) (\<lambda>c'. Inr (Counting c'))
    | Buffering u \<Rightarrow> rbind (buffer_write u b) (\<lambda>u'. Inr (Buffering u')))"

definition os_write_byte :: "out_stream \<Rightarrow> u8 \<Rightarrow> out_stream res" where
  "os_write_byte s b = (case s of
      Counting c \<Rightarrow> rbind (counter_write_byte c b) (\<lambda>c'. Inr (Counting c'))
    | Buffering u \<Rightarrow> rbind (buffer_write_byte u b) (\<lambda>u'. Inr (Buffering u')))"

definition out_len :: "out_stream \<Rightarrow> nat" where
  "out_len s = (case s of Counting c \<Rightarrow> cs_len c | Buffering u \<Rightarrow> buffer_len u)"

definition os_write_uvarint :: "u64 \<Rightarrow> out_stream \<Rightarrow> out_stream res" where
  "os_write_uvarint n s = write_uvarint os_write_byte s n"

type_synonym msg_encoder = "out_stream \<Rightarrow> msg_def \<Rightarrow> obj_map \<Rightarrow> out_stream res"

definition new_counter :: out_stream where
  "new_counter = Counting \<lparr>cs_len = 0\<rparr>"

definition total_len :: "py_env \<Rightarrow> obj list \<Rightarrow> nat res" where
  "total_len E xs = rfold (\<lambda>x len. rbind (get_buffer (py_qstr E) x) (\<lambda>b. Inr (usize_add len (length b)))) xs 0"

definition encode_buffers :: "py_env \<Rightarrow> obj \<Rightarrow> out_stream \<Rightarrow> out_stream res" where
  "encode_buffers E v s =
     (if is_ok (list_of_obj v) then
        rbind (try_iterate E v) (\<lambda>xs.
        rbind (total_len E xs) (\<lambda>len.
        rbind (os_write_uvarint (word_of_nat len) s) (\<lambda>s.
        rbind (try_iterate E v) (\<lambda>xs.
          rfold (\<lambda>x s. rbind (get_buffer (py_qstr E) x) (\<lambda>b. os_write s b)) xs s))))
      else
        rbind (get_buffer (py_qstr E) v) (\<lambda>b.
        rbind (os_write_uvarint (word_of_nat (length b)) s) (\<lambda>s. os_write s b)))"

definition encode_field :: "proto_data \<Rightarrow> py_env \<Rightarrow> msg_encoder \<Rightarrow> field_def \<Rightarrow> obj \<Rightarrow> out_stream \<Rightarrow> out_stream res" where
  "encode_field D E enc f v s =
     rbind (get_type D f) (\<lambda>ty. case ty of
       UVarInt \<Rightarrow> rbind (u64_of_obj v) (\<lambda>n. os_write_uvarint n s)
     | FEnum _ \<Rightarrow> rbind (u64_of_obj v) (\<lambda>n. os_write_uvarint n s)
     | SVarInt \<Rightarrow> rbind (i64_of_obj v) (\<lambda>i. os_write_uvarint (to_unsigned i) s)
     | FBool \<Rightarrow> rbind (bool_of_obj v) (\<lambda>b. os_write_uvarint (if b then 1 else 0) s)
     | FBytes \<Rightarrow> encode_buffers E v s
     | FString \<Rightarrow> encode_buffers E v s
     | FMsg mt \<Rightarrow>
         rbind (msg_of_obj v) (\<lambda>(m, _, _).
         rbind (enc new_counter mt m) (\<lambda>counter.
         rbind (os_write_uvarint (word_of_nat (out_len counter)) s) (\<lambda>s. enc s mt m))))"

definition field_key :: "field_def \<Rightarrow> field_type \<Rightarrow> u64" where
  "field_key f ty = push_bit 3 (ucast (tag f)) OR ucast (primitive_type ty)"

text \<open>The body of the loop over the fields.\<close>

definition encode_entry :: "proto_data \<Rightarrow> py_env \<Rightarrow> msg_encoder \<Rightarrow> obj_map \<Rightarrow> field_def \<Rightarrow> out_stream \<Rightarrow> out_stream res" where
  "encode_entry D E enc m f s = (case map_get m (f_name f) of
      Inl _ \<Rightarrow> Inr s
    | Inr v \<Rightarrow>
        if v = ONone then Inr s
        else
          rbind (get_type D f) (\<lambda>ty.
          let key = field_key f ty in
          if is_repeated f then
            rbind (try_iterate E v) (\<lambda>xs.
              rfold (\<lambda>x s. rbind (os_write_uvarint key s) (encode_field D E enc f x)) xs s)
          else rbind (os_write_uvarint key s) (encode_field D E enc f v)))"

fun encode_message :: "proto_data \<Rightarrow> py_env \<Rightarrow> nat \<Rightarrow> msg_encoder" where
  "encode_message D E 0 s msg m = Inl Panic"
| "encode_message D E (Suc n) s msg m = rfold (encode_entry D E (encode_message D E n) m) (msg_fields msg) s"

definition protobuf_len :: "proto_data \<Rightarrow> py_env \<Rightarrow> nat \<Rightarrow> obj \<Rightarrow> obj res" where
  "protobuf_len D E depth x =
     rbind (msg_of_obj x) (\<lambda>(m, _, off).
     rbind (get_msg D off) (\<lambda>def.
     rbind (encode_message D E depth new_counter def m) (\<lambda>s. obj_of_usize E (out_len s))))"

text \<open>The buffer is a \<open>bytearray\<close>; its new contents are returned with the length.\<close>

definition protobuf_encode :: "proto_data \<Rightarrow> py_env \<Rightarrow> nat \<Rightarrow> obj \<Rightarrow> obj \<Rightarrow> (obj \<times> obj) res" where
  "protobuf_encode D E depth bufo x =
     rbind (msg_of_obj x) (\<lambda>(m, _, off).
     rbind (case bufo of OBytes b \<Rightarrow> Inr b | _ \<Rightarrow> Inl (Err TypeError)) (\<lambda>b.
     rbind (get_msg D off) (\<lambda>def.
     rbind (encode_message D E depth (Buffering (buffer_new b)) def m) (\<lambda>s.
     rbind (obj_of_usize E (out_len s)) (\<lambda>len.
       Inr (case s of Buffering u \<Rightarrow> OBytes (bs_buf u) | Counting _ \<Rightarrow> bufo, len))))))"

subsection \<open>Decoder\<close>

type_synonym msg_decoder = "input_stream \<Rightarrow> msg_def \<Rightarrow> obj res"

text \<open>The match on the type of a field, after its first varint.\<close>

definition decode_value :: "py_env \<Rightarrow> msg_decoder \<Rightarrow> qstr \<Rightarrow> field_type \<Rightarrow> u64 \<Rightarrow> input_stream \<Rightarrow> (obj \<times> input_stream) res" where
  "decode_value E dec name ty num s = (case ty of
      UVarInt \<Rightarrow> rbind (obj_of_u64 (py_alloc E) num) (\<lambda>v. Inr (v, s))
    | SVarInt \<Rightarrow> rbind (obj_of_i64 (py_alloc E) (to_signed num)) (\<lambda>v. Inr (v, s))
    | FBool \<Rightarrow> Inr (obj_of_bool (num \<noteq> 0), s)
    | FBytes \<Rightarrow>
        rbind (usize_of_u64 num) (\<lambda>len.
        rbind (read s len) (\<lambda>(b, s).
        rbind (py_alloc E (OBytes b)) (\<lambda>v. Inr (v, s))))
    | FString \<Rightarrow>
        rbind (usize_of_u64 num) (\<lambda>len.
        rbind (read s len) (\<lambda>(b, s).
        rbind (ok_or (from_utf8 b) (invalid_value name)) (\<lambda>u.
        rbind (py_alloc E (OStr u)) (\<lambda>v. Inr (v, s)))))
    | FEnum e \<Rightarrow>
        rbind (u16_of_u64 num) (\<lambda>val.
          if val \<in> set (enum_values e) then Inr (obj_of_u16 val, s) else Inl (Err (invalid_value name)))
    | FMsg mt \<Rightarrow>
        rbind (usize_of_u64 num) (\<lambda>len.
        rbind (read_stream s len) (\<lambda>(sub, s).
        rbind (dec sub mt) (\<lambda>v. Inr (v, s)))))"

definition decode_field :: "proto_data \<Rightarrow> py_env \<Rightarrow> bool \<Rightarrow> msg_decoder \<Rightarrow> input_stream \<Rightarrow> field_def \<Rightarrow> (obj \<times> input_stream) res" where
  "decode_field D E enable_experimental dec s f =
     (if is_experimental f \<and> \<not> enable_experimental then Inl (Err experimental_not_enabled)
      else
        rbind (read_uvarint s) (\<lambda>(num, s).
        rbind (get_type D f) (\<lambda>ty. decode_value E dec (f_name f) ty num s)))"

text \<open>Skipping the value of a field by its primitive type.\<close>

definition skip_value :: "input_stream \<Rightarrow> u8 \<Rightarrow> input_stream res" where
  "skip_value s prim_type =
     (if prim_type = PRIMITIVE_TYPE_VARINT then rbind (read_uvarint s) (\<lambda>(_, s). Inr s)
      else if prim_type = PRIMITIVE_TYPE_LENGTH_DELIMITED then
        rbind (read_uvarint s) (\<lambda>(num, s).
        rbind (usize_of_u64 num) (\<lambda>len.
        rbind (read s len) (\<lambda>(_, s). Inr s)))
      else Inl (Err unknown_field_type))"

text \<open>Storing a decoded value; the values of a repeated field are collected in a list.\<close>

definition store_field :: "py_env \<Rightarrow> field_def \<Rightarrow> obj \<Rightarrow> obj_map \<Rightarrow> obj_map res" where
  "store_field E f v m =
     (if is_repeated f then
        (case map_get m (f_name f) of
           Inr x \<Rightarrow>
             rbind (list_of_obj x) (\<lambda>xs.
             rbind (py_alloc E (OList (xs @ [v]))) (\<lambda>_. Inr (map_set m (f_name f) (OList (xs @ [v])))))
         | Inl _ \<Rightarrow> rbind (py_alloc E (OList [v])) (\<lambda>l. obj_map_set E m (f_name f) l))
      else obj_map_set E m (f_name f) v)"

text \<open>The body of the loop over the fields in the stream.\<close>

definition decode_one :: "proto_data \<Rightarrow> py_env \<Rightarrow> bool \<Rightarrow> msg_decoder \<Rightarrow> u64 \<Rightarrow> input_stream \<Rightarrow> msg_def \<Rightarrow> obj_map \<Rightarrow>
    (obj_map \<times> input_stream) res" where
  "decode_one D E enable_experimental dec key s msg m =
     rbind (u8_of_u64 (drop_bit 3 key)) (\<lambda>field_tag.
     rbind (u8_of_u64 (key AND 7)) (\<lambda>prim_type.
       case msg_field msg field_tag of
         Some f \<Rightarrow>
           rbind (decode_field D E enable_experimental dec s f) (\<lambda>(v, s).
           rbind (store_field E f v m) (\<lambda>m. Inr (m, s)))
       | None \<Rightarrow> rbind (skip_value s prim_type) (\<lambda>s. Inr (m, s))))"

text \<open>Each step leaves the stream at the same or a later position.\<close>

definition later :: "input_stream \<Rightarrow> input_stream \<Rightarrow> bool" where
  "later s s' \<longleftrightarrow> buf s' = buf s \<and> pos s \<le> pos s'"

lemma later_refl [simp]: "later s s"
  by (simp add: later_def)

lemma later_trans: "later a b \<Longrightarrow> later b c \<Longrightarrow> later a c"
  by (auto simp: later_def)

lemma read_later: "read s n = Inr (b, s') \<Longrightarrow> later s s'"
  by (auto simp: read_def later_def slice_get_def result_simps split: if_splits)

lemma read_uvarint_later: "read_uvarint s = Inr (n, s') \<Longrightarrow> later s s' \<and> pos s < pos s' \<and> pos s' \<le> length (buf s)"
  using read_uvarint_progress [of s n s'] by (auto simp: later_def length_input)

lemma read_stream_later: "read_stream s n = Inr (sub, s') \<Longrightarrow> later s s'"
  using read_later by (auto simp: read_stream_def result_simps)

lemma decode_field_later: "decode_field D E xp dec s f = Inr (v, s') \<Longrightarrow> later s s'"
proof -
  assume h: "decode_field D E xp dec s f = Inr (v, s')"
  then obtain num s1 ty where r: "read_uvarint s = Inr (num, s1)" "(get_type D f :: field_type res) = Inr ty"
    by (auto simp: decode_field_def result_simps split: if_splits)
  have "later s1 s'"
    using h r by (cases ty) (auto simp: decode_field_def decode_value_def result_simps dest: read_later read_stream_later split: if_splits)
  with read_uvarint_later [OF r(1)] later_trans show ?thesis by blast
qed

lemma skip_value_later: "skip_value s p = Inr s' \<Longrightarrow> later s s'"
  using later_trans by (auto simp: skip_value_def result_simps split: if_splits dest!: read_uvarint_later read_later)

lemma decode_one_later: "decode_one D E xp dec key s msg m = Inr (m', s') \<Longrightarrow> later s s'"
  using decode_field_later skip_value_later
  by (fastforce simp: decode_one_def result_simps split: option.splits)

function decode_fields_into :: "proto_data \<Rightarrow> py_env \<Rightarrow> bool \<Rightarrow> msg_decoder \<Rightarrow> input_stream \<Rightarrow> msg_def \<Rightarrow> obj_map \<Rightarrow> obj_map res" where
  "decode_fields_into D E enable_experimental dec s msg m = (case read_uvarint s of
      Inl Panic \<Rightarrow> Inl Panic
    | Inl (Err _) \<Rightarrow> Inr m
    | Inr (key, s1) \<Rightarrow>
        rbind (decode_one D E enable_experimental dec key s1 msg m) (\<lambda>(m', s2).
          decode_fields_into D E enable_experimental dec s2 msg m'))"
  by pat_completeness auto

termination
  by (relation "measure (\<lambda>(_, _, _, _, s, _). length (buf s) - pos s)")
    (auto dest!: read_uvarint_later decode_one_later simp: later_def)

declare decode_fields_into.simps [simp del]

text \<open>The body of the loop over the default values: a tag, then the value.\<close>

definition decode_default :: "proto_data \<Rightarrow> py_env \<Rightarrow> bool \<Rightarrow> msg_decoder \<Rightarrow> u8 \<Rightarrow> input_stream \<Rightarrow> msg_def \<Rightarrow> obj_map \<Rightarrow>
    (obj_map \<times> input_stream) res" where
  "decode_default D E enable_experimental dec field_tag s msg m =
     rbind (ok_or (msg_field msg field_tag) (KeyError (obj_of_u8 field_tag))) (\<lambda>f.
       if contains_key m (f_name f) then
         rbind (get_type D f) (\<lambda>ty. rbind (skip_value s (primitive_type ty)) (\<lambda>s. Inr (m, s)))
       else
         rbind (decode_field D E enable_experimental dec s f) (\<lambda>(v, s).
         rbind (obj_map_set E m (f_name f) v) (\<lambda>m. Inr (m, s))))"

lemma decode_default_later: "decode_default D E xp dec t s msg m = Inr (m', s') \<Longrightarrow> later s s'"
  using decode_field_later skip_value_later
  by (fastforce simp: decode_default_def result_simps split: if_splits)

function defaults_loop :: "proto_data \<Rightarrow> py_env \<Rightarrow> bool \<Rightarrow> msg_decoder \<Rightarrow> input_stream \<Rightarrow> msg_def \<Rightarrow> obj_map \<Rightarrow> obj_map res" where
  "defaults_loop D E enable_experimental dec s msg m = (case read_byte s of
      Inl Panic \<Rightarrow> Inl Panic
    | Inl (Err _) \<Rightarrow> Inr m
    | Inr (field_tag, s1) \<Rightarrow>
        rbind (decode_default D E enable_experimental dec field_tag s1 msg m) (\<lambda>(m', s2).
          defaults_loop D E enable_experimental dec s2 msg m'))"
  by pat_completeness auto

termination
  by (relation "measure (\<lambda>(_, _, _, _, s, _). length (buf s) - pos s)")
    (auto dest!: decode_default_later simp: later_def read_byte_def nth_get_def result_simps split: if_splits)

declare defaults_loop.simps [simp del]

definition decode_defaults_into :: "proto_data \<Rightarrow> py_env \<Rightarrow> bool \<Rightarrow> msg_decoder \<Rightarrow> msg_def \<Rightarrow> obj_map \<Rightarrow> obj_map res" where
  "decode_defaults_into D E enable_experimental dec msg m =
     defaults_loop D E enable_experimental dec (stream_new (msg_defaults msg)) msg m"

definition assign_required :: "py_env \<Rightarrow> field_def \<Rightarrow> obj_map \<Rightarrow> obj_map res" where
  "assign_required E f m =
     (if contains_key m (f_name f) then Inr m
      else if is_required f then Inl (Err (missing_required_field (f_name f)))
      else if is_repeated f then rbind (py_alloc E (OList [])) (\<lambda>l. obj_map_set E m (f_name f) l)
      else obj_map_set E m (f_name f) ONone)"

definition assign_required_into :: "py_env \<Rightarrow> msg_def \<Rightarrow> obj_map \<Rightarrow> obj_map res" where
  "assign_required_into E msg m = rfold (assign_required E) (msg_fields msg) m"

definition empty_message :: "py_env \<Rightarrow> msg_def \<Rightarrow> msg_obj res" where
  "empty_message E msg = alloc_with_capacity E (length (msg_fields msg)) msg"

fun message_from_stream :: "proto_data \<Rightarrow> py_env \<Rightarrow> bool \<Rightarrow> nat \<Rightarrow> msg_decoder" where
  "message_from_stream D E enable_experimental 0 s msg = Inl Panic"
| "message_from_stream D E enable_experimental (Suc n) s msg =
     (let dec = message_from_stream D E enable_experimental n in
      rbind (empty_message E msg) (\<lambda>(m, w, off).
      rbind (decode_fields_into D E enable_experimental dec s msg m) (\<lambda>m.
      rbind (decode_defaults_into D E enable_experimental dec msg m) (\<lambda>m.
      rbind (assign_required_into E msg m) (\<lambda>m. Inr (OMsg m w off))))))"

definition message_from_values :: "proto_data \<Rightarrow> py_env \<Rightarrow> bool \<Rightarrow> nat \<Rightarrow> obj_map \<Rightarrow> msg_def \<Rightarrow> obj res" where
  "message_from_values D E enable_experimental depth vals msg =
     rbind (empty_message E msg) (\<lambda>(m, w, off).
     rbind (rfold (\<lambda>(k, v) m. obj_map_set E m k v) vals m) (\<lambda>m.
     rbind (decode_defaults_into D E enable_experimental (message_from_stream D E enable_experimental depth) msg m) (\<lambda>m.
     rbind (assign_required_into E msg m) (\<lambda>m. Inr (OMsg m w off)))))"

definition protobuf_decode :: "proto_data \<Rightarrow> py_env \<Rightarrow> nat \<Rightarrow> obj \<Rightarrow> obj \<Rightarrow> obj \<Rightarrow> obj res" where
  "protobuf_decode D E depth bufo msg_def_obj enable_exp =
     rbind (msg_def_of_obj D msg_def_obj) (\<lambda>def.
     rbind (bool_of_obj enable_exp) (\<lambda>enable_experimental.
       if \<not> enable_experimental \<and> msg_is_experimental def then Inl (Err experimental_not_enabled)
       else
         rbind (get_buffer (py_qstr E) bufo) (\<lambda>b.
           message_from_stream D E enable_experimental depth (stream_new b) def)))"

definition msg_def_obj_call :: "proto_data \<Rightarrow> py_env \<Rightarrow> nat \<Rightarrow> obj \<Rightarrow> obj_map \<Rightarrow> obj res" where
  "msg_def_obj_call D E depth self_in kwargs =
     rbind (msg_def_of_obj D self_in) (\<lambda>def. message_from_values D E True depth kwargs def)"

end
