(* ===== verification/Proto_Encode.thy ===== *)
theory Proto_Encode
  imports Proto_Codec
begin

section \<open>The encoder against a reference encoding\<close>

text \<open>
  The reference encoding computes the bytes of a message as a value, without a stream and without a
  first pass that counts.  The encoder, on either stream, writes exactly these bytes.
\<close>

subsection \<open>The reference\<close>

fun rconcat :: "('x \<Rightarrow> ('b list, 'e) result) \<Rightarrow> 'x list \<Rightarrow> ('b list, 'e) result" where
  "rconcat f [] = Inr []"
| "rconcat f (x # xs) = rbind (f x) (\<lambda>b. rbind (rconcat f xs) (\<lambda>c. Inr (b @ c)))"

definition prefixed :: "bytes \<Rightarrow> bytes" where
  "prefixed b = uvarint_bytes (word_of_nat (length b mod 2 ^ 32)) @ b"

definition ref_buffers :: "py_env \<Rightarrow> obj \<Rightarrow> bytes res" where
  "ref_buffers E v =
     rbind (case v of OList xs \<Rightarrow> rconcat (get_buffer (py_qstr E)) xs | _ \<Rightarrow> get_buffer (py_qstr E) v)
       (\<lambda>b. Inr (prefixed b))"

definition ref_field :: "proto_data \<Rightarrow> py_env \<Rightarrow> (msg_def \<Rightarrow> obj_map \<Rightarrow> bytes res) \<Rightarrow> field_def \<Rightarrow> obj \<Rightarrow> bytes res" where
  "ref_field D E ref f v =
     rbind (get_type D f) (\<lambda>ty. case ty of
       UVarInt \<Rightarrow> rbind (u64_of_obj v) (\<lambda>n. Inr (uvarint_bytes n))
     | FEnum _ \<Rightarrow> rbind (u64_of_obj v) (\<lambda>n. Inr (uvarint_bytes n))
     | SVarInt \<Rightarrow> rbind (i64_of_obj v) (\<lambda>i. Inr (uvarint_bytes (to_unsigned i)))
     | FBool \<Rightarrow> rbind (bool_of_obj v) (\<lambda>b. Inr (uvarint_bytes (if b then 1 else 0)))
     | FBytes \<Rightarrow> ref_buffers E v
     | FString \<Rightarrow> ref_buffers E v
     | FMsg mt \<Rightarrow> rbind (msg_of_obj v) (\<lambda>(m, _, _). rbind (ref mt m) (\<lambda>b. Inr (prefixed b))))"

definition ref_value :: "proto_data \<Rightarrow> py_env \<Rightarrow> (msg_def \<Rightarrow> obj_map \<Rightarrow> bytes res) \<Rightarrow> field_def \<Rightarrow> field_type \<Rightarrow> obj \<Rightarrow> bytes res" where
  "ref_value D E ref f ty v = rbind (ref_field D E ref f v) (\<lambda>b. Inr (uvarint_bytes (field_key f ty) @ b))"

definition ref_entry :: "proto_data \<Rightarrow> py_env \<Rightarrow> (msg_def \<Rightarrow> obj_map \<Rightarrow> bytes res) \<Rightarrow> obj_map \<Rightarrow> field_def \<Rightarrow> bytes res" where
  "ref_entry D E ref m f = (case map_of m (f_name f) of
      None \<Rightarrow> Inr []
    | Some v \<Rightarrow>
        if v = ONone then Inr []
        else
          rbind (get_type D f) (\<lambda>ty.
            if is_repeated f then rbind (try_iterate E v) (rconcat (ref_value D E ref f ty))
            else ref_value D E ref f ty v))"

fun ref_message :: "proto_data \<Rightarrow> py_env \<Rightarrow> nat \<Rightarrow> msg_def \<Rightarrow> obj_map \<Rightarrow> bytes res" where
  "ref_message D E 0 msg m = Inl Panic"
| "ref_message D E (Suc n) msg m = rconcat (ref_entry D E (ref_message D E n) m) (msg_fields msg)"

subsection \<open>The tagged stream keeps the contract\<close>

definition out_inv :: "out_stream \<Rightarrow> bool" where
  "out_inv s = (case s of Counting c \<Rightarrow> counter_inv c | Buffering u \<Rightarrow> buffer_inv u)"

definition out_fits :: "out_stream \<Rightarrow> nat \<Rightarrow> bool" where
  "out_fits s n = (case s of Counting _ \<Rightarrow> True | Buffering u \<Rightarrow> buffer_fits u n)"

definition out_emit :: "out_stream \<Rightarrow> bytes \<Rightarrow> out_stream" where
  "out_emit s b = (case s of Counting c \<Rightarrow> Counting (counter_emit c b) | Buffering u \<Rightarrow> Buffering (buffer_emit u b))"

lemmas out_defs = out_inv_def out_fits_def out_emit_def

interpretation out: output_stream os_write os_write_byte out_inv out_fits out_emit
proof
  fix s b c and x n :: nat
  show "out_inv s \<Longrightarrow> length b < 2 ^ 31 \<Longrightarrow>
      os_write s b = (if out_fits s (length b) then Inr (out_emit s b) else Inl (Err end_of_buffer))"
    by (cases s) (simp_all add: out_defs os_write_def counter.write_spec buffer.write_spec)
  show "out_inv s \<Longrightarrow> out_fits s (length b) \<Longrightarrow> out_inv (out_emit s b)"
    by (cases s) (simp_all add: out_defs counter.inv_emit buffer.inv_emit)
  show "out_inv s \<Longrightarrow> out_fits s (length b + length c) \<Longrightarrow> out_emit (out_emit s b) c = out_emit s (b @ c)"
    by (cases s) (simp_all add: out_defs counter.emit_emit buffer.emit_emit)
  show "out_inv s \<Longrightarrow> out_emit s [] = s"
    by (cases s) (simp_all add: out_defs counter.emit_Nil buffer.emit_Nil)
  show "out_inv s \<Longrightarrow> out_fits s 0"
    by (cases s) (simp_all add: out_defs buffer.fits_0)
  show "out_inv s \<Longrightarrow> out_fits s (length b + n) \<longleftrightarrow> out_fits s (length b) \<and> out_fits (out_emit s b) n"
    by (cases s) (simp_all add: out_defs buffer.fits_emit)
next
  fix s x
  show "out_inv s \<Longrightarrow>
      os_write_byte s x = (if out_fits s 1 then Inr (out_emit s [x]) else Inl (Err end_of_buffer))"
    by (cases s) (simp_all add: out_defs os_write_byte_def counter.write_byte_spec [simplified] buffer.write_byte_spec [simplified])
qed

subsection \<open>Writing a value\<close>

text \<open>
  \<open>writes c r\<close>: on every stream the computation \<open>c\<close> writes the bytes of the reference \<open>r\<close> if there
  is room, fails as \<open>r\<close> fails, or stops because the buffer is full.
\<close>

definition writes :: "(out_stream \<Rightarrow> out_stream res) \<Rightarrow> bytes res \<Rightarrow> bool" where
  "writes c r \<longleftrightarrow> (\<forall>s. out_inv s \<longrightarrow> (case r of
      Inr b \<Rightarrow> c s = (if out_fits s (length b) then Inr (out_emit s b) else Inl (Err end_of_buffer))
    | Inl f \<Rightarrow> c s = Inl f \<or> (c s = Inl (Err end_of_buffer) \<and> \<not> (\<forall>n. out_fits s n))))"

lemma writesD:
  assumes "writes c (Inr b)" "out_inv s"
  shows "c s = (if out_fits s (length b) then Inr (out_emit s b) else Inl (Err end_of_buffer))"
  using assms by (simp add: writes_def)

lemma writes_Inl: "writes (\<lambda>s. Inl f) (Inl f)"
  by (simp add: writes_def)

lemma writes_nothing: "writes Inr (Inr [])"
  by (auto simp: writes_def out.emit_Nil out.fits_0)

lemma writes_uvarint: "writes (os_write_uvarint n) (Inr (uvarint_bytes n))"
  by (auto simp: writes_def os_write_uvarint_def out.write_uvarint_spec)

lemma writes_bytes: "length b < 2 ^ 31 \<Longrightarrow> writes (\<lambda>s. os_write s b) (Inr b)"
  by (auto simp: writes_def out.write_spec)

lemma writes_bind: "(\<And>x. r = Inr x \<Longrightarrow> writes (c x) (q x)) \<Longrightarrow> writes (\<lambda>s. rbind r (\<lambda>x. c x s)) (rbind r q)"
  by (cases r) (auto simp: writes_Inl)

lemma writes_seq:
  assumes "writes c r" "writes d q"
  shows "writes (\<lambda>s. rbind (c s) d) (rbind r (\<lambda>x. rbind q (\<lambda>y. Inr (x @ y))))"
proof (cases r)
  case (Inl f)
  with assms(1) show ?thesis by (fastforce simp: writes_def)
next
  case r: (Inr b)
  have step: "rbind (c s) d = (if out_fits s (length b) then d (out_emit s b) else Inl (Err end_of_buffer))"
    if "out_inv s" for s
    using assms(1) that by (simp add: r writes_def)
  show ?thesis
  proof (cases q)
    case (Inl f)
    have "rbind (c s) d = Inl f \<or> (rbind (c s) d = Inl (Err end_of_buffer) \<and> \<not> (\<forall>n. out_fits s n))" if "out_inv s" for s
      using assms(2) that step [OF that] out.inv_emit [OF that, of b] out.fits_emit [OF that, of b]
      by (auto simp: writes_def Inl)
    with r Inl show ?thesis by (simp add: writes_def)
  next
    case q: (Inr b')
    have "rbind (c s) d =
        (if out_fits s (length (b @ b')) then Inr (out_emit s (b @ b')) else Inl (Err end_of_buffer))"
      if "out_inv s" for s
      using writesD [OF assms(2) [unfolded q] out.inv_emit [OF that, of b]] step [OF that]
        out.fits_emit [OF that, of b "length b'"] out.emit_emit [OF that, of b b']
      by auto
    with r q show ?thesis by (simp add: writes_def)
  qed
qed

lemma writes_rfold:
  "(\<And>x. x \<in> set xs \<Longrightarrow> writes (c x) (r x)) \<Longrightarrow> writes (rfold c xs) (rconcat r xs)"
proof (induction xs)
  case Nil
  have "rfold c [] = Inr" by (rule ext) simp
  then show ?case by (simp add: writes_nothing)
next
  case (Cons x xs)
  have "rfold c (x # xs) = (\<lambda>s. rbind (c x s) (rfold c xs))" by (rule ext) simp
  with writes_seq [OF Cons.prems [of x] Cons.IH] Cons.prems show ?case by simp
qed

subsection \<open>Objects of a machine of 32 bits\<close>

text \<open>No buffer is longer than \<open>isize::MAX\<close>.\<close>

fun small_obj :: "obj \<Rightarrow> bool" where
  "small_obj (OBytes b) = (length b < 2 ^ 31)"
| "small_obj (OStr b) = (length b < 2 ^ 31)"
| "small_obj (OList xs) = (\<forall>x\<in>set xs. small_obj x)"
| "small_obj (OMsg m w off) = (\<forall>e\<in>set m. small_obj (snd e))"
| "small_obj _ = True"

definition small_env :: "py_env \<Rightarrow> bool" where
  "small_env E \<longleftrightarrow> (\<forall>q. length (py_qstr E q) < 2 ^ 31)"

lemma get_buffer_small: "small_env E \<Longrightarrow> small_obj v \<Longrightarrow> get_buffer (py_qstr E) v = Inr b \<Longrightarrow> length b < 2 ^ 31"
  by (cases v) (auto simp: get_buffer_def small_env_def)

lemma str_chars_length: "c \<in> set (str_chars b) \<Longrightarrow> length c \<le> length b"
proof (induction b rule: str_chars.induct)
  case (2 b bs)
  then show ?case
    using length_takeWhile_le [of is_continuation bs] length_dropWhile_le [of is_continuation bs] by fastforce
qed simp

lemma try_iterate_small:
  assumes "small_env E" "small_obj v" "try_iterate E v = Inr xs" "x \<in> set xs"
  shows "small_obj x"
  using assms str_chars_length
  by (cases v) (auto simp: try_iterate_def small_env_def, (meson le_less_trans)+)

lemma small_lookup: "small_obj (OMsg m w off) \<Longrightarrow> map_of m k = Some v \<Longrightarrow> small_obj v"
  by (auto dest!: map_of_SomeD)

subsection \<open>The encoder writes the reference\<close>

lemma total_len_eq:
  "rfold (\<lambda>x len. rbind (get_buffer q x) (\<lambda>b. Inr (usize_add len (length b)))) xs n =
     rbind (rconcat (get_buffer q) xs) (\<lambda>b. Inr (if xs = [] then n else (n + length b) mod 2 ^ 32))"
  by (induction xs arbitrary: n)
    (auto simp: usize_add_def rbind_assoc mod_add_left_eq add.assoc intro!: rbind_cong)

lemma total_len_spec: "total_len E xs = rbind (rconcat (get_buffer (py_qstr E)) xs) (\<lambda>b. Inr (length b mod 2 ^ 32))"
  unfolding total_len_def total_len_eq by (cases xs) simp_all

lemma writes_buffer_list:
  assumes "\<And>x. x \<in> set xs \<Longrightarrow> small_obj x" "small_env E"
  shows "writes (rfold (\<lambda>x s. rbind (get_buffer (py_qstr E) x) (\<lambda>b. os_write s b)) xs)
    (rconcat (get_buffer (py_qstr E)) xs)"
proof (rule writes_rfold)
  fix x assume "x \<in> set xs"
  then have "writes (\<lambda>s. os_write s b) (Inr b)" if "get_buffer (py_qstr E) x = Inr b" for b
    using assms get_buffer_small that writes_bytes by blast
  from writes_bind [of "get_buffer (py_qstr E) x" "\<lambda>b s. os_write s b" Inr, OF this]
  show "writes (\<lambda>s. rbind (get_buffer (py_qstr E) x) (os_write s)) (get_buffer (py_qstr E) x)"
    by (cases "get_buffer (py_qstr E) x") simp_all
qed

lemma writes_buffers:
  assumes "small_obj v" "small_env E"
  shows "writes (encode_buffers E v) (ref_buffers E v)"
proof (cases "\<exists>xs. v = OList xs")
  case True
  then obtain xs where v: "v = OList xs" by blast
  let ?r = "rconcat (get_buffer (py_qstr E)) xs"
  have w: "writes (\<lambda>s. rbind ?r (\<lambda>b. rbind (os_write_uvarint (word_of_nat (length b mod 2 ^ 32)) s)
      (rfold (\<lambda>x s. rbind (get_buffer (py_qstr E) x) (\<lambda>b. os_write s b)) xs)))
    (rbind ?r (\<lambda>b. rbind (Inr (uvarint_bytes (word_of_nat (length b mod 2 ^ 32)))) (\<lambda>x. rbind ?r (\<lambda>y. Inr (x @ y)))))"
    using assms v by (intro writes_bind writes_seq writes_uvarint writes_buffer_list) auto
  have "encode_buffers E v = (\<lambda>s. rbind ?r (\<lambda>b. rbind (os_write_uvarint (word_of_nat (length b mod 2 ^ 32)) s)
      (rfold (\<lambda>x s. rbind (get_buffer (py_qstr E) x) (\<lambda>b. os_write s b)) xs)))"
    by (rule ext) (simp add: encode_buffers_def v list_of_obj_def try_iterate_def total_len_spec rbind_assoc)
  moreover have "ref_buffers E v =
      (rbind ?r (\<lambda>b. rbind (Inr (uvarint_bytes (word_of_nat (length b mod 2 ^ 32)))) (\<lambda>x. rbind ?r (\<lambda>y. Inr (x @ y)))))"
    by (cases ?r) (simp_all add: ref_buffers_def v prefixed_def)
  ultimately show ?thesis using w by simp
next
  case False
  have len: "length b < 2 ^ 31" if "get_buffer (py_qstr E) v = Inr b" for b
    using get_buffer_small [OF assms(2,1) that] .
  have w: "writes (\<lambda>s. rbind (get_buffer (py_qstr E) v) (\<lambda>b. rbind (os_write_uvarint (word_of_nat (length b)) s) (\<lambda>s. os_write s b)))
    (rbind (get_buffer (py_qstr E) v) (\<lambda>b. rbind (Inr (uvarint_bytes (word_of_nat (length b)))) (\<lambda>x. rbind (Inr b) (\<lambda>y. Inr (x @ y)))))"
    by (intro writes_bind writes_seq writes_uvarint writes_bytes len)
  have "encode_buffers E v = (\<lambda>s. rbind (get_buffer (py_qstr E) v) (\<lambda>b. rbind (os_write_uvarint (word_of_nat (length b)) s) (\<lambda>s. os_write s b)))"
    using False by (intro ext) (cases v; simp add: encode_buffers_def list_of_obj_def)
  moreover have "ref_buffers E v =
      rbind (get_buffer (py_qstr E) v) (\<lambda>b. rbind (Inr (uvarint_bytes (word_of_nat (length b)))) (\<lambda>x. rbind (Inr b) (\<lambda>y. Inr (x @ y))))"
    using False len by (cases v; cases "get_buffer (py_qstr E) v") (auto simp: ref_buffers_def prefixed_def)
  ultimately show ?thesis using w by simp
qed

definition encodes :: "msg_encoder \<Rightarrow> (msg_def \<Rightarrow> obj_map \<Rightarrow> bytes res) \<Rightarrow> bool" where
  "encodes enc ref \<longleftrightarrow>
     (\<forall>mt m w off. small_obj (OMsg m w off) \<longrightarrow> writes (\<lambda>s. enc s mt m) (ref mt m))"

lemma writes_message:
  assumes "encodes enc ref" "small_obj (OMsg m w off)"
  shows "writes (\<lambda>s. rbind (enc new_counter mt m) (\<lambda>counter.
      rbind (os_write_uvarint (word_of_nat (out_len counter)) s) (\<lambda>s. enc s mt m)))
    (rbind (ref mt m) (\<lambda>b. Inr (prefixed b)))"
proof (cases "ref mt m")
  have c: "out_inv new_counter" "\<And>n. out_fits new_counter n"
    by (simp_all add: new_counter_def out_defs counter_inv_def)
  have e: "writes (\<lambda>s. enc s mt m) (ref mt m)"
    using assms by (auto simp: encodes_def)
  {
    case (Inl f)
    with e c have "enc new_counter mt m = Inl f" by (auto simp: writes_def)
    with Inl show ?thesis by (simp add: writes_Inl)
  next
    case (Inr b)
    with e c have n: "enc new_counter mt m = Inr (out_emit new_counter b)" by (simp add: writes_def)
    have "out_len (out_emit new_counter b) = length b mod 2 ^ 32"
      by (simp add: new_counter_def out_defs out_len_def counter_emit_def usize_add_def)
    then show ?thesis
      using writes_seq [OF writes_uvarint [of "word_of_nat (length b mod 2 ^ 32)"] e] Inr n by (simp add: prefixed_def)
  }
qed

lemma writes_cong:
  assumes "writes d q" "\<And>s. c s = d s" "r = q"
  shows "writes c r"
proof -
  have "c = d" using assms(2) by (rule ext)
  with assms show ?thesis by simp
qed

lemma writes_int: "writes (\<lambda>s. rbind r (\<lambda>n. os_write_uvarint (g n) s)) (rbind r (\<lambda>n. Inr (uvarint_bytes (g n))))"
  by (intro writes_bind writes_uvarint)

lemma writes_submessage:
  assumes "encodes enc ref" "small_obj v"
  shows "writes (\<lambda>s. rbind (msg_of_obj v) (\<lambda>(m, _, _).
       rbind (enc new_counter mt m) (\<lambda>counter.
       rbind (os_write_uvarint (word_of_nat (out_len counter)) s) (\<lambda>s. enc s mt m))))
     (rbind (msg_of_obj v) (\<lambda>(m, _, _). rbind (ref mt m) (\<lambda>b. Inr (prefixed b))))"
proof (cases "\<exists>m w off. v = OMsg m w off")
  case True
  with assms writes_message [OF assms(1)] show ?thesis by (auto simp: msg_of_obj_def)
next
  case False
  then have "msg_of_obj v = Inl (Err TypeError)" by (cases v) (auto simp: msg_of_obj_def)
  then show ?thesis by (simp add: writes_Inl)
qed

lemma writes_field:
  assumes "encodes enc ref" "small_env E" "small_obj v"
  shows "writes (encode_field D E enc f v) (ref_field D E ref f v)"
proof (cases "get_type D f :: field_type res")
  case (Inl x)
  show ?thesis
    by (rule writes_cong [OF writes_Inl [of x]]) (simp_all add: encode_field_def ref_field_def Inl)
next
  case (Inr ty)
  note d = encode_field_def ref_field_def Inr
  show ?thesis
  proof (cases ty)
    case UVarInt
    show ?thesis by (rule writes_cong [OF writes_int [of "u64_of_obj v" "\<lambda>n. n"]]) (simp_all add: d UVarInt)
  next
    case (FEnum e)
    show ?thesis by (rule writes_cong [OF writes_int [of "u64_of_obj v" "\<lambda>n. n"]]) (simp_all add: d FEnum)
  next
    case SVarInt
    show ?thesis by (rule writes_cong [OF writes_int [of "i64_of_obj v" to_unsigned]]) (simp_all add: d SVarInt)
  next
    case FBool
    show ?thesis
      by (rule writes_cong [OF writes_int [of "bool_of_obj v" "\<lambda>b. if b then 1 else 0"]]) (simp_all add: d FBool)
  next
    case FBytes
    show ?thesis by (rule writes_cong [OF writes_buffers [OF assms(3,2)]]) (simp_all add: d FBytes)
  next
    case FString
    show ?thesis by (rule writes_cong [OF writes_buffers [OF assms(3,2)]]) (simp_all add: d FString)
  next
    case (FMsg mt)
    show ?thesis by (rule writes_cong [OF writes_submessage [OF assms(1,3), of mt]]) (simp_all add: d FMsg)
  qed
qed

lemma writes_value:
  assumes "encodes enc ref" "small_env E" "small_obj v"
  shows "writes (\<lambda>s. rbind (os_write_uvarint (field_key f ty) s) (encode_field D E enc f v)) (ref_value D E ref f ty v)"
  using writes_seq [OF writes_uvarint writes_field [OF assms]] by (simp add: ref_value_def)

lemma writes_entry:
  assumes "encodes enc ref" "small_env E" "small_obj (OMsg m w off)"
  shows "writes (encode_entry D E enc m f) (ref_entry D E ref m f)"
proof (cases "map_of m (f_name f)")
  case None
  then have n: "map_get m (f_name f) = Inl (Err (KeyError (OQstr (f_name f))))" by (simp add: map_get_Inl)
  show ?thesis
    by (rule writes_cong [OF writes_nothing]) (simp_all add: encode_entry_def ref_entry_def n None)
next
  case (Some v)
  note d = encode_entry_def ref_entry_def Some map_get_def
  have sm: "small_obj v" using small_lookup [OF assms(3) Some] .
  have rep: "writes (\<lambda>s. rbind (try_iterate E v) (\<lambda>xs. rfold (\<lambda>x s. rbind (os_write_uvarint (field_key f ty) s) (encode_field D E enc f x)) xs s))
    (rbind (try_iterate E v) (rconcat (ref_value D E ref f ty)))" for ty
    using try_iterate_small [OF assms(2) sm]
    by (intro writes_bind writes_rfold writes_value assms) blast
  show ?thesis
  proof (cases "v = ONone")
    case True
    then show ?thesis by (intro writes_cong [OF writes_nothing]) (simp_all add: d)
  next
    case False
    show ?thesis
    proof (cases "get_type D f :: field_type res")
      case (Inl x)
      show ?thesis by (rule writes_cong [OF writes_Inl [of x]]) (simp_all add: d False Inl)
    next
      case (Inr ty)
      show ?thesis
      proof (cases "is_repeated f")
        case True
        show ?thesis by (rule writes_cong [OF rep [of ty]]) (simp_all add: d False Inr True)
      next
        case no: False
        show ?thesis
          by (rule writes_cong [OF writes_value [OF assms(1,2) sm, of f ty D]]) (simp_all add: d False Inr no)
      qed
    qed
  qed
qed

lemma encode_message_encodes: "small_env E \<Longrightarrow> encodes (encode_message D E n) (ref_message D E n)"
proof (induction n)
  case 0
  then show ?case by (simp add: encodes_def writes_Inl)
next
  case (Suc n)
  have "writes (rfold (encode_entry D E (encode_message D E n) m) (msg_fields mt))
    (rconcat (ref_entry D E (ref_message D E n) m) (msg_fields mt))" if "small_obj (OMsg m w off)" for m w off mt
    using writes_entry [OF Suc.IH [OF Suc.prems] Suc.prems that] by (intro writes_rfold) blast
  then show ?case by (simp add: encodes_def) blast
qed

lemma obj_of_usize_ok: "alloc_ok (py_alloc E) \<Longrightarrow> k < 2 ^ 32 \<Longrightarrow> obj_of_usize E k = Inr (OInt (int k))"
  by (simp add: obj_of_usize_def obj_of_u64_def alloc_ok_def unsigned_of_nat take_bit_nat_eq_self)

lemma encode_bytes:
  assumes "alloc_ok (py_alloc E)" "small_env E" "small_obj (OMsg m w off)" "length b < 2 ^ 31"
    and def: "get_msg D off = (Inr def :: msg_def res)" and bs: "ref_message D E n def m = Inr bs" "length bs < 2 ^ 32"
  shows "protobuf_len D E n (OMsg m w off) = Inr (OInt (int (length bs)))"
    and "protobuf_encode D E n (OBytes b) (OMsg m w off) =
      (if length bs \<le> length b then Inr (OBytes (bs @ drop (length bs) b), OInt (int (length bs)))
       else Inl (Err end_of_buffer))"
proof -
  let ?u = "Buffering (buffer_new b)"
  have w: "writes (\<lambda>s. encode_message D E n s def m) (Inr bs)"
    using encode_message_encodes [OF assms(2), of D n] assms(3) bs(1) unfolding encodes_def by metis
  have inv: "out_inv new_counter" "\<And>n. out_fits new_counter n" "out_inv ?u"
    using assms(4) by (simp_all add: new_counter_def out_defs counter_inv_def buffer_inv_def buffer_new_def)
  note c = writesD [OF w inv(1)] writesD [OF w inv(3)]
  note d = protobuf_len_def protobuf_encode_def msg_of_obj_def def
  have "out_len (out_emit new_counter bs) = length bs"
    using bs(2) by (simp add: new_counter_def out_defs out_len_def counter_emit_def usize_add_def)
  then show "protobuf_len D E n (OMsg m w off) = Inr (OInt (int (length bs)))"
    using c(1) inv(2) obj_of_usize_ok [OF assms(1) bs(2)] by (simp add: d)
  have "out_fits ?u (length bs) \<longleftrightarrow> length bs \<le> length b"
    by (simp add: out_defs buffer_fits_def buffer_new_def)
  moreover have "out_len (out_emit ?u bs) = length bs"
    "out_emit ?u bs = Buffering \<lparr>bs_buf = bs @ drop (length bs) b, bs_pos = length bs\<rparr>"
    by (simp_all add: out_defs out_len_def buffer_emit_def buffer_new_def buffer_len_def splice_def)
  ultimately show "protobuf_encode D E n (OBytes b) (OMsg m w off) =
      (if length bs \<le> length b then Inr (OBytes (bs @ drop (length bs) b), OInt (int (length bs)))
       else Inl (Err end_of_buffer))"
    using c(2) obj_of_usize_ok [OF assms(1) bs(2)] by (simp add: d)
qed

lemma encode_success:
  assumes "alloc_ok (py_alloc E)" "small_env E" "small_obj (OMsg m w off)" "length b < 2 ^ 31"
    and def: "get_msg D off = (Inr def :: msg_def res)" and bs: "ref_message D E n def m = Inr bs"
    and ok: "protobuf_encode D E n (OBytes b) (OMsg m w off) = Inr (OBytes c, OInt len)"
  shows "length bs \<le> length b" "take (nat len) c = bs"
proof -
  let ?u = "Buffering (buffer_new b)"
  have w: "writes (\<lambda>s. encode_message D E n s def m) (Inr bs)"
    using encode_message_encodes [OF assms(2), of D n] assms(3) bs unfolding encodes_def by metis
  have inv: "out_inv ?u"
    using assms(4) by (simp add: out_defs buffer_inv_def buffer_new_def)
  show fit: "length bs \<le> length b"
    using writesD [OF w inv] ok
    by (auto simp: protobuf_encode_def msg_of_obj_def def out_defs buffer_fits_def buffer_new_def split: if_splits)
  then have "length bs < 2 ^ 32" using assms(4) by simp
  from encode_bytes(2) [OF assms(1-5) bs this] ok fit show "take (nat len) c = bs" by auto
qed

subsection \<open>Properties\<close>


text \<open>An example: a message of the first kind with all fields, in an interpreter with enough memory.\<close>

definition example_env :: py_env where
  "example_env =
     \<lparr>py_alloc = Inr, py_qstr = \<lambda>_. [], MP_QSTR_MESSAGE_WIRE_TYPE = 1, MP_QSTR_MESSAGE_NAME = 2,
      MP_QSTR_dict = 3, MP_QSTR_is_type_of = 4, not_iterable = ONone, int_overflow = ONone\<rparr>"

definition example_map :: obj_map where
  "example_map =
     [(0x10, OInt 300), (0x11, OList [OBytes [7, 8], OBytes []]), (0x12, OMsg [(0x20, OInt (- 2))] None 30),
      (0x13, OBool False)]"

definition example_bytes :: bytes where
  "example_bytes = [0x08, 0xAC, 0x02, 0x12, 0x02, 7, 8, 0x12, 0x00, 0x1A, 0x02, 0x08, 0x03, 0x20, 0x00]"

lemma example_types:
  "get_type example_data \<lparr>tag = t, flags_and_type = 0x80, enum_or_msg_offset = 0, f_name = n\<rparr> = Inr UVarInt"
  "get_type example_data \<lparr>tag = t, flags_and_type = 0x81, enum_or_msg_offset = 0, f_name = n\<rparr> = Inr SVarInt"
  "get_type example_data \<lparr>tag = t, flags_and_type = 0x43, enum_or_msg_offset = 0, f_name = n\<rparr> = Inr FBytes"
  "get_type example_data \<lparr>tag = t, flags_and_type = 0x02, enum_or_msg_offset = 0, f_name = n\<rparr> = Inr FBool"
  "get_type example_data \<lparr>tag = t, flags_and_type = 0x06, enum_or_msg_offset = 30, f_name = n\<rparr> = Inr (FMsg example_inner)"
  by (simp_all add: get_type_def ftype_def example_inner)

lemmas example_flags = is_repeated_def is_required_def is_experimental_def flags_def

lemma example_env_ok: "alloc_ok (py_alloc example_env)" "small_env example_env"
  by (simp_all add: example_env_def alloc_ok_def small_env_def)

lemma example_small: "small_obj (OMsg example_map w off)"
  by (simp add: example_map_def)

lemma example_zigzag: "to_unsigned (- 2) = 3"
  by code_simp

lemma example_ref: "ref_message example_data example_env (Suc (Suc n)) example_outer example_map = Inr example_bytes"
  by (simp add: example_outer_def ref_entry_def example_map_def example_types example_flags ref_value_def ref_field_def
      u64_of_obj_OInt try_iterate_def ref_buffers_def get_buffer_def msg_of_obj_def example_inner_def i64_of_obj_def
      bool_of_obj_def field_key_def primitive_type_def PRIMITIVE_TYPE_VARINT_def PRIMITIVE_TYPE_LENGTH_DELIMITED_def
      prefixed_def uvarint_bytes.simps example_zigzag example_bytes_def)


end
