(* ===== verification/Proto_Roundtrip.thy ===== *)
theory Proto_Roundtrip
  imports Proto_Encode
begin

section \<open>Decoding what was encoded\<close>

text \<open>
  Conforming messages, the reference encoding they have, and the proof that the decoder reads it back.
\<close>

subsection \<open>Default values\<close>

text \<open>The tags of the default values of a message, read as the decoder skips over them.\<close>

function default_tags :: "proto_data \<Rightarrow> msg_def \<Rightarrow> input_stream \<Rightarrow> u8 list res" where
  "default_tags D msg s = (case read_byte s of
      Inl _ \<Rightarrow> Inr []
    | Inr (t, s1) \<Rightarrow>
        rbind (ok_or (msg_field msg t) (KeyError (obj_of_u8 t))) (\<lambda>f.
        rbind (get_type D f) (\<lambda>ty.
        rbind (skip_value s1 (primitive_type ty)) (\<lambda>s2.
        rbind (default_tags D msg s2) (\<lambda>ts. Inr (t # ts))))))"
  by pat_completeness auto

termination
  by (relation "measure (\<lambda>(_, _, s). length (buf s) - pos s)")
    (auto dest!: skip_value_later simp: later_def read_byte_def nth_get_def result_simps split: if_splits)

declare default_tags.simps [simp del]

definition tags_with_default :: "proto_data \<Rightarrow> msg_def \<Rightarrow> u8 list" where
  "tags_with_default D msg = (case default_tags D msg (stream_new (msg_defaults msg)) of Inr ts \<Rightarrow> ts | Inl _ \<Rightarrow> [])"

text \<open>The default values are complete, and only singular fields of scalar type have one.\<close>

definition wf_defaults :: "proto_data \<Rightarrow> msg_def \<Rightarrow> bool" where
  "wf_defaults D msg \<longleftrightarrow> is_ok (default_tags D msg (stream_new (msg_defaults msg))) \<and>
     list_all (\<lambda>t. case msg_field msg t of
         Some f \<Rightarrow> \<not> is_repeated f \<and> (case (get_type D f :: field_type res) of Inr ty \<Rightarrow> scalar_type ty | Inl _ \<Rightarrow> False)
       | None \<Rightarrow> False) (tags_with_default D msg)"

lemma defaults_loop_skips:
  assumes "default_tags D msg s = Inr ts"
    and "\<And>t f. t \<in> set ts \<Longrightarrow> msg_field msg t = Some f \<Longrightarrow> contains_key m (f_name f)"
  shows "defaults_loop D E xp dec s msg m = Inr m"
  using assms
proof (induction D msg s arbitrary: ts rule: default_tags.induct)
  case (1 D msg s)
  show ?case
  proof (cases "read_byte s")
    case (Inl x)
    then show ?thesis by (cases x) (auto simp: defaults_loop.simps [of D E xp dec s] read_byte_def nth_get_def split: if_splits)
  next
    case (Inr p)
    obtain t s1 where p: "p = (t, s1)" by (cases p)
    obtain f ty s2 ts' where h: "msg_field msg t = Some f" "(get_type D f :: field_type res) = Inr ty"
      "skip_value s1 (primitive_type ty) = Inr s2" "default_tags D msg s2 = Inr ts'" "ts = t # ts'"
      using "1.prems"(1) by (auto simp: default_tags.simps [of D msg s] Inr p result_simps)
    have "defaults_loop D E xp dec s2 msg m = Inr m"
      using "1.IH" [OF Inr p [symmetric] _ h(2,3,4)] h "1.prems"(2) by (simp, blast)
    moreover have "contains_key m (f_name f)"
      using "1.prems"(2) [of t f] h by simp
    ultimately show ?thesis
      using h by (simp add: defaults_loop.simps [of D E xp dec s] Inr p decode_default_def)
  qed
qed

subsection \<open>Conforming messages\<close>

definition conf_value :: "(msg_def \<Rightarrow> obj_map \<Rightarrow> bool) \<Rightarrow> field_type \<Rightarrow> obj \<Rightarrow> bool" where
  "conf_value cm ty v \<longleftrightarrow> (case (ty, v) of
      (UVarInt, OInt i) \<Rightarrow> 0 \<le> i \<and> i < 2 ^ 63
    | (SVarInt, OInt i) \<Rightarrow> - (2 ^ 63) \<le> i \<and> i < 2 ^ 63
    | (FBool, OBool _) \<Rightarrow> True
    | (FBytes, OBytes b) \<Rightarrow> True
    | (FString, OStr b) \<Rightarrow> utf8_valid b
    | (FEnum e, OInt i) \<Rightarrow> 0 \<le> i \<and> i < 2 ^ 15 \<and> word_of_int i \<in> set (enum_values e)
    | (FMsg mt, OMsg m w off) \<Rightarrow> w = msg_wire_id mt \<and> off = msg_offset mt \<and> cm mt m
    | _ \<Rightarrow> False)"

text \<open>
  A field has a value of its type, or a list of them if it is repeated.  An optional field may be
  \<open>None\<close> unless it has a default value, which a decoder would fill in.
\<close>

definition conf_entry :: "proto_data \<Rightarrow> bool \<Rightarrow> (msg_def \<Rightarrow> obj_map \<Rightarrow> bool) \<Rightarrow> msg_def \<Rightarrow> obj_map \<Rightarrow> field_def \<Rightarrow> bool" where
  "conf_entry D xp cm msg m f \<longleftrightarrow> (case (map_of m (f_name f), get_type D f :: field_type res) of
      (Some v, Inr ty) \<Rightarrow>
        if is_repeated f then
          (case v of
             OList xs \<Rightarrow> list_all (conf_value cm ty) xs \<and>
               (xs = [] \<longrightarrow> \<not> is_required f \<and> tag f \<notin> set (tags_with_default D msg)) \<and>
               (xs \<noteq> [] \<longrightarrow> is_experimental f \<longrightarrow> xp)
           | _ \<Rightarrow> False)
        else if v = ONone then \<not> is_required f \<and> tag f \<notin> set (tags_with_default D msg)
        else conf_value cm ty v \<and> (is_experimental f \<longrightarrow> xp)
    | _ \<Rightarrow> False)"

fun conf_msg :: "proto_data \<Rightarrow> bool \<Rightarrow> nat \<Rightarrow> msg_def \<Rightarrow> obj_map \<Rightarrow> bool" where
  "conf_msg D xp 0 msg m = False"
| "conf_msg D xp (Suc n) msg m \<longleftrightarrow>
     wf_fields D msg \<and> wf_defaults D msg \<and>
     list_all (\<lambda>e. fst e \<in> f_name ` set (msg_fields msg)) m \<and>
     list_all (conf_entry D xp (conf_msg D xp n) msg m) (msg_fields msg)"

text \<open>Equality of objects up to the order in which a message stores its fields.\<close>

inductive same_obj :: "obj \<Rightarrow> obj \<Rightarrow> bool" where
  same_refl: "same_obj x x"
| same_list: "list_all2 same_obj xs ys \<Longrightarrow> same_obj (OList xs) (OList ys)"
| same_msg: "(\<And>k. rel_option same_obj (map_of m k) (map_of m' k)) \<Longrightarrow> same_obj (OMsg m w off) (OMsg m' w off)"

inductive_simps same_obj_OList: "same_obj (OList xs) y"

inductive_simps same_obj_scalar:
  "same_obj ONone y" "same_obj (OBool b) y" "same_obj (OInt i) y" "same_obj (OBytes bs) y" "same_obj (OStr bs) y"

subsection \<open>One value\<close>

lemma field_key_tag: "u8_of_u64 (drop_bit 3 (field_key f ty)) = Inr (tag f)"
proof -
  have "drop_bit 3 (field_key f ty) = ucast (tag f)"
    by (rule bit_word_eqI)
      (cases ty; auto simp: field_key_def primitive_type_def PRIMITIVE_TYPE_VARINT_def
        PRIMITIVE_TYPE_LENGTH_DELIMITED_def bit_simps dest: bit_imp_le_length)
  moreover have "unat (ucast (tag f) :: u64) < 2 ^ 8"
    using unat_u8 [of "tag f"] by (simp add: unsigned_ucast_eq take_bit_nat_eq_self)
  moreover have "ucast (ucast (tag f) :: u64) = tag f"
    by (rule bit_word_eqI) (simp add: bit_simps)
  ultimately show ?thesis by (simp add: u8_of_u64_def)
qed

lemma u8_of_u64_and_7: "\<exists>p. u8_of_u64 (k AND 7) = Inr p"
proof -
  have "k AND 7 = take_bit 3 k"
    by (simp add: take_bit_eq_mask mask_eq_exp_minus_1)
  then have "unat (k AND 7) < 2 ^ 3"
    using take_bit_nat_less_exp [of 3 "unat k"] by (simp add: unsigned_take_bit_eq)
  then show ?thesis by (simp add: u8_of_u64_def)
qed

lemma usize_of_len: "k < 2 ^ 32 \<Longrightarrow> usize_of_u64 (word_of_nat (k mod 2 ^ 32)) = Inr k"
  by (simp add: usize_of_u64_def unsigned_of_nat take_bit_nat_eq_self)

text \<open>What a decoder of nested messages has to do.\<close>

definition decodes :: "proto_data \<Rightarrow> py_env \<Rightarrow> bool \<Rightarrow> nat \<Rightarrow> msg_decoder \<Rightarrow> bool" where
  "decodes D E xp n dec \<longleftrightarrow>
     (\<forall>mt m. conf_msg D xp n mt m \<longrightarrow> (\<exists>b. ref_message D E n mt m = Inr b \<and>
       (length b < 2 ^ 31 \<longrightarrow> (\<exists>m'. dec (stream_new b) mt = Inr (OMsg m' (msg_wire_id mt) (msg_offset mt)) \<and>
         (\<forall>k. rel_option same_obj (map_of m k) (map_of m' k))))))"

lemma length_prefixed: "length b \<le> length (prefixed b)"
  by (simp add: prefixed_def)

lemma read_prefixed:
  assumes "input s = prefixed b @ r" "wf_stream s"
  obtains s1 where "read_uvarint s = Inr (word_of_nat (length b mod 2 ^ 32), s1)"
    "read s1 (length b) = Inr (b, advance s (length (prefixed b)))" "length b < 2 ^ 31"
proof -
  let ?v = "uvarint_bytes (word_of_nat (length b mod 2 ^ 32))"
  let ?s1 = "advance s (length ?v)"
  have i: "input s = ?v @ b @ r" using assms(1) by (simp add: prefixed_def)
  have len: "length b < 2 ^ 31"
    using assms(2) i length_input [of s] by (auto simp: wf_stream_def)
  have "wf_stream ?s1" using assms(2) i by (intro wf_stream_advance) auto
  moreover have "input ?s1 = b @ r" using i by simp
  ultimately have "read ?s1 (length b) = Inr (b, advance s (length (prefixed b)))"
    using len by (simp add: read_eq prefixed_def)
  with read_uvarint_bytes [OF i] len that show ?thesis by blast
qed

text \<open>The decoder of a field reads \<open>b\<close> back as \<open>v\<close>.\<close>

definition reads :: "(input_stream \<Rightarrow> (obj \<times> input_stream) res) \<Rightarrow> bytes \<Rightarrow> obj \<Rightarrow> bool" where
  "reads dec b v \<longleftrightarrow> (\<forall>s r. input s = b @ r \<longrightarrow> wf_stream s \<longrightarrow>
     (\<exists>v'. dec s = Inr (v', advance s (length b)) \<and> same_obj v v'))"

lemma reads_uvarint:
  assumes "\<And>s s1. read_uvarint s = Inr (k, s1) \<Longrightarrow> dec s = Inr (v, s1)"
  shows "reads dec (uvarint_bytes k) v"
  using assms read_uvarint_bytes same_refl by (auto simp: reads_def)

lemma reads_prefixed:
  assumes "\<And>s num s1 s2. read_uvarint s = Inr (num, s1) \<Longrightarrow> usize_of_u64 num = Inr (length b) \<Longrightarrow> read s1 (length b) = Inr (b, s2) \<Longrightarrow>
      length b < 2 ^ 31 \<Longrightarrow> \<exists>v'. dec s = Inr (v', s2) \<and> same_obj v v'"
  shows "reads dec (prefixed b) v"
  unfolding reads_def
proof (intro allI impI)
  fix s r assume "input s = prefixed b @ r" "wf_stream s"
  then obtain s1 where r: "read_uvarint s = Inr (word_of_nat (length b mod 2 ^ 32), s1)"
    "read s1 (length b) = Inr (b, advance s (length (prefixed b)))" "length b < 2 ^ 31"
    by (rule read_prefixed)
  from assms [OF r(1) usize_of_len r(2,3)] r(3) show "\<exists>v'. dec s = Inr (v', advance s (length (prefixed b))) \<and> same_obj v v'" by simp
qed

lemma u64_round: "0 \<le> i \<Longrightarrow> i < 2 ^ 63 \<Longrightarrow> uint (word_of_int i :: u64) = i"
  by (simp add: uint_word_of_int_eq take_bit_int_eq_self)

lemma i64_round: "- (2 ^ 63) \<le> i \<Longrightarrow> i < 2 ^ 63 \<Longrightarrow> sint (word_of_int i :: i64) = i"
  by (simp add: int_word_sint signed_take_bit_int_eq_self_iff)

lemma ucast_small: "0 \<le> i \<Longrightarrow> i < 2 ^ 63 \<Longrightarrow> ucast (word_of_int i :: u64) = (word_of_int i :: u16)"
  by (simp add: unsigned_of_int take_bit_int_eq_self)

lemma obj_of_u16_small:
  assumes "0 \<le> i" "i < 2 ^ 15"
  shows "obj_of_u16 (word_of_int i) = OInt i"
proof -
  have "push_bit 1 (word_of_int i :: u16) = word_of_int (2 * i)"
    by (simp add: push_bit_eq_mult mult.commute)
  then have "push_bit 1 (word_of_int i :: u16) OR 1 = word_of_int (2 * i + 1)"
    by (simp add: or_one_eq)
  then have "small_int (word_of_int i) = word_of_int (2 * i + 1)"
    using assms by (simp only: small_int_def unsigned_of_int) (simp add: take_bit_int_eq_self)
  note small = this
  have s: "sint (word_of_int k :: u32) = k" if "0 \<le> k" "k < 2 ^ 31" for k
    using that by (simp add: int_word_sint signed_take_bit_int_eq_self_iff)
  have "sint (word_of_int (2 * i + 1) :: u32) = 2 * i + 1"
    by (rule s) (use assms in auto)
  with small have "small_int_value (small_int (word_of_int i)) = i"
    by (simp only: small_int_value_def sint_signed_drop_bit_eq) (simp add: drop_bit_eq_div)
  then show ?thesis by (simp add: obj_of_u16_def)
qed

lemma conf_value_cases:
  assumes "conf_value cm ty v"
  obtains (u) i where "ty = UVarInt" "v = OInt i" "0 \<le> i" "i < 2 ^ 63"
    | (s) i where "ty = SVarInt" "v = OInt i" "- (2 ^ 63) \<le> i" "i < 2 ^ 63"
    | (b) b where "ty = FBool" "v = OBool b"
    | (bytes) b where "ty = FBytes" "v = OBytes b"
    | (str) b where "ty = FString" "v = OStr b" "utf8_valid b"
    | (e) e i where "ty = FEnum e" "v = OInt i" "0 \<le> i" "i < 2 ^ 15" "word_of_int i \<in> set (enum_values e)"
    | (m) mt m where "ty = FMsg mt" "v = OMsg m (msg_wire_id mt) (msg_offset mt)" "cm mt m"
  using assms by (cases ty; cases v; simp add: conf_value_def)

lemma decode_ref_value:
  assumes "decodes D E xp n dec" "alloc_ok (py_alloc E)" "(get_type D f :: field_type res) = Inr ty"
    and conf: "conf_value (conf_msg D xp n) ty v" and xp: "is_experimental f \<longrightarrow> xp"
  shows "\<exists>b. ref_field D E (ref_message D E n) f v = Inr b \<and> reads (\<lambda>s. decode_field D E xp dec s f) b v"
proof -
  note d = ref_field_def decode_field_def decode_value_def assms(3) alloc_ok_simp [OF assms(2)] usize_of_len
  from conf show ?thesis
  proof (cases rule: conf_value_cases)
    case (u i)
    have "reads (\<lambda>s. decode_field D E xp dec s f) (uvarint_bytes (word_of_int i)) v"
      using u xp by (intro reads_uvarint) (auto simp: d obj_of_u64_def u64_round)
    with u show ?thesis by (simp add: d u64_of_obj_OInt)
  next
    case (s i)
    have "reads (\<lambda>s. decode_field D E xp dec s f) (uvarint_bytes (to_unsigned (word_of_int i))) v"
      using s xp by (intro reads_uvarint) (auto simp: d obj_of_i64_def zigzag_inverse i64_round)
    with s show ?thesis by (simp add: d i64_of_obj_def)
  next
    case (b x)
    have "reads (\<lambda>s. decode_field D E xp dec s f) (uvarint_bytes (if x then 1 else 0)) v"
      using b xp by (intro reads_uvarint) (auto simp: d obj_of_bool_def)
    with b show ?thesis by (simp add: d bool_of_obj_def)
  next
    case (bytes b)
    have "reads (\<lambda>s. decode_field D E xp dec s f) (prefixed b) v"
      using bytes xp by (intro reads_prefixed) (auto simp: d intro: same_refl)
    with bytes show ?thesis by (simp add: d ref_buffers_def get_buffer_def)
  next
    case (str b)
    have "reads (\<lambda>s. decode_field D E xp dec s f) (prefixed b) v"
      using str xp by (intro reads_prefixed) (auto simp: d from_utf8_def intro: same_refl)
    with str show ?thesis by (simp add: d ref_buffers_def get_buffer_def)
  next
    case (e en i)
    have k: "unat (word_of_int i :: u64) < 2 ^ 16"
      using e u64_round [of i] by (simp add: unat_eq_nat_uint)
    have "reads (\<lambda>s. decode_field D E xp dec s f) (uvarint_bytes (word_of_int i)) v"
      using e xp k by (intro reads_uvarint) (auto simp: d u16_of_u64_def obj_of_u16_small ucast_small)
    with e show ?thesis by (simp add: d u64_of_obj_OInt)
  next
    case (m mt mm)
    then obtain b where b: "ref_message D E n mt mm = Inr b"
      "length b < 2 ^ 31 \<Longrightarrow> \<exists>m'. dec (stream_new b) mt = Inr (OMsg m' (msg_wire_id mt) (msg_offset mt)) \<and>
         (\<forall>k. rel_option same_obj (map_of mm k) (map_of m' k))"
      using assms(1) unfolding decodes_def by blast
    have "reads (\<lambda>s. decode_field D E xp dec s f) (prefixed b) v"
    proof (rule reads_prefixed)
      fix s num s1 s2
      assume r: "read_uvarint s = Inr (num, s1)" "usize_of_u64 num = Inr (length b)" "read s1 (length b) = Inr (b, s2)"
        "length b < 2 ^ 31"
      from b(2) [OF r(4)] obtain m' where m': "dec (stream_new b) mt = Inr (OMsg m' (msg_wire_id mt) (msg_offset mt))"
        "\<forall>k. rel_option same_obj (map_of mm k) (map_of m' k)" by blast
      then have "same_obj v (OMsg m' (msg_wire_id mt) (msg_offset mt))"
        unfolding m(2) by (intro same_msg) blast
      moreover have "decode_field D E xp dec s f = Inr (OMsg m' (msg_wire_id mt) (msg_offset mt), s2)"
        using r xp m(1) m'(1) by (auto simp: d read_stream_def)
      ultimately show "\<exists>v'. decode_field D E xp dec s f = Inr (v', s2) \<and> same_obj v v'" by blast
    qed
    with m b(1) show ?thesis by (simp add: d msg_of_obj_def)
  qed
qed

subsection \<open>The fields of a message\<close>

lemma obj_map_set_ok: "alloc_ok (py_alloc E) \<Longrightarrow> obj_map_set E m k v = Inr (map_set m k v)"
  by (simp add: obj_map_set_def alloc_ok_simp)

lemma store_field_ok:
  assumes "alloc_ok (py_alloc E)"
  shows "\<not> is_repeated f \<Longrightarrow> store_field E f v m = Inr (map_set m (f_name f) v)"
    and "is_repeated f \<Longrightarrow> map_of m (f_name f) = (if acc = [] then None else Some (OList acc)) \<Longrightarrow>
      store_field E f v m = Inr (map_set m (f_name f) (OList (acc @ [v])))"
  using assms by (auto simp: store_field_def obj_map_set_ok map_get_def list_of_obj_def alloc_ok_simp split: if_splits)

lemma decode_fields_end: "input s = [] \<Longrightarrow> decode_fields_into D E xp dec s msg m = Inr m"
  by (simp add: decode_fields_into.simps [of D E xp dec s] read_uvarint_def read_uvarint_loop_eq)

text \<open>One key with its value.\<close>

lemma decode_step:
  assumes "input s = uvarint_bytes (field_key f ty) @ b @ r" "wf_stream s" "msg_field msg (tag f) = Some f"
    and "reads (\<lambda>s. decode_field D E xp dec s f) b v"
  shows "\<exists>v'. same_obj v v' \<and> decode_fields_into D E xp dec s msg m =
    rbind (store_field E f v' m)
      (decode_fields_into D E xp dec (advance s (length (uvarint_bytes (field_key f ty) @ b))) msg)"
proof -
  let ?k = "uvarint_bytes (field_key f ty)"
  have "wf_stream (advance s (length ?k))" "input (advance s (length ?k)) = b @ r"
    using assms(1,2) by (auto intro: wf_stream_advance)
  with assms(4) obtain v' where v': "decode_field D E xp dec (advance s (length ?k)) f =
      Inr (v', advance (advance s (length ?k)) (length b))" "same_obj v v'"
    unfolding reads_def by blast
  obtain p where "u8_of_u64 (field_key f ty AND 7) = Inr p" using u8_of_u64_and_7 by blast
  then have "decode_one D E xp dec (field_key f ty) (advance s (length ?k)) msg m =
      rbind (store_field E f v' m) (\<lambda>m1. Inr (m1, advance s (length (?k @ b))))"
    using v'(1) assms(3) by (simp add: decode_one_def field_key_tag)
  then have "decode_fields_into D E xp dec s msg m =
      rbind (store_field E f v' m) (decode_fields_into D E xp dec (advance s (length (?k @ b))) msg)"
    using read_uvarint_bytes [OF assms(1)] by (simp add: decode_fields_into.simps [of D E xp dec s] rbind_assoc)
  with v'(2) show ?thesis by blast
qed

lemma wf_stream_split: "wf_stream s \<Longrightarrow> input s = b @ r \<Longrightarrow> wf_stream (advance s (length b))"
  by (rule wf_stream_advance) auto

text \<open>The values of a repeated field, one after the other.\<close>

lemma decode_repeated:
  assumes "decodes D E xp n dec" "alloc_ok (py_alloc E)" "(get_type D f :: field_type res) = Inr ty"
    and f: "msg_field msg (tag f) = Some f" "is_repeated f" "is_experimental f \<longrightarrow> xp"
    and "list_all (conf_value (conf_msg D xp n) ty) xs"
  shows "\<exists>b. rconcat (ref_value D E (ref_message D E n) f ty) xs = Inr b \<and>
    (\<forall>s r m acc. input s = b @ r \<longrightarrow> wf_stream s \<longrightarrow> map_of m (f_name f) = (if acc = [] then None else Some (OList acc)) \<longrightarrow>
      (\<exists>ys m1. list_all2 same_obj xs ys \<and>
        decode_fields_into D E xp dec s msg m = decode_fields_into D E xp dec (advance s (length b)) msg m1 \<and>
        (\<forall>k. k \<noteq> f_name f \<longrightarrow> map_of m1 k = map_of m k) \<and>
        map_of m1 (f_name f) = (if acc @ ys = [] then None else Some (OList (acc @ ys)))))"
  using assms(7)
proof (induction xs)
  case Nil
  show ?case by simp blast
next
  case (Cons x xs)
  obtain b1 where b1: "ref_field D E (ref_message D E n) f x = Inr b1" "reads (\<lambda>s. decode_field D E xp dec s f) b1 x"
    using decode_ref_value [OF assms(1-3) _ f(3)] Cons.prems by auto
  obtain b2 where b2: "rconcat (ref_value D E (ref_message D E n) f ty) xs = Inr b2"
    and IH: "\<And>s r m acc. input s = b2 @ r \<Longrightarrow> wf_stream s \<Longrightarrow>
      map_of m (f_name f) = (if acc = [] then None else Some (OList acc)) \<Longrightarrow>
      (\<exists>ys m1. list_all2 same_obj xs ys \<and>
        decode_fields_into D E xp dec s msg m = decode_fields_into D E xp dec (advance s (length b2)) msg m1 \<and>
        (\<forall>k. k \<noteq> f_name f \<longrightarrow> map_of m1 k = map_of m k) \<and>
        map_of m1 (f_name f) = (if acc @ ys = [] then None else Some (OList (acc @ ys))))"
    using Cons by auto
  let ?c = "uvarint_bytes (field_key f ty) @ b1"
  have step: "\<exists>ys m1. list_all2 same_obj (x # xs) ys \<and>
      decode_fields_into D E xp dec s msg m = decode_fields_into D E xp dec (advance s (length (?c @ b2))) msg m1 \<and>
      (\<forall>k. k \<noteq> f_name f \<longrightarrow> map_of m1 k = map_of m k) \<and>
      map_of m1 (f_name f) = (if acc @ ys = [] then None else Some (OList (acc @ ys)))"
    if i: "input s = (?c @ b2) @ r" and w: "wf_stream s"
      and m: "map_of m (f_name f) = (if acc = [] then None else Some (OList acc))" for s r m acc
  proof -
    obtain v' where v': "same_obj x v'" "decode_fields_into D E xp dec s msg m =
        rbind (store_field E f v' m) (decode_fields_into D E xp dec (advance s (length ?c)) msg)"
      using decode_step [OF _ w f(1) b1(2), of ty "b2 @ r" m] i by auto
    let ?m = "map_set m (f_name f) (OList (acc @ [v']))"
    have "input (advance s (length ?c)) = b2 @ r" "wf_stream (advance s (length ?c))"
      using i w wf_stream_split [OF w, of ?c "b2 @ r"] by auto
    from IH [OF this, of ?m "acc @ [v']"] obtain ys m1 where ys: "list_all2 same_obj xs ys"
      "decode_fields_into D E xp dec (advance s (length ?c)) msg ?m =
         decode_fields_into D E xp dec (advance (advance s (length ?c)) (length b2)) msg m1"
      "\<forall>k. k \<noteq> f_name f \<longrightarrow> map_of m1 k = map_of ?m k" "map_of m1 (f_name f) = Some (OList ((acc @ [v']) @ ys))"
      by auto
    show ?thesis
      using ys v' store_field_ok(2) [OF assms(2) f(2) m, of v']
      by (intro exI [of _ "v' # ys"] exI [of _ m1]) (simp add: add.assoc)
  qed
  have "rconcat (ref_value D E (ref_message D E n) f ty) (x # xs) = Inr (?c @ b2)"
    using b1(1) b2 by (simp add: ref_value_def)
  with step show ?case by blast
qed

text \<open>One field of a message: absent values leave no trace.\<close>

definition absent :: "obj \<Rightarrow> bool" where
  "absent v \<longleftrightarrow> v = ONone \<or> v = OList []"

definition entry_read :: "obj_map \<Rightarrow> obj_map \<Rightarrow> field_def \<Rightarrow> bool" where
  "entry_read m m1 f \<longleftrightarrow> (case map_of m (f_name f) of
      None \<Rightarrow> False
    | Some v \<Rightarrow>
        if absent v then map_of m1 (f_name f) = None
        else (\<exists>v'. map_of m1 (f_name f) = Some v' \<and> same_obj v v'))"

lemma conf_value_not_absent: "conf_value cm ty v \<Longrightarrow> \<not> absent v"
  by (cases v; cases ty; auto simp: absent_def conf_value_def)

lemma conf_entry_cases:
  assumes "conf_entry D xp cm msg m f"
  obtains (rep) xs ty where "(get_type D f :: field_type res) = Inr ty" "is_repeated f" "map_of m (f_name f) = Some (OList xs)" "xs \<noteq> []"
      "list_all (conf_value cm ty) xs" "is_experimental f \<longrightarrow> xp"
    | (one) v ty where "(get_type D f :: field_type res) = Inr ty" "\<not> is_repeated f" "map_of m (f_name f) = Some v" "v \<noteq> ONone"
      "conf_value cm ty v" "is_experimental f \<longrightarrow> xp"
    | (none) v ty where "(get_type D f :: field_type res) = Inr ty" "map_of m (f_name f) = Some v"
        "v = (if is_repeated f then OList [] else ONone)" "\<not> is_required f" "tag f \<notin> set (tags_with_default D msg)"
  using assms
  by (auto simp: conf_entry_def split: option.splits sum.splits obj.splits if_splits)

lemma decode_entry:
  assumes "decodes D E xp n dec" "alloc_ok (py_alloc E)" "msg_field msg (tag f) = Some f"
    and "conf_entry D xp (conf_msg D xp n) msg m f"
  shows "\<exists>b. ref_entry D E (ref_message D E n) m f = Inr b \<and>
    (\<forall>s r m0. input s = b @ r \<longrightarrow> wf_stream s \<longrightarrow> map_of m0 (f_name f) = None \<longrightarrow>
      (\<exists>m1. decode_fields_into D E xp dec s msg m0 = decode_fields_into D E xp dec (advance s (length b)) msg m1 \<and>
        (\<forall>k. k \<noteq> f_name f \<longrightarrow> map_of m1 k = map_of m0 k) \<and> entry_read m m1 f))"
  using assms(4)
proof (cases rule: conf_entry_cases)
  case (rep xs ty)
  obtain b where b: "rconcat (ref_value D E (ref_message D E n) f ty) xs = Inr b"
    "\<And>s r m acc. input s = b @ r \<Longrightarrow> wf_stream s \<Longrightarrow> map_of m (f_name f) = (if acc = [] then None else Some (OList acc)) \<Longrightarrow>
      (\<exists>ys m1. list_all2 same_obj xs ys \<and>
        decode_fields_into D E xp dec s msg m = decode_fields_into D E xp dec (advance s (length b)) msg m1 \<and>
        (\<forall>k. k \<noteq> f_name f \<longrightarrow> map_of m1 k = map_of m k) \<and>
        map_of m1 (f_name f) = (if acc @ ys = [] then None else Some (OList (acc @ ys))))"
    using decode_repeated [OF assms(1,2) rep(1) assms(3) rep(2,6,5)] by blast
  have "\<exists>m1. decode_fields_into D E xp dec s msg m0 = decode_fields_into D E xp dec (advance s (length b)) msg m1 \<and>
        (\<forall>k. k \<noteq> f_name f \<longrightarrow> map_of m1 k = map_of m0 k) \<and> entry_read m m1 f"
    if h: "input s = b @ r" "wf_stream s" "map_of m0 (f_name f) = None" for s r m0
  proof -
    from b(2) [OF h(1,2), of m0 "[]"] h(3) obtain ys m1 where ys: "list_all2 same_obj xs ys"
      "decode_fields_into D E xp dec s msg m0 = decode_fields_into D E xp dec (advance s (length b)) msg m1"
      "\<forall>k. k \<noteq> f_name f \<longrightarrow> map_of m1 k = map_of m0 k" "map_of m1 (f_name f) = (if ys = [] then None else Some (OList ys))"
      by auto
    moreover have "ys \<noteq> []" using ys(1) rep(4) by auto
    ultimately show ?thesis
      using rep(3,4) same_list by (intro exI [of _ m1]) (auto simp: entry_read_def absent_def)
  qed
  moreover have "ref_entry D E (ref_message D E n) m f = Inr b"
    using rep b(1) by (simp add: ref_entry_def try_iterate_def)
  ultimately show ?thesis by blast
next
  case (one v ty)
  obtain b where b: "ref_field D E (ref_message D E n) f v = Inr b" "reads (\<lambda>s. decode_field D E xp dec s f) b v"
    using decode_ref_value [OF assms(1,2) one(1,5,6)] by auto
  let ?c = "uvarint_bytes (field_key f ty) @ b"
  have a: "\<not> absent v" using conf_value_not_absent [OF one(5)] .
  have "\<exists>m1. decode_fields_into D E xp dec s msg m0 = decode_fields_into D E xp dec (advance s (length ?c)) msg m1 \<and>
        (\<forall>k. k \<noteq> f_name f \<longrightarrow> map_of m1 k = map_of m0 k) \<and> entry_read m m1 f"
    if h: "input s = ?c @ r" "wf_stream s" for s r m0
  proof -
    obtain v' where v': "same_obj v v'" "decode_fields_into D E xp dec s msg m0 =
        rbind (store_field E f v' m0) (decode_fields_into D E xp dec (advance s (length ?c)) msg)"
      using decode_step [OF _ h(2) assms(3) b(2), of ty r m0] h(1) by auto
    then show ?thesis
      using store_field_ok(1) [OF assms(2) one(2), of v' m0] one(3) a
      by (intro exI [of _ "map_set m0 (f_name f) v'"]) (auto simp: entry_read_def)
  qed
  moreover have "ref_entry D E (ref_message D E n) m f = Inr ?c"
    using one b(1) by (simp add: ref_entry_def ref_value_def)
  ultimately show ?thesis by blast
next
  case (none v ty)
  have "absent v" using none(3) by (simp add: absent_def)
  moreover have "ref_entry D E (ref_message D E n) m f = Inr []"
    using none by (auto simp: ref_entry_def try_iterate_def)
  ultimately show ?thesis using none(2) by (auto simp: entry_read_def)
qed

lemma decode_entries:
  assumes "decodes D E xp n dec" "alloc_ok (py_alloc E)"
    and "\<And>f. f \<in> set fs \<Longrightarrow> msg_field msg (tag f) = Some f \<and> conf_entry D xp (conf_msg D xp n) msg m f"
    and "distinct (map f_name fs)"
  shows "\<exists>b. rconcat (ref_entry D E (ref_message D E n) m) fs = Inr b \<and>
    (\<forall>s r m0. input s = b @ r \<longrightarrow> wf_stream s \<longrightarrow> (\<forall>f\<in>set fs. map_of m0 (f_name f) = None) \<longrightarrow>
      (\<exists>m1. decode_fields_into D E xp dec s msg m0 = decode_fields_into D E xp dec (advance s (length b)) msg m1 \<and>
        (\<forall>k. k \<notin> f_name ` set fs \<longrightarrow> map_of m1 k = map_of m0 k) \<and> (\<forall>f\<in>set fs. entry_read m m1 f)))"
  using assms(3,4)
proof (induction fs)
  case Nil
  show ?case by simp blast
next
  case (Cons f fs)
  obtain b1 where b1: "ref_entry D E (ref_message D E n) m f = Inr b1"
    and st: "\<And>s r m0. input s = b1 @ r \<Longrightarrow> wf_stream s \<Longrightarrow> map_of m0 (f_name f) = None \<Longrightarrow>
      \<exists>m1. decode_fields_into D E xp dec s msg m0 = decode_fields_into D E xp dec (advance s (length b1)) msg m1 \<and>
        (\<forall>k. k \<noteq> f_name f \<longrightarrow> map_of m1 k = map_of m0 k) \<and> entry_read m m1 f"
    using decode_entry [OF assms(1,2), of msg f m] Cons.prems(1) [of f] by auto
  obtain b2 where b2: "rconcat (ref_entry D E (ref_message D E n) m) fs = Inr b2"
    and IH: "\<And>s r m0. input s = b2 @ r \<Longrightarrow> wf_stream s \<Longrightarrow> \<forall>f\<in>set fs. map_of m0 (f_name f) = None \<Longrightarrow>
      \<exists>m1. decode_fields_into D E xp dec s msg m0 = decode_fields_into D E xp dec (advance s (length b2)) msg m1 \<and>
        (\<forall>k. k \<notin> f_name ` set fs \<longrightarrow> map_of m1 k = map_of m0 k) \<and> (\<forall>f\<in>set fs. entry_read m m1 f)"
    using Cons.IH Cons.prems by auto
  have "\<exists>m1. decode_fields_into D E xp dec s msg m0 = decode_fields_into D E xp dec (advance s (length (b1 @ b2))) msg m1 \<and>
      (\<forall>k. k \<notin> f_name ` set (f # fs) \<longrightarrow> map_of m1 k = map_of m0 k) \<and> (\<forall>g\<in>set (f # fs). entry_read m m1 g)"
    if h: "input s = (b1 @ b2) @ r" "wf_stream s" "\<forall>g\<in>set (f # fs). map_of m0 (f_name g) = None" for s r m0
  proof -
    obtain m1 where m1: "decode_fields_into D E xp dec s msg m0 = decode_fields_into D E xp dec (advance s (length b1)) msg m1"
      "\<forall>k. k \<noteq> f_name f \<longrightarrow> map_of m1 k = map_of m0 k" "entry_read m m1 f"
      using st [of s "b2 @ r" m0] h by auto
    have "\<forall>g\<in>set fs. map_of m1 (f_name g) = None"
      using h(3) m1(2) Cons.prems(2) by (auto, metis image_eqI)
    then obtain m2 where m2: "decode_fields_into D E xp dec (advance s (length b1)) msg m1 =
        decode_fields_into D E xp dec (advance (advance s (length b1)) (length b2)) msg m2"
      "\<forall>k. k \<notin> f_name ` set fs \<longrightarrow> map_of m2 k = map_of m1 k" "\<forall>f\<in>set fs. entry_read m m2 f"
      using IH [of "advance s (length b1)" r m1] h wf_stream_split [OF h(2), of b1 "b2 @ r"] by auto
    moreover have "entry_read m m2 f"
      using m1(3) m2(2) Cons.prems(2) by (simp add: entry_read_def split: option.splits)
    ultimately show ?thesis
      using m1 by (intro exI [of _ m2]) auto
  qed
  then show ?case using b1 b2 by auto
qed

subsection \<open>Whole messages\<close>

lemma assign_required_ok:
  assumes "alloc_ok (py_alloc E)" "\<And>f. f \<in> set fs \<Longrightarrow> map_of m (f_name f) = None \<Longrightarrow> \<not> is_required f"
    and "distinct (map f_name fs)"
  shows "\<exists>m1. rfold (assign_required E) fs m = Inr m1 \<and> (\<forall>k. k \<notin> f_name ` set fs \<longrightarrow> map_of m1 k = map_of m k) \<and>
    (\<forall>f\<in>set fs. map_of m1 (f_name f) = (case map_of m (f_name f) of
       Some v \<Rightarrow> Some v | None \<Rightarrow> Some (if is_repeated f then OList [] else ONone)))"
  using assms(2,3)
proof (induction fs arbitrary: m)
  case (Cons f fs)
  let ?d = "if is_repeated f then OList [] else ONone"
  define m' where "m' = (if contains_key m (f_name f) then m else map_set m (f_name f) ?d)"
  have step: "assign_required E f m = Inr m'"
    using Cons.prems(1) [of f] assms(1)
    by (auto simp: assign_required_def m'_def contains_key_iff alloc_ok_simp obj_map_set_ok)
  have other: "map_of m' k = map_of m k" if "k \<noteq> f_name f" for k
    using that by (simp add: m'_def)
  have n: "f_name g \<noteq> f_name f" if "g \<in> set fs" for g
    using that Cons.prems(2) by (auto, metis image_eqI)
  obtain m1 where m1: "rfold (assign_required E) fs m' = Inr m1"
    "\<forall>k. k \<notin> f_name ` set fs \<longrightarrow> map_of m1 k = map_of m' k"
    "\<forall>f\<in>set fs. map_of m1 (f_name f) = (case map_of m' (f_name f) of
       Some v \<Rightarrow> Some v | None \<Rightarrow> Some (if is_repeated f then OList [] else ONone))"
    using Cons.IH [of m'] Cons.prems n other by auto
  have "map_of m1 (f_name f) = (case map_of m (f_name f) of Some v \<Rightarrow> Some v | None \<Rightarrow> Some ?d)"
    using m1(2) Cons.prems(2) by (auto simp: m'_def contains_key_iff split: option.splits)
  then show ?case
    using m1 step other n by (intro exI [of _ m1]) auto
qed simp

lemma decode_message_ok:
  assumes "alloc_ok (py_alloc E)" "decodes D E xp n dec"
    and "conf_msg D xp (Suc n) msg m"
  shows "\<exists>b. ref_message D E (Suc n) msg m = Inr b \<and> (length b < 2 ^ 31 \<longrightarrow>
    (\<exists>m1 m2. decode_fields_into D E xp dec (stream_new b) msg [] = Inr m1 \<and>
      decode_defaults_into D E xp dec msg m1 = Inr m1 \<and> assign_required_into E msg m1 = Inr m2 \<and>
      (\<forall>k. rel_option same_obj (map_of m k) (map_of m2 k))))"
proof -
  have wf: "distinct (map f_name (msg_fields msg))" "distinct (map tag (msg_fields msg))"
    and names: "\<And>k v. map_of m k = Some v \<Longrightarrow> k \<in> f_name ` set (msg_fields msg)"
    and conf: "\<And>f. f \<in> set (msg_fields msg) \<Longrightarrow> conf_entry D xp (conf_msg D xp n) msg m f"
    and defs: "default_tags D msg (stream_new (msg_defaults msg)) = Inr (tags_with_default D msg)"
    using assms(3) map_of_SomeD
    by (fastforce simp: wf_fields_def wf_defaults_def tags_with_default_def is_ok_iff list_all_iff)+
  obtain b where b: "rconcat (ref_entry D E (ref_message D E n) m) (msg_fields msg) = Inr b"
    and dec: "\<And>s r m0. input s = b @ r \<Longrightarrow> wf_stream s \<Longrightarrow> \<forall>f\<in>set (msg_fields msg). map_of m0 (f_name f) = None \<Longrightarrow>
      \<exists>m1. decode_fields_into D E xp dec s msg m0 = decode_fields_into D E xp dec (advance s (length b)) msg m1 \<and>
        (\<forall>k. k \<notin> f_name ` set (msg_fields msg) \<longrightarrow> map_of m1 k = map_of m0 k) \<and>
        (\<forall>f\<in>set (msg_fields msg). entry_read m m1 f)"
    using decode_entries [OF assms(2,1) _ wf(1)] msg_field_unique [OF wf(2)] conf by blast
  have "\<exists>m1 m2. decode_fields_into D E xp dec (stream_new b) msg [] = Inr m1 \<and>
      decode_defaults_into D E xp dec msg m1 = Inr m1 \<and> assign_required_into E msg m1 = Inr m2 \<and>
      (\<forall>k. rel_option same_obj (map_of m k) (map_of m2 k))" if len: "length b < 2 ^ 31"
  proof -
    obtain m1 where m1: "decode_fields_into D E xp dec (stream_new b) msg [] = Inr m1"
      "\<forall>k. k \<notin> f_name ` set (msg_fields msg) \<longrightarrow> map_of m1 k = None" "\<forall>f\<in>set (msg_fields msg). entry_read m m1 f"
      using dec [of "stream_new b" "[]" "[]"] len by (auto simp: decode_fields_end)
    have present: "map_of m1 (f_name f) \<noteq> None" if "f \<in> set (msg_fields msg)"
      "is_required f \<or> tag f \<in> set (tags_with_default D msg)" for f
    proof -
      have er: "entry_read m m1 f" using m1(3) that(1) by blast
      from conf [OF that(1)] show ?thesis
      proof (cases rule: conf_entry_cases)
        case (rep xs ty)
        with er show ?thesis by (auto simp: entry_read_def absent_def)
      next
        case (one v ty)
        with er conf_value_not_absent [OF one(5)] show ?thesis by (auto simp: entry_read_def)
      qed (use that(2) in auto)
    qed
    have "decode_defaults_into D E xp dec msg m1 = Inr m1"
      unfolding decode_defaults_into_def
    proof (rule defaults_loop_skips [OF defs])
      fix t f assume "t \<in> set (tags_with_default D msg)" "msg_field msg t = Some f"
      then show "contains_key m1 (f_name f)"
        using present [of f] msg_field_Some [of msg t f] by (auto simp: contains_key_iff)
    qed
    moreover obtain m2 where m2: "assign_required_into E msg m1 = Inr m2"
      "\<forall>k. k \<notin> f_name ` set (msg_fields msg) \<longrightarrow> map_of m2 k = map_of m1 k"
      "\<forall>f\<in>set (msg_fields msg). map_of m2 (f_name f) = (case map_of m1 (f_name f) of
         Some v \<Rightarrow> Some v | None \<Rightarrow> Some (if is_repeated f then OList [] else ONone))"
      using assign_required_ok [OF assms(1) _ wf(1), of m1] present unfolding assign_required_into_def by blast
    moreover have "rel_option same_obj (map_of m k) (map_of m2 k)" for k
    proof (cases "k \<in> f_name ` set (msg_fields msg)")
      case False
      then have "map_of m k = None" "map_of m2 k = None"
        using names [of k] m1(2) m2(2) by (auto simp: option.expand)
      then show ?thesis by simp
    next
      case True
      then obtain f where f: "f \<in> set (msg_fields msg)" "k = f_name f" by blast
      have er: "entry_read m m1 f" using m1(3) f(1) by blast
      from conf [OF f(1)] show ?thesis
      proof (cases rule: conf_entry_cases)
        case (none v ty)
        with er m2(3) f show ?thesis by (auto simp: entry_read_def absent_def intro: same_refl)
      next
        case (rep xs ty)
        with er m2(3) f show ?thesis by (auto simp: entry_read_def absent_def)
      next
        case (one v ty)
        with conf_value_not_absent [OF one(5)] er m2(3) f show ?thesis by (auto simp: entry_read_def)
      qed
    qed
    ultimately show ?thesis using m1(1) by blast
  qed
  with b show ?thesis by auto
qed

lemma message_decodes: "alloc_ok (py_alloc E) \<Longrightarrow> decodes D E xp n (message_from_stream D E xp n)"
proof (induction n)
  case 0
  then show ?case by (simp add: decodes_def)
next
  case (Suc n)
  note ok = decode_message_ok [OF Suc.prems Suc.IH [OF Suc.prems]]
  have e: "empty_message E mt = Inr ([], msg_wire_id mt, msg_offset mt)" for mt
    using Suc.prems by (simp add: empty_message_def alloc_with_capacity_def alloc_ok_simp)
  show ?case
    unfolding decodes_def
  proof (intro allI impI)
    fix mt m assume "conf_msg D xp (Suc n) mt m"
    from ok [OF this] show "\<exists>b. ref_message D E (Suc n) mt m = Inr b \<and>
       (length b < 2 ^ 31 \<longrightarrow> (\<exists>m'. message_from_stream D E xp (Suc n) (stream_new b) mt =
           Inr (OMsg m' (msg_wire_id mt) (msg_offset mt)) \<and>
         (\<forall>k. rel_option same_obj (map_of m k) (map_of m' k))))"
      by (fastforce simp: e Let_def)
  qed
qed

lemma decode_reference:
  assumes "alloc_ok (py_alloc E)" "conf_msg D xp n def m"
    and def: "get_msg D off = (Inr def :: msg_def res)" and "xp \<or> \<not> msg_is_experimental def"
  shows "\<exists>bs. ref_message D E n def m = Inr bs \<and> (length bs < 2 ^ 31 \<longrightarrow>
    (\<exists>x. protobuf_decode D E n (OBytes bs) (OMsgDef off) (OBool xp) = Inr x \<and>
      same_obj (OMsg m (msg_wire_id def) off) x))"
proof -
  obtain bs where b: "ref_message D E n def m = Inr bs"
    "length bs < 2 ^ 31 \<Longrightarrow> \<exists>m'. message_from_stream D E xp n (stream_new bs) def =
        Inr (OMsg m' (msg_wire_id def) (msg_offset def)) \<and> (\<forall>k. rel_option same_obj (map_of m k) (map_of m' k))"
    using message_decodes [OF assms(1), of D xp n] assms(2) unfolding decodes_def by blast
  have "protobuf_decode D E n (OBytes bs) (OMsgDef off) (OBool xp) = message_from_stream D E xp n (stream_new bs) def"
    using def assms(4) by (auto simp: protobuf_decode_def msg_def_of_obj_def bool_of_obj_def get_buffer_def)
  with b get_msg_offset [OF def] show ?thesis by (metis same_msg)
qed


lemma example_tags:
  "default_tags example_data example_inner (stream_new []) = Inr []"
  "default_tags example_data example_outer (stream_new [4, 1]) = Inr [4]"
proof -
  show "default_tags example_data example_inner (stream_new []) = Inr []"
    by (simp add: default_tags.simps read_byte_eq)
  have u: "read_uvarint \<lparr>buf = [4, 1], pos = Suc 0\<rparr> = Inr (1, \<lparr>buf = [4, 1], pos = 2\<rparr>)"
    by (simp add: read_uvarint_def read_uvarint_loop.simps read_byte_def nth_get_def)
  have f: "msg_field example_outer 4 = Some \<lparr>tag = 4, flags_and_type = 0x02, enum_or_msg_offset = 0, f_name = 0x13\<rparr>"
    by (simp add: msg_field_def example_outer_def)
  have e: "default_tags example_data example_outer \<lparr>buf = [4, 1], pos = 2\<rparr> = Inr []"
    by (simp add: default_tags.simps read_byte_def nth_get_def)
  show "default_tags example_data example_outer (stream_new [4, 1]) = Inr [4]"
    by (subst default_tags.simps)
      (simp add: read_byte_def nth_get_def stream_new_def f e u example_types skip_value_def primitive_type_def)
qed

lemma example_wf_defaults: "wf_defaults example_data example_inner" "wf_defaults example_data example_outer"
  "tags_with_default example_data example_inner = []" "tags_with_default example_data example_outer = [4]"
proof -
  have d: "msg_defaults example_inner = []" "msg_defaults example_outer = [4, 1]"
    by (simp_all add: example_inner_def example_outer_def)
  show t: "tags_with_default example_data example_inner = []" "tags_with_default example_data example_outer = [4]"
    by (simp_all add: tags_with_default_def d example_tags)
  show "wf_defaults example_data example_inner"
    by (simp add: wf_defaults_def d t example_tags)
  show "wf_defaults example_data example_outer"
    unfolding wf_defaults_def d t
    by (simp add: example_tags) (simp add: msg_field_def example_outer_def example_types example_flags scalar_type_def)
qed

lemma example_wf_fields: "wf_fields example_data example_inner" "wf_fields example_data example_outer"
  by (simp_all add: wf_fields_def example_inner_def example_outer_def example_types example_types [unfolded example_inner_def])

lemma example_conforms: "conf_msg example_data xp (Suc (Suc n)) example_outer example_map"
proof -
  have "conf_msg example_data xp (Suc n) example_inner [(0x20, OInt (- 2))]"
    using example_wf_fields(1) example_wf_defaults(1)
    by (simp add: conf_entry_def example_inner_def example_types example_flags conf_value_def)
  then have v: "conf_value (conf_msg example_data xp (Suc n)) (FMsg example_inner) (OMsg [(0x20, OInt (- 2))] None 30)"
    by (simp add: conf_value_def example_inner_def)
  have "list_all (conf_entry example_data xp (conf_msg example_data xp (Suc n)) example_outer example_map) (msg_fields example_outer)"
    using v by (simp add: conf_entry_def example_outer_def example_map_def example_types example_flags
        conf_value_def [of _ UVarInt] conf_value_def [of _ FBytes] conf_value_def [of _ FBool])
  moreover have "list_all (\<lambda>e. fst e \<in> f_name ` set (msg_fields example_outer)) example_map"
    by (simp add: example_map_def example_outer_def)
  ultimately show ?thesis
    using example_wf_fields(2) example_wf_defaults(2) by simp
qed


end
