(* ===== verification/Proto_Safety.thy ===== *)
theory Proto_Safety
  imports Proto_Roundtrip
begin

section \<open>Decoding untrusted bytes\<close>

text \<open>
  The decoder receives bytes from the host.  Whatever they are, it does not panic, and what it
  returns has the shape its definition promises.
\<close>

subsection \<open>Well-typed messages\<close>

definition typed_value :: "(msg_def \<Rightarrow> obj_map \<Rightarrow> bool) \<Rightarrow> field_type \<Rightarrow> obj \<Rightarrow> bool" where
  "typed_value tm ty v \<longleftrightarrow> (case (ty, v) of
      (UVarInt, OInt i) \<Rightarrow> 0 \<le> i \<and> i < 2 ^ 64
    | (SVarInt, OInt i) \<Rightarrow> - (2 ^ 63) \<le> i \<and> i < 2 ^ 63
    | (FBool, OBool _) \<Rightarrow> True
    | (FBytes, OBytes b) \<Rightarrow> True
    | (FString, OStr b) \<Rightarrow> utf8_valid b
    | (FEnum e, x) \<Rightarrow> x \<in> obj_of_u16 ` set (enum_values e)
    | (FMsg mt, OMsg m w off) \<Rightarrow> w = msg_wire_id mt \<and> off = msg_offset mt \<and> tm mt m
    | _ \<Rightarrow> False)"

text \<open>
  A field holds its default shape, nothing or the empty list, which a required field and a field
  that is experimental while such fields are disabled cannot leave; or values of its type.
\<close>

definition filled :: "proto_data \<Rightarrow> bool \<Rightarrow> (msg_def \<Rightarrow> obj_map \<Rightarrow> bool) \<Rightarrow> field_def \<Rightarrow> obj \<Rightarrow> bool" where
  "filled D xp tm f v \<longleftrightarrow> (is_experimental f \<longrightarrow> xp) \<and> (case (get_type D f :: field_type res) of
      Inr ty \<Rightarrow>
        if is_repeated f then (case v of OList xs \<Rightarrow> xs \<noteq> [] \<and> list_all (typed_value tm ty) xs | _ \<Rightarrow> False)
        else typed_value tm ty v
    | Inl _ \<Rightarrow> False)"

definition typed_entry :: "proto_data \<Rightarrow> bool \<Rightarrow> (msg_def \<Rightarrow> obj_map \<Rightarrow> bool) \<Rightarrow> obj_map \<Rightarrow> field_def \<Rightarrow> bool" where
  "typed_entry D xp tm m f \<longleftrightarrow> (case map_of m (f_name f) of
      None \<Rightarrow> False
    | Some v \<Rightarrow> filled D xp tm f v \<or> \<not> is_required f \<and> v = (if is_repeated f then OList [] else ONone))"

fun typed_msg :: "proto_data \<Rightarrow> bool \<Rightarrow> nat \<Rightarrow> msg_def \<Rightarrow> obj_map \<Rightarrow> bool" where
  "typed_msg D xp 0 msg m = False"
| "typed_msg D xp (Suc n) msg m \<longleftrightarrow>
     list_all (\<lambda>e. fst e \<in> f_name ` set (msg_fields msg)) m \<and>
     list_all (typed_entry D xp (typed_msg D xp n) m) (msg_fields msg)"

subsection \<open>Safe reading\<close>

text \<open>The stream after a step: advanced, but not past the end.\<close>

definition follows :: "input_stream \<Rightarrow> input_stream \<Rightarrow> bool" where
  "follows s s' \<longleftrightarrow> (\<exists>k. s' = advance s k \<and> k \<le> length (input s))"

lemma follows_refl [simp]: "follows s s"
  unfolding follows_def by (rule exI [of _ 0]) simp

lemma follows_trans: "follows a b \<Longrightarrow> follows b c \<Longrightarrow> follows a c"
  unfolding follows_def by (auto simp: length_input)

lemma follows_wf: "follows s s' \<Longrightarrow> wf_stream s \<Longrightarrow> wf_stream s'"
  by (auto simp: follows_def wf_stream_advance)

lemma follows_length: "follows s s' \<Longrightarrow> length (input s') \<le> length (input s)"
  by (auto simp: follows_def)

lemma safe_read_uvarint:
  "safe (read_uvarint s) (\<lambda>(n, s'). follows s s' \<and> length (input s') < length (input s))"
proof -
  have "read_uvarint s \<noteq> Inl Panic" using read_uvarint_no_panic by (simp add: read_uvarint_def)
  moreover have "follows s s' \<and> length (input s') < length (input s)" if "read_uvarint s = Inr (n, s')" for n s'
    using read_uvarint_progress [OF that] by (auto simp: follows_def)
  ultimately show ?thesis by (auto simp: safe_iff)
qed

lemma safe_read:
  "wf_stream s \<Longrightarrow> len < 2 ^ 32 \<Longrightarrow>
    safe (read s len) (\<lambda>(b, s'). follows s s' \<and> length b = len \<and> len \<le> length (input s))"
  by (auto simp: read_eq follows_def intro: safe_intros)

lemma safe_narrow:
  "safe (usize_of_u64 n) (\<lambda>k. k < 2 ^ 32)" "safe (u8_of_u64 n) (\<lambda>_. True)" "safe (u16_of_u64 n) (\<lambda>_. True)"
  by (auto simp: usize_of_u64_def u8_of_u64_def u16_of_u64_def intro: safe_intros)

lemma safe_skip_value: "wf_stream s \<Longrightarrow> safe (skip_value s p) (follows s)"
  unfolding skip_value_def
  by (auto intro!: safe_intros safe_rbind [OF safe_read_uvarint] safe_rbind [OF safe_narrow(1)] safe_rbind [OF safe_read]
      split: prod.splits dest: follows_wf intro: follows_trans)

lemma safe_alloc: "alloc_sound a \<Longrightarrow> safe (a x) (\<lambda>y. y = x)"
  by (auto simp: safe_iff alloc_sound_def)

lemma safe_map_set: "alloc_sound (py_alloc E) \<Longrightarrow> safe (obj_map_set E m k v) (\<lambda>m'. m' = map_set m k v)"
  unfolding obj_map_set_def by (auto intro!: safe_intros safe_rbind [OF safe_alloc])

subsection \<open>Fields\<close>

text \<open>The decoder of nested messages, on streams shorter than \<open>len\<close>.\<close>

definition safe_dec :: "proto_data \<Rightarrow> bool \<Rightarrow> nat \<Rightarrow> msg_decoder \<Rightarrow> nat \<Rightarrow> msg_def \<Rightarrow> bool" where
  "safe_dec D xp n dec len mt \<longleftrightarrow> (\<forall>s. wf_stream s \<longrightarrow> length (input s) < len \<longrightarrow>
     safe (dec s mt) (\<lambda>x. \<exists>m. x = OMsg m (msg_wire_id mt) (msg_offset mt) \<and> typed_msg D xp n mt m))"

lemma safe_decode_bytes:
  assumes "wf_stream s" "\<And>b s'. follows s s' \<Longrightarrow> length b \<le> length (input s) \<Longrightarrow> safe (c b s') Q"
  shows "safe (rbind (usize_of_u64 num) (\<lambda>len. rbind (read s len) (\<lambda>(b, s'). c b s'))) Q"
proof (rule safe_rbind [OF safe_narrow(1)])
  fix len :: nat assume "len < 2 ^ 32"
  from safe_read [OF assms(1) this] show "safe (rbind (read s len) (\<lambda>(b, s'). c b s')) Q"
    by (rule safe_rbind) (auto intro: assms(2))
qed

lemma safe_from_utf8: "safe (ok_or (from_utf8 b) e) (\<lambda>u. u = b \<and> utf8_valid b)"
  by (auto simp: from_utf8_def intro: safe_intros)

lemma safe_decode_value:
  assumes "alloc_sound (py_alloc E)" "wf_stream s"
    and "\<And>mt. ty = FMsg mt \<Longrightarrow> safe_dec D xp n dec (Suc (length (input s))) mt"
  shows "safe (decode_value E dec name ty num s) (\<lambda>(v, s'). follows s s' \<and> typed_value (typed_msg D xp n) ty v)"
proof -
  let ?Q = "\<lambda>(v, s'). follows s s' \<and> typed_value (typed_msg D xp n) ty v"
  note alloc = safe_rbind [OF safe_alloc [OF assms(1)]] and bytes = safe_decode_bytes [OF assms(2)]
  note d = decode_value_def typed_value_def
  show ?thesis
  proof (cases ty)
    case UVarInt
    have "uint num < 2 ^ 64" using uint_lt2p [of num] by simp
    with UVarInt show ?thesis by (auto simp: d obj_of_u64_def intro!: alloc safe_Inr)
  next
    case SVarInt
    with sint_greater_eq [of "to_signed num"] sint_less [of "to_signed num"] show ?thesis
      by (auto simp: d obj_of_i64_def intro!: alloc safe_Inr)
  next
    case FBool
    then show ?thesis by (auto simp: d obj_of_bool_def intro!: safe_Inr)
  next
    case FBytes
    then show ?thesis by (auto simp: d intro!: bytes alloc safe_Inr)
  next
    case FString
    then show ?thesis by (auto simp: d intro!: bytes safe_rbind [OF safe_from_utf8] alloc safe_Inr)
  next
    case (FEnum e)
    then show ?thesis by (auto simp: d intro!: safe_rbind [OF safe_narrow(3)] safe_intros)
  next
    case (FMsg mt)
    have sub: "safe (rbind (dec (stream_new b) mt) (\<lambda>v. Inr (v, s'))) ?Q"
      if b: "follows s s'" "length b \<le> length (input s)" for b s'
    proof (rule safe_rbind)
      have "wf_stream (stream_new b)"
        using b(2) assms(2) length_input [of s] by (auto simp: wf_stream_def stream_new_def)
      then show "safe (dec (stream_new b) mt)
          (\<lambda>x. \<exists>m. x = OMsg m (msg_wire_id mt) (msg_offset mt) \<and> typed_msg D xp n mt m)"
        using assms(3) [OF FMsg] b(2) by (simp add: safe_dec_def)
    qed (use FMsg b(1) in \<open>auto simp: typed_value_def intro!: safe_Inr\<close>)
    have "rbind (read_stream s len) (\<lambda>(u, s'). rbind (dec u mt) (\<lambda>v. Inr (v, s'))) =
        rbind (read s len) (\<lambda>(b, s'). rbind (dec (stream_new b) mt) (\<lambda>v. Inr (v, s')))" for len
      by (simp add: read_stream_def rbind_assoc split_def)
    with bytes [of "\<lambda>b s'. rbind (dec (stream_new b) mt) (\<lambda>v. Inr (v, s'))" ?Q, OF sub]
    show ?thesis by (simp add: decode_value_def FMsg)
  qed
qed

lemma safe_decode_field:
  assumes "alloc_sound (py_alloc E)" "(get_type D f :: field_type res) = Inr ty" "wf_stream s"
    and "\<And>mt. ty = FMsg mt \<Longrightarrow> safe_dec D xp n dec (length (input s)) mt"
  shows "safe (decode_field D E xp dec s f)
    (\<lambda>(v, s'). follows s s' \<and> (is_experimental f \<longrightarrow> xp) \<and> typed_value (typed_msg D xp n) ty v)"
proof (cases "is_experimental f \<and> \<not> xp")
  case True
  then show ?thesis by (simp add: decode_field_def safe_intros)
next
  case False
  show ?thesis
    unfolding decode_field_def if_not_P [OF False]
  proof (rule safe_rbind [OF safe_read_uvarint], clarify)
    fix num :: u64 and s1
    assume s1: "follows s s1" "length (input s1) < length (input s)"
    have "safe_dec D xp n dec (Suc (length (input s1))) mt" if "ty = FMsg mt" for mt
      using assms(4) [OF that] s1(2) by (simp add: safe_dec_def)
    then have v: "safe (decode_value E dec (f_name f) ty num s1)
        (\<lambda>(v, s'). follows s1 s' \<and> typed_value (typed_msg D xp n) ty v)"
      by (rule safe_decode_value [OF assms(1) follows_wf [OF s1(1) assms(3)]])
    have "safe (decode_value E dec (f_name f) ty num s1)
      (\<lambda>(v, s'). follows s s' \<and> (is_experimental f \<longrightarrow> xp) \<and> typed_value (typed_msg D xp n) ty v)"
      by (rule safe_mono [OF v]) (use False in \<open>auto intro: follows_trans [OF s1(1)]\<close>)
    then show "safe (rbind (get_type D f) (\<lambda>ty. decode_value E dec (f_name f) ty num s1))
      (\<lambda>(v, s'). follows s s' \<and> (is_experimental f \<longrightarrow> xp) \<and> typed_value (typed_msg D xp n) ty v)"
      by (simp add: assms(2))
  qed
qed

subsection \<open>The map under construction\<close>

definition partial_map :: "proto_data \<Rightarrow> bool \<Rightarrow> nat \<Rightarrow> msg_def \<Rightarrow> obj_map \<Rightarrow> bool" where
  "partial_map D xp n msg m \<longleftrightarrow>
     (\<forall>e\<in>set m. fst e \<in> f_name ` set (msg_fields msg)) \<and>
     (\<forall>f\<in>set (msg_fields msg). \<forall>v. map_of m (f_name f) = Some v \<longrightarrow> filled D xp (typed_msg D xp n) f v)"

lemma partial_map_set:
  assumes "partial_map D xp n msg m" "f \<in> set (msg_fields msg)" "distinct (map f_name (msg_fields msg))"
    and "filled D xp (typed_msg D xp n) f v"
  shows "partial_map D xp n msg (map_set m (f_name f) v)"
proof -
  have "g = f" if "g \<in> set (msg_fields msg)" "f_name g = f_name f" for g
    using assms(2,3) that by (metis distinct_map inj_onD)
  then have "filled D xp (typed_msg D xp n) g u"
    if "g \<in> set (msg_fields msg)" "map_of (map_set m (f_name f) v) (f_name g) = Some u" for g u
    using that assms(1,4) by (cases "f_name g = f_name f") (auto simp: partial_map_def)
  moreover have "fst e \<in> f_name ` set (msg_fields msg)" if "e \<in> set (map_set m (f_name f) v)" for e
  proof -
    have "fst e \<in> insert (f_name f) (fst ` set m)" using that keys_map_set [of m "f_name f" v] by blast
    with assms(1,2) show ?thesis by (auto simp: partial_map_def)
  qed
  ultimately show ?thesis by (simp add: partial_map_def)
qed

lemma safe_store_field:
  assumes "alloc_sound (py_alloc E)" "partial_map D xp n msg m" "f \<in> set (msg_fields msg)"
    "distinct (map f_name (msg_fields msg))" "(get_type D f :: field_type res) = Inr ty"
    and v: "typed_value (typed_msg D xp n) ty v" "is_experimental f \<longrightarrow> xp"
  shows "safe (store_field E f v m) (partial_map D xp n msg)"
proof (cases "is_repeated f")
  case False
  have "partial_map D xp n msg (map_set m (f_name f) v)"
    using assms False by (intro partial_map_set) (auto simp: filled_def)
  with False show ?thesis
    by (auto simp: store_field_def intro: safe_mono [OF safe_map_set [OF assms(1)]])
next
  case True
  have p: "partial_map D xp n msg (map_set m (f_name f) (OList (xs @ [v])))"
    if "list_all (typed_value (typed_msg D xp n) ty) xs" for xs
    using assms True that by (intro partial_map_set) (auto simp: filled_def)
  show ?thesis
  proof (cases "map_of m (f_name f)")
    case None
    then have "store_field E f v m = rbind (py_alloc E (OList [v])) (\<lambda>l. obj_map_set E m (f_name f) l)"
      using True by (simp add: store_field_def map_get_def)
    with p [of "[]"] show ?thesis
      by (auto intro!: safe_rbind [OF safe_alloc [OF assms(1)]] intro: safe_mono [OF safe_map_set [OF assms(1)]])
  next
    case (Some x)
    then have "filled D xp (typed_msg D xp n) f x" using assms(2,3) by (simp add: partial_map_def)
    then obtain xs where x: "x = OList xs" "list_all (typed_value (typed_msg D xp n) ty) xs"
      using True by (cases x) (simp_all add: filled_def assms(5))
    then show ?thesis
      using True Some p [OF x(2)]
      by (auto simp: store_field_def map_get_def list_of_obj_def intro!: safe_rbind [OF safe_alloc [OF assms(1)]] safe_Inr)
  qed
qed

subsection \<open>The loops\<close>

lemma safe_decode_one:
  assumes "alloc_sound (py_alloc E)" "closed_schema D S" "msg \<in> S" "wf_stream s" "partial_map D xp n msg m"
    and dec: "\<And>mt. mt \<in> S \<Longrightarrow> safe_dec D xp n dec (length (input s)) mt"
  shows "safe (decode_one D E xp dec key s msg m) (\<lambda>(m', s'). partial_map D xp n msg m' \<and> follows s s')"
  unfolding decode_one_def
proof (rule safe_rbind [OF safe_narrow(2)], rule safe_rbind [OF safe_narrow(2)])
  fix t p
  show "safe (case msg_field msg t of
      Some f \<Rightarrow> rbind (decode_field D E xp dec s f) (\<lambda>(v, s). rbind (store_field E f v m) (\<lambda>m. Inr (m, s)))
    | None \<Rightarrow> rbind (skip_value s p) (\<lambda>s. Inr (m, s))) (\<lambda>(m', s'). partial_map D xp n msg m' \<and> follows s s')"
  proof (cases "msg_field msg t")
    case None
    then show ?thesis
      using assms(5) by (auto intro!: safe_rbind [OF safe_skip_value [OF assms(4)]] safe_Inr)
  next
    case (Some f)
    then have f: "f \<in> set (msg_fields msg)" using msg_field_Some by blast
    obtain ty where ty: "(get_type D f :: field_type res) = Inr ty" "\<And>mt. ty = FMsg mt \<Longrightarrow> mt \<in> S"
      using closed_schemaD [OF assms(2,3) f] by metis
    have dist: "distinct (map f_name (msg_fields msg))"
      using assms(2,3) by (auto simp: closed_schema_def wf_fields_def)
    have "safe (rbind (decode_field D E xp dec s f) (\<lambda>(v, s). rbind (store_field E f v m) (\<lambda>m. Inr (m, s))))
        (\<lambda>(m', s'). partial_map D xp n msg m' \<and> follows s s')"
    proof (rule safe_rbind [OF safe_decode_field [OF assms(1) ty(1) assms(4) dec [OF ty(2)]]], assumption, clarify)
      fix v s'
      assume "follows s s'" "is_experimental f \<longrightarrow> xp" "typed_value (typed_msg D xp n) ty v"
      then show "safe (rbind (store_field E f v m) (\<lambda>m. Inr (m, s'))) (\<lambda>(m', s'). partial_map D xp n msg m' \<and> follows s s')"
        by (intro safe_rbind [OF safe_store_field [OF assms(1,5) f dist ty(1)]]) (auto intro!: safe_Inr)
    qed
    with Some show ?thesis by simp
  qed
qed

lemma safe_decode_fields:
  assumes "alloc_sound (py_alloc E)" "closed_schema D S" "msg \<in> S" "wf_stream s" "partial_map D xp n msg m"
    and "\<And>mt. mt \<in> S \<Longrightarrow> safe_dec D xp n dec (length (input s)) mt"
  shows "safe (decode_fields_into D E xp dec s msg m) (partial_map D xp n msg)"
  using assms(1-6)
proof (induction D E xp dec s msg m rule: decode_fields_into.induct)
  case (1 D E xp dec s msg m)
  show ?case
  proof (cases "read_uvarint s")
    case (Inl x)
    then show ?thesis
      using safe_read_uvarint [of s] "1.prems"(5)
      by (cases x) (auto simp: decode_fields_into.simps [of D E xp dec s] safe_def)
  next
    case (Inr p)
    obtain key s1 where p: "p = (key, s1)" by (cases p)
    have s1: "follows s s1" "length (input s1) < length (input s)"
      using safeD [OF safe_read_uvarint [of s] Inr] p by auto
    have dec: "safe_dec D xp n dec (length (input u)) mt" if "mt \<in> S" "length (input u) \<le> length (input s)" for mt u
      using "1.prems"(6) [OF that(1)] that(2) by (simp add: safe_dec_def)
    have one: "safe (decode_one D E xp dec key s1 msg m) (\<lambda>(m', s'). partial_map D xp n msg m' \<and> follows s1 s')"
      using s1(2) by (intro safe_decode_one [OF "1.prems"(1-3) follows_wf [OF s1(1) "1.prems"(4)] "1.prems"(5)] dec) simp_all
    have "safe (rbind (decode_one D E xp dec key s1 msg m) (\<lambda>(m', s2). decode_fields_into D E xp dec s2 msg m'))
        (partial_map D xp n msg)"
    proof (cases "decode_one D E xp dec key s1 msg m")
      case (Inl x)
      with one show ?thesis by (cases x) (simp_all add: safe_def)
    next
      case o: (Inr q)
      obtain m' s2 where q: "q = (m', s2)" by (cases q)
      have m': "partial_map D xp n msg m'" "follows s1 s2" using safeD [OF one o] q by auto
      have "safe (decode_fields_into D E xp dec s2 msg m') (partial_map D xp n msg)"
      proof (rule "1.IH" [OF Inr p [symmetric] o q [symmetric] "1.prems"(1-3) _ m'(1)])
        show "wf_stream s2" using follows_wf [OF follows_trans [OF s1(1) m'(2)] "1.prems"(4)] .
        show "safe_dec D xp n dec (length (input s2)) mt" if "mt \<in> S" for mt
          using dec [OF that] follows_length [OF m'(2)] s1(2) by simp
      qed
      with o q show ?thesis by simp
    qed
    with Inr p show ?thesis by (simp add: decode_fields_into.simps [of D E xp dec s])
  qed
qed

text \<open>Decoding a scalar value moves the stream exactly as skipping it does.\<close>

lemma decode_field_skips:
  assumes "decode_field D E xp dec s f = Inr (v, s')" "(get_type D f :: field_type res) = Inr ty" "scalar_type ty"
  shows "skip_value s (primitive_type ty) = Inr s'"
  using assms
  by (cases ty) (auto simp: decode_field_def decode_value_def skip_value_def primitive_type_def PRIMITIVE_TYPE_VARINT_def
      PRIMITIVE_TYPE_LENGTH_DELIMITED_def scalar_type_def result_simps split: if_splits)

definition plain_default :: "proto_data \<Rightarrow> msg_def \<Rightarrow> u8 \<Rightarrow> bool" where
  "plain_default D msg t \<longleftrightarrow> (case msg_field msg t of
      Some f \<Rightarrow> \<not> is_repeated f \<and> (case (get_type D f :: field_type res) of Inr ty \<Rightarrow> scalar_type ty | Inl _ \<Rightarrow> False)
    | None \<Rightarrow> False)"

lemma safe_decode_default:
  assumes "alloc_sound (py_alloc E)" "distinct (map f_name (msg_fields msg))" "wf_stream s" "partial_map D xp n msg m"
    and f: "msg_field msg t = Some f" "\<not> is_repeated f" "(get_type D f :: field_type res) = Inr ty" "scalar_type ty"
  shows "safe (decode_default D E xp dec t s msg m)
    (\<lambda>(m', s'). partial_map D xp n msg m' \<and> follows s s' \<and> skip_value s (primitive_type ty) = Inr s')"
proof (cases "contains_key m (f_name f)")
  case True
  have "safe (skip_value s (primitive_type ty)) (\<lambda>s'. follows s s' \<and> skip_value s (primitive_type ty) = Inr s')"
    using safe_skip_value [OF assms(3), of "primitive_type ty"] by (auto simp: safe_iff)
  with True f assms(4) show ?thesis
    by (auto simp: decode_default_def intro!: safe_Inr elim!: safe_rbind)
next
  case False
  have fm: "f \<in> set (msg_fields msg)" using msg_field_Some [OF f(1)] by blast
  have "safe_dec D xp n dec (length (input s)) mt" if "ty = FMsg mt" for mt
    using f(4) that by (simp add: scalar_type_def)
  then have d: "safe (decode_field D E xp dec s f)
      (\<lambda>(v, s'). follows s s' \<and> (is_experimental f \<longrightarrow> xp) \<and> typed_value (typed_msg D xp n) ty v)"
    by (rule safe_decode_field [OF assms(1) f(3) assms(3)])
  then have "safe (decode_field D E xp dec s f) (\<lambda>(v, s'). follows s s' \<and> skip_value s (primitive_type ty) = Inr s' \<and>
      filled D xp (typed_msg D xp n) f v)"
    using f(2) decode_field_skips [OF _ f(3,4)] by (auto simp: safe_iff filled_def f(3))
  then have "safe (rbind (decode_field D E xp dec s f) (\<lambda>(v, s'). rbind (obj_map_set E m (f_name f) v) (\<lambda>m. Inr (m, s'))))
    (\<lambda>(m', s'). partial_map D xp n msg m' \<and> follows s s' \<and> skip_value s (primitive_type ty) = Inr s')"
    using partial_map_set [OF assms(4) fm assms(2)]
    by (elim safe_rbind) (auto intro!: safe_rbind [OF safe_map_set [OF assms(1)]] safe_Inr)
  with False f(1) show ?thesis by (simp add: decode_default_def)
qed

lemma safe_defaults_loop:
  assumes "alloc_sound (py_alloc E)" "distinct (map f_name (msg_fields msg))" "wf_stream s" "partial_map D xp n msg m"
    and "default_tags D msg s = Inr ts" "\<And>t. t \<in> set ts \<Longrightarrow> plain_default D msg t"
  shows "safe (defaults_loop D E xp dec s msg m) (partial_map D xp n msg)"
  using assms(2-6)
proof (induction D msg s arbitrary: ts m rule: default_tags.induct)
  case (1 D msg s)
  show ?case
  proof (cases "read_byte s")
    case (Inl x)
    then show ?thesis
      using "1.prems"(3) by (cases x) (auto simp: defaults_loop.simps [of D E xp dec s] read_byte_def nth_get_def safe_def split: if_splits)
  next
    case (Inr p)
    obtain t s1 where p: "p = (t, s1)" by (cases p)
    obtain f ty s2 ts' where h: "msg_field msg t = Some f" "(get_type D f :: field_type res) = Inr ty"
      "skip_value s1 (primitive_type ty) = Inr s2" "default_tags D msg s2 = Inr ts'" "ts = t # ts'"
      using "1.prems"(4) by (auto simp: default_tags.simps [of D msg s] Inr p result_simps)
    have plain: "\<not> is_repeated f" "scalar_type ty"
      using "1.prems"(5) [of t] h by (auto simp: plain_default_def)
    have s1: "follows s s1"
      using Inr p by (auto simp: read_byte_eq follows_def split: list.splits)
    have w1: "wf_stream s1" using follows_wf [OF s1 "1.prems"(2)] .
    have "safe (defaults_loop D E xp dec s2 msg m') (partial_map D xp n msg)" if "partial_map D xp n msg m'" "follows s1 s2" for m'
      using "1.IH" [OF Inr p [symmetric] _ h(2,3) "1.prems"(1) follows_wf [OF that(2) w1] that(1) h(4)] "1.prems"(5) h by simp
    then have "safe (rbind (decode_default D E xp dec t s1 msg m) (\<lambda>(m', s2). defaults_loop D E xp dec s2 msg m'))
        (partial_map D xp n msg)"
      using h(3) by (intro safe_rbind [OF safe_decode_default [OF assms(1) "1.prems"(1) w1 "1.prems"(3) h(1) plain(1) h(2) plain(2)]]) auto
    with Inr p show ?thesis by (simp add: defaults_loop.simps [of D E xp dec s])
  qed
qed

text \<open>Filling in what is missing.\<close>

definition filled_or_default :: "proto_data \<Rightarrow> bool \<Rightarrow> nat \<Rightarrow> msg_def \<Rightarrow> obj_map \<Rightarrow> bool" where
  "filled_or_default D xp n msg m \<longleftrightarrow>
     (\<forall>e\<in>set m. fst e \<in> f_name ` set (msg_fields msg)) \<and>
     (\<forall>f\<in>set (msg_fields msg). map_of m (f_name f) \<noteq> None \<longrightarrow> typed_entry D xp (typed_msg D xp n) m f)"

lemma filled_or_default_set:
  assumes "filled_or_default D xp n msg m" "f \<in> set (msg_fields msg)" "distinct (map f_name (msg_fields msg))"
    and "\<not> is_required f" "v = (if is_repeated f then OList [] else ONone)"
  shows "filled_or_default D xp n msg (map_set m (f_name f) v)"
proof -
  have "g = f" if "g \<in> set (msg_fields msg)" "f_name g = f_name f" for g
    using assms(2,3) that by (metis distinct_map inj_onD)
  then have "typed_entry D xp (typed_msg D xp n) (map_set m (f_name f) v) g"
    if "g \<in> set (msg_fields msg)" "map_of (map_set m (f_name f) v) (f_name g) \<noteq> None" for g
    using that assms by (cases "f_name g = f_name f") (auto simp: filled_or_default_def typed_entry_def)
  moreover have "fst e \<in> f_name ` set (msg_fields msg)" if "e \<in> set (map_set m (f_name f) v)" for e
  proof -
    have "fst e \<in> insert (f_name f) (fst ` set m)" using that keys_map_set [of m "f_name f" v] by blast
    with assms(1,2) show ?thesis by (auto simp: filled_or_default_def)
  qed
  ultimately show ?thesis by (simp add: filled_or_default_def)
qed

lemma safe_assign_required:
  assumes "alloc_sound (py_alloc E)" "distinct (map f_name (msg_fields msg))" "set fs \<subseteq> set (msg_fields msg)"
    and "filled_or_default D xp n msg m"
  shows "safe (rfold (assign_required E) fs m) (\<lambda>m'. filled_or_default D xp n msg m' \<and>
    dom (map_of m) \<union> f_name ` set fs \<subseteq> dom (map_of m'))"
  using assms(3,4)
proof (induction fs arbitrary: m)
  case Nil
  then show ?case by (simp add: safe_Inr)
next
  case (Cons f fs)
  have step: "safe (assign_required E f m) (\<lambda>m'. filled_or_default D xp n msg m' \<and>
      insert (f_name f) (dom (map_of m)) \<subseteq> dom (map_of m'))"
    using Cons.prems filled_or_default_set [OF Cons.prems(2) _ assms(2), of f]
    by (auto simp: assign_required_def contains_key_iff
        intro!: safe_intros safe_rbind [OF safe_alloc [OF assms(1)]] safe_mono [OF safe_map_set [OF assms(1)]])
  have "safe (rfold (assign_required E) fs m1) (\<lambda>m'. filled_or_default D xp n msg m' \<and>
      dom (map_of m) \<union> f_name ` set (f # fs) \<subseteq> dom (map_of m'))"
    if "filled_or_default D xp n msg m1" "insert (f_name f) (dom (map_of m)) \<subseteq> dom (map_of m1)" for m1
    by (rule safe_mono [OF Cons.IH]) (use Cons.prems that in \<open>simp_all, blast\<close>)
  then show ?case
    by (auto intro!: safe_rbind [OF step])
qed

subsection \<open>Whole messages\<close>

text \<open>Tables as the build generates them: closed under reference, with plain default values.\<close>

definition wf_schema :: "proto_data \<Rightarrow> msg_def set \<Rightarrow> bool" where
  "wf_schema D S \<longleftrightarrow> closed_schema D S \<and> (\<forall>msg\<in>S. wf_defaults D msg \<and> length (msg_defaults msg) < 2 ^ 8)"

lemma safe_defaults:
  assumes "alloc_sound (py_alloc E)" "wf_schema D S" "msg \<in> S" "partial_map D xp n msg m"
  shows "safe (decode_defaults_into D E xp dec msg m) (partial_map D xp n msg)"
proof -
  have w: "wf_defaults D msg" "distinct (map f_name (msg_fields msg))" "length (msg_defaults msg) < 2 ^ 8"
    using assms(2,3) by (auto simp: wf_schema_def closed_schema_def wf_fields_def)
  then have "default_tags D msg (stream_new (msg_defaults msg)) = Inr (tags_with_default D msg)"
    by (auto simp: wf_defaults_def tags_with_default_def is_ok_iff)
  moreover have "plain_default D msg t" if "t \<in> set (tags_with_default D msg)" for t
    using w(1) that by (auto simp: wf_defaults_def plain_default_def list_all_iff)
  ultimately show ?thesis
    unfolding decode_defaults_into_def
    by (intro safe_defaults_loop [OF assms(1) w(2) _ assms(4)]) (use w(3) in auto)
qed

lemma safe_assign_all:
  assumes "alloc_sound (py_alloc E)" "wf_schema D S" "msg \<in> S" "partial_map D xp n msg m"
  shows "safe (assign_required_into E msg m) (typed_msg D xp (Suc n) msg)"
proof -
  have d: "distinct (map f_name (msg_fields msg))"
    using assms(2,3) by (auto simp: wf_schema_def closed_schema_def wf_fields_def)
  have "filled_or_default D xp n msg m"
    using assms(4) by (auto simp: partial_map_def filled_or_default_def typed_entry_def)
  from safe_assign_required [OF assms(1) d order_refl this] show ?thesis
    unfolding assign_required_into_def
    by (rule safe_mono) (auto simp: filled_or_default_def list_all_iff)
qed

lemma message_safe:
  assumes "alloc_sound (py_alloc E)" "wf_schema D S" "msg \<in> S"
  shows "safe_dec D xp n (message_from_stream D E xp n) n msg"
  using assms(3)
proof (induction n arbitrary: msg)
  case 0
  then show ?case by (simp add: safe_dec_def)
next
  case (Suc n)
  have e: "safe (empty_message E msg) (\<lambda>x. x = ([], msg_wire_id msg, msg_offset msg))"
    unfolding empty_message_def alloc_with_capacity_def
    by (auto intro!: safe_rbind [OF safe_alloc [OF assms(1)]] safe_Inr)
  have "safe (message_from_stream D E xp (Suc n) s msg)
      (\<lambda>x. \<exists>m. x = OMsg m (msg_wire_id msg) (msg_offset msg) \<and> typed_msg D xp (Suc n) msg m)"
    if s: "wf_stream s" "length (input s) < Suc n" for s
  proof -
    let ?dec = "message_from_stream D E xp n"
    have p: "partial_map D xp n msg []" by (simp add: partial_map_def)
    have "safe_dec D xp n ?dec (length (input s)) mt" if "mt \<in> S" for mt
      using Suc.IH [OF that] s(2) by (simp add: safe_dec_def)
    then have f: "safe (decode_fields_into D E xp ?dec s msg []) (partial_map D xp n msg)"
      using assms(2) by (intro safe_decode_fields [OF assms(1) _ Suc.prems s(1) p]) (auto simp: wf_schema_def)
    have "safe (rbind (decode_fields_into D E xp ?dec s msg []) (\<lambda>m.
        rbind (decode_defaults_into D E xp ?dec msg m) (\<lambda>m.
        rbind (assign_required_into E msg m) (\<lambda>m. Inr (OMsg m (msg_wire_id msg) (msg_offset msg))))))
      (\<lambda>x. \<exists>m. x = OMsg m (msg_wire_id msg) (msg_offset msg) \<and> typed_msg D xp (Suc n) msg m)"
      by (rule safe_rbind [OF f], rule safe_rbind [OF safe_defaults [OF assms(1,2) Suc.prems]],
          assumption, rule safe_rbind [OF safe_assign_all [OF assms(1,2) Suc.prems]], assumption)
        (blast intro: safe_Inr)
    then show ?thesis
      unfolding message_from_stream.simps Let_def by (intro safe_rbind [OF e]) simp
  qed
  then show ?case by (simp add: safe_dec_def)
qed


text \<open>An example: a hostile message whose byte string claims more bytes than there are.\<close>

lemma example_wf_schema: "wf_schema example_data {example_outer, example_inner}"
proof -
  have "sub_msgs example_data example_outer = [example_inner]"
    by (simp add: sub_msgs_def example_outer_def example_types)
  moreover have "sub_msgs example_data example_inner = []"
    by (simp add: sub_msgs_def example_inner_def example_types)
  moreover have "length (msg_defaults example_outer) < 2 ^ 8" "length (msg_defaults example_inner) < 2 ^ 8"
    by (simp_all add: example_outer_def example_inner_def)
  ultimately show ?thesis
    using example_wf_fields example_wf_defaults(1,2) by (simp add: wf_schema_def closed_schema_def)
qed


subsection \<open>Unknown fields\<close>

lemma key_parts:
  assumes "p = 0 \<or> p = 2"
  shows "u8_of_u64 (drop_bit 3 (push_bit 3 (ucast t) OR p)) = Inr (t :: u8)"
    and "u8_of_u64 ((push_bit 3 (ucast t) OR p) AND 7) = Inr (ucast p)"
proof -
  have "drop_bit 3 (push_bit 3 (ucast t) OR p) = (ucast t :: u64)"
    using assms by (intro bit_word_eqI) (auto simp: bit_simps dest: bit_imp_le_length)
  moreover have "unat (ucast t :: u64) < 2 ^ 8"
    using unat_u8 [of t] by (simp add: unsigned_ucast_eq take_bit_nat_eq_self)
  moreover have "ucast (ucast t :: u64) = t"
    by (rule bit_word_eqI) (simp add: bit_simps)
  ultimately show "u8_of_u64 (drop_bit 3 (push_bit 3 (ucast t) OR p)) = Inr t"
    by (simp add: u8_of_u64_def)
  have "(push_bit 3 (ucast t) OR p) AND 7 = take_bit 3 (push_bit 3 (ucast t) OR p)"
    by (simp add: take_bit_eq_mask mask_eq_exp_minus_1)
  also have "\<dots> = p"
    using assms by (auto simp: take_bit_push_bit)
  finally show "u8_of_u64 ((push_bit 3 (ucast t) OR p) AND 7) = Inr (ucast p)"
    using assms by (auto simp: u8_of_u64_def)
qed

definition unknown_varint :: "u8 \<Rightarrow> u64 \<Rightarrow> bytes" where
  "unknown_varint t n = uvarint_bytes (push_bit 3 (ucast t) OR 0) @ uvarint_bytes n"

definition unknown_bytes :: "u8 \<Rightarrow> bytes \<Rightarrow> bytes" where
  "unknown_bytes t b = uvarint_bytes (push_bit 3 (ucast t) OR 2) @ prefixed b"

lemma skip_unknown:
  assumes "wf_stream s" "input s = u @ r" "u = uvarint_bytes (push_bit 3 (ucast t) OR p) @ c" "p = 0 \<or> p = 2"
    and "msg_field msg t = None"
    and skip: "\<And>s1. wf_stream s1 \<Longrightarrow> input s1 = c @ r \<Longrightarrow> skip_value s1 (ucast p) = Inr (advance s1 (length c))"
  shows "decode_fields_into D E xp dec s msg m = decode_fields_into D E xp dec (advance s (length u)) msg m"
proof -
  let ?k = "push_bit 3 (ucast t) OR p"
  let ?s1 = "advance s (length (uvarint_bytes ?k))"
  have i: "input s = uvarint_bytes ?k @ c @ r" using assms(2,3) by simp
  have "skip_value ?s1 (ucast p) = Inr (advance ?s1 (length c))"
    using wf_stream_split [OF assms(1) i] i by (intro skip) simp_all
  then have "decode_one D E xp dec ?k ?s1 msg m = Inr (m, advance s (length u))"
    using assms(3,5) key_parts [OF assms(4), of t] by (simp add: decode_one_def)
  then show ?thesis
    using read_uvarint_bytes [OF i] by (simp add: decode_fields_into.simps [of D E xp dec s])
qed

text \<open>
  Forward compatibility: a field that the definition does not know, a number or a
  length-delimited value, is skipped.  Wherever it occurs in a message, decoding continues behind it
  as if it were not there.
\<close>

theorem unknown_field_skipped:
  assumes "wf_stream s" "msg_field msg t = None"
    and "u = unknown_varint t n \<or> u = unknown_bytes t b" "input s = u @ r"
  shows "decode_fields_into D E xp dec s msg m = decode_fields_into D E xp dec (advance s (length u)) msg m"
proof (cases "u = unknown_varint t n")
  case True
  show ?thesis
  proof (rule skip_unknown [OF assms(1,4) True [unfolded unknown_varint_def] _ assms(2)])
    fix s1 assume "wf_stream s1" "input s1 = uvarint_bytes n @ r"
    then show "skip_value s1 (ucast (0 :: u64)) = Inr (advance s1 (length (uvarint_bytes n)))"
      using read_uvarint_bytes [of s1 n r] by (simp add: skip_value_def PRIMITIVE_TYPE_VARINT_def)
  qed simp
next
  case False
  with assms(3) have u: "u = unknown_bytes t b" by blast
  show ?thesis
  proof (rule skip_unknown [OF assms(1,4) u [unfolded unknown_bytes_def] _ assms(2)])
    fix s1 assume "wf_stream s1" "input s1 = prefixed b @ r"
    then obtain s2 where "read_uvarint s1 = Inr (word_of_nat (length b mod 2 ^ 32), s2)"
      "read s2 (length b) = Inr (b, advance s1 (length (prefixed b)))" "length b < 2 ^ 31"
      using read_prefixed by metis
    then show "skip_value s1 (ucast (2 :: u64)) = Inr (advance s1 (length (prefixed b)))"
      using usize_of_len [of "length b"]
      by (simp add: skip_value_def PRIMITIVE_TYPE_VARINT_def PRIMITIVE_TYPE_LENGTH_DELIMITED_def)
  qed simp
qed

theorem unknown_field_skipped_witness:
  "decode_fields_into example_data example_env False (message_from_stream example_data example_env False 5)
      (stream_new (unknown_bytes 9 [1, 2, 3] @ [0x08, 7])) example_outer [] =
   decode_fields_into example_data example_env False (message_from_stream example_data example_env False 5)
      (advance (stream_new (unknown_bytes 9 [1, 2, 3] @ [0x08, 7])) (length (unknown_bytes 9 [1, 2, 3]))) example_outer []"
proof -
  have "length (unknown_bytes 9 [1, 2, 3]) < 100"
    using length_uvarint_bytes [of "push_bit 3 (ucast (9 :: u8)) OR 2"] length_uvarint_bytes [of "word_of_nat (length [1 :: u8, 2, 3] mod 2 ^ 32)"]
    by (simp add: unknown_bytes_def prefixed_def)
  then have "wf_stream (stream_new (unknown_bytes 9 [1, 2, 3] @ [0x08, 7]))" by simp
  moreover have "msg_field example_outer 9 = None" by (simp add: msg_field_def example_outer_def)
  ultimately show ?thesis
    by (rule unknown_field_skipped [where n = 0 and b = "[1, 2, 3]"]) simp_all
qed

text \<open>A key that is cut off is taken for the end of the stream, and the message is accepted.\<close>

lemma truncated_key_accepted:
  "wf_stream s \<Longrightarrow> input s = [0x80] \<Longrightarrow> decode_fields_into D E xp dec s msg m = Inr m"
  by (simp add: decode_fields_into.simps [of D E xp dec s] read_uvarint_def read_uvarint_loop_eq Let_def)

subsection \<open>Message objects\<close>

text \<open>
  Attributes of a message object.  A store succeeds exactly for a field that the message has
  and a value that is not null, so that no field can be added or deleted; it keeps the type of the
  message, the value can be loaded again, and every other field is as before.
\<close>

theorem message_attributes:
  assumes "dest \<noteq> ONull"
  shows "case msg_obj_attr D E (OMsg m w off) k dest v of
      Inr (x', d) \<Rightarrow> v \<noteq> ONull \<and> k \<in> dom (map_of m) \<and> d = ONull \<and>
        (\<exists>m'. x' = OMsg m' w off \<and> dom (map_of m') = dom (map_of m) \<and>
          msg_obj_attr D E x' k ONull v' = Inr (x', v) \<and>
          (\<forall>k'. k' \<noteq> k \<longrightarrow> k' \<noteq> MP_QSTR_dict E \<longrightarrow>
            map_option snd (case msg_obj_attr D E x' k' ONull v' of Inr r \<Rightarrow> Some r | Inl _ \<Rightarrow> None) =
            map_option snd (case msg_obj_attr D E (OMsg m w off) k' ONull v' of Inr r \<Rightarrow> Some r | Inl _ \<Rightarrow> None)))
    | Inl e \<Rightarrow> (v = ONull \<and> e = Err TypeError) \<or> (k \<notin> dom (map_of m) \<and> e = Err (AttributeError k))"
proof (cases "v \<noteq> ONull \<and> k \<in> dom (map_of m)")
  case True
  let ?m = "map_set m k v"
  have st: "msg_obj_attr D E (OMsg m w off) k dest v = Inr (OMsg ?m w off, ONull)"
    using True assms by (simp add: msg_obj_attr_def msg_of_obj_def msg_setattr_def obj_map_set_def contains_key_iff obj_of_msg_def)
  have ld: "msg_obj_attr D E (OMsg n w off) k' ONull v' = rbind (msg_getattr D E (n, w, off) k') (\<lambda>u. Inr (OMsg n w off, u))" for n k'
    by (simp add: msg_obj_attr_def msg_of_obj_def)
  have "msg_getattr D E (?m, w, off) k = Inr v"
    by (simp add: msg_getattr_def map_get_def)
  moreover have "msg_getattr D E (?m, w, off) k' = msg_getattr D E (m, w, off) k'" if "k' \<noteq> k" "k' \<noteq> MP_QSTR_dict E" for k'
    using that by (simp add: msg_getattr_def map_get_def)
  ultimately show ?thesis
    using True by (auto simp: st ld rbind_def split: sum.split)
next
  case False
  then show ?thesis
    using assms by (auto simp: msg_obj_attr_def msg_of_obj_def msg_setattr_def contains_key_iff)
qed

theorem message_attributes_witness:
  "case msg_obj_attr example_data example_env (OMsg example_map (Some 0x37) 0) 0x10 (OInt 0) (OInt 5) of
      Inr (x', d) \<Rightarrow> OInt 5 \<noteq> ONull \<and> 0x10 \<in> dom (map_of example_map) \<and> d = ONull \<and>
        (\<exists>m'. x' = OMsg m' (Some 0x37) 0 \<and> dom (map_of m') = dom (map_of example_map) \<and>
          msg_obj_attr example_data example_env x' 0x10 ONull ONone = Inr (x', OInt 5) \<and>
          (\<forall>k'. k' \<noteq> 0x10 \<longrightarrow> k' \<noteq> MP_QSTR_dict example_env \<longrightarrow>
            map_option snd (case msg_obj_attr example_data example_env x' k' ONull ONone of Inr r \<Rightarrow> Some r | Inl _ \<Rightarrow> None) =
            map_option snd (case msg_obj_attr example_data example_env (OMsg example_map (Some 0x37) 0) k' ONull ONone of
              Inr r \<Rightarrow> Some r | Inl _ \<Rightarrow> None)))
    | Inl e \<Rightarrow> (OInt 5 = ONull \<and> e = Err TypeError) \<or>
        (0x10 \<notin> dom (map_of example_map) \<and> e = Err (AttributeError 0x10))"
  by (rule message_attributes) simp

end
