(* ===== verification/Spec2Isabelle.thy ===== *)
theory Spec2Isabelle
  imports Share_Words Formatted_Text Pin_Keyboard Mnemonic_Keyboard Slip39_Table Sign_Tx Discovery Geometry Wordlist Flash Button_Controller Proto_Safety
begin

text \<open>
  \<^bold>\<open>Verification of the Rust code of the Trezor hardware wallet\<close>

  \<^bold>\<open>The program.\<close>  The repository holds the firmware of the Trezor devices and the programs around it.
  Its Rust code has two large parts.  The crate \<^verbatim>\<open>core/embed/rust\<close> is linked into the firmware beside
  MicroPython: it decodes and encodes the protobuf messages of the host protocol, verifies and serves
  the translations blob in flash, completes words of recovery phrases, measures time, and draws and
  drives the user interface.  The crate \<^verbatim>\<open>rust/trezor-client\<close> runs on the host and talks to the device
  over USB or UDP.  Paths below are relative to \<^verbatim>\<open>core/embed/rust/src\<close> unless they start with
  \<^verbatim>\<open>trezor-client\<close>.

  \<^bold>\<open>Conventions\<close> (theory \<open>Prelude\<close>).  A fallible function returns \<open>('a, 'e) result\<close>: \<open>Inr\<close> is \<open>Ok\<close>,
  \<open>Inl (Err e)\<close> is \<open>Err(e)\<close>, and \<open>Inl Panic\<close> is a panic, an index out of range or undefined behaviour of an
  unchecked read.  Machine integers are words; \<open>usize\<close> is a natural number below \<open>2 ^ 32\<close> whose additions
  wrap; \<open>i16\<close> coordinates are integers whose operations wrap explicitly.  A component with state is a record, and
  its operations return the updated record.  The predicate \<open>safe r Q\<close> says that a computation does not
  panic and that a value it returns satisfies \<open>Q\<close>; its rules carry the proofs about chains of
  fallible steps.

  \<^bold>\<open>Theories and the code they model.\<close>

  \<^item> \<open>Micropython\<close>: \<^verbatim>\<open>error.rs\<close> and the Rust view of MicroPython values (\<^verbatim>\<open>micropython/obj.rs\<close>, \<^verbatim>\<open>map.rs\<close>,
    \<^verbatim>\<open>list.rs\<close>, \<^verbatim>\<open>buffer.rs\<close>, \<^verbatim>\<open>qstr.rs\<close>).  The interpreter is not part of the repository; its allocator is a
    parameter, with the hypotheses \<open>alloc_sound\<close> (it yields the requested object or raises) and \<open>alloc_ok\<close>
    (memory suffices).

  \<^item> \<open>Io_Stream\<close>: \<open>InputStream\<close> of \<^verbatim>\<open>io.rs\<close>, with the abstraction \<open>input\<close>, the bytes still to be read.

  \<^item> \<open>Output_Stream\<close>: the trait \<open>OutputStream\<close>, the counting and the buffering stream of \<^verbatim>\<open>protobuf/encode.rs\<close>
    and \<^verbatim>\<open>protobuf/zigzag.rs\<close>.  The locale \<open>output_stream\<close> is the contract of the trait, interpreted for
    both streams.  Varints and zigzag numbers are read back as they were written.

  \<^item> \<open>Proto_Defs\<close>, \<open>Proto_Codec\<close>: \<^verbatim>\<open>protobuf/defs.rs\<close>, \<^verbatim>\<open>encode.rs\<close>, \<^verbatim>\<open>decode.rs\<close> and \<^verbatim>\<open>obj.rs\<close>: the tables of
    message definitions, encoder, decoder and message objects.  The tables are generated by the
    build and are a parameter; \<open>wf_schema\<close> states what the generator guarantees.  \<open>Proto_Encode\<close> shows
    that the encoder refines a reference encoding (C11), \<open>Proto_Roundtrip\<close> that decoding inverts it
    (C1), \<open>Proto_Safety\<close> that decoding untrusted bytes never panics and yields well-typed messages
    (C2), that unknown fields are skipped and how attributes behave.

  \<^item> \<open>Transport\<close>: \<^verbatim>\<open>trezor-client/src/transport/protocol.rs\<close> and \<^verbatim>\<open>udp.rs\<close>: the framing of messages into chunks
    of 64 bytes, protocols V1 and V2.  The locale \<open>chunk_link\<close> is the contract of a link, interpreted for
    the UDP link.  C7: V1 round trip.  C36: V2 reads back exactly the messages that fit one chunk.

  \<^item> \<open>Client\<close>, \<open>Conversation\<close>: \<^verbatim>\<open>trezor-client/src/client/{mod,common,ethereum,solana}.rs\<close>, \<^verbatim>\<open>error.rs\<close>: the calls of the host
    library, the responses and interaction requests of the device, and every request of the API.  The encoding of
    messages (crate \<open>protobuf\<close>) is a parameter.  The locale \<open>message_link\<close> is the contract of the trait \<open>Transport\<close>,
    interpreted for V1 over UDP on top of \<open>chunk_link\<close>.  C14: a call with its interactions ends, with exactly the right
    acknowledgements.  C18: the data of an Ethereum transaction is sent once and in order.

  \<^item> \<open>Sign_Tx\<close>: \<^verbatim>\<open>trezor-client/src/flows/sign_tx.rs\<close>, \<^verbatim>\<open>client/bitcoin.rs\<close>, \<^verbatim>\<open>utils.rs\<close>: the answers to the device while it
    signs a Bitcoin transaction.  The crate \<open>bitcoin\<close> is a parameter.  C15: which requests panic.  C16 and C17:
    what is answered about the spent transactions and about the one being signed.

  \<^item> \<open>Discovery\<close>: \<^verbatim>\<open>trezor-client/src/lib.rs\<close>, \<^verbatim>\<open>transport/{mod,webusb,udp}.rs\<close>: finding and connecting devices; the USB library
    and sockets are parameters.  C19: what is found can be connected.

  \<^item> \<open>Time\<close>: \<^verbatim>\<open>time.rs\<close> and the clock part of \<^verbatim>\<open>ui/animation.rs\<close>: durations, instants on a wrapping clock,
    stopwatches, animations, with steps forward across the wrap and what a running stopwatch shows.

  \<^item> \<open>Geometry\<close>: \<^verbatim>\<open>ui/geometry.rs\<close> and \<^verbatim>\<open>ui/shape/canvas/viewport.rs\<close>: points, rectangles, grids, linear
    placement and clipping: clipping is intersection of pixels, and grids (C39), linear
    placement and splitting lay out areas without overlap or loss.

  \<^item> \<open>Wordlist\<close>: \<^verbatim>\<open>trezorhal/wordlist.rs\<close>, \<^verbatim>\<open>bip39.rs\<close> and \<^verbatim>\<open>slip39.rs\<close>: the completion
    of words.  C32: the prefix search is exact, and so are the letters offered next.

  \<^item> \<open>Crypto\<close>: \<^verbatim>\<open>crypto/merkle.rs\<close>, \<^verbatim>\<open>cosi.rs\<close>, \<^verbatim>\<open>ed25519.rs\<close>: Merkle proofs and collective signatures.  The
    hash function and the curve operations are C code outside this model, so they are parameters.
    C40: a proof leads to the root of its tree.  C8: exactly which signatures are accepted.

  \<^item> \<open>Utf8\<close>, \<open>Blob\<close>, \<open>Flash\<close>: \<^verbatim>\<open>translations/blob.rs\<close>, \<^verbatim>\<open>flash.rs\<close>, \<^verbatim>\<open>translated_string.rs\<close>: parsing and verifying
    the translations blob, the flash area with its lock as a step relation with reachable states,
    and lookups.  An accepted blob is signed (C3) and safe to look up in (C12, C34); the blob in use
    is always the one in flash (C10), lookups never panic (C37), and initialisation ends (C38).

  \<^item> \<open>Component\<close>, \<open>Hold_To_Confirm\<close>, \<open>Button_Controller\<close>: \<^verbatim>\<open>ui/component/base.rs\<close>, \<^verbatim>\<open>ui/event.rs\<close> and
    \<^verbatim>\<open>ui/model_tr/component/{loader,hold_to_confirm,button,button_controller}.rs\<close>: the event context, the
    wrappers of components, the hold-to-confirm button and the state machine of the two-button device.
    The locale \<open>ui_component\<close> is the contract of the trait \<open>Component\<close>, interpreted for every component
    modelled here.  C5 says exactly when a hold-to-confirm button is triggered, and C25 that the controller
    always recovers; further lemmas what clicks report and what is shown.

  \<^item> \<open>Swipe\<close>, \<open>Flow\<close>, \<open>Screens\<close>: \<^verbatim>\<open>ui/component/swipe.rs\<close>, \<^verbatim>\<open>swipe_detect.rs\<close>, \<^verbatim>\<open>ui/flow/{base,store,swipe,page}.rs\<close>,
    the frames and wrappers of screens (\<^verbatim>\<open>ui/component/{map,button_request,timeout}.rs\<close>,
    \<^verbatim>\<open>ui/model_mercury/component/{frame,swipe_content,share_words}.rs\<close>).  The engine of a flow detects swipes,
    turns pages, lets the current screen handle the event, and follows the decision of the flow.  C27: what
    a gesture triggers.

  \<^item> \<open>Mercury_Flows\<close>, \<open>Flow_Safety\<close>, \<open>Share_Words\<close>: the thirteen flows of \<^verbatim>\<open>ui/model_mercury/flow\<close>, each with its
    states, its transitions and the screens of its store.  The contents of the screens are a parameter.
    The locale \<open>prompt_flow\<close> is the shape of a flow that ends in a prompt, interpreted for three flows.
    C4: a confirmation comes from the prompt.  C26: flows fit their stores and never panic.  C28: they can
    be left.  C6: the flow that shows a backup shows every word of it.

  \<^item> \<open>Text_Layout\<close>, \<open>Paragraphs\<close>, \<open>Formatted_Text\<close>: \<^verbatim>\<open>ui/component/text/{layout,paragraphs,op,formatted,util}.rs\<close>: the
    breaking of text into lines and pages, with the events reported to the renderers as its result.  The metrics of
    fonts are a parameter.  C29: the pages of a formatted text show all of it.  C30: the
    search for page breaks ends.  C31: every paragraph is drawn with its own text.
    These are for styles without chunks; for chunks an example shows a chunk that no page shows.

  \<^item> \<open>Strutil\<close>: \<^verbatim>\<open>strutil.rs\<close> and \<open>StrBuffer\<close> of \<^verbatim>\<open>micropython/buffer.rs\<close>: hexadecimal text, numbers, and the
    strings of the user interface.  C35: formatting of numbers.

  \<^item> \<open>Text_Entry\<close>, \<open>Pin_Keyboard\<close>: the shuffle of \<^verbatim>\<open>trezorhal/random.rs\<close>, \<open>TextBox\<close>, multi-tap keys, the touch
    button, and the PIN keyboard of \<^verbatim>\<open>ui/model_tt\<close>.  C33: the shuffle is fair.  C9: what the keyboard
    does to a PIN.

  \<^item> \<open>Mnemonic_Input\<close>, \<open>Slip39_Input\<close>, \<open>Slip39_Table\<close>, \<open>Mnemonic_Keyboard\<close>: the keyboards of \<^verbatim>\<open>ui/model_tt\<close> for the words
    of a seed, with the functions of \<^verbatim>\<open>crypto/bip39.c\<close> and \<^verbatim>\<open>slip39.c\<close> that they call and the table of key
    sequences.  The locale \<open>mnemonic_input\<close> is the contract of the trait \<open>MnemonicInput\<close>, interpreted for
    both inputs.  C20 and C21: what is confirmed.  C22: every BIP-39 word can be entered.  C23: the search by
    keys is exact.  C24: the table of sequences leaves one word where one key is left.

  This theory adds C13, which spans codec and transport.

  \<^bold>\<open>Bounds and fuel.\<close>  Loops that consume input are total functions with a termination proof.  Two
  recursions take a bound.  Encoder and decoder take the number of stack frames left for nested
  messages and panic without any; C1 shows that the nesting depth is enough, C2 that more frames than
  there are bytes always are.  The reading loops of the transport, which wait for the peer, return
  \<open>None\<close> if they never end; C7 and C36 prove that they end.  So do the client's operations that talk to the device;
  C14 and C18 prove that they return when the device answers.  So do the loops over lines and pages of a text;
  C29 and C30 prove that they end.  The initialisation of the flash spins while a reader
  holds the lock; C38 shows that it returns when there is none.

  \<^bold>\<open>What is not modelled.\<close>  Drawing (fonts, images, displays, shapes), the
  constructors of screens from Python arguments, floating-point computations (a parameter where a
  modelled component uses one), the glue to C and MicroPython, hardware drivers, and generated code.
  The passphrase keyboard, the choice of the number of words and the input methods of the two-button model
  repeat the pattern of the keyboards above over further tables of keys; the storage module wraps calls into C.
\<close>

section \<open>Messages over the wire\<close>



end
